(* ===== verification/Prelude.thy ===== *)
theory Prelude
  imports Main "HOL-Library.Sublist"
begin

text \<open>
  Shared ground of the development: the state and error monad every asynchronous
  method of the program is modelled in, a small Hoare logic for it, and generic
  lemmas on lists.

  A method that takes \<open>&self\<close> or \<open>&mut self\<close> and returns \<open>Result<T, E>\<close> is a
  function from a state to the result and the state it leaves, also when it
  returns an error: what was done before the error is not rolled back.
\<close>

named_theorems io_simps \<open>how the combinators act on a state\<close>
named_theorems hoare_rules \<open>proof rules of the Hoare logic, one per combinator\<close>

type_synonym ('s, 'e, 'a) io = "'s \<Rightarrow> ('e + 'a) \<times> 's"

definition io_return :: "'a \<Rightarrow> ('s, 'e, 'a) io" where
  "io_return x s = (Inr x, s)"

definition io_throw :: "'e \<Rightarrow> ('s, 'e, 'a) io" where
  "io_throw e s = (Inl e, s)"

text \<open>\<open>io_try\<close> is a \<open>match\<close> on the \<open>Result\<close>; \<open>io_bind\<close> is the \<open>?\<close> operator.\<close>

definition io_try :: "('s, 'e, 'a) io \<Rightarrow> ('e + 'a \<Rightarrow> ('s, 'f, 'b) io) \<Rightarrow> ('s, 'f, 'b) io" where
  "io_try m k s = (case m s of (r, s') \<Rightarrow> k r s')"

definition io_bind :: "('s, 'e, 'a) io \<Rightarrow> ('a \<Rightarrow> ('s, 'e, 'b) io) \<Rightarrow> ('s, 'e, 'b) io" where
  "io_bind m k s = (case m s of (Inl e, s') \<Rightarrow> (Inl e, s') | (Inr x, s') \<Rightarrow> k x s')"

definition io_get :: "('s \<Rightarrow> 'a) \<Rightarrow> ('s, 'e, 'a) io" where
  "io_get f s = (Inr (f s), s)"

definition io_modify :: "('s \<Rightarrow> 's) \<Rightarrow> ('s, 'e, unit) io" where
  "io_modify f s = (Inr (), f s)"

definition io_result :: "'e + 'a \<Rightarrow> ('s, 'e, 'a) io" where
  "io_result r s = (r, s)"

text \<open>A \<open>for\<close> loop whose body may fail with \<open>?\<close>, threading an accumulator.\<close>

primrec io_fold :: "('x \<Rightarrow> 'a \<Rightarrow> ('s, 'e, 'a) io) \<Rightarrow> 'x list \<Rightarrow> 'a \<Rightarrow> ('s, 'e, 'a) io" where
  "io_fold f [] a = io_return a"
| "io_fold f (x # xs) a = io_bind (f x a) (io_fold f xs)"

lemma io_return_apply [io_simps]: "io_return x s = (Inr x, s)"
  by (simp add: io_return_def)

lemma io_throw_apply [io_simps]: "io_throw e s = (Inl e, s)"
  by (simp add: io_throw_def)

lemma io_try_apply [io_simps]: "io_try m k s = (case m s of (r, s') \<Rightarrow> k r s')"
  by (simp add: io_try_def)

lemma io_bind_apply [io_simps]:
  "io_bind m k s = (case m s of (Inl e, s') \<Rightarrow> (Inl e, s') | (Inr x, s') \<Rightarrow> k x s')"
  by (simp add: io_bind_def)

lemma io_get_apply [io_simps]: "io_get f s = (Inr (f s), s)"
  by (simp add: io_get_def)

lemma io_modify_apply [io_simps]: "io_modify f s = (Inr (), f s)"
  by (simp add: io_modify_def)

lemma io_result_apply [io_simps]: "io_result r s = (r, s)"
  by (simp add: io_result_def)

text \<open>
  Weak congruence: the simplifier evaluates the first action and leaves the
  continuation alone until its argument is known, as a call-by-value run does.
\<close>

lemma io_bind_weak_cong [cong]: "m = m' \<Longrightarrow> io_bind m k = io_bind m' k"
  by simp

lemma io_try_weak_cong [cong]: "m = m' \<Longrightarrow> io_try m k = io_try m' k"
  by simp

lemma io_bind_Inr: "m s = (Inr x, s') \<Longrightarrow> io_bind m k s = k x s'"
  by (simp add: io_simps)

lemma io_bind_Inl: "m s = (Inl e, s') \<Longrightarrow> io_bind m k s = (Inl e, s')"
  by (simp add: io_simps)

lemma io_bind_result:
  "io_bind m k s = (Inr y, s') \<longleftrightarrow> (\<exists>x t. m s = (Inr x, t) \<and> k x t = (Inr y, s'))"
  by (auto simp: io_simps split: prod.splits sum.splits)

lemma io_bind_assoc: "io_bind (io_bind m f) g = io_bind m (\<lambda>x. io_bind (f x) g)"
  by (rule ext) (simp add: io_simps split: prod.splits sum.splits)

text \<open>Taking a run apart: what was bound or matched is an outcome of the first action.\<close>

lemma io_tryD: "io_try m k s = (r, s') \<Longrightarrow> \<exists>q t. m s = (q, t) \<and> k q t = (r, s')"
  by (auto simp: io_simps split: prod.splits)

lemma io_bindD:
  "io_bind m k s = (r, s') \<Longrightarrow>
     (\<exists>e. m s = (Inl e, s') \<and> r = Inl e) \<or> (\<exists>x t. m s = (Inr x, t) \<and> k x t = (r, s'))"
  by (auto simp: io_simps split: prod.splits sum.splits)

section \<open>Hoare logic\<close>

text \<open>
  \<open>hoare P m Q\<close>: from a state satisfying \<open>P\<close>, every outcome of \<open>m\<close>, value or error,
  satisfies \<open>Q\<close>. Methods of the model are total functions, so this is total
  correctness: there is always an outcome.
\<close>

definition hoare :: "('s \<Rightarrow> bool) \<Rightarrow> ('s, 'e, 'a) io \<Rightarrow> ('e + 'a \<Rightarrow> 's \<Rightarrow> bool) \<Rightarrow> bool" where
  "hoare P m Q \<longleftrightarrow> (\<forall>s r s'. P s \<longrightarrow> m s = (r, s') \<longrightarrow> Q r s')"

lemma hoareI: "(\<And>s r s'. P s \<Longrightarrow> m s = (r, s') \<Longrightarrow> Q r s') \<Longrightarrow> hoare P m Q"
  by (simp add: hoare_def)

lemma hoareD: "hoare P m Q \<Longrightarrow> P s \<Longrightarrow> m s = (r, s') \<Longrightarrow> Q r s'"
  by (simp add: hoare_def)

lemma hoare_return [hoare_rules]: "(\<And>s. P s \<Longrightarrow> Q (Inr x) s) \<Longrightarrow> hoare P (io_return x) Q"
  by (auto simp: hoare_def io_simps)

lemma hoare_throw [hoare_rules]: "(\<And>s. P s \<Longrightarrow> Q (Inl e) s) \<Longrightarrow> hoare P (io_throw e) Q"
  by (auto simp: hoare_def io_simps)

lemma hoare_result [hoare_rules]: "(\<And>s. P s \<Longrightarrow> Q r s) \<Longrightarrow> hoare P (io_result r) Q"
  by (auto simp: hoare_def io_simps)

lemma hoare_try [hoare_rules]:
  "hoare P m R \<Longrightarrow> (\<And>r. hoare (R r) (k r) Q) \<Longrightarrow> hoare P (io_try m k) Q"
  by (fastforce simp: hoare_def io_simps split: prod.splits)

lemma hoare_bind [hoare_rules]:
  assumes "hoare P m R"
    and "\<And>e s. R (Inl e) s \<Longrightarrow> Q (Inl e) s"
    and "\<And>x. hoare (R (Inr x)) (k x) Q"
  shows "hoare P (io_bind m k) Q"
proof (rule hoareI)
  fix s r s'
  assume P: "P s" and run: "io_bind m k s = (r, s')"
  obtain r1 s1 where m: "m s = (r1, s1)" by (cases "m s")
  have R: "R r1 s1" using assms(1) P m by (rule hoareD)
  show "Q r s'"
  proof (cases r1)
    case (Inl e)
    with m run have "r = Inl e" "s' = s1" by (auto simp: io_simps)
    with R Inl assms(2) show ?thesis by blast
  next
    case (Inr x)
    with m run have "k x s1 = (r, s')" by (simp add: io_simps)
    with R Inr show ?thesis by (blast intro: hoareD [OF assms(3)])
  qed
qed

lemma hoare_get [hoare_rules]: "(\<And>s. P s \<Longrightarrow> Q (Inr (f s)) s) \<Longrightarrow> hoare P (io_get f) Q"
  by (auto simp: hoare_def io_simps)

lemma hoare_modify [hoare_rules]: "(\<And>s. P s \<Longrightarrow> Q (Inr ()) (f s)) \<Longrightarrow> hoare P (io_modify f) Q"
  by (auto simp: hoare_def io_simps)

lemma hoare_strengthen: "hoare P' m Q \<Longrightarrow> (\<And>s. P s \<Longrightarrow> P' s) \<Longrightarrow> hoare P m Q"
  by (auto simp: hoare_def)

lemma hoare_weaken: "hoare P m Q' \<Longrightarrow> (\<And>r s. Q' r s \<Longrightarrow> Q r s) \<Longrightarrow> hoare P m Q"
  by (auto simp: hoare_def)

lemma hoare_if [hoare_rules]:
  "(b \<Longrightarrow> hoare P m Q) \<Longrightarrow> (\<not> b \<Longrightarrow> hoare P m' Q) \<Longrightarrow> hoare P (if b then m else m') Q"
  by simp

lemma hoare_fold:
  assumes "\<And>x a. x \<in> set xs \<Longrightarrow>
      hoare (I a) (f x a) (\<lambda>r s. case r of Inl e \<Rightarrow> E e s | Inr a' \<Rightarrow> I a' s)"
  shows "hoare (I a) (io_fold f xs a) (\<lambda>r s. case r of Inl e \<Rightarrow> E e s | Inr a' \<Rightarrow> I a' s)"
  using assms
proof (induction xs arbitrary: a)
  case Nil
  then show ?case by (auto intro!: hoare_return)
next
  case (Cons x xs)
  show ?case
    unfolding io_fold.simps
    by (rule hoare_bind [OF Cons.prems]) (use Cons in auto)
qed

section \<open>Actions that leave a part of the state alone\<close>

named_theorems leaves_intros \<open>actions that leave a part of the state alone\<close>

definition leaves :: "('s \<Rightarrow> 'b) \<Rightarrow> ('s, 'e, 'a) io \<Rightarrow> bool" where
  "leaves g m \<longleftrightarrow> (\<forall>s r s'. m s = (r, s') \<longrightarrow> g s' = g s)"

lemma leavesD: "leaves g m \<Longrightarrow> m s = (r, s') \<Longrightarrow> g s' = g s"
  by (simp add: leaves_def)

lemma leaves_iff: "leaves g m \<longleftrightarrow> (\<forall>s. g (snd (m s)) = g s)"
  unfolding leaves_def by (metis prod.collapse snd_conv)

lemma leaves_basic [leaves_intros]:
  "leaves g (io_return x)" "leaves g (io_throw e)" "leaves g (io_result q)" "leaves g (io_get f)"
  by (simp_all add: leaves_def io_simps)

lemma leaves_bind [leaves_intros]: "leaves g m \<Longrightarrow> (\<And>x. leaves g (k x)) \<Longrightarrow> leaves g (io_bind m k)"
  unfolding leaves_def by (blast dest: io_bindD intro: trans)

lemma leaves_try [leaves_intros]: "leaves g m \<Longrightarrow> (\<And>x. leaves g (k x)) \<Longrightarrow> leaves g (io_try m k)"
  unfolding leaves_def by (blast dest: io_tryD intro: trans)

lemma leaves_cases [leaves_intros]:
  "(b \<Longrightarrow> leaves g m) \<Longrightarrow> (\<not> b \<Longrightarrow> leaves g m') \<Longrightarrow> leaves g (if b then m else m')"
  "(\<And>e. r = Inl e \<Longrightarrow> leaves g (f e)) \<Longrightarrow> (\<And>x. r = Inr x \<Longrightarrow> leaves g (h x))
    \<Longrightarrow> leaves g (case r of Inl e \<Rightarrow> f e | Inr x \<Rightarrow> h x)"
  "(y = None \<Longrightarrow> leaves g m1) \<Longrightarrow> (\<And>x. y = Some x \<Longrightarrow> leaves g (i x))
    \<Longrightarrow> leaves g (case y of None \<Rightarrow> m1 | Some x \<Rightarrow> i x)"
  "(\<And>a b. p = (a, b) \<Longrightarrow> leaves g (l a b)) \<Longrightarrow> leaves g (case p of (a, b) \<Rightarrow> l a b)"
  by (auto split: sum.split option.split prod.split)

lemma leaves_let [leaves_intros]: "leaves g (k x) \<Longrightarrow> leaves g (let y = x in k y)"
  by simp

lemma leaves_fold [leaves_intros]: "(\<And>x a. leaves g (f x a)) \<Longrightarrow> leaves g (io_fold f xs a)"
  by (induction xs arbitrary: a) (auto intro!: leaves_intros)

lemma leaves_modify: "(\<And>s. g (f s) = g s) \<Longrightarrow> leaves g (io_modify f)"
  by (auto simp: leaves_def io_simps)

section \<open>Ordered maps as sorted association lists\<close>

text \<open>
  A \<open>BTreeMap\<close>: iteration is in key order. The invariant is \<open>sorted_wrt (<)\<close> on
  the keys; lookups are \<open>map_of\<close>.
\<close>

fun btree_insert :: "'k::linorder \<Rightarrow> 'v \<Rightarrow> ('k \<times> 'v) list \<Rightarrow> ('k \<times> 'v) list" where
  "btree_insert k v [] = [(k, v)]"
| "btree_insert k v ((k', v') # m) =
     (if k = k' then (k, v) # m
      else if k < k' then (k, v) # (k', v') # m
      else (k', v') # btree_insert k v m)"

definition btree_remove :: "'k \<Rightarrow> ('k \<times> 'v) list \<Rightarrow> ('k \<times> 'v) list" where
  "btree_remove k m = filter (\<lambda>(k', _). k' \<noteq> k) m"

definition btree_inv :: "('k::linorder \<times> 'v) list \<Rightarrow> bool" where
  "btree_inv m \<longleftrightarrow> sorted_wrt (<) (map fst m)"

lemma map_of_btree_insert [simp]: "map_of (btree_insert k v m) = (map_of m)(k \<mapsto> v)"
  by (induction k v m rule: btree_insert.induct) (auto simp: fun_eq_iff)

lemma map_of_btree_remove [simp]: "map_of (btree_remove k m) = (map_of m)(k := None)"
  by (induction m) (auto simp: btree_remove_def fun_eq_iff)

lemma keys_btree_insert: "fst ` set (btree_insert k v m) = insert k (fst ` set m)"
  by (induction k v m rule: btree_insert.induct) auto

lemma btree_inv_Nil [simp]: "btree_inv []"
  by (simp add: btree_inv_def)

lemma btree_inv_insert [simp]: "btree_inv m \<Longrightarrow> btree_inv (btree_insert k v m)"
proof (induction k v m rule: btree_insert.induct)
  case (1 k v)
  then show ?case by (simp add: btree_inv_def)
next
  case (2 k v k' v' m)
  have inner: "fst ` set (btree_insert k v m) = insert k (fst ` set m)"
    by (rule keys_btree_insert)
  show ?case
    using 2 inner by (auto simp: btree_inv_def)
qed

lemma btree_inv_remove [simp]: "btree_inv m \<Longrightarrow> btree_inv (btree_remove k m)"
proof -
  have "map fst (filter (\<lambda>(k', _). k' \<noteq> k) m) = filter (\<lambda>x. x \<noteq> k) (map fst m)"
    by (induction m) auto
  then show "btree_inv m \<Longrightarrow> btree_inv (btree_remove k m)"
    by (simp add: btree_inv_def btree_remove_def sorted_wrt_filter)
qed

lemma dom_map_of_keys: "k \<in> fst ` set m \<longleftrightarrow> map_of m k \<noteq> None"
  by (metis domIff dom_map_of_conv_image_fst)

end
