(* ===== verification/Rust_Strings.thy ===== *)
theory Rust_Strings
  imports Prelude "HOL-Library.Char_ord" "HOL-Library.List_Lexorder"
begin

text \<open>
  The string operations of Rust's standard library that the modelled code calls.
  A \<open>&str\<close> or \<open>String\<close> is the list of its UTF-8 bytes (\<open>string\<close>), so \<open>length\<close> is
  \<open>str::len\<close> and the order on strings is the byte order Rust compares them in.
  Byte buffers (\<open>Vec<u8>\<close>) have the same type; \<open>string_from_utf8\<close> is the check
  between the two.
\<close>

section \<open>Bytes and UTF-8\<close>

abbreviation byte :: "char \<Rightarrow> nat" where
  "byte c \<equiv> of_char c"

definition utf8_cont :: "nat \<Rightarrow> bool" where
  "utf8_cont b \<longleftrightarrow> 0x80 \<le> b \<and> b \<le> 0xBF"

text \<open>Length of the well-formed UTF-8 sequence at the start of a byte list, 0 if none.\<close>

definition utf8_head_len :: "nat list \<Rightarrow> nat" where
  "utf8_head_len bs =
     (case bs of
        [] \<Rightarrow> 0
      | b # r \<Rightarrow>
          if b < 0x80 then 1
          else if 0xC2 \<le> b \<and> b \<le> 0xDF then
            (case r of c # _ \<Rightarrow> if utf8_cont c then 2 else 0 | [] \<Rightarrow> 0)
          else if 0xE0 \<le> b \<and> b \<le> 0xEF then
            (case r of
               c # d # _ \<Rightarrow>
                 if utf8_cont c \<and> utf8_cont d \<and> (b = 0xE0 \<longrightarrow> 0xA0 \<le> c) \<and> (b = 0xED \<longrightarrow> c \<le> 0x9F)
                 then 3 else 0
             | _ \<Rightarrow> 0)
          else if 0xF0 \<le> b \<and> b \<le> 0xF4 then
            (case r of
               c # d # e # _ \<Rightarrow>
                 if utf8_cont c \<and> utf8_cont d \<and> utf8_cont e \<and> (b = 0xF0 \<longrightarrow> 0x90 \<le> c)
                    \<and> (b = 0xF4 \<longrightarrow> c \<le> 0x8F)
                 then 4 else 0
             | _ \<Rightarrow> 0)
          else 0)"

text \<open>\<open>chars\<close>: the scalar values of a string, each as its bytes; \<open>None\<close> if not UTF-8.\<close>

function utf8_chars :: "string \<Rightarrow> string list option" where
  "utf8_chars s =
     (if s = [] then Some []
      else (let n = utf8_head_len (map byte s) in
        if n = 0 then None
        else map_option ((#) (take n s)) (utf8_chars (drop n s))))"
  by pat_completeness auto
termination
  by (relation "measure length") auto

declare utf8_chars.simps [simp del]

definition utf8_valid :: "string \<Rightarrow> bool" where
  "utf8_valid s \<longleftrightarrow> utf8_chars s \<noteq> None"

definition string_from_utf8 :: "string \<Rightarrow> string option" where
  "string_from_utf8 b = (if utf8_valid b then Some b else None)"

definition chars :: "string \<Rightarrow> string list" where
  "chars s = (case utf8_chars s of Some cs \<Rightarrow> cs | None \<Rightarrow> map (\<lambda>c. [c]) s)"

definition ascii :: "string \<Rightarrow> bool" where
  "ascii s \<longleftrightarrow> (\<forall>c \<in> set s. byte c < 0x80)"

lemma ascii_simps [simp]:
  "ascii []" "ascii (c # s) \<longleftrightarrow> byte c < 0x80 \<and> ascii s" "ascii (s @ t) \<longleftrightarrow> ascii s \<and> ascii t"
  by (auto simp: ascii_def)

lemma utf8_chars_ascii: "ascii s \<Longrightarrow> utf8_chars s = Some (map (\<lambda>c. [c]) s)"
proof (induction s)
  case Nil
  then show ?case by (simp add: utf8_chars.simps)
next
  case (Cons c s)
  then show ?case by (subst utf8_chars.simps) (simp add: utf8_head_len_def)
qed

lemma utf8_valid_ascii [simp]: "ascii s \<Longrightarrow> utf8_valid s"
  by (simp add: utf8_valid_def utf8_chars_ascii)

lemma chars_ascii: "ascii s \<Longrightarrow> chars s = map (\<lambda>c. [c]) s"
  by (simp add: chars_def utf8_chars_ascii)

section \<open>Prefixes, suffixes, searching, splitting\<close>

definition strip_prefix :: "string \<Rightarrow> string \<Rightarrow> string option" where
  "strip_prefix p s = (if take (length p) s = p then Some (drop (length p) s) else None)"

definition strip_suffix :: "string \<Rightarrow> string \<Rightarrow> string option" where
  "strip_suffix p s =
     (if length p \<le> length s \<and> drop (length s - length p) s = p
      then Some (take (length s - length p) s) else None)"

definition starts_with :: "string \<Rightarrow> string \<Rightarrow> bool" where
  "starts_with s p \<longleftrightarrow> take (length p) s = p"

definition ends_with :: "string \<Rightarrow> string \<Rightarrow> bool" where
  "ends_with s p \<longleftrightarrow> length p \<le> length s \<and> drop (length s - length p) s = p"

fun str_contains :: "string \<Rightarrow> string \<Rightarrow> bool" where
  "str_contains [] p \<longleftrightarrow> p = []"
| "str_contains (c # s) p \<longleftrightarrow> starts_with (c # s) p \<or> str_contains s p"

fun split_on :: "char \<Rightarrow> string \<Rightarrow> string list" where
  "split_on d [] = [[]]"
| "split_on d (c # s) =
     (if c = d then [] # split_on d s
      else (case split_on d s of [] \<Rightarrow> [[c]] | w # ws \<Rightarrow> (c # w) # ws))"

text \<open>\<open>rsplit_once\<close> and \<open>split_once\<close> at a character.\<close>

definition rsplit_once :: "char \<Rightarrow> string \<Rightarrow> (string \<times> string) option" where
  "rsplit_once d s =
     (if d \<in> set s
      then Some (rev (tl (dropWhile (\<lambda>c. c \<noteq> d) (rev s))), rev (takeWhile (\<lambda>c. c \<noteq> d) (rev s)))
      else None)"

definition split_once :: "char \<Rightarrow> string \<Rightarrow> (string \<times> string) option" where
  "split_once d s =
     (if d \<in> set s
      then Some (takeWhile (\<lambda>c. c \<noteq> d) s, tl (dropWhile (\<lambda>c. c \<noteq> d) s))
      else None)"

definition trim_char :: "char \<Rightarrow> string \<Rightarrow> string" where
  "trim_char d s = rev (dropWhile (\<lambda>c. c = d) (rev (dropWhile (\<lambda>c. c = d) s)))"

fun str_join :: "string \<Rightarrow> string list \<Rightarrow> string" where
  "str_join sep [] = []"
| "str_join sep [x] = x"
| "str_join sep (x # y # xs) = x @ sep @ str_join sep (y # xs)"

lemma strip_prefix_append [simp]: "strip_prefix p (p @ s) = Some s"
  by (simp add: strip_prefix_def)

lemma strip_prefix_Some: "strip_prefix p s = Some r \<longleftrightarrow> s = p @ r"
  by (auto simp: strip_prefix_def) (metis append_take_drop_id)

lemma strip_suffix_append [simp]: "strip_suffix p (s @ p) = Some s"
  by (simp add: strip_suffix_def)

lemma strip_suffix_Some: "strip_suffix p s = Some r \<longleftrightarrow> s = r @ p"
  by (auto simp: strip_suffix_def) (metis append_take_drop_id)

lemma starts_with_iff: "starts_with s p \<longleftrightarrow> (\<exists>r. s = p @ r)"
  by (auto simp: starts_with_def) (metis append_take_drop_id)

lemma ends_with_iff: "ends_with s p \<longleftrightarrow> (\<exists>r. s = r @ p)"
  by (auto simp: ends_with_def) (metis append_take_drop_id)

lemma starts_with_append [simp]: "starts_with (p @ s) p"
  by (simp add: starts_with_def)

lemma str_contains_iff: "str_contains s p \<longleftrightarrow> (\<exists>a b. s = a @ p @ b)"
proof (induction s)
  case Nil
  then show ?case by auto
next
  case (Cons c s)
  show ?case
  proof
    assume "str_contains (c # s) p"
    then consider (here) "starts_with (c # s) p" | (later) "str_contains s p" by auto
    then show "\<exists>a b. c # s = a @ p @ b"
    proof cases
      case here
      then obtain r where "c # s = [] @ p @ r" by (auto simp: starts_with_iff)
      then show ?thesis by blast
    next
      case later
      then obtain a b where "c # s = (c # a) @ p @ b" using Cons by auto
      then show ?thesis by blast
    qed
  next
    assume "\<exists>a b. c # s = a @ p @ b"
    then obtain a b where eq: "c # s = a @ p @ b" by blast
    show "str_contains (c # s) p"
    proof (cases a)
      case Nil
      with eq have "starts_with (c # s) p" by (auto simp: starts_with_iff)
      then show ?thesis by simp
    next
      case (Cons a1 as)
      with eq have "s = as @ p @ b" by simp
      with Cons.IH show ?thesis by auto
    qed
  qed
qed

lemma split_on_nonempty [simp]: "split_on d s \<noteq> []"
  by (induction s) (auto split: list.splits)

lemma split_on_join: "str_join [d] (split_on d s) = s"
proof (induction s)
  case Nil
  then show ?case by simp
next
  case (Cons c s)
  obtain w ws where w: "split_on d s = w # ws"
    by (cases "split_on d s") auto
  have "str_join [d] ((c # w) # ws) = c # str_join [d] (w # ws)"
    by (cases ws) auto
  with Cons w show ?case by simp
qed

lemma split_on_pieces: "w \<in> set (split_on d s) \<Longrightarrow> d \<notin> set w"
  by (induction s arbitrary: w) (auto split: list.splits if_splits)

lemma split_on_no_sep: "d \<notin> set s \<Longrightarrow> split_on d s = [s]"
  by (induction s) auto

lemma split_on_append_sep: "d \<notin> set a \<Longrightarrow> split_on d (a @ d # b) = a # split_on d b"
  by (induction a) auto

lemma rsplit_once_append:
  assumes "d \<notin> set b"
  shows "rsplit_once d (a @ d # b) = Some (a, b)"
proof -
  have "dropWhile (\<lambda>c. c \<noteq> d) (rev b @ d # rev a) = d # rev a"
    using assms by (subst dropWhile_append2) auto
  moreover have "takeWhile (\<lambda>c. c \<noteq> d) (rev b @ d # rev a) = rev b"
    using assms by (subst takeWhile_append2) auto
  ultimately show ?thesis by (simp add: rsplit_once_def)
qed

lemma rsplit_once_Some: "rsplit_once d s = Some (a, b) \<Longrightarrow> s = a @ d # b \<and> d \<notin> set b"
proof -
  assume eq: "rsplit_once d s = Some (a, b)"
  then have "d \<in> set s" by (simp add: rsplit_once_def split: if_splits)
  then obtain a' b' where "s = a' @ d # b'" "d \<notin> set b'"
    by (meson split_list_last)
  with eq rsplit_once_append [of d b' a'] show ?thesis by simp
qed

lemma rsplit_once_None: "rsplit_once d s = None \<longleftrightarrow> d \<notin> set s"
  by (simp add: rsplit_once_def)

lemma dropWhile_hd_id: "s \<noteq> [] \<Longrightarrow> \<not> P (hd s) \<Longrightarrow> dropWhile P s = s"
  by (cases s) auto

lemma trim_char_ends:
  assumes "s \<noteq> []" "hd s \<noteq> d" "last s \<noteq> d"
  shows "trim_char d s = s"
  using assms by (simp add: trim_char_def dropWhile_hd_id hd_rev)

lemma trim_char_none:
  assumes "d \<notin> set s"
  shows "trim_char d s = s"
proof (cases "s = []")
  case True
  then show ?thesis by (simp add: trim_char_def)
next
  case False
  then have "hd s \<noteq> d" "last s \<noteq> d"
    using assms hd_in_set last_in_set by metis+
  with False show ?thesis by (rule trim_char_ends)
qed

section \<open>Whitespace and letter case\<close>

text \<open>
  Length of the Unicode \<open>White_Space\<close> character at the start of a byte list (0 if
  none), and the same at the end, read backwards.
\<close>

definition ws_head_len :: "nat list \<Rightarrow> nat" where
  "ws_head_len bs =
     (case bs of
        [] \<Rightarrow> 0
      | b # r \<Rightarrow>
          if (9 \<le> b \<and> b \<le> 13) \<or> b = 32 then 1
          else (case r of
              [] \<Rightarrow> 0
            | c # r' \<Rightarrow>
                if b = 0xC2 \<and> (c = 0x85 \<or> c = 0xA0) then 2
                else (case r' of
                    [] \<Rightarrow> 0
                  | d # _ \<Rightarrow>
                      if (b = 0xE1 \<and> c = 0x9A \<and> d = 0x80)
                         \<or> (b = 0xE2 \<and> c = 0x80 \<and>
                             ((0x80 \<le> d \<and> d \<le> 0x8A) \<or> d = 0xA8 \<or> d = 0xA9 \<or> d = 0xAF))
                         \<or> (b = 0xE2 \<and> c = 0x81 \<and> d = 0x9F)
                         \<or> (b = 0xE3 \<and> c = 0x80 \<and> d = 0x80)
                      then 3 else 0)))"

definition ws_last_len :: "nat list \<Rightarrow> nat" where
  "ws_last_len bs =
     (let n = (if ws_head_len (take 1 bs) = 1 then 1
               else if ws_head_len (rev (take 2 bs)) = 2 then 2
               else if ws_head_len (rev (take 3 bs)) = 3 then 3 else 0) in n)"

function trim_start_by :: "(nat list \<Rightarrow> nat) \<Rightarrow> string \<Rightarrow> string" where
  "trim_start_by f s =
     (if s = [] \<or> f (map byte s) = 0 then s else trim_start_by f (drop (f (map byte s)) s))"
  by pat_completeness auto
termination
  by (relation "measure (\<lambda>(f, s). length s)") auto

declare trim_start_by.simps [simp del]

definition trim :: "string \<Rightarrow> string" where
  "trim s = rev (trim_start_by ws_last_len (rev (trim_start_by ws_head_len s)))"

definition graphic :: "char \<Rightarrow> bool" where
  "graphic c \<longleftrightarrow> 33 \<le> byte c \<and> byte c < 127"

lemma ws_head_len_graphic: "33 \<le> b \<Longrightarrow> b < 127 \<Longrightarrow> ws_head_len (b # r) = 0"
  by (cases r rule: remdups_adj.cases) (auto simp: ws_head_len_def)

lemma ws_head_len_ends:
  "ws_head_len [d, c] = 2 \<Longrightarrow> 0x80 \<le> c" "ws_head_len [e, d, c] = 3 \<Longrightarrow> 0x80 \<le> c"
  by (auto simp: ws_head_len_def split: if_splits)

lemma ws_last_len_graphic:
  assumes "33 \<le> b" "b < 127"
  shows "ws_last_len (b # r) = 0"
proof -
  have 1: "ws_head_len [b] = 0" using assms by (rule ws_head_len_graphic)
  have 2: "ws_head_len (rev (take 2 (b # r))) \<noteq> 2"
    using assms 1 ws_head_len_ends(1) [of _ b] by (cases r) auto
  have 3: "ws_head_len (rev (take 3 (b # r))) \<noteq> 3"
  proof (cases r)
    case Nil
    then show ?thesis using 1 by simp
  next
    case (Cons d r')
    have "ws_head_len [d, b] \<noteq> 3" by (simp add: ws_head_len_def)
    then show ?thesis
      using Cons assms ws_head_len_ends(2) [of _ d b] by (cases r') auto
  qed
  show ?thesis using 1 2 3 by (simp add: ws_last_len_def)
qed

lemma trim_graphic_ends:
  assumes "s \<noteq> []" "graphic (hd s)" "graphic (last s)"
  shows "trim s = s"
proof -
  have "trim_start_by ws_head_len s = s"
    using assms by (subst trim_start_by.simps) (cases s; simp add: graphic_def ws_head_len_graphic)
  moreover have "trim_start_by ws_last_len (rev s) = rev s"
  proof -
    obtain c r where r: "rev s = c # r" using assms by (cases "rev s") auto
    then have "graphic c" using assms(3) by (metis hd_rev list.sel(1))
    then have "ws_last_len (map byte (c # r)) = 0"
      by (simp add: graphic_def ws_last_len_graphic)
    with r show ?thesis by (subst trim_start_by.simps) simp
  qed
  ultimately show ?thesis by (simp add: trim_def)
qed

lemma trim_Nil [simp]: "trim [] = []"
  by (simp add: trim_def trim_start_by.simps)

definition ascii_lower_char :: "char \<Rightarrow> char" where
  "ascii_lower_char c = (if 65 \<le> byte c \<and> byte c \<le> 90 then char_of (byte c + 32) else c)"

definition to_ascii_lowercase :: "string \<Rightarrow> string" where
  "to_ascii_lowercase s = map ascii_lower_char s"

lemma length_to_ascii_lowercase [simp]: "length (to_ascii_lowercase s) = length s"
  by (simp add: to_ascii_lowercase_def)

lemma ascii_lower_char_idem [simp]: "ascii_lower_char (ascii_lower_char c) = ascii_lower_char c"
  by (auto simp: ascii_lower_char_def)

lemma to_ascii_lowercase_idem [simp]: "to_ascii_lowercase (to_ascii_lowercase s) = to_ascii_lowercase s"
  by (simp add: to_ascii_lowercase_def)

section \<open>Numbers\<close>

definition digit_char :: "nat \<Rightarrow> char" where
  "digit_char d = char_of (48 + d)"

fun nat_str :: "nat \<Rightarrow> string" where
  "nat_str n = (if n < 10 then [digit_char n] else nat_str (n div 10) @ [digit_char (n mod 10)])"

declare nat_str.simps [simp del]

definition is_digit_char :: "char \<Rightarrow> bool" where
  "is_digit_char c \<longleftrightarrow> 48 \<le> byte c \<and> byte c \<le> 57"

definition digits_val :: "string \<Rightarrow> nat" where
  "digits_val s = foldl (\<lambda>n c. 10 * n + (byte c - 48)) 0 s"

text \<open>\<open>format!("{:0w}")\<close> of an unsigned number.\<close>

definition zero_padded :: "nat \<Rightarrow> nat \<Rightarrow> string" where
  "zero_padded w n = replicate (w - length (nat_str n)) (CHR ''0'') @ nat_str n"

text \<open>\<open>str::parse::<u64>\<close>: an optional plus sign, digits, no overflow.\<close>

definition parse_u64 :: "string \<Rightarrow> nat option" where
  "parse_u64 s =
     (let d = (case s of c # r \<Rightarrow> if c = CHR ''+'' then r else s | [] \<Rightarrow> []) in
      if d \<noteq> [] \<and> list_all is_digit_char d \<and> digits_val d < 2 ^ 64 then Some (digits_val d) else None)"

lemma byte_digit_char [simp]: "d < 10 \<Longrightarrow> byte (digit_char d) = 48 + d"
  by (simp add: digit_char_def)

lemma digits_val_snoc: "digits_val (s @ [c]) = 10 * digits_val s + (byte c - 48)"
  by (simp add: digits_val_def)

lemma nat_str_digits: "list_all is_digit_char (nat_str n)"
proof (induction n rule: nat_str.induct)
  case (1 n)
  have "is_digit_char (digit_char (n mod 10))" "n < 10 \<Longrightarrow> is_digit_char (digit_char n)"
    by (simp_all add: is_digit_char_def)
  with 1 show ?case by (subst nat_str.simps) simp
qed

lemma nat_str_nonempty [simp]: "nat_str n \<noteq> []"
  by (subst nat_str.simps) simp

lemma digits_val_nat_str [simp]: "digits_val (nat_str n) = n"
proof (induction n rule: nat_str.induct)
  case (1 n)
  then show ?case
    by (cases "n < 10") (auto simp: nat_str.simps [of n] digits_val_snoc digits_val_def)
qed

lemma nat_str_inj: "nat_str m = nat_str n \<longleftrightarrow> m = n"
  by (metis digits_val_nat_str)

lemma digits_val_zeros: "digits_val (replicate k (CHR ''0'') @ s) = digits_val s"
  by (induction k) (auto simp: digits_val_def)

lemma zero_padded_digits: "list_all is_digit_char (zero_padded w n)"
  using nat_str_digits [of n] by (auto simp: zero_padded_def list_all_iff is_digit_char_def)

lemma digit_not_plus: "is_digit_char c \<Longrightarrow> c \<noteq> CHR ''+''"
  by (auto simp: is_digit_char_def)

lemma parse_zero_padded: "n < 2 ^ 64 \<Longrightarrow> parse_u64 (zero_padded w n) = Some n"
proof -
  assume n: "n < 2 ^ 64"
  let ?s = "zero_padded w n"
  have ne: "?s \<noteq> []" by (simp add: zero_padded_def)
  then obtain c r where s: "?s = c # r" by (cases ?s) auto
  have "is_digit_char c" using zero_padded_digits [of w n] s by simp
  then have "c \<noteq> CHR ''+''" by (rule digit_not_plus)
  moreover have "digits_val ?s = n"
    by (simp add: zero_padded_def digits_val_zeros)
  ultimately show ?thesis
    using n s zero_padded_digits [of w n] by (simp add: parse_u64_def)
qed

lemma graphic_digit: "is_digit_char c \<Longrightarrow> graphic c"
  by (auto simp: is_digit_char_def graphic_def)

lemma ascii_graphic: "list_all graphic s \<Longrightarrow> ascii s"
  by (auto simp: list_all_iff graphic_def ascii_def)

lemma nat_str_graphic: "list_all graphic (nat_str n)"
  using nat_str_digits [of n] by (auto simp: list_all_iff graphic_digit)

end
