(* ===== verification/Core_Types.thy ===== *)
theory Core_Types
  imports Rust_Strings "HOL-Library.Word"
begin

text \<open>
  The data of the core crate: \<open>CoreError\<close> (\<open>error.rs\<close>) and the records and enums of
  the metadata protocol (\<open>metadata/types.rs\<close>). Record fields carry a short prefix
  for their struct, because field selectors share one name space in HOL.
  Unsigned machine integers are words of their width, timestamps are the RFC 3339
  strings the code stores.
\<close>

type_synonym u16 = "16 word"
type_synonym u32 = "32 word"
type_synonym u64 = "64 word"
type_synonym uuid = "128 word"
type_synonym file_id = uuid
type_synonym device_id = uuid
type_synonym revision_id = uuid
type_synonym blob_id = uuid
type_synonym op_id = string
type_synonym timestamp = string

section \<open>Errors\<close>

datatype core_error =
    is_S3: S3 string
  | Database string
  | is_Config: Config string
  | is_Network: Network string
  | FileSystem string
  | is_Conflict: Conflict string
  | is_NotFound: NotFound string
  | Auth string
  | is_Protocol: Protocol string
  | Internal string
  | InvalidName string
  | NameExists string
  | ProtectedRoot
  | OutsideNotes
  | SymlinkNotAllowed
  | NotAvailableOffline
  | NoteTooLarge u64 u64
  | InvalidUtf8
  | WorkspaceChanged
  | StaleWrite file_id
  | RequestMismatch
  | WorkspaceBusy
  | MutationUnavailable
  | StaleCursor
  | BackupDestinationInsideSyncFolder
  | BackupTargetExists string
  | BackupCancelled
  | NotesChangedDuringBackup
  | CloudOnlyUnavailable u64
  | ArchiveCorrupted string
  | ArchiveQuotaExceeded string
  | OutputDirectoryNotEmpty string

fun core_error_text :: "core_error \<Rightarrow> string" where
  "core_error_text (S3 m) = ''S3 error: '' @ m"
| "core_error_text (Database m) = ''Database error: '' @ m"
| "core_error_text (Config m) = ''Configuration error: '' @ m"
| "core_error_text (Network m) = ''Network error: '' @ m"
| "core_error_text (FileSystem m) = ''File system error: '' @ m"
| "core_error_text (Conflict m) = ''Conflict: '' @ m"
| "core_error_text (NotFound m) = ''Not found: '' @ m"
| "core_error_text (Auth m) = ''Authentication failed: '' @ m"
| "core_error_text (Protocol m) = ''Protocol error: '' @ m"
| "core_error_text (Internal m) = ''Internal error: '' @ m"
| "core_error_text (InvalidName m) = ''Invalid name: '' @ m"
| "core_error_text (NameExists m) = ''A file or folder with this name already exists: '' @ m"
| "core_error_text ProtectedRoot = ''The Notes folder cannot be renamed, moved, or deleted''"
| "core_error_text OutsideNotes = ''This item is outside the Notes folder''"
| "core_error_text SymlinkNotAllowed = ''Links cannot be opened in Notes''"
| "core_error_text NotAvailableOffline = ''This note is not available offline yet''"
| "core_error_text (NoteTooLarge bytes limit) =
     ''This note is too large to edit ('' @ nat_str (unat bytes) @ '' bytes; limit ''
       @ nat_str (unat limit) @ '' bytes)''"
| "core_error_text InvalidUtf8 = ''This file is not valid UTF-8 text''"
| "core_error_text WorkspaceChanged = ''The connected workspace changed; reopen Notes''"
| "core_error_text (StaleWrite note) = ''This note changed elsewhere; reopen it before saving''"
| "core_error_text RequestMismatch = ''This request id was already used for a different operation''"
| "core_error_text WorkspaceBusy = ''Another process is changing this folder. Try again shortly''"
| "core_error_text MutationUnavailable =
     ''Notes changes need a safe Windows filesystem adapter; reading remains available''"
| "core_error_text StaleCursor = ''The folder changed; reload the list''"
| "core_error_text BackupDestinationInsideSyncFolder =
     ''Backup destination cannot be inside the sync folder or .s4drive''"
| "core_error_text (BackupTargetExists m) = ''Backup destination already exists: '' @ m"
| "core_error_text BackupCancelled = ''Backup was cancelled''"
| "core_error_text NotesChangedDuringBackup = ''Notes changed during backup. Try again.''"
| "core_error_text (CloudOnlyUnavailable n) =
     nat_str (unat n) @ '' notes are cloud-only and unavailable offline. Connect and sync before backup.''"
| "core_error_text (ArchiveCorrupted m) = ''Backup archive is corrupted or invalid: '' @ m"
| "core_error_text (ArchiveQuotaExceeded m) = ''Backup archive exceeds limits: '' @ m"
| "core_error_text (OutputDirectoryNotEmpty m) = ''Extraction target directory is not empty: '' @ m"

type_synonym 'a core_result = "core_error + 'a"

section \<open>Bucket and devices\<close>

record bucket_descriptor =
  bd_bucket_id :: uuid
  bd_schema_version :: u32
  bd_created_at :: timestamp
  bd_owner :: string
  bd_capabilities :: "string list"
  bd_min_client_version :: string

record device_capabilities =
  dc_cloud_files_api :: bool
  dc_file_provider :: bool
  dc_fuse :: bool
  dc_background_sync :: bool
  dc_encryption_at_rest :: bool

record device =
  dv_device_id :: device_id
  dv_device_name :: string
  dv_platform :: string
  dv_os_version :: string
  dv_public_key :: string
  dv_last_seen :: timestamp
  dv_capabilities :: device_capabilities
  dv_client_version :: string

datatype device_watermark_status = Active | Retired

record device_watermark =
  wm_device_id :: device_id
  wm_last_seen_at :: timestamp
  wm_applied_snapshot_seq :: u64
  wm_applied_head :: op_id
  wm_client_version :: string
  wm_status :: device_watermark_status

record snapshot_metadata =
  sm_schema_version :: u32
  sm_seq_num :: u64
  sm_created_at :: timestamp
  sm_entry_count :: u64
  sm_tree_key :: string
  sm_covered_head :: "op_id option"

section \<open>File entries\<close>

datatype entry_type = File | Folder | Symlink

record content_ref =
  cr_blob_id :: blob_id
  cr_hash :: string
  cr_size :: u64
  cr_mime :: string
  cr_storage_key :: string

record file_attributes =
  fa_favorite :: bool
  fa_shared :: bool
  fa_tags :: "string list"

datatype lock_mode = Soft | Hard | Read | Write

record lock_state =
  lk_locked :: bool
  lk_owner_device_id :: "device_id option"
  lk_mode :: "lock_mode option"
  lk_expires_at :: "timestamp option"

record file_entry =
  fe_file_id :: file_id
  fe_parent_id :: "file_id option"
  fe_name :: string
  fe_normalized_name :: string
  fe_entry_type :: entry_type
  fe_current_revision_id :: "revision_id option"
  fe_content_ref :: "content_ref option"
  fe_size :: u64
  fe_content_hash :: "string option"
  fe_mime :: "string option"
  fe_created_at :: timestamp
  fe_updated_at :: timestamp
  fe_deleted_at :: "timestamp option"
  fe_version_history :: "revision_id list"
  fe_attributes :: file_attributes
  fe_lock_state :: lock_state

record encryption_info =
  ei_encrypted :: bool
  ei_algorithm :: "string option"
  ei_key_id :: "string option"

record content_blob =
  cb_blob_id :: blob_id
  cb_hash :: string
  cb_hash_algorithm :: string
  cb_size :: u64
  cb_checksum :: "string option"
  cb_storage_key :: string
  cb_encryption_info :: encryption_info
  cb_created_by :: device_id
  cb_created_at :: timestamp
  cb_ref_count :: u32

section \<open>Operations, revisions, tombstones, locks\<close>

datatype op_type =
  CreateFolder | CreateFile | UploadNewRevision | Rename | Move | Delete | Restore | UpdateMetadata

record preconditions =
  pre_expected_etag :: "string option"
  pre_expected_version_id :: "string option"
  pre_file_exists :: bool
  pre_parent_exists :: bool

record effects =
  ef_new_revision_id :: "revision_id option"
  ef_new_content_ref :: "content_ref option"
  ef_new_name :: "string option"
  ef_new_parent_id :: "file_id option"
  ef_deleted :: bool

record operation =
  op_op_id :: op_id
  op_device_id :: device_id
  op_actor_id :: string
  op_logical_clock :: u64
  op_base_head :: string
  op_target_file_id :: "file_id option"
  op_op_type :: op_type
  op_preconditions :: preconditions
  op_effects :: effects
  op_timestamp :: timestamp
  op_signature :: "string option"

datatype merge_state = Clean | Merged | Conflicted

record conflict_info =
  ci_conflict_type :: string
  ci_sibling_revisions :: "revision_id list"
  ci_resolution :: string

record revision =
  rv_revision_id :: revision_id
  rv_file_id :: file_id
  rv_parent_revision_id :: "revision_id option"
  rv_content_ref :: "content_ref option"
  rv_author_device_id :: device_id
  rv_created_at :: timestamp
  rv_base_revision_id :: "revision_id option"
  rv_merge_state :: merge_state
  rv_conflict_info :: "conflict_info option"

record tombstone =
  ts_file_id :: file_id
  ts_path_at_delete :: string
  ts_name_at_delete :: string
  ts_deleted_by :: string
  ts_deleted_at :: timestamp
  ts_retention_until :: timestamp
  ts_content_refs :: "blob_id list"
  ts_restorable :: bool

record file_lock =
  fl_file_id :: file_id
  fl_owner_device_id :: device_id
  fl_actor :: string
  fl_mode :: lock_mode
  fl_expires_at :: timestamp
  fl_heartbeat_at :: timestamp
  fl_reason :: string

definition lock_state_default :: lock_state where
  "lock_state_default =
     \<lparr>lk_locked = False, lk_owner_device_id = None, lk_mode = None, lk_expires_at = None\<rparr>"

definition file_attributes_default :: file_attributes where
  "file_attributes_default = \<lparr>fa_favorite = False, fa_shared = False, fa_tags = []\<rparr>"

text \<open>The persistent cursor of the op-log compactor (\<open>compaction.rs\<close>).\<close>

record op_compaction_cursor =
  oc_schema_version :: u32
  oc_snapshot_seq :: u64
  oc_covered_head :: string
  oc_next_op :: string
  oc_pending_delete :: "string list"

end
