(* ===== verification/Runtime.thy ===== *)
theory Runtime
  imports Core_Types
begin

text \<open>
  What the modelled code takes from outside the repository: the \<open>uuid\<close>, \<open>chrono\<close>,
  \<open>serde_json\<close> and \<open>blake3\<close> crates, the Unicode case tables of the standard library
  and the ETag function of the object store. All of it is the parameter \<open>L :: libs\<close>
  of the definitions; \<open>libs_ok L\<close> states the documented behaviour the properties
  rely on. Text conversion of a value may fail with a message, hence the sums.
\<close>

record 'a codec =
  encode :: "'a \<Rightarrow> string + string"
  decode :: "string \<Rightarrow> string + 'a"

record libs =
  uuid_now_v7 :: "nat \<Rightarrow> uuid"
  uuid_text :: "uuid \<Rightarrow> string"
  uuid_parse :: "string \<Rightarrow> uuid option"
  uuid_bytes :: "uuid \<Rightarrow> string"
  uuid_from_custom_bytes :: "string \<Rightarrow> uuid"
  rfc3339_text :: "int \<Rightarrow> string"
  rfc3339_parse :: "string \<Rightarrow> string + int"
  utf8_error_text :: "string \<Rightarrow> string"
  unicode_lowercase :: "string \<Rightarrow> string"
  unicode_uppercase :: "string \<Rightarrow> string"
  blake3_digest :: "string \<Rightarrow> string"
  hex_text :: "string \<Rightarrow> string"
  store_etag :: "string \<Rightarrow> string"
  client_version :: string
  json_descriptor :: "bucket_descriptor codec"
  json_device :: "device codec"
  json_device_capabilities :: "device_capabilities codec"
  json_watermark :: "device_watermark codec"
  json_snapshot_metadata :: "snapshot_metadata codec"
  json_entry :: "file_entry codec"
  json_entries :: "file_entry list codec"
  json_operation :: "operation codec"
  json_tombstone :: "tombstone codec"
  json_cursor :: "op_compaction_cursor codec"

text \<open>
  Serde's derived implementations are inverse to each other and produce UTF-8.
\<close>

definition codec_ok :: "'a codec \<Rightarrow> bool" where
  "codec_ok c \<longleftrightarrow> (\<forall>x. \<exists>t. encode c x = Inr t \<and> decode c t = Inr x \<and> utf8_valid t)"

definition libs_ok :: "libs \<Rightarrow> bool" where
  "libs_ok L \<longleftrightarrow>
     (\<forall>u. uuid_parse L (uuid_text L u) = Some u)
   \<and> (\<forall>u. uuid_text L u \<noteq> [] \<and> list_all graphic (uuid_text L u)
          \<and> CHR ''/'' \<notin> set (uuid_text L u) \<and> CHR '':'' \<notin> set (uuid_text L u))
   \<and> (\<forall>t. rfc3339_parse L (rfc3339_text L t) = Inr t)
   \<and> inj (store_etag L) \<and> (\<forall>b. CHR 0x22 \<notin> set (store_etag L b))
   \<and> codec_ok (json_descriptor L) \<and> codec_ok (json_device L) \<and> codec_ok (json_device_capabilities L)
   \<and> codec_ok (json_watermark L) \<and> codec_ok (json_snapshot_metadata L)
   \<and> codec_ok (json_entry L) \<and> codec_ok (json_entries L) \<and> codec_ok (json_operation L)
   \<and> codec_ok (json_tombstone L) \<and> codec_ok (json_cursor L)"

definition from_json :: "'a codec \<Rightarrow> string \<Rightarrow> 'a core_result" where
  "from_json c t = (case decode c t of Inl m \<Rightarrow> Inl (Protocol m) | Inr x \<Rightarrow> Inr x)"

definition to_json :: "'a codec \<Rightarrow> 'a \<Rightarrow> string core_result" where
  "to_json c x = (case encode c x of Inl m \<Rightarrow> Inl (Protocol m) | Inr t \<Rightarrow> Inr t)"

text \<open>Text of a value whose encoding succeeds; used in statements only.\<close>

definition json_of :: "'a codec \<Rightarrow> 'a \<Rightarrow> string" where
  "json_of c x = (case encode c x of Inr t \<Rightarrow> t | Inl m \<Rightarrow> [])"

lemma codec_okD:
  assumes "codec_ok c"
  shows "encode c x = Inr (json_of c x)" "decode c (json_of c x) = Inr x" "utf8_valid (json_of c x)"
  using assms by (auto simp: codec_ok_def json_of_def dest!: spec [of _ x])

lemma json_of_inj: "codec_ok c \<Longrightarrow> json_of c x = json_of c y \<longleftrightarrow> x = y"
  by (metis codec_okD(2) sum.inject(2))

lemma to_json_ok: "codec_ok c \<Longrightarrow> to_json c x = Inr (json_of c x)"
  by (simp add: to_json_def codec_okD)

lemma from_json_ok: "codec_ok c \<Longrightarrow> from_json c (json_of c x) = Inr x"
  by (simp add: from_json_def codec_okD)

lemma string_from_utf8_json: "codec_ok c \<Longrightarrow> string_from_utf8 (json_of c x) = Some (json_of c x)"
  by (simp add: string_from_utf8_def codec_okD)

lemma libs_ok_uuid:
  assumes "libs_ok L"
  shows "uuid_parse L (uuid_text L u) = Some u" "uuid_text L u \<noteq> []" "list_all graphic (uuid_text L u)"
    "CHR ''/'' \<notin> set (uuid_text L u)" "CHR '':'' \<notin> set (uuid_text L u)"
  using assms by (auto simp: libs_ok_def)

lemma uuid_text_inj: "libs_ok L \<Longrightarrow> uuid_text L u = uuid_text L v \<longleftrightarrow> u = v"
  by (metis libs_ok_uuid(1) option.inject)

lemma libs_ok_time: "libs_ok L \<Longrightarrow> rfc3339_parse L (rfc3339_text L t) = Inr t"
  by (simp add: libs_ok_def)

lemma libs_ok_etag:
  assumes "libs_ok L"
  shows "store_etag L a = store_etag L b \<longleftrightarrow> a = b" "trim_char (CHR 0x22) (store_etag L a) = store_etag L a"
  using assms by (auto simp: libs_ok_def inj_eq trim_char_none)

lemma libs_ok_codecs:
  assumes "libs_ok L"
  shows "codec_ok (json_descriptor L)" "codec_ok (json_device L)" "codec_ok (json_device_capabilities L)"
    "codec_ok (json_watermark L)" "codec_ok (json_snapshot_metadata L)" "codec_ok (json_entry L)"
    "codec_ok (json_entries L)" "codec_ok (json_operation L)" "codec_ok (json_tombstone L)"
    "codec_ok (json_cursor L)"
  using assms by (auto simp: libs_ok_def)

lemmas libs_ok_simps = libs_ok_uuid libs_ok_time libs_ok_etag libs_ok_codecs to_json_ok from_json_ok
  string_from_utf8_json

end
