(* ===== verification/Keys.thy ===== *)
theory Keys
  imports Runtime
begin

text \<open>
  The object keys of the \<open>.s4drive/\<close> protocol: \<open>Serializer\<close>'s key functions
  (\<open>metadata/serializer.rs\<close>), the key functions of \<open>metadata/tree.rs\<close> and the parsers
  that read ids and sequence numbers back out of listed keys.
\<close>

section \<open>Key functions\<close>

definition descriptor_key :: string where
  "descriptor_key = ''.s4drive/system/descriptor.json''"

definition schema_migration_key :: "u32 \<Rightarrow> string" where
  "schema_migration_key version =
     ''.s4drive/system/schema_migrations/'' @ zero_padded 4 (unat version) @ ''.json''"

definition device_registration_key :: "string \<Rightarrow> string" where
  "device_registration_key d = ''.s4drive/devices/'' @ d @ ''/registration.json''"

definition device_capabilities_key :: "string \<Rightarrow> string" where
  "device_capabilities_key d = ''.s4drive/devices/'' @ d @ ''/capabilities.json''"

definition device_watermark_key :: "string \<Rightarrow> string" where
  "device_watermark_key d = ''.s4drive/devices/'' @ d @ ''/watermark.json''"

definition device_prefix :: string where
  "device_prefix = ''.s4drive/devices/''"

definition device_registry_key :: string where
  "device_registry_key = ''.s4drive/devices/registry.json''"

definition op_key :: "op_id \<Rightarrow> string" where
  "op_key i = ''.s4drive/meta/ops/'' @ i @ ''.json''"

definition op_prefix :: string where
  "op_prefix = ''.s4drive/meta/ops/''"

definition head_key :: string where
  "head_key = ''.s4drive/meta/heads/current''"

definition ops_tail_key :: string where
  "ops_tail_key = ''.s4drive/meta/heads/ops_tail''"

definition snapshot_key :: "u64 \<Rightarrow> string" where
  "snapshot_key n = ''.s4drive/meta/snapshots/'' @ zero_padded 20 (unat n) @ ''/tree.json''"

definition snapshot_metadata_key :: "u64 \<Rightarrow> string" where
  "snapshot_metadata_key n = ''.s4drive/meta/snapshots/'' @ zero_padded 20 (unat n) @ ''/metadata.json''"

definition snapshot_latest_key :: string where
  "snapshot_latest_key = ''.s4drive/meta/snapshots/LATEST''"

text \<open>\<open>hash.get(..2)\<close> needs two bytes and a character boundary after them.\<close>

definition blob_key :: "string \<Rightarrow> string" where
  "blob_key h =
     (let boundary = 2 \<le> length h \<and> (length h = 2 \<or> \<not> utf8_cont (byte (h ! 2)));
          p = (if boundary then take 2 h else h)
      in ''.s4drive/content/blobs/'' @ p @ ''/'' @ h)"

definition blob_prefix :: string where
  "blob_prefix = ''.s4drive/content/blobs/''"

definition blob_manifest_key :: string where
  "blob_manifest_key = ''.s4drive/content/blobs/manifest.json''"

definition blob_lease_prefix :: "string \<Rightarrow> string" where
  "blob_lease_prefix h = ''.s4drive/content/leases/'' @ h @ ''/''"

definition blob_lease_key :: "string \<Rightarrow> string \<Rightarrow> string" where
  "blob_lease_key h d = ''.s4drive/content/leases/'' @ h @ ''/'' @ d @ ''.json''"

definition tombstone_key :: "libs \<Rightarrow> file_id \<Rightarrow> string" where
  "tombstone_key L i = ''.s4drive/trash/tombstones/'' @ uuid_text L i @ ''.json''"

definition tombstone_prefix :: string where
  "tombstone_prefix = ''.s4drive/trash/tombstones/''"

definition tree_entry_key :: "libs \<Rightarrow> file_id \<Rightarrow> string" where
  "tree_entry_key L i = ''.s4drive/meta/tree/'' @ uuid_text L i @ ''.json''"

definition tree_prefix :: string where
  "tree_prefix = ''.s4drive/meta/tree/''"

lemmas key_defs = descriptor_key_def schema_migration_key_def device_registration_key_def
  device_capabilities_key_def device_watermark_key_def device_prefix_def device_registry_key_def
  op_key_def op_prefix_def head_key_def ops_tail_key_def snapshot_key_def snapshot_metadata_key_def
  snapshot_latest_key_def blob_prefix_def blob_manifest_key_def blob_lease_prefix_def
  blob_lease_key_def tombstone_key_def tombstone_prefix_def tree_entry_key_def tree_prefix_def

section \<open>Reading keys back\<close>

definition option_bind :: "'a option \<Rightarrow> ('a \<Rightarrow> 'b option) \<Rightarrow> 'b option" where
  "option_bind x f = (case x of None \<Rightarrow> None | Some y \<Rightarrow> f y)"

lemma option_bind_simps [simp]: "option_bind None f = None" "option_bind (Some x) f = f x"
  by (simp_all add: option_bind_def)

lemma option_bind_Some: "option_bind x f = Some y \<longleftrightarrow> (\<exists>z. x = Some z \<and> f z = Some y)"
  by (cases x) auto

definition tree_key_to_file_id :: "libs \<Rightarrow> string \<Rightarrow> file_id option" where
  "tree_key_to_file_id L k =
     option_bind (strip_prefix ''.s4drive/meta/tree/'' k) (\<lambda>s.
     option_bind (strip_suffix ''.json'' s) (uuid_parse L))"

definition tombstone_key_to_file_id :: "libs \<Rightarrow> string \<Rightarrow> file_id option" where
  "tombstone_key_to_file_id L k =
     option_bind (strip_prefix ''.s4drive/trash/tombstones/'' k) (\<lambda>s.
     option_bind (strip_suffix ''.json'' s) (uuid_parse L))"

definition op_key_to_op_id :: "string \<Rightarrow> op_id option" where
  "op_key_to_op_id k =
     option_bind (strip_prefix ''.s4drive/meta/ops/'' k) (strip_suffix ''.json'')"

definition snapshot_metadata_seq :: "string \<Rightarrow> nat option" where
  "snapshot_metadata_seq k =
     option_bind (strip_prefix ''.s4drive/meta/snapshots/'' k) (\<lambda>rest.
     option_bind (split_once (CHR ''/'') rest) (\<lambda>(seq, filename).
       if filename \<noteq> ''metadata.json'' then None else parse_u64 seq))"

section \<open>Round trips and separation of the key space\<close>

lemma op_key_inj [simp]: "op_key i = op_key j \<longleftrightarrow> i = j"
  by (simp add: op_key_def)

lemma op_key_not_head [simp]: "op_key i \<noteq> head_key" "head_key \<noteq> op_key i"
  by (simp_all add: op_key_def head_key_def)

lemma op_key_not_tail [simp]: "op_key i \<noteq> ops_tail_key" "ops_tail_key \<noteq> op_key i"
  by (simp_all add: op_key_def ops_tail_key_def)

lemma head_not_tail [simp]: "head_key \<noteq> ops_tail_key" "ops_tail_key \<noteq> head_key"
  by (simp_all add: head_key_def ops_tail_key_def)

lemma op_key_to_op_id_op_key [simp]: "op_key_to_op_id (op_key i) = Some i"
  by (simp add: op_key_to_op_id_def op_key_def strip_prefix_def)

lemma op_key_to_op_id_Some: "op_key_to_op_id k = Some i \<longleftrightarrow> k = op_key i"
  by (auto simp: op_key_to_op_id_def op_key_def option_bind_Some strip_prefix_Some strip_suffix_Some)

lemma tree_key_roundtrip [simp]:
  "libs_ok L \<Longrightarrow> tree_key_to_file_id L (tree_entry_key L i) = Some i"
  by (simp add: tree_key_to_file_id_def tree_entry_key_def libs_ok_uuid strip_prefix_def)

lemma tombstone_key_roundtrip [simp]:
  "libs_ok L \<Longrightarrow> tombstone_key_to_file_id L (tombstone_key L i) = Some i"
  by (simp add: tombstone_key_to_file_id_def tombstone_key_def libs_ok_uuid strip_prefix_def)

lemma tree_entry_key_inj: "libs_ok L \<Longrightarrow> tree_entry_key L i = tree_entry_key L j \<longleftrightarrow> i = j"
  by (simp add: tree_entry_key_def uuid_text_inj)

lemma tombstone_key_inj: "libs_ok L \<Longrightarrow> tombstone_key L i = tombstone_key L j \<longleftrightarrow> i = j"
  by (simp add: tombstone_key_def uuid_text_inj)

lemma tree_not_tombstone [simp]: "tree_entry_key L i \<noteq> tombstone_key L' j"
    "tombstone_key L' j \<noteq> tree_entry_key L i"
  by (simp_all add: tree_entry_key_def tombstone_key_def)

lemma tree_not_op [simp]: "tree_entry_key L i \<noteq> op_key j" "op_key j \<noteq> tree_entry_key L i"
    "tree_entry_key L i \<noteq> head_key" "head_key \<noteq> tree_entry_key L i"
  by (simp_all add: tree_entry_key_def op_key_def head_key_def)

lemma tombstone_not_op [simp]: "tombstone_key L i \<noteq> op_key j" "op_key j \<noteq> tombstone_key L i"
    "tombstone_key L i \<noteq> head_key" "head_key \<noteq> tombstone_key L i"
  by (simp_all add: tombstone_key_def op_key_def head_key_def)

lemma slash_not_digit: "list_all is_digit_char s \<Longrightarrow> CHR ''/'' \<notin> set s"
  by (auto simp: list_all_iff is_digit_char_def)

lemma split_once_append: "d \<notin> set a \<Longrightarrow> split_once d (a @ d # b) = Some (a, b)"
  by (induction a) (auto simp: split_once_def split: if_splits)

text \<open>A metadata key of a snapshot reads back as its sequence number, a tree key does not.\<close>

lemma snapshot_metadata_seq_key [simp]: "snapshot_metadata_seq (snapshot_metadata_key n) = Some (unat n)"
proof -
  have n: "unat n < 2 ^ 64" by (rule order_less_le_trans [OF unsigned_less]) simp
  have "CHR ''/'' \<notin> set (zero_padded 20 (unat n))"
    by (rule slash_not_digit [OF zero_padded_digits])
  then have "split_once (CHR ''/'') (zero_padded 20 (unat n) @ CHR ''/'' # ''metadata.json'')
      = Some (zero_padded 20 (unat n), ''metadata.json'')"
    by (rule split_once_append)
  then show ?thesis
    using parse_zero_padded [OF n, of 20]
    by (simp add: snapshot_metadata_seq_def snapshot_metadata_key_def strip_prefix_def)
qed

lemma snapshot_metadata_seq_tree [simp]: "snapshot_metadata_seq (snapshot_key n) = None"
proof -
  have "CHR ''/'' \<notin> set (zero_padded 20 (unat n))"
    by (rule slash_not_digit [OF zero_padded_digits])
  then have "split_once (CHR ''/'') (zero_padded 20 (unat n) @ CHR ''/'' # ''tree.json'')
      = Some (zero_padded 20 (unat n), ''tree.json'')"
    by (rule split_once_append)
  then show ?thesis
    by (simp add: snapshot_metadata_seq_def snapshot_key_def strip_prefix_def)
qed

end
