(* ===== verification/Object_Store.thy ===== *)
theory Object_Store
  imports Keys
begin

text \<open>
  The object store: the trait \<open>S3ObjectStore\<close> (\<open>s3/client.rs\<close>) as the interface
  \<open>conditional_store\<close>, its in-memory implementation \<open>MemoryStore\<close> (\<open>s3/memory.rs\<close>) as
  the model of a strongly consistent bucket, and requests against a bucket that
  other devices use at the same time.

  A request of this client is one atomic action on the bucket. Before it is served,
  other devices may have changed the bucket (\<open>ev_env\<close>) and time has passed; the
  request may fail without effect, take effect and lose its reply, or be repeated
  by the client's retry loop after a lost reply. The list \<open>events\<close> of a world
  decides all of this; once it is used up, requests are served undisturbed.
\<close>

section \<open>MemoryStore\<close>

type_synonym objs = "(string \<times> string \<times> string) list"

record object_meta =
  om_key :: string
  om_size :: u64
  om_etag :: string
  om_last_modified :: string
  om_version_id :: "string option"

definition mem_keys :: "string \<Rightarrow> objs \<Rightarrow> string list" where
  "mem_keys p m = filter (\<lambda>k. starts_with k p) (map fst m)"

definition mem_put_object :: "libs \<Rightarrow> string \<Rightarrow> string \<Rightarrow> objs \<Rightarrow> string core_result \<times> objs" where
  "mem_put_object L k b m = (let e = store_etag L b in (Inr e, btree_insert k (b, e) m))"

definition mem_put_if_not_exists :: "libs \<Rightarrow> string \<Rightarrow> string \<Rightarrow> objs \<Rightarrow> bool core_result \<times> objs" where
  "mem_put_if_not_exists L k b m =
     (case map_of m k of
        Some _ \<Rightarrow> (Inr False, m)
      | None \<Rightarrow> (Inr True, btree_insert k (b, store_etag L b) m))"

definition mem_put_if_match ::
    "libs \<Rightarrow> string \<Rightarrow> string \<Rightarrow> string \<Rightarrow> objs \<Rightarrow> bool core_result \<times> objs" where
  "mem_put_if_match L k b expected m =
     (case map_of m k of
        Some (_, e) \<Rightarrow>
          if e = trim_char (CHR 0x22) expected then (Inr True, btree_insert k (b, store_etag L b) m)
          else (Inr False, m)
      | None \<Rightarrow> (Inr False, m))"

definition mem_get_object :: "string \<Rightarrow> objs \<Rightarrow> string core_result \<times> objs" where
  "mem_get_object k m = (case map_of m k of Some (b, _) \<Rightarrow> Inr b | None \<Rightarrow> Inl (NotFound k), m)"

definition mem_get_object_range :: "string \<Rightarrow> string \<Rightarrow> objs \<Rightarrow> string core_result \<times> objs" where
  "mem_get_object_range k r m = mem_get_object k m"

definition mem_head_object :: "string \<Rightarrow> objs \<Rightarrow> object_meta core_result \<times> objs" where
  "mem_head_object k m =
     (case map_of m k of
        Some (b, e) \<Rightarrow>
          Inr \<lparr>om_key = k, om_size = of_nat (length b), om_etag = e, om_last_modified = [],
                om_version_id = None\<rparr>
      | None \<Rightarrow> Inl (NotFound k), m)"

definition mem_delete_object :: "string \<Rightarrow> objs \<Rightarrow> unit core_result \<times> objs" where
  "mem_delete_object k m = (Inr (), btree_remove k m)"

definition mem_list_objects :: "string \<Rightarrow> objs \<Rightarrow> string list core_result \<times> objs" where
  "mem_list_objects p m = (Inr (mem_keys p m), m)"

definition mem_delete_if_match :: "string \<Rightarrow> string \<Rightarrow> objs \<Rightarrow> bool core_result \<times> objs" where
  "mem_delete_if_match k expected m =
     (case map_of m k of
        Some (_, e) \<Rightarrow>
          if e = trim_char (CHR 0x22) expected then (Inr True, btree_remove k m) else (Inr False, m)
      | None \<Rightarrow> (Inr False, m))"

lemmas mem_defs = mem_put_object_def mem_put_if_not_exists_def mem_put_if_match_def mem_get_object_def
  mem_get_object_range_def mem_head_object_def mem_delete_object_def mem_list_objects_def
  mem_delete_if_match_def

text \<open>The contents of a bucket, and the invariant that every object has the ETag of its body.\<close>

definition contents :: "objs \<Rightarrow> string \<Rightarrow> string option" where
  "contents m k = map_option fst (map_of m k)"

definition store_inv :: "libs \<Rightarrow> objs \<Rightarrow> bool" where
  "store_inv L m \<longleftrightarrow> btree_inv m \<and> (\<forall>k b e. map_of m k = Some (b, e) \<longrightarrow> e = store_etag L b)"

lemma contents_insert [simp]: "contents (btree_insert k (b, e) m) = (contents m)(k \<mapsto> b)"
  by (auto simp: contents_def)

lemma contents_remove [simp]: "contents (btree_remove k m) = (contents m)(k := None)"
  by (auto simp: contents_def)

lemma contents_None: "contents m k = None \<longleftrightarrow> map_of m k = None"
  by (simp add: contents_def)

lemma contents_Nil [simp]: "contents [] = Map.empty"
  by (auto simp: contents_def)

lemma store_inv_contents: "store_inv L m \<Longrightarrow> map_of m k = map_option (\<lambda>b. (b, store_etag L b)) (contents m k)"
  by (cases "map_of m k") (auto simp: store_inv_def contents_def)

lemma store_inv_insert [simp]: "store_inv L m \<Longrightarrow> store_inv L (btree_insert k (b, store_etag L b) m)"
  by (auto simp: store_inv_def)

lemma store_inv_remove [simp]: "store_inv L m \<Longrightarrow> store_inv L (btree_remove k m)"
  by (auto simp: store_inv_def)

lemma store_inv_Nil [simp]: "store_inv L []"
  by (simp add: store_inv_def)

section \<open>The interface of a store with conditional writes\<close>

text \<open>
  What the metadata code relies on (README, level 2): reads see the last write,
  a create succeeds only on a free key, and a conditional write succeeds only over
  the version whose ETag it names. \<open>content\<close> is the abstract bucket.
\<close>

locale conditional_store =
  fixes content :: "'o \<Rightarrow> string \<Rightarrow> string option"
    and valid :: "'o \<Rightarrow> bool"
    and tag :: "string \<Rightarrow> string"
    and get :: "string \<Rightarrow> 'o \<Rightarrow> string core_result \<times> 'o"
    and head :: "string \<Rightarrow> 'o \<Rightarrow> object_meta core_result \<times> 'o"
    and put :: "string \<Rightarrow> string \<Rightarrow> 'o \<Rightarrow> string core_result \<times> 'o"
    and create :: "string \<Rightarrow> string \<Rightarrow> 'o \<Rightarrow> bool core_result \<times> 'o"
    and replace :: "string \<Rightarrow> string \<Rightarrow> string \<Rightarrow> 'o \<Rightarrow> bool core_result \<times> 'o"
    and delete :: "string \<Rightarrow> 'o \<Rightarrow> unit core_result \<times> 'o"
    and delete_match :: "string \<Rightarrow> string \<Rightarrow> 'o \<Rightarrow> bool core_result \<times> 'o"
  assumes get_law: "valid m \<Longrightarrow>
      get k m = (case content m k of None \<Rightarrow> Inl (NotFound k) | Some b \<Rightarrow> Inr b, m)"
    and head_law: "valid m \<Longrightarrow> head k m = (rh, m') \<Longrightarrow>
      m' = m \<and> (case content m k of None \<Rightarrow> rh = Inl (NotFound k) | Some b \<Rightarrow> \<exists>i. rh = Inr i \<and> om_etag i = tag b)"
    and put_law: "valid m \<Longrightarrow> put k b m = (rp, m') \<Longrightarrow>
      rp = Inr (tag b) \<and> valid m' \<and> content m' = (content m)(k \<mapsto> b)"
    and create_law: "valid m \<Longrightarrow> create k b m = (rc, m') \<Longrightarrow>
      rc = Inr (content m k = None) \<and> valid m'
      \<and> content m' = (if content m k = None then (content m)(k \<mapsto> b) else content m)"
    and replace_law: "valid m \<Longrightarrow> replace k b e m = (rr, m') \<Longrightarrow>
      valid m' \<and> (\<exists>ok. rr = Inr ok \<and> (ok \<longleftrightarrow> map_option tag (content m k) = Some (trim_char (CHR 0x22) e))
        \<and> content m' = (if ok then (content m)(k \<mapsto> b) else content m))"
    and delete_law: "valid m \<Longrightarrow> delete k m = (rd, m') \<Longrightarrow>
      rd = Inr () \<and> valid m' \<and> content m' = (content m)(k := None)"
    and delete_match_law: "valid m \<Longrightarrow> delete_match k e m = (rm, m') \<Longrightarrow>
      valid m' \<and> (\<exists>ok. rm = Inr ok \<and> (ok \<longleftrightarrow> map_option tag (content m k) = Some (trim_char (CHR 0x22) e))
        \<and> content m' = (if ok then (content m)(k := None) else content m))"
begin

lemma read_your_write:
  assumes "valid m" "put k b m = (r, m1)"
  shows "get k m1 = (Inr b, m1)"
  using put_law [OF assms] get_law [of m1 k] by simp

lemma create_once:
  assumes "valid m" "create k b m = (Inr True, m1)" "create k c m1 = (r, m2)"
  shows "r = Inr False \<and> content m2 k = Some b"
proof -
  have 1: "valid m1" "content m1 k = Some b"
    using create_law [OF assms(1,2)] by (auto split: if_splits)
  then show ?thesis using create_law [OF 1(1) assms(3)] by simp
qed

text \<open>Of two writers that observed the same version, at most one replaces it.\<close>

lemma replace_once:
  assumes "valid m" "replace k b e m = (Inr True, m1)" "replace k c e m1 = (r, m2)"
    and fresh: "tag b \<noteq> trim_char (CHR 0x22) e"
  shows "r = Inr False \<and> content m2 k = Some b"
proof -
  have 1: "valid m1" "content m1 k = Some b"
    using replace_law [OF assms(1,2)] by auto
  then show ?thesis using replace_law [OF 1(1) assms(3)] fresh by auto
qed

lemma replace_observed:
  assumes "valid m" "replace k b e m = (Inr True, m1)"
  shows "\<exists>old. content m k = Some old \<and> tag old = trim_char (CHR 0x22) e \<and> content m1 k = Some b"
  using replace_law [OF assms] by auto

lemma delete_match_observed:
  assumes "valid m" "delete_match k e m = (Inr True, m1)"
  shows "\<exists>old. content m k = Some old \<and> tag old = trim_char (CHR 0x22) e \<and> content m1 k = None"
  using delete_match_law [OF assms] by auto

end

interpretation mem: conditional_store contents "store_inv L" "store_etag L" mem_get_object mem_head_object
  "mem_put_object L" "mem_put_if_not_exists L" "mem_put_if_match L" mem_delete_object mem_delete_if_match
  for L
  by unfold_locales
    (auto simp: mem_defs Let_def store_inv_contents split: option.splits if_splits)

section \<open>Requests in a shared world\<close>

datatype fault = Served | Refused core_error | Lost_Reply core_error | Retried "objs \<Rightarrow> objs"

record env_event =
  ev_env :: "objs \<Rightarrow> objs"
  ev_elapsed :: nat
  ev_fault :: fault

record world =
  objects :: objs
  events :: "env_event list"
  now :: int
  draws :: nat

text \<open>One atomic action under a fault; \<open>Retried g\<close> runs it twice with \<open>g\<close> in between.\<close>

fun with_fault :: "fault \<Rightarrow> (objs \<Rightarrow> 'a core_result \<times> objs) \<Rightarrow> objs \<Rightarrow> 'a core_result \<times> objs" where
  "with_fault Served f m = f m"
| "with_fault (Refused e) f m = (Inl e, m)"
| "with_fault (Lost_Reply e) f m = (Inl e, snd (f m))"
| "with_fault (Retried g) f m = f (g (snd (f m)))"

definition serve :: "(objs \<Rightarrow> 'a core_result \<times> objs) \<Rightarrow> ('z world_scheme, core_error, 'a) io" where
  "serve f w =
     (case events w of
        [] \<Rightarrow> (case f (objects w) of (r, m) \<Rightarrow> (r, w\<lparr>objects := m\<rparr>))
      | ev # evs \<Rightarrow>
          (case with_fault (ev_fault ev) f (ev_env ev (objects w)) of
             (r, m) \<Rightarrow> (r, w\<lparr>objects := m, events := evs, now := now w + int (ev_elapsed ev)\<rparr>)))"

definition put_object :: "libs \<Rightarrow> string \<Rightarrow> string \<Rightarrow> ('z world_scheme, core_error, string) io" where
  "put_object L k b = serve (mem_put_object L k b)"

definition put_if_not_exists :: "libs \<Rightarrow> string \<Rightarrow> string \<Rightarrow> ('z world_scheme, core_error, bool) io" where
  "put_if_not_exists L k b = serve (mem_put_if_not_exists L k b)"

definition put_if_match ::
    "libs \<Rightarrow> string \<Rightarrow> string \<Rightarrow> string \<Rightarrow> ('z world_scheme, core_error, bool) io" where
  "put_if_match L k b e = serve (mem_put_if_match L k b e)"

definition get_object :: "string \<Rightarrow> ('z world_scheme, core_error, string) io" where
  "get_object k = serve (mem_get_object k)"

definition head_object :: "string \<Rightarrow> ('z world_scheme, core_error, object_meta) io" where
  "head_object k = serve (mem_head_object k)"

definition delete_object :: "string \<Rightarrow> ('z world_scheme, core_error, unit) io" where
  "delete_object k = serve (mem_delete_object k)"

definition list_objects :: "string \<Rightarrow> ('z world_scheme, core_error, string list) io" where
  "list_objects p = serve (mem_list_objects p)"

definition delete_if_match :: "string \<Rightarrow> string \<Rightarrow> ('z world_scheme, core_error, bool) io" where
  "delete_if_match k e = serve (mem_delete_if_match k e)"

lemmas request_defs = put_object_def put_if_not_exists_def put_if_match_def get_object_def
  head_object_def delete_object_def list_objects_def delete_if_match_def

text \<open>\<open>Uuid::now_v7()\<close> and \<open>Utc::now()\<close>.\<close>

definition new_uuid :: "libs \<Rightarrow> ('z world_scheme, core_error, uuid) io" where
  "new_uuid L w = (Inr (uuid_now_v7 L (draws w)), w\<lparr>draws := draws w + 1\<rparr>)"

definition utc_now :: "('z world_scheme, core_error, int) io" where
  "utc_now = io_get now"

lemma serve_quiet: "events w = [] \<Longrightarrow> serve f w = (fst (f (objects w)), w\<lparr>objects := snd (f (objects w))\<rparr>)"
  by (simp add: serve_def split: prod.splits)

text \<open>
  The proof rule of a request: an invariant of the bucket that the other devices and
  the action itself keep holds after the request, whatever fault it meets; and what
  the action guarantees of its result holds when the request is answered.
\<close>

definition env_keeps :: "(objs \<Rightarrow> bool) \<Rightarrow> 'z world_scheme \<Rightarrow> bool" where
  "env_keeps P w \<longleftrightarrow> (\<forall>ev \<in> set (events w). (\<forall>m. P m \<longrightarrow> P (ev_env ev m))
     \<and> (\<forall>g. ev_fault ev = Retried g \<longrightarrow> (\<forall>m. P m \<longrightarrow> P (g m))))"

lemma with_fault_rule:
  assumes "with_fault ft f m = (r, m')" "P m"
    and "\<And>m. P m \<Longrightarrow> P (snd (f m))"
    and "\<And>g m. ft = Retried g \<Longrightarrow> P m \<Longrightarrow> P (g m)"
  shows "P m' \<and> ((\<exists>m0. P m0 \<and> f m0 = (r, m')) \<or> (\<exists>e. r = Inl e \<and> (ft = Refused e \<or> ft = Lost_Reply e)))"
proof (cases ft)
  case (Retried g)
  let ?m0 = "g (snd (f m))"
  have "P ?m0" "f ?m0 = (r, m')" using assms Retried by auto
  with assms(3) [of ?m0] show ?thesis by (auto simp: prod_eq_iff)
qed (use assms in \<open>auto simp: prod_eq_iff\<close>)

lemma serve_rule:
  assumes run: "serve f w = (r, w')" and P: "P (objects w)" and env: "env_keeps P w"
    and keep: "\<And>m. P m \<Longrightarrow> P (snd (f m))"
  shows "P (objects w') \<and> env_keeps P w' \<and> set (events w') \<subseteq> set (events w)
    \<and> ((\<exists>m. P m \<and> f m = (r, objects w'))
       \<or> (\<exists>e ev. r = Inl e \<and> ev \<in> set (events w) \<and> (ev_fault ev = Refused e \<or> ev_fault ev = Lost_Reply e)))
    \<and> (\<exists>m evs t. w' = w\<lparr>objects := m, events := evs, now := t\<rparr>)"
proof (cases "events w")
  case Nil
  then have "r = fst (f (objects w))" "w' = w\<lparr>objects := snd (f (objects w))\<rparr>"
    using run by (auto simp: serve_quiet)
  moreover have "\<exists>m evs t. w' = w\<lparr>objects := m, events := evs, now := t\<rparr>"
    using calculation(2)
    by (intro exI [of _ "snd (f (objects w))"] exI [of _ "events w"] exI [of _ "now w"]) simp
  ultimately show ?thesis
    using P env keep [OF P] by (auto simp: env_keeps_def prod_eq_iff intro: exI [of _ "objects w"])
next
  case (Cons ev evs)
  obtain r1 m1 where ft: "with_fault (ev_fault ev) f (ev_env ev (objects w)) = (r1, m1)"
    by (cases "with_fault (ev_fault ev) f (ev_env ev (objects w))")
  then have w': "r = r1" "w' = w\<lparr>objects := m1, events := evs, now := now w + int (ev_elapsed ev)\<rparr>"
    using run Cons by (auto simp: serve_def)
  have ev: "ev \<in> set (events w)" using Cons by simp
  have "P (ev_env ev (objects w))" using env ev P by (simp add: env_keeps_def)
  from with_fault_rule [OF ft this keep] have *: "P m1 \<and> ((\<exists>m0. P m0 \<and> f m0 = (r1, m1))
      \<or> (\<exists>e. r1 = Inl e \<and> (ev_fault ev = Refused e \<or> ev_fault ev = Lost_Reply e)))"
    using env ev by (auto simp: env_keeps_def)
  moreover have "env_keeps P w'" using env Cons w'(2) by (auto simp: env_keeps_def)
  moreover have "set (events w') \<subseteq> set (events w)" using Cons w'(2) by auto
  moreover have "\<exists>m evs t. w' = w\<lparr>objects := m, events := evs, now := t\<rparr>" using w'(2) by blast
  ultimately show ?thesis using w' ev by auto
qed

end
