(* ===== verification/Placement.thy ===== *)
theory Placement
  imports Keys
begin

text \<open>
  Where an entry lives in the tree (\<open>metadata/placement.rs\<close>), and the checks of
  \<open>metadata/validator.rs\<close> every write goes through.
\<close>

section \<open>Validator\<close>

definition supported_schema_version :: u32 where
  "supported_schema_version = 2"

definition validate_operation :: "operation \<Rightarrow> unit core_result" where
  "validate_operation x =
     (if op_op_id x = [] then Inl (Protocol ''op_id cannot be empty'')
      else if op_device_id x = 0 then Inl (Protocol ''device_id cannot be nil'')
      else Inr ())"

definition reserved_names :: "string list" where
  "reserved_names = [''CON'', ''PRN'', ''AUX'', ''NUL'', ''COM1'', ''COM2'', ''COM3'', ''COM4'',
     ''LPT1'', ''LPT2'', ''LPT3'']"

definition validate_file_entry :: "libs \<Rightarrow> file_entry \<Rightarrow> unit core_result" where
  "validate_file_entry L x =
     (if fe_file_id x = 0 then Inl (Protocol ''file_id cannot be nil'')
      else if fe_name x = [] then Inl (Protocol ''file name cannot be empty'')
      else (let stem = unicode_uppercase L (hd (split_on (CHR ''.'') (fe_name x))) in
        if stem \<in> set reserved_names
        then Inl (Protocol (''reserved filename: '' @ fe_name x))
        else Inr ()))"

definition validate_descriptor :: "bucket_descriptor \<Rightarrow> unit core_result" where
  "validate_descriptor d =
     (if bd_bucket_id d = 0 then Inl (Protocol ''bucket_id cannot be nil'')
      else if bd_schema_version d = 0 then Inl (Protocol ''schema_version must be >= 1'')
      else if bd_schema_version d > supported_schema_version then
        Inl (Protocol (''unsupported metadata schema version '' @ nat_str (unat (bd_schema_version d))
          @ '' (client supports up to '' @ nat_str (unat supported_schema_version) @ '')''))
      else Inr ())"

definition normalize_name :: "string \<Rightarrow> string" where
  "normalize_name n = trim n"

definition has_case_conflict :: "libs \<Rightarrow> string \<Rightarrow> string list \<Rightarrow> string option" where
  "has_case_conflict L n existing =
     (let lower = unicode_lowercase L n in
      case find (\<lambda>e. unicode_lowercase L e = lower \<and> e \<noteq> n) existing of
        None \<Rightarrow> None
      | Some e \<Rightarrow> Some ([CHR 0x27] @ n @ [CHR 0x27] @ '' conflicts with '' @ [CHR 0x27] @ e @ [CHR 0x27]
          @ '' on case-insensitive file systems''))"

section \<open>Placements\<close>

record placement =
  pl_parent_id :: "file_id option"
  pl_name :: string

definition placement_of :: "file_entry \<Rightarrow> placement" where
  "placement_of x = \<lparr>pl_parent_id = fe_parent_id x, pl_name = fe_name x\<rparr>"

definition placement_of_op :: "operation \<Rightarrow> placement option" where
  "placement_of_op x =
     (case ef_new_name (op_effects x) of
        None \<Rightarrow> None
      | Some n \<Rightarrow> Some \<lparr>pl_parent_id = ef_new_parent_id (op_effects x), pl_name = n\<rparr>)"

definition apply_to :: "libs \<Rightarrow> placement \<Rightarrow> file_entry \<Rightarrow> file_entry" where
  "apply_to L p x = x\<lparr>fe_parent_id := pl_parent_id p, fe_name := pl_name p,
     fe_normalized_name := unicode_lowercase L (normalize_name (pl_name p))\<rparr>"

definition join_path :: "string \<Rightarrow> string \<Rightarrow> string" where
  "join_path parent name = (if parent = [] then name else parent @ ''/'' @ name)"

definition split_path :: "string \<Rightarrow> string \<times> string" where
  "split_path p =
     (let q = trim_char (CHR ''/'') p in
      case rsplit_once (CHR ''/'') q of Some (parent, name) \<Rightarrow> (parent, name) | None \<Rightarrow> ([], q))"

definition is_inside :: "string \<Rightarrow> string \<Rightarrow> bool" where
  "is_inside path folder \<longleftrightarrow>
     path = folder
     \<or> (case strip_prefix folder path of Some rest \<Rightarrow> starts_with rest ''/'' | None \<Rightarrow> False)"

text \<open>\<open>generation.to_le_bytes()\<close> of a \<open>u32\<close>.\<close>

definition le_bytes4 :: "u32 \<Rightarrow> string" where
  "le_bytes4 g = map (\<lambda>i. char_of (unat g div 256 ^ i mod 256)) [0, 1, 2, 3]"

definition folder_node_id :: "libs \<Rightarrow> file_id option \<Rightarrow> string \<Rightarrow> u32 \<Rightarrow> file_id" where
  "folder_node_id L parent name generation =
     uuid_from_custom_bytes L (take 16 (blake3_digest L
       (''s4drive/folder-node/v1'' @ [CHR 0x00]
        @ uuid_bytes L (case parent of None \<Rightarrow> 0 | Some p \<Rightarrow> p)
        @ le_bytes4 generation @ name)))"

definition folder_entry :: "libs \<Rightarrow> file_id \<Rightarrow> placement \<Rightarrow> string \<Rightarrow> file_entry" where
  "folder_entry L i p t = apply_to L p
     \<lparr>fe_file_id = i, fe_parent_id = None, fe_name = [], fe_normalized_name = [],
      fe_entry_type = Folder, fe_current_revision_id = None, fe_content_ref = None, fe_size = 0,
      fe_content_hash = None, fe_mime = None, fe_created_at = t, fe_updated_at = t,
      fe_deleted_at = None, fe_version_history = [], fe_attributes = file_attributes_default,
      fe_lock_state = lock_state_default\<rparr>"

section \<open>Paths as lists of names\<close>

text \<open>
  The specification of a relative path: the list of its components. \<open>join_path\<close>,
  \<open>split_path\<close> and \<open>is_inside\<close> implement appending a name, removing the last one, and
  the prefix order.
\<close>

definition component :: "string \<Rightarrow> bool" where
  "component n \<longleftrightarrow> n \<noteq> [] \<and> CHR ''/'' \<notin> set n"

definition path_text :: "string list \<Rightarrow> string" where
  "path_text ns = str_join ''/'' ns"

lemma str_join_snoc: "ns \<noteq> [] \<Longrightarrow> str_join sep (ns @ [n]) = str_join sep ns @ sep @ n"
  by (induction sep ns rule: str_join.induct) auto

lemma str_join_append:
  "ns \<noteq> [] \<Longrightarrow> ms \<noteq> [] \<Longrightarrow> str_join sep (ns @ ms) = str_join sep ns @ sep @ str_join sep ms"
proof (induction sep ns rule: str_join.induct)
  case (2 sep x)
  then show ?case by (cases ms) auto
qed auto

lemma path_text_Nil [simp]: "path_text [] = []"
  by (simp add: path_text_def)

lemma path_text_nonempty: "ns \<noteq> [] \<Longrightarrow> list_all component ns \<Longrightarrow> path_text ns \<noteq> []"
  unfolding path_text_def by (cases "(''/'', ns)" rule: str_join.cases) (auto simp: component_def)

lemma join_path_text:
  "list_all component ns \<Longrightarrow> join_path (path_text ns) n = path_text (ns @ [n])"
  using path_text_nonempty [of ns]
  by (cases "ns = []") (auto simp: join_path_def path_text_def str_join_snoc)

lemma path_text_ends:
  assumes "ns \<noteq> []" "list_all component ns"
  shows "hd (path_text ns) \<noteq> CHR ''/''" "last (path_text ns) \<noteq> CHR ''/''"
proof -
  obtain n ms where ns: "ns = n # ms" using assms(1) by (cases ns) auto
  then have "component n" using assms(2) by simp
  then have "n \<noteq> []" "hd n \<noteq> CHR ''/''" by (metis component_def hd_in_set)+
  then show "hd (path_text ns) \<noteq> CHR ''/''"
    using ns by (cases ms) (auto simp: path_text_def)
  obtain m ks where ks: "ns = ks @ [m]" using assms(1) by (cases ns rule: rev_cases) auto
  then have "component m" using assms(2) by simp
  then have "m \<noteq> []" "last m \<noteq> CHR ''/''" by (metis component_def last_in_set)+
  then show "last (path_text ns) \<noteq> CHR ''/''"
    using ks by (cases "ks = []") (auto simp: path_text_def str_join_snoc)
qed

lemma split_path_text:
  assumes "list_all component ns" "component n"
  shows "split_path (path_text (ns @ [n])) = (path_text ns, n)"
proof -
  let ?p = "path_text (ns @ [n])"
  have comps: "list_all component (ns @ [n])" using assms by simp
  have "?p \<noteq> []" by (rule path_text_nonempty) (use comps in auto)
  then have trim: "trim_char (CHR ''/'') ?p = ?p"
    using path_text_ends [OF _ comps] by (intro trim_char_ends) auto
  show ?thesis
  proof (cases "ns = []")
    case True
    then show ?thesis
      using trim assms(2) by (simp add: split_path_def path_text_def rsplit_once_def component_def)
  next
    case False
    then have "?p = path_text ns @ CHR ''/'' # n"
      by (simp add: path_text_def str_join_snoc)
    moreover have "rsplit_once (CHR ''/'') (path_text ns @ CHR ''/'' # n) = Some (path_text ns, n)"
      using assms(2) by (intro rsplit_once_append) (simp add: component_def)
    ultimately show ?thesis using trim by (simp add: split_path_def)
  qed
qed

lemma is_inside_iff: "is_inside path folder \<longleftrightarrow> path = folder \<or> (\<exists>r. path = folder @ ''/'' @ r)"
  by (auto simp: is_inside_def strip_prefix_Some starts_with_iff split: option.splits)

lemma path_text_split:
  "list_all component ns \<Longrightarrow> ns \<noteq> [] \<Longrightarrow> split_on (CHR ''/'') (path_text ns) = ns"
  unfolding path_text_def
proof (induction "''/''" ns rule: str_join.induct)
  case (2 x)
  then show ?case by (simp add: split_on_no_sep component_def)
next
  case (3 x y xs)
  then show ?case by (simp add: split_on_append_sep component_def)
qed simp

lemma path_text_inj:
  "list_all component ns \<Longrightarrow> list_all component ms \<Longrightarrow> path_text ns = path_text ms \<longleftrightarrow> ns = ms"
  by (metis path_text_Nil path_text_nonempty path_text_split)

lemma is_inside_prefix:
  assumes "list_all component ns" "list_all component fs" "fs \<noteq> []"
  shows "is_inside (path_text ns) (path_text fs) \<longleftrightarrow> prefix fs ns"
proof
  assume "prefix fs ns"
  then obtain r where r: "ns = fs @ r" by (auto simp: prefix_def)
  then show "is_inside (path_text ns) (path_text fs)"
    using assms(3) by (cases "r = []") (auto simp: is_inside_iff path_text_def str_join_append)
next
  assume "is_inside (path_text ns) (path_text fs)"
  then consider (same) "path_text ns = path_text fs"
    | (below) r where "path_text ns = path_text fs @ CHR ''/'' # r"
    by (auto simp: is_inside_iff)
  then show "prefix fs ns"
  proof cases
    case same
    then show ?thesis using assms path_text_inj by auto
  next
    case below
    then have ne: "ns \<noteq> []" by auto
    have "split_on (CHR ''/'') (path_text fs @ CHR ''/'' # r) = fs @ split_on (CHR ''/'') r"
      using assms(2,3) unfolding path_text_def
      by (induction "''/''" fs rule: str_join.induct) (auto simp: split_on_append_sep component_def)
    with below have "ns = fs @ split_on (CHR ''/'') r"
      using path_text_split [OF assms(1) ne] by simp
    then show ?thesis by (auto simp: prefix_def)
  qed
qed

end
