(* ===== verification/Op_Log.thy ===== *)
theory Op_Log
  imports Object_Store Placement
begin

text \<open>
  The append-only operation log (\<open>metadata/ops.rs\<close>): every operation is one object
  under \<open>meta/ops/\<close>, and the object \<open>meta/heads/current\<close> names the newest one.
  Operations form a chain through \<open>base_head\<close>. The head moves only by a conditional
  write; this theory is the code, \<open>Op_Chain\<close> proves what it guarantees.
\<close>

record oplog = world +
  ol_device :: device_id
  ol_clock :: u64
  ol_head :: "string option"
  ol_etag :: "string option"
  ol_loaded :: bool

datatype concurrent_ops = ContainsOwn | Committed "operation list" | Unverifiable string

datatype chain_search = Found operation bool | Absent "string option" | Ambiguous string

definition max_commit_attempts :: nat where "max_commit_attempts = 8"
definition max_rebase_walk_ops :: nat where "max_rebase_walk_ops = 1000"
definition max_head_load_attempts :: nat where "max_head_load_attempts = 3"
definition max_durable_walk_ops :: nat where "max_durable_walk_ops = 10000"

section \<open>Loading the head\<close>

definition oplog_new :: "device_id \<Rightarrow> u64 \<Rightarrow> 'z oplog_scheme \<Rightarrow> 'z oplog_scheme" where
  "oplog_new d clock s = s\<lparr>ol_device := d, ol_clock := clock, ol_head := None, ol_etag := None,
     ol_loaded := False\<rparr>"

text \<open>The branch of \<open>load_head\<close> for an existing head object, from its first \<open>head_object\<close> on.\<close>

definition store_head ::
    "libs \<Rightarrow> object_meta \<Rightarrow> string \<Rightarrow> object_meta \<Rightarrow> ('z oplog_scheme, core_error, string option) io" where
  "store_head L before data after =
     (if om_etag before \<noteq> om_etag after
      then io_throw (Conflict ''head pointer changed while loading; retry load_head'')
      else (case string_from_utf8 data of
          None \<Rightarrow> io_throw (Protocol (''head UTF-8: '' @ utf8_error_text L data))
        | Some text \<Rightarrow>
            (let head = trim text in
             if head = []
             then io_throw (Protocol ''head pointer object exists but is empty'')
             else io_bind (io_modify (\<lambda>s. s\<lparr>ol_head := Some head,
                      ol_etag := Some (om_etag after), ol_loaded := True\<rparr>))
                    (\<lambda>_. io_return (Some head)))))"

definition load_present :: "libs \<Rightarrow> object_meta \<Rightarrow> ('z oplog_scheme, core_error, string option) io" where
  "load_present L before =
     io_bind (get_object head_key) (\<lambda>data.
     io_bind (head_object head_key) (store_head L before data))"

definition load_head :: "libs \<Rightarrow> ('z oplog_scheme, core_error, string option) io" where
  "load_head L =
     io_try (head_object head_key) (\<lambda>r.
       case r of
         Inr before \<Rightarrow> load_present L before
       | Inl e \<Rightarrow>
           if is_NotFound e
           then io_bind (io_modify (\<lambda>s. s\<lparr>ol_head := None, ol_etag := None, ol_loaded := True\<rparr>))
                  (\<lambda>_. io_return None)
           else io_throw e)"

fun conflict_reason :: "core_error \<Rightarrow> string option" where
  "conflict_reason (Conflict m) = Some m"
| "conflict_reason _ = None"

text \<open>\<open>load_head_consistent\<close>, with the number of attempts left after this one.\<close>

primrec load_head_loop :: "libs \<Rightarrow> nat \<Rightarrow> ('z oplog_scheme, core_error, unit) io" where
  "load_head_loop L 0 =
     io_try (load_head L) (\<lambda>r. case r of
         Inr _ \<Rightarrow> io_return ()
       | Inl e \<Rightarrow> (case conflict_reason e of
             Some reason \<Rightarrow> io_throw (S3 (''head pointer is busy: '' @ reason))
           | None \<Rightarrow> io_throw e))"
| "load_head_loop L (Suc n) =
     io_try (load_head L) (\<lambda>r. case r of
         Inr _ \<Rightarrow> io_return ()
       | Inl e \<Rightarrow> if is_Conflict e then load_head_loop L n else io_throw e)"

definition load_head_consistent :: "libs \<Rightarrow> ('z oplog_scheme, core_error, unit) io" where
  "load_head_consistent L = load_head_loop L (max_head_load_attempts - 1)"

section \<open>Reading and writing operations\<close>

definition read_operation :: "libs \<Rightarrow> op_id \<Rightarrow> ('z world_scheme, core_error, operation) io" where
  "read_operation L i =
     io_bind (get_object (op_key i)) (\<lambda>data.
       case string_from_utf8 data of
         None \<Rightarrow> io_throw (Protocol (''UTF-8: '' @ utf8_error_text L data))
       | Some text \<Rightarrow> io_result (from_json (json_operation L) text))"

definition new_op_id :: "libs \<Rightarrow> device_id \<Rightarrow> u64 \<Rightarrow> uuid \<Rightarrow> op_id" where
  "new_op_id L d clock u = uuid_text L d @ '':'' @ nat_str (unat clock) @ '':'' @ uuid_text L u"

definition head_or_empty :: "string option \<Rightarrow> string" where
  "head_or_empty h = (case h of None \<Rightarrow> [] | Some x \<Rightarrow> x)"

definition next_operation ::
    "libs \<Rightarrow> file_id option \<Rightarrow> op_type \<Rightarrow> preconditions \<Rightarrow> effects
      \<Rightarrow> ('z oplog_scheme, core_error, operation) io" where
  "next_operation L target ty pre eff =
     io_bind (io_modify (\<lambda>s. s\<lparr>ol_clock := ol_clock s + 1\<rparr>)) (\<lambda>_.
     io_bind (new_uuid L) (\<lambda>u.
     io_bind (io_get (\<lambda>s.
       \<lparr>op_op_id = new_op_id L (ol_device s) (ol_clock s) u,
        op_device_id = ol_device s,
        op_actor_id = uuid_text L (ol_device s),
        op_logical_clock = ol_clock s,
        op_base_head = head_or_empty (ol_head s),
        op_target_file_id = target,
        op_op_type = ty,
        op_preconditions = pre,
        op_effects = eff,
        op_timestamp = rfc3339_text L (now s),
        op_signature = None\<rparr>)) io_return))"

definition write_operation :: "libs \<Rightarrow> operation \<Rightarrow> ('z world_scheme, core_error, unit) io" where
  "write_operation L x =
     io_bind (io_result (to_json (json_operation L) x)) (\<lambda>text.
     io_bind (put_if_not_exists L (op_key (op_op_id x)) text) (\<lambda>created.
       if created then io_return ()
       else
         io_bind (read_operation L (op_op_id x)) (\<lambda>existing.
         io_bind (io_result (to_json (json_operation L) existing)) (\<lambda>a.
         io_bind (io_result (to_json (json_operation L) x)) (\<lambda>b.
           if a = b then io_return ()
           else io_throw (Conflict (''operation id collision for '' @ op_op_id x)))))))"

definition advance_head :: "libs \<Rightarrow> op_id \<Rightarrow> ('z oplog_scheme, core_error, bool) io" where
  "advance_head L i =
     io_bind (io_get (\<lambda>s. (ol_head s, ol_etag s))) (\<lambda>(h, etag).
     io_bind
       (case h of
          None \<Rightarrow> put_if_not_exists L head_key i
        | Some _ \<Rightarrow>
            (case etag of
               None \<Rightarrow> io_throw (Internal ''head ETag missing; call load_head before commit'')
             | Some e \<Rightarrow> put_if_match L head_key i e))
       (\<lambda>advanced.
          if \<not> advanced then io_return False
          else
            io_bind (head_object head_key) (\<lambda>meta.
            io_bind (io_modify (\<lambda>s. s\<lparr>ol_head := Some i, ol_etag := Some (om_etag meta), ol_loaded := True\<rparr>))
              (\<lambda>_. io_return True))))"

definition discard_orphan_operation :: "libs \<Rightarrow> op_id \<Rightarrow> ('z world_scheme, core_error, unit) io" where
  "discard_orphan_operation L i = io_try (delete_object (op_key i)) (\<lambda>_. io_return ())"

section \<open>Walking the chain\<close>

text \<open>\<open>operations_since\<close>: the loop with the number of operations it may still collect.\<close>

primrec since_loop ::
    "libs \<Rightarrow> string option \<Rightarrow> op_id \<Rightarrow> nat \<Rightarrow> string \<Rightarrow> operation list
      \<Rightarrow> ('z world_scheme, core_error, concurrent_ops) io" where
  "since_loop L base own 0 cursor acc =
     io_return (Unverifiable (''more than '' @ nat_str max_rebase_walk_ops
       @ '' operations were committed concurrently''))"
| "since_loop L base own (Suc n) cursor acc =
     (if base = Some cursor then io_return (Committed acc)
      else if cursor = own then io_return ContainsOwn
      else
        io_try (read_operation L cursor) (\<lambda>r. case r of
            Inl e \<Rightarrow>
              if is_NotFound e
              then io_return (Unverifiable (''operation '' @ cursor @ '' is missing''))
              else io_throw e
          | Inr x \<Rightarrow>
              if op_base_head x = [] then
                io_return (case base of
                    None \<Rightarrow> Committed (acc @ [x])
                  | Some b \<Rightarrow> Unverifiable (''operation chain ended before base head '' @ b))
              else since_loop L base own n (op_base_head x) (acc @ [x])))"

definition operations_since ::
    "libs \<Rightarrow> string option \<Rightarrow> op_id \<Rightarrow> ('z oplog_scheme, core_error, concurrent_ops) io" where
  "operations_since L base own =
     io_bind (io_get ol_head) (\<lambda>h. case h of
         None \<Rightarrow> io_return (Unverifiable ''head pointer disappeared'')
       | Some cursor \<Rightarrow> since_loop L base own max_rebase_walk_ops cursor [])"

primrec search_loop ::
    "libs \<Rightarrow> file_id \<Rightarrow> (operation \<Rightarrow> bool) \<Rightarrow> (operation \<Rightarrow> bool) \<Rightarrow> nat \<Rightarrow> string \<Rightarrow> string option
      \<Rightarrow> ('z world_scheme, core_error, chain_search) io" where
  "search_loop L target own floor 0 cursor foreign =
     io_return (Ambiguous (''more than '' @ nat_str max_durable_walk_ops @ '' operations to check''))"
| "search_loop L target own floor (Suc n) cursor foreign =
     io_try (read_operation L cursor) (\<lambda>r. case r of
         Inl e \<Rightarrow>
           if is_NotFound e
           then io_return (Ambiguous (''operation '' @ cursor @ '' is no longer in the log''))
           else io_throw e
       | Inr x \<Rightarrow>
           if op_op_id x \<noteq> cursor
           then io_throw (Protocol (''operation object '' @ cursor @ '' names '' @ op_op_id x))
           else if own x then io_return (Found x (foreign \<noteq> None))
           else if floor x then io_return (Absent foreign)
           else
             (let foreign' = (if foreign = None \<and> op_target_file_id x = Some target
                              then Some (op_op_id x) else foreign) in
              if op_base_head x = [] then io_return (Absent foreign')
              else search_loop L target own floor n (op_base_head x) foreign'))"

definition search_chain ::
    "libs \<Rightarrow> file_id \<Rightarrow> (operation \<Rightarrow> bool) \<Rightarrow> (operation \<Rightarrow> bool)
      \<Rightarrow> ('z oplog_scheme, core_error, chain_search) io" where
  "search_chain L target own floor =
     io_bind (io_get ol_head) (\<lambda>h. case h of
         None \<Rightarrow> io_return (Absent None)
       | Some cursor \<Rightarrow> search_loop L target own floor max_durable_walk_ops cursor None)"

section \<open>Committing\<close>

definition concurrent_message :: "libs \<Rightarrow> operation \<Rightarrow> file_id \<Rightarrow> string" where
  "concurrent_message L x f =
     ''operation '' @ op_op_id x @ '' on file '' @ uuid_text L f @ '' was committed concurrently''"

definition busy_message :: string where
  "busy_message = ''head pointer is busy: other devices committed first ''
     @ nat_str max_commit_attempts @ '' times in a row; retry later''"

definition unverifiable_message :: "string \<Rightarrow> string" where
  "unverifiable_message reason =
     ''head pointer conflict: cannot verify concurrent operations: '' @ reason"

text \<open>The \<open>for\<close> loop of \<open>commit\<close>, with the number of attempts left.\<close>

primrec commit_loop ::
    "libs \<Rightarrow> file_id option \<Rightarrow> op_type \<Rightarrow> preconditions \<Rightarrow> effects \<Rightarrow> nat
      \<Rightarrow> ('z oplog_scheme, core_error, operation) io" where
  "commit_loop L target ty pre eff 0 = io_throw (S3 busy_message)"
| "commit_loop L target ty pre eff (Suc n) =
     io_bind (next_operation L target ty pre eff) (\<lambda>x.
     io_bind (io_result (validate_operation x)) (\<lambda>_.
     io_bind (write_operation L x) (\<lambda>_.
     io_bind (io_get ol_head) (\<lambda>base.
     io_bind (advance_head L (op_op_id x)) (\<lambda>advanced.
       if advanced then io_return x
       else
         io_bind (load_head_consistent L) (\<lambda>_.
         io_bind (operations_since L base (op_op_id x)) (\<lambda>c.
           case c of
             ContainsOwn \<Rightarrow> io_return x
           | Committed concurrent \<Rightarrow>
               io_bind (discard_orphan_operation L (op_op_id x)) (\<lambda>_.
                 case target of
                   None \<Rightarrow> commit_loop L target ty pre eff n
                 | Some f \<Rightarrow>
                     (case find (\<lambda>y. op_target_file_id y = Some f) concurrent of
                        Some y \<Rightarrow> io_throw (Conflict (concurrent_message L y f))
                      | None \<Rightarrow> commit_loop L target ty pre eff n))
           | Unverifiable reason \<Rightarrow> io_throw (Conflict (unverifiable_message reason)))))))))"

definition commit ::
    "libs \<Rightarrow> file_id option \<Rightarrow> op_type \<Rightarrow> preconditions \<Rightarrow> effects
      \<Rightarrow> ('z oplog_scheme, core_error, operation) io" where
  "commit L target ty pre eff =
     io_bind (io_get ol_loaded) (\<lambda>loaded.
     io_bind (if loaded then io_return () else load_head_consistent L) (\<lambda>_.
       commit_loop L target ty pre eff max_commit_attempts))"

section \<open>Queries\<close>

definition superseded :: "libs \<Rightarrow> op_id \<Rightarrow> file_id \<Rightarrow> ('z oplog_scheme, core_error, bool) io" where
  "superseded L own target =
     io_bind (load_head_consistent L) (\<lambda>_.
     io_bind (search_chain L target (\<lambda>x. op_op_id x = own) (\<lambda>_. False)) (\<lambda>c. case c of
         Found _ later \<Rightarrow> io_return later
       | Absent _ \<Rightarrow> io_throw (Conflict (''operation '' @ own @ '' is not in the committed chain''))
       | Ambiguous reason \<Rightarrow> io_throw (Conflict (''cannot verify later operations on file ''
           @ uuid_text L target @ '': '' @ reason))))"

definition latest_matching ::
    "libs \<Rightarrow> file_id \<Rightarrow> (operation \<Rightarrow> bool) \<Rightarrow> ('z oplog_scheme, core_error, operation option) io" where
  "latest_matching L target matches =
     io_bind (load_head_consistent L) (\<lambda>_.
     io_bind (search_chain L target (\<lambda>x. op_target_file_id x = Some target \<and> matches x) (\<lambda>_. False))
       (\<lambda>c. case c of Found x _ \<Rightarrow> io_return (Some x) | Absent _ \<Rightarrow> io_return None
            | Ambiguous _ \<Rightarrow> io_return None))"

definition latest_on_target :: "libs \<Rightarrow> file_id \<Rightarrow> ('z oplog_scheme, core_error, operation option) io" where
  "latest_on_target L target = latest_matching L target (\<lambda>_. True)"

definition latest_revision_on_target ::
    "libs \<Rightarrow> file_id \<Rightarrow> ('z oplog_scheme, core_error, operation option) io" where
  "latest_revision_on_target L target =
     latest_matching L target (\<lambda>x. ef_new_revision_id (op_effects x) \<noteq> None)"

definition list_operations :: "('z world_scheme, core_error, string list) io" where
  "list_operations =
     io_bind (list_objects op_prefix) (\<lambda>keys.
       io_return (sort (List.map_filter op_key_to_op_id keys)))"

definition operation_count :: "('z world_scheme, core_error, nat) io" where
  "operation_count = io_bind list_operations (\<lambda>ids. io_return (length ids))"

end
