(* ===== verification/Op_Chain.thy ===== *)
theory Op_Chain
  imports Op_Log
begin

text \<open>
  The committed history of a bucket and the protocol of its writers.

  \<open>committed L m xs\<close>: in the bucket \<open>m\<close> the head names the first operation of \<open>xs\<close>,
  every operation names the next one as its \<open>base_head\<close>, and the last one starts
  the log. \<open>foreign_step\<close> is what the other devices may do to a bucket: they write
  operation objects under ids of their own, remove ones that are not committed, and
  move the head to an operation that is based on it. The main lemma of this theory is
  that such steps only ever extend the history at its front; the proofs about
  \<open>commit\<close> in \<open>Op_Commit\<close> rest on it.
\<close>

named_theorems chain_intros \<open>closure of the phases of a commit\<close>

section \<open>Operation objects\<close>

definition op_in :: "libs \<Rightarrow> objs \<Rightarrow> op_id \<Rightarrow> operation option" where
  "op_in L m i =
     option_bind (contents m (op_key i)) (\<lambda>b.
     option_bind (string_from_utf8 b) (\<lambda>t.
       case decode (json_operation L) t of Inl _ \<Rightarrow> None | Inr x \<Rightarrow> Some x))"

definition read_result :: "libs \<Rightarrow> op_id \<Rightarrow> string core_result \<Rightarrow> operation core_result" where
  "read_result L i r =
     (case r of
        Inl e \<Rightarrow> Inl e
      | Inr data \<Rightarrow>
          (case string_from_utf8 data of
             None \<Rightarrow> Inl (Protocol (''UTF-8: '' @ utf8_error_text L data))
           | Some t \<Rightarrow> from_json (json_operation L) t))"

lemma read_operation_eq:
  "read_operation L i s = (case get_object (op_key i) s of (r, s') \<Rightarrow> (read_result L i r, s'))"
  by (auto simp: read_operation_def read_result_def io_simps split: prod.splits sum.splits option.splits)

lemma op_in_read:
  assumes "op_in L m i = Some x"
  shows "read_result L i (fst (mem_get_object (op_key i) m)) = Inr x"
proof -
  obtain b t where b: "contents m (op_key i) = Some b" and t: "string_from_utf8 b = Some t"
    and x: "decode (json_operation L) t = Inr x"
    using assms unfolding op_in_def option_bind_Some
    by (elim exE conjE) (auto split: sum.split_asm)
  have "fst (mem_get_object (op_key i) m) = Inr b"
    using b by (auto simp: mem_get_object_def contents_def)
  then show ?thesis using t x by (simp add: read_result_def from_json_def)
qed

lemma op_in_cong: "contents m' (op_key i) = contents m (op_key i) \<Longrightarrow> op_in L m' i = op_in L m i"
  by (simp add: op_in_def)

lemma op_in_present: "op_in L m i = Some x \<Longrightarrow> contents m (op_key i) \<noteq> None"
  by (auto simp: op_in_def option_bind_Some)

lemma op_in_json:
  "libs_ok L \<Longrightarrow> contents m (op_key i) = Some (json_of (json_operation L) x) \<Longrightarrow> op_in L m i = Some x"
  by (simp add: op_in_def libs_ok_simps codec_okD)

section \<open>Chains\<close>

inductive chain :: "libs \<Rightarrow> objs \<Rightarrow> string \<Rightarrow> operation list \<Rightarrow> bool" for L m where
  chain_root: "chain L m [] []"
| chain_link: "op_in L m i = Some x \<Longrightarrow> op_op_id x = i \<Longrightarrow> i \<noteq> [] \<Longrightarrow> chain L m (op_base_head x) xs
    \<Longrightarrow> chain L m i (x # xs)"

inductive_simps chain_Nil_iff [simp]: "chain L m i []"
inductive_simps chain_Cons_iff: "chain L m i (x # xs)"
inductive_simps chain_start_iff [simp]: "chain L m [] xs"

definition head_of :: "operation list \<Rightarrow> string option" where
  "head_of xs = (case xs of [] \<Rightarrow> None | x # _ \<Rightarrow> Some (op_op_id x))"

lemma head_of_simps [simp]: "head_of [] = None" "head_of (x # xs) = Some (op_op_id x)"
  by (simp_all add: head_of_def)

lemma head_or_empty_simps [simp]: "head_or_empty None = []" "head_or_empty (Some h) = h"
  by (simp_all add: head_or_empty_def)

lemma head_of_None [simp]: "head_of xs = None \<longleftrightarrow> xs = []"
  by (cases xs) auto

lemma chain_start: "chain L m i xs \<Longrightarrow> i = head_or_empty (head_of xs)"
  by (cases rule: chain.cases) auto

lemma chain_det: "chain L m i xs \<Longrightarrow> chain L m i ys \<Longrightarrow> xs = ys"
proof (induction arbitrary: ys rule: chain.induct)
  case chain_root
  then show ?case by simp
next
  case (chain_link i x xs)
  from chain_link.prems chain_link.hyps(1,3) obtain zs where
    "ys = x # zs" "chain L m (op_base_head x) zs"
    by (cases rule: chain.cases) auto
  with chain_link.IH show ?case by simp
qed

lemma chain_append: "chain L m i (ys @ xs) \<Longrightarrow> \<exists>j. chain L m j xs"
  by (induction ys arbitrary: i) (auto simp: chain_Cons_iff)

lemma chain_suffix: "chain L m i (ys @ xs) \<Longrightarrow> chain L m (head_or_empty (head_of xs)) xs"
  using chain_append chain_start by metis

lemma chain_mono:
  assumes "chain L m i xs" "\<And>x. x \<in> set xs \<Longrightarrow> op_in L m' (op_op_id x) = op_in L m (op_op_id x)"
  shows "chain L m' i xs"
  using assms by (induction rule: chain.induct) (auto intro: chain.intros)

lemma chain_op_in: "chain L m i xs \<Longrightarrow> x \<in> set xs \<Longrightarrow> op_in L m (op_op_id x) = Some x"
  by (induction rule: chain.induct) auto

lemma chain_distinct: "chain L m i xs \<Longrightarrow> distinct (map op_op_id xs)"
proof (induction rule: chain.induct)
  case chain_root
  then show ?case by simp
next
  case (chain_link i x xs)
  have whole: "chain L m i (x # xs)" using chain_link.hyps by (rule chain.chain_link)
  have "i \<notin> op_op_id ` set xs"
  proof
    assume "i \<in> op_op_id ` set xs"
    then obtain y as bs where y: "i = op_op_id y" "xs = as @ y # bs"
      by (metis imageE split_list)
    have "chain L m i (y # bs)"
      using chain_suffix [of L m i "x # as" "y # bs"] whole y by simp
    from chain_det [OF this whole] show False using y(2) by (metis append_Cons append_self_conv2
      length_Cons length_append lessI not_add_less2 plus_1_eq_Suc trans_less_add2 less_irrefl)
  qed
  then show ?case using chain_link by simp
qed

text \<open>The part of a chain that can be read off its operations alone.\<close>

primrec linked :: "operation list \<Rightarrow> bool" where
  "linked [] \<longleftrightarrow> True"
| "linked (x # xs) \<longleftrightarrow> op_op_id x \<noteq> [] \<and> op_base_head x = head_or_empty (head_of xs) \<and> linked xs"

lemma chain_linked: "chain L m i xs \<Longrightarrow> linked xs"
  by (induction rule: chain.induct) (auto dest: chain_start)

lemma linked_append: "linked (ys @ xs) \<Longrightarrow> linked xs"
  by (induction ys) auto

section \<open>Histories\<close>

text \<open>What the head object may hold: an operation id that reads back unchanged.\<close>

definition head_text :: "string \<Rightarrow> bool" where
  "head_text h \<longleftrightarrow> h \<noteq> [] \<and> trim h = h \<and> utf8_valid h"

definition committed :: "libs \<Rightarrow> objs \<Rightarrow> operation list \<Rightarrow> bool" where
  "committed L m xs \<longleftrightarrow> store_inv L m \<and> contents m head_key = head_of xs
     \<and> chain L m (head_or_empty (head_of xs)) xs \<and> (\<forall>h. head_of xs = Some h \<longrightarrow> head_text h)"

definition log_inv :: "libs \<Rightarrow> objs \<Rightarrow> bool" where
  "log_inv L m \<longleftrightarrow> (\<exists>xs. committed L m xs)"

lemma committed_log_inv [intro]: "committed L m xs \<Longrightarrow> log_inv L m"
  by (auto simp: log_inv_def)

lemma committed_det: "committed L m xs \<Longrightarrow> committed L m ys \<Longrightarrow> xs = ys"
  using chain_det by (fastforce simp: committed_def)

lemma committed_distinct: "committed L m xs \<Longrightarrow> distinct (map op_op_id xs)"
  by (auto simp: committed_def dest: chain_distinct)

lemma committed_op_in: "committed L m xs \<Longrightarrow> x \<in> set xs \<Longrightarrow> op_in L m (op_op_id x) = Some x"
  by (auto simp: committed_def dest: chain_op_in)

lemma committed_present: "committed L m xs \<Longrightarrow> i \<in> op_op_id ` set xs \<Longrightarrow> contents m (op_key i) \<noteq> None"
  using committed_op_in op_in_present by (metis imageE)

text \<open>Two histories with the same head, one extending the other, are equal.\<close>

lemma distinct_head_append:
  assumes "distinct (map op_op_id (ys @ xs))" "head_of (ys @ xs) = head_of xs"
  shows "ys = []"
  using assms by (cases ys; cases xs) (auto simp: image_iff)

lemma committed_mono:
  assumes "committed L m xs" "store_inv L m'" "contents m' head_key = contents m head_key"
    and "\<And>x. x \<in> set xs \<Longrightarrow> contents m' (op_key (op_op_id x)) = contents m (op_key (op_op_id x))"
  shows "committed L m' xs"
proof -
  have "chain L m' (head_or_empty (head_of xs)) xs"
    using assms(1) by (auto simp: committed_def intro: chain_mono op_in_cong assms(4))
  then show ?thesis using assms by (simp add: committed_def)
qed

lemma committed_push:
  assumes "committed L m xs" "op_in L m i = Some x" "op_op_id x = i" "head_text i"
    and "op_base_head x = head_or_empty (head_of xs)"
  shows "committed L (btree_insert head_key (i, store_etag L i) m) (x # xs)"
proof -
  let ?m = "btree_insert head_key (i, store_etag L i) m"
  have same: "op_in L ?m j = op_in L m j" for j by (rule op_in_cong) simp
  have "chain L ?m (op_base_head x) xs"
    using assms(1,5) by (auto simp: committed_def intro: chain_mono same)
  then have "chain L ?m i (x # xs)"
    using assms same by (auto simp: head_text_def intro!: chain.chain_link)
  then show ?thesis using assms by (auto simp: committed_def)
qed

section \<open>The protocol of the other devices\<close>

inductive foreign_step :: "libs \<Rightarrow> (op_id \<Rightarrow> bool) \<Rightarrow> objs \<Rightarrow> objs \<Rightarrow> bool" for L mine where
  other_write: "k \<noteq> head_key \<Longrightarrow> (\<And>i. k \<noteq> op_key i)
    \<Longrightarrow> foreign_step L mine m (btree_insert k (b, store_etag L b) m)"
| other_delete: "k \<noteq> head_key \<Longrightarrow> (\<And>i. k \<noteq> op_key i) \<Longrightarrow> foreign_step L mine m (btree_remove k m)"
| op_write: "\<not> mine i \<Longrightarrow> contents m (op_key i) = None
    \<Longrightarrow> foreign_step L mine m (btree_insert (op_key i) (b, store_etag L b) m)"
| op_discard: "\<not> mine i \<Longrightarrow> committed L m xs \<Longrightarrow> i \<notin> op_op_id ` set xs
    \<Longrightarrow> foreign_step L mine m (btree_remove (op_key i) m)"
| head_move: "\<not> mine i \<Longrightarrow> op_in L m i = Some x \<Longrightarrow> op_op_id x = i \<Longrightarrow> head_text i
    \<Longrightarrow> op_base_head x = head_or_empty (contents m head_key)
    \<Longrightarrow> foreign_step L mine m (btree_insert head_key (i, store_etag L i) m)"

text \<open>The main lemma: a foreign step extends the history and leaves our operation objects alone.\<close>

lemma foreign_step_committed:
  assumes "foreign_step L mine m m'" "committed L m xs"
  shows "\<exists>ys. committed L m' (ys @ xs) \<and> (\<forall>y \<in> set ys. \<not> mine (op_op_id y))
    \<and> (\<forall>i. mine i \<longrightarrow> contents m' (op_key i) = contents m (op_key i))"
proof -
  have inv: "store_inv L m" using assms(2) by (simp add: committed_def)
  from assms(1) show ?thesis
proof (cases rule: foreign_step.cases)
  case (other_write k b)
  then have "op_key i \<noteq> k" "head_key \<noteq> k" for i by metis+
  then have "committed L m' ([] @ xs)"
    using inv other_write(1) by (auto intro!: committed_mono [OF assms(2)])
  moreover have "contents m' (op_key i) = contents m (op_key i)" for i
    using other_write by (metis contents_insert fun_upd_other)
  ultimately show ?thesis by (intro exI [of _ "[]"]) auto
next
  case (other_delete k)
  then have "op_key i \<noteq> k" "head_key \<noteq> k" for i by metis+
  then have "committed L m' ([] @ xs)"
    using inv other_delete(1) by (auto intro!: committed_mono [OF assms(2)])
  moreover have "contents m' (op_key i) = contents m (op_key i)" for i
    using other_delete by (metis contents_remove fun_upd_other)
  ultimately show ?thesis by (intro exI [of _ "[]"]) auto
next
  case (op_write i b)
  then have "i \<notin> op_op_id ` set xs" using committed_present [OF assms(2)] by blast
  then have "committed L m' ([] @ xs)"
    using inv op_write by (auto intro!: committed_mono [OF assms(2)])
  moreover have "mine j \<Longrightarrow> contents m' (op_key j) = contents m (op_key j)" for j
    using op_write by auto
  ultimately show ?thesis by (intro exI [of _ "[]"]) auto
next
  case (op_discard i ys)
  then have "i \<notin> op_op_id ` set xs" using committed_det [OF assms(2)] by blast
  then have "committed L m' ([] @ xs)"
    using inv op_discard by (auto intro!: committed_mono [OF assms(2)])
  moreover have "mine j \<Longrightarrow> contents m' (op_key j) = contents m (op_key j)" for j
    using op_discard by auto
  ultimately show ?thesis by (intro exI [of _ "[]"]) auto
next
  case (head_move i x)
  have "contents m head_key = head_of xs" using assms(2) by (simp add: committed_def)
  with head_move have "committed L m' ([x] @ xs)"
    by (auto intro: committed_push [OF assms(2)])
  moreover have "contents m' (op_key j) = contents m (op_key j)" for j
    using head_move by simp
  ultimately show ?thesis using head_move by (intro exI [of _ "[x]"]) auto
qed
qed

end
