(* ===== verification/Op_Commit.thy ===== *)
theory Op_Commit
  imports Op_Chain
begin

text \<open>
  What \<open>OperationLog::commit\<close> guarantees in a bucket shared with other devices that
  follow the protocol of \<open>Op_Chain\<close>, whatever faults the requests of this device meet.

  The proof follows one attempt of the loop through its phases. A phase is a predicate
  on the bucket that the steps of the other devices keep: \<open>phase L mine K S m\<close> says that
  the history is \<open>K\<close> extended by foreign operations only and that our own operation
  objects are exactly \<open>S\<close>. An attempt that wins moves from \<open>K\<close> to \<open>x # K\<close>.
\<close>

section \<open>Worlds in which the other devices follow the protocol\<close>

definition is_own :: "libs \<Rightarrow> device_id \<Rightarrow> op_id \<Rightarrow> bool" where
  "is_own L d i \<longleftrightarrow> starts_with i (uuid_text L d @ '':'')"

definition follows :: "libs \<Rightarrow> (op_id \<Rightarrow> bool) \<Rightarrow> (objs \<Rightarrow> objs) \<Rightarrow> bool" where
  "follows L mine g \<longleftrightarrow> (\<forall>m. log_inv L m \<longrightarrow> (foreign_step L mine)\<^sup>*\<^sup>* m (g m))"

definition fault_ok :: "libs \<Rightarrow> (op_id \<Rightarrow> bool) \<Rightarrow> fault \<Rightarrow> bool" where
  "fault_ok L mine ft \<longleftrightarrow>
     (case ft of
        Served \<Rightarrow> True
      | Refused e \<Rightarrow> \<not> is_NotFound e
      | Lost_Reply e \<Rightarrow> \<not> is_NotFound e
      | Retried g \<Rightarrow> follows L mine g)"

definition protocol_env :: "libs \<Rightarrow> (op_id \<Rightarrow> bool) \<Rightarrow> 'z world_scheme \<Rightarrow> bool" where
  "protocol_env L mine s \<longleftrightarrow>
     (\<forall>ev \<in> set (events s). follows L mine (ev_env ev) \<and> fault_ok L mine (ev_fault ev))"

definition closed :: "libs \<Rightarrow> (op_id \<Rightarrow> bool) \<Rightarrow> (objs \<Rightarrow> bool) \<Rightarrow> bool" where
  "closed L mine P \<longleftrightarrow>
     (\<forall>m m'. P m \<longrightarrow> foreign_step L mine m m' \<longrightarrow> P m') \<and> (\<forall>m. P m \<longrightarrow> log_inv L m)"

lemma closed_follows:
  assumes "closed L mine P" "follows L mine g" "P m"
  shows "P (g m)"
proof -
  have steps: "(foreign_step L mine)\<^sup>*\<^sup>* m (g m)"
    using assms by (auto simp: closed_def follows_def)
  then show ?thesis
    by (induction rule: rtranclp_induct) (use assms in \<open>auto simp: closed_def\<close>)
qed

lemma closed_disj: "closed L mine P \<Longrightarrow> closed L mine Q \<Longrightarrow> closed L mine (\<lambda>m. P m \<or> Q m)"
  by (fastforce simp: closed_def)

lemma closed_conj: "closed L mine P \<Longrightarrow> closed L mine Q \<Longrightarrow> closed L mine (\<lambda>m. P m \<and> Q m)"
  by (fastforce simp: closed_def)

text \<open>A state of the log whose bucket is in a phase, and a run that touches only the world.\<close>

definition settled :: "libs \<Rightarrow> (op_id \<Rightarrow> bool) \<Rightarrow> (objs \<Rightarrow> bool) \<Rightarrow> 'z world_scheme \<Rightarrow> bool" where
  "settled L mine P s \<longleftrightarrow> protocol_env L mine s \<and> P (objects s) \<and> closed L mine P"

definition same_log :: "'z world_scheme \<Rightarrow> 'z world_scheme \<Rightarrow> bool" where
  "same_log s s' \<longleftrightarrow> (\<exists>m evs t. s' = s\<lparr>objects := m, events := evs, now := t\<rparr>)"

lemma same_log_refl [simp]: "same_log s s"
  unfolding same_log_def
  by (intro exI [of _ "objects s"] exI [of _ "events s"] exI [of _ "now s"]) simp

lemma same_log_trans [trans]: "same_log s t \<Longrightarrow> same_log t u \<Longrightarrow> same_log s u"
  by (fastforce simp: same_log_def)

lemma same_log_fields:
  fixes s :: "'z oplog_scheme"
  assumes "same_log s s'"
  shows "ol_device s' = ol_device s" "ol_clock s' = ol_clock s" "ol_head s' = ol_head s"
    "ol_etag s' = ol_etag s" "ol_loaded s' = ol_loaded s" "draws s' = draws s"
  using assms by (auto simp: same_log_def)

lemma settledI: "settled L mine P s \<Longrightarrow> closed L mine Q \<Longrightarrow> Q (objects s) \<Longrightarrow> settled L mine Q s"
  by (simp add: settled_def)

lemma settled_bucket: "settled L mine P s \<Longrightarrow> P (objects s)"
  by (simp add: settled_def)

lemma settled_mono:
  "settled L mine P s \<Longrightarrow> closed L mine Q \<Longrightarrow> (\<And>m. P m \<Longrightarrow> Q m) \<Longrightarrow> settled L mine Q s"
  by (simp add: settled_def)

lemma request:
  assumes run: "serve f s = (r, s')" and s: "settled L mine P s"
    and keep: "\<And>m. P m \<Longrightarrow> P (snd (f m))"
  shows "settled L mine P s' \<and> same_log s s'
    \<and> ((\<exists>m. P m \<and> f m = (r, objects s')) \<or> (\<exists>e. r = Inl e \<and> \<not> is_NotFound e))"
proof -
  have env: "protocol_env L mine s" and P: "P (objects s)" and P_closed: "closed L mine P"
    using s by (auto simp: settled_def)
  have keeps: "env_keeps P s"
    using env closed_follows [OF P_closed]
    by (fastforce simp: env_keeps_def protocol_env_def fault_ok_def)
  from serve_rule [OF run P keeps keep]
  have out: "P (objects s')" "set (events s') \<subseteq> set (events s)" "same_log s s'"
    and result: "(\<exists>m. P m \<and> f m = (r, objects s')) \<or> (\<exists>e ev. r = Inl e \<and> ev \<in> set (events s)
        \<and> (ev_fault ev = Refused e \<or> ev_fault ev = Lost_Reply e))"
    by (auto simp: same_log_def)
  have "protocol_env L mine s'" using env out(2) by (auto simp: protocol_env_def)
  moreover have "(\<exists>m. P m \<and> f m = (r, objects s')) \<or> (\<exists>e. r = Inl e \<and> \<not> is_NotFound e)"
    using result env by (fastforce simp: protocol_env_def fault_ok_def)
  ultimately show ?thesis using out P_closed by (simp add: settled_def)
qed

text \<open>Reads keep every phase.\<close>

lemma snd_reads [simp]: "snd (mem_get_object k m) = m" "snd (mem_head_object k m) = m"
  by (simp_all add: mem_get_object_def mem_head_object_def)

lemma request_get:
  assumes "get_object k s = (r, s')" "settled L mine P s"
  shows "settled L mine P s' \<and> same_log s s'
    \<and> (r = fst (mem_get_object k (objects s')) \<or> (\<exists>e. r = Inl e \<and> \<not> is_NotFound e))"
  using request [OF assms(1) [unfolded get_object_def] assms(2)]
  by (auto simp: mem_get_object_def)

lemma request_head:
  assumes "head_object k s = (r, s')" "settled L mine P s"
  shows "settled L mine P s' \<and> same_log s s'
    \<and> (r = fst (mem_head_object k (objects s')) \<or> (\<exists>e. r = Inl e \<and> \<not> is_NotFound e))"
  using request [OF assms(1) [unfolded head_object_def] assms(2)]
  by (auto simp: mem_head_object_def)

text \<open>Actions that are requests only leave the log's own fields alone.\<close>

definition world_only :: "('z world_scheme, 'e, 'a) io \<Rightarrow> bool" where
  "world_only m \<longleftrightarrow> (\<forall>s r s'. m s = (r, s') \<longrightarrow> same_log s s')"

named_theorems world_only_intros \<open>actions that only make requests\<close>

lemma world_onlyD: "world_only m \<Longrightarrow> m s = (r, s') \<Longrightarrow> same_log s s'"
  by (simp add: world_only_def)

lemma world_only_basic [world_only_intros]:
  "world_only (io_return x)" "world_only (io_throw e)" "world_only (io_result q)" "world_only (io_get f)"
  by (simp_all add: world_only_def io_simps)

lemma world_only_bind [world_only_intros]:
  "world_only m \<Longrightarrow> (\<And>x. world_only (k x)) \<Longrightarrow> world_only (io_bind m k)"
  unfolding world_only_def by (blast dest: io_bindD intro: same_log_trans)

lemma world_only_try [world_only_intros]:
  "world_only m \<Longrightarrow> (\<And>x. world_only (k x)) \<Longrightarrow> world_only (io_try m k)"
  unfolding world_only_def by (blast dest: io_tryD intro: same_log_trans)

lemma world_only_serve [world_only_intros]: "world_only (serve f)"
  unfolding world_only_def
proof (intro allI impI)
  fix s s' :: "'z world_scheme" and r assume run: "serve f s = (r, s')"
  show "same_log s s'"
  proof (cases "events s")
    case Nil
    with run have "s' = s\<lparr>objects := snd (f (objects s)), events := events s, now := now s\<rparr>"
      by (auto simp: serve_quiet)
    then show ?thesis unfolding same_log_def by blast
  next
    case (Cons ev evs)
    with run show ?thesis
      by (auto simp: same_log_def serve_def split: prod.splits)
  qed
qed

lemma world_only_requests [world_only_intros]:
  "world_only (put_if_not_exists L k b)" "world_only (put_if_match L k b e)" "world_only (put_object L k b)"
  "world_only (get_object k)" "world_only (head_object k)" "world_only (delete_object k)"
  "world_only (list_objects p)" "world_only (delete_if_match k e)"
  by (simp_all add: request_defs world_only_serve)

lemma world_only_read_operation [world_only_intros]: "world_only (read_operation L i)"
  unfolding read_operation_def by (intro world_only_intros; simp add: world_only_intros split: option.split)

lemma world_only_write_operation [world_only_intros]: "world_only (write_operation L x)"
  unfolding write_operation_def by (simp add: world_only_intros)

section \<open>Phases of a commit\<close>

definition phase :: "libs \<Rightarrow> (op_id \<Rightarrow> bool) \<Rightarrow> operation list \<Rightarrow> (op_id \<Rightarrow> string option) \<Rightarrow> objs \<Rightarrow> bool"
  where
  "phase L mine K S m \<longleftrightarrow>
     (\<exists>ys. committed L m (ys @ K) \<and> (\<forall>y \<in> set ys. \<not> mine (op_op_id y))
       \<and> (\<forall>i. mine i \<longrightarrow> contents m (op_key i) = S i))"

definition beyond :: "libs \<Rightarrow> operation list \<Rightarrow> objs \<Rightarrow> bool" where
  "beyond L K m \<longleftrightarrow> (\<exists>ys. committed L m (ys @ K))"

lemma closed_phase [chain_intros]: "closed L mine (phase L mine K S)"
  unfolding closed_def
proof (intro conjI allI impI)
  fix m m'
  assume "phase L mine K S m" "foreign_step L mine m m'"
  then obtain ys where ys: "committed L m (ys @ K)" "\<forall>y \<in> set ys. \<not> mine (op_op_id y)"
      "\<forall>i. mine i \<longrightarrow> contents m (op_key i) = S i"
    by (auto simp: phase_def)
  from foreign_step_committed [OF \<open>foreign_step L mine m m'\<close> ys(1)] obtain zs where
    "committed L m' (zs @ ys @ K)" "\<forall>y \<in> set zs. \<not> mine (op_op_id y)"
    "\<forall>i. mine i \<longrightarrow> contents m' (op_key i) = contents m (op_key i)" by auto
  with ys show "phase L mine K S m'"
    by (auto simp: phase_def intro!: exI [of _ "zs @ ys"])
qed (auto simp: phase_def)

lemma closed_beyond [chain_intros]: "closed L mine (beyond L K)"
  unfolding closed_def
proof (intro conjI allI impI)
  fix m m'
  assume "beyond L K m" "foreign_step L mine m m'"
  then obtain ys where ys: "committed L m (ys @ K)" by (auto simp: beyond_def)
  from foreign_step_committed [OF \<open>foreign_step L mine m m'\<close> ys] obtain zs where
    "committed L m' ((zs @ ys) @ K)" by auto
  then show "beyond L K m'" unfolding beyond_def by blast
qed (auto simp: beyond_def)

declare closed_conj [chain_intros] closed_disj [chain_intros]

lemma phase_beyond: "phase L mine K S m \<Longrightarrow> beyond L K m"
  by (auto simp: phase_def beyond_def)

lemma beyond_append: "beyond L (xs @ K) m \<Longrightarrow> beyond L K m"
  by (auto simp: beyond_def simp flip: append_assoc)

lemma beyond_store_inv: "beyond L K m \<Longrightarrow> store_inv L m"
  by (auto simp: beyond_def committed_def)

lemma committed_beyond: "committed L m xs \<Longrightarrow> beyond L xs m"
  unfolding beyond_def by (metis append_Nil)

lemma beyond_antisym: "beyond L K m \<Longrightarrow> committed L m xs \<Longrightarrow> \<exists>ys. xs = ys @ K"
  using committed_det by (fastforce simp: beyond_def)

section \<open>Loading the head\<close>

definition synced :: "libs \<Rightarrow> 'z oplog_scheme \<Rightarrow> operation list \<Rightarrow> bool" where
  "synced L s xs \<longleftrightarrow>
     ol_loaded s \<and> ol_head s = head_of xs \<and> ol_etag s = map_option (store_etag L) (head_of xs)"

text \<open>A run that may also reload the head: device, clock and random source stay.\<close>

definition same_writer :: "'z oplog_scheme \<Rightarrow> 'z oplog_scheme \<Rightarrow> bool" where
  "same_writer s s' \<longleftrightarrow> ol_device s' = ol_device s \<and> ol_clock s' = ol_clock s \<and> draws s' = draws s"

lemma same_log_writer: "same_log s s' \<Longrightarrow> same_writer s s'"
  by (simp add: same_writer_def same_log_fields)

lemma same_writer_trans [trans]: "same_writer s t \<Longrightarrow> same_writer t u \<Longrightarrow> same_writer s u"
  by (simp add: same_writer_def)

lemma same_writer_refl [simp]: "same_writer s s"
  by (simp add: same_writer_def)

lemma same_log_synced: "same_log s s' \<Longrightarrow> synced L s xs \<Longrightarrow> synced L s' xs"
  by (simp add: synced_def same_log_fields)

lemma head_object_committed:
  assumes "committed L m xs"
  shows "case head_of xs of
      None \<Rightarrow> fst (mem_head_object head_key m) = Inl (NotFound head_key)
    | Some h \<Rightarrow> \<exists>i. fst (mem_head_object head_key m) = Inr i \<and> om_etag i = store_etag L h"
proof -
  have "map_of m head_key = map_option (\<lambda>b. (b, store_etag L b)) (head_of xs)"
    using assms store_inv_contents [of L m head_key] by (simp add: committed_def)
  then show ?thesis by (auto simp: mem_head_object_def split: option.splits)
qed

lemma get_object_committed:
  "committed L m xs \<Longrightarrow> head_of xs = Some h \<Longrightarrow> fst (mem_get_object head_key m) = Inr h"
  by (auto simp: mem_get_object_def committed_def contents_def)

definition loaded_ok :: "libs \<Rightarrow> (op_id \<Rightarrow> bool) \<Rightarrow> (objs \<Rightarrow> bool) \<Rightarrow> 'z oplog_scheme \<Rightarrow> core_error + 'a
    \<Rightarrow> 'z oplog_scheme \<Rightarrow> bool" where
  "loaded_ok L mine P s r s' \<longleftrightarrow> settled L mine P s' \<and> same_writer s s'
     \<and> (case r of Inl e \<Rightarrow> same_log s s'
        | Inr _ \<Rightarrow> \<exists>xs. committed L (objects s') xs \<and> synced L s' xs)"

text \<open>
  Between the two \<open>head\<close> requests the head can only have moved on; equal ETags mean
  that it did not, so the id read in between belongs to the ETag that is stored.
\<close>

lemma load_head_present:
  assumes L: "libs_ok L" and s: "settled L mine P s" and K: "committed L (objects s) K"
    and hd: "head_of K = Some h" and before: "om_etag before = store_etag L h"
    and run: "load_present L before s = (r, s')"
  shows "loaded_ok L mine P s r s'"
proof -
  let ?P = "\<lambda>m. P m \<and> beyond L K m"
  have P: "closed L mine P" using s by (simp add: settled_def)
  have s0: "settled L mine ?P s"
    using s K by (intro settledI [OF s] chain_intros P) (auto simp: settled_def committed_beyond)
  from io_bindD [OF run [unfolded load_present_def]] consider
      (err) e where "get_object head_key s = (Inl e, s')" "r = Inl e"
    | (ok) data t1 where "get_object head_key s = (Inr data, t1)"
        "io_bind (head_object head_key) (store_head L before data) t1 = (r, s')" by blast
  then show ?thesis
  proof cases
    case err
    from request_get [OF err(1) s0] show ?thesis
      using err(2) by (auto simp: loaded_ok_def same_log_writer intro: settled_mono [OF _ P])
  next
    case ok
    from request_get [OF ok(1) s0] have t1: "settled L mine ?P t1" "same_log s t1"
      and data: "Inr data = fst (mem_get_object head_key (objects t1))" by auto
    from settled_bucket [OF t1(1)] obtain ys where c1: "committed L (objects t1) (ys @ K)"
      by (auto simp: beyond_def)
    let ?Q = "\<lambda>m. P m \<and> beyond L (ys @ K) m"
    have s1: "settled L mine ?Q t1"
      using t1(1) c1 by (intro settledI [OF t1(1)] chain_intros P) (auto simp: settled_def committed_beyond)
    obtain q t2 where hd2: "head_object head_key t1 = (q, t2)" by (cases "head_object head_key t1")
    from request_head [OF this s1] have t2: "settled L mine ?Q t2" "same_log t1 t2"
      and q: "q = fst (mem_head_object head_key (objects t2)) \<or> (\<exists>e. q = Inl e \<and> \<not> is_NotFound e)"
      by auto
    have st2: "settled L mine P t2" "same_log s t2"
      using t2 t1(2) by (auto intro: settled_mono [OF _ P] same_log_trans)
    show ?thesis
    proof (cases "\<exists>after. q = Inr after \<and> om_etag after = store_etag L h")
      case False
      then have "(\<exists>e. r = Inl e) \<and> s' = t2"
        using ok(2) hd2 before by (cases q) (auto simp: io_simps store_head_def)
      with st2 show ?thesis by (auto simp: loaded_ok_def same_log_writer)
    next
      case True
      then obtain after where after: "q = Inr after" "om_etag after = store_etag L h" by blast
      from settled_bucket [OF t2(1)] obtain zs where c2: "committed L (objects t2) (zs @ ys @ K)"
        by (auto simp: beyond_def)
      have "head_of (zs @ ys @ K) = Some h"
        using head_object_committed [OF c2] q after L by (auto split: option.splits simp: libs_ok_etag)
      then have none: "zs @ ys = []"
        using distinct_head_append [of "zs @ ys" K] committed_distinct [OF c2] hd by simp
      have ht: "head_text h" using c2 none hd by (simp add: committed_def)
      have "data = h" using get_object_committed [OF c1] none hd data by simp
      then have "r = Inr (Some h)" "s' = t2\<lparr>ol_head := Some h, ol_etag := Some (store_etag L h), ol_loaded := True\<rparr>"
        using ok(2) hd2 before after ht
        by (auto simp: io_simps store_head_def string_from_utf8_def head_text_def Let_def)
      then show ?thesis
        using st2 c2 none hd
        by (auto simp: loaded_ok_def synced_def settled_def protocol_env_def same_writer_def same_log_fields
            intro!: exI [of _ K])
    qed
  qed
qed

lemma load_head_ok:
  assumes L: "libs_ok L" and s: "settled L mine P s" and run: "load_head L s = (r, s')"
  shows "loaded_ok L mine P s r s'"
proof -
  have P: "closed L mine P" using s by (simp add: settled_def)
  obtain q t where q: "head_object head_key s = (q, t)" by (cases "head_object head_key s")
  from request_head [OF q s] have t: "settled L mine P t" "same_log s t"
    and res: "q = fst (mem_head_object head_key (objects t)) \<or> (\<exists>e. q = Inl e \<and> \<not> is_NotFound e)"
    by auto
  have "log_inv L (objects t)" using t(1) P by (auto simp: settled_def closed_def)
  then obtain K where K: "committed L (objects t) K" by (auto simp: log_inv_def)
  show ?thesis
  proof (cases "\<exists>e. q = Inl e \<and> \<not> is_NotFound e")
    case True
    then show ?thesis using run q t by (auto simp: load_head_def io_simps loaded_ok_def same_log_writer)
  next
    case False
    then have q': "q = fst (mem_head_object head_key (objects t))" using res by blast
    show ?thesis
    proof (cases "head_of K")
      case None
      then have "q = Inl (NotFound head_key)" using q' head_object_committed [OF K] by simp
      then have "r = Inr None" "s' = t\<lparr>ol_head := None, ol_etag := None, ol_loaded := True\<rparr>"
        using run q by (auto simp: load_head_def io_simps)
      then show ?thesis
        using t K None
        by (auto simp: loaded_ok_def synced_def settled_def protocol_env_def same_writer_def same_log_fields
            intro!: exI [of _ K])
    next
      case (Some h)
      then obtain before where before: "q = Inr before" "om_etag before = store_etag L h"
        using q' head_object_committed [OF K] by auto
      then have "load_present L before t = (r, s')"
        using run q by (simp add: load_head_def io_simps)
      from load_head_present [OF L t(1) K Some before(2) this] show ?thesis
        using t same_log_trans [OF t(2)] same_writer_trans [OF same_log_writer [OF t(2)]]
        unfolding loaded_ok_def by (cases r) auto
    qed
  qed
qed

lemma loaded_ok_forget:
  "loaded_ok L mine P s q t \<Longrightarrow> isl r \<longleftrightarrow> isl q \<Longrightarrow> loaded_ok L mine P s r t"
  unfolding loaded_ok_def by (cases q; cases r) auto

lemma loaded_ok_again:
  assumes "loaded_ok L mine P s (Inl e) t" "loaded_ok L mine P t r s'"
  shows "loaded_ok L mine P s r s'"
proof -
  have t: "same_log s t" "same_writer s t" using assms(1) by (simp_all add: loaded_ok_def)
  show ?thesis
    using assms(2) same_writer_trans [OF t(2)] same_log_trans [OF t(1)]
    unfolding loaded_ok_def by (cases r) auto
qed

lemma load_head_loop_ok:
  assumes L: "libs_ok L"
  shows "settled L mine P s \<Longrightarrow> load_head_loop L n s = (r, s') \<Longrightarrow> loaded_ok L mine P s r s'"
proof (induction n arbitrary: s)
  case 0
  obtain q t where q: "load_head L s = (q, t)" by (cases "load_head L s")
  have "s' = t" "isl r \<longleftrightarrow> isl q"
    using 0(2) q by (auto simp: io_simps split: option.splits sum.splits)
  with loaded_ok_forget [OF load_head_ok [OF L 0(1) q]] show ?case by simp
next
  case (Suc n)
  obtain q t where q: "load_head L s = (q, t)" by (cases "load_head L s")
  note t = load_head_ok [OF L Suc.prems(1) q]
  show ?case
  proof (cases "\<exists>e. q = Inl e \<and> is_Conflict e")
    case True
    then obtain e where "q = Inl e" "is_Conflict e" by blast
    then have again: "load_head_loop L n t = (r, s')" using Suc.prems(2) q by (simp add: io_simps)
    from t have "settled L mine P t" by (simp add: loaded_ok_def)
    from Suc.IH [OF this again] show ?thesis using t True by (auto intro: loaded_ok_again)
  next
    case False
    then have "s' = t" "isl r \<longleftrightarrow> isl q"
      using Suc.prems(2) q False by (auto simp: io_simps split: sum.splits)
    with loaded_ok_forget [OF t] show ?thesis by simp
  qed
qed

lemma load_head_consistent_ok:
  "libs_ok L \<Longrightarrow> settled L mine P s \<Longrightarrow> load_head_consistent L s = (r, s') \<Longrightarrow> loaded_ok L mine P s r s'"
  unfolding load_head_consistent_def by (rule load_head_loop_ok)

section \<open>Reading the operations committed since a known head\<close>

lemma request_read:
  assumes run: "read_operation L i s = (r, s')" and s: "settled L mine P s"
    and P: "\<And>m. P m \<Longrightarrow> beyond L xs m" and x: "x \<in> set xs" "i = op_op_id x"
  shows "settled L mine P s' \<and> same_log s s' \<and> (r = Inr x \<or> (\<exists>e. r = Inl e \<and> \<not> is_NotFound e))"
proof -
  obtain q t where q: "get_object (op_key i) s = (q, t)" by (cases "get_object (op_key i) s")
  then have r: "r = read_result L i q" "s' = t" using run by (auto simp: read_operation_eq)
  from request_get [OF q s] have t: "settled L mine P t" "same_log s t"
    and res: "q = fst (mem_get_object (op_key i) (objects t)) \<or> (\<exists>e. q = Inl e \<and> \<not> is_NotFound e)"
    by auto
  obtain ys where "committed L (objects t) (ys @ xs)"
    using P settled_bucket [OF t(1)] by (auto simp: beyond_def)
  then have "op_in L (objects t) i = Some x" using committed_op_in x by fastforce
  then have "read_result L i (fst (mem_get_object (op_key i) (objects t))) = Inr x"
    by (rule op_in_read)
  with res r t show ?thesis by (auto simp: read_result_def)
qed

definition since_ok :: "operation list \<Rightarrow> string option \<Rightarrow> op_id \<Rightarrow> nat \<Rightarrow> concurrent_ops \<Rightarrow> bool" where
  "since_ok xs base own bound c \<longleftrightarrow>
     (case c of
        ContainsOwn \<Rightarrow> own \<in> op_op_id ` set xs
      | Committed new \<Rightarrow> \<exists>K. xs = new @ K \<and> head_of K = base \<and> own \<notin> op_op_id ` set new
      | Unverifiable _ \<Rightarrow> \<forall>new K. xs = new @ K \<longrightarrow> head_of K = base \<longrightarrow> bound \<le> length new)"

lemma since_unread:
  assumes "acc @ y # rest = new @ K" "head_of K = base" "base \<noteq> Some (op_op_id y)"
    "base \<notin> Some ` op_op_id ` set acc"
  shows "length acc < length new"
proof (rule ccontr)
  assume "\<not> length acc < length new"
  with assms(1) obtain us where "acc = new @ us" "K = us @ y # rest"
    by (auto simp: append_eq_append_conv2 append_eq_Cons_conv)
  with assms(2-4) show False by (cases us) auto
qed

lemma since_loop_ok:
  assumes P: "\<And>m. P m \<Longrightarrow> beyond L xs m" and linked: "linked xs"
  shows "settled L mine P s \<Longrightarrow> since_loop L base own n (op_op_id y) acc s = (r, s')
    \<Longrightarrow> xs = acc @ y # rest \<Longrightarrow> own \<notin> op_op_id ` set acc \<Longrightarrow> base \<notin> Some ` op_op_id ` set acc
    \<Longrightarrow> settled L mine P s' \<and> same_log s s' \<and> (\<forall>c. r = Inr c \<longrightarrow> since_ok xs base own (length acc + n) c)"
proof (induction n arbitrary: y acc rest s)
  case 0
  have "base = Some (op_op_id y) \<or> base \<noteq> Some (op_op_id y)" by blast
  then have "xs = new @ K \<Longrightarrow> head_of K = base \<Longrightarrow> length acc \<le> length new" for new K
  proof (elim disjE)
    assume *: "xs = new @ K" "head_of K = base" "base = Some (op_op_id y)"
    show ?thesis
    proof (rule ccontr)
      assume "\<not> length acc \<le> length new"
      with *(1) 0(3) obtain us where "acc = new @ us" "K = us @ y # rest" "us \<noteq> []"
        by (auto simp: append_eq_append_conv2 append_eq_Cons_conv)
      with * 0(5) show False by (cases us) auto
    qed
  next
    assume *: "xs = new @ K" "head_of K = base" "base \<noteq> Some (op_op_id y)"
    then show ?thesis using since_unread [of acc y rest new K base] 0(3,5) by simp
  qed
  with 0 show ?case by (auto simp: io_simps since_ok_def)
next
  case (Suc n)
  show ?case
  proof (cases "base = Some (op_op_id y) \<or> op_op_id y = own")
    case True
    with Suc.prems show ?thesis
      by (auto simp: io_simps since_ok_def intro!: exI [of _ "y # rest"] split: if_splits)
  next
    case False
    obtain q t where q: "read_operation L (op_op_id y) s = (q, t)"
      by (cases "read_operation L (op_op_id y) s")
    have "y \<in> set xs" using Suc.prems by simp
    from request_read [OF q Suc.prems(1) P this refl] have t: "settled L mine P t" "same_log s t"
      and res: "q = Inr y \<or> (\<exists>e. q = Inl e \<and> \<not> is_NotFound e)" by auto
    show ?thesis
    proof (cases "q = Inr y")
      case False
      with res obtain e where "q = Inl e" "\<not> is_NotFound e" by blast
      then show ?thesis
        using t Suc.prems(2) q \<open>\<not> (base = Some (op_op_id y) \<or> op_op_id y = own)\<close>
        by (auto simp: io_simps)
    next
      case read: True
      have y: "op_base_head y = head_or_empty (head_of rest)" "linked rest"
        using linked Suc.prems(3) linked_append by fastforce+
      have apart: "own \<notin> op_op_id ` set (acc @ [y])" "base \<notin> Some ` op_op_id ` set (acc @ [y])"
        using Suc.prems(4,5) False by auto
      show ?thesis
      proof (cases rest)
        case Nil
        then have "s' = t" "r = Inr (case base of None \<Rightarrow> Committed (acc @ [y])
            | Some b \<Rightarrow> Unverifiable (''operation chain ended before base head '' @ b))"
          using Suc.prems(2) q read False y by (auto simp: io_simps)
        moreover have "since_ok xs base own (length acc + Suc n) (case base of None \<Rightarrow> Committed (acc @ [y])
            | Some b \<Rightarrow> Unverifiable (''operation chain ended before base head '' @ b))"
        proof (cases base)
          case None
          then show ?thesis using Suc.prems(3) Nil apart(1) by (simp add: since_ok_def)
        next
          case (Some b)
          have "False" if "xs = new @ K" "head_of K = base" for new K
          proof -
            from that(2) Some obtain z zs where "K = z # zs" "op_op_id z = b" by (cases K) auto
            then have "b \<in> op_op_id ` set xs" using that(1) by auto
            then show False using Suc.prems(3) Nil apart(2) Some by auto
          qed
          then show ?thesis using Some by (auto simp: since_ok_def)
        qed
        ultimately show ?thesis using t by simp
      next
        case (Cons z zs)
        have "op_base_head y \<noteq> []" using y Cons by simp
        then have "since_loop L base own n (op_op_id z) (acc @ [y]) t = (r, s')"
          using Suc.prems(2) q read False y(1) Cons by (simp add: io_simps)
        from Suc.IH [OF t(1) this _ apart] show ?thesis
          using Suc.prems(3) Cons t(2) by (auto intro: same_log_trans)
      qed
    qed
  qed
qed

lemma operations_since_ok:
  assumes "operations_since L base own s = (r, s')" "settled L mine P s"
    and P: "\<And>m. P m \<Longrightarrow> beyond L xs m" and xs: "committed L (objects s) xs" "synced L s xs"
  shows "settled L mine P s' \<and> same_log s s'
    \<and> (\<forall>c. r = Inr c \<longrightarrow> since_ok xs base own max_rebase_walk_ops c \<or> (xs = [] \<and> (\<exists>why. c = Unverifiable why)))"
proof (cases xs)
  case Nil
  then show ?thesis using assms by (auto simp: operations_since_def synced_def io_simps)
next
  case (Cons y rest)
  have "since_loop L base own max_rebase_walk_ops (op_op_id y) [] s = (r, s')"
    using assms(1) xs Cons by (simp add: operations_since_def synced_def io_simps)
  moreover have "linked xs" using xs(1) chain_linked by (auto simp: committed_def)
  ultimately show ?thesis
    using since_loop_ok [OF P _ assms(2), where acc = "[]" and rest = rest] Cons by auto
qed

section \<open>The writes of an attempt\<close>

lemma phaseD:
  assumes "phase L mine K S m"
  obtains ys where "committed L m (ys @ K)" "\<forall>y \<in> set ys. \<not> mine (op_op_id y)"
    "\<And>i. mine i \<Longrightarrow> contents m (op_key i) = S i"
  using assms by (auto simp: phase_def)

lemma phase_fresh: "phase L mine K S m \<Longrightarrow> mine i \<Longrightarrow> S i = None \<Longrightarrow> i \<notin> op_op_id ` set K"
  using committed_present by (fastforce simp: phase_def)

lemma committed_op_other:
  assumes "committed L m xs" "store_inv L m'" "i \<notin> op_op_id ` set xs"
    and "contents m' = (contents m)(op_key i := v)"
  shows "committed L m' xs"
  using assms(3,4) by (intro committed_mono [OF assms(1,2)]) auto

text \<open>Writing or removing an own operation object that is not committed stays in the phase.\<close>

lemma phase_put:
  assumes "phase L mine K S m" "mine i" "S i = None"
  shows "phase L mine K (S(i \<mapsto> b)) (btree_insert (op_key i) (b, store_etag L b) m)"
  using assms(1)
proof (rule phaseD)
  fix ys assume ys: "committed L m (ys @ K)" "\<forall>y \<in> set ys. \<not> mine (op_op_id y)"
    "\<And>i. mine i \<Longrightarrow> contents m (op_key i) = S i"
  have "i \<notin> op_op_id ` set (ys @ K)" using committed_present [OF ys(1)] ys(3) assms by fastforce
  then have "committed L (btree_insert (op_key i) (b, store_etag L b) m) (ys @ K)"
    using ys(1) by (intro committed_op_other [OF ys(1)]) (auto simp: committed_def)
  with ys show ?thesis by (auto simp: phase_def)
qed

lemma phase_drop:
  assumes "phase L mine K S m" "mine i" "i \<notin> op_op_id ` set K"
  shows "phase L mine K (S(i := None)) (btree_remove (op_key i) m)"
  using assms(1)
proof (rule phaseD)
  fix ys assume ys: "committed L m (ys @ K)" "\<forall>y \<in> set ys. \<not> mine (op_op_id y)"
    "\<And>i. mine i \<Longrightarrow> contents m (op_key i) = S i"
  have "i \<notin> op_op_id ` set (ys @ K)" using ys(2) assms by auto
  then have "committed L (btree_remove (op_key i) m) (ys @ K)"
    using ys(1) by (intro committed_op_other [OF ys(1)]) (auto simp: committed_def)
  with ys show ?thesis by (auto simp: phase_def)
qed

lemma phase_head: "phase L mine K S m \<Longrightarrow> contents m head_key = head_of K \<Longrightarrow> committed L m K"
proof (elim phaseD)
  fix ys assume head: "contents m head_key = head_of K" and ys: "committed L m (ys @ K)"
  then have "head_of (ys @ K) = head_of K" by (simp add: committed_def)
  then have "ys = []" by (rule distinct_head_append [OF committed_distinct [OF ys]])
  with ys show ?thesis by simp
qed

lemma phase_push:
  assumes "phase L mine K S m" "contents m head_key = head_of K"
    and "mine (op_op_id x)" "op_in L m (op_op_id x) = Some x" "head_text (op_op_id x)"
    and "op_base_head x = head_or_empty (head_of K)"
  shows "phase L mine (x # K) S (btree_insert head_key (op_op_id x, store_etag L (op_op_id x)) m)"
proof -
  have "committed L (btree_insert head_key (op_op_id x, store_etag L (op_op_id x)) m) ([] @ x # K)"
    using phase_head [OF assms(1,2)] assms by (auto intro: committed_push)
  with assms(1) show ?thesis unfolding phase_def by (intro exI [of _ "[]"]) auto
qed

lemma phase_stale: "phase L mine (x # K) S m \<Longrightarrow> contents m head_key \<noteq> head_of K"
proof
  assume "phase L mine (x # K) S m" "contents m head_key = head_of K"
  then obtain ys where ys: "committed L m (ys @ x # K)" by (auto simp: phase_def)
  then have "head_of ((ys @ [x]) @ K) = head_of K"
    using \<open>contents m head_key = head_of K\<close> by (simp add: committed_def)
  with committed_distinct [OF ys] have "ys @ [x] = []"
    by (intro distinct_head_append [of _ K]) auto
  then show False by simp
qed

lemma phase_later:
  assumes "phase L mine K S m" "committed L m xs"
  obtains new where "xs = new @ K" "\<forall>y \<in> set new. \<not> mine (op_op_id y)" "phase L mine xs S m"
proof (rule phaseD [OF assms(1)])
  fix ys assume ys: "committed L m (ys @ K)" "\<forall>y \<in> set ys. \<not> mine (op_op_id y)"
    "\<And>i. mine i \<Longrightarrow> contents m (op_key i) = S i"
  have "xs = ys @ K" using committed_det [OF assms(2) ys(1)] .
  moreover have "phase L mine xs S m" using assms(2) ys(3) by (auto simp: phase_def intro!: exI [of _ "[]"])
  ultimately show thesis using that ys(2) by blast
qed

text \<open>Either our object is there or not yet; the phase before and after a write of it.\<close>

definition maybe :: "libs \<Rightarrow> (op_id \<Rightarrow> bool) \<Rightarrow> operation list \<Rightarrow> (op_id \<Rightarrow> string option) \<Rightarrow> op_id \<Rightarrow> string option
    \<Rightarrow> objs \<Rightarrow> bool" where
  "maybe L mine K S i v m \<longleftrightarrow> phase L mine K S m \<or> phase L mine K (S(i := v)) m"

lemma closed_maybe [chain_intros]: "closed L mine (maybe L mine K S i v)"
  using closed_disj [OF closed_phase closed_phase] by (simp add: maybe_def [abs_def])

lemma settled_maybe:
  "settled L mine (maybe L mine K S i v) s \<Longrightarrow>
     settled L mine (phase L mine K S) s \<or> settled L mine (phase L mine K (S(i := v))) s"
  using settledI closed_phase by (metis maybe_def settled_bucket)

lemma write_operation_ok:
  assumes L: "libs_ok L" and s: "settled L mine (phase L mine K S) s"
    and mine: "mine (op_op_id x)"
    and S: "S (op_op_id x) = None \<or> S (op_op_id x) = Some (json_of (json_operation L) x)"
    and run: "write_operation L x s = (r, s')"
  shows "same_log s s' \<and> settled L mine
      (maybe L mine K S (op_op_id x) (Some (json_of (json_operation L) x))) s'
    \<and> (r = Inr () \<longrightarrow> settled L mine (phase L mine K (S(op_op_id x \<mapsto> json_of (json_operation L) x))) s')"
proof -
  let ?J = "json_of (json_operation L) x" and ?i = "op_op_id x"
  let ?P = "maybe L mine K S ?i (Some ?J)" and ?S1 = "S(?i \<mapsto> ?J)"
  have s0: "settled L mine ?P s"
    by (rule settled_mono [OF s closed_maybe]) (simp add: maybe_def)
  have c: "codec_ok (json_operation L)" using L by (simp add: libs_ok_codecs)
  obtain q t where q: "put_if_not_exists L (op_key ?i) ?J s = (q, t)"
    by (cases "put_if_not_exists L (op_key ?i) ?J s")
  have S1: "?S1 = S" if "S ?i = Some ?J" using that by (simp add: fun_upd_idem)
  have there: "phase L mine K ?S1 m" if "?P m" "contents m (op_key ?i) \<noteq> None" for m
    using that S S1 mine by (auto simp: maybe_def phase_def)
  have act: "phase L mine K ?S1 (snd (mem_put_if_not_exists L (op_key ?i) ?J m))" if P: "?P m" for m
  proof (cases "contents m (op_key ?i)")
    case None
    then have "S ?i = None \<and> phase L mine K S m"
      using P S mine by (auto simp: maybe_def phase_def)
    then show ?thesis using phase_put [of L mine K S m ?i ?J] mine None by (simp add: mem_put_if_not_exists_def contents_None)
  next
    case (Some b)
    then show ?thesis
      using there [OF P] by (auto simp: mem_put_if_not_exists_def contents_def split: option.splits)
  qed
  from request [OF q [unfolded put_if_not_exists_def] s0] act
  have t: "settled L mine ?P t" "same_log s t"
    and res: "(\<exists>m. ?P m \<and> mem_put_if_not_exists L (op_key ?i) ?J m = (q, objects t)) \<or> (\<exists>e. q = Inl e)"
    by (auto simp: maybe_def)
  show ?thesis
  proof (cases q)
    case (Inl e)
    then have "r = Inl e" "s' = t" using run q c by (auto simp: write_operation_def io_simps to_json_ok)
    then show ?thesis using t by simp
  next
    case (Inr created)
    then obtain m where m: "?P m" "mem_put_if_not_exists L (op_key ?i) ?J m = (q, objects t)"
      using res by auto
    then have "phase L mine K ?S1 (objects t)" using act [OF m(1)] by simp
    then have t1: "settled L mine (phase L mine K ?S1) t" by (intro settledI [OF t(1)] chain_intros)
    show ?thesis
    proof (cases created)
      case True
      then have "r = Inr ()" "s' = t" using run q Inr c by (auto simp: write_operation_def io_simps to_json_ok)
      then show ?thesis using t t1 by simp
    next
      case False
      obtain q2 t2 where q2: "get_object (op_key ?i) t = (q2, t2)" by (cases "get_object (op_key ?i) t")
      from request_get [OF q2 t1] have t2: "settled L mine (phase L mine K ?S1) t2" "same_log t t2"
        and res2: "q2 = fst (mem_get_object (op_key ?i) (objects t2)) \<or> (\<exists>e. q2 = Inl e)" by auto
      have "contents (objects t2) (op_key ?i) = Some ?J"
        using settled_bucket [OF t2(1)] mine by (auto simp: phase_def)
      then have "read_result L ?i (fst (mem_get_object (op_key ?i) (objects t2))) = Inr x"
        by (intro op_in_read op_in_json L)
      with res2 have "(r = Inr () \<or> (\<exists>e. r = Inl e)) \<and> s' = t2"
        using run q Inr False q2 c
        by (auto simp: write_operation_def io_simps read_operation_eq to_json_ok read_result_def)
      moreover have "settled L mine ?P t2"
        by (rule settled_mono [OF t2(1) closed_maybe]) (simp add: maybe_def)
      ultimately show ?thesis using t t2 by (auto intro: same_log_trans)
    qed
  qed
qed

section \<open>The conditional write of the head\<close>

definition move_head :: "libs \<Rightarrow> 'z oplog_scheme \<Rightarrow> op_id \<Rightarrow> objs \<Rightarrow> bool core_result \<times> objs" where
  "move_head L s i =
     (case ol_head s of
        None \<Rightarrow> mem_put_if_not_exists L head_key i
      | Some _ \<Rightarrow> mem_put_if_match L head_key i (head_or_empty (ol_etag s)))"

lemma move_head_cases:
  assumes "libs_ok L" "synced L s K" "store_inv L m"
  shows "move_head L s i m =
    (if contents m head_key = head_of K
     then (Inr True, btree_insert head_key (i, store_etag L i) m) else (Inr False, m))"
proof (cases "head_of K")
  case None
  then show ?thesis
    using assms by (auto simp: move_head_def synced_def mem_put_if_not_exists_def contents_def split: option.splits)
next
  case (Some h)
  then show ?thesis
    using assms store_inv_contents [OF assms(3), of head_key]
    by (auto simp: move_head_def synced_def mem_put_if_match_def libs_ok_etag split: option.splits)
qed

lemma advance_head_run:
  assumes "synced L s K"
  shows "advance_head L i s =
    io_bind (serve (move_head L s i))
       (\<lambda>advanced.
          if \<not> advanced then io_return False
          else
            io_bind (head_object head_key) (\<lambda>meta.
            io_bind (io_modify (\<lambda>s. s\<lparr>ol_head := Some i, ol_etag := Some (om_etag meta), ol_loaded := True\<rparr>))
              (\<lambda>_. io_return True))) s"
proof (cases "head_of K")
  case None
  with assms show ?thesis
    by (simp add: advance_head_def io_bind_apply io_get_apply synced_def move_head_def put_if_not_exists_def)
next
  case (Some h)
  with assms show ?thesis
    by (simp add: advance_head_def io_bind_apply io_get_apply synced_def move_head_def put_if_match_def)
qed

definition raced :: "libs \<Rightarrow> (op_id \<Rightarrow> bool) \<Rightarrow> operation list \<Rightarrow> operation \<Rightarrow> (op_id \<Rightarrow> string option) \<Rightarrow> objs \<Rightarrow> bool"
  where
  "raced L mine K x S m \<longleftrightarrow> phase L mine K S m \<or> phase L mine (x # K) S m"

lemma closed_raced [chain_intros]: "closed L mine (raced L mine K x S)"
  using closed_disj [OF closed_phase closed_phase] by (simp add: raced_def [abs_def])

lemma phase_op_in:
  "libs_ok L \<Longrightarrow> phase L mine K S m \<Longrightarrow> mine (op_op_id x) \<Longrightarrow> S (op_op_id x) = Some (json_of (json_operation L) x)
     \<Longrightarrow> op_in L m (op_op_id x) = Some x"
  by (auto simp: phase_def intro: op_in_json)

lemma advance_head_ok:
  assumes L: "libs_ok L" and s: "settled L mine (phase L mine K S) s" and synced: "synced L s K"
    and x: "mine (op_op_id x)" "S (op_op_id x) = Some (json_of (json_operation L) x)"
      "head_text (op_op_id x)" "op_base_head x = head_or_empty (head_of K)"
    and run: "advance_head L (op_op_id x) s = (r, s')"
  shows "settled L mine (raced L mine K x S) s' \<and> same_writer s s'
    \<and> (r = Inr True \<longrightarrow> settled L mine (phase L mine (x # K) S) s')"
proof -
  let ?i = "op_op_id x"
  have s0: "settled L mine (raced L mine K x S) s"
    by (rule settled_mono [OF s closed_raced]) (simp add: raced_def)
  have inv: "store_inv L m" if "raced L mine K x S m" for m
    using that by (auto simp: raced_def phase_def committed_def)
  have act: "(case move_head L s ?i m of (ok, m') \<Rightarrow> raced L mine K x S m'
      \<and> (ok = Inr True \<longrightarrow> phase L mine (x # K) S m'))" if P: "raced L mine K x S m" for m
  proof (cases "contents m head_key = head_of K")
    case True
    then have ph: "phase L mine K S m" using P phase_stale by (auto simp: raced_def)
    have "phase L mine (x # K) S (btree_insert head_key (?i, store_etag L ?i) m)"
      using phase_push [OF ph True x(1) phase_op_in [OF L ph x(1,2)] x(3,4)] .
    then show ?thesis using move_head_cases [OF L synced inv [OF P]] True by (simp add: raced_def)
  next
    case False
    then show ?thesis using move_head_cases [OF L synced inv [OF P]] P by simp
  qed
  obtain q t where q: "serve (move_head L s ?i) s = (q, t)" by (cases "serve (move_head L s ?i) s")
  have "\<And>m. raced L mine K x S m \<Longrightarrow> raced L mine K x S (snd (move_head L s ?i m))"
    using act by fastforce
  from request [OF q s0 this]
  have t: "settled L mine (raced L mine K x S) t" "same_log s t"
    and res: "(\<exists>m. raced L mine K x S m \<and> move_head L s ?i m = (q, objects t)) \<or> (\<exists>e. q = Inl e)"
    by auto
  show ?thesis
  proof (cases "q = Inr True")
    case False
    then have "s' = t \<and> r \<noteq> Inr True"
      using run q by (cases q) (auto simp: advance_head_run [OF synced] io_simps)
    then show ?thesis using t by (auto intro: same_log_writer)
  next
    case True
    then have "phase L mine (x # K) S (objects t)" using res act by fastforce
    then have t1: "settled L mine (phase L mine (x # K) S) t"
      by (intro settledI [OF t(1)] chain_intros)
    obtain q2 t2 where q2: "head_object head_key t = (q2, t2)" by (cases "head_object head_key t")
    from request_head [OF q2 t1] have t2: "settled L mine (phase L mine (x # K) S) t2" "same_log t t2" by auto
    have w: "same_writer s t2" using t(2) t2(2) by (auto intro: same_log_trans same_log_writer)
    have won: "settled L mine (phase L mine (x # K) S) s' \<and> same_writer s s'"
    proof (cases q2)
      case (Inl e)
      then have "s' = t2" using run q True q2 by (auto simp: advance_head_run [OF synced] io_simps)
      then show ?thesis using t2 w by simp
    next
      case (Inr meta)
      then have "s' = t2\<lparr>ol_head := Some ?i, ol_etag := Some (om_etag meta), ol_loaded := True\<rparr>"
        using run q True q2 by (auto simp: advance_head_run [OF synced] io_simps)
      then show ?thesis using t2(1) w by (simp add: settled_def protocol_env_def same_writer_def)
    qed
    moreover have "settled L mine (raced L mine K x S) s'"
      using won by (auto intro!: settled_mono [OF _ closed_raced] simp: raced_def)
    ultimately show ?thesis by simp
  qed
qed

lemma discard_ok:
  assumes s: "settled L mine (phase L mine K S) s" and i: "mine i" "i \<notin> op_op_id ` set K"
    and run: "discard_orphan_operation L i s = (r, s')"
  shows "r = Inr () \<and> same_log s s' \<and> settled L mine (maybe L mine K S i None) s'"
proof -
  let ?P = "maybe L mine K S i None"
  have s0: "settled L mine ?P s"
    by (rule settled_mono [OF s closed_maybe]) (simp add: maybe_def)
  obtain q t where q: "delete_object (op_key i) s = (q, t)" by (cases "delete_object (op_key i) s")
  have "?P (snd (mem_delete_object (op_key i) m))" if "?P m" for m
    using that phase_drop [of L mine K S m i] phase_drop [of L mine K "S(i := None)" m i] i
    by (auto simp: maybe_def mem_delete_object_def)
  from request [OF q [unfolded delete_object_def] s0 this]
  show ?thesis using run q by (auto simp: discard_orphan_operation_def io_simps)
qed

section \<open>Fresh operation ids\<close>

definition planned ::
    "libs \<Rightarrow> 'z oplog_scheme \<Rightarrow> file_id option \<Rightarrow> op_type \<Rightarrow> preconditions \<Rightarrow> effects \<Rightarrow> operation" where
  "planned L s target ty pre eff =
     \<lparr>op_op_id = new_op_id L (ol_device s) (ol_clock s + 1) (uuid_now_v7 L (draws s)),
      op_device_id = ol_device s,
      op_actor_id = uuid_text L (ol_device s),
      op_logical_clock = ol_clock s + 1,
      op_base_head = head_or_empty (ol_head s),
      op_target_file_id = target,
      op_op_type = ty,
      op_preconditions = pre,
      op_effects = eff,
      op_timestamp = rfc3339_text L (now s),
      op_signature = None\<rparr>"

lemma next_operation_run:
  "next_operation L target ty pre eff s =
     (Inr (planned L s target ty pre eff), s\<lparr>ol_clock := ol_clock s + 1, draws := draws s + 1\<rparr>)"
  by (simp add: next_operation_def planned_def new_uuid_def io_simps)

lemma new_op_id_own [simp]: "is_own L d (new_op_id L d c u)"
  by (simp add: is_own_def new_op_id_def starts_with_def)

lemma trim_graphic: "list_all graphic s \<Longrightarrow> trim s = s"
  by (cases "s = []") (auto simp: list_all_iff intro: trim_graphic_ends)

lemma new_op_id_text:
  assumes "libs_ok L"
  shows "head_text (new_op_id L d c u)"
proof -
  have g: "list_all graphic (new_op_id L d c u)"
    using assms by (simp add: new_op_id_def libs_ok_uuid nat_str_graphic graphic_def)
  then show ?thesis
    using trim_graphic [OF g] ascii_graphic [OF g] assms
    by (simp add: head_text_def new_op_id_def libs_ok_uuid)
qed

lemma new_op_id_uuid:
  assumes "libs_ok L" "new_op_id L d c u = new_op_id L d c' u'"
  shows "u = u'"
proof -
  have tail: "takeWhile (\<lambda>x. x \<noteq> CHR '':'') (rev (new_op_id L d c u)) = rev (uuid_text L u)" for c u
  proof -
    have "takeWhile (\<lambda>x. x \<noteq> CHR '':'') (rev (uuid_text L u) @ CHR '':'' # r) = rev (uuid_text L u)" for r
      using libs_ok_uuid(5) [OF assms(1), of u]
      by (subst takeWhile_append2) auto
    then show ?thesis by (simp add: new_op_id_def)
  qed
  have "rev (uuid_text L u) = rev (uuid_text L u')" using tail [of c u] tail [of c' u'] assms(2) by simp
  then show ?thesis using assms(1) by (simp add: uuid_text_inj)
qed

text \<open>The uuids of the next \<open>n\<close> draws are distinct and none of their operation ids is taken.\<close>

definition fresh_ids :: "libs \<Rightarrow> device_id \<Rightarrow> (op_id \<Rightarrow> string option) \<Rightarrow> nat \<Rightarrow> nat \<Rightarrow> bool" where
  "fresh_ids L d S k n \<longleftrightarrow> distinct (map (uuid_now_v7 L) [k..<k + n])
     \<and> (\<forall>j \<in> {k..<k + n}. \<forall>c. S (new_op_id L d c (uuid_now_v7 L j)) = None)"

lemma fresh_ids_Suc:
  assumes "libs_ok L" "fresh_ids L d S k (Suc n)"
  shows "S (new_op_id L d c (uuid_now_v7 L k)) = None"
    and "(\<And>i. i \<noteq> new_op_id L d c (uuid_now_v7 L k) \<Longrightarrow> S' i = S i) \<Longrightarrow> fresh_ids L d S' (Suc k) n"
proof -
  show "S (new_op_id L d c (uuid_now_v7 L k)) = None" using assms(2) by (simp add: fresh_ids_def)
  have up: "[k..<k + Suc n] = k # [Suc k..<Suc k + n]" by (simp add: upt_rec)
  assume S': "\<And>i. i \<noteq> new_op_id L d c (uuid_now_v7 L k) \<Longrightarrow> S' i = S i"
  have "new_op_id L d c' (uuid_now_v7 L j) \<noteq> new_op_id L d c (uuid_now_v7 L k)"
    if "j \<in> {Suc k..<Suc k + n}" for c' j
  proof
    assume "new_op_id L d c' (uuid_now_v7 L j) = new_op_id L d c (uuid_now_v7 L k)"
    then have "uuid_now_v7 L k = uuid_now_v7 L j" using new_op_id_uuid [OF assms(1)] by metis
    moreover have "uuid_now_v7 L k \<notin> uuid_now_v7 L ` {Suc k..<Suc k + n}"
      using assms(2) unfolding fresh_ids_def up list.map distinct.simps set_map set_upt by blast
    ultimately show False using that by blast
  qed
  with S' show "fresh_ids L d S' (Suc k) n"
    using assms(2) unfolding fresh_ids_def up by simp
qed

section \<open>After a lost race\<close>

lemma same_base:
  assumes "distinct (map op_op_id (a @ K))" "a @ K = b @ K'" "head_of K = head_of K'"
  shows "a = b \<and> K = K'"
proof -
  from assms(2) obtain us where "(a = b @ us \<and> us @ K = K') \<or> (b = a @ us \<and> K = us @ K')"
    by (auto simp: append_eq_append_conv2)
  then show ?thesis
  proof
    assume *: "a = b @ us \<and> us @ K = K'"
    then have "us = []" using assms by (intro distinct_head_append [of us K]) auto
    with * show ?thesis by simp
  next
    assume *: "b = a @ us \<and> K = us @ K'"
    then have "us = []" using assms by (intro distinct_head_append [of us K']) auto
    with * show ?thesis by simp
  qed
qed

definition rechecked ::
    "libs \<Rightarrow> (op_id \<Rightarrow> bool) \<Rightarrow> operation list \<Rightarrow> operation \<Rightarrow> (op_id \<Rightarrow> string option)
      \<Rightarrow> concurrent_ops core_result \<Rightarrow> 'z oplog_scheme \<Rightarrow> bool" where
  "rechecked L mine K x S r s \<longleftrightarrow>
     (case r of
        Inl _ \<Rightarrow> True
      | Inr ContainsOwn \<Rightarrow> settled L mine (phase L mine (x # K) S) s
      | Inr (Committed new) \<Rightarrow> settled L mine (phase L mine (new @ K) S) s \<and> synced L s (new @ K)
          \<and> (\<forall>y \<in> set new. \<not> mine (op_op_id y))
      | Inr (Unverifiable _) \<Rightarrow> True)"

lemma recheck_won:
  assumes s: "settled L mine (phase L mine (x # K) S) s" and xs: "committed L (objects s) xs" "synced L s xs"
    and run: "operations_since L (head_of K) (op_op_id x) s = (r, s')"
  shows "same_writer s s' \<and> settled L mine (phase L mine (x # K) S) s' \<and> rechecked L mine K x S r s'"
proof -
  let ?P = "\<lambda>m. phase L mine (x # K) S m \<and> beyond L xs m"
  have "settled L mine ?P s"
    using s xs(1) by (intro settledI [OF s] chain_intros) (auto simp: settled_def committed_beyond)
  from operations_since_ok [OF run this _ xs]
  have s': "settled L mine ?P s'" "same_log s s'"
    and c: "\<forall>c. r = Inr c \<longrightarrow> since_ok xs (head_of K) (op_op_id x) max_rebase_walk_ops c
        \<or> (\<exists>why. c = Unverifiable why)" by auto
  from phase_later [OF settled_bucket [OF s] xs(1)] obtain new where new: "xs = new @ x # K" .
  have "c \<noteq> Committed c'" if "r = Inr c" for c c'
  proof
    assume "c = Committed c'"
    with c that obtain K' where K': "xs = c' @ K'" "head_of K' = head_of K" "op_op_id x \<notin> op_op_id ` set c'"
      by (auto simp: since_ok_def)
    have "distinct (map op_op_id ((new @ [x]) @ K))" using committed_distinct [OF xs(1)] new by simp
    from same_base [OF this, of c' K'] new K' have "c' = new @ [x]" by simp
    with K'(3) show False by simp
  qed
  moreover have "settled L mine (phase L mine (x # K) S) s'"
    by (rule settled_mono [OF s'(1) closed_phase]) simp
  ultimately show ?thesis
    using s'(2) by (auto simp: rechecked_def same_log_writer split: sum.splits concurrent_ops.splits)
qed

lemma recheck_lost:
  assumes s: "settled L mine (phase L mine K S) s" and xs: "committed L (objects s) xs" "synced L s xs"
    and x: "mine (op_op_id x)" "op_op_id x \<notin> op_op_id ` set K"
    and run: "operations_since L (head_of K) (op_op_id x) s = (r, s')"
  shows "same_writer s s' \<and> settled L mine (phase L mine K S) s' \<and> rechecked L mine K x S r s'"
proof -
  from phase_later [OF settled_bucket [OF s] xs(1)] obtain new where
    new: "xs = new @ K" "\<forall>y \<in> set new. \<not> mine (op_op_id y)" "phase L mine xs S (objects s)" .
  let ?P = "\<lambda>m. phase L mine xs S m \<and> phase L mine K S m"
  have P: "settled L mine ?P s"
    using s new(3) by (intro settledI [OF s] chain_intros) (auto simp: settled_def)
  have "?P m \<Longrightarrow> beyond L xs m" for m by (blast intro: phase_beyond)
  from operations_since_ok [OF run P this xs]
  have s': "settled L mine ?P s'" "same_log s s'"
    and c: "\<forall>c. r = Inr c \<longrightarrow> since_ok xs (head_of K) (op_op_id x) max_rebase_walk_ops c
        \<or> (\<exists>why. c = Unverifiable why)" by auto
  have "c \<noteq> ContainsOwn" if "r = Inr c" for c
    using c that new x by (auto simp: since_ok_def)
  moreover have "c' = new" if "r = Inr (Committed c')" for c'
  proof -
    from c that obtain K' where "xs = c' @ K'" "head_of K' = head_of K" by (auto simp: since_ok_def)
    then show ?thesis using same_base [of new K c' K'] committed_distinct [OF xs(1)] new by simp
  qed
  moreover have "settled L mine (phase L mine K S) s'" "settled L mine (phase L mine (new @ K) S) s'"
    using new(1) by (auto intro: settled_mono [OF s'(1) closed_phase])
  ultimately show ?thesis
    using s'(2) xs(2) new(1,2) same_log_synced [OF s'(2)]
    by (auto simp: rechecked_def same_log_writer split: sum.splits concurrent_ops.splits)
qed

lemma recheck_ok:
  assumes L: "libs_ok L" and s: "settled L mine (raced L mine K x S) s"
    and x: "mine (op_op_id x)" "op_op_id x \<notin> op_op_id ` set K"
    and run: "io_bind (load_head_consistent L) (\<lambda>_. operations_since L (head_of K) (op_op_id x)) s = (r, s')"
  shows "same_writer s s' \<and> settled L mine (raced L mine K x S) s' \<and> rechecked L mine K x S r s'"
proof -
  obtain q t where q: "load_head_consistent L s = (q, t)" by (cases "load_head_consistent L s")
  from load_head_consistent_ok [OF L s q] have t: "settled L mine (raced L mine K x S) t" "same_writer s t"
    and loaded: "case q of Inl e \<Rightarrow> same_log s t | Inr _ \<Rightarrow> \<exists>xs. committed L (objects t) xs \<and> synced L t xs"
    by (auto simp: loaded_ok_def)
  show ?thesis
  proof (cases q)
    case (Inl e)
    then show ?thesis using run q t by (auto simp: io_simps rechecked_def)
  next
    case (Inr u)
    then have run2: "operations_since L (head_of K) (op_op_id x) t = (r, s')"
      using run q by (simp add: io_simps)
    from loaded Inr obtain xs where xs: "committed L (objects t) xs" "synced L t xs" by auto
    have weaken: "settled L mine (raced L mine K x S) s'"
      if "settled L mine (phase L mine K S) s' \<or> settled L mine (phase L mine (x # K) S) s'"
      using that settled_mono [OF _ closed_raced] unfolding raced_def by blast
    from settled_bucket [OF t(1)] consider "phase L mine K S (objects t)" | "phase L mine (x # K) S (objects t)"
      by (auto simp: raced_def)
    then show ?thesis
    proof cases
      case 1
      from recheck_lost [OF settledI [OF t(1) closed_phase 1] xs x run2] show ?thesis
        using t(2) weaken by (auto intro: same_writer_trans)
    next
      case 2
      from recheck_won [OF settledI [OF t(1) closed_phase 2] xs run2] show ?thesis
        using t(2) weaken by (auto intro: same_writer_trans)
    qed
  qed
qed

section \<open>The commit loop\<close>

text \<open>
  \<open>committed_once\<close>: the history grew at its front; it holds at most one new operation of
  ours, on an answer \<open>Ok\<close> exactly the one returned, and below it no concurrent
  operation on the same target.
\<close>

definition committed_once ::
    "libs \<Rightarrow> (op_id \<Rightarrow> bool) \<Rightarrow> file_id option \<Rightarrow> operation list \<Rightarrow> operation core_result \<Rightarrow> objs \<Rightarrow> bool" where
  "committed_once L mine target K r m \<longleftrightarrow>
     (case r of
        Inl _ \<Rightarrow> \<exists>ys. committed L m (ys @ K) \<and> length (filter (\<lambda>y. mine (op_op_id y)) ys) \<le> 1
      | Inr x \<Rightarrow> mine (op_op_id x) \<and> op_target_file_id x = target \<and>
          (\<exists>later mid. committed L m (later @ x # mid @ K)
             \<and> (\<forall>y \<in> set later \<union> set mid. \<not> mine (op_op_id y))
             \<and> (\<forall>f. target = Some f \<longrightarrow> (\<forall>y \<in> set mid. op_target_file_id y \<noteq> Some f))))"

lemma committed_once_raced:
  assumes "raced L mine K x S m"
  shows "committed_once L mine target K (Inl e) m"
  using assms unfolding raced_def
proof
  assume "phase L mine K S m"
  then obtain ys where "committed L m (ys @ K)" "\<forall>y \<in> set ys. \<not> mine (op_op_id y)" by (auto simp: phase_def)
  then show ?thesis by (auto simp: committed_once_def intro!: exI [of _ ys])
next
  assume "phase L mine (x # K) S m"
  then obtain ys where ys: "committed L m ((ys @ [x]) @ K)" "\<forall>y \<in> set ys. \<not> mine (op_op_id y)"
    by (auto simp: phase_def)
  then have "filter (\<lambda>y. mine (op_op_id y)) ys = []" by (simp add: filter_empty_conv)
  then have "length (filter (\<lambda>y. mine (op_op_id y)) (ys @ [x])) \<le> 1" by simp
  with ys(1) show ?thesis unfolding committed_once_def sum.case by blast
qed

lemma committed_once_phase: "phase L mine K S m \<Longrightarrow> committed_once L mine target K (Inl e) m"
  by (rule committed_once_raced [of L mine K undefined S]) (simp add: raced_def)

lemma committed_once_won:
  assumes "phase L mine (x # K) S m" "mine (op_op_id x)" "op_target_file_id x = target"
  shows "committed_once L mine target K (Inr x) m"
proof -
  obtain ys where "committed L m (ys @ x # [] @ K)" "\<forall>y \<in> set ys \<union> set []. \<not> mine (op_op_id y)"
    using assms(1) by (auto simp: phase_def)
  moreover have "\<forall>f. target = Some f \<longrightarrow> (\<forall>y \<in> set []. op_target_file_id y \<noteq> Some f)" by simp
  ultimately show ?thesis using assms(2,3) unfolding committed_once_def sum.case by blast
qed

lemma committed_once_rebase:
  assumes "committed_once L mine target (new @ K) r m" "\<forall>y \<in> set new. \<not> mine (op_op_id y)"
    and "\<forall>f. target = Some f \<longrightarrow> (\<forall>y \<in> set new. op_target_file_id y \<noteq> Some f)"
  shows "committed_once L mine target K r m"
proof (cases r)
  case (Inl e)
  then obtain ys where "committed L m ((ys @ new) @ K)" "length (filter (\<lambda>y. mine (op_op_id y)) ys) \<le> 1"
    using assms(1) by (auto simp: committed_once_def)
  moreover have "filter (\<lambda>y. mine (op_op_id y)) new = []" using assms(2) by (simp add: filter_empty_conv)
  ultimately have "committed L m ((ys @ new) @ K)"
    "length (filter (\<lambda>y. mine (op_op_id y)) (ys @ new)) \<le> 1" by auto
  then show ?thesis unfolding Inl committed_once_def sum.case by blast
next
  case (Inr x)
  then obtain later mid where *: "mine (op_op_id x)" "op_target_file_id x = target"
    "committed L m (later @ x # (mid @ new) @ K)" "\<forall>y \<in> set later \<union> set mid. \<not> mine (op_op_id y)"
    "\<forall>f. target = Some f \<longrightarrow> (\<forall>y \<in> set mid. op_target_file_id y \<noteq> Some f)"
    using assms(1) by (auto simp: committed_once_def)
  then have "\<forall>y \<in> set later \<union> set (mid @ new). \<not> mine (op_op_id y)"
    "\<forall>f. target = Some f \<longrightarrow> (\<forall>y \<in> set (mid @ new). op_target_file_id y \<noteq> Some f)"
    using assms(2,3) by auto
  with *(1-3) show ?thesis unfolding Inr committed_once_def sum.case by blast
qed

lemma planned_simps [simp]:
  "op_target_file_id (planned L s target ty pre eff) = target"
  "op_base_head (planned L s target ty pre eff) = head_or_empty (ol_head s)"
  "op_op_id (planned L s target ty pre eff)
     = new_op_id L (ol_device s) (ol_clock s + 1) (uuid_now_v7 L (draws s))"
  by (simp_all add: planned_def)

text \<open>The first half of an attempt: make an operation, write it, try to move the head.\<close>

definition try_attempt ::
    "libs \<Rightarrow> operation \<Rightarrow> ('z oplog_scheme, core_error, bool) io" where
  "try_attempt L x =
     io_bind (io_result (validate_operation x)) (\<lambda>_.
     io_bind (write_operation L x) (\<lambda>_. advance_head L (op_op_id x)))"

lemma try_attempt_ok:
  assumes L: "libs_ok L" and s: "settled L mine (phase L mine K S) s" and synced: "synced L s K"
    and x: "mine (op_op_id x)" "S (op_op_id x) = None \<or> S (op_op_id x) = Some (json_of (json_operation L) x)"
      "head_text (op_op_id x)" "op_base_head x = head_or_empty (head_of K)"
    and run: "try_attempt L x s = (r, s')"
  defines "S1 \<equiv> S(op_op_id x \<mapsto> json_of (json_operation L) x)"
  shows "same_writer s s'
    \<and> ((\<exists>e. r = Inl e \<and> settled L mine (phase L mine K S) s') \<or> settled L mine (raced L mine K x S1) s')
    \<and> (\<forall>ok. r = Inr ok \<longrightarrow> settled L mine (raced L mine K x S1) s')
    \<and> (r = Inr True \<longrightarrow> settled L mine (phase L mine (x # K) S1) s')"
proof (cases "validate_operation x")
  case (Inl e)
  then show ?thesis using run s by (auto simp: try_attempt_def io_simps)
next
  case (Inr u)
  obtain q t where q: "write_operation L x s = (q, t)" by (cases "write_operation L x s")
  from write_operation_ok [OF L s x(1,2) q] have t: "same_log s t"
      "settled L mine (maybe L mine K S (op_op_id x) (Some (json_of (json_operation L) x))) t"
    and ok: "q = Inr () \<Longrightarrow> settled L mine (phase L mine K S1) t" by (auto simp: S1_def)
  show ?thesis
  proof (cases q)
    case (Inl e)
    then have "r = Inl e" "s' = t" using run q \<open>validate_operation x = Inr u\<close>
      by (auto simp: try_attempt_def io_simps)
    moreover from settled_maybe [OF t(2)]
    have "settled L mine (phase L mine K S) t \<or> settled L mine (raced L mine K x S1) t"
      using settled_mono [OF _ closed_raced] unfolding raced_def S1_def by blast
    ultimately show ?thesis using t(1) by (auto intro: same_log_writer)
  next
    case (Inr v)
    then have t1: "settled L mine (phase L mine K S1) t" using ok by simp
    have run2: "advance_head L (op_op_id x) t = (r, s')"
      using run q Inr \<open>validate_operation x = Inr u\<close> by (auto simp: try_attempt_def io_simps)
    have "S1 (op_op_id x) = Some (json_of (json_operation L) x)" by (simp add: S1_def)
    from advance_head_ok [OF L t1 same_log_synced [OF t(1) synced] x(1) this x(3,4) run2]
    show ?thesis using t(1) by (auto intro: same_writer_trans same_log_writer)
  qed
qed

definition after_lost_race ::
    "libs \<Rightarrow> file_id option \<Rightarrow> op_type \<Rightarrow> preconditions \<Rightarrow> effects \<Rightarrow> nat \<Rightarrow> operation \<Rightarrow> concurrent_ops
      \<Rightarrow> ('z oplog_scheme, core_error, operation) io" where
  "after_lost_race L target ty pre eff n x c =
     (case c of
        ContainsOwn \<Rightarrow> io_return x
      | Committed concurrent \<Rightarrow>
          io_bind (discard_orphan_operation L (op_op_id x)) (\<lambda>_.
            case target of
              None \<Rightarrow> commit_loop L target ty pre eff n
            | Some f \<Rightarrow>
                (case find (\<lambda>y. op_target_file_id y = Some f) concurrent of
                   Some y \<Rightarrow> io_throw (Conflict (concurrent_message L y f))
                 | None \<Rightarrow> commit_loop L target ty pre eff n))
      | Unverifiable reason \<Rightarrow> io_throw (Conflict (unverifiable_message reason)))"

text \<open>One round of the loop, its base head read before the attempt instead of within it.\<close>

lemma commit_loop_round:
  fixes s :: "'z oplog_scheme" and L target ty pre eff
  defines "x \<equiv> planned L s target ty pre eff"
    and "s1 \<equiv> s\<lparr>ol_clock := ol_clock s + 1, draws := draws s + 1\<rparr>"
  shows "commit_loop L target ty pre eff (Suc n) s =
    io_bind (try_attempt L x) (\<lambda>advanced.
      if advanced then io_return x
      else io_bind (io_bind (load_head_consistent L) (\<lambda>_. operations_since L (ol_head s) (op_op_id x)))
             (after_lost_race L target ty pre eff n x)) s1"
proof -
  have base: "ol_head t = ol_head s" if "write_operation L x s1 = (Inr u, t)" for u t
    using same_log_fields(3) [OF world_onlyD [OF world_only_write_operation that]] by (simp add: s1_def)
  show ?thesis
  proof (cases "validate_operation x")
    case (Inl e)
    then show ?thesis
      unfolding x_def s1_def
      by (simp add: next_operation_run try_attempt_def io_simps)
  next
    case (Inr v)
    obtain q t where q: "write_operation L x s1 = (q, t)" by (cases "write_operation L x s1")
    show ?thesis
    proof (cases q)
      case (Inl e)
      with Inr q show ?thesis
        unfolding x_def s1_def
        by (simp add: next_operation_run try_attempt_def io_simps)
    next
      case (Inr u)
      have "ol_head t = ol_head s" using base q Inr by simp
      with Inr q \<open>validate_operation x = Inr v\<close> show ?thesis
        unfolding x_def s1_def
        by (simp add: next_operation_run try_attempt_def io_bind_apply io_get_apply io_result_apply
            io_bind_assoc after_lost_race_def [abs_def] del: planned_simps split: prod.splits sum.splits)
    qed
  qed
qed

definition loop_ok :: "libs \<Rightarrow> (op_id \<Rightarrow> bool) \<Rightarrow> file_id option \<Rightarrow> operation list \<Rightarrow> operation core_result
    \<Rightarrow> 'z oplog_scheme \<Rightarrow> bool" where
  "loop_ok L mine target K r s \<longleftrightarrow> protocol_env L mine s \<and> committed_once L mine target K r (objects s)"

lemma settled_env: "settled L mine P s \<Longrightarrow> protocol_env L mine s"
  by (simp add: settled_def)

lemma after_lost_race_ok:
  assumes L: "libs_ok L" and raced: "settled L mine (raced L mine K x S) s"
    and checked: "rechecked L mine K x S (Inr c) s"
    and x: "mine (op_op_id x)" "op_op_id x \<notin> op_op_id ` set K" "op_target_file_id x = target"
    and run: "after_lost_race L target ty pre eff n x c s = (r, s')"
    and loop: "\<And>K' S' t. (\<And>i. i \<noteq> op_op_id x \<Longrightarrow> S' i = S i) \<Longrightarrow> settled L mine (phase L mine K' S') t
        \<Longrightarrow> synced L t K' \<Longrightarrow> same_writer s t \<Longrightarrow> commit_loop L target ty pre eff n t = (r, s')
        \<Longrightarrow> loop_ok L mine target K' r s'"
  shows "loop_ok L mine target K r s'"
proof (cases c)
  case ContainsOwn
  then have "r = Inr x" "s' = s" "settled L mine (phase L mine (x # K) S) s"
    using run checked by (auto simp: after_lost_race_def rechecked_def io_simps)
  then show ?thesis
    using committed_once_won x by (auto simp: loop_ok_def settled_def)
next
  case (Unverifiable why)
  then have "\<exists>e. r = Inl e \<and> s' = s" using run by (auto simp: after_lost_race_def io_simps)
  then show ?thesis
    using raced committed_once_raced by (auto simp: loop_ok_def settled_def)
next
  case (Committed new)
  have ph: "settled L mine (phase L mine (new @ K) S) s" and sy: "synced L s (new @ K)"
    and foreign: "\<forall>y \<in> set new. \<not> mine (op_op_id y)"
    using checked Committed by (auto simp: rechecked_def)
  obtain q t where q: "discard_orphan_operation L (op_op_id x) s = (q, t)"
    by (cases "discard_orphan_operation L (op_op_id x) s")
  have "op_op_id x \<notin> op_op_id ` set (new @ K)" using foreign x by auto
  from discard_ok [OF ph x(1) this q] have t: "q = Inr ()" "same_log s t"
    and maybe: "settled L mine (maybe L mine (new @ K) S (op_op_id x) None) t" by auto
  obtain S' where S': "S' = S \<or> S' = S(op_op_id x := None)" "settled L mine (phase L mine (new @ K) S') t"
    using settled_maybe [OF maybe] by blast
  show ?thesis
  proof (cases "\<exists>f y. target = Some f \<and> find (\<lambda>y. op_target_file_id y = Some f) new = Some y")
    case True
    then have "\<exists>e. r = Inl e \<and> s' = t"
      using run q t Committed by (auto simp: after_lost_race_def io_simps)
    moreover have "committed_once L mine target K (Inl e) (objects t)" for e
    proof -
      have "phase L mine (new @ K) S' (objects t)" using settled_bucket [OF S'(2)] .
      then obtain ys where ys: "committed L (objects t) ((ys @ new) @ K)" "\<forall>y \<in> set ys. \<not> mine (op_op_id y)"
        by (auto simp: phase_def)
      then have none: "filter (\<lambda>y. mine (op_op_id y)) (ys @ new) = []"
        using foreign by (auto simp: filter_empty_conv)
      show ?thesis unfolding committed_once_def sum.case
        by (rule exI [of _ "ys @ new"]) (use ys none in simp)
    qed
    ultimately show ?thesis using settled_env [OF S'(2)] by (auto simp: loop_ok_def)
  next
    case False
    then have free: "\<forall>f. target = Some f \<longrightarrow> (\<forall>y \<in> set new. op_target_file_id y \<noteq> Some f)"
      by (auto simp: find_None_iff dest!: not_Some_eq [THEN iffD1])
    have "commit_loop L target ty pre eff n t = (r, s')"
      using run q t Committed False
      by (auto simp: after_lost_race_def io_simps split: option.splits)
    moreover have "S' i = S i" if "i \<noteq> op_op_id x" for i using S'(1) that by auto
    ultimately have "loop_ok L mine target (new @ K) r s'"
      using loop S'(2) same_log_synced [OF t(2) sy] same_log_writer [OF t(2)] by blast
    then show ?thesis
      using committed_once_rebase [OF _ foreign free] by (simp add: loop_ok_def)
  qed
qed

lemma commit_loop_ok:
  assumes L: "libs_ok L" and mine: "mine = is_own L d"
  shows "settled L mine (phase L mine K S) s \<Longrightarrow> synced L s K \<Longrightarrow> ol_device s = d
    \<Longrightarrow> fresh_ids L d S (draws s) n \<Longrightarrow> commit_loop L target ty pre eff n s = (r, s')
    \<Longrightarrow> loop_ok L mine target K r s'"
proof (induction n arbitrary: s K S)
  case 0
  then show ?case
    using committed_once_phase by (auto simp: io_simps loop_ok_def settled_def)
next
  case (Suc n)
  let ?x = "planned L s target ty pre eff"
  let ?s1 = "s\<lparr>ol_clock := ol_clock s + 1, draws := draws s + 1\<rparr>"
  let ?J = "json_of (json_operation L) ?x" and ?i = "op_op_id ?x"
  have own: "mine ?i" and ht: "head_text ?i" and base: "op_base_head ?x = head_or_empty (head_of K)"
    using mine Suc.prems(2,3) new_op_id_text [OF L] by (simp_all add: synced_def)
  have free: "S ?i = None" using fresh_ids_Suc(1) [OF L Suc.prems(4)] Suc.prems(3) by simp
  have new: "?i \<notin> op_op_id ` set K"
    using phase_fresh [OF settled_bucket [OF Suc.prems(1)] own free] .
  have s1: "settled L mine (phase L mine K S) ?s1" "synced L ?s1 K"
    using Suc.prems(1,2) by (auto simp: settled_def protocol_env_def synced_def)
  obtain q t where q: "try_attempt L ?x ?s1 = (q, t)" by (cases "try_attempt L ?x ?s1")
  note tried = try_attempt_ok [OF L s1 own disjI1 [OF free] ht base q]
  have head: "ol_head s = head_of K" using Suc.prems(2) by (simp add: synced_def)
  note round = Suc.prems(5) [unfolded commit_loop_round head]
  consider (err) e where "q = Inl e" | (won) "q = Inr True" | (lost) "q = Inr False"
    by (cases q) auto
  then show ?case
  proof cases
    case err
    then have "r = Inl e" "s' = t" using round q by (auto simp: io_simps)
    then show ?thesis
      using tried committed_once_phase committed_once_raced by (auto simp: loop_ok_def settled_def)
  next
    case won
    then have "r = Inr ?x" "s' = t" using round q by (auto simp: io_simps)
    moreover have "settled L mine (phase L mine (?x # K) (S(?i \<mapsto> ?J))) t" using tried won by simp
    ultimately show ?thesis
      using committed_once_won own by (auto simp: loop_ok_def settled_def)
  next
    case lost
    let ?check = "io_bind (load_head_consistent L) (\<lambda>_. operations_since L (head_of K) ?i)"
    obtain p u where p: "?check t = (p, u)" by (cases "?check t")
    have t: "settled L mine (raced L mine K ?x (S(?i \<mapsto> ?J))) t" "same_writer ?s1 t"
      using tried lost by auto
    from recheck_ok [OF L t(1) own new p] have u: "same_writer ?s1 u"
        "settled L mine (raced L mine K ?x (S(?i \<mapsto> ?J))) u"
      and checked: "rechecked L mine K ?x (S(?i \<mapsto> ?J)) p u"
      using t(2) by (auto intro: same_writer_trans)
    show ?thesis
    proof (cases p)
      case (Inl e)
      then have "r = Inl e" "s' = u" using round q lost p by (auto simp: io_simps)
      then show ?thesis using u(2) committed_once_raced by (auto simp: loop_ok_def settled_def)
    next
      case (Inr c)
      then have run: "after_lost_race L target ty pre eff n ?x c u = (r, s')"
        using round q lost p by (simp add: io_bind_apply)
      show ?thesis
      proof (rule after_lost_race_ok [OF L u(2) checked [unfolded Inr] own new _ run])
        fix K' S' v
        assume *: "\<And>i. i \<noteq> ?i \<Longrightarrow> S' i = (S(?i \<mapsto> ?J)) i" "settled L mine (phase L mine K' S') v"
          "synced L v K'" "same_writer u v" "commit_loop L target ty pre eff n v = (r, s')"
        have "fresh_ids L d S' (Suc (draws s)) n"
          by (rule fresh_ids_Suc(2) [OF L Suc.prems(4), of "ol_clock s + 1"])
            (use *(1) Suc.prems(3) in simp)
        moreover have "ol_device v = d" "draws v = Suc (draws s)"
          using u(1) *(4) Suc.prems(3) by (simp_all add: same_writer_def)
        ultimately show "loop_ok L mine target K' r s'" using Suc.IH *(2,3,5) by simp
      qed simp
    qed
  qed
qed

section \<open>Commits\<close>

text \<open>\<open>log_for L s K\<close>: the log object \<open>s\<close> stands at the committed history \<open>K\<close> of its bucket.\<close>

definition log_for :: "libs \<Rightarrow> 'z oplog_scheme \<Rightarrow> operation list \<Rightarrow> bool" where
  "log_for L s K \<longleftrightarrow> protocol_env L (is_own L (ol_device s)) s \<and> committed L (objects s) K
     \<and> (ol_loaded s \<longrightarrow> synced L s K)
     \<and> fresh_ids L (ol_device s) (\<lambda>i. contents (objects s) (op_key i)) (draws s) max_commit_attempts"

lemma log_for_settled:
  assumes "log_for L s K"
  shows "settled L (is_own L (ol_device s))
    (phase L (is_own L (ol_device s)) K (\<lambda>i. contents (objects s) (op_key i))) s"
  using assms closed_phase
  by (auto simp: log_for_def settled_def phase_def intro!: exI [of _ "[]::operation list"])

lemma commit_ok:
  assumes L: "libs_ok L" and s: "log_for L s K" and run: "commit L target ty pre eff s = (r, s')"
  shows "\<exists>new. (\<forall>y \<in> set new. \<not> is_own L (ol_device s) (op_op_id y)) \<and> (ol_loaded s \<longrightarrow> new = [])
    \<and> loop_ok L (is_own L (ol_device s)) target (new @ K) r s'"
proof (cases "ol_loaded s")
  case True
  then have "commit_loop L target ty pre eff max_commit_attempts s = (r, s')"
    using run by (simp add: commit_def io_simps)
  then show ?thesis
    using commit_loop_ok [OF L refl log_for_settled [OF s] _ refl, of max_commit_attempts target ty pre eff r s']
      s True by (intro exI [of _ "[]"]) (simp add: log_for_def)
next
  case False
  let ?mine = "is_own L (ol_device s)" and ?S = "\<lambda>i. contents (objects s) (op_key i)"
  obtain q t where q: "load_head_consistent L s = (q, t)" by (cases "load_head_consistent L s")
  from load_head_consistent_ok [OF L log_for_settled [OF s] q]
  have t: "settled L ?mine (phase L ?mine K ?S) t" "same_writer s t"
    and loaded: "case q of Inl e \<Rightarrow> same_log s t | Inr _ \<Rightarrow> \<exists>xs. committed L (objects t) xs \<and> synced L t xs"
    by (auto simp: loaded_ok_def)
  show ?thesis
  proof (cases q)
    case (Inl e)
    then have "r = Inl e" "s' = t" using run q False by (auto simp: commit_def io_simps)
    then have "loop_ok L ?mine target ([] @ K) r s'"
      using t(1) committed_once_phase by (auto simp: loop_ok_def settled_def)
    then show ?thesis by (intro exI [of _ "[]"]) simp
  next
    case (Inr u)
    then have run2: "commit_loop L target ty pre eff max_commit_attempts t = (r, s')"
      using run q False by (simp add: commit_def io_simps)
    from loaded Inr obtain xs where xs: "committed L (objects t) xs" "synced L t xs" by auto
    from phase_later [OF settled_bucket [OF t(1)] xs(1)] obtain new where
      new: "xs = new @ K" "\<forall>y \<in> set new. \<not> ?mine (op_op_id y)" "phase L ?mine xs ?S (objects t)" .
    have "settled L ?mine (phase L ?mine xs ?S) t" using settledI [OF t(1) closed_phase new(3)] .
    from commit_loop_ok [OF L refl this xs(2) _ _ run2] have "loop_ok L ?mine target xs r s'"
      using t(2) s by (simp add: same_writer_def log_for_def)
    then show ?thesis using new(1,2) False by blast
  qed
qed

text \<open>The operation returned is the one asked for.\<close>

lemma after_lost_race_Inr:
  assumes "after_lost_race L target ty pre eff n x c s = (Inr y, s')"
  shows "y = x \<or> (\<exists>t. commit_loop L target ty pre eff n t = (Inr y, s'))"
  using assms
  unfolding after_lost_race_def
  by (auto simp: io_return_apply io_throw_apply split: concurrent_ops.splits option.splits dest!: io_bindD)

lemma commit_loop_fields:
  "commit_loop L target ty pre eff n s = (Inr x, s') \<Longrightarrow>
     op_target_file_id x = target \<and> op_op_type x = ty \<and> op_preconditions x = pre \<and> op_effects x = eff"
proof (induction n arbitrary: s)
  case 0
  then show ?case by (simp add: io_simps)
next
  case (Suc n)
  let ?x = "planned L s target ty pre eff"
  from Suc.prems [unfolded commit_loop_round] obtain a t where
    "(if a then io_return ?x
      else io_bind (io_bind (load_head_consistent L) (\<lambda>_. operations_since L (ol_head s) (op_op_id ?x)))
             (after_lost_race L target ty pre eff n ?x)) t = (Inr x, s')"
    by (auto dest!: io_bindD)
  then have "x = ?x \<or> (\<exists>t. commit_loop L target ty pre eff n t = (Inr x, s'))"
    by (auto simp: io_return_apply split: if_splits dest!: io_bindD dest: after_lost_race_Inr simp del: planned_simps)
  then show ?case using Suc.IH by (auto simp: planned_def)
qed

lemma commit_fields:
  assumes "commit L target ty pre eff s = (Inr x, s')"
  shows "op_target_file_id x = target \<and> op_op_type x = ty \<and> op_preconditions x = pre \<and> op_effects x = eff"
  using assms commit_loop_fields unfolding commit_def by (fastforce dest!: io_bindD)

section \<open>An undisturbed commit\<close>

lemma quiet_serve:
  "events s = [] \<Longrightarrow> f (objects s) = (r, m) \<Longrightarrow> serve f s = (r, s\<lparr>objects := m\<rparr>)"
  by (simp add: serve_quiet)

lemma write_operation_quiet:
  assumes L: "libs_ok L" and s: "events s = []" and free: "contents (objects s) (op_key (op_op_id x)) = None"
  shows "write_operation L x s = (Inr (), s\<lparr>objects := btree_insert (op_key (op_op_id x))
    (json_of (json_operation L) x, store_etag L (json_of (json_operation L) x)) (objects s)\<rparr>)"
proof -
  let ?J = "json_of (json_operation L) x"
  have "put_if_not_exists L (op_key (op_op_id x)) ?J s
      = (Inr True, s\<lparr>objects := btree_insert (op_key (op_op_id x)) (?J, store_etag L ?J) (objects s)\<rparr>)"
    using free s by (simp add: put_if_not_exists_def serve_quiet mem_put_if_not_exists_def contents_None)
  then show ?thesis using L by (simp add: write_operation_def io_simps to_json_ok libs_ok_codecs)
qed

lemma advance_head_quiet:
  assumes L: "libs_ok L" and s: "events s = []" "synced L s K" "store_inv L (objects s)"
    "contents (objects s) head_key = head_of K"
  shows "advance_head L i s = (Inr True, s\<lparr>objects := btree_insert head_key (i, store_etag L i) (objects s),
    ol_head := Some i, ol_etag := Some (store_etag L i), ol_loaded := True\<rparr>)"
proof -
  let ?m = "btree_insert head_key (i, store_etag L i) (objects s)"
  have "move_head L s i (objects s) = (Inr True, ?m)"
    using move_head_cases [OF L s(2,3)] s(4) by simp
  from quiet_serve [where f = "move_head L s i", OF s(1) this] show ?thesis
    using s(1) by (simp add: advance_head_run [OF s(2)] io_simps head_object_def serve_quiet mem_head_object_def)
qed

lemma commit_quiet:
  assumes L: "libs_ok L" and s: "events s = []" "ol_loaded s" "log_for L s K"
    and valid: "validate_operation (planned L s target ty pre eff) = Inr ()"
  shows "\<exists>s'. commit L target ty pre eff s = (Inr (planned L s target ty pre eff), s')
    \<and> committed L (objects s') (planned L s target ty pre eff # K)
    \<and> synced L s' (planned L s target ty pre eff # K) \<and> events s' = []"
proof -
  let ?x = "planned L s target ty pre eff" and ?J = "json_of (json_operation L) (planned L s target ty pre eff)"
  let ?i = "op_op_id ?x" and ?s1 = "s\<lparr>ol_clock := ol_clock s + 1, draws := draws s + 1\<rparr>"
  let ?m = "btree_insert (op_key ?i) (?J, store_etag L ?J) (objects s)"
  have K: "committed L (objects s) K" "synced L s K" using s by (auto simp: log_for_def)
  have inv: "store_inv L (objects s)" "contents (objects s) head_key = head_of K"
    using K(1) by (auto simp: committed_def)
  have "fresh_ids L (ol_device s) (\<lambda>i. contents (objects s) (op_key i)) (draws s) (Suc 7)"
    using s(3) by (simp add: log_for_def max_commit_attempts_def eval_nat_numeral)
  from fresh_ids_Suc(1) [OF L this] have free: "contents (objects s) (op_key ?i) = None" by simp
  have w: "write_operation L ?x ?s1 = (Inr (), ?s1\<lparr>objects := ?m\<rparr>)"
    using write_operation_quiet [OF L, of ?s1 ?x] s(1) free by simp
  let ?s2 = "?s1\<lparr>objects := ?m\<rparr>"
  have "events ?s2 = []" "synced L ?s2 K" "store_inv L (objects ?s2)" "contents (objects ?s2) head_key = head_of K"
    using s(1) K(2) inv by (auto simp: synced_def)
  from advance_head_quiet [OF L this]
  have a: "advance_head L ?i ?s2 = (Inr True, ?s2\<lparr>objects := btree_insert head_key (?i, store_etag L ?i) ?m,
      ol_head := Some ?i, ol_etag := Some (store_etag L ?i), ol_loaded := True\<rparr>)" by simp
  have "try_attempt L ?x ?s1 = (Inr True, ?s2\<lparr>objects := btree_insert head_key (?i, store_etag L ?i) ?m,
      ol_head := Some ?i, ol_etag := Some (store_etag L ?i), ol_loaded := True\<rparr>)"
    using valid w a by (simp add: try_attempt_def io_bind_apply io_result_apply del: planned_simps)
  then have run: "commit L target ty pre eff s = (Inr ?x, ?s2\<lparr>objects := btree_insert head_key (?i, store_etag L ?i) ?m,
      ol_head := Some ?i, ol_etag := Some (store_etag L ?i), ol_loaded := True\<rparr>)"
    using s(2) commit_loop_round [of L target ty pre eff 7 s]
    by (simp add: commit_def io_bind_apply io_get_apply io_return_apply max_commit_attempts_def
        del: planned_simps commit_loop.simps)
  have "?i \<notin> op_op_id ` set K" using committed_present [OF K(1)] free by blast
  then have "committed L ?m K" using inv by (intro committed_op_other [OF K(1)]) auto
  moreover have "op_in L ?m ?i = Some ?x" by (intro op_in_json L) simp
  moreover have "op_base_head ?x = head_or_empty (head_of K)" using K(2) by (simp add: synced_def)
  ultimately have "committed L (btree_insert head_key (?i, store_etag L ?i) ?m) (?x # K)"
    using new_op_id_text [OF L] by (intro committed_push) auto
  then show ?thesis using run s(1) by (simp add: synced_def)
qed

end
