(* ===== verification/Op_Search.thy ===== *)
theory Op_Search
  imports Op_Commit
begin

text \<open>
  Searches of the committed chain (\<open>metadata/ops.rs\<close>: \<open>search_chain\<close> and the queries on
  it). \<open>search_ok\<close> is the specification of the walk as a function of the history alone:
  a walk that answers has seen exactly the newest operations down to the one it stopped
  at. \<open>superseded\<close>, \<open>latest_on_target\<close> and \<open>latest_revision_on_target\<close> follow.
\<close>

lemma closed_log_inv: "closed L mine (log_inv L)"
  unfolding closed_def log_inv_def using foreign_step_committed by blast

lemma settled_log_inv: "protocol_env L mine s \<Longrightarrow> log_inv L (objects s) \<Longrightarrow> settled L mine (log_inv L) s"
  by (simp add: settled_def closed_log_inv)

definition search_ok ::
    "file_id \<Rightarrow> (operation \<Rightarrow> bool) \<Rightarrow> (operation \<Rightarrow> bool) \<Rightarrow> string option \<Rightarrow> operation list \<Rightarrow> chain_search \<Rightarrow> bool"
  where
  "search_ok target own floor foreign zs c \<longleftrightarrow>
     (case c of
        Found x later \<Rightarrow> \<exists>us vs. zs = us @ x # vs \<and> own x \<and> (\<forall>u \<in> set us. \<not> own u \<and> \<not> floor u)
          \<and> (later \<longleftrightarrow> foreign \<noteq> None \<or> (\<exists>u \<in> set us. op_target_file_id u = Some target))
      | Absent other \<Rightarrow> \<exists>us vs. zs = us @ vs \<and> (\<forall>u \<in> set us. \<not> own u \<and> \<not> floor u)
          \<and> (vs = [] \<or> (\<not> own (hd vs) \<and> floor (hd vs)))
          \<and> (other = None \<longleftrightarrow> foreign = None \<and> (\<forall>u \<in> set us. op_target_file_id u \<noteq> Some target))
      | Ambiguous _ \<Rightarrow> True)"

lemma search_ok_FoundI:
  "zs = us @ x # vs \<Longrightarrow> own x \<Longrightarrow> \<forall>u \<in> set us. \<not> own u \<and> \<not> floor u
    \<Longrightarrow> (later \<longleftrightarrow> foreign \<noteq> None \<or> (\<exists>u \<in> set us. op_target_file_id u = Some target))
    \<Longrightarrow> search_ok target own floor foreign zs (Found x later)"
  unfolding search_ok_def chain_search.case by blast

lemma search_ok_AbsentI:
  "zs = us @ vs \<Longrightarrow> \<forall>u \<in> set us. \<not> own u \<and> \<not> floor u \<Longrightarrow> vs = [] \<or> (\<not> own (hd vs) \<and> floor (hd vs))
    \<Longrightarrow> (other = None \<longleftrightarrow> foreign = None \<and> (\<forall>u \<in> set us. op_target_file_id u \<noteq> Some target))
    \<Longrightarrow> search_ok target own floor foreign zs (Absent other)"
  unfolding search_ok_def chain_search.case by blast

lemma search_ok_Cons:
  assumes "search_ok target own floor
      (if foreign = None \<and> op_target_file_id y = Some target then Some (op_op_id y) else foreign) rest c"
    and "\<not> own y" "\<not> floor y"
  shows "search_ok target own floor foreign (y # rest) c"
proof (cases c)
  case (Found x later)
  then obtain us vs where "rest = us @ x # vs" "own x" "\<forall>u \<in> set us. \<not> own u \<and> \<not> floor u"
    "later \<longleftrightarrow> (foreign \<noteq> None \<or> op_target_file_id y = Some target) \<or> (\<exists>u \<in> set us. op_target_file_id u = Some target)"
    using assms(1) by (auto simp: search_ok_def split: if_splits)
  then show ?thesis
    unfolding Found using assms(2,3) by (intro search_ok_FoundI [where us = "y # us" and vs = vs]) auto
next
  case (Absent other)
  then obtain us vs where "rest = us @ vs" "\<forall>u \<in> set us. \<not> own u \<and> \<not> floor u"
    "vs = [] \<or> (\<not> own (hd vs) \<and> floor (hd vs))"
    "other = None \<longleftrightarrow> foreign = None \<and> op_target_file_id y \<noteq> Some target
      \<and> (\<forall>u \<in> set us. op_target_file_id u \<noteq> Some target)"
    using assms(1) by (auto simp: search_ok_def split: if_splits)
  then show ?thesis
    unfolding Absent using assms(2,3) by (intro search_ok_AbsentI [where us = "y # us" and vs = vs]) auto
qed (simp add: search_ok_def)

lemma search_loop_ok:
  assumes P: "\<And>m. P m \<Longrightarrow> beyond L xs m" and linked: "linked xs"
  shows "settled L mine P s \<Longrightarrow> search_loop L target own floor n (op_op_id y) foreign s = (r, s')
    \<Longrightarrow> xs = acc @ y # rest
    \<Longrightarrow> settled L mine P s' \<and> same_log s s' \<and> (\<forall>c. r = Inr c \<longrightarrow> search_ok target own floor foreign (y # rest) c)"
proof (induction n arbitrary: y acc rest s foreign)
  case 0
  then show ?case by (auto simp: io_simps search_ok_def)
next
  case (Suc n)
  obtain q t where q: "read_operation L (op_op_id y) s = (q, t)" by (cases "read_operation L (op_op_id y) s")
  have "y \<in> set xs" using Suc.prems by simp
  from request_read [OF q Suc.prems(1) P this refl] have t: "settled L mine P t" "same_log s t"
    and res: "q = Inr y \<or> (\<exists>e. q = Inl e \<and> \<not> is_NotFound e)" by auto
  show ?case
  proof (cases "q = Inr y")
    case False
    with res obtain e where "q = Inl e" "\<not> is_NotFound e" by blast
    then show ?thesis using t Suc.prems(2) q by (auto simp: io_simps)
  next
    case read: True
    show ?thesis
    proof (cases "own y \<or> floor y")
      case True
      have "search_ok target own floor foreign (y # rest) (if own y then Found y (foreign \<noteq> None) else Absent foreign)"
      proof (cases "own y")
        case True
        then show ?thesis by (auto intro: search_ok_FoundI [where us = "[]" and vs = rest])
      next
        case False
        then show ?thesis
          using True by (auto intro: search_ok_AbsentI [where us = "[]" and vs = "y # rest"])
      qed
      then show ?thesis using t Suc.prems(2) q read True by (auto simp: io_simps split: if_splits)
    next
      case False
      let ?foreign = "if foreign = None \<and> op_target_file_id y = Some target then Some (op_op_id y) else foreign"
      have y: "op_base_head y = head_or_empty (head_of rest)" "linked rest"
        using linked Suc.prems(3) linked_append by fastforce+
      show ?thesis
      proof (cases rest)
        case Nil
        then have "r = Inr (Absent ?foreign)" "s' = t"
          using Suc.prems(2) q read False y by (auto simp: io_simps Let_def)
        moreover have "search_ok target own floor foreign (y # rest) (Absent ?foreign)"
          by (rule search_ok_Cons) (use False Nil in \<open>auto simp: search_ok_def\<close>)
        ultimately show ?thesis using t by simp
      next
        case (Cons z zs)
        have "op_base_head y = op_op_id z" "op_op_id z \<noteq> []" using y Cons by simp_all
        then have "search_loop L target own floor n (op_op_id z) ?foreign t = (r, s')"
          using Suc.prems(2) q read False by (simp add: io_bind_apply io_try_apply Let_def)
        from Suc.IH [OF t(1) this, of "acc @ [y]" zs] Suc.prems(3) Cons
        have *: "settled L mine P s'" "same_log t s'"
          "\<forall>c. r = Inr c \<longrightarrow> search_ok target own floor ?foreign rest c" by auto
        then show ?thesis using t(2) False by (auto intro: same_log_trans search_ok_Cons)
      qed
    qed
  qed
qed

lemma search_chain_ok:
  assumes run: "search_chain L target own floor s = (r, s')" and s: "settled L mine P s"
    and P: "\<And>m. P m \<Longrightarrow> beyond L xs m" and xs: "committed L (objects s) xs" "synced L s xs"
  shows "settled L mine P s' \<and> same_log s s' \<and> (\<forall>c. r = Inr c \<longrightarrow> search_ok target own floor None xs c)"
proof (cases xs)
  case Nil
  then show ?thesis using assms by (auto simp: search_chain_def synced_def io_simps search_ok_def)
next
  case (Cons y rest)
  have "search_loop L target own floor max_durable_walk_ops (op_op_id y) None s = (r, s')"
    using run xs Cons by (simp add: search_chain_def synced_def io_simps)
  moreover have "linked xs" using xs(1) chain_linked by (auto simp: committed_def)
  ultimately show ?thesis
    using search_loop_ok [OF P _ s, where acc = "[]" and rest = rest] Cons by auto
qed

text \<open>Loading the head and searching from it, as the queries do.\<close>

lemma load_and_search_ok:
  assumes L: "libs_ok L" and s: "settled L mine P s"
    and run: "io_bind (load_head_consistent L) (\<lambda>_. search_chain L target own floor) s = (r, s')"
  shows "settled L mine P s' \<and> same_writer s s'
    \<and> (\<forall>c. r = Inr c \<longrightarrow> (\<exists>xs. settled L mine (\<lambda>m. P m \<and> beyond L xs m) s' \<and> synced L s' xs
          \<and> search_ok target own floor None xs c))"
proof -
  obtain q t where q: "load_head_consistent L s = (q, t)" by (cases "load_head_consistent L s")
  from load_head_consistent_ok [OF L s q] have t: "settled L mine P t" "same_writer s t"
    and loaded: "case q of Inl e \<Rightarrow> same_log s t | Inr _ \<Rightarrow> \<exists>xs. committed L (objects t) xs \<and> synced L t xs"
    by (auto simp: loaded_ok_def)
  show ?thesis
  proof (cases q)
    case (Inl e)
    then show ?thesis using run q t by (auto simp: io_simps)
  next
    case (Inr u)
    then have run2: "search_chain L target own floor t = (r, s')" using run q by (simp add: io_simps)
    from loaded Inr obtain xs where xs: "committed L (objects t) xs" "synced L t xs" by auto
    have P: "closed L mine P" using t(1) by (simp add: settled_def)
    have "settled L mine (\<lambda>m. P m \<and> beyond L xs m) t"
      using t(1) xs(1) by (intro settledI [OF t(1)] chain_intros P) (auto simp: settled_def committed_beyond)
    from search_chain_ok [OF run2 this _ xs] have *: "settled L mine (\<lambda>m. P m \<and> beyond L xs m) s'" "same_log t s'"
      "\<forall>c. r = Inr c \<longrightarrow> search_ok target own floor None xs c" by auto
    have "settled L mine P s'" by (rule settled_mono [OF *(1) P]) simp
    then show ?thesis
      using * t(2) same_log_synced [OF *(2) xs(2)] by (auto intro: same_writer_trans same_log_writer)
  qed
qed

section \<open>Queries\<close>

definition newest :: "(operation \<Rightarrow> bool) \<Rightarrow> operation list \<Rightarrow> operation option" where
  "newest p xs = find p xs"

lemma newest_split: "newest p (us @ x # vs) = Some x" if "\<forall>u \<in> set us. \<not> p u" "p x"
  using that by (induction us) (auto simp: newest_def)

lemma newest_None: "newest p xs = None \<longleftrightarrow> (\<forall>x \<in> set xs. \<not> p x)"
  by (auto simp: newest_def find_None_iff)

text \<open>
  The answer of \<open>latest_matching\<close> is the newest matching operation of a history \<open>xs\<close>
  that the bucket went through during the call; \<open>None\<close> also stands for a chain that is
  too long to be searched.
\<close>

lemma latest_matching_ok:
  assumes L: "libs_ok L" and s: "settled L mine P s" and run: "latest_matching L target matches s = (Inr a, s')"
  defines "p \<equiv> \<lambda>x. op_target_file_id x = Some target \<and> matches x"
  shows "\<exists>xs. settled L mine (\<lambda>m. P m \<and> beyond L xs m) s' \<and> (\<forall>x. a = Some x \<longrightarrow> newest p xs = Some x)"
proof -
  let ?m = "io_bind (load_head_consistent L) (\<lambda>_. search_chain L target p (\<lambda>_. False))"
  have eq: "latest_matching L target matches = io_bind ?m (\<lambda>c. case c of
      Found x _ \<Rightarrow> io_return (Some x) | Absent _ \<Rightarrow> io_return None | Ambiguous _ \<Rightarrow> io_return None)"
    unfolding latest_matching_def io_bind_assoc p_def ..
  from io_bindD [OF run [unfolded eq]] obtain c t where c: "?m s = (Inr c, t)" and
    a: "(case c of Found x _ \<Rightarrow> io_return (Some x) | Absent _ \<Rightarrow> io_return None | Ambiguous _ \<Rightarrow> io_return None) t
      = (Inr a :: operation option core_result, s')"
    by blast
  from load_and_search_ok [OF L s c] obtain xs where xs: "settled L mine (\<lambda>m. P m \<and> beyond L xs m) t"
    "search_ok target p (\<lambda>_. False) None xs c" by auto
  have "s' = t" using a by (auto simp: io_simps split: chain_search.splits)
  moreover have "newest p xs = Some x" if "a = Some x" for x
    using a that xs(2) newest_split [of _ p]
    by (auto simp: io_simps search_ok_def split: chain_search.splits)
  ultimately show ?thesis using xs(1) by blast
qed

lemma superseded_ok:
  assumes L: "libs_ok L" and s: "settled L mine P s" and run: "superseded L own target s = (Inr later, s')"
  shows "\<exists>us x vs. settled L mine (\<lambda>m. P m \<and> beyond L (us @ x # vs) m) s' \<and> op_op_id x = own
    \<and> own \<notin> op_op_id ` set us \<and> (later \<longleftrightarrow> (\<exists>u \<in> set us. op_target_file_id u = Some target))"
proof -
  let ?m = "io_bind (load_head_consistent L) (\<lambda>_. search_chain L target (\<lambda>x. op_op_id x = own) (\<lambda>_. False))"
  let ?k = "\<lambda>c. case c of Found _ later \<Rightarrow> io_return later
       | Absent _ \<Rightarrow> io_throw (Conflict (''operation '' @ own @ '' is not in the committed chain''))
       | Ambiguous reason \<Rightarrow> io_throw (Conflict (''cannot verify later operations on file ''
           @ uuid_text L target @ '': '' @ reason))"
  have eq: "superseded L own target = io_bind ?m ?k"
    unfolding superseded_def io_bind_assoc ..
  from io_bindD [OF run [unfolded eq]] obtain c t where
    c: "?m s = (Inr c, t)" and k: "?k c t = (Inr later, s')"
    by blast
  from load_and_search_ok [OF L s c] obtain xs where xs: "settled L mine (\<lambda>m. P m \<and> beyond L xs m) t"
    "search_ok target (\<lambda>x. op_op_id x = own) (\<lambda>_. False) None xs c" by auto
  from k obtain x where "c = Found x later" "s' = t" by (auto simp: io_simps split: chain_search.splits)
  with xs(2) obtain us vs where *: "xs = us @ x # vs" "op_op_id x = own" "\<forall>u \<in> set us. op_op_id u \<noteq> own"
    "later \<longleftrightarrow> (\<exists>u \<in> set us. op_target_file_id u = Some target)"
    by (auto simp: search_ok_def)
  have "settled L mine (\<lambda>m. P m \<and> beyond L (us @ x # vs) m) s'" using xs(1) \<open>s' = t\<close> *(1) by simp
  then show ?thesis using *(2-4) by (intro exI [of _ us] exI [of _ x] exI [of _ vs]) auto
qed

end
