(* ===== verification/Stored_Json.thy ===== *)
theory Stored_Json
  imports Object_Store
begin

text \<open>
  Reading JSON objects: \<open>get_object\<close>, then \<open>String::from_utf8\<close>, then serde, each
  failure mapped to \<open>CoreError::Protocol\<close> with the caller's prefix. This sequence is
  the body of the getters of \<open>tree.rs\<close>, \<open>compaction.rs\<close>, \<open>snapshots.rs\<close> and \<open>engine.rs\<close>.
  The second half holds what the getters' proofs share.
\<close>

definition parse_json :: "libs \<Rightarrow> 'a codec \<Rightarrow> string \<Rightarrow> string \<Rightarrow> string \<Rightarrow> 'a core_result" where
  "parse_json L c utf8_prefix json_prefix data =
     (case string_from_utf8 data of
        None \<Rightarrow> Inl (Protocol (utf8_prefix @ utf8_error_text L data))
      | Some t \<Rightarrow> (case decode c t of Inl m \<Rightarrow> Inl (Protocol (json_prefix @ m)) | Inr x \<Rightarrow> Inr x))"

definition read_json ::
    "libs \<Rightarrow> 'a codec \<Rightarrow> string \<Rightarrow> string \<Rightarrow> string \<Rightarrow> ('z world_scheme, core_error, 'a) io" where
  "read_json L c utf8_prefix json_prefix k =
     io_bind (get_object k) (\<lambda>data. io_result (parse_json L c utf8_prefix json_prefix data))"

text \<open>A point in time and a span in nanoseconds, as \<open>chrono\<close> counts them.\<close>

definition duration_days :: "int \<Rightarrow> int" where
  "duration_days n = n * 86400000000000"

definition as_i64 :: "u64 \<Rightarrow> int" where
  "as_i64 n = sint n"

definition timestamp_is_stale :: "libs \<Rightarrow> timestamp \<Rightarrow> u64 \<Rightarrow> int \<Rightarrow> bool core_result" where
  "timestamp_is_stale L t stale_days at =
     (case rfc3339_parse L t of
        Inl m \<Rightarrow> Inl (Protocol (''timestamp: '' @ m))
      | Inr parsed \<Rightarrow> Inr (at - parsed > duration_days (as_i64 stale_days)))"

lemma duration_days_mono: "duration_days a < duration_days b \<longleftrightarrow> a < b"
  by (simp add: duration_days_def)

lemma duration_days_pos [simp]: "0 \<le> duration_days n \<longleftrightarrow> 0 \<le> n"
  by (simp add: duration_days_def zero_le_mult_iff)

lemma io_bind_known:
  "io_bind (io_result (Inr x)) k = k x" "io_bind (io_result (Inl e)) k = io_throw e"
  by (rule ext, simp add: io_simps)+

section \<open>Undisturbed requests\<close>

text \<open>With no event pending, a request is the store's action on the bucket.\<close>

lemma quiet_requests:
  assumes "events w = []"
  shows "put_object L k b w = (Inr (store_etag L b), w\<lparr>objects := btree_insert k (b, store_etag L b) (objects w)\<rparr>)"
    and "get_object k w = (case contents (objects w) k of Some b \<Rightarrow> Inr b | None \<Rightarrow> Inl (NotFound k), w)"
    and "delete_object k w = (Inr (), w\<lparr>objects := btree_remove k (objects w)\<rparr>)"
    and "list_objects p w = (Inr (mem_keys p (objects w)), w)"
    and "put_if_not_exists L k b w = (if contents (objects w) k = None
      then (Inr True, w\<lparr>objects := btree_insert k (b, store_etag L b) (objects w)\<rparr>) else (Inr False, w))"
  using assms
  by (auto simp: request_defs serve_quiet mem_put_object_def mem_get_object_def mem_delete_object_def
      mem_list_objects_def mem_put_if_not_exists_def contents_def Let_def split: option.splits)

lemma quiet_put_if_match:
  assumes "events w = []" "store_inv L (objects w)"
  shows "put_if_match L k b e w =
    (if map_option (store_etag L) (contents (objects w) k) = Some (trim_char (CHR 0x22) e)
     then (Inr True, w\<lparr>objects := btree_insert k (b, store_etag L b) (objects w)\<rparr>) else (Inr False, w))"
  using assms store_inv_contents [OF assms(2), of k]
  by (auto simp: put_if_match_def serve_quiet mem_put_if_match_def split: option.splits)

lemma quiet_head:
  assumes "events w = []" "store_inv L (objects w)"
  shows "head_object k w = (case contents (objects w) k of
      None \<Rightarrow> Inl (NotFound k)
    | Some b \<Rightarrow> Inr \<lparr>om_key = k, om_size = of_nat (length b), om_etag = store_etag L b, om_last_modified = [],
        om_version_id = None\<rparr>, w)"
  using assms store_inv_contents [OF assms(2), of k]
  by (auto simp: head_object_def serve_quiet mem_head_object_def split: option.splits)

lemma parse_json_ok [simp]:
  "codec_ok c \<Longrightarrow> parse_json L c up jp (json_of c x) = Inr x"
  by (simp add: parse_json_def string_from_utf8_json codec_okD)

lemma parse_json_error: "parse_json L c up jp b = Inl e \<Longrightarrow> is_Protocol e"
  by (auto simp: parse_json_def split: option.splits sum.splits)

lemma read_json_quiet:
  assumes "events w = []"
  shows "read_json L c up jp k w = (case contents (objects w) k of
      None \<Rightarrow> Inl (NotFound k) | Some b \<Rightarrow> parse_json L c up jp b, w)"
  using quiet_requests(2) [OF assms] by (simp add: read_json_def io_simps split: option.splits)

lemma mem_keys_set: "k \<in> set (mem_keys p m) \<longleftrightarrow> starts_with k p \<and> contents m k \<noteq> None"
  using dom_map_of_keys [of k m] by (auto simp: mem_keys_def contents_def)

section \<open>Requests among other clients\<close>

text \<open>
  The rule of a request for predicates that the other clients and the action keep:
  \<open>serve_rule\<close> with its schedule part packed into \<open>guarded\<close>.
\<close>

definition guarded :: "(objs \<Rightarrow> bool) \<Rightarrow> 'z world_scheme \<Rightarrow> bool" where
  "guarded P w \<longleftrightarrow> P (objects w) \<and> env_keeps P w"

lemma guarded_serve:
  assumes "serve f w = (r, w')" "guarded P w" "\<And>m. P m \<Longrightarrow> P (snd (f m))"
  shows "guarded P w' \<and> (\<forall>x. r = Inr x \<longrightarrow> (\<exists>m. P m \<and> f m = (r, objects w')))"
  using serve_rule [where P = P, OF assms(1) _ _ assms(3)] assms(2) by (auto simp: guarded_def)

lemma guarded_reads:
  assumes "guarded P w"
  shows "get_object k w = (r, w') \<Longrightarrow>
      guarded P w' \<and> (\<forall>b. r = Inr b \<longrightarrow> contents (objects w') k = Some b)"
    and "head_object k w = (q, w') \<Longrightarrow>
      guarded P w' \<and> (\<forall>i. q = Inr i \<longrightarrow> (\<exists>b. map_of (objects w') k = Some (b, om_etag i)))"
    and "list_objects p w = (ks, w') \<Longrightarrow> guarded P w'"
proof -
  assume "get_object k w = (r, w')"
  from guarded_serve [OF this [unfolded get_object_def] assms]
  show "guarded P w' \<and> (\<forall>b. r = Inr b \<longrightarrow> contents (objects w') k = Some b)"
    by (auto simp: mem_get_object_def contents_def split: option.splits)
next
  assume "head_object k w = (q, w')"
  from guarded_serve [OF this [unfolded head_object_def] assms]
  show "guarded P w' \<and> (\<forall>i. q = Inr i \<longrightarrow> (\<exists>b. map_of (objects w') k = Some (b, om_etag i)))"
    by (auto simp: mem_head_object_def split: option.splits)
next
  assume "list_objects p w = (ks, w')"
  from guarded_serve [OF this [unfolded list_objects_def] assms]
  show "guarded P w'" by (simp add: mem_list_objects_def)
qed

lemma guarded_read_json:
  assumes "read_json L c up jp k w = (r, w')" "guarded P w"
  shows "guarded P w' \<and> (\<forall>x. r = Inr x \<longrightarrow> (\<exists>b. contents (objects w') k = Some b \<and> parse_json L c up jp b = Inr x))"
  using io_bindD [OF assms(1) [unfolded read_json_def]] guarded_reads(1) [OF assms(2)]
  by (fastforce simp: io_simps)

text \<open>Actions that keep every guarded predicate, whatever their outcome: reads, and their compositions.\<close>

named_theorems keeps_intros \<open>actions that keep a guarded predicate\<close>

definition keeps :: "(objs \<Rightarrow> bool) \<Rightarrow> ('z world_scheme, 'e, 'a) io \<Rightarrow> bool" where
  "keeps P m \<longleftrightarrow> (\<forall>w r w'. guarded P w \<longrightarrow> m w = (r, w') \<longrightarrow> guarded P w')"

lemma keepsD: "keeps P m \<Longrightarrow> guarded P w \<Longrightarrow> m w = (r, w') \<Longrightarrow> guarded P w'"
  by (simp add: keeps_def)

lemma keeps_basic [keeps_intros]:
  "keeps P (io_return x)" "keeps P (io_throw e)" "keeps P (io_result q)" "keeps P (io_get f)"
  by (simp_all add: keeps_def io_simps)

lemma keeps_bind [keeps_intros]: "keeps P m \<Longrightarrow> (\<And>x. keeps P (k x)) \<Longrightarrow> keeps P (io_bind m k)"
  unfolding keeps_def by (blast dest: io_bindD)

lemma keeps_try [keeps_intros]: "keeps P m \<Longrightarrow> (\<And>x. keeps P (k x)) \<Longrightarrow> keeps P (io_try m k)"
  unfolding keeps_def by (blast dest: io_tryD)

lemma keeps_serve: "(\<And>m. P m \<Longrightarrow> P (snd (f m))) \<Longrightarrow> keeps P (serve f)"
  unfolding keeps_def using guarded_serve by blast

lemma keeps_reads [keeps_intros]:
  "keeps P (get_object k)" "keeps P (head_object k)" "keeps P (list_objects p)"
  unfolding keeps_def using guarded_reads by blast+

lemma keeps_read_json [keeps_intros]: "keeps P (read_json L c up jp k)"
  unfolding read_json_def by (intro keeps_intros)

lemma keeps_cases [keeps_intros]:
  "(b \<Longrightarrow> keeps P m) \<Longrightarrow> (\<not> b \<Longrightarrow> keeps P m') \<Longrightarrow> keeps P (if b then m else m')"
  "(\<And>e. r = Inl e \<Longrightarrow> keeps P (f e)) \<Longrightarrow> (\<And>x. r = Inr x \<Longrightarrow> keeps P (g x)) \<Longrightarrow> keeps P (case r of Inl e \<Rightarrow> f e | Inr x \<Rightarrow> g x)"
  "(y = None \<Longrightarrow> keeps P h) \<Longrightarrow> (\<And>x. y = Some x \<Longrightarrow> keeps P (j x)) \<Longrightarrow> keeps P (case y of None \<Rightarrow> h | Some x \<Rightarrow> j x)"
  by (auto split: sum.split option.split)

lemma keeps_fold [keeps_intros]: "(\<And>x a. keeps P (f x a)) \<Longrightarrow> keeps P (io_fold f xs a)"
  by (induction xs arbitrary: a) (simp_all add: keeps_basic keeps_bind)

text \<open>Actions that, undisturbed, change nothing.\<close>

named_theorems still_intros \<open>actions that change nothing when undisturbed\<close>

definition still :: "('z world_scheme, 'e, 'a) io \<Rightarrow> bool" where
  "still m \<longleftrightarrow> (\<forall>w. events w = [] \<longrightarrow> snd (m w) = w)"

lemma stillD: "still m \<Longrightarrow> events w = [] \<Longrightarrow> m w = (r, w') \<Longrightarrow> w' = w"
  by (metis snd_conv still_def)

lemma still_basic [still_intros]:
  "still (io_return x)" "still (io_throw e)" "still (io_result q)" "still (io_get f)"
  by (simp_all add: still_def io_simps)

lemma still_bind [still_intros]: "still m \<Longrightarrow> (\<And>x. still (k x)) \<Longrightarrow> still (io_bind m k)"
  unfolding still_def
  by (auto simp: io_bind_apply split: prod.splits sum.splits)

lemma still_try [still_intros]: "still m \<Longrightarrow> (\<And>x. still (k x)) \<Longrightarrow> still (io_try m k)"
  unfolding still_def
  by (auto simp: io_try_apply split: prod.splits)

lemma still_reads [still_intros]:
  "still (get_object k)" "still (head_object k)" "still (list_objects p)"
  by (simp_all add: still_def request_defs serve_quiet mem_get_object_def mem_head_object_def mem_list_objects_def)

lemma still_read_json [still_intros]: "still (read_json L c up jp k)"
  unfolding read_json_def by (intro still_intros)

lemma still_cases [still_intros]:
  "(b \<Longrightarrow> still m) \<Longrightarrow> (\<not> b \<Longrightarrow> still m') \<Longrightarrow> still (if b then m else m')"
  "(\<And>e. r = Inl e \<Longrightarrow> still (f e)) \<Longrightarrow> (\<And>x. r = Inr x \<Longrightarrow> still (g x)) \<Longrightarrow> still (case r of Inl e \<Rightarrow> f e | Inr x \<Rightarrow> g x)"
  "(y = None \<Longrightarrow> still h) \<Longrightarrow> (\<And>x. y = Some x \<Longrightarrow> still (j x)) \<Longrightarrow> still (case y of None \<Rightarrow> h | Some x \<Rightarrow> j x)"
  by (auto split: sum.split option.split)

lemma still_fold [still_intros]: "(\<And>x a. still (f x a)) \<Longrightarrow> still (io_fold f xs a)"
  by (induction xs arbitrary: a) (simp_all add: still_basic still_bind)

end
