(* ===== verification/File_Tree.thy ===== *)
theory File_Tree
  imports Stored_Json Placement
begin

text \<open>
  The materialized tree and the tombstones (\<open>metadata/tree.rs\<close>): one JSON object per
  entry under \<open>meta/tree/\<close> and one per deletion under \<open>trash/tombstones/\<close>. Both are
  written with conditional requests, so the properties are about what a write may
  replace while other devices write too, and about what garbage collection removes.
\<close>

record entry_version =
  ev_entry :: file_entry
  ev_etag :: string

record tombstone_version =
  tv_tombstone :: tombstone
  tv_etag :: string

section \<open>FileTree\<close>

definition upsert_entry :: "libs \<Rightarrow> file_entry \<Rightarrow> ('z world_scheme, core_error, unit) io" where
  "upsert_entry L entry =
     io_bind (io_result (validate_file_entry L entry)) (\<lambda>_.
     io_bind (io_result (to_json (json_entry L) entry)) (\<lambda>json.
     io_bind (put_object L (tree_entry_key L (fe_file_id entry)) json) (\<lambda>_. io_return ())))"

definition get_entry :: "libs \<Rightarrow> file_id \<Rightarrow> ('z world_scheme, core_error, file_entry) io" where
  "get_entry L i = read_json L (json_entry L) ''UTF-8: '' ''deserialize entry: '' (tree_entry_key L i)"

text \<open>The \<open>for _ in 0..4\<close> loop of \<open>get_entry_version\<close>, with the rounds left.\<close>

primrec entry_version_loop ::
    "libs \<Rightarrow> file_id \<Rightarrow> nat \<Rightarrow> ('z world_scheme, core_error, entry_version option) io" where
  "entry_version_loop L i 0 = io_throw (Conflict (''tree entry keeps changing for '' @ uuid_text L i))"
| "entry_version_loop L i (Suc n) =
     io_try (head_object (tree_entry_key L i)) (\<lambda>r. case r of
         Inl e \<Rightarrow> if is_NotFound e then io_return None else io_throw e
       | Inr before \<Rightarrow>
           io_try (get_entry L i) (\<lambda>r. case r of
               Inl e \<Rightarrow> if is_NotFound e then entry_version_loop L i n else io_throw e
             | Inr entry \<Rightarrow>
                 io_try (head_object (tree_entry_key L i)) (\<lambda>r. case r of
                     Inl e \<Rightarrow> if is_NotFound e then entry_version_loop L i n else io_throw e
                   | Inr after \<Rightarrow>
                       if om_etag before = om_etag after
                       then io_return (Some \<lparr>ev_entry = entry, ev_etag = om_etag after\<rparr>)
                       else entry_version_loop L i n)))"

definition get_entry_version ::
    "libs \<Rightarrow> file_id \<Rightarrow> ('z world_scheme, core_error, entry_version option) io" where
  "get_entry_version L i = entry_version_loop L i 4"

definition put_entry_if ::
    "libs \<Rightarrow> file_entry \<Rightarrow> entry_version option \<Rightarrow> ('z world_scheme, core_error, bool) io" where
  "put_entry_if L entry observed =
     io_bind (io_result (validate_file_entry L entry)) (\<lambda>_.
     io_bind (io_result (to_json (json_entry L) entry)) (\<lambda>json.
       case observed of
         None \<Rightarrow> put_if_not_exists L (tree_entry_key L (fe_file_id entry)) json
       | Some version \<Rightarrow> put_if_match L (tree_entry_key L (fe_file_id entry)) json (ev_etag version)))"

definition delete_entry :: "libs \<Rightarrow> file_id \<Rightarrow> ('z world_scheme, core_error, unit) io" where
  "delete_entry L i = delete_object (tree_entry_key L i)"

definition list_entries :: "libs \<Rightarrow> ('z world_scheme, core_error, file_id list) io" where
  "list_entries L =
     io_bind (list_objects tree_prefix) (\<lambda>keys. io_return (List.map_filter (tree_key_to_file_id L) keys))"

definition entry_count :: "libs \<Rightarrow> ('z world_scheme, core_error, nat) io" where
  "entry_count L = io_bind (list_entries L) (\<lambda>ids. io_return (length ids))"

section \<open>TombstoneManager\<close>

definition same_delete_details :: "tombstone \<Rightarrow> tombstone \<Rightarrow> bool" where
  "same_delete_details l r \<longleftrightarrow>
     ts_file_id l = ts_file_id r \<and> ts_path_at_delete l = ts_path_at_delete r
     \<and> ts_name_at_delete l = ts_name_at_delete r \<and> ts_deleted_by l = ts_deleted_by r
     \<and> ts_content_refs l = ts_content_refs r \<and> ts_restorable l = ts_restorable r"

definition same_deletion :: "tombstone \<Rightarrow> tombstone \<Rightarrow> bool" where
  "same_deletion l r \<longleftrightarrow> same_delete_details l r \<and> ts_deleted_at l = ts_deleted_at r"

definition get_tombstone :: "libs \<Rightarrow> file_id \<Rightarrow> ('z world_scheme, core_error, tombstone) io" where
  "get_tombstone L i =
     read_json L (json_tombstone L) ''UTF-8: '' ''deserialize tombstone: '' (tombstone_key L i)"

definition different_deletion :: "libs \<Rightarrow> file_id \<Rightarrow> core_error" where
  "different_deletion L i = Conflict (''a different deletion already exists for '' @ uuid_text L i)"

definition planned_tombstone ::
    "libs \<Rightarrow> int \<Rightarrow> file_id \<Rightarrow> string \<Rightarrow> string \<Rightarrow> string \<Rightarrow> blob_id list \<Rightarrow> u32 \<Rightarrow> tombstone" where
  "planned_tombstone L at i path name deleted_by refs retention_days =
     \<lparr>ts_file_id = i, ts_path_at_delete = path, ts_name_at_delete = name,
      ts_deleted_by = deleted_by, ts_deleted_at = rfc3339_text L at,
      ts_retention_until = rfc3339_text L (at + duration_days (uint retention_days)),
      ts_content_refs = refs, ts_restorable = True\<rparr>"

definition create_tombstone ::
    "libs \<Rightarrow> file_id \<Rightarrow> string \<Rightarrow> string \<Rightarrow> string \<Rightarrow> blob_id list \<Rightarrow> u32
      \<Rightarrow> ('z world_scheme, core_error, tombstone) io" where
  "create_tombstone L i path name deleted_by refs retention_days =
     io_bind utc_now (\<lambda>at.
       let t = planned_tombstone L at i path name deleted_by refs retention_days
       in io_bind (io_result (to_json (json_tombstone L) t)) (\<lambda>json.
          io_bind (put_if_not_exists L (tombstone_key L i) json) (\<lambda>created.
            if created then io_return t
            else io_bind (get_tombstone L i) (\<lambda>existing.
              if same_delete_details existing t then io_return existing
              else io_throw (different_deletion L i)))))"

primrec tombstone_version_loop ::
    "libs \<Rightarrow> file_id \<Rightarrow> nat \<Rightarrow> ('z world_scheme, core_error, tombstone_version) io" where
  "tombstone_version_loop L i 0 = io_throw (Conflict (''deletion keeps changing for '' @ uuid_text L i))"
| "tombstone_version_loop L i (Suc n) =
     io_bind (head_object (tombstone_key L i)) (\<lambda>before.
     io_bind (get_tombstone L i) (\<lambda>t.
     io_bind (head_object (tombstone_key L i)) (\<lambda>after.
       if om_etag before = om_etag after
       then (if ts_file_id t \<noteq> i
             then io_throw (Protocol (''tombstone identity does not match '' @ uuid_text L i))
             else io_return \<lparr>tv_tombstone = t, tv_etag = om_etag after\<rparr>)
       else tombstone_version_loop L i n)))"

definition get_tombstone_version ::
    "libs \<Rightarrow> file_id \<Rightarrow> ('z world_scheme, core_error, tombstone_version) io" where
  "get_tombstone_version L i = tombstone_version_loop L i 4"

definition replace_tombstone ::
    "libs \<Rightarrow> tombstone_version \<Rightarrow> tombstone \<Rightarrow> ('z world_scheme, core_error, tombstone) io" where
  "replace_tombstone L previous candidate =
     (if ts_file_id (tv_tombstone previous) \<noteq> ts_file_id candidate
         \<or> same_deletion (tv_tombstone previous) candidate
      then io_throw (Conflict ''replacement requires a new deletion of the same id'')
      else
        io_bind (get_tombstone_version L (ts_file_id candidate)) (\<lambda>current.
          if same_deletion (tv_tombstone current) candidate then io_return (tv_tombstone current)
          else if tv_etag current \<noteq> tv_etag previous
               \<or> \<not> same_deletion (tv_tombstone current) (tv_tombstone previous)
          then io_throw (Conflict (''deletion changed since restore for '' @ uuid_text L (ts_file_id candidate)))
          else
            io_bind (io_result (to_json (json_tombstone L) candidate)) (\<lambda>body.
            io_bind (put_if_match L (tombstone_key L (ts_file_id candidate)) body (tv_etag current)) (\<lambda>ok.
              if ok then io_return candidate
              else
                io_bind (get_tombstone L (ts_file_id candidate)) (\<lambda>winner.
                  if same_deletion winner candidate then io_return winner
                  else io_throw (Conflict (''another deletion won for '' @ uuid_text L (ts_file_id candidate))))))))"

definition list_tombstones :: "libs \<Rightarrow> ('z world_scheme, core_error, file_id list) io" where
  "list_tombstones L =
     io_bind (list_objects tombstone_prefix) (\<lambda>keys.
       io_return (List.map_filter (tombstone_key_to_file_id L) keys))"

text \<open>One iteration of \<open>collect_garbage\<close>; errors of the read skip the tombstone.\<close>

definition tombstone_expired :: "libs \<Rightarrow> int \<Rightarrow> tombstone \<Rightarrow> bool" where
  "tombstone_expired L at t \<longleftrightarrow>
     (case rfc3339_parse L (ts_retention_until t) of Inl _ \<Rightarrow> False | Inr until \<Rightarrow> at > until)"

definition collect_one :: "libs \<Rightarrow> int \<Rightarrow> file_id \<Rightarrow> u32 \<Rightarrow> ('z world_scheme, core_error, u32) io" where
  "collect_one L at i collected =
     io_try (get_tombstone L i) (\<lambda>r. case r of
         Inl _ \<Rightarrow> io_return collected
       | Inr t \<Rightarrow>
           if tombstone_expired L at t then
             io_bind (delete_object (tombstone_key L i)) (\<lambda>_.
             io_try (delete_object (tree_entry_key L i)) (\<lambda>_. io_return (collected + 1)))
           else io_return collected)"

definition collect_garbage :: "libs \<Rightarrow> ('z world_scheme, core_error, u32) io" where
  "collect_garbage L =
     io_bind (list_tombstones L) (\<lambda>ids.
     io_bind utc_now (\<lambda>at. io_fold (collect_one L at) ids 0))"

definition tombstone_count :: "libs \<Rightarrow> ('z world_scheme, core_error, nat) io" where
  "tombstone_count L = io_bind (list_tombstones L) (\<lambda>ids. io_return (length ids))"

section \<open>Conditional writes of entries\<close>

definition observed_in :: "libs \<Rightarrow> objs \<Rightarrow> string \<Rightarrow> entry_version option \<Rightarrow> bool" where
  "observed_in L m k observed \<longleftrightarrow>
     (case observed of
        None \<Rightarrow> contents m k = None
      | Some v \<Rightarrow> map_option (store_etag L) (contents m k) = Some (trim_char (CHR 0x22) (ev_etag v)))"

lemma put_entry_if_run:
  assumes "libs_ok L" "validate_file_entry L x = Inr ()"
  shows "put_entry_if L x observed = serve (case observed of
       None \<Rightarrow> mem_put_if_not_exists L (tree_entry_key L (fe_file_id x)) (json_of (json_entry L) x)
     | Some v \<Rightarrow> mem_put_if_match L (tree_entry_key L (fe_file_id x)) (json_of (json_entry L) x) (ev_etag v))"
  using assms
  by (auto simp: fun_eq_iff put_entry_if_def io_bind_apply io_result_apply to_json_ok libs_ok_codecs
      put_if_not_exists_def put_if_match_def split: option.splits)

lemma put_entry_action:
  assumes "store_inv L m"
    and "(case observed of None \<Rightarrow> mem_put_if_not_exists L k b | Some v \<Rightarrow> mem_put_if_match L k b (ev_etag v)) m
      = (r, m')"
  shows "store_inv L m' \<and> r = Inr (observed_in L m k observed)
    \<and> contents m' = (if observed_in L m k observed then (contents m)(k \<mapsto> b) else contents m)"
  using assms mem.create_law [of L m k b r m'] mem.replace_law [of L m k b _ r m']
  by (cases observed) (fastforce simp: observed_in_def)+

lemma put_entry_if_atomic:
  assumes L: "libs_ok L" and w: "guarded (store_inv L) w" and run: "put_entry_if L x observed w = (Inr ok, w')"
  shows "\<exists>m. store_inv L m \<and> ok = observed_in L m (tree_entry_key L (fe_file_id x)) observed
    \<and> contents (objects w') = (if ok then (contents m)(tree_entry_key L (fe_file_id x) \<mapsto> json_of (json_entry L) x)
        else contents m)"
proof (cases "validate_file_entry L x")
  case (Inl e)
  then show ?thesis using run by (simp add: put_entry_if_def io_simps)
next
  case (Inr u)
  let ?k = "tree_entry_key L (fe_file_id x)" and ?b = "json_of (json_entry L) x"
  let ?f = "case observed of None \<Rightarrow> mem_put_if_not_exists L ?k ?b | Some v \<Rightarrow> mem_put_if_match L ?k ?b (ev_etag v)"
  have keep: "store_inv L (snd (?f m))" if "store_inv L m" for m
    using put_entry_action [OF that, where observed = observed and k = ?k and b = ?b] by (metis prod.collapse)
  have "put_entry_if L x observed w = serve ?f w"
    by (rule fun_cong [OF put_entry_if_run [OF L]]) (use Inr in simp)
  then have run': "serve ?f w = (Inr ok, w')" using run by simp
  from guarded_serve [OF run' w keep] obtain m where m: "store_inv L m" "?f m = (Inr ok, objects w')" by auto
  from put_entry_action [OF this] m(1) show ?thesis by auto
qed

section \<open>Reading an entry with its version\<close>

definition only_version :: "libs \<Rightarrow> string \<Rightarrow> string option \<Rightarrow> objs \<Rightarrow> bool" where
  "only_version L k v m \<longleftrightarrow> store_inv L m \<and> contents m k = v"

lemma head_only_version:
  assumes "head_object k w = (r, w')" "guarded (only_version L k v) w"
  shows "guarded (only_version L k v) w' \<and> (\<forall>i. r = Inr i \<longrightarrow> (\<exists>b. v = Some b \<and> om_etag i = store_etag L b))"
  using guarded_reads(2) [OF assms(2,1)]
  by (auto simp: guarded_def only_version_def contents_def store_inv_def)

lemma entry_version_loop_ok:
  assumes "guarded (only_version L (tree_entry_key L i) v) w"
  shows "entry_version_loop L i n w = (Inr (Some x), w') \<Longrightarrow>
    \<exists>b. v = Some b \<and> ev_etag x = store_etag L b
      \<and> parse_json L (json_entry L) ''UTF-8: '' ''deserialize entry: '' b = Inr (ev_entry x)"
  using assms
proof (induction n arbitrary: w)
  case 0
  then show ?case by (simp add: io_simps)
next
  case (Suc n)
  let ?P = "only_version L (tree_entry_key L i) v"
  obtain q1 w1 where h1: "head_object (tree_entry_key L i) w = (q1, w1)" by fastforce
  note g1 = head_only_version [OF h1 Suc.prems(2)]
  show ?case
  proof (cases q1)
    case (Inl e)
    then show ?thesis using Suc.prems(1) h1 by (auto simp: io_simps split: if_splits)
  next
    case (Inr before)
    obtain q2 w2 where h2: "get_entry L i w1 = (q2, w2)" by fastforce
    from guarded_read_json [OF h2 [unfolded get_entry_def] conjunct1 [OF g1]]
    have g2: "guarded ?P w2" and entry: "\<And>x. q2 = Inr x \<Longrightarrow> \<exists>b. v = Some b
        \<and> parse_json L (json_entry L) ''UTF-8: '' ''deserialize entry: '' b = Inr x"
      by (auto simp: guarded_def only_version_def)
    show ?thesis
    proof (cases q2)
      case (Inl e)
      then show ?thesis using Suc.prems(1) Suc.IH [OF _ g2] h1 h2 \<open>q1 = Inr before\<close>
        by (auto simp: io_simps split: if_splits)
    next
      case (Inr y)
      obtain q3 w3 where h3: "head_object (tree_entry_key L i) w2 = (q3, w3)" by fastforce
      note g3 = head_only_version [OF h3 g2]
      then show ?thesis
        using Suc.prems(1) Suc.IH [of w3] h1 h2 h3 \<open>q1 = Inr before\<close> Inr entry [OF Inr]
        by (cases q3) (auto simp: io_simps split: if_splits)
    qed
  qed
qed

text \<open>
  Another device that restores the first version between the two \<open>head\<close> requests
  makes \<open>get_entry_version\<close> return the second version's body with the first one's ETag.
\<close>

definition swap_event :: "libs \<Rightarrow> string \<Rightarrow> string \<Rightarrow> env_event" where
  "swap_event L k b = \<lparr>ev_env = btree_insert k (b, store_etag L b), ev_elapsed = 0, ev_fault = Served\<rparr>"

lemma get_entry_version_aba:
  fixes L a b
  defines "k \<equiv> tree_entry_key L (fe_file_id a)"
  defines "A \<equiv> json_of (json_entry L) a" and "B \<equiv> json_of (json_entry L) b"
  assumes "libs_ok L"
  shows "fst (get_entry_version L (fe_file_id a)
      \<lparr>objects = [(k, A, store_etag L A)], events = [swap_event L k A, swap_event L k B, swap_event L k A],
       now = 0, draws = 0\<rparr>) = Inr (Some \<lparr>ev_entry = b, ev_etag = store_etag L A\<rparr>)"
  using assms(4) unfolding k_def A_def B_def
  by (simp add: get_entry_version_def eval_nat_numeral io_simps head_object_def serve_def swap_event_def
      mem_head_object_def get_entry_def read_json_def get_object_def mem_get_object_def libs_ok_codecs)

section \<open>Deletions are never overwritten\<close>

lemma same_deletion_refl [simp]: "same_deletion t t"
  by (simp add: same_deletion_def same_delete_details_def)

lemma same_deletion_sym: "same_deletion l r \<Longrightarrow> same_deletion r l"
  by (simp add: same_deletion_def same_delete_details_def)

lemma same_deletion_trans: "same_deletion a b \<Longrightarrow> same_deletion b c \<Longrightarrow> same_deletion a c"
  by (simp add: same_deletion_def same_delete_details_def)

lemma create_tombstone_quiet:
  fixes w :: "'z world_scheme" and i path name deleted_by refs retention_days
  assumes L: "libs_ok L" and w: "events w = []"
  defines "t \<equiv> planned_tombstone L (now w) i path name deleted_by refs retention_days"
  shows "create_tombstone L i path name deleted_by refs retention_days w =
    (case contents (objects w) (tombstone_key L i) of
       None \<Rightarrow> (Inr t, w\<lparr>objects := btree_insert (tombstone_key L i)
           (json_of (json_tombstone L) t, store_etag L (json_of (json_tombstone L) t)) (objects w)\<rparr>)
     | Some b \<Rightarrow>
         (case parse_json L (json_tombstone L) ''UTF-8: '' ''deserialize tombstone: '' b of
            Inl e \<Rightarrow> Inl e
          | Inr existing \<Rightarrow> if same_delete_details existing t then Inr existing else Inl (different_deletion L i), w))"
proof -
  have create: "create_tombstone L i path name deleted_by refs retention_days w =
      io_bind (put_if_not_exists L (tombstone_key L i) (json_of (json_tombstone L) t)) (\<lambda>created.
            if created then io_return t
            else io_bind (get_tombstone L i) (\<lambda>existing.
              if same_delete_details existing t then io_return existing
              else io_throw (different_deletion L i))) w"
    using L unfolding t_def
    by (simp add: create_tombstone_def utc_now_def Let_def io_bind_apply io_get_apply io_result_apply to_json_ok
        libs_ok_codecs)
  show ?thesis
  proof (cases "contents (objects w) (tombstone_key L i)")
    case None
    then show ?thesis
      unfolding create by (simp add: io_bind_apply io_return_apply quiet_requests(5) [OF w])
  next
    case (Some b)
    then show ?thesis
      unfolding create
      by (simp add: io_bind_apply io_return_apply io_throw_apply quiet_requests(5) [OF w]
          get_tombstone_def read_json_quiet [OF w] split: sum.split)
  qed
qed

text \<open>Among other clients: an existing tombstone survives every \<open>create_tombstone\<close> on its id.\<close>

lemma create_tombstone_keeps:
  assumes L: "libs_ok L" and w: "guarded P w" and there: "\<And>m. P m \<Longrightarrow> contents m (tombstone_key L i) \<noteq> None"
    and run: "create_tombstone L i path name deleted_by refs retention_days w = (r, w')"
  shows "guarded P w'"
proof -
  let ?t = "planned_tombstone L (now w) i path name deleted_by refs retention_days"
  let ?f = "mem_put_if_not_exists L (tombstone_key L i) (json_of (json_tombstone L) ?t)"
  have "P m \<Longrightarrow> P (snd (?f m))" for m
    using there [of m] by (auto simp: mem_put_if_not_exists_def contents_def split: option.splits)
  note put = guarded_serve [OF _ w this]
  obtain q w1 where q: "serve ?f w = (q, w1)" by fastforce
  obtain q2 w2 where q2: "get_tombstone L i w1 = (q2, w2)" by fastforce
  have "w' = w1 \<or> w' = w2"
    using run q q2 L
    by (auto simp: create_tombstone_def utc_now_def Let_def io_simps to_json_ok libs_ok_codecs
        put_if_not_exists_def split: sum.splits if_splits)
  then show ?thesis
    using put [OF q] guarded_read_json [OF q2 [unfolded get_tombstone_def]] by auto
qed

lemma tombstone_version_etag:
  assumes "guarded (store_inv L) w" "tombstone_version_loop L i n w = (Inr v, w')"
  shows "\<exists>b. tv_etag v = store_etag L b"
  using assms
proof (induction n arbitrary: w)
  case 0
  then show ?case by (simp add: io_simps)
next
  case (Suc n)
  from Suc.prems(2) obtain before w1 t w2 after w3 where
    h: "head_object (tombstone_key L i) w = (Inr before, w1)" "get_tombstone L i w1 = (Inr t, w2)"
       "head_object (tombstone_key L i) w2 = (Inr after, w3)"
    and rest: "(if om_etag before = om_etag after
       then (if ts_file_id t \<noteq> i
             then io_throw (Protocol (''tombstone identity does not match '' @ uuid_text L i))
             else io_return \<lparr>tv_tombstone = t, tv_etag = om_etag after\<rparr>)
       else tombstone_version_loop L i n) w3 = (Inr v, w')"
    by (auto dest!: io_bindD)
  have g1: "guarded (store_inv L) w1" using guarded_reads(2) [OF Suc.prems(1) h(1)] by blast
  have g2: "guarded (store_inv L) w2" using guarded_read_json [OF h(2) [unfolded get_tombstone_def] g1] by blast
  from guarded_reads(2) [OF g2 h(3)] have g3: "guarded (store_inv L) w3"
    and after: "\<exists>b. om_etag after = store_etag L b"
    by (auto simp: guarded_def store_inv_def)
  show ?case
  proof (cases "om_etag before = om_etag after")
    case True
    then have "tv_etag v = om_etag after" using rest by (auto simp: io_simps split: if_splits)
    then show ?thesis using after by simp
  next
    case False
    then show ?thesis using Suc.IH [OF g3] rest by simp
  qed
qed

lemma keeps_tombstone_reads [keeps_intros]:
  "keeps P (get_tombstone L i)" "keeps P (tombstone_version_loop L i n)" "keeps P (get_tombstone_version L i)"
proof -
  show get: "keeps P (get_tombstone L i)" unfolding get_tombstone_def by (intro keeps_intros)
  show loop: "keeps P (tombstone_version_loop L i n)" for n
  proof (induction n)
    case 0
    show ?case unfolding tombstone_version_loop.simps by (intro keeps_intros)
  next
    case (Suc n)
    then show ?case unfolding tombstone_version_loop.simps by (intro keeps_intros get)
  qed
  show "keeps P (get_tombstone_version L i)" by (simp add: get_tombstone_version_def loop)
qed

text \<open>
  A predicate of the bucket that implies the store invariant and that the other
  clients keep is also kept by \<open>replace_tombstone\<close>, if it survives the replacement of
  exactly the observed version by the candidate.
\<close>

lemma replace_tombstone_guarded:
  fixes previous :: tombstone_version and candidate :: tombstone
  defines "k \<equiv> \<lambda>L. tombstone_key L (ts_file_id candidate)"
  assumes L: "libs_ok L" and w: "guarded P w" and inv: "\<And>m. P m \<Longrightarrow> store_inv L m"
    and env: "env_keeps (store_inv L) w"
    and step: "\<And>m b. P m \<Longrightarrow> contents m (k L) = Some b \<Longrightarrow> store_etag L b = tv_etag previous
        \<Longrightarrow> P (btree_insert (k L) (json_of (json_tombstone L) candidate,
          store_etag L (json_of (json_tombstone L) candidate)) m)"
    and run: "replace_tombstone L previous candidate w = (r, w')"
  shows "guarded P w' \<and> (\<forall>t. r = Inr t \<longrightarrow> same_deletion t candidate)"
proof -
  let ?J = "json_of (json_tombstone L) candidate"
  obtain q1 w1 where q1: "get_tombstone_version L (ts_file_id candidate) w = (q1, w1)" by fastforce
  note q1' = q1 [unfolded get_tombstone_version_def]
  have g1: "guarded P w1" by (rule keepsD [OF keeps_tombstone_reads(3) w q1])
  have gi: "guarded (store_inv L) w" using w inv env by (simp add: guarded_def)
  obtain q2 w2 where q2: "put_if_match L (k L) ?J (tv_etag previous) w1 = (q2, w2)" by fastforce
  obtain q3 w3 where q3: "get_tombstone L (ts_file_id candidate) w2 = (q3, w3)" by fastforce
  have g2: "guarded P w2" if v: "q1 = Inr v" "tv_etag v = tv_etag previous" for v
  proof -
    from tombstone_version_etag [OF gi q1' [unfolded v(1)]] v(2)
    have trim: "trim_char (CHR 0x22) (tv_etag previous) = tv_etag previous"
      using libs_ok_etag(2) [OF L] by auto
    have "P (snd (mem_put_if_match L (k L) ?J (tv_etag previous) m))" if "P m" for m
      using that step [of m] inv [OF that] trim store_inv_contents [OF inv [OF that], of "k L"]
      by (cases "contents m (k L)") (auto simp: mem_put_if_match_def)
    from guarded_serve [OF q2 [unfolded put_if_match_def] g1 this] show ?thesis by simp
  qed
  have g3: "guarded P w2 \<Longrightarrow> guarded P w3"
    using guarded_read_json [OF q3 [unfolded get_tombstone_def]] by blast
  show ?thesis
  proof (cases "ts_file_id (tv_tombstone previous) \<noteq> ts_file_id candidate
         \<or> same_deletion (tv_tombstone previous) candidate")
    case True
    then show ?thesis using run w by (auto simp: replace_tombstone_def io_simps)
  next
    case False
    then have body: "io_bind (get_tombstone_version L (ts_file_id candidate)) (\<lambda>current.
          if same_deletion (tv_tombstone current) candidate then io_return (tv_tombstone current)
          else if tv_etag current \<noteq> tv_etag previous
               \<or> \<not> same_deletion (tv_tombstone current) (tv_tombstone previous)
          then io_throw (Conflict (''deletion changed since restore for '' @ uuid_text L (ts_file_id candidate)))
          else
            io_bind (io_result (to_json (json_tombstone L) candidate)) (\<lambda>body.
            io_bind (put_if_match L (tombstone_key L (ts_file_id candidate)) body (tv_etag current)) (\<lambda>ok.
              if ok then io_return candidate
              else
                io_bind (get_tombstone L (ts_file_id candidate)) (\<lambda>winner.
                  if same_deletion winner candidate then io_return winner
                  else io_throw (Conflict (''another deletion won for '' @ uuid_text L (ts_file_id candidate))))))) w
        = (r, w')"
      using run by (simp add: replace_tombstone_def)
    show ?thesis
    proof (cases q1)
      case (Inl e)
      then show ?thesis using body q1 g1 by (auto simp: io_simps)
    next
      case (Inr v)
      consider (same) "same_deletion (tv_tombstone v) candidate"
        | (changed) "\<not> same_deletion (tv_tombstone v) candidate"
            "tv_etag v \<noteq> tv_etag previous \<or> \<not> same_deletion (tv_tombstone v) (tv_tombstone previous)"
        | (put) "\<not> same_deletion (tv_tombstone v) candidate" "tv_etag v = tv_etag previous"
            "same_deletion (tv_tombstone v) (tv_tombstone previous)" by blast
      then show ?thesis
      proof cases
        case same
        then show ?thesis using body q1 Inr g1 by (auto simp: io_simps)
      next
        case changed
        then show ?thesis using body q1 Inr g1 by (auto simp: io_simps)
      next
        case put
        then show ?thesis
          using body q1 Inr q2 q3 g2 [OF Inr put(2)] g3 L
          by (auto simp: io_simps to_json_ok libs_ok_codecs k_def split: sum.splits if_splits)
      qed
    qed
  qed
qed

section \<open>Garbage collection\<close>

definition expired_in :: "libs \<Rightarrow> int \<Rightarrow> objs \<Rightarrow> file_id \<Rightarrow> bool" where
  "expired_in L at m i \<longleftrightarrow>
     (case contents m (tombstone_key L i) of
        None \<Rightarrow> False
      | Some b \<Rightarrow>
          (case parse_json L (json_tombstone L) ''UTF-8: '' ''deserialize tombstone: '' b of
             Inl _ \<Rightarrow> False | Inr t \<Rightarrow> tombstone_expired L at t))"

definition collect_step :: "libs \<Rightarrow> int \<Rightarrow> objs \<Rightarrow> file_id \<Rightarrow> objs" where
  "collect_step L at m i =
     (if expired_in L at m i then btree_remove (tree_entry_key L i) (btree_remove (tombstone_key L i) m) else m)"

lemma collect_one_quiet:
  assumes "events w = []"
  shows "collect_one L at i n w =
    (Inr (if expired_in L at (objects w) i then n + 1 else n), w\<lparr>objects := collect_step L at (objects w) i\<rparr>)"
proof -
  have tomb: "get_tombstone L i w = (case contents (objects w) (tombstone_key L i) of
      None \<Rightarrow> Inl (NotFound (tombstone_key L i))
    | Some b \<Rightarrow> parse_json L (json_tombstone L) ''UTF-8: '' ''deserialize tombstone: '' b, w)"
    unfolding get_tombstone_def by (rule read_json_quiet [OF assms])
  show ?thesis
  proof (cases "expired_in L at (objects w) i")
    case True
    then show ?thesis
      using assms
      by (auto simp: collect_one_def io_simps tomb quiet_requests(3) collect_step_def expired_in_def
          split: option.splits sum.splits)
  next
    case False
    then show ?thesis
      by (auto simp: collect_one_def io_simps tomb collect_step_def expired_in_def split: option.splits sum.splits)
  qed
qed

lemma collect_fold_quiet:
  "events w = [] \<Longrightarrow> \<exists>n'. io_fold (collect_one L at) ids n w =
     (Inr n', w\<lparr>objects := foldl (collect_step L at) (objects w) ids\<rparr>)"
proof (induction ids arbitrary: n w)
  case Nil
  then show ?case by (simp add: io_simps)
next
  case (Cons i ids)
  let ?n = "if expired_in L at (objects w) i then n + 1 else n"
  let ?w = "w\<lparr>objects := collect_step L at (objects w) i\<rparr>"
  obtain n' where "io_fold (collect_one L at) ids ?n ?w
      = (Inr n', ?w\<lparr>objects := foldl (collect_step L at) (objects ?w) ids\<rparr>)"
    using Cons.IH [of ?w ?n] Cons.prems by auto
  then show ?case using Cons.prems by (simp add: io_bind_apply collect_one_quiet)
qed

lemma expired_in_step:
  assumes "libs_ok L"
  shows "expired_in L at (collect_step L at m i) j \<longleftrightarrow> i \<noteq> j \<and> expired_in L at m j"
  using assms by (auto simp: expired_in_def collect_step_def tombstone_key_inj split: option.splits)

lemma contents_collect_fold:
  assumes L: "libs_ok L"
  shows "contents (foldl (collect_step L at) m ids) k =
    (if \<exists>i \<in> set ids. expired_in L at m i \<and> (k = tombstone_key L i \<or> k = tree_entry_key L i)
     then None else contents m k)"
proof (induction ids arbitrary: m)
  case Nil
  then show ?case by simp
next
  case (Cons i ids)
  have "contents (collect_step L at m i) k = (if expired_in L at m i \<and> (k = tombstone_key L i \<or> k = tree_entry_key L i)
      then None else contents m k)"
    by (auto simp: collect_step_def)
  then show ?case
    using Cons.IH [of "collect_step L at m i"] by (auto simp: expired_in_step [OF L])
qed

lemma map_filter_set: "y \<in> set (List.map_filter f xs) \<longleftrightarrow> (\<exists>x \<in> set xs. f x = Some y)"
  by (induction xs) (auto simp: List.map_filter_def)

lemma expired_listed:
  assumes "libs_ok L" "expired_in L at m i"
  shows "i \<in> set (List.map_filter (tombstone_key_to_file_id L) (mem_keys tombstone_prefix m))"
proof -
  have "contents m (tombstone_key L i) \<noteq> None" using assms(2) by (auto simp: expired_in_def split: option.splits)
  moreover have "starts_with (tombstone_key L i) tombstone_prefix"
    by (simp add: tombstone_key_def tombstone_prefix_def starts_with_def)
  ultimately have "tombstone_key L i \<in> set (mem_keys tombstone_prefix m)" by (simp add: mem_keys_set)
  then show ?thesis using assms(1) unfolding map_filter_set by (intro bexI) simp_all
qed

lemma collect_garbage_quiet_lemma:
  assumes L: "libs_ok L" and w: "events w = []"
  shows "\<exists>n w'. collect_garbage L w = (Inr n, w')
    \<and> contents (objects w') = (\<lambda>k. if \<exists>i. expired_in L (now w) (objects w) i
        \<and> (k = tombstone_key L i \<or> k = tree_entry_key L i) then None else contents (objects w) k)"
proof -
  let ?ids = "List.map_filter (tombstone_key_to_file_id L) (mem_keys tombstone_prefix (objects w))"
  obtain n where n: "io_fold (collect_one L (now w)) ?ids 0 w =
     (Inr n, w\<lparr>objects := foldl (collect_step L (now w)) (objects w) ?ids\<rparr>)"
    using collect_fold_quiet [OF w] by blast
  have "collect_garbage L w = (Inr n, w\<lparr>objects := foldl (collect_step L (now w)) (objects w) ?ids\<rparr>)"
    using n by (simp add: collect_garbage_def list_tombstones_def utc_now_def io_simps quiet_requests(4) [OF w])
  moreover have "contents (foldl (collect_step L (now w)) (objects w) ?ids) = (\<lambda>k.
      if \<exists>i. expired_in L (now w) (objects w) i \<and> (k = tombstone_key L i \<or> k = tree_entry_key L i)
      then None else contents (objects w) k)"
    using expired_listed [OF L, of "now w" "objects w"]
    by (fastforce simp: fun_eq_iff contents_collect_fold [OF L])
  ultimately show ?thesis by simp
qed

text \<open>
  The deletions of \<open>collect_garbage\<close> are unconditional: a deletion renewed by another
  device after the tombstone was read is removed together with its tree entry.
\<close>

definition no_event :: env_event where
  "no_event = \<lparr>ev_env = id, ev_elapsed = 0, ev_fault = Served\<rparr>"

lemma collect_garbage_races:
  fixes L old new x
  defines "i \<equiv> ts_file_id old"
  defines "put \<equiv> \<lambda>k b. btree_insert k (b, store_etag L b)"
  assumes L: "libs_ok L" and expired: "tombstone_expired L t old"
    and w: "objects w = put (tombstone_key L i) (json_of (json_tombstone L) old) []" "now w = t"
      "events w = [no_event, no_event, no_event\<lparr>ev_env :=
          put (tree_entry_key L i) (json_of (json_entry L) x)
          \<circ> put (tombstone_key L i) (json_of (json_tombstone L) new)\<rparr>]"
  shows "objects (snd (collect_garbage L w)) = []"
proof -
  have pre: "starts_with (tombstone_key L i) tombstone_prefix"
    by (simp add: tombstone_key_def tombstone_prefix_def starts_with_def)
  have get: "get_tombstone L i v = (Inr old, v\<lparr>events := evs\<rparr>)"
    if "objects v = put (tombstone_key L i) (json_of (json_tombstone L) old) []" "events v = no_event # evs" for v :: "'z world_scheme" and evs
    using that L
    by (simp add: get_tombstone_def read_json_def io_simps get_object_def serve_def no_event_def put_def
        mem_get_object_def libs_ok_codecs)
  show ?thesis
    using w pre expired L
    by (simp add: collect_garbage_def list_tombstones_def io_bind_apply io_try_apply io_return_apply io_get_apply
        list_objects_def serve_def no_event_def mem_list_objects_def mem_keys_def put_def utc_now_def
        List.map_filter_def collect_one_def get [unfolded no_event_def put_def] delete_object_def
        mem_delete_object_def btree_remove_def tombstone_key_roundtrip)
qed

end
