(* ===== verification/Durable_Commit.thy ===== *)
theory Durable_Commit
  imports Op_Search File_Tree
begin

text \<open>
  Commits that survive a crash: \<open>commit_durable\<close> and its searches for an earlier
  attempt (\<open>metadata/ops.rs\<close>), and the journal \<open>RemoteCommitReceipt\<close> they record every
  attempt in (\<open>fs_mutations/remote_commit.rs\<close>). The trait \<open>CommitJournal\<close> is the locale
  \<open>commit_journal\<close>; the receipt is its interpretation.
\<close>

section \<open>The journal's interface and the code that uses it\<close>

record 'j journal_ops =
  jo_attempts :: "'j \<Rightarrow> operation list core_result"
  jo_record_attempt :: "operation \<Rightarrow> 'j \<Rightarrow> unit core_result \<times> 'j"
  jo_record_committed :: "op_id \<Rightarrow> 'j \<Rightarrow> unit core_result \<times> 'j"
  jo_committed :: "'j \<Rightarrow> op_id option core_result"

record 'j durable = oplog +
  du_journal :: 'j

record durable_commit =
  dc_operation :: operation
  dc_superseded :: bool

definition journal_read ::
    "('j \<Rightarrow> 'a core_result) \<Rightarrow> (('j, 'z) durable_scheme, core_error, 'a) io" where
  "journal_read f = io_bind (io_get (\<lambda>s. f (du_journal s))) io_result"

definition journal_write ::
    "('j \<Rightarrow> unit core_result \<times> 'j) \<Rightarrow> (('j, 'z) durable_scheme, core_error, unit) io" where
  "journal_write f s = (case f (du_journal s) of (r, j) \<Rightarrow> (r, s\<lparr>du_journal := j\<rparr>))"

definition overtaken_message :: "libs \<Rightarrow> string \<Rightarrow> file_id \<Rightarrow> string" where
  "overtaken_message L other target =
     ''operation '' @ other @ '' on file '' @ uuid_text L target @ '' was committed after this change was prepared''"

definition unproven_message :: "libs \<Rightarrow> file_id \<Rightarrow> string \<Rightarrow> string" where
  "unproven_message L target reason =
     ''cannot prove whether an earlier attempt on file '' @ uuid_text L target @ '' was committed: '' @ reason"

text \<open>The branches of \<open>committed_attempt\<close> on the result of its search.\<close>

definition attempt_found ::
    "libs \<Rightarrow> 'j journal_ops \<Rightarrow> file_id \<Rightarrow> operation list \<Rightarrow> chain_search
      \<Rightarrow> (('j, 'z) durable_scheme, core_error, durable_commit option) io" where
  "attempt_found L J target attempts search =
     (case search of
        Found x later \<Rightarrow>
          io_bind (journal_write (jo_record_committed J (op_op_id x))) (\<lambda>_.
            io_return (Some \<lparr>dc_operation = x, dc_superseded = later\<rparr>))
      | Absent other \<Rightarrow>
          (case other of
             None \<Rightarrow> io_return None
           | Some i \<Rightarrow> io_throw (Conflict (overtaken_message L i target)))
      | Ambiguous reason \<Rightarrow>
          io_bind (journal_read (jo_committed J)) (\<lambda>confirmed.
            case option_bind confirmed (\<lambda>i. find (\<lambda>a. op_op_id a = i) attempts) of
              Some x \<Rightarrow> io_return (Some \<lparr>dc_operation = x, dc_superseded = True\<rparr>)
            | None \<Rightarrow> io_throw (Conflict (unproven_message L target reason))))"

definition committed_attempt ::
    "libs \<Rightarrow> 'j journal_ops \<Rightarrow> file_id \<Rightarrow> (('j, 'z) durable_scheme, core_error, durable_commit option) io" where
  "committed_attempt L J target =
     io_bind (journal_read (jo_attempts J)) (\<lambda>attempts.
       case attempts of
         [] \<Rightarrow> io_return None
       | first # _ \<Rightarrow>
           io_bind (io_bind (load_head_consistent L) (\<lambda>_.
               search_chain L target (\<lambda>x. \<exists>a \<in> set attempts. op_op_id a = op_op_id x)
                 (\<lambda>x. op_base_head first \<noteq> [] \<and> op_op_id x = op_base_head first)))
             (attempt_found L J target attempts))"

text \<open>\<open>to_value\<close> is \<open>serde_json::to_value\<close> of an operation's type and effects.\<close>

definition semantic_identity ::
    "(op_type \<times> effects \<Rightarrow> string + string) \<Rightarrow> op_type \<Rightarrow> effects \<Rightarrow> string core_result" where
  "semantic_identity to_value ty eff = (case to_value (ty, eff) of Inl m \<Rightarrow> Inl (Internal m) | Inr v \<Rightarrow> Inr v)"

definition committed_legacy ::
    "libs \<Rightarrow> (op_type \<times> effects \<Rightarrow> string + string) \<Rightarrow> file_id \<Rightarrow> op_type \<Rightarrow> effects \<Rightarrow> timestamp
      \<Rightarrow> ('z oplog_scheme, core_error, durable_commit option) io" where
  "committed_legacy L to_value target ty eff since =
     (case rfc3339_parse L since of
        Inl m \<Rightarrow> io_throw (Protocol (''intent time: '' @ m))
      | Inr since_time \<Rightarrow>
          io_bind (io_result (semantic_identity to_value ty eff)) (\<lambda>wanted.
          io_bind (io_get ol_device) (\<lambda>device.
          io_bind (load_head_consistent L) (\<lambda>_.
          io_bind (search_chain L target
              (\<lambda>x. op_device_id x = device \<and> op_target_file_id x = Some target
                 \<and> semantic_identity to_value (op_op_type x) (op_effects x) = Inr wanted)
              (\<lambda>x. op_device_id x = device
                 \<and> (case rfc3339_parse L (op_timestamp x) of Inl _ \<Rightarrow> False | Inr t \<Rightarrow> t < since_time)))
            (\<lambda>search. case search of
                Found x later \<Rightarrow> io_return (Some \<lparr>dc_operation = x, dc_superseded = later\<rparr>)
              | Absent _ \<Rightarrow> io_return None
              | Ambiguous reason \<Rightarrow> io_throw (Conflict (''cannot prove whether an earlier change of file ''
                  @ uuid_text L target @ '' was committed: '' @ reason)))))))"

text \<open>A new operation, recorded before anything of it is written.\<close>

definition new_attempt ::
    "libs \<Rightarrow> 'j journal_ops \<Rightarrow> file_id \<Rightarrow> op_type \<Rightarrow> preconditions \<Rightarrow> effects
      \<Rightarrow> (('j, 'z) durable_scheme, core_error, operation) io" where
  "new_attempt L J target ty pre eff =
     io_bind (next_operation L (Some target) ty pre eff) (\<lambda>x.
     io_bind (io_result (validate_operation x)) (\<lambda>_.
     io_bind (journal_write (jo_record_attempt J x)) (\<lambda>_. io_return x)))"

definition pending_or_new ::
    "libs \<Rightarrow> 'j journal_ops \<Rightarrow> file_id \<Rightarrow> op_type \<Rightarrow> preconditions \<Rightarrow> effects \<Rightarrow> operation option \<Rightarrow> string option
      \<Rightarrow> (('j, 'z) durable_scheme, core_error, operation) io" where
  "pending_or_new L J target ty pre eff pending base =
     (case pending of
        Some x \<Rightarrow> if op_base_head x = head_or_empty base then io_return x else new_attempt L J target ty pre eff
      | None \<Rightarrow> new_attempt L J target ty pre eff)"

definition confirm :: "'j journal_ops \<Rightarrow> operation \<Rightarrow> (('j, 'z) durable_scheme, core_error, durable_commit) io" where
  "confirm J x =
     io_bind (journal_write (jo_record_committed J (op_op_id x))) (\<lambda>_.
       io_return \<lparr>dc_operation = x, dc_superseded = False\<rparr>)"

text \<open>The \<open>for\<close> loop of \<open>commit_durable\<close>, with the number of attempts left.\<close>

primrec durable_loop ::
    "libs \<Rightarrow> 'j journal_ops \<Rightarrow> file_id \<Rightarrow> op_type \<Rightarrow> preconditions \<Rightarrow> effects \<Rightarrow> nat \<Rightarrow> operation option
      \<Rightarrow> (('j, 'z) durable_scheme, core_error, durable_commit) io" where
  "durable_loop L J target ty pre eff 0 pending = io_throw (S3 busy_message)"
| "durable_loop L J target ty pre eff (Suc n) pending =
     io_bind (io_get ol_head) (\<lambda>base.
     io_bind (pending_or_new L J target ty pre eff pending base) (\<lambda>x.
     io_bind (write_operation L x) (\<lambda>_.
     io_bind (advance_head L (op_op_id x)) (\<lambda>advanced.
       if advanced then confirm J x
       else
         io_bind (io_bind (load_head_consistent L) (\<lambda>_. operations_since L base (op_op_id x))) (\<lambda>c.
           case c of
             ContainsOwn \<Rightarrow> confirm J x
           | Committed concurrent \<Rightarrow>
               io_bind (discard_orphan_operation L (op_op_id x)) (\<lambda>_.
                 case find (\<lambda>y. op_target_file_id y = Some target) concurrent of
                   Some y \<Rightarrow> io_throw (Conflict (concurrent_message L y target))
                 | None \<Rightarrow> durable_loop L J target ty pre eff n None)
           | Unverifiable reason \<Rightarrow> io_throw (Conflict (unverifiable_message reason)))))))"

definition commit_durable ::
    "libs \<Rightarrow> 'j journal_ops \<Rightarrow> file_id \<Rightarrow> op_type \<Rightarrow> preconditions \<Rightarrow> effects
      \<Rightarrow> (('j, 'z) durable_scheme, core_error, durable_commit) io" where
  "commit_durable L J target ty pre eff =
     io_bind (committed_attempt L J target) (\<lambda>prior.
       case prior of
         Some c \<Rightarrow> io_return c
       | None \<Rightarrow>
           io_bind (journal_read (jo_attempts J)) (\<lambda>attempts.
           io_bind (io_get ol_loaded) (\<lambda>loaded.
           io_bind (if loaded then io_return () else load_head_consistent L) (\<lambda>_.
             durable_loop L J target ty pre eff max_commit_attempts
               (if attempts = [] then None else Some (last attempts))))))"

section \<open>RemoteCommitReceipt\<close>

definition receipt_version :: u32 where
  "receipt_version = 1"

record receipt =
  rc_version :: u32
  rc_workspace_id :: uuid
  rc_request_id :: uuid
  rc_payload_hash :: string
  rc_initial_base_head :: "string option"
  rc_attempts :: "operation list"
  rc_committed_op_id :: "string option"
  rc_observed_deletion :: "tombstone_version option"

text \<open>The fields of \<open>MutationIntent\<close> a receipt belongs to.\<close>

record request_identity =
  ri_workspace_id :: uuid
  ri_request_id :: uuid
  ri_payload_hash :: string

text \<open>
  \<open>replace_json\<close> writes a temporary file, renames it and syncs the directory: it fails
  before the rename with the old file in place, or after it with the new one.
\<close>

datatype disk_fault = Stored | Not_Written core_error | Not_Synced core_error

record remote_receipt =
  rr_receipt :: receipt
  rr_file :: "string option"
  rr_disk :: "disk_fault list"

definition fresh_receipt :: "request_identity \<Rightarrow> receipt" where
  "fresh_receipt i =
     \<lparr>rc_version = receipt_version, rc_workspace_id = ri_workspace_id i, rc_request_id = ri_request_id i,
      rc_payload_hash = ri_payload_hash i, rc_initial_base_head = None, rc_attempts = [],
      rc_committed_op_id = None, rc_observed_deletion = None\<rparr>"

definition receipt_open ::
    "receipt codec \<Rightarrow> string option core_result \<Rightarrow> disk_fault list \<Rightarrow> request_identity \<Rightarrow> remote_receipt core_result"
  where
  "receipt_open C reading disk i =
     (case reading of
        Inl e \<Rightarrow> Inl e
      | Inr None \<Rightarrow> Inr \<lparr>rr_receipt = fresh_receipt i, rr_file = None, rr_disk = disk\<rparr>
      | Inr (Some bytes) \<Rightarrow>
          (case decode C bytes of
             Inl m \<Rightarrow> Inl (Protocol (''Invalid remote commit receipt: '' @ m))
           | Inr r \<Rightarrow>
               if rc_version r \<noteq> receipt_version then Inl (Protocol ''Unsupported remote commit receipt version'')
               else if rc_workspace_id r \<noteq> ri_workspace_id i \<or> rc_request_id r \<noteq> ri_request_id i
                  \<or> rc_payload_hash r \<noteq> ri_payload_hash i
               then Inl (Protocol ''Remote commit receipt belongs to another request'')
               else Inr \<lparr>rr_receipt = r, rr_file = Some bytes, rr_disk = disk\<rparr>))"

definition receipt_update ::
    "receipt codec \<Rightarrow> (receipt \<Rightarrow> receipt) \<Rightarrow> remote_receipt \<Rightarrow> unit core_result \<times> remote_receipt" where
  "receipt_update C change s =
     (let r = change (rr_receipt s) in
      case encode C r of
        Inl m \<Rightarrow> (Inl (Internal m), s)
      | Inr bytes \<Rightarrow>
          (case rr_disk s of
             [] \<Rightarrow> (Inr (), s\<lparr>rr_receipt := r, rr_file := Some bytes\<rparr>)
           | Stored # ds \<Rightarrow> (Inr (), s\<lparr>rr_receipt := r, rr_file := Some bytes, rr_disk := ds\<rparr>)
           | Not_Written e # ds \<Rightarrow> (Inl e, s\<lparr>rr_disk := ds\<rparr>)
           | Not_Synced e # ds \<Rightarrow> (Inl e, s\<lparr>rr_file := Some bytes, rr_disk := ds\<rparr>)))"

definition receipt_attempts :: "remote_receipt \<Rightarrow> operation list core_result" where
  "receipt_attempts s = Inr (rc_attempts (rr_receipt s))"

definition receipt_record_attempt ::
    "receipt codec \<Rightarrow> operation \<Rightarrow> remote_receipt \<Rightarrow> unit core_result \<times> remote_receipt" where
  "receipt_record_attempt C x s =
     (if \<exists>a \<in> set (rc_attempts (rr_receipt s)). op_op_id a = op_op_id x then (Inr (), s)
      else receipt_update C (\<lambda>r. r\<lparr>
          rc_initial_base_head := Some (case rc_initial_base_head r of None \<Rightarrow> op_base_head x | Some b \<Rightarrow> b),
          rc_attempts := rc_attempts r @ [x]\<rparr>) s)"

definition receipt_record_committed ::
    "receipt codec \<Rightarrow> op_id \<Rightarrow> remote_receipt \<Rightarrow> unit core_result \<times> remote_receipt" where
  "receipt_record_committed C i s =
     (case rc_committed_op_id (rr_receipt s) of
        Some known \<Rightarrow>
          if known = i then (Inr (), s)
          else (Inl (Protocol (''request already committed operation '' @ known @ '', not '' @ i)), s)
      | None \<Rightarrow> receipt_update C (\<lambda>r. r\<lparr>rc_committed_op_id := Some i\<rparr>) s)"

definition receipt_committed :: "remote_receipt \<Rightarrow> op_id option core_result" where
  "receipt_committed s = Inr (rc_committed_op_id (rr_receipt s))"

definition receipt_observed_deletion :: "remote_receipt \<Rightarrow> tombstone_version option core_result" where
  "receipt_observed_deletion s = Inr (rc_observed_deletion (rr_receipt s))"

definition receipt_record_observed_deletion ::
    "receipt codec \<Rightarrow> tombstone_version \<Rightarrow> remote_receipt \<Rightarrow> unit core_result \<times> remote_receipt" where
  "receipt_record_observed_deletion C t s =
     (if rc_observed_deletion (rr_receipt s) \<noteq> None then (Inr (), s)
      else receipt_update C (\<lambda>r. r\<lparr>rc_observed_deletion := Some t\<rparr>) s)"

definition receipt_journal :: "receipt codec \<Rightarrow> remote_receipt journal_ops" where
  "receipt_journal C =
     \<lparr>jo_attempts = receipt_attempts, jo_record_attempt = receipt_record_attempt C,
      jo_record_committed = receipt_record_committed C, jo_committed = receipt_committed\<rparr>"

end
