(* ===== verification/Durable_Safety.thy ===== *)
theory Durable_Safety
  imports Durable_Commit
begin

text \<open>
  A durable request is committed at most once, whatever its runs meet: lost replies,
  refused requests, races with other devices, failing journal writes and restarts.
  \<open>request_ok\<close> is the invariant between runs; \<open>commit_journal\<close> is what it needs of a
  journal: what was recorded before an error may or may not be on disk, nothing else.
\<close>

section \<open>The contract of a journal\<close>

text \<open>
  The view of a journal: what it holds in memory, and the set of what it holds in
  memory or what a reopened journal may hold.
\<close>

record 'j journal_view =
  jv_recorded :: "'j \<Rightarrow> operation list"
  jv_decided :: "'j \<Rightarrow> op_id option"
  jv_views :: "'j \<Rightarrow> (operation list \<times> op_id option) set"
  jv_ok :: "'j \<Rightarrow> bool"

locale commit_journal =
  fixes J :: "'j journal_ops" and V :: "'j journal_view"
  assumes view_law: "jv_ok V j \<Longrightarrow> (jv_recorded V j, jv_decided V j) \<in> jv_views V j"
    and attempts_law: "jv_ok V j \<Longrightarrow> jo_attempts J j = Inr (jv_recorded V j)"
    and committed_law: "jv_ok V j \<Longrightarrow> jo_committed J j = Inr (jv_decided V j)"
    and record_attempt_law:
      "jv_ok V j \<Longrightarrow> jo_record_attempt J x j = (r, j') \<Longrightarrow> op_op_id x \<notin> op_op_id ` set (jv_recorded V j) \<Longrightarrow>
        jv_ok V j' \<and> jv_decided V j' = jv_decided V j
        \<and> (case r of
             Inl _ \<Rightarrow> jv_recorded V j' = jv_recorded V j
               \<and> jv_views V j' \<subseteq> insert (jv_recorded V j @ [x], jv_decided V j) (jv_views V j)
           | Inr _ \<Rightarrow> jv_recorded V j' = jv_recorded V j @ [x]
               \<and> jv_views V j' = {(jv_recorded V j @ [x], jv_decided V j)})"
    and record_committed_law:
      "jv_ok V j \<Longrightarrow> jo_record_committed J i j = (r, j') \<Longrightarrow>
        jv_ok V j' \<and> jv_recorded V j' = jv_recorded V j
        \<and> jv_views V j' \<subseteq> insert (jv_recorded V j, Some i) (jv_views V j)
        \<and> (r = Inr () \<longrightarrow> jv_decided V j' = Some i)"

section \<open>The invariant of a request\<close>

definition request_of :: "file_id \<Rightarrow> op_type \<Rightarrow> effects \<Rightarrow> operation \<Rightarrow> bool" where
  "request_of f ty eff x \<longleftrightarrow> op_target_file_id x = Some f \<and> op_op_type x = ty \<and> op_effects x = eff"

text \<open>
  A request as the invariant knows it: what its operations look like, and the ids of the
  operations of this device that were committed before it.
\<close>

type_synonym request_spec = "(operation \<Rightarrow> bool) \<times> op_id set"

text \<open>
  \<open>based A ys\<close>: the first attempt was based at \<open>floor\<close>, a former state of the history
  \<open>ys\<close>, and every attempt at a state from \<open>floor\<close> on.
\<close>

definition based :: "operation list \<Rightarrow> operation list \<Rightarrow> bool" where
  "based A ys \<longleftrightarrow> A = [] \<or>
     (\<exists>bottom. suffix bottom ys \<and> op_base_head (hd A) = head_or_empty (head_of bottom)
       \<and> (\<forall>a \<in> set A. \<exists>vs. suffix vs ys \<and> suffix bottom vs \<and> op_base_head a = head_or_empty (head_of vs)))"

definition commits_of :: "operation list \<Rightarrow> operation list \<Rightarrow> operation list" where
  "commits_of A ys = filter (\<lambda>y. op_op_id y \<in> op_op_id ` set A) ys"

definition tracked ::
    "libs \<Rightarrow> device_id \<Rightarrow> request_spec \<Rightarrow> (op_id \<Rightarrow> string option) \<Rightarrow> operation list
      \<Rightarrow> operation list \<times> op_id option \<Rightarrow> bool" where
  "tracked L d q S ys = (\<lambda>(A, dec).
     (\<forall>a \<in> set A. is_own L d (op_op_id a) \<and> fst q a \<and> validate_operation a = Inr () \<and> head_text (op_op_id a)
        \<and> (S (op_op_id a) = None \<or> S (op_op_id a) = Some (json_of (json_operation L) a)))
     \<and> distinct (map op_op_id A) \<and> based A ys \<and> length (commits_of A ys) \<le> 1
     \<and> (\<forall>y \<in> set ys. is_own L d (op_op_id y) \<longrightarrow> op_op_id y \<in> snd q \<union> op_op_id ` set A)
     \<and> snd q \<subseteq> op_op_id ` set ys \<and> snd q \<inter> op_op_id ` set A = {}
     \<and> (\<forall>i. dec = Some i \<longrightarrow> i \<in> op_op_id ` set A \<and> i \<in> op_op_id ` set ys))"

definition journal_tracked ::
    "libs \<Rightarrow> 'j journal_view \<Rightarrow> device_id \<Rightarrow> request_spec \<Rightarrow> 'j \<Rightarrow> (op_id \<Rightarrow> string option)
      \<Rightarrow> operation list \<Rightarrow> bool" where
  "journal_tracked L V d q j S ys \<longleftrightarrow>
     (\<forall>v \<in> jv_views V j. tracked L d q S ys v \<and> set (jv_recorded V j) \<subseteq> set (fst v)
        \<and> (\<forall>y \<in> set (fst v) - set (jv_recorded V j).
              S (op_op_id y) = None \<and> op_op_id y \<notin> op_op_id ` set (jv_recorded V j)))"

definition taken :: "'j journal_view \<Rightarrow> 'j \<Rightarrow> (op_id \<Rightarrow> string option) \<Rightarrow> op_id \<Rightarrow> string option" where
  "taken V j S i = (if \<exists>v \<in> jv_views V j. i \<in> op_op_id ` set (fst v) then Some [] else S i)"

definition own_objects :: "objs \<Rightarrow> op_id \<Rightarrow> string option" where
  "own_objects m = (\<lambda>i. contents m (op_key i))"

definition request_ok ::
    "libs \<Rightarrow> 'j journal_view \<Rightarrow> request_spec \<Rightarrow> nat \<Rightarrow> operation list \<Rightarrow> ('j, 'z) durable_scheme \<Rightarrow> bool" where
  "request_ok L V q n K s \<longleftrightarrow>
     jv_ok V (du_journal s) \<and> protocol_env L (is_own L (ol_device s)) s \<and> committed L (objects s) K
     \<and> journal_tracked L V (ol_device s) q (du_journal s) (own_objects (objects s)) K
     \<and> fresh_ids L (ol_device s) (taken V (du_journal s) (own_objects (objects s))) (draws s) n"

lemma basedI:
  "suffix bottom ys \<Longrightarrow> op_base_head (hd A) = head_or_empty (head_of bottom) \<Longrightarrow>
   (\<And>a. a \<in> set A \<Longrightarrow> \<exists>vs. suffix vs ys \<and> suffix bottom vs \<and> op_base_head a = head_or_empty (head_of vs))
   \<Longrightarrow> based A ys"
  by (auto simp: based_def)

lemma based_later: "based A ys \<Longrightarrow> based A (zs @ ys)"
  unfolding based_def by (meson suffix_appendI)

lemma based_snoc:
  assumes "based A ys" "op_base_head x = head_or_empty (head_of ys)"
  shows "based (A @ [x]) ys"
proof (cases "A = []")
  case True
  then show ?thesis using assms(2) by (intro basedI [of ys]) auto
next
  case False
  then obtain bottom where b: "suffix bottom ys" "op_base_head (hd A) = head_or_empty (head_of bottom)"
    "\<forall>a \<in> set A. \<exists>vs. suffix vs ys \<and> suffix bottom vs \<and> op_base_head a = head_or_empty (head_of vs)"
    using assms(1) by (auto simp: based_def)
  show ?thesis
    by (rule basedI [OF b(1)]) (use b assms(2) False in auto)
qed

lemma commits_of_foreign:
  "\<forall>z \<in> set zs. op_op_id z \<notin> op_op_id ` set A \<Longrightarrow> commits_of A (zs @ ys) = commits_of A ys"
  by (auto simp: commits_of_def filter_empty_conv)

lemma tracked_later:
  assumes "tracked L d q S ys v" "\<forall>z \<in> set zs. \<not> is_own L d (op_op_id z)"
    and "\<And>i. is_own L d i \<Longrightarrow> S' i = S i"
  shows "tracked L d q S' (zs @ ys) v"
proof -
  obtain A dec where v: "v = (A, dec)" by fastforce
  have own: "\<forall>a \<in> set A. is_own L d (op_op_id a)" using assms(1) v by (simp add: tracked_def)
  then have "\<forall>z \<in> set zs. op_op_id z \<notin> op_op_id ` set A" using assms(2) by auto
  then have "commits_of A (zs @ ys) = commits_of A ys" by (rule commits_of_foreign)
  then show ?thesis using assms own by (auto simp: v tracked_def based_later)
qed

lemma journal_tracked_later:
  assumes "journal_tracked L V d q j S ys" "\<forall>z \<in> set zs. \<not> is_own L d (op_op_id z)"
    and "\<And>i. is_own L d i \<Longrightarrow> S' i = S i"
  shows "journal_tracked L V d q j S' (zs @ ys)"
  unfolding journal_tracked_def
proof (intro ballI conjI)
  fix v assume v: "v \<in> jv_views V j"
  then have t: "tracked L d q S ys v" using assms(1) by (simp add: journal_tracked_def)
  then show "tracked L d q S' (zs @ ys) v" using assms(2,3) by (rule tracked_later)
  fix y assume y: "y \<in> set (fst v) - set (jv_recorded V j)"
  then have "is_own L d (op_op_id y)" using t by (auto simp: tracked_def)
  then show "S' (op_op_id y) = None" "op_op_id y \<notin> op_op_id ` set (jv_recorded V j)"
    using assms(1,3) v y by (auto simp: journal_tracked_def)
next
  fix v assume "v \<in> jv_views V j"
  then show "set (jv_recorded V j) \<subseteq> set (fst v)" using assms(1) by (simp add: journal_tracked_def)
qed

lemma fresh_ids_cong:
  assumes "fresh_ids L d S k n" "\<And>i. is_own L d i \<Longrightarrow> S' i = S i"
  shows "fresh_ids L d S' k n"
  using assms by (simp add: fresh_ids_def)

lemma fresh_ids_le: "fresh_ids L d S k n \<Longrightarrow> m \<le> n \<Longrightarrow> fresh_ids L d S k m"
  unfolding fresh_ids_def
  by (auto simp: distinct_map intro: inj_on_subset)

section \<open>Within a run\<close>

text \<open>
  \<open>stands\<close>: the bucket is in a phase over the history \<open>ys\<close>, \<open>S\<close> says which operation objects
  of this device exist, the journal agrees with both, and the next \<open>n\<close> ids are free.
  \<open>idle\<close>: none of the recorded attempts is committed.
\<close>

definition stands ::
    "libs \<Rightarrow> 'j journal_view \<Rightarrow> request_spec \<Rightarrow> nat \<Rightarrow> (op_id \<Rightarrow> string option) \<Rightarrow> operation list
      \<Rightarrow> ('j, 'z) durable_scheme \<Rightarrow> bool" where
  "stands L V q n S ys s \<longleftrightarrow>
     settled L (is_own L (ol_device s)) (phase L (is_own L (ol_device s)) ys S) s \<and> jv_ok V (du_journal s)
     \<and> journal_tracked L V (ol_device s) q (du_journal s) S ys
     \<and> fresh_ids L (ol_device s) (taken V (du_journal s) S) (draws s) n"

definition idle :: "'j journal_view \<Rightarrow> ('j, 'z) durable_scheme \<Rightarrow> operation list \<Rightarrow> bool" where
  "idle V s ys \<longleftrightarrow> (\<forall>v \<in> jv_views V (du_journal s). commits_of (fst v) ys = [])"

definition run_ok ::
    "libs \<Rightarrow> 'j journal_view \<Rightarrow> request_spec \<Rightarrow> nat \<Rightarrow> operation list \<Rightarrow> durable_commit core_result
      \<Rightarrow> ('j, 'z) durable_scheme \<Rightarrow> bool" where
  "run_ok L V q n ys r s \<longleftrightarrow> (\<exists>K. request_ok L V q n K s \<and> suffix ys K
     \<and> (\<forall>c. r = Inr c \<longrightarrow> dc_operation c \<in> set K \<and> dc_operation c \<in> set (jv_recorded V (du_journal s))))"

lemma run_ok_later: "run_ok L V q n (zs @ ys) r s \<Longrightarrow> run_ok L V q n ys r s"
  unfolding run_ok_def by (meson suffix_appendD)

lemma run_ok_less: "run_ok L V q n ys r s \<Longrightarrow> m \<le> n \<Longrightarrow> run_ok L V q m ys r s"
  unfolding run_ok_def request_ok_def using fresh_ids_le by blast

lemma stands_start: "request_ok L V q n K s \<Longrightarrow> stands L V q n (own_objects (objects s)) K s"
  using closed_phase
  by (auto simp: request_ok_def stands_def settled_def phase_def own_objects_def intro!: exI [of _ "[] :: operation list"])

text \<open>A run may end anywhere: the history may have grown by foreign operations since.\<close>

lemma stands_end:
  assumes "stands L V q n S ys s"
    and "\<And>c. r = Inr c \<Longrightarrow> dc_operation c \<in> set ys \<and> dc_operation c \<in> set (jv_recorded V (du_journal s))"
  shows "run_ok L V q n ys r s"
proof -
  let ?mine = "is_own L (ol_device s)"
  have s: "settled L ?mine (phase L ?mine ys S) s" using assms(1) by (simp add: stands_def)
  from settled_bucket [OF s] obtain zs where zs: "committed L (objects s) (zs @ ys)"
    "\<forall>z \<in> set zs. \<not> ?mine (op_op_id z)" "\<And>i. ?mine i \<Longrightarrow> contents (objects s) (op_key i) = S i"
    by (rule phaseD) blast
  have own: "own_objects (objects s) i = S i" if "?mine i" for i
    using zs(3) [OF that] by (simp add: own_objects_def)
  have parts: "jv_ok V (du_journal s)" "journal_tracked L V (ol_device s) q (du_journal s) S ys"
    "fresh_ids L (ol_device s) (taken V (du_journal s) S) (draws s) n"
    using assms(1) by (simp_all only: stands_def)
  have "journal_tracked L V (ol_device s) q (du_journal s) (own_objects (objects s)) (zs @ ys)"
    by (rule journal_tracked_later [OF parts(2) zs(2) own])
  moreover have "fresh_ids L (ol_device s) (taken V (du_journal s) (own_objects (objects s))) (draws s) n"
    by (rule fresh_ids_cong [OF parts(3)]) (simp add: taken_def own)
  ultimately have "request_ok L V q n (zs @ ys) s"
    unfolding request_ok_def using parts(1) zs(1) settled_env [OF s] by blast
  moreover have "suffix ys (zs @ ys)" by (auto simp: suffix_def)
  ultimately show ?thesis using assms(2) unfolding run_ok_def by (intro exI [of _ "zs @ ys"]) auto
qed

lemma stands_error: "stands L V q n S ys s \<Longrightarrow> run_ok L V q n ys (Inl e) s"
  by (rule stands_end) simp_all

lemma stands_less: "stands L V q n S ys s \<Longrightarrow> m \<le> n \<Longrightarrow> stands L V q m S ys s"
  by (auto simp: stands_def intro: fresh_ids_le)

text \<open>Steps that only read, and steps after which foreign operations are known.\<close>

lemma stands_moved:
  assumes "stands L V q n S ys s" "same_writer s t" "du_journal t = du_journal s"
    and "settled L (is_own L (ol_device s)) (phase L (is_own L (ol_device s)) (zs @ ys) S) t"
    and "\<forall>z \<in> set zs. \<not> is_own L (ol_device s) (op_op_id z)"
  shows "stands L V q n S (zs @ ys) t"
  using assms journal_tracked_later [of L V "ol_device s" q "du_journal s" S ys zs S]
  by (auto simp: stands_def same_writer_def)

lemma stands_read:
  assumes "stands L V q n S ys s" "same_writer s t" "du_journal t = du_journal s"
    and "settled L (is_own L (ol_device s)) (phase L (is_own L (ol_device s)) ys S) t"
  shows "stands L V q n S ys t"
  using stands_moved [OF assms(1-3), of "[]"] assms(4) by simp

lemma idle_moved:
  assumes "idle V s ys" "du_journal t = du_journal s" "journal_tracked L V d q (du_journal s) S ys"
    and "\<forall>z \<in> set zs. \<not> is_own L d (op_op_id z)"
  shows "idle V t (zs @ ys)"
  unfolding idle_def
proof
  fix v assume v: "v \<in> jv_views V (du_journal t)"
  then have "\<forall>a \<in> set (fst v). is_own L d (op_op_id a)"
    using assms(2,3) by (cases v) (auto simp: journal_tracked_def tracked_def)
  then have "\<forall>z \<in> set zs. op_op_id z \<notin> op_op_id ` set (fst v)" using assms(4) by auto
  then show "commits_of (fst v) (zs @ ys) = []"
    using assms(1,2) v by (simp add: commits_of_foreign idle_def)
qed

text \<open>The conditional write of the head: at most one recorded attempt is committed by it.\<close>

lemma stands_pushed:
  assumes s: "stands L V q n S ys s" and idle: "idle V s ys" and x: "x \<in> set (jv_recorded V (du_journal s))"
    and t: "same_writer s t" "du_journal t = du_journal s"
      "settled L (is_own L (ol_device s)) (phase L (is_own L (ol_device s)) (x # ys) S) t"
  shows "stands L V q n S (x # ys) t"
proof -
  have "tracked L (ol_device s) q S (x # ys) v" if "v \<in> jv_views V (du_journal s)" for v
  proof -
    have "tracked L (ol_device s) q S ys v" "commits_of (fst v) ys = []" "x \<in> set (fst v)"
      using that s idle x by (auto simp: stands_def journal_tracked_def idle_def)
    moreover have "based (fst v) (x # ys)" if "based (fst v) ys"
      using based_later [OF that, of "[x]"] by simp
    ultimately show ?thesis by (cases v) (auto simp: tracked_def commits_of_def)
  qed
  then show ?thesis
    using s t by (auto simp: stands_def journal_tracked_def same_writer_def)
qed

text \<open>Writing or discarding the object of a recorded attempt.\<close>

lemma recorded_same:
  assumes "journal_tracked L V d q j S ys" "(jv_recorded V j, dec) \<in> jv_views V j"
    and "x \<in> set (jv_recorded V j)" "w \<in> jv_views V j" "a \<in> set (fst w)" "op_op_id a = op_op_id x"
  shows "a = x"
proof -
  have "a \<in> set (jv_recorded V j)"
    using assms(1,3-6) unfolding journal_tracked_def by (metis DiffI image_eqI)
  moreover have "distinct (map op_op_id (jv_recorded V j))"
    using assms(1,2) by (auto simp: journal_tracked_def tracked_def)
  ultimately show ?thesis using assms(3,6) by (simp add: distinct_map inj_on_def)
qed

lemma tracked_member:
  assumes "tracked L d q S ys v" "a \<in> set (fst v)"
  shows "is_own L d (op_op_id a)" "fst q a" "validate_operation a = Inr ()" "head_text (op_op_id a)"
    "S (op_op_id a) = None \<or> S (op_op_id a) = Some (json_of (json_operation L) a)"
  using assms by (cases v; auto simp: tracked_def)+

lemma tracked_objects:
  assumes "tracked L d q S ys v"
    and "\<And>a. a \<in> set (fst v) \<Longrightarrow> S' (op_op_id a) = None \<or> S' (op_op_id a) = Some (json_of (json_operation L) a)"
  shows "tracked L d q S' ys v"
  using assms by (cases v) (simp add: tracked_def)

lemma stands_put:
  assumes s: "stands L V q n S ys s" and x: "x \<in> set (jv_recorded V (du_journal s))"
      "(jv_recorded V (du_journal s), dec) \<in> jv_views V (du_journal s)"
    and v: "v = None \<or> v = Some (json_of (json_operation L) x)"
    and t: "same_writer s t" "du_journal t = du_journal s"
      "settled L (is_own L (ol_device s)) (phase L (is_own L (ol_device s)) ys (S(op_op_id x := v))) t"
  shows "stands L V q n (S(op_op_id x := v)) ys t"
proof -
  let ?j = "du_journal s" and ?d = "ol_device s"
  have tr: "journal_tracked L V ?d q ?j S ys" using s by (simp add: stands_def)
  have eq: "a = x" if "w \<in> jv_views V ?j" "a \<in> set (fst w)" "op_op_id a = op_op_id x" for w a
    using recorded_same [OF tr x(2,1) that] .
  have "tracked L ?d q (S(op_op_id x := v)) ys w" if w: "w \<in> jv_views V ?j" for w
  proof (rule tracked_objects)
    show tw: "tracked L ?d q S ys w" using tr w by (simp add: journal_tracked_def)
    fix a assume a: "a \<in> set (fst w)"
    from tracked_member(5) [OF tw this]
    show "(S(op_op_id x := v)) (op_op_id a) = None
        \<or> (S(op_op_id x := v)) (op_op_id a) = Some (json_of (json_operation L) a)"
      using v eq [OF w \<open>a \<in> set (fst w)\<close>] by auto
  qed
  moreover have "(S(op_op_id x := v)) (op_op_id y) = None"
    if "w \<in> jv_views V ?j" "y \<in> set (fst w) - set (jv_recorded V ?j)" for w y
    using tr that x(1) eq [OF that(1), of y] by (auto simp: journal_tracked_def)
  ultimately have "journal_tracked L V ?d q ?j (S(op_op_id x := v)) ys"
    using tr by (auto simp: journal_tracked_def)
  moreover have "taken V ?j (S(op_op_id x := v)) = taken V ?j S"
    using x by (fastforce simp: taken_def)
  ultimately show ?thesis using s t by (simp add: stands_def same_writer_def)
qed

section \<open>Actions that leave a field alone\<close>

text \<open>Fields that neither a request nor a new head touches.\<close>

definition apart :: "('z oplog_scheme \<Rightarrow> 'b) \<Rightarrow> bool" where
  "apart g \<longleftrightarrow> (\<forall>s m evs t. g (s\<lparr>objects := m, events := evs, now := t\<rparr>) = g s)
     \<and> (\<forall>s h e l. g (s\<lparr>ol_head := h, ol_etag := e, ol_loaded := l\<rparr>) = g s)"

lemma apart_fields [leaves_intros]: "apart du_journal" "apart ol_device"
  by (simp_all add: apart_def)

lemma leaves_world: "apart g \<Longrightarrow> world_only m \<Longrightarrow> leaves g m"
  unfolding leaves_def world_only_def same_log_def apart_def by metis

lemma leaves_head [leaves_intros]:
  "apart g \<Longrightarrow> leaves g (io_modify (\<lambda>s. s\<lparr>ol_head := h, ol_etag := e, ol_loaded := l\<rparr>))"
  by (rule leaves_modify) (simp add: apart_def)

lemma leaves_requests [leaves_intros]:
  assumes "apart g"
  shows "leaves g (put_if_not_exists L k b)" "leaves g (put_if_match L k b e)" "leaves g (get_object k)"
    "leaves g (head_object k)" "leaves g (delete_object k)" "leaves g (read_operation L i)"
    "leaves g (write_operation L x)" "leaves g (discard_orphan_operation L i)"
  unfolding discard_orphan_operation_def by (intro leaves_world [OF assms] world_only_intros)+

lemma leaves_load [leaves_intros]:
  assumes "apart g"
  shows "leaves g (load_head_consistent L)"
proof -
  have h: "leaves g (load_head L)"
    unfolding load_head_def load_present_def store_head_def Let_def
    by (intro leaves_intros assms)
  have "leaves g (load_head_loop L n)" for n
    by (induction n) (auto intro!: leaves_intros h)
  then show ?thesis by (simp add: load_head_consistent_def)
qed

lemma leaves_advance [leaves_intros]: "apart g \<Longrightarrow> leaves g (advance_head L i)"
  unfolding advance_head_def
  by (intro leaves_intros) (auto intro!: leaves_intros split: prod.split option.split)

lemma world_only_since_loop: "world_only (since_loop L base own n cursor acc)"
  by (induction n arbitrary: cursor acc) (auto intro!: world_only_intros split: sum.split)

lemma world_only_search_loop: "world_only (search_loop L target own floor n cursor foreign)"
  by (induction n arbitrary: cursor foreign) (auto intro!: world_only_intros simp: Let_def split: sum.split)

lemma leaves_walks [leaves_intros]:
  assumes "apart g"
  shows "leaves g (operations_since L base own)" "leaves g (search_chain L target own' floor)"
  unfolding operations_since_def search_chain_def
  by (intro leaves_intros leaves_world [OF assms] world_only_since_loop world_only_search_loop)+

lemma leaves_journal_write [leaves_intros]: "leaves ol_device (journal_write f)"
  by (auto simp: leaves_def journal_write_def split: prod.splits)

lemma leaves_next_operation [leaves_intros]: "leaves ol_device (next_operation L target ty pre eff)"
  by (auto simp: leaves_def next_operation_run)

lemma leaves_durable_loop [leaves_intros]: "leaves ol_device (durable_loop L J f ty pre eff n pending)"
proof (induction n arbitrary: pending)
  case (Suc n)
  show ?case
    unfolding durable_loop.simps pending_or_new_def new_attempt_def confirm_def
    by (intro leaves_intros) (auto intro!: leaves_intros Suc split: concurrent_ops.split option.split)
qed (auto intro: leaves_intros)

lemma leaves_commit_durable: "leaves ol_device (commit_durable L J f ty pre eff)"
  unfolding commit_durable_def committed_attempt_def attempt_found_def journal_read_def
  by (intro leaves_intros) (auto intro!: leaves_intros split: list.split chain_search.split option.split)

section \<open>The steps of a run\<close>

lemma fresh_ids_weaken:
  "fresh_ids L d S k n \<Longrightarrow> (\<And>i. S i = None \<Longrightarrow> S' i = None) \<Longrightarrow> fresh_ids L d S' k n"
  by (simp add: fresh_ids_def)

text \<open>Drawing an id: the others stay free, whatever becomes of this one.\<close>

lemma fresh_ids_drawn:
  assumes "libs_ok L" "fresh_ids L d S k (Suc n)"
    and "\<And>i. i \<noteq> new_op_id L d c (uuid_now_v7 L k) \<Longrightarrow> S i = None \<Longrightarrow> S' i = None"
  shows "fresh_ids L d S' (Suc k) n"
proof -
  let ?i = "new_op_id L d c (uuid_now_v7 L k)"
  have "fresh_ids L d (S(?i := S' ?i)) (Suc k) n"
    by (rule fresh_ids_Suc(2) [OF assms(1,2), of c]) simp
  then show ?thesis by (rule fresh_ids_weaken) (use assms(3) in \<open>auto split: if_splits\<close>)
qed

lemma commits_of_snoc: "op_op_id x \<notin> op_op_id ` set ys \<Longrightarrow> commits_of (A @ [x]) ys = commits_of A ys"
  by (induction ys) (auto simp: commits_of_def)

lemma tracked_snoc:
  assumes "tracked L d q S ys (A, dec)" "is_own L d (op_op_id x)" "fst q x" "validate_operation x = Inr ()"
    and "head_text (op_op_id x)" "S (op_op_id x) = None" "op_op_id x \<notin> op_op_id ` set A"
    and "op_base_head x = head_or_empty (head_of ys)" "op_op_id x \<notin> op_op_id ` set ys"
  shows "tracked L d q S ys (A @ [x], dec)"
proof -
  have "commits_of (A @ [x]) ys = commits_of A ys"
    by (rule commits_of_snoc [OF assms(9)])
  moreover have "based (A @ [x]) ys" using assms(1,8) by (intro based_snoc) (auto simp: tracked_def)
  ultimately show ?thesis using assms by (auto simp: tracked_def)
qed

definition only_journal :: "('j, 'z) durable_scheme \<Rightarrow> ('j, 'z) durable_scheme \<Rightarrow> bool" where
  "only_journal s t \<longleftrightarrow> (\<exists>j. t = s\<lparr>du_journal := j\<rparr>)"

lemma only_journal_settled:
  "only_journal s t \<Longrightarrow> settled L mine P s \<Longrightarrow> settled L mine P t"
  by (auto simp: only_journal_def settled_def protocol_env_def)

lemma only_journal_fields:
  assumes "only_journal s t"
  shows "ol_device t = ol_device s" "draws t = draws s" "objects t = objects s" "synced L t ys = synced L s ys"
  using assms by (auto simp: only_journal_def synced_def)

text \<open>\<open>ready\<close> to write: in step with the history, nothing of this request in it.\<close>

definition ready :: "libs \<Rightarrow> 'j journal_view \<Rightarrow> request_spec \<Rightarrow> nat \<Rightarrow> (op_id \<Rightarrow> string option) \<Rightarrow> operation list
    \<Rightarrow> ('j, 'z) durable_scheme \<Rightarrow> bool" where
  "ready L W q n S ys s \<longleftrightarrow> stands L W q n S ys s \<and> idle W s ys \<and> synced L s ys"

lemma commits_of_absent:
  assumes "commits_of A ys = []" "x \<in> set A"
  shows "op_op_id x \<notin> op_op_id ` set ys"
proof
  assume "op_op_id x \<in> op_op_id ` set ys"
  then obtain y where "y \<in> set ys" "op_op_id y \<in> op_op_id ` set A" using assms(2) by (metis image_iff)
  then have "y \<in> set (commits_of A ys)" by (simp add: commits_of_def)
  then show False using assms(1) by simp
qed

context commit_journal
begin

lemma stands_view:
  "stands L V q n S ys s \<Longrightarrow>
     (jv_recorded V (du_journal s), jv_decided V (du_journal s)) \<in> jv_views V (du_journal s)"
  by (rule view_law) (simp add: stands_def)

lemma stands_tracked:
  "stands L V q n S ys s \<Longrightarrow>
     tracked L (ol_device s) q S ys (jv_recorded V (du_journal s), jv_decided V (du_journal s))"
  using stands_view by (fastforce simp: stands_def journal_tracked_def)

text \<open>A recorded attempt is the operation its object holds.\<close>

lemma recorded_committed:
  assumes "libs_ok L" "stands L V q n S ys s" "a \<in> set (jv_recorded V (du_journal s))" "y \<in> set ys"
    and "op_op_id a = op_op_id y"
  shows "a = y"
proof -
  let ?mine = "is_own L (ol_device s)"
  have mine: "?mine (op_op_id a)" and S: "S (op_op_id a) = None \<or> S (op_op_id a) = Some (json_of (json_operation L) a)"
    using tracked_member [OF stands_tracked [OF assms(2)]] assms(3) by auto
  have "phase L ?mine ys S (objects s)" using assms(2) by (auto simp: stands_def settled_def)
  then obtain zs where zs: "committed L (objects s) (zs @ ys)"
    "\<And>i. ?mine i \<Longrightarrow> contents (objects s) (op_key i) = S i" by (rule phaseD) blast
  have y: "op_in L (objects s) (op_op_id a) = Some y"
    using committed_op_in [OF zs(1), of y] assms(4,5) by simp
  then have "contents (objects s) (op_key (op_op_id a)) = Some (json_of (json_operation L) a)"
    using zs(2) [OF mine] S op_in_present by fastforce
  with op_in_json [OF assms(1) this] y show ?thesis by simp
qed

text \<open>Recording the outcome.\<close>

lemma stands_decided:
  assumes s: "stands L V q n S ys s" and run: "journal_write (jo_record_committed J i) s = (r, s')"
    and i: "i \<in> op_op_id ` set (jv_recorded V (du_journal s))" "i \<in> op_op_id ` set ys"
  shows "stands L V q n S ys s' \<and> jv_recorded V (du_journal s') = jv_recorded V (du_journal s)"
proof -
  obtain j' where j': "jo_record_committed J i (du_journal s) = (r, j')" "s' = s\<lparr>du_journal := j'\<rparr>"
    using run by (auto simp: journal_write_def split: prod.splits)
  have ok: "jv_ok V (du_journal s)" and tr: "journal_tracked L V (ol_device s) q (du_journal s) S ys"
    and fr: "fresh_ids L (ol_device s) (taken V (du_journal s) S) (draws s) n"
    and ph: "settled L (is_own L (ol_device s)) (phase L (is_own L (ol_device s)) ys S) s"
    using s by (simp_all only: stands_def)
  let ?A = "jv_recorded V (du_journal s)"
  from record_committed_law [OF ok j'(1)] have law: "jv_ok V j'" "jv_recorded V j' = ?A"
    "jv_views V j' \<subseteq> insert (?A, Some i) (jv_views V (du_journal s))" by auto
  have "tracked L (ol_device s) q S ys (?A, Some i)"
    using stands_tracked [OF s] i by (simp add: tracked_def)
  then have "journal_tracked L V (ol_device s) q j' S ys"
    using tr law(2,3) by (fastforce simp: journal_tracked_def)
  moreover have "fresh_ids L (ol_device s) (taken V j' S) (draws s) n"
  proof (rule fresh_ids_weaken [OF fr])
    fix k assume "taken V (du_journal s) S k = None"
    moreover have "(?A, jv_decided V (du_journal s)) \<in> jv_views V (du_journal s)" by (rule view_law [OF ok])
    ultimately show "taken V j' S k = None"
      using law(3) by (fastforce simp: taken_def split: if_splits)
  qed
  moreover have "settled L (is_own L (ol_device s)) (phase L (is_own L (ol_device s)) ys S) s'"
    by (rule only_journal_settled [OF _ ph]) (auto simp: only_journal_def j'(2))
  ultimately show ?thesis using law(1,2) j'(2) by (simp add: stands_def)
qed

lemma confirm_ok:
  assumes s: "stands L V q n S ys s" and run: "confirm J x s = (r, s')"
    and x: "x \<in> set (jv_recorded V (du_journal s))" "x \<in> set ys"
  shows "run_ok L V q n ys r s'"
proof -
  obtain p t where p: "journal_write (jo_record_committed J (op_op_id x)) s = (p, t)"
    by (cases "journal_write (jo_record_committed J (op_op_id x)) s")
  from stands_decided [OF s p] x have t: "stands L V q n S ys t"
    "jv_recorded V (du_journal t) = jv_recorded V (du_journal s)" by auto
  have "s' = t" "\<And>c. r = Inr c \<Longrightarrow> dc_operation c = x"
    using run p by (auto simp: confirm_def io_simps split: sum.splits)
  then show ?thesis using stands_end [OF t(1)] t(2) x by auto
qed

text \<open>Recording a new attempt.\<close>

lemma new_attempt_ok:
  fixes s :: "('j, 'z) durable_scheme"
  assumes L: "libs_ok L" and s: "stands L V q (Suc n) S ys s" and idle: "idle V s ys" and sy: "synced L s ys"
    and q: "\<And>t :: ('j, 'z) durable_scheme. fst q (planned L t (Some f) ty pre eff)"
    and run: "new_attempt L J f ty pre eff s = (r, s')"
  shows "stands L V q n S ys s' \<and> idle V s' ys \<and> synced L s' ys \<and> ol_head s' = ol_head s
    \<and> ol_device s' = ol_device s
    \<and> (\<forall>x. r = Inr x \<longrightarrow> x \<in> set (jv_recorded V (du_journal s')) \<and> op_base_head x = head_or_empty (head_of ys))"
proof -
  let ?mine = "is_own L (ol_device s)" and ?j = "du_journal s" and ?d = "ol_device s"
  let ?A = "jv_recorded V ?j" and ?D = "jv_decided V ?j"
  define x where "x = planned L s (Some f) ty pre eff"
  define s1 where "s1 = s\<lparr>ol_clock := ol_clock s + 1, draws := draws s + 1\<rparr>"
  let ?i = "op_op_id x"
  have ok: "jv_ok V ?j" and tr: "journal_tracked L V ?d q ?j S ys"
    and fr: "fresh_ids L ?d (taken V ?j S) (draws s) (Suc n)" and ph: "settled L ?mine (phase L ?mine ys S) s"
    using s by (simp_all only: stands_def)
  have i: "?i = new_op_id L ?d (ol_clock s + 1) (uuid_now_v7 L (draws s))" by (simp add: x_def)
  have free: "taken V ?j S ?i = None" using fresh_ids_Suc(1) [OF L fr] by (simp add: i)
  have view: "(?A, ?D) \<in> jv_views V ?j" by (rule view_law [OF ok])
  have x: "?mine ?i" "fst q x" "head_text ?i" "S ?i = None" "?i \<notin> op_op_id ` set ?A"
      "op_base_head x = head_or_empty (head_of ys)"
    using q new_op_id_text [OF L] free view sy i
    by (auto simp: x_def taken_def synced_def split: if_splits)
  have new: "?i \<notin> op_op_id ` set ys" using phase_fresh [OF settled_bucket [OF ph] x(1,4)] .
  have ph1: "settled L ?mine (phase L ?mine ys S) s1"
    using ph by (simp add: s1_def settled_def protocol_env_def)
  have later: "fresh_ids L ?d S' (Suc (draws s)) n" if "\<And>k. k \<noteq> ?i \<Longrightarrow> taken V ?j S k = None \<Longrightarrow> S' k = None" for S'
    by (rule fresh_ids_drawn [OF L fr, of "ol_clock s + 1"]) (use that i in auto)
  have run1: "new_attempt L J f ty pre eff s = io_bind (io_result (validate_operation x)) (\<lambda>_.
       io_bind (journal_write (jo_record_attempt J x)) (\<lambda>_. io_return x)) s1"
    unfolding new_attempt_def x_def s1_def by (subst io_bind_apply) (simp add: next_operation_run)
  show ?thesis
  proof (cases "validate_operation x")
    case (Inl e)
    then have "r = Inl e" "s' = s1" using run run1 by (auto simp: io_simps)
    moreover have "fresh_ids L ?d (taken V ?j S) (Suc (draws s)) n" by (rule later)
    ultimately show ?thesis
      using ok tr ph1 idle sy by (simp add: s1_def stands_def idle_def synced_def)
  next
    case (Inr u)
    obtain p j' where j': "jo_record_attempt J x ?j = (p, j')" by (cases "jo_record_attempt J x ?j")
    then have s': "s' = s1\<lparr>du_journal := j'\<rparr>" and r: "\<And>y. r = Inr y \<Longrightarrow> y = x \<and> p = Inr ()"
      using run run1 Inr by (auto simp: io_simps journal_write_def s1_def split: sum.splits)
    from record_attempt_law [OF ok j' x(5)] have law: "jv_ok V j'"
        "jv_views V j' \<subseteq> insert (?A @ [x], ?D) (jv_views V ?j)"
      and rec: "p = Inr () \<Longrightarrow> jv_recorded V j' = ?A @ [x] \<and> jv_views V j' = {(?A @ [x], ?D)}"
        "isl p \<Longrightarrow> jv_recorded V j' = ?A"
      by (auto split: sum.splits)
    have t: "tracked L ?d q S ys (?A @ [x], ?D)"
      using tracked_snoc [OF stands_tracked [OF s] x(1,2) _ x(3-6) new] Inr by simp
    have extra: "S (op_op_id y) = None \<and> op_op_id y \<notin> op_op_id ` set (jv_recorded V j')"
      if "v \<in> jv_views V j'" "y \<in> set (fst v) - set (jv_recorded V j')" for v y
    proof (cases "isl p")
      case True
      show ?thesis
      proof (cases "v \<in> jv_views V ?j")
        case True
        then show ?thesis using that(2) tr rec(2) [OF \<open>isl p\<close>] by (auto simp: journal_tracked_def)
      next
        case False
        then have "v = (?A @ [x], ?D)" using law(2) that(1) by blast
        then have "y = x" using that(2) rec(2) [OF \<open>isl p\<close>] by auto
        then show ?thesis using x(4,5) rec(2) [OF \<open>isl p\<close>] by simp
      qed
    next
      case False
      then have "p = Inr ()" by (cases p) auto
      then show ?thesis using rec(1) that by auto
    qed
    have grown: "set (jv_recorded V j') \<subseteq> set (fst v)" if "v \<in> jv_views V j'" for v
    proof (cases "isl p")
      case True
      have "v = (?A @ [x], ?D) \<or> v \<in> jv_views V ?j" using that law(2) by blast
      then show ?thesis using tr rec(2) [OF True] by (fastforce simp: journal_tracked_def)
    next
      case False
      then have "p = Inr ()" by (cases p) auto
      then show ?thesis using rec(1) that by auto
    qed
    have "tracked L ?d q S ys v" if "v \<in> jv_views V j'" for v
      using that law(2) tr t by (auto simp: journal_tracked_def)
    then have "journal_tracked L V ?d q j' S ys"
      unfolding journal_tracked_def using extra grown by blast
    moreover have "fresh_ids L ?d (taken V j' S) (Suc (draws s)) n"
    proof (rule later)
      fix k assume "k \<noteq> ?i" "taken V ?j S k = None"
      then show "taken V j' S k = None"
        using law(2) view by (fastforce simp: taken_def split: if_splits)
    qed
    moreover have "settled L ?mine (phase L ?mine ys S) s'"
      by (rule only_journal_settled [OF _ ph1]) (auto simp: only_journal_def s')
    ultimately have "stands L V q n S ys s'" using law(1) by (simp add: stands_def s' s1_def)
    moreover have "idle V s' ys"
    proof -
      have "commits_of (?A @ [x]) ys = commits_of ?A ys"
        by (rule commits_of_snoc [OF new])
      then have "commits_of (?A @ [x]) ys = []" using idle view by (auto simp: idle_def)
      then show ?thesis using idle law(2) by (auto simp: idle_def s')
    qed
    moreover have "synced L s' ys" using sy by (simp add: s' s1_def synced_def)
    moreover have "x \<in> set (jv_recorded V (du_journal s')) \<and> op_base_head x = head_or_empty (head_of ys)"
      if "r = Inr y" for y
      using r [OF that] rec(1) x(6) by (simp add: s')
    ultimately show ?thesis using r by (auto simp: s' s1_def)
  qed
qed

text \<open>An operation to write: the last recorded one if its base is still the head, or a new one.\<close>

lemma pending_or_new_ok:
  fixes s :: "('j, 'z) durable_scheme"
  assumes L: "libs_ok L" and s: "ready L V q (Suc n) S ys s"
    and q: "\<And>t :: ('j, 'z) durable_scheme. fst q (planned L t (Some f) ty pre eff)"
    and pending: "\<And>x. pending = Some x \<Longrightarrow> x \<in> set (jv_recorded V (du_journal s))"
    and run: "pending_or_new L J f ty pre eff pending (ol_head s) s = (r, s')"
  shows "ready L V q n S ys s' \<and> ol_head s' = ol_head s \<and> ol_device s' = ol_device s
    \<and> (\<forall>x. r = Inr x \<longrightarrow> x \<in> set (jv_recorded V (du_journal s')) \<and> op_base_head x = head_or_empty (head_of ys))"
proof -
  have parts: "stands L V q (Suc n) S ys s" "idle V s ys" "synced L s ys" using s by (simp_all add: ready_def)
  consider (new) "new_attempt L J f ty pre eff s = (r, s')"
    | (old) x where "pending = Some x" "op_base_head x = head_or_empty (ol_head s)" "r = Inr x" "s' = s"
    using run by (auto simp: pending_or_new_def io_return_apply split: option.splits if_splits)
  then show ?thesis
  proof cases
    case new
    from new_attempt_ok [OF L parts q this] show ?thesis by (auto simp: ready_def)
  next
    case old
    then show ?thesis
      using parts pending stands_less [OF parts(1)] by (auto simp: ready_def synced_def)
  qed
qed

text \<open>Writing it: its object is there or not yet, the journal unchanged.\<close>

lemma write_attempt_ok:
  fixes s :: "('j, 'z) durable_scheme"
  assumes L: "libs_ok L" and s: "ready L V q n S ys s" and x: "x \<in> set (jv_recorded V (du_journal s))"
    and run: "write_operation L x s = (r, s')"
  shows "\<exists>S'. ready L V q n S' ys s' \<and> same_log s s' \<and> du_journal s' = du_journal s
    \<and> (r = Inr () \<longrightarrow> S' (op_op_id x) = Some (json_of (json_operation L) x))"
proof -
  let ?mine = "is_own L (ol_device s)" and ?i = "op_op_id x"
  let ?J = "json_of (json_operation L) x"
  have st: "stands L V q n S ys s" and id: "idle V s ys" and sy: "synced L s ys"
    using s by (simp_all add: ready_def)
  have ph: "settled L ?mine (phase L ?mine ys S) s" using st by (simp add: stands_def)
  note t = tracked_member [OF stands_tracked [OF st], of x, simplified, OF x]
  from write_operation_ok [OF L ph t(1,5) run] have
    w: "same_log s s'" "settled L ?mine (maybe L ?mine ys S ?i (Some ?J)) s'"
    and ok: "r = Inr () \<Longrightarrow> settled L ?mine (phase L ?mine ys (S(?i \<mapsto> ?J))) s'" by auto
  have j: "du_journal s' = du_journal s"
    using run leaves_requests(7) [OF apart_fields(1)] unfolding leaves_def by blast
  have put: "ready L V q n (S(?i \<mapsto> ?J)) ys s'" if "settled L ?mine (phase L ?mine ys (S(?i \<mapsto> ?J))) s'"
    using stands_put [OF st x stands_view [OF st] _ same_log_writer [OF w(1)] j that] id sy w(1) j
    by (simp add: ready_def same_log_synced idle_def)
  have keep: "ready L V q n S ys s'" if "settled L ?mine (phase L ?mine ys S) s'"
    using stands_read [OF st same_log_writer [OF w(1)] j that] id sy w(1) j
    by (simp add: ready_def same_log_synced idle_def)
  show ?thesis
  proof (cases "r = Inr ()")
    case True
    then show ?thesis using put ok w(1) j by (intro exI [of _ "S(?i \<mapsto> ?J)"]) simp
  next
    case False
    then show ?thesis using settled_maybe [OF w(2)] put keep w(1) j by blast
  qed
qed

lemma ready_absent:
  assumes "ready L V q n S ys s" "x \<in> set (jv_recorded V (du_journal s))"
  shows "op_op_id x \<notin> op_op_id ` set ys"
proof -
  have st: "stands L V q n S ys s" and id: "idle V s ys" using assms(1) by (simp_all add: ready_def)
  have "commits_of (fst (jv_recorded V (du_journal s), jv_decided V (du_journal s))) ys = []"
    using id stands_view [OF st] unfolding idle_def by (rule bspec)
  then show ?thesis using assms(2) by (intro commits_of_absent) simp_all
qed

lemma discard_attempt_ok:
  fixes s :: "('j, 'z) durable_scheme"
  assumes s: "ready L V q n S ys s" and x: "x \<in> set (jv_recorded V (du_journal s))"
    and run: "discard_orphan_operation L (op_op_id x) s = (r, s')"
  shows "r = Inr () \<and> (\<exists>S'. ready L V q n S' ys s')"
proof -
  let ?mine = "is_own L (ol_device s)" and ?i = "op_op_id x"
  have st: "stands L V q n S ys s" and id: "idle V s ys" and sy: "synced L s ys"
    using s by (simp_all add: ready_def)
  have ph: "settled L ?mine (phase L ?mine ys S) s" using st by (simp add: stands_def)
  note t = tracked_member [OF stands_tracked [OF st], of x, simplified, OF x]
  have "?i \<notin> op_op_id ` set ys" by (rule ready_absent [OF s x])
  from discard_ok [OF ph t(1) this run] have d: "r = Inr ()" "same_log s s'"
    "settled L ?mine (maybe L ?mine ys S ?i None) s'" by auto
  have j: "du_journal s' = du_journal s"
    using run leaves_requests(8) [OF apart_fields(1)] unfolding leaves_def by blast
  have id': "idle V s' ys" and sy': "synced L s' ys"
    using id sy d(2) j by (simp_all add: idle_def same_log_synced)
  from settled_maybe [OF d(3)]
  show ?thesis
  proof
    assume "settled L ?mine (phase L ?mine ys S) s'"
    from stands_read [OF st same_log_writer [OF d(2)] j this] show ?thesis
      using d(1) id' sy' by (auto simp: ready_def)
  next
    assume "settled L ?mine (phase L ?mine ys (S(?i := None))) s'"
    from stands_put [OF st x stands_view [OF st] _ same_log_writer [OF d(2)] j this] show ?thesis
      using d(1) id' sy' by (auto simp: ready_def)
  qed
qed

text \<open>A lost race, or one whose outcome is not known: the run may end here.\<close>

lemma raced_stands:
  assumes s: "ready L V q n S ys s" and x: "x \<in> set (jv_recorded V (du_journal s))"
    and t: "same_writer s t" "du_journal t = du_journal s"
    and raced: "settled L (is_own L (ol_device s)) (raced L (is_own L (ol_device s)) ys x S) t"
  shows "run_ok L V q n ys (Inl e) t"
proof -
  let ?mine = "is_own L (ol_device s)"
  have st: "stands L V q n S ys s" and id: "idle V s ys" using s by (simp_all add: ready_def)
  from settled_bucket [OF raced] consider "phase L ?mine ys S (objects t)" | "phase L ?mine (x # ys) S (objects t)"
    by (auto simp: raced_def)
  then show ?thesis
  proof cases
    case 1
    from stands_read [OF st t settledI [OF raced closed_phase this]] show ?thesis by (rule stands_error)
  next
    case 2
    from stands_pushed [OF st id x t settledI [OF raced closed_phase this]] have "run_ok L V q n (x # ys) (Inl e) t"
      by (rule stands_error)
    then show ?thesis using run_ok_later [of L V q n "[x]"] by simp
  qed
qed

lemma won_confirm:
  assumes s: "ready L V q n S ys s" and t: "same_writer s t" "du_journal t = du_journal s"
    and won: "settled L (is_own L (ol_device s)) (phase L (is_own L (ol_device s)) (x # ys) S) t"
    and x: "x \<in> set (jv_recorded V (du_journal s))" and run: "confirm J x t = (r, s')"
  shows "run_ok L V q n ys r s'"
proof -
  have "stands L V q n S (x # ys) t" using s t won x by (intro stands_pushed [of _ _ _ _ _ _ s]) (auto simp: ready_def)
  from confirm_ok [OF this run] have "run_ok L V q n (x # ys) r s'" using x t(2) by simp
  then show ?thesis using run_ok_later [of L V q n "[x]"] by simp
qed

end

text \<open>The part of a round after the write of the head was refused.\<close>

definition after_refusal ::
    "libs \<Rightarrow> 'j journal_ops \<Rightarrow> file_id \<Rightarrow> op_type \<Rightarrow> preconditions \<Rightarrow> effects \<Rightarrow> nat \<Rightarrow> operation \<Rightarrow> concurrent_ops
      \<Rightarrow> (('j, 'z) durable_scheme, core_error, durable_commit) io" where
  "after_refusal L J f ty pre eff n x c =
     (case c of
        ContainsOwn \<Rightarrow> confirm J x
      | Committed concurrent \<Rightarrow>
          io_bind (discard_orphan_operation L (op_op_id x)) (\<lambda>_.
            case find (\<lambda>y. op_target_file_id y = Some f) concurrent of
              Some y \<Rightarrow> io_throw (Conflict (concurrent_message L y f))
            | None \<Rightarrow> durable_loop L J f ty pre eff n None)
      | Unverifiable reason \<Rightarrow> io_throw (Conflict (unverifiable_message reason)))"

lemma durable_loop_round:
  "durable_loop L J f ty pre eff (Suc n) pending s =
     io_bind (pending_or_new L J f ty pre eff pending (ol_head s)) (\<lambda>x.
     io_bind (write_operation L x) (\<lambda>_.
     io_bind (advance_head L (op_op_id x)) (\<lambda>advanced.
       if advanced then confirm J x
       else io_bind (io_bind (load_head_consistent L) (\<lambda>_. operations_since L (ol_head s) (op_op_id x)))
              (after_refusal L J f ty pre eff n x)))) s"
  unfolding durable_loop.simps after_refusal_def [abs_def] by (subst io_bind_apply) (simp add: io_get_apply)

context commit_journal
begin

lemma after_refusal_ok:
  fixes s :: "('j, 'z) durable_scheme"
  assumes s: "ready L V q n S ys s" and x: "x \<in> set (jv_recorded V (du_journal s))"
    and t: "same_writer s t" "du_journal t = du_journal s"
      "settled L (is_own L (ol_device s)) (raced L (is_own L (ol_device s)) ys x S) t"
    and checked: "rechecked L (is_own L (ol_device s)) ys x S (Inr c) t"
    and run: "after_refusal L J f ty pre eff k x c t = (r, s')"
    and loop: "\<And>S' new u. ready L V q n S' (new @ ys) u \<Longrightarrow> durable_loop L J f ty pre eff k None u = (r, s')
        \<Longrightarrow> run_ok L V q m (new @ ys) r s'"
    and m: "m \<le> n"
  shows "run_ok L V q m ys r s'"
proof (cases c)
  case ContainsOwn
  then have "settled L (is_own L (ol_device s)) (phase L (is_own L (ol_device s)) (x # ys) S) t" "confirm J x t = (r, s')"
    using run checked by (auto simp: after_refusal_def rechecked_def)
  from won_confirm [OF s t(1,2) this(1) x this(2)] show ?thesis using m by (rule run_ok_less)
next
  case (Unverifiable reason)
  then obtain e where "r = Inl e" "s' = t" using run by (auto simp: after_refusal_def io_simps)
  then show ?thesis using raced_stands [OF s x t] run_ok_less m by blast
next
  case (Committed new)
  let ?mine = "is_own L (ol_device s)"
  have ph: "settled L ?mine (phase L ?mine (new @ ys) S) t" and sy: "synced L t (new @ ys)"
    and foreign: "\<forall>y \<in> set new. \<not> ?mine (op_op_id y)"
    using checked Committed by (auto simp: rechecked_def)
  have st: "stands L V q n S ys s" and id: "idle V s ys" using s by (simp_all add: ready_def)
  have "journal_tracked L V (ol_device s) q (du_journal s) S ys" using st by (simp add: stands_def)
  from idle_moved [OF id t(2) this foreign] have r': "ready L V q n S (new @ ys) t"
    using stands_moved [OF st t(1,2) ph foreign] sy by (simp add: ready_def)
  obtain p u where p: "discard_orphan_operation L (op_op_id x) t = (p, u)"
    by (cases "discard_orphan_operation L (op_op_id x) t")
  from discard_attempt_ok [OF r' _ p] x t(2) obtain S' where u: "p = Inr ()" "ready L V q n S' (new @ ys) u" by auto
  have "run_ok L V q m (new @ ys) r s'"
  proof (cases "find (\<lambda>y. op_target_file_id y = Some f) new")
    case None
    then have "durable_loop L J f ty pre eff k None u = (r, s')"
      using run p u(1) Committed by (simp add: after_refusal_def io_bind_apply)
    then show ?thesis by (rule loop [OF u(2)])
  next
    case (Some y)
    then have "\<exists>e. r = Inl e" "s' = u" using run p u(1) Committed by (auto simp: after_refusal_def io_simps)
    moreover have "stands L V q m S' (new @ ys) u"
      using u(2) m by (auto simp: ready_def intro: stands_less)
    ultimately show ?thesis using stands_error by blast
  qed
  then show ?thesis by (rule run_ok_later)
qed

lemma durable_loop_ok:
  fixes s :: "('j, 'z) durable_scheme"
  assumes L: "libs_ok L" and q: "\<And>t :: ('j, 'z) durable_scheme. fst q (planned L t (Some f) ty pre eff)"
  shows "ready L V q (m + n) S ys s \<Longrightarrow> (\<And>x. pending = Some x \<Longrightarrow> x \<in> set (jv_recorded V (du_journal s)))
    \<Longrightarrow> durable_loop L J f ty pre eff n pending s = (r, s') \<Longrightarrow> run_ok L V q m ys r s'"
proof (induction n arbitrary: s S ys pending)
  case 0
  then show ?case by (auto simp: ready_def io_throw_apply intro: stands_error)
next
  case (Suc n)
  have start: "ready L V q (Suc (m + n)) S ys s" using Suc.prems(1) by simp
  obtain p s1 where p: "pending_or_new L J f ty pre eff pending (ol_head s) s = (p, s1)"
    by (cases "pending_or_new L J f ty pre eff pending (ol_head s) s")
  from pending_or_new_ok [OF L start q Suc.prems(2) p] have s1: "ready L V q (m + n) S ys s1" "ol_head s1 = ol_head s"
    and made: "\<And>x. p = Inr x \<Longrightarrow> x \<in> set (jv_recorded V (du_journal s1)) \<and> op_base_head x = head_or_empty (head_of ys)"
    by auto
  note run = Suc.prems(3) [unfolded durable_loop_round]
  have stop: "run_ok L V q m ys (Inl e) t" if "ready L V q (m + n) S' ys t" for S' t e
    using that stands_error [OF stands_less] by (metis le_add1 ready_def)
  show ?case
  proof (cases p)
    case (Inl e)
    then have "r = Inl e" "s' = s1" using run p by (auto simp: io_simps)
    then show ?thesis using stop [OF s1(1)] by simp
  next
    case (Inr x)
    obtain w s2 where w: "write_operation L x s1 = (w, s2)" by (cases "write_operation L x s1")
    from made [OF Inr] have x1: "x \<in> set (jv_recorded V (du_journal s1))"
      and base: "op_base_head x = head_or_empty (head_of ys)" by auto
    from write_attempt_ok [OF L s1(1) x1 w] obtain S2 where
      s2: "ready L V q (m + n) S2 ys s2" "du_journal s2 = du_journal s1" "same_log s1 s2"
      and there: "w = Inr () \<Longrightarrow> S2 (op_op_id x) = Some (json_of (json_operation L) x)" by blast
    have x2: "x \<in> set (jv_recorded V (du_journal s2))" using x1 s2(2) by simp
    show ?thesis
    proof (cases w)
      case (Inl e)
      then have "r = Inl e" "s' = s2" using run p Inr w by (auto simp: io_simps)
      then show ?thesis using stop [OF s2(1)] by simp
    next
      case w_ok: (Inr u)
      let ?mine = "is_own L (ol_device s2)"
      have st: "stands L V q (m + n) S2 ys s2" and sy: "synced L s2 ys" using s2(1) by (simp_all add: ready_def)
      have ph: "settled L ?mine (phase L ?mine ys S2) s2" using st by (simp add: stands_def)
      note t = tracked_member [OF stands_tracked [OF st], of x, simplified, OF x2]
      obtain a s3 where a: "advance_head L (op_op_id x) s2 = (a, s3)" by (cases "advance_head L (op_op_id x) s2")
      from advance_head_ok [OF L ph sy t(1) _ t(4) base a] there w_ok have
        s3: "settled L ?mine (raced L ?mine ys x S2) s3" "same_writer s2 s3"
        and won: "a = Inr True \<Longrightarrow> settled L ?mine (phase L ?mine (x # ys) S2) s3" by auto
      have j3: "du_journal s3 = du_journal s2"
        using a leaves_advance [OF apart_fields(1)] unfolding leaves_def by blast
      have head: "ol_head s = head_of ys" using Suc.prems(1) by (simp add: ready_def synced_def)
      consider (err) e where "a = Inl e" | (yes) "a = Inr True" | (no) "a = Inr False" by (cases a) auto
      then show ?thesis
      proof cases
        case err
        then have "r = Inl e" "s' = s3" using run p Inr w w_ok a by (auto simp: io_simps)
        then show ?thesis using raced_stands [OF s2(1) x2 s3(2) j3 s3(1)] run_ok_less by (metis le_add1)
      next
        case yes
        then have "confirm J x s3 = (r, s')" using run p Inr w w_ok a by (simp add: io_bind_apply)
        from won_confirm [OF s2(1) s3(2) j3 won [OF yes] x2 this] show ?thesis by (rule run_ok_less) simp
      next
        case no
        let ?check = "io_bind (load_head_consistent L) (\<lambda>_. operations_since L (head_of ys) (op_op_id x))"
        obtain c s4 where c: "?check s3 = (c, s4)" by (cases "?check s3")
        from recheck_ok [OF L s3(1) t(1) ready_absent [OF s2(1) x2] c] have
          s4: "same_writer s3 s4" "settled L ?mine (raced L ?mine ys x S2) s4"
          and checked: "rechecked L ?mine ys x S2 c s4" by auto
        have j4: "du_journal s4 = du_journal s2"
        proof -
          have "leaves du_journal ?check" by (intro leaves_intros)
          then show ?thesis using c j3 unfolding leaves_def by fastforce
        qed
        have to_check: "io_bind ?check (after_refusal L J f ty pre eff n x) s3 = (r, s')"
          using run p [unfolded Inr head] w [unfolded w_ok] a [unfolded no] by (simp only: head io_bind_Inr if_False)
        have sw: "same_writer s2 s4" using s3(2) s4(1) by (rule same_writer_trans)
        show ?thesis
        proof (cases c)
          case (Inl e)
          then have "r = Inl e" "s' = s4" using to_check c by (simp_all add: io_bind_Inl)
          then show ?thesis using raced_stands [OF s2(1) x2 sw j4 s4(2)] run_ok_less by (metis le_add1)
        next
          case c_ok: (Inr d)
          then have rest: "after_refusal L J f ty pre eff n x d s4 = (r, s')"
            using to_check c [unfolded c_ok] by (simp only: io_bind_Inr)
          show ?thesis
          proof (rule after_refusal_ok [OF s2(1) x2 sw j4 s4(2) checked [unfolded c_ok] rest])
            fix S' new u
            assume u: "ready L V q (m + n) S' (new @ ys) u" and go: "durable_loop L J f ty pre eff n None u = (r, s')"
            show "run_ok L V q m (new @ ys) r s'" by (rule Suc.IH [OF u _ go]) simp
          qed simp
        qed
      qed
    qed
  qed
qed

end

section \<open>The search for an earlier attempt\<close>

lemma linked_suffix: "linked xs \<Longrightarrow> suffix ys xs \<Longrightarrow> linked ys"
  by (auto simp: suffix_def intro: linked_append)

lemma head_of_linked:
  "linked xs \<Longrightarrow> linked ys \<Longrightarrow> head_or_empty (head_of xs) = head_or_empty (head_of ys) \<Longrightarrow> head_of xs = head_of ys"
  by (cases xs; cases ys) auto

lemma same_suffix:
  assumes "distinct (map op_op_id xs)" "linked xs" "suffix ys xs" "suffix zs xs"
    and "head_or_empty (head_of ys) = head_or_empty (head_of zs)"
  shows "ys = zs"
proof -
  from assms(3) obtain us where us: "xs = us @ ys" by (rule suffixE)
  from assms(4) obtain vs where vs: "xs = vs @ zs" by (rule suffixE)
  have "head_of ys = head_of zs" using assms linked_suffix by (intro head_of_linked) blast+
  moreover have "distinct (map op_op_id (us @ ys))" "us @ ys = vs @ zs" using assms(1) us vs by metis+
  ultimately show ?thesis using same_base by blast
qed

text \<open>
  A search that ends at the base of the first attempt has seen every place where an
  attempt could have been committed.
\<close>

lemma search_none:
  assumes xs: "distinct (map op_op_id xs)" "linked xs" and based: "based A xs" and A: "A \<noteq> []"
    and same: "\<And>a y. a \<in> set A \<Longrightarrow> y \<in> set xs \<Longrightarrow> op_op_id a = op_op_id y \<Longrightarrow> a = y"
    and search: "search_ok f (\<lambda>x. \<exists>a \<in> set A. op_op_id a = op_op_id x)
        (\<lambda>x. op_base_head (hd A) \<noteq> [] \<and> op_op_id x = op_base_head (hd A)) None xs (Absent None)"
  shows "commits_of A xs = []"
proof (rule ccontr)
  assume "commits_of A xs \<noteq> []"
  then obtain y where "y \<in> set (commits_of A xs)" by (meson list.set_sel(1))
  then obtain a where a: "a \<in> set A" "y \<in> set xs" "op_op_id a = op_op_id y"
    by (auto simp: commits_of_def)
  have "a \<in> set xs" using same [OF a] a(2) by simp
  obtain us vs where uv: "xs = us @ vs" "\<forall>u \<in> set us. \<not> (\<exists>a \<in> set A. op_op_id a = op_op_id u)"
    "vs = [] \<or> (op_base_head (hd A) \<noteq> [] \<and> op_op_id (hd vs) = op_base_head (hd A))"
    using search by (auto simp: search_ok_def)
  have "a \<in> set vs" using \<open>a \<in> set xs\<close> uv(1,2) a(1) by auto
  then have floor: "op_op_id (hd vs) = op_base_head (hd A)" "vs \<noteq> []" using uv(3) by auto
  obtain bottom where b: "suffix bottom xs" "op_base_head (hd A) = head_or_empty (head_of bottom)"
    "\<exists>w. suffix w xs \<and> suffix bottom w \<and> op_base_head a = head_or_empty (head_of w)"
    using based A a(1) by (auto simp: based_def)
  have "head_or_empty (head_of vs) = head_or_empty (head_of bottom)"
    using floor b(2) by (cases vs) auto
  then have vs: "vs = bottom"
    using same_suffix [OF xs _ b(1)] uv(1) by (auto simp: suffix_def)
  obtain v1 v2 where v: "vs = v1 @ a # v2" using \<open>a \<in> set vs\<close> by (meson split_list)
  have sv2: "suffix v2 xs" using uv(1) v by (auto simp: suffix_def)
  have "linked (a # v2)" using linked_suffix [OF xs(2), of "a # v2"] uv(1) v by (auto simp: suffix_def)
  then have "op_base_head a = head_or_empty (head_of v2)" by simp
  with b(3) obtain w where "suffix bottom w" "suffix w xs" "head_or_empty (head_of v2) = head_or_empty (head_of w)"
    by auto
  then have "suffix bottom v2" using same_suffix [OF xs sv2] by blast
  then show False using vs v by (auto dest: suffix_length_le)
qed

context commit_journal
begin

lemma stands_committed:
  assumes "stands L V q n S ys s"
  shows "distinct (map op_op_id ys)" "linked ys"
proof -
  obtain zs where zs: "committed L (objects s) (zs @ ys)"
    using assms by (auto simp: stands_def settled_def phase_def)
  show "distinct (map op_op_id ys)" using committed_distinct [OF zs] by simp
  have "linked (zs @ ys)" using zs chain_linked by (auto simp: committed_def)
  then show "linked ys" by (rule linked_append)
qed

text \<open>No recorded attempt is in the history: neither is one that only a reopened journal knows.\<close>

lemma stands_idle:
  assumes s: "stands L V q n S ys s" and none: "commits_of (jv_recorded V (du_journal s)) ys = []"
  shows "idle V s ys"
  unfolding idle_def
proof
  fix v assume v: "v \<in> jv_views V (du_journal s)"
  have tr: "journal_tracked L V (ol_device s) q (du_journal s) S ys"
    and ph: "phase L (is_own L (ol_device s)) ys S (objects s)" using s by (auto simp: stands_def settled_def)
  have "op_op_id a \<notin> op_op_id ` set ys" if a: "a \<in> set (fst v)" for a
  proof (cases "a \<in> set (jv_recorded V (du_journal s))")
    case True
    then show ?thesis by (rule commits_of_absent [OF none])
  next
    case False
    then have "S (op_op_id a) = None" using tr v a by (auto simp: journal_tracked_def)
    moreover have "is_own L (ol_device s) (op_op_id a)"
      using tr v by (intro tracked_member(1) [OF _ a]) (auto simp: journal_tracked_def)
    ultimately show ?thesis by (intro phase_fresh [OF ph])
  qed
  then have "\<forall>y \<in> set ys. op_op_id y \<notin> op_op_id ` set (fst v)" by (metis image_iff)
  then show "commits_of (fst v) ys = []" by (simp add: commits_of_def filter_empty_conv)
qed

lemma attempt_found_ok:
  fixes s :: "('j, 'z) durable_scheme"
  defines "A \<equiv> \<lambda>s :: ('j, 'z) durable_scheme. jv_recorded V (du_journal s)"
  assumes L: "libs_ok L" and s: "stands L V q n S ys s" and sy: "synced L s ys" and A: "A s \<noteq> []"
    and search: "search_ok f (\<lambda>x. \<exists>a \<in> set (A s). op_op_id a = op_op_id x)
        (\<lambda>x. op_base_head (hd (A s)) \<noteq> [] \<and> op_op_id x = op_base_head (hd (A s))) None ys c"
    and run: "attempt_found L J f (A s) c s = (r, s')"
  shows "(case r of
      Inl e \<Rightarrow> run_ok L V q n ys (Inl e) s'
    | Inr (Some d) \<Rightarrow> run_ok L V q n ys (Inr d) s'
    | Inr None \<Rightarrow> ready L V q n S ys s' \<and> A s' = A s)"
proof (cases c)
  case (Found x later)
  then obtain us vs a where x: "ys = us @ x # vs" "a \<in> set (A s)" "op_op_id a = op_op_id x"
    using search by (auto simp: search_ok_def)
  have "a = x" using recorded_committed [OF L s _ _ x(3)] x(1,2) by (simp add: A_def)
  then have mem: "x \<in> set (A s)" "x \<in> set ys" using x by auto
  obtain p t where p: "journal_write (jo_record_committed J (op_op_id x)) s = (p, t)"
    by (cases "journal_write (jo_record_committed J (op_op_id x)) s")
  from stands_decided [OF s p] mem have t: "stands L V q n S ys t" "A t = A s" by (auto simp: A_def)
  show ?thesis
  proof (cases p)
    case (Inl e)
    then have "r = Inl e" "s' = t" using run Found p by (auto simp: attempt_found_def io_simps)
    then show ?thesis using stands_error [OF t(1)] by simp
  next
    case (Inr u)
    then have "r = Inr (Some \<lparr>dc_operation = x, dc_superseded = later\<rparr>)" "s' = t"
      using run Found p by (auto simp: attempt_found_def io_simps)
    then show ?thesis using t mem by (auto intro!: stands_end [OF t(1)] simp: A_def)
  qed
next
  case (Absent other)
  show ?thesis
  proof (cases other)
    case (Some i)
    then have "r = Inl (Conflict (overtaken_message L i f))" "s' = s"
      using run Absent by (auto simp: attempt_found_def io_simps)
    then show ?thesis using stands_error [OF s] by simp
  next
    case None
    then have r: "r = Inr None" "s' = s" using run Absent by (auto simp: attempt_found_def io_simps)
    have "commits_of (A s) ys = []"
    proof (rule search_none [OF stands_committed [OF s] _ A])
      show "based (A s) ys" using stands_tracked [OF s] by (simp add: tracked_def A_def)
      show "a = y" if "a \<in> set (A s)" "y \<in> set ys" "op_op_id a = op_op_id y" for a y
        using recorded_committed [OF L s] that by (simp add: A_def)
    qed (use search Absent None in simp)
    then show ?thesis using stands_idle [OF s] s sy r by (simp add: ready_def A_def)
  qed
next
  case (Ambiguous reason)
  have ok: "jv_ok V (du_journal s)" using s by (simp add: stands_def)
  let ?D = "jv_decided V (du_journal s)"
  let ?x = "option_bind ?D (\<lambda>i. find (\<lambda>a. op_op_id a = i) (A s))"
  have read: "journal_read (jo_committed J) s = (Inr ?D, s)"
    using committed_law [OF ok] by (simp add: journal_read_def io_simps)
  show ?thesis
  proof (cases ?x)
    case None
    then have "\<exists>e. r = Inl e" "s' = s" using run Ambiguous read by (auto simp: attempt_found_def io_simps)
    then show ?thesis using stands_error [OF s] by auto
  next
    case (Some x)
    then obtain i where i: "?D = Some i" "find (\<lambda>a. op_op_id a = i) (A s) = Some x" by (auto simp: option_bind_Some)
    then have x: "x \<in> set (A s)" "op_op_id x = i" by (auto simp: find_Some_iff)
    moreover have "i \<in> op_op_id ` set ys" using stands_tracked [OF s] i(1) by (simp add: tracked_def)
    ultimately have "x \<in> set ys" using recorded_committed [OF L s, of x] by (auto simp: A_def)
    moreover have "r = Inr (Some \<lparr>dc_operation = x, dc_superseded = True\<rparr>)" "s' = s"
      using run Ambiguous read Some by (auto simp: attempt_found_def io_simps)
    ultimately show ?thesis using x(1) by (auto intro!: stands_end [OF s] simp: A_def)
  qed
qed

lemma loaded_stands:
  fixes s :: "('j, 'z) durable_scheme"
  assumes L: "libs_ok L" and s: "stands L V q n S ys s" and run: "load_head_consistent L s = (r, t)"
  shows "du_journal t = du_journal s \<and> (case r of
      Inl e \<Rightarrow> stands L V q n S ys t
    | Inr _ \<Rightarrow> \<exists>zs. stands L V q n S (zs @ ys) t \<and> synced L t (zs @ ys) \<and> committed L (objects t) (zs @ ys)
        \<and> (\<forall>z \<in> set zs. \<not> is_own L (ol_device s) (op_op_id z)))"
proof -
  let ?mine = "is_own L (ol_device s)"
  have ph: "settled L ?mine (phase L ?mine ys S) s" using s by (simp add: stands_def)
  have j: "du_journal t = du_journal s"
    using run leaves_load [OF apart_fields(1)] unfolding leaves_def by blast
  from load_head_consistent_ok [OF L ph run] have t: "settled L ?mine (phase L ?mine ys S) t" "same_writer s t"
    and loaded: "case r of Inl e \<Rightarrow> same_log s t | Inr _ \<Rightarrow> \<exists>xs. committed L (objects t) xs \<and> synced L t xs"
    by (auto simp: loaded_ok_def)
  show ?thesis
  proof (cases r)
    case (Inl e)
    then show ?thesis using stands_read [OF s t(2) j t(1)] j by simp
  next
    case (Inr u)
    with loaded obtain xs where xs: "committed L (objects t) xs" "synced L t xs" by auto
    from phase_later [OF settled_bucket [OF t(1)] xs(1)] obtain zs where
      zs: "xs = zs @ ys" "\<forall>z \<in> set zs. \<not> ?mine (op_op_id z)" "phase L ?mine xs S (objects t)" .
    have "stands L V q n S (zs @ ys) t"
      using stands_moved [OF s t(2) j _ zs(2)] settledI [OF t(1) closed_phase zs(3)] zs(1) by simp
    then show ?thesis using j Inr xs zs(1,2) by auto
  qed
qed

lemma committed_attempt_ok:
  fixes s :: "('j, 'z) durable_scheme"
  assumes L: "libs_ok L" and s: "stands L V q n S ys s" and A: "jv_recorded V (du_journal s) \<noteq> []"
    and run: "committed_attempt L J f s = (r, s')"
  shows "(case r of
      Inl e \<Rightarrow> run_ok L V q n ys (Inl e) s'
    | Inr (Some d) \<Rightarrow> run_ok L V q n ys (Inr d) s'
    | Inr None \<Rightarrow> \<exists>zs. ready L V q n S (zs @ ys) s' \<and> jv_recorded V (du_journal s') = jv_recorded V (du_journal s))"
proof -
  let ?A = "jv_recorded V (du_journal s)" and ?mine = "is_own L (ol_device s)"
  let ?own = "\<lambda>x. \<exists>a \<in> set ?A. op_op_id a = op_op_id x"
    and ?floor = "\<lambda>x. op_base_head (hd ?A) \<noteq> [] \<and> op_op_id x = op_base_head (hd ?A)"
  have ok: "jv_ok V (du_journal s)" using s by (simp add: stands_def)
  have read: "journal_read (jo_attempts J) s = (Inr ?A, s)"
    using attempts_law [OF ok] by (simp add: journal_read_def io_simps)
  obtain a as where cons: "?A = a # as" using A by (cases ?A) auto
  have go: "io_bind (io_bind (load_head_consistent L) (\<lambda>_. search_chain L f ?own ?floor)) (attempt_found L J f ?A) s
      = (r, s')"
    unfolding cons list.sel using run read [unfolded cons]
    by (simp add: committed_attempt_def io_bind_apply [of "journal_read (jo_attempts J)"])
  obtain p t where p: "load_head_consistent L s = (p, t)" by (cases "load_head_consistent L s")
  note t = loaded_stands [OF L s p]
  show ?thesis
  proof (cases p)
    case (Inl e)
    then have "r = Inl e" "s' = t" using go p by (simp_all add: io_bind_Inl)
    then show ?thesis using t Inl stands_error by fastforce
  next
    case (Inr u)
    then obtain zs where zs: "stands L V q n S (zs @ ys) t" "synced L t (zs @ ys)" "du_journal t = du_journal s"
      "committed L (objects t) (zs @ ys)"
      using t by auto
    obtain c t2 where c: "search_chain L f ?own ?floor t = (c, t2)" by (cases "search_chain L f ?own ?floor t")
    have ph: "settled L (is_own L (ol_device t)) (phase L (is_own L (ol_device t)) (zs @ ys) S) t"
      using zs(1) by (simp add: stands_def)
    have "io_bind (load_head_consistent L) (\<lambda>_. search_chain L f ?own ?floor) s = (c, t2)"
      using p Inr c by (simp add: io_bind_Inr)
    then have go2: "io_bind (\<lambda>_. (c, t2)) (attempt_found L J f ?A) s = (r, s')"
      using go by (simp add: io_bind_apply)
    have ent: "phase L (is_own L (ol_device t)) (zs @ ys) S m \<Longrightarrow> beyond L (zs @ ys) m" for m
      by (rule phase_beyond)
    have j2: "du_journal t2 = du_journal t"
      using c leaves_walks(2) [OF apart_fields(1)] unfolding leaves_def by blast
    from search_chain_ok [OF c ph ent zs(4,2)]
    have w: "settled L (is_own L (ol_device t)) (phase L (is_own L (ol_device t)) (zs @ ys) S) t2" "same_log t t2"
      and found: "\<forall>d. c = Inr d \<longrightarrow> search_ok f ?own ?floor None (zs @ ys) d" by auto
    have t2: "stands L V q n S (zs @ ys) t2" "synced L t2 (zs @ ys)"
      using stands_read [OF zs(1) same_log_writer [OF w(2)] j2 w(1)] same_log_synced [OF w(2) zs(2)] by auto
    show ?thesis
    proof (cases c)
      case (Inl e)
      then have "r = Inl e" "s' = t2" using go2 by (simp_all add: io_bind_apply)
      then show ?thesis using run_ok_later [OF stands_error [OF t2(1)]] by simp
    next
      case (Inr d)
      then have "attempt_found L J f ?A d t2 = (r, s')" using go2 by (simp add: io_bind_apply)
      from attempt_found_ok [OF L t2, of f d, unfolded j2 zs(3), OF A _ this] found Inr
      show ?thesis using run_ok_later by (fastforce split: sum.splits option.splits)
    qed
  qed
qed

lemma commit_durable_ok:
  fixes s :: "('j, 'z) durable_scheme"
  assumes L: "libs_ok L" and s: "request_ok L V q (n + max_commit_attempts) K s"
    and sy: "ol_loaded s \<Longrightarrow> synced L s K"
    and q: "\<And>t :: ('j, 'z) durable_scheme. fst q (planned L t (Some f) ty pre eff)"
    and run: "commit_durable L J f ty pre eff s = (r, s')"
  shows "run_ok L V q n K r s'"
proof -
  let ?A = "jv_recorded V (du_journal s)" and ?N = "n + max_commit_attempts"
  have st: "stands L V q ?N (own_objects (objects s)) K s" by (rule stands_start [OF s])
  have attempts: "journal_read (jo_attempts J) t = (Inr (jv_recorded V (du_journal t)), t)"
    if "jv_ok V (du_journal t)" for t :: "('j, 'z) durable_scheme"
    using attempts_law [OF that] by (simp add: journal_read_def io_simps)
  show ?thesis
  proof (cases "?A = []")
    case True
    let ?loop = "durable_loop L J f ty pre eff max_commit_attempts None"
    have ok: "jv_ok V (du_journal s)" using st by (simp add: stands_def)
    have none: "committed_attempt L J f s = (Inr None, s)"
      using attempts [OF ok] True by (simp add: committed_attempt_def io_simps)
    have idle: "idle V t ys" if "stands L V q m S ys t" "jv_recorded V (du_journal t) = []" for m S ys and t :: "('j, 'z) durable_scheme"
      by (rule stands_idle [OF that(1)]) (simp add: that(2) commits_of_def)
    have go: "io_bind (if ol_loaded s then io_return () else load_head_consistent L) (\<lambda>_. ?loop) s = (r, s')"
      using run none attempts [OF ok] True
      by (cases "ol_loaded s"; cases "load_head_consistent L s")
        (auto simp: commit_durable_def io_simps split: sum.splits)
    show ?thesis
    proof (cases "ol_loaded s")
      case True
      then have "?loop s = (r, s')" using go by (simp add: io_simps)
      moreover have "ready L V q ?N (own_objects (objects s)) K s"
        using st sy [OF True] idle [OF st \<open>?A = []\<close>] by (simp add: ready_def)
      ultimately show ?thesis using durable_loop_ok [OF L q] by blast
    next
      case False
      obtain p t where p: "load_head_consistent L s = (p, t)" by (cases "load_head_consistent L s")
      note t = loaded_stands [OF L st p]
      show ?thesis
      proof (cases p)
        case (Inl e)
        then have "r = Inl e" "s' = t" using go p False by (simp_all add: io_bind_Inl)
        moreover have "stands L V q ?N (own_objects (objects s)) K t" using t Inl by simp
        ultimately have "run_ok L V q ?N K r s'" using stands_error by blast
        then show ?thesis by (rule run_ok_less) simp
      next
        case (Inr u)
        then obtain zs where zs: "stands L V q ?N (own_objects (objects s)) (zs @ K) t" "synced L t (zs @ K)"
          "du_journal t = du_journal s" using t by auto
        have "?loop t = (r, s')" using go p Inr False by (simp add: io_bind_Inr)
        moreover have "ready L V q ?N (own_objects (objects s)) (zs @ K) t"
          using zs idle [OF zs(1)] \<open>?A = []\<close> by (simp add: ready_def)
        ultimately have "run_ok L V q n (zs @ K) r s'" using durable_loop_ok [OF L q] by blast
        then show ?thesis by (rule run_ok_later)
      qed
    qed
  next
    case A: False
    obtain c t where c: "committed_attempt L J f s = (c, t)" by (cases "committed_attempt L J f s")
    note found = committed_attempt_ok [OF L st A c]
    consider (err) e where "c = Inl e" | (prior) d where "c = Inr (Some d)" | (none) "c = Inr None"
      by (cases c) (auto split: option.splits)
    then show ?thesis
    proof cases
      case err
      then have "r = Inl e" "s' = t" using run c by (simp_all add: commit_durable_def io_bind_Inl)
      then have "run_ok L V q ?N K r s'" using found err by simp
      then show ?thesis by (rule run_ok_less) simp
    next
      case prior
      then have "r = Inr d" "s' = t" using run c by (simp_all add: commit_durable_def io_bind_Inr io_return_apply)
      then have "run_ok L V q ?N K r s'" using found prior by simp
      then show ?thesis by (rule run_ok_less) simp
    next
      case none
      then obtain zs where zs: "ready L V q ?N (own_objects (objects s)) (zs @ K) t"
        "jv_recorded V (du_journal t) = ?A" using found by auto
      have ok: "jv_ok V (du_journal t)" "ol_loaded t" using zs(1) by (simp_all add: ready_def stands_def synced_def)
      have "durable_loop L J f ty pre eff max_commit_attempts (Some (last ?A)) t = (r, s')"
        using run c none attempts [OF ok(1)] ok(2) zs(2) A
        by (simp add: commit_durable_def io_bind_Inr io_get_apply io_return_apply)
      then have "run_ok L V q n (zs @ K) r s'"
        using durable_loop_ok [OF L q zs(1), of "Some (last ?A)"] zs(2) A by auto
      then show ?thesis by (rule run_ok_later)
    qed
  qed
qed

end

section \<open>The receipt is such a journal\<close>

definition receipt_state :: "receipt \<Rightarrow> operation list \<times> op_id option" where
  "receipt_state r = (rc_attempts r, rc_committed_op_id r)"

text \<open>What a receipt opened on a file would hold; no file is a fresh receipt.\<close>

definition on_disk :: "receipt codec \<Rightarrow> string option \<Rightarrow> (operation list \<times> op_id option) set" where
  "on_disk C file = (case file of
       None \<Rightarrow> {([], None)}
     | Some b \<Rightarrow> (case decode C b of Inl _ \<Rightarrow> {} | Inr r \<Rightarrow> {receipt_state r}))"

definition receipt_view :: "receipt codec \<Rightarrow> remote_receipt journal_view" where
  "receipt_view C =
     \<lparr>jv_recorded = (\<lambda>j. rc_attempts (rr_receipt j)),
      jv_decided = (\<lambda>j. rc_committed_op_id (rr_receipt j)),
      jv_views = (\<lambda>j. insert (receipt_state (rr_receipt j)) (on_disk C (rr_file j))),
      jv_ok = (\<lambda>j. codec_ok C)\<rparr>"

lemma receipt_update_cases:
  assumes "codec_ok C" "receipt_update C change j = (r, j')"
  shows "(r = Inr () \<and> rr_receipt j' = change (rr_receipt j) \<and> on_disk C (rr_file j') = {receipt_state (change (rr_receipt j))})
    \<or> (isl r \<and> rr_receipt j' = rr_receipt j
        \<and> on_disk C (rr_file j') \<subseteq> insert (receipt_state (change (rr_receipt j))) (on_disk C (rr_file j)))"
  using assms(2) codec_okD [OF assms(1), of "change (rr_receipt j)"]
  by (auto simp: receipt_update_def on_disk_def Let_def split: list.splits disk_fault.splits)

lemma receipt_record_attempt_ok:
  assumes C: "codec_ok C" and run: "receipt_record_attempt C x j = (r, j')"
    and new: "op_op_id x \<notin> op_op_id ` set (rc_attempts (rr_receipt j))"
  defines "A \<equiv> rc_attempts (rr_receipt j)" and "D \<equiv> rc_committed_op_id (rr_receipt j)"
    and "views \<equiv> \<lambda>j. insert (receipt_state (rr_receipt j)) (on_disk C (rr_file j))"
  shows "rc_committed_op_id (rr_receipt j') = D
    \<and> (case r of
         Inl _ \<Rightarrow> rc_attempts (rr_receipt j') = A \<and> views j' \<subseteq> insert (A @ [x], D) (views j)
       | Inr _ \<Rightarrow> rc_attempts (rr_receipt j') = A @ [x] \<and> views j' = {(A @ [x], D)})"
proof -
  let ?change = "\<lambda>r. r\<lparr>rc_initial_base_head := Some (case rc_initial_base_head r of None \<Rightarrow> op_base_head x | Some b \<Rightarrow> b),
      rc_attempts := rc_attempts r @ [x]\<rparr>"
  have none: "\<not> (\<exists>a \<in> set (rc_attempts (rr_receipt j)). op_op_id a = op_op_id x)"
  proof
    assume "\<exists>a \<in> set (rc_attempts (rr_receipt j)). op_op_id a = op_op_id x"
    then show False using new by (metis image_eqI)
  qed
  have "receipt_update C ?change j = (r, j')"
    using run unfolding receipt_record_attempt_def if_not_P [OF none] .
  moreover define R where "R = ?change (rr_receipt j)"
  moreover have states: "receipt_state R = (A @ [x], D)" "receipt_state (rr_receipt j) = (A, D)"
    by (simp_all add: receipt_state_def A_def D_def R_def)
  ultimately have disk: "(r = Inr () \<and> rr_receipt j' = R \<and> on_disk C (rr_file j') = {receipt_state R})
    \<or> (isl r \<and> rr_receipt j' = rr_receipt j
        \<and> on_disk C (rr_file j') \<subseteq> insert (receipt_state R) (on_disk C (rr_file j)))"
    using receipt_update_cases [OF C, of ?change j r j'] by simp
  have state: "rc_attempts t = fst (receipt_state t)" "rc_committed_op_id t = snd (receipt_state t)" for t
    by (simp_all add: receipt_state_def)
  from disk show ?thesis
  proof (elim disjE conjE)
    assume "r = Inr ()" "rr_receipt j' = R" "on_disk C (rr_file j') = {receipt_state R}"
    then show ?thesis unfolding views_def state by (simp add: states)
  next
    assume r: "isl r" and j': "rr_receipt j' = rr_receipt j"
      and disk: "on_disk C (rr_file j') \<subseteq> insert (receipt_state R) (on_disk C (rr_file j))"
    obtain e where "r = Inl e" using r by (cases r) auto
    moreover have "views j' \<subseteq> insert (A @ [x], D) (views j)"
      unfolding views_def j' using disk states by blast
    ultimately show ?thesis unfolding state by (simp add: j' states)
  qed
qed

lemma receipt_record_committed_ok:
  assumes C: "codec_ok C" and run: "receipt_record_committed C i j = (r, j')"
  defines "views \<equiv> \<lambda>j. insert (receipt_state (rr_receipt j)) (on_disk C (rr_file j))"
  shows "rc_attempts (rr_receipt j') = rc_attempts (rr_receipt j)
    \<and> views j' \<subseteq> insert (rc_attempts (rr_receipt j), Some i) (views j)
    \<and> (r = Inr () \<longrightarrow> rc_committed_op_id (rr_receipt j') = Some i)"
proof (cases "rc_committed_op_id (rr_receipt j)")
  case None
  then have "receipt_update C (\<lambda>r. r\<lparr>rc_committed_op_id := Some i\<rparr>) j = (r, j')"
    using run by (simp add: receipt_record_committed_def)
  from receipt_update_cases [OF C this] show ?thesis
  proof (elim disjE conjE)
    assume "r = Inr ()" "rr_receipt j' = (rr_receipt j)\<lparr>rc_committed_op_id := Some i\<rparr>"
      "on_disk C (rr_file j') = {receipt_state ((rr_receipt j)\<lparr>rc_committed_op_id := Some i\<rparr>)}"
    then show ?thesis by (simp add: receipt_state_def views_def)
  next
    assume *: "isl r" "rr_receipt j' = rr_receipt j"
      "on_disk C (rr_file j') \<subseteq> insert (receipt_state ((rr_receipt j)\<lparr>rc_committed_op_id := Some i\<rparr>)) (on_disk C (rr_file j))"
    then show ?thesis by (cases r) (auto simp: receipt_state_def views_def)
  qed
next
  case (Some known)
  then show ?thesis using run by (auto simp: receipt_record_committed_def views_def split: if_splits)
qed

interpretation rcj: commit_journal "receipt_journal C" "receipt_view C" for C
proof
  fix j x r j'
  assume "jv_ok (receipt_view C) j" "jo_record_attempt (receipt_journal C) x j = (r, j')"
    "op_op_id x \<notin> op_op_id ` set (jv_recorded (receipt_view C) j)"
  then show "jv_ok (receipt_view C) j' \<and> jv_decided (receipt_view C) j' = jv_decided (receipt_view C) j
      \<and> (case r of
           Inl _ \<Rightarrow> jv_recorded (receipt_view C) j' = jv_recorded (receipt_view C) j
             \<and> jv_views (receipt_view C) j' \<subseteq> insert (jv_recorded (receipt_view C) j @ [x], jv_decided (receipt_view C) j)
                 (jv_views (receipt_view C) j)
         | Inr _ \<Rightarrow> jv_recorded (receipt_view C) j' = jv_recorded (receipt_view C) j @ [x]
             \<and> jv_views (receipt_view C) j' = {(jv_recorded (receipt_view C) j @ [x], jv_decided (receipt_view C) j)})"
    using receipt_record_attempt_ok [of C x j r j'] by (cases r) (simp_all add: receipt_view_def receipt_journal_def)
next
  fix j i r j'
  assume "jv_ok (receipt_view C) j" "jo_record_committed (receipt_journal C) i j = (r, j')"
  then show "jv_ok (receipt_view C) j' \<and> jv_recorded (receipt_view C) j' = jv_recorded (receipt_view C) j
      \<and> jv_views (receipt_view C) j' \<subseteq> insert (jv_recorded (receipt_view C) j, Some i) (jv_views (receipt_view C) j)
      \<and> (r = Inr () \<longrightarrow> jv_decided (receipt_view C) j' = Some i)"
    using receipt_record_committed_ok [of C i j r j'] by (simp add: receipt_view_def receipt_journal_def)
qed (simp_all add: receipt_view_def receipt_journal_def receipt_state_def receipt_attempts_def receipt_committed_def)

section \<open>Restarts\<close>

text \<open>A new process opens the receipt again and makes a new log object.\<close>

definition restarted :: "u64 \<Rightarrow> remote_receipt \<Rightarrow> (remote_receipt, 'z) durable_scheme \<Rightarrow> (remote_receipt, 'z) durable_scheme"
  where
  "restarted clock j s = (oplog_new (ol_device s) clock s)\<lparr>du_journal := j\<rparr>"

lemma reopened:
  assumes "receipt_open C (Inr (rr_file j)) disk i = Inr j'"
  shows "receipt_state (rr_receipt j') \<in> on_disk C (rr_file j)" "on_disk C (rr_file j') = {receipt_state (rr_receipt j')}"
  using assms
  by (auto simp: receipt_open_def on_disk_def receipt_state_def fresh_receipt_def split: option.splits sum.splits if_splits)

lemma request_ok_restarted:
  assumes s: "request_ok L (receipt_view C) q n K s" and j': "receipt_open C (Inr (rr_file (du_journal s))) disk i = Inr j'"
  shows "request_ok L (receipt_view C) q n K (restarted clock j' s)"
proof -
  let ?V = "receipt_view C" and ?j = "du_journal s" and ?S = "own_objects (objects s)"
  let ?v = "receipt_state (rr_receipt j')"
  have views: "jv_views ?V j' = {?v}" "?v \<in> jv_views ?V ?j" "jv_recorded ?V j' = fst ?v"
    using reopened [OF j'] by (auto simp: receipt_view_def receipt_state_def)
  have "journal_tracked L ?V (ol_device s) q j' ?S K"
    using s views by (auto simp: request_ok_def journal_tracked_def)
  moreover have "fresh_ids L (ol_device s) (taken ?V j' ?S) (draws s) n"
  proof (rule fresh_ids_weaken)
    show "fresh_ids L (ol_device s) (taken ?V ?j ?S) (draws s) n" using s by (simp add: request_ok_def)
    show "taken ?V j' ?S k = None" if "taken ?V ?j ?S k = None" for k
      using that views(1,2) by (auto simp: taken_def split: if_splits)
  qed
  moreover have "jv_ok ?V j'" using s by (simp add: request_ok_def receipt_view_def)
  ultimately show ?thesis
    using s by (simp add: request_ok_def restarted_def oplog_new_def protocol_env_def)
qed

text \<open>
  Any number of runs of one request, each in a process of its own. A run ends with an
  answer or an error; the next one starts from what the disk holds.
\<close>

primrec durable_runs ::
    "libs \<Rightarrow> receipt codec \<Rightarrow> request_identity \<Rightarrow> file_id \<Rightarrow> op_type \<Rightarrow> preconditions \<Rightarrow> effects
      \<Rightarrow> (u64 \<times> disk_fault list) list \<Rightarrow> (remote_receipt, 'z) durable_scheme
      \<Rightarrow> durable_commit core_result list \<times> (remote_receipt, 'z) durable_scheme" where
  "durable_runs L C i f ty pre eff [] s = ([], s)"
| "durable_runs L C i f ty pre eff (p # ps) s =
     (case receipt_open C (Inr (rr_file (du_journal s))) (snd p) i of
        Inl e \<Rightarrow> ([Inl e], s)
      | Inr j \<Rightarrow>
          (case commit_durable L (receipt_journal C) f ty pre eff (restarted (fst p) j s) of
             (r, t) \<Rightarrow> (case durable_runs L C i f ty pre eff ps t of (rs, u) \<Rightarrow> (r # rs, u))))"

lemma tracked_disjoint:
  assumes "tracked L d q S ys v" "a \<in> set (fst v)"
  shows "op_op_id a \<notin> snd q"
  using assms by (cases v) (auto simp: tracked_def)

definition own_ids :: "libs \<Rightarrow> device_id \<Rightarrow> operation list \<Rightarrow> op_id set" where
  "own_ids L d K = {i \<in> op_op_id ` set K. is_own L d i}"

text \<open>One run of a request, and what the runs of a request leave.\<close>

context commit_journal
begin

lemma run_step:
  fixes s :: "('j, 'z) durable_scheme"
  assumes L: "libs_ok L" and q: "\<And>t :: ('j, 'z) durable_scheme. fst q (planned L t (Some f) ty pre eff)"
    and s: "request_ok L V q (n + max_commit_attempts) K s" "\<not> ol_loaded s"
    and run: "commit_durable L J f ty pre eff s = (r, t)"
  shows "\<exists>zs. request_ok L V q n (zs @ K) t \<and> ol_device t = ol_device s
    \<and> (\<forall>c. r = Inr c \<longrightarrow> dc_operation c \<in> set (zs @ K) \<and> fst q (dc_operation c)
        \<and> is_own L (ol_device s) (op_op_id (dc_operation c)) \<and> op_op_id (dc_operation c) \<notin> snd q)"
proof -
  from commit_durable_ok [OF L s(1) _ q run] s(2) have "run_ok L V q n K r t" by simp
  then obtain K1 where K1: "request_ok L V q n K1 t" "suffix K K1"
    and c1: "\<And>c. r = Inr c \<Longrightarrow> dc_operation c \<in> set K1 \<and> dc_operation c \<in> set (jv_recorded V (du_journal t))"
    by (auto simp: run_ok_def)
  have dev: "ol_device t = ol_device s" using run leaves_commit_durable unfolding leaves_def by blast
  obtain zs where zs: "K1 = zs @ K" using K1(2) by (auto simp: suffix_def)
  have st: "stands L V q n (own_objects (objects t)) K1 t" by (rule stands_start [OF K1(1)])
  have "fst q (dc_operation c) \<and> is_own L (ol_device t) (op_op_id (dc_operation c))
      \<and> op_op_id (dc_operation c) \<notin> snd q" if "r = Inr c" for c
    using tracked_member(1,2) [OF stands_tracked [OF st]] tracked_disjoint [OF stands_tracked [OF st]] c1 [OF that]
    by simp
  then show ?thesis using K1(1) c1 dev zs by (intro exI [of _ zs]) auto
qed

lemma request_once:
  fixes u :: "('j, 'z) durable_scheme"
  assumes L: "libs_ok L" and u: "request_ok L V (request_of f ty eff, own_ids L d K) 0 (new @ K) u" "ol_device u = d"
    and c: "\<And>c. Inr c \<in> set rs \<Longrightarrow> dc_operation c \<in> set (new @ K) \<and> is_own L d (op_op_id (dc_operation c))
      \<and> op_op_id (dc_operation c) \<notin> own_ids L d K"
  defines "own \<equiv> \<lambda>y. is_own L d (op_op_id y)"
  shows "committed L (objects u) (new @ K) \<and> length (filter own new) \<le> 1
    \<and> list_all (request_of f ty eff) (filter own new)
    \<and> list_all (\<lambda>r. case r of Inl _ \<Rightarrow> True | Inr c \<Rightarrow> filter own new = [dc_operation c]) rs"
proof -
  let ?q = "(request_of f ty eff, own_ids L d K)"
  have com: "committed L (objects u) (new @ K)" using u(1) by (simp add: request_ok_def)
  let ?A = "jv_recorded V (du_journal u)"
  have st: "stands L V ?q 0 (own_objects (objects u)) (new @ K) u" by (rule stands_start [OF u(1)])
  note t = stands_tracked [OF st]
  have sub: "op_op_id y \<in> op_op_id ` set ?A" if "y \<in> set new" "own y" for y
  proof -
    have "op_op_id y \<notin> op_op_id ` set K" using committed_distinct [OF com] that(1) by auto
    then have "op_op_id y \<notin> own_ids L d K" by (simp add: own_ids_def)
    then show ?thesis using t that u(2) by (auto simp: tracked_def own_def)
  qed
  have "filter own new = filter own (filter (\<lambda>y. op_op_id y \<in> op_op_id ` set ?A) new)"
    using sub by (auto intro!: filter_cong)
  then have "length (filter own new) \<le> length (commits_of ?A new)" by (metis commits_of_def length_filter_le)
  also have "\<dots> \<le> length (commits_of ?A (new @ K))" by (simp add: commits_of_def)
  also have "\<dots> \<le> 1" using t by (simp add: tracked_def)
  finally have one: "length (filter own new) \<le> 1" .
  have wanted: "request_of f ty eff y" if y: "y \<in> set new" "own y" for y
  proof -
    obtain a where a: "a \<in> set ?A" "op_op_id a = op_op_id y" using sub [OF y] by auto
    have "a = y" by (rule recorded_committed [OF L st a(1) _ a(2)]) (use y in simp)
    then show ?thesis using tracked_member(2) [OF t, of a] a(1) by simp
  qed
  have "filter own new = [dc_operation x]" if "Inr x \<in> set rs" for x
  proof -
    have "dc_operation x \<notin> set K" using c [OF that] by (auto simp: own_ids_def)
    then have "dc_operation x \<in> set (filter own new)" using c [OF that] by (auto simp: own_def)
    then show ?thesis using one by (cases "filter own new") auto
  qed
  then show ?thesis
    using com one wanted by (auto simp: list_all_iff split: sum.splits)
qed

end

lemma durable_runs_ok:
  fixes s :: "(remote_receipt, 'z) durable_scheme"
  assumes L: "libs_ok L" and q: "\<And>t :: (remote_receipt, 'z) durable_scheme. fst q (planned L t (Some f) ty pre eff)"
  shows "request_ok L (receipt_view C) q (n + max_commit_attempts * length ps) K s
    \<Longrightarrow> durable_runs L C i f ty pre eff ps s = (rs, u)
    \<Longrightarrow> \<exists>zs. request_ok L (receipt_view C) q n (zs @ K) u \<and> ol_device u = ol_device s
      \<and> (\<forall>c. Inr c \<in> set rs \<longrightarrow> dc_operation c \<in> set (zs @ K) \<and> fst q (dc_operation c)
          \<and> is_own L (ol_device s) (op_op_id (dc_operation c)) \<and> op_op_id (dc_operation c) \<notin> snd q)"
proof (induction ps arbitrary: s K rs)
  case Nil
  then show ?case by (intro exI [of _ "[]"]) simp
next
  case (Cons p ps)
  let ?V = "receipt_view C"
  show ?case
  proof (cases "receipt_open C (Inr (rr_file (du_journal s))) (snd p) i")
    case (Inl e)
    then have "rs = [Inl e]" "u = s" using Cons.prems(2) by auto
    moreover have "request_ok L ?V q n K s"
      using Cons.prems(1) fresh_ids_le by (fastforce simp: request_ok_def)
    ultimately show ?thesis by (intro exI [of _ "[]"]) simp
  next
    case (Inr j)
    let ?s = "restarted (fst p) j s"
    let ?n = "n + max_commit_attempts * length ps"
    obtain r t where r: "commit_durable L (receipt_journal C) f ty pre eff ?s = (r, t)"
      by (cases "commit_durable L (receipt_journal C) f ty pre eff ?s")
    obtain rs' where rs: "durable_runs L C i f ty pre eff ps t = (rs', u)" "rs = r # rs'"
      using Cons.prems(2) Inr r by (auto split: prod.splits)
    have "request_ok L ?V q (?n + max_commit_attempts) K ?s"
      using request_ok_restarted [OF Cons.prems(1) Inr, of "fst p"] by (simp add: algebra_simps)
    from rcj.run_step [OF L q this _ r] obtain ws where ws: "request_ok L ?V q ?n (ws @ K) t" "ol_device t = ol_device s"
      and c1: "\<And>c. r = Inr c \<Longrightarrow> dc_operation c \<in> set (ws @ K) \<and> fst q (dc_operation c)
          \<and> is_own L (ol_device s) (op_op_id (dc_operation c)) \<and> op_op_id (dc_operation c) \<notin> snd q"
      by (auto simp: restarted_def oplog_new_def)
    from Cons.IH [OF ws(1) rs(1)] obtain zs where "request_ok L ?V q n (zs @ ws @ K) u" "ol_device u = ol_device t"
      "\<And>c. Inr c \<in> set rs' \<Longrightarrow> dc_operation c \<in> set (zs @ ws @ K) \<and> fst q (dc_operation c)
          \<and> is_own L (ol_device t) (op_op_id (dc_operation c)) \<and> op_op_id (dc_operation c) \<notin> snd q"
      by blast
    then show ?thesis
      using ws(2) rs(2) c1 by (intro exI [of _ "zs @ ws"]) auto
  qed
qed

text \<open>A request that has not been run yet: no receipt file, no attempt.\<close>

definition new_journal :: "request_identity \<Rightarrow> remote_receipt" where
  "new_journal i = \<lparr>rr_receipt = fresh_receipt i, rr_file = None, rr_disk = []\<rparr>"

definition request_new ::
    "libs \<Rightarrow> receipt codec \<Rightarrow> request_identity \<Rightarrow> nat \<Rightarrow> operation list \<Rightarrow> (remote_receipt, 'z) durable_scheme \<Rightarrow> bool"
  where
  "request_new L C i n K s \<longleftrightarrow> codec_ok C \<and> protocol_env L (is_own L (ol_device s)) s \<and> committed L (objects s) K
     \<and> fresh_ids L (ol_device s) (own_objects (objects s)) (draws s) n \<and> du_journal s = new_journal i"

lemma request_new_ok:
  assumes "request_new L C i n K s"
  shows "request_ok L (receipt_view C) (p, own_ids L (ol_device s) K) n K s"
proof -
  let ?V = "receipt_view C"
  have v: "jv_views ?V (new_journal i) = {([], None)}" "jv_recorded ?V (new_journal i) = []"
    by (simp_all add: receipt_view_def new_journal_def on_disk_def receipt_state_def fresh_receipt_def)
  have t: "tracked L (ol_device s) (p, own_ids L (ol_device s) K) S K ([], None)" for S
    by (auto simp: tracked_def based_def commits_of_def own_ids_def)
  have "jv_ok ?V (new_journal i)" using assms by (simp add: request_new_def receipt_view_def)
  note ok = this
  have "taken ?V (new_journal i) S = S" for S using v by (simp add: taken_def fun_eq_iff)
  then show ?thesis
    using assms v t ok by (simp add: request_new_def request_ok_def journal_tracked_def)
qed

lemma durable_runs_once:
  fixes s :: "(remote_receipt, 'z) durable_scheme"
  assumes L: "libs_ok L" and s: "request_new L C i (max_commit_attempts * length ps) K s"
    and run: "durable_runs L C i f ty pre eff ps s = (rs, u)"
  defines "own \<equiv> \<lambda>y. is_own L (ol_device s) (op_op_id y)"
  shows "\<exists>new. committed L (objects u) (new @ K) \<and> length (filter own new) \<le> 1
    \<and> list_all (request_of f ty eff) (filter own new)
    \<and> list_all (\<lambda>r. case r of Inl _ \<Rightarrow> True | Inr c \<Rightarrow> filter own new = [dc_operation c]) rs"
proof -
  let ?q = "(request_of f ty eff, own_ids L (ol_device s) K)" and ?V = "receipt_view C"
  have "fst ?q (planned L t (Some f) ty pre eff)" for t :: "(remote_receipt, 'z) durable_scheme"
    by (simp add: request_of_def planned_def)
  from durable_runs_ok [OF L this _ run, of 0 K] request_new_ok [OF s] obtain new where
    u: "request_ok L ?V ?q 0 (new @ K) u" "ol_device u = ol_device s"
    and c: "\<And>c. Inr c \<in> set rs \<Longrightarrow> dc_operation c \<in> set (new @ K) \<and> own (dc_operation c)
      \<and> op_op_id (dc_operation c) \<notin> own_ids L (ol_device s) K"
    by (auto simp: own_def)
  have "Inr x \<in> set rs \<Longrightarrow> dc_operation x \<in> set (new @ K) \<and> is_own L (ol_device s) (op_op_id (dc_operation x))
      \<and> op_op_id (dc_operation x) \<notin> own_ids L (ol_device s) K" for x
    using c [of x] by (simp add: own_def)
  from rcj.request_once [OF L u, of rs, OF this] show ?thesis unfolding own_def by blast
qed

section \<open>An undisturbed run\<close>

lemma load_head_consistent_quiet:
  assumes s: "events s = []" and K: "committed L (objects s) K"
  shows "load_head_consistent L s = (Inr (), s\<lparr>ol_head := head_of K, ol_etag := map_option (store_etag L) (head_of K),
    ol_loaded := True\<rparr>)"
proof -
  have inv: "store_inv L (objects s)" and head: "contents (objects s) head_key = head_of K"
    and utf: "\<And>h. head_of K = Some h \<Longrightarrow> head_text h" using K by (auto simp: committed_def)
  have "load_head L s = (Inr (head_of K), s\<lparr>ol_head := head_of K, ol_etag := map_option (store_etag L) (head_of K),
      ol_loaded := True\<rparr>)"
  proof (cases "head_of K")
    case None
    then show ?thesis
      using quiet_head [OF s inv, of head_key] head by (simp add: load_head_def io_simps)
  next
    case (Some h)
    then have "string_from_utf8 h = Some h" "trim h = h" "h \<noteq> []"
      using utf by (auto simp: head_text_def string_from_utf8_def)
    then show ?thesis
      using quiet_head [OF s inv, of head_key] quiet_requests(2) [OF s, of head_key] head Some
      by (simp add: load_head_def load_present_def store_head_def io_simps Let_def)
  qed
  then show ?thesis
    by (simp add: load_head_consistent_def max_head_load_attempts_def numeral_3_eq_3 io_simps)
qed

text \<open>The operation an undisturbed run writes.\<close>

definition first_attempt ::
    "libs \<Rightarrow> u64 \<Rightarrow> file_id \<Rightarrow> op_type \<Rightarrow> preconditions \<Rightarrow> effects \<Rightarrow> operation list \<Rightarrow> (remote_receipt, 'z) durable_scheme
      \<Rightarrow> operation" where
  "first_attempt L clock f ty pre eff K s =
     planned L (s\<lparr>ol_clock := clock, ol_head := head_of K\<rparr>) (Some f) ty pre eff"

lemma durable_runs_quiet:
  fixes s :: "(remote_receipt, 'z) durable_scheme"
  assumes L: "libs_ok L" and s: "request_new L C i max_commit_attempts K s" "events s = []"
    and valid: "validate_operation (first_attempt L clock f ty pre eff K s) = Inr ()"
  shows "fst (durable_runs L C i f ty pre eff [(clock, [])] s)
    = [Inr \<lparr>dc_operation = first_attempt L clock f ty pre eff K s, dc_superseded = False\<rparr>]"
proof -
  let ?x = "first_attempt L clock f ty pre eff K s" and ?J = "receipt_journal C"
  let ?b = "json_of (json_operation L) ?x" and ?i = "op_op_id ?x"
  define j0 where "j0 = new_journal i"
  define s0 where "s0 = restarted clock j0 s"
  define s1 where "s1 = s0\<lparr>ol_head := head_of K, ol_etag := map_option (store_etag L) (head_of K), ol_loaded := True\<rparr>"
  define s2 where "s2 = s1\<lparr>ol_clock := ol_clock s1 + 1, draws := draws s1 + 1\<rparr>"
  have C: "codec_ok C" and K: "committed L (objects s) K" and j: "du_journal s = j0"
    and fr: "fresh_ids L (ol_device s) (own_objects (objects s)) (draws s) (Suc 7)"
    using s(1) by (simp_all add: request_new_def j0_def max_commit_attempts_def eval_nat_numeral)
  have reopen: "receipt_open C (Inr (rr_file j0)) [] i = Inr j0"
    by (simp add: receipt_open_def j0_def new_journal_def)
  have fields: "objects s0 = objects s" "events s0 = []" "du_journal s0 = j0" "draws s0 = draws s"
    "ol_device s0 = ol_device s" "ol_clock s0 = clock" "\<not> ol_loaded s0" "now s0 = now s"
    using s(2) by (simp_all add: s0_def restarted_def oplog_new_def)
  have load: "load_head_consistent L s0 = (Inr (), s1)"
    using load_head_consistent_quiet [of s0 L K] fields K by (simp add: s1_def)
  have x: "planned L s1 (Some f) ty pre eff = ?x"
    by (simp add: planned_def first_attempt_def s1_def fields)
  obtain j1 where j1: "receipt_record_attempt C ?x j0 = (Inr (), j1)" "rr_disk j1 = []"
    "rc_committed_op_id (rr_receipt j1) = None"
    using codec_okD(1) [OF C]
    by (simp add: receipt_record_attempt_def receipt_update_def j0_def new_journal_def fresh_receipt_def Let_def)
  obtain j2 where j2: "receipt_record_committed C ?i j1 = (Inr (), j2)"
    using codec_okD(1) [OF C] j1(2,3) by (simp add: receipt_record_committed_def receipt_update_def Let_def)
  define s3 where "s3 = s2\<lparr>du_journal := j1\<rparr>"
  have j0s: "du_journal s2 = j0" by (simp add: s2_def s1_def fields)
  have planned: "next_operation L (Some f) ty pre eff s1 = (Inr ?x, s2)"
    by (simp only: next_operation_run x s2_def)
  have recorded: "journal_write (jo_record_attempt ?J ?x) s2 = (Inr (), s3)"
    by (simp add: journal_write_def receipt_journal_def j0s j1(1) s3_def)
  have made: "new_attempt L ?J f ty pre eff s1 = (Inr ?x, s3)"
    unfolding new_attempt_def
    by (simp only: planned valid io_result_def io_return_def io_bind_def recorded sum.case prod.case)
  have free: "contents (objects s3) (op_key ?i) = None"
    using fresh_ids_Suc(1) [OF L fr, of "clock + 1"]
    by (simp add: own_objects_def first_attempt_def s3_def s2_def s1_def fields)
  let ?m = "btree_insert (op_key ?i) (?b, store_etag L ?b) (objects s3)"
  have w: "write_operation L ?x s3 = (Inr (), s3\<lparr>objects := ?m\<rparr>)"
    by (rule write_operation_quiet [OF L _ free]) (simp add: s3_def s2_def s1_def fields)
  let ?s4 = "s3\<lparr>objects := ?m\<rparr>"
  have inv: "store_inv L (objects s)" "contents (objects s) head_key = head_of K" using K by (auto simp: committed_def)
  have "events ?s4 = []" "synced L ?s4 K" "store_inv L (objects ?s4)" "contents (objects ?s4) head_key = head_of K"
    using inv by (simp_all add: s3_def s2_def s1_def fields synced_def)
  from advance_head_quiet [OF L this] obtain s5 where a: "advance_head L ?i ?s4 = (Inr True, s5)" "du_journal s5 = j1"
    by (simp add: s3_def)
  have c: "fst (confirm ?J ?x s5) = Inr \<lparr>dc_operation = ?x, dc_superseded = False\<rparr>"
    using j2 a(2) by (simp add: confirm_def io_simps journal_write_def receipt_journal_def)
  have loop: "durable_loop L ?J f ty pre eff max_commit_attempts None s1 = confirm ?J ?x s5"
    using made w a(1) unfolding max_commit_attempts_def
    by (simp add: numeral_eq_Suc durable_loop_round pending_or_new_def io_bind_Inr del: durable_loop.simps)
  have "committed_attempt L ?J f s0 = (Inr None, s0)"
    by (simp add: committed_attempt_def journal_read_def io_simps receipt_journal_def receipt_attempts_def fields
        j0_def new_journal_def fresh_receipt_def)
  then have "commit_durable L ?J f ty pre eff s0 = durable_loop L ?J f ty pre eff max_commit_attempts None s1"
    using load fields(3,7)
    by (simp add: commit_durable_def io_simps journal_read_def receipt_journal_def receipt_attempts_def
        j0_def new_journal_def fresh_receipt_def)
  then show ?thesis
    using c loop reopen j
    by (cases "confirm ?J ?x s5") (simp add: s0_def)
qed

end
