(* ===== verification/Compaction.thy ===== *)
theory Compaction
  imports Stored_Json Op_Chain
begin

text \<open>
  Compaction of the operation log (\<open>metadata/compaction.rs\<close>): devices publish a
  watermark (how far they have applied the log); operations older than a snapshot
  that every active device has passed, and older than the retention window, are
  deleted from the far end. A cursor object makes an interrupted run repeatable.
\<close>

definition op_compaction_cursor_schema_version :: u32 where
  "op_compaction_cursor_schema_version = 1"

record op_compaction_report =
  rp_active_registered_devices :: nat
  rp_active_watermarks :: nat
  rp_missing_watermarks :: nat
  rp_pruned_ops :: u64
  rp_skipped_reason :: "string option"

definition report_skipped :: "string \<Rightarrow> op_compaction_report" where
  "report_skipped reason =
     \<lparr>rp_active_registered_devices = 0, rp_active_watermarks = 0, rp_missing_watermarks = 0, rp_pruned_ops = 0,
      rp_skipped_reason = Some reason\<rparr>"

section \<open>DeviceWatermarks\<close>

definition put_watermark ::
    "libs \<Rightarrow> device_watermark \<Rightarrow> ('z world_scheme, core_error, device_watermark) io" where
  "put_watermark L w =
     io_bind (io_result (to_json (json_watermark L) w)) (\<lambda>json.
     io_bind (put_object L (device_watermark_key (uuid_text L (wm_device_id w))) json) (\<lambda>_. io_return w))"

definition watermark_update ::
    "libs \<Rightarrow> device_id \<Rightarrow> u64 \<Rightarrow> string \<Rightarrow> ('z world_scheme, core_error, device_watermark) io" where
  "watermark_update L d seq applied_head =
     io_bind utc_now (\<lambda>at.
       put_watermark L
         \<lparr>wm_device_id = d, wm_last_seen_at = rfc3339_text L at, wm_applied_snapshot_seq = seq,
          wm_applied_head = applied_head, wm_client_version = client_version L, wm_status = Active\<rparr>)"

definition read_watermark :: "libs \<Rightarrow> string \<Rightarrow> ('z world_scheme, core_error, device_watermark) io" where
  "read_watermark L k = read_json L (json_watermark L) ''device watermark UTF-8: '' [] k"

definition active_watermarks ::
    "libs \<Rightarrow> u64 \<Rightarrow> ('z world_scheme, core_error, device_watermark list) io" where
  "active_watermarks L stale_days =
     io_bind (list_objects device_prefix) (\<lambda>keys.
     io_bind utc_now (\<lambda>at.
       io_fold (\<lambda>k acc.
         io_bind (read_watermark L k) (\<lambda>w.
           if wm_status w = Retired then io_return acc
           else
             io_bind (io_result (timestamp_is_stale L (wm_last_seen_at w) stale_days at)) (\<lambda>stale.
               io_return (if stale then acc else acc @ [w]))))
         (filter (\<lambda>k. ends_with k ''/watermark.json'') keys) []))"

definition retired_devices :: "libs \<Rightarrow> string list \<Rightarrow> ('z world_scheme, core_error, device_id set) io" where
  "retired_devices L keys =
     io_fold (\<lambda>k acc.
       io_bind (read_watermark L k) (\<lambda>w.
         io_return (if wm_status w = Retired then insert (wm_device_id w) acc else acc)))
       (filter (\<lambda>k. ends_with k ''/watermark.json'') keys) {}"

definition active_registered_device_ids ::
    "libs \<Rightarrow> u64 \<Rightarrow> ('z world_scheme, core_error, device_id set) io" where
  "active_registered_device_ids L stale_days =
     io_bind (list_objects device_prefix) (\<lambda>keys.
     io_bind utc_now (\<lambda>at.
     io_bind (retired_devices L keys) (\<lambda>retired.
       io_fold (\<lambda>k acc.
         io_bind (read_json L (json_device L) ''device registration UTF-8: '' ''device registration: '' k) (\<lambda>d.
         io_bind (io_result (timestamp_is_stale L (dv_last_seen d) stale_days at)) (\<lambda>stale.
           io_return (if stale \<or> dv_device_id d \<in> retired then acc else insert (dv_device_id d) acc))))
         (filter (\<lambda>k. ends_with k ''/registration.json'') keys) {})))"

definition retire :: "libs \<Rightarrow> device_id \<Rightarrow> ('z world_scheme, core_error, device_watermark) io" where
  "retire L d =
     io_bind
       (io_try (get_object (device_watermark_key (uuid_text L d))) (\<lambda>r. case r of
            Inr data \<Rightarrow> io_result (parse_json L (json_watermark L) ''device watermark UTF-8: '' [] data)
          | Inl e \<Rightarrow>
              if is_NotFound e
              then io_return \<lparr>wm_device_id = d, wm_last_seen_at = [], wm_applied_snapshot_seq = 0,
                     wm_applied_head = [], wm_client_version = client_version L, wm_status = Retired\<rparr>
              else io_throw e))
       (\<lambda>w.
     io_bind utc_now (\<lambda>at.
       let w' = w\<lparr>wm_last_seen_at := rfc3339_text L at, wm_status := Retired\<rparr> in
       io_bind (io_result (to_json (json_watermark L) w')) (\<lambda>json.
       io_bind (put_object L (device_watermark_key (uuid_text L d)) json) (\<lambda>_. io_return w'))))"

section \<open>OpLogCompactor: reading\<close>

definition read_snapshot_metadata :: "libs \<Rightarrow> u64 \<Rightarrow> ('z world_scheme, core_error, snapshot_metadata) io" where
  "read_snapshot_metadata L n =
     read_json L (json_snapshot_metadata L) ''snapshot metadata UTF-8: '' [] (snapshot_metadata_key n)"

definition latest_snapshot_metadata ::
    "libs \<Rightarrow> ('z world_scheme, core_error, snapshot_metadata option) io" where
  "latest_snapshot_metadata L =
     io_bind (list_objects ''.s4drive/meta/snapshots/'') (\<lambda>keys.
       case rev (sort (List.map_filter snapshot_metadata_seq keys)) of
         [] \<Rightarrow> io_return None
       | n # _ \<Rightarrow> io_bind (read_snapshot_metadata L (of_nat n)) (\<lambda>m. io_return (Some m)))"

definition read_op :: "libs \<Rightarrow> op_id \<Rightarrow> ('z world_scheme, core_error, operation) io" where
  "read_op L i = read_json L (json_operation L) ''operation UTF-8: '' [] (op_key i)"

text \<open>The three walks, each with the number of rounds it has left.\<close>

primrec op_count_loop ::
    "libs \<Rightarrow> string option \<Rightarrow> nat \<Rightarrow> string \<Rightarrow> nat \<Rightarrow> ('z world_scheme, core_error, nat) io" where
  "op_count_loop L stop_at 0 cursor count = io_return count"
| "op_count_loop L stop_at (Suc n) cursor count =
     (if cursor = [] \<or> stop_at = Some cursor then io_return count
      else
        io_try (read_op L cursor) (\<lambda>r. case r of
            Inr x \<Rightarrow> op_count_loop L stop_at n (op_base_head x) (count + 1)
          | Inl e \<Rightarrow> if is_NotFound e then io_return count else io_throw e))"

definition op_count_since ::
    "libs \<Rightarrow> string \<Rightarrow> string option \<Rightarrow> nat \<Rightarrow> ('z world_scheme, core_error, nat) io" where
  "op_count_since L current_head stop_at max_count =
     (if current_head = [] \<or> max_count = 0 then io_return 0
      else op_count_loop L stop_at max_count current_head 0)"

primrec head_reaches_loop ::
    "libs \<Rightarrow> string \<Rightarrow> nat \<Rightarrow> string \<Rightarrow> ('z world_scheme, core_error, bool) io" where
  "head_reaches_loop L ancestor 0 cursor = io_return False"
| "head_reaches_loop L ancestor (Suc n) cursor =
     (if cursor = ancestor then io_return True
      else
        io_try (read_op L cursor) (\<lambda>r. case r of
            Inl e \<Rightarrow> if is_NotFound e then io_return False else io_throw e
          | Inr x \<Rightarrow>
              if op_base_head x = ancestor then io_return True
              else if op_base_head x = [] then io_return False
              else head_reaches_loop L ancestor n (op_base_head x)))"

definition head_reaches ::
    "libs \<Rightarrow> string \<Rightarrow> string \<Rightarrow> nat \<Rightarrow> ('z world_scheme, core_error, bool) io" where
  "head_reaches L head ancestor max_depth =
     (if ancestor = [] \<or> head = ancestor then io_return True
      else if head = [] \<or> max_depth = 0 then io_return False
      else head_reaches_loop L ancestor max_depth head)"

record compactable_scan =
  cs_op_ids :: "string list"
  cs_next_op :: string
  cs_retention_blocked :: bool

primrec compactable_loop ::
    "libs \<Rightarrow> int \<Rightarrow> nat \<Rightarrow> string \<Rightarrow> string list \<Rightarrow> ('z world_scheme, core_error, compactable_scan) io" where
  "compactable_loop L cutoff 0 cursor ids =
     io_return \<lparr>cs_op_ids = ids, cs_next_op = cursor, cs_retention_blocked = False\<rparr>"
| "compactable_loop L cutoff (Suc n) cursor ids =
     (if cursor = []
      then io_return \<lparr>cs_op_ids = ids, cs_next_op = cursor, cs_retention_blocked = False\<rparr>
      else
        io_try (read_op L cursor) (\<lambda>r. case r of
            Inl e \<Rightarrow>
              if is_NotFound e
              then io_return \<lparr>cs_op_ids = ids, cs_next_op = [], cs_retention_blocked = False\<rparr>
              else io_throw e
          | Inr x \<Rightarrow>
              (case rfc3339_parse L (op_timestamp x) of
                 Inl m \<Rightarrow> io_throw (Protocol (''operation timestamp: '' @ m))
               | Inr t \<Rightarrow>
                   if t > cutoff
                   then io_return \<lparr>cs_op_ids = ids, cs_next_op = cursor, cs_retention_blocked = True\<rparr>
                   else compactable_loop L cutoff n (op_base_head x) (ids @ [cursor]))))"

definition compactable_ancestors ::
    "libs \<Rightarrow> string \<Rightarrow> nat \<Rightarrow> int \<Rightarrow> ('z world_scheme, core_error, compactable_scan) io" where
  "compactable_ancestors L start_op batch_limit cutoff = compactable_loop L cutoff batch_limit start_op []"

section \<open>OpLogCompactor: the cursor and the compaction\<close>

definition read_cursor :: "libs \<Rightarrow> ('z world_scheme, core_error, op_compaction_cursor option) io" where
  "read_cursor L =
     io_try (get_object ops_tail_key) (\<lambda>r. case r of
         Inl e \<Rightarrow> if is_NotFound e then io_return None else io_throw e
       | Inr data \<Rightarrow>
           (case string_from_utf8 data of
              None \<Rightarrow> io_throw (Protocol (''op compaction cursor UTF-8: '' @ utf8_error_text L data))
            | Some t \<Rightarrow>
                (case decode (json_cursor L) t of
                   Inl _ \<Rightarrow> io_return None
                 | Inr c \<Rightarrow>
                     io_return (if oc_schema_version c = op_compaction_cursor_schema_version
                                then Some c else None))))"

definition write_cursor :: "libs \<Rightarrow> op_compaction_cursor \<Rightarrow> ('z world_scheme, core_error, unit) io" where
  "write_cursor L c =
     io_bind (io_result (case encode (json_cursor L) c of
         Inl m \<Rightarrow> Inl (Protocol (''op compaction cursor: '' @ m)) | Inr t \<Rightarrow> Inr t)) (\<lambda>json.
     io_bind (put_object L ops_tail_key json) (\<lambda>_. io_return ()))"

definition fresh_cursor :: "snapshot_metadata \<Rightarrow> string \<Rightarrow> string \<Rightarrow> op_compaction_cursor" where
  "fresh_cursor snapshot covered next_op =
     \<lparr>oc_schema_version = op_compaction_cursor_schema_version, oc_snapshot_seq = sm_seq_num snapshot,
      oc_covered_head = covered, oc_next_op = next_op, oc_pending_delete = []\<rparr>"

definition reusable_cursor :: "snapshot_metadata \<Rightarrow> op_compaction_cursor \<Rightarrow> bool" where
  "reusable_cursor snapshot c \<longleftrightarrow>
     (oc_snapshot_seq c \<le> sm_seq_num snapshot \<and> (oc_next_op c \<noteq> [] \<or> oc_pending_delete c \<noteq> []))
     \<or> oc_snapshot_seq c = sm_seq_num snapshot"

definition load_or_initialize_cursor ::
    "libs \<Rightarrow> snapshot_metadata \<Rightarrow> string \<Rightarrow> ('z world_scheme, core_error, op_compaction_cursor) io" where
  "load_or_initialize_cursor L snapshot covered =
     io_bind (read_cursor L) (\<lambda>stored.
       if \<exists>c. stored = Some c \<and> reusable_cursor snapshot c then io_return (the stored)
       else
         io_try (read_op L covered) (\<lambda>r. case r of
             Inr x \<Rightarrow> io_return (fresh_cursor snapshot covered (op_base_head x))
           | Inl e \<Rightarrow> if is_NotFound e then io_return (fresh_cursor snapshot covered []) else io_throw e))"

definition delete_ops ::
    "string list \<Rightarrow> op_compaction_report \<Rightarrow> ('z world_scheme, core_error, op_compaction_report) io" where
  "delete_ops ids report =
     io_fold (\<lambda>i rp. io_bind (delete_object (op_key i)) (\<lambda>_. io_return (rp\<lparr>rp_pruned_ops := rp_pruned_ops rp + 1\<rparr>)))
       ids report"

text \<open>The part of \<open>compact\<close> after the watermark checks.\<close>

definition compact_batch ::
    "libs \<Rightarrow> snapshot_metadata \<Rightarrow> string \<Rightarrow> nat \<Rightarrow> u64 \<Rightarrow> op_compaction_report
      \<Rightarrow> ('z world_scheme, core_error, op_compaction_report) io" where
  "compact_batch L snapshot covered batch_limit retention_days report =
     io_bind (load_or_initialize_cursor L snapshot covered) (\<lambda>cursor.
       if oc_pending_delete cursor \<noteq> [] then
         io_bind (delete_ops (oc_pending_delete cursor) report) (\<lambda>rp.
         io_bind (write_cursor L (cursor\<lparr>oc_pending_delete := []\<rparr>)) (\<lambda>_. io_return rp))
       else if oc_next_op cursor = [] then
         io_return (report\<lparr>rp_skipped_reason := Some ''no compactable ops before snapshot head''\<rparr>)
       else
         io_bind utc_now (\<lambda>at.
         io_bind (compactable_ancestors L (oc_next_op cursor) (max batch_limit 1)
             (at - duration_days (as_i64 retention_days))) (\<lambda>scan.
           let cursor' = cursor\<lparr>oc_next_op := cs_next_op scan\<rparr> in
           if cs_op_ids scan = [] then
             io_bind (write_cursor L cursor') (\<lambda>_.
               io_return (report\<lparr>rp_skipped_reason := Some (if cs_retention_blocked scan
                 then ''oldest compactable op is still inside retention window''
                 else ''no compactable ops before snapshot head'')\<rparr>))
           else
             io_bind (write_cursor L (cursor'\<lparr>oc_pending_delete := cs_op_ids scan\<rparr>)) (\<lambda>_.
             io_bind (delete_ops (cs_op_ids scan) report) (\<lambda>rp.
             io_bind (write_cursor L (cursor'\<lparr>oc_pending_delete := []\<rparr>)) (\<lambda>_. io_return rp))))))"

definition compact ::
    "libs \<Rightarrow> snapshot_metadata \<Rightarrow> nat \<Rightarrow> u64 \<Rightarrow> u64 \<Rightarrow> ('z world_scheme, core_error, op_compaction_report) io" where
  "compact L snapshot batch_limit stale_days retention_days =
     (case sm_covered_head snapshot of
        None \<Rightarrow> io_return (report_skipped ''snapshot has no covered head'')
      | Some covered \<Rightarrow>
          if covered = [] then io_return (report_skipped ''snapshot has no covered head'')
          else
            io_bind (active_registered_device_ids L stale_days) (\<lambda>registered.
            io_bind (active_watermarks L stale_days) (\<lambda>watermarks.
              let missing = card (registered - wm_device_id ` set watermarks);
                  report = \<lparr>rp_active_registered_devices = card registered, rp_active_watermarks = length watermarks,
                    rp_missing_watermarks = missing, rp_pruned_ops = 0, rp_skipped_reason = None\<rparr>
              in
              if missing > 0 then
                io_return (report\<lparr>rp_skipped_reason := Some ''active registered device has no watermark''\<rparr>)
              else if watermarks = [] then
                io_return (report\<lparr>rp_skipped_reason := Some ''no active device watermarks''\<rparr>)
              else if \<exists>w \<in> set watermarks. wm_applied_snapshot_seq w < sm_seq_num snapshot then
                io_return (report\<lparr>rp_skipped_reason := Some ''not all active devices reached snapshot watermark''\<rparr>)
              else compact_batch L snapshot covered batch_limit retention_days report)))"

section \<open>The walks on a committed chain\<close>

lemma read_op_quiet:
  assumes "events w = []" "op_in L (objects w) i = Some x"
  shows "read_op L i w = (Inr x, w)"
proof -
  obtain b t where "contents (objects w) (op_key i) = Some b" "string_from_utf8 b = Some t"
    "decode (json_operation L) t = Inr x"
    using assms(2) unfolding op_in_def option_bind_Some by (elim exE conjE) (auto split: sum.split_asm)
  then show ?thesis by (simp add: read_json_quiet [OF assms(1)] read_op_def parse_json_def)
qed

lemma op_count_loop_chain:
  assumes "events w = []" "chain L (objects w) i xs"
  shows "op_count_loop L stop n i c w =
    (Inr (c + min n (length (takeWhile (\<lambda>x. stop \<noteq> Some (op_op_id x)) xs))), w)"
  using assms(2)
proof (induction n arbitrary: i xs c)
  case 0
  then show ?case by (simp add: io_simps)
next
  case (Suc n)
  show ?case
  proof (cases xs)
    case Nil
    with Suc.prems show ?thesis by (simp add: io_simps)
  next
    case (Cons x ys)
    with Suc.prems have x: "op_in L (objects w) i = Some x" "op_op_id x = i" "i \<noteq> []"
      "chain L (objects w) (op_base_head x) ys"
      by (auto simp: chain_Cons_iff)
    show ?thesis
      using Suc.IH [OF x(4)] x(2,3) Cons read_op_quiet [OF assms(1) x(1)] by (simp add: io_simps)
  qed
qed

lemma head_reaches_loop_chain:
  assumes "events w = []" "chain L (objects w) i xs" "i \<noteq> []" "a \<noteq> []"
  shows "head_reaches_loop L a n i w = (Inr (n > 0 \<and> a \<in> op_op_id ` set (take (Suc n) xs)), w)"
  using assms(2,3)
proof (induction n arbitrary: i xs)
  case 0
  then show ?case by (simp add: io_simps)
next
  case (Suc n)
  obtain x ys where xs: "xs = x # ys" "op_in L (objects w) i = Some x" "op_op_id x = i"
    "chain L (objects w) (op_base_head x) ys"
    using Suc.prems by (cases rule: chain.cases) auto
  note read = read_op_quiet [OF assms(1) xs(2)]
  show ?case
  proof (cases ys)
    case Nil
    then have "op_base_head x = []" using chain_start [OF xs(4)] by simp
    then show ?thesis using xs read Nil assms(4) by (auto simp: io_simps)
  next
    case (Cons y zs)
    then have "op_base_head x = op_op_id y" using chain_start [OF xs(4)] by simp
    moreover have "op_op_id y \<noteq> []" using xs(4) Cons by (auto simp: chain_Cons_iff)
    ultimately show ?thesis
      using Suc.IH [OF xs(4)] xs read Cons by (cases n) (auto simp: io_simps)
  qed
qed

section \<open>Nothing is pruned while an active device lags behind\<close>

definition fresh_watermark :: "libs \<Rightarrow> u64 \<Rightarrow> int \<Rightarrow> objs \<Rightarrow> string \<Rightarrow> device_watermark \<Rightarrow> bool" where
  "fresh_watermark L stale_days at m k w \<longleftrightarrow>
     k \<in> set (mem_keys device_prefix m) \<and> ends_with k ''/watermark.json''
     \<and> (\<exists>b. contents m k = Some b
         \<and> parse_json L (json_watermark L) ''device watermark UTF-8: '' [] b = Inr w)
     \<and> wm_status w = Active \<and> timestamp_is_stale L (wm_last_seen_at w) stale_days at = Inr False"

lemma still_watermarks [still_intros]:
  "still (read_watermark L k)" "still (active_watermarks L d)" "still (active_registered_device_ids L d)"
  unfolding read_watermark_def active_watermarks_def active_registered_device_ids_def utc_now_def
    retired_devices_def Let_def
  by (intro still_intros)+

lemma watermark_fold_complete:
  assumes "events v = []"
  shows "io_fold (\<lambda>k acc.
         io_bind (read_watermark L k) (\<lambda>w.
           if wm_status w = Retired then io_return acc
           else
             io_bind (io_result (timestamp_is_stale L (wm_last_seen_at w) stale_days at)) (\<lambda>stale.
               io_return (if stale then acc else acc @ [w])))) keys acc v = (Inr ws, v')
    \<Longrightarrow> set acc \<subseteq> set ws
      \<and> (\<forall>k w. k \<in> set keys \<longrightarrow> fresh_watermark L stale_days at (objects v) k w \<longrightarrow> w \<in> set ws)"
proof (induction keys arbitrary: acc)
  case Nil
  then show ?case by (simp add: io_simps)
next
  case (Cons k keys)
  obtain q where q: "read_watermark L k v = (q, v)"
    using still_watermarks(1) [of L k] assms by (metis prod.collapse still_def)
  obtain w where w: "q = Inr w" using Cons.prems q by (cases q) (auto simp: io_bind_apply)
  have this_one: "u = w" if "fresh_watermark L stale_days at (objects v) k u" for u
    using that q w assms by (auto simp: fresh_watermark_def read_watermark_def read_json_quiet)
  show ?case
  proof (cases "wm_status w = Retired")
    case True
    then have "set acc \<subseteq> set ws
        \<and> (\<forall>k w. k \<in> set keys \<longrightarrow> fresh_watermark L stale_days at (objects v) k w \<longrightarrow> w \<in> set ws)"
      using Cons.prems q w by (intro Cons.IH) (simp add: io_bind_apply io_return_apply)
    moreover have "\<not> fresh_watermark L stale_days at (objects v) k u" for u
      using True this_one [of u] by (auto simp: fresh_watermark_def)
    ultimately show ?thesis by auto
  next
    case False
    then obtain stale where stale: "timestamp_is_stale L (wm_last_seen_at w) stale_days at = Inr stale"
      using Cons.prems q w
      by (cases "timestamp_is_stale L (wm_last_seen_at w) stale_days at") (auto simp: io_bind_apply io_result_apply)
    have "set (if stale then acc else acc @ [w]) \<subseteq> set ws
        \<and> (\<forall>k w. k \<in> set keys \<longrightarrow> fresh_watermark L stale_days at (objects v) k w \<longrightarrow> w \<in> set ws)"
      using Cons.prems q w False stale
      by (intro Cons.IH) (simp add: io_bind_apply io_return_apply io_result_apply)
    then show ?thesis using this_one stale by (cases stale) (auto simp: fresh_watermark_def)
  qed
qed

lemma active_watermarks_complete:
  assumes "events v = []" "active_watermarks L stale_days v = (Inr ws, v')"
    and "fresh_watermark L stale_days (now v) (objects v) k w"
  shows "w \<in> set ws"
proof -
  have "k \<in> set (filter (\<lambda>k. ends_with k ''/watermark.json'') (mem_keys device_prefix (objects v)))"
    using assms(3) by (simp add: fresh_watermark_def)
  moreover have "io_fold (\<lambda>k acc.
         io_bind (read_watermark L k) (\<lambda>w.
           if wm_status w = Retired then io_return acc
           else
             io_bind (io_result (timestamp_is_stale L (wm_last_seen_at w) stale_days (now v))) (\<lambda>stale.
               io_return (if stale then acc else acc @ [w]))))
       (filter (\<lambda>k. ends_with k ''/watermark.json'') (mem_keys device_prefix (objects v))) [] v = (Inr ws, v')"
    using assms(1,2)
    by (simp add: active_watermarks_def io_bind_apply quiet_requests(4) utc_now_def io_get_apply)
  ultimately show ?thesis using watermark_fold_complete [OF assms(1)] assms(3) by blast
qed

lemma compact_waits_lemma:
  assumes w: "events v = []" and lag: "fresh_watermark L stale_days (now v) (objects v) k w"
    and seq: "wm_applied_snapshot_seq w < sm_seq_num snapshot"
  shows "snd (compact L snapshot batch_limit stale_days retention_days v) = v"
proof (cases "sm_covered_head snapshot")
  case None
  then show ?thesis by (simp add: compact_def io_return_apply)
next
  case (Some covered)
  obtain q1 where q1: "active_registered_device_ids L stale_days v = (q1, v)"
    using still_watermarks(3) [of L stale_days] w by (metis prod.collapse still_def)
  obtain q2 where q2: "active_watermarks L stale_days v = (q2, v)"
    using still_watermarks(2) [of L stale_days] w by (metis prod.collapse still_def)
  show ?thesis
  proof (cases q2)
    case (Inl e)
    then show ?thesis using Some q1 q2
      by (cases q1) (auto simp: compact_def io_return_apply io_bind_apply)
  next
    case (Inr ws)
    then have "w \<in> set ws" using active_watermarks_complete [OF w _ lag] q2 by blast
    then have "ws \<noteq> []" "\<exists>w \<in> set ws. wm_applied_snapshot_seq w < sm_seq_num snapshot" using seq by auto
    then show ?thesis using Some q1 q2 Inr
      by (cases q1) (simp_all add: compact_def io_return_apply io_bind_apply Let_def)
  qed
qed

section \<open>What a run may prune, whatever faults and crashes interrupt it\<close>

text \<open>
  \<open>prune_inv L m0 anc\<close>: compared with the bucket \<open>m0\<close>, only the cursor object and the
  operations \<open>anc\<close> may have changed, the latter only by disappearing; and a cursor left
  behind by an interrupted run names operations of \<open>anc\<close> only.
\<close>

definition cursor_within :: "operation list \<Rightarrow> op_compaction_cursor \<Rightarrow> bool" where
  "cursor_within anc c \<longleftrightarrow>
     set (oc_pending_delete c) \<subseteq> op_op_id ` set anc \<and> (oc_next_op c = [] \<or> oc_next_op c \<in> op_op_id ` set anc)"

definition prune_inv :: "libs \<Rightarrow> objs \<Rightarrow> operation list \<Rightarrow> objs \<Rightarrow> bool" where
  "prune_inv L m0 anc m \<longleftrightarrow>
     (\<forall>k. k \<noteq> ops_tail_key \<longrightarrow> contents m k = contents m0 k
        \<or> (contents m k = None \<and> k \<in> op_key ` op_op_id ` set anc))
     \<and> (\<forall>b t c. contents m ops_tail_key = Some b \<longrightarrow> string_from_utf8 b = Some t
        \<longrightarrow> decode (json_cursor L) t = Inr c \<longrightarrow> cursor_within anc c)"

lemma hoare_keeps: "keeps P m \<Longrightarrow> hoare (guarded P) m (\<lambda>_. guarded P)"
  by (simp add: keeps_def hoare_def)

lemma keeps_write_cursor:
  assumes "libs_ok L" "cursor_within anc c"
  shows "keeps (prune_inv L m0 anc) (write_cursor L c)"
proof -
  have "encode (json_cursor L) c = Inr (json_of (json_cursor L) c)"
    using assms(1) by (simp add: codec_okD libs_ok_codecs)
  moreover have "prune_inv L m0 anc (snd (mem_put_object L ops_tail_key (json_of (json_cursor L) c) m))"
    if "prune_inv L m0 anc m" for m
    using that assms by (auto simp: prune_inv_def mem_put_object_def Let_def libs_ok_simps codec_okD)
  then have "keeps (prune_inv L m0 anc) (put_object L ops_tail_key (json_of (json_cursor L) c))"
    unfolding put_object_def by (rule keeps_serve)
  ultimately show ?thesis by (auto simp: write_cursor_def io_bind_known intro: keeps_intros)
qed

lemma keeps_delete_ops:
  assumes "set ids \<subseteq> op_op_id ` set anc"
  shows "keeps (prune_inv L m0 anc) (delete_ops ids rp)"
  using assms
proof (induction ids arbitrary: rp)
  case Nil
  then show ?case by (simp add: delete_ops_def keeps_basic)
next
  case (Cons i ids)
  have "prune_inv L m0 anc (snd (mem_delete_object (op_key i) m))" if "prune_inv L m0 anc m" for m
    using that Cons.prems by (auto simp: prune_inv_def mem_delete_object_def)
  then have "keeps (prune_inv L m0 anc) (delete_object (op_key i))"
    unfolding delete_object_def by (rule keeps_serve)
  then show ?case using Cons unfolding delete_ops_def io_fold.simps by (intro keeps_bind keeps_basic) auto
qed

lemma read_op_pruned:
  assumes "chain L m0 i0 (x # anc)" "guarded (prune_inv L m0 anc) w" "y \<in> set (x # anc)" "read_op L (op_op_id y) w = (r, w')"
  shows "guarded (prune_inv L m0 anc) w' \<and> (\<forall>z. r = Inr z \<longrightarrow> z = y)"
proof -
  from guarded_read_json [OF assms(4) [unfolded read_op_def] assms(2)]
  have g: "guarded (prune_inv L m0 anc) w'" and res: "\<And>z. r = Inr z \<Longrightarrow> \<exists>b. contents (objects w') (op_key (op_op_id y)) = Some b
      \<and> parse_json L (json_operation L) ''operation UTF-8: '' [] b = Inr z" by auto
  have "op_in L m0 (op_op_id y) = Some y" using chain_op_in [OF assms(1,3)] .
  moreover have "op_in L m0 (op_op_id y) = Some z" if r: "r = Inr z" for z
  proof -
    obtain b where b: "contents (objects w') (op_key (op_op_id y)) = Some b"
      "parse_json L (json_operation L) ''operation UTF-8: '' [] b = Inr z" using res [OF r] by blast
    moreover have "contents m0 (op_key (op_op_id y)) = Some b"
      using g b(1) unfolding guarded_def prune_inv_def by (metis op_key_not_tail(1) option.distinct(1))
    ultimately show ?thesis by (auto simp: op_in_def parse_json_def split: option.splits sum.splits)
  qed
  ultimately show ?thesis using g by auto
qed

lemma linked_next:
  assumes "linked (x # anc)" "y \<in> set (x # anc)"
  shows "op_base_head y = [] \<or> op_base_head y \<in> op_op_id ` set anc"
  using assms
proof (induction anc arbitrary: x)
  case Nil
  then show ?case by simp
next
  case (Cons z zs)
  then show ?case by (cases "y = x") auto
qed

lemma compactable_loop_pruned:
  assumes chain: "chain L m0 i0 (x # anc)"
  shows "guarded (prune_inv L m0 anc) w \<Longrightarrow> cursor = [] \<or> cursor \<in> op_op_id ` set anc
    \<Longrightarrow> set ids \<subseteq> op_op_id ` set anc \<Longrightarrow> compactable_loop L cutoff n cursor ids w = (Inr sc, w')
    \<Longrightarrow> set (cs_op_ids sc) \<subseteq> op_op_id ` set anc \<and> (cs_next_op sc = [] \<or> cs_next_op sc \<in> op_op_id ` set anc)"
proof (induction n arbitrary: cursor ids w)
  case 0
  then show ?case by (auto simp: io_simps)
next
  case (Suc n)
  show ?case
  proof (cases "cursor = []")
    case True
    with Suc.prems show ?thesis by (auto simp: io_simps)
  next
    case False
    then obtain y where y: "y \<in> set anc" "cursor = op_op_id y" using Suc.prems(2) by auto
    obtain q v where q: "read_op L cursor w = (q, v)" by fastforce
    from read_op_pruned [OF chain Suc.prems(1), of y q v] y q
    have v: "guarded (prune_inv L m0 anc) v" "\<And>z. q = Inr z \<Longrightarrow> z = y" by auto
    show ?thesis
    proof (cases q)
      case (Inl e)
      then show ?thesis using Suc.prems False q by (auto simp: io_simps split: if_splits)
    next
      case (Inr z)
      then have z: "z = y" using v(2) by simp
      have nxt: "op_base_head y = [] \<or> op_base_head y \<in> op_op_id ` set anc"
        using linked_next [OF chain_linked [OF chain]] y(1) by simp
      show ?thesis
      proof (cases "rfc3339_parse L (op_timestamp y)")
        case (Inl m)
        then show ?thesis using Suc.prems(4) False q Inr z by (simp add: io_simps)
      next
        case (Inr t)
        then show ?thesis
          using Suc.prems False q \<open>q = Inr z\<close> z Suc.IH [OF v(1) nxt, of "ids @ [cursor]"] y
          by (auto simp: io_simps split: if_splits)
      qed
    qed
  qed
qed

lemma keeps_compaction_reads [keeps_intros]:
  "keeps P (read_op L i)" "keeps P (compactable_loop L cutoff n cursor ids)" "keeps P (read_cursor L)"
  "keeps P (load_or_initialize_cursor L snapshot covered)" "keeps P (active_watermarks L d)"
  "keeps P (active_registered_device_ids L d)"
proof -
  show op: "keeps P (read_op L i)" for i unfolding read_op_def by (intro keeps_intros)
  show "keeps P (compactable_loop L cutoff n cursor ids)"
  proof (induction n arbitrary: cursor ids)
    case 0
    show ?case unfolding compactable_loop.simps by (intro keeps_intros)
  next
    case (Suc n)
    then show ?case unfolding compactable_loop.simps by (intro keeps_intros op)
  qed
  show "keeps P (read_cursor L)" unfolding read_cursor_def by (intro keeps_intros)
  then show "keeps P (load_or_initialize_cursor L snapshot covered)"
    unfolding load_or_initialize_cursor_def by (intro keeps_intros op)
  show "keeps P (active_watermarks L d)" "keeps P (active_registered_device_ids L d)"
    unfolding active_watermarks_def active_registered_device_ids_def retired_devices_def read_watermark_def
      utc_now_def Let_def
    by (intro keeps_intros)+
qed

lemma load_cursor_pruned:
  assumes chain: "chain L m0 covered (x # anc)" and w: "guarded (prune_inv L m0 anc) w"
    and run: "load_or_initialize_cursor L snapshot covered w = (Inr c, w')"
  shows "cursor_within anc c"
proof -
  obtain stored v where v: "read_cursor L w = (Inr stored, v)"
    using run by (auto simp: load_or_initialize_cursor_def dest!: io_bindD)
  then have gv: "guarded (prune_inv L m0 anc) v" using keepsD [OF keeps_compaction_reads(3) w] by blast
  have stored: "cursor_within anc d" if d: "stored = Some d" for d
  proof -
    obtain q u where q: "get_object ops_tail_key w = (q, u)" by fastforce
    obtain b where b: "q = Inr b" "u = v" using v q d
      by (cases q) (auto simp: read_cursor_def io_simps split: if_splits option.splits sum.splits)
    then have "contents (objects v) ops_tail_key = Some b" using guarded_reads(1) [OF w q] by simp
    moreover obtain t where "string_from_utf8 b = Some t" "decode (json_cursor L) t = Inr d"
      using v q b d by (auto simp: read_cursor_def io_simps split: option.splits sum.splits if_splits)
    ultimately show ?thesis using gv by (auto simp: guarded_def prune_inv_def)
  qed
  show ?thesis
  proof (cases "\<exists>d. stored = Some d \<and> reusable_cursor snapshot d")
    case True
    then have "stored = Some c" using run v by (auto simp: load_or_initialize_cursor_def io_bind_apply io_return_apply)
    then show ?thesis using stored by simp
  next
    case False
    obtain q u where q: "read_op L covered v = (q, u)" by fastforce
    have covered: "covered = op_op_id x" using chain by (simp add: chain_Cons_iff)
    from read_op_pruned [OF chain gv, of x q u] q covered have "\<And>z. q = Inr z \<Longrightarrow> z = x" by simp
    moreover have "op_base_head x = [] \<or> op_base_head x \<in> op_op_id ` set anc"
      using linked_next [OF chain_linked [OF chain], of x] by simp
    ultimately show ?thesis
      using run v False q
      by (cases q) (auto simp: load_or_initialize_cursor_def io_simps cursor_within_def fresh_cursor_def split: if_splits)
  qed
qed

lemma compact_batch_pruned:
  assumes L: "libs_ok L" and chain: "chain L m0 covered (x # anc)" and w: "guarded (prune_inv L m0 anc) w"
    and run: "compact_batch L snapshot covered batch_limit days report w = (r, w')"
  shows "guarded (prune_inv L m0 anc) w'"
proof -
  let ?P = "prune_inv L m0 anc"
  obtain q v where q: "load_or_initialize_cursor L snapshot covered w = (q, v)" by fastforce
  have gv: "guarded ?P v" by (rule keepsD [OF keeps_compaction_reads(4) w q])
  show ?thesis
  proof (cases q)
    case (Inl e)
    then show ?thesis using run q gv by (simp add: compact_batch_def io_bind_apply)
  next
    case (Inr c)
    then have c: "cursor_within anc c" using load_cursor_pruned [OF chain w] q by blast
    let ?at = "now v - duration_days (as_i64 days)"
    obtain q2 u where q2: "compactable_ancestors L (oc_next_op c) (max batch_limit 1) ?at v = (q2, u)" by fastforce
    note q2' = q2 [unfolded compactable_ancestors_def]
    have gu: "guarded ?P u" by (rule keepsD [OF keeps_compaction_reads(2) gv q2'])
    have scanned: "set (cs_op_ids sc) \<subseteq> op_op_id ` set anc \<and> (cs_next_op sc = [] \<or> cs_next_op sc \<in> op_op_id ` set anc)"
      if "q2 = Inr sc" for sc
      by (rule compactable_loop_pruned [OF chain gv _ _ q2' [unfolded that]]) (use c in \<open>auto simp: cursor_within_def\<close>)
    consider (pending) "oc_pending_delete c \<noteq> []" | (none) "oc_pending_delete c = []" "oc_next_op c = []"
      | (scan) "oc_pending_delete c = []" "oc_next_op c \<noteq> []" by blast
    then show ?thesis
    proof cases
      case pending
      have keeps: "keeps ?P (io_bind (delete_ops (oc_pending_delete c) report) (\<lambda>rp.
         io_bind (write_cursor L (c\<lparr>oc_pending_delete := []\<rparr>)) (\<lambda>_. io_return rp)))"
        using c by (intro keeps_intros keeps_delete_ops keeps_write_cursor [OF L]) (auto simp: cursor_within_def)
      show ?thesis
        by (rule keepsD [OF keeps gv]) (use run q Inr pending in \<open>simp add: compact_batch_def io_bind_apply\<close>)
    next
      case none
      then show ?thesis using run q Inr gv by (simp add: compact_batch_def io_bind_apply io_return_apply)
    next
      case scan
      show ?thesis
      proof (cases q2)
        case (Inl e)
        then show ?thesis
          using run q \<open>q = Inr c\<close> scan q2 gu
          by (simp add: compact_batch_def io_bind_apply utc_now_def io_get_apply)
      next
        case (Inr sc)
        let ?c = "c\<lparr>oc_next_op := cs_next_op sc\<rparr>"
        have keeps: "keeps ?P (if cs_op_ids sc = [] then
             io_bind (write_cursor L ?c) (\<lambda>_.
               io_return (report\<lparr>rp_skipped_reason := Some (if cs_retention_blocked sc
                 then ''oldest compactable op is still inside retention window''
                 else ''no compactable ops before snapshot head'')\<rparr>))
           else
             io_bind (write_cursor L (?c\<lparr>oc_pending_delete := cs_op_ids sc\<rparr>)) (\<lambda>_.
             io_bind (delete_ops (cs_op_ids sc) report) (\<lambda>rp.
             io_bind (write_cursor L (?c\<lparr>oc_pending_delete := []\<rparr>)) (\<lambda>_. io_return rp))))"
          using scanned [OF Inr] c
          by (intro keeps_intros keeps_delete_ops keeps_write_cursor [OF L]) (auto simp: cursor_within_def)
        show ?thesis
          by (rule keepsD [OF keeps gu])
            (use run q \<open>q = Inr c\<close> scan q2 Inr in \<open>simp add: compact_batch_def io_bind_apply utc_now_def io_get_apply Let_def\<close>)
      qed
    qed
  qed
qed

lemma compact_pruned:
  assumes L: "libs_ok L" and chain: "chain L m0 covered (x # anc)" and w: "guarded (prune_inv L m0 anc) w"
    and covered: "sm_covered_head snapshot = Some covered"
    and run: "compact L snapshot batch_limit stale_days retention_days w = (r, w')"
  shows "guarded (prune_inv L m0 anc) w'"
proof -
  let ?P = "prune_inv L m0 anc"
  have batch: "keeps ?P (compact_batch L snapshot covered batch_limit retention_days report)" for report
    using compact_batch_pruned [OF L chain] by (auto simp: keeps_def)
  have "keeps ?P (compact L snapshot batch_limit stale_days retention_days)"
    unfolding compact_def covered option.case Let_def by (intro keeps_intros batch)
  then show ?thesis using w run by (rule keepsD)
qed

end
