(* ===== verification/Snapshots.thy ===== *)
theory Snapshots
  imports Compaction
begin

text \<open>
  \<open>SnapshotManager\<close> (\<open>metadata/snapshots.rs\<close>): full dumps of the tree, each under its
  sequence number with a metadata object beside it, the search for the latest one and
  the pruning of old ones. The properties: a written snapshot reads back, the latest
  one has the greatest number, and pruning keeps exactly the objects of the greatest
  numbers.
\<close>

definition snapshots_prefix :: string where
  "snapshots_prefix = ''.s4drive/meta/snapshots/''"

definition write_snapshot_for_head ::
    "libs \<Rightarrow> file_entry list \<Rightarrow> u64 \<Rightarrow> string option \<Rightarrow> ('z world_scheme, core_error, string) io" where
  "write_snapshot_for_head L entries n covered_head =
     io_bind (io_result (to_json (json_entries L) entries)) (\<lambda>json.
     io_bind (put_object L (snapshot_key n) json) (\<lambda>etag.
     io_bind utc_now (\<lambda>at.
     io_bind (io_result (to_json (json_snapshot_metadata L)
       \<lparr>sm_schema_version = supported_schema_version, sm_seq_num = n, sm_created_at = rfc3339_text L at,
        sm_entry_count = of_nat (length entries), sm_tree_key = snapshot_key n, sm_covered_head = covered_head\<rparr>))
       (\<lambda>metadata.
     io_bind (put_object L (snapshot_metadata_key n) metadata) (\<lambda>_.
     io_bind (put_object L snapshot_latest_key (zero_padded 20 (unat n))) (\<lambda>_. io_return etag))))))"

definition write_snapshot ::
    "libs \<Rightarrow> file_entry list \<Rightarrow> u64 \<Rightarrow> ('z world_scheme, core_error, string) io" where
  "write_snapshot L entries n = write_snapshot_for_head L entries n None"

definition read_snapshot :: "libs \<Rightarrow> u64 \<Rightarrow> ('z world_scheme, core_error, file_entry list) io" where
  "read_snapshot L n = read_json L (json_entries L) ''UTF-8: '' ''deserialize snapshot: '' (snapshot_key n)"

definition snapshot_seq :: "string \<Rightarrow> nat option" where
  "snapshot_seq k =
     option_bind (strip_prefix snapshots_prefix k) (\<lambda>rest. parse_u64 (hd (split_on (CHR ''/'') rest)))"

definition tree_seq :: "string \<Rightarrow> nat option" where
  "tree_seq k =
     option_bind (strip_prefix snapshots_prefix k) (\<lambda>rest.
       if \<not> ends_with rest ''/tree.json'' then None else parse_u64 (hd (split_on (CHR ''/'') rest)))"

definition tree_snapshots :: "string list \<Rightarrow> (nat \<times> string) list" where
  "tree_snapshots keys = List.map_filter (\<lambda>k. map_option (\<lambda>n. (n, k)) (tree_seq k)) keys"

definition find_latest_snapshot :: "('z world_scheme, core_error, (nat \<times> string) option) io" where
  "find_latest_snapshot =
     io_bind (list_objects snapshots_prefix) (\<lambda>keys.
       io_return (case sort_key (\<lambda>(n, k). - int n) (tree_snapshots keys) of [] \<Rightarrow> None | x # _ \<Rightarrow> Some x))"

primrec snapshots_by_seq :: "string list \<Rightarrow> (nat \<times> string list) list \<Rightarrow> (nat \<times> string list) list" where
  "snapshots_by_seq [] m = m"
| "snapshots_by_seq (k # ks) m =
     snapshots_by_seq ks
       (case snapshot_seq k of
          None \<Rightarrow> m
        | Some n \<Rightarrow> btree_insert n ((case map_of m n of None \<Rightarrow> [] | Some old \<Rightarrow> old) @ [k]) m)"

definition prune_group :: "nat \<times> string list \<Rightarrow> u32 \<Rightarrow> ('z world_scheme, core_error, u32) io" where
  "prune_group = (\<lambda>(n, ks) pruned.
     io_bind (io_fold (\<lambda>k _. delete_object k) ks ()) (\<lambda>_. io_return (pruned + 1)))"

definition prune_snapshots :: "u32 \<Rightarrow> ('z world_scheme, core_error, u32) io" where
  "prune_snapshots keep_count =
     io_bind (list_objects snapshots_prefix) (\<lambda>keys.
       io_fold prune_group (drop (unat keep_count) (rev (snapshots_by_seq keys []))) 0)"

section \<open>Writing and reading\<close>

lemma snapshot_keys_differ [simp]:
  "snapshot_key n \<noteq> snapshot_metadata_key m" "snapshot_metadata_key m \<noteq> snapshot_key n"
  "snapshot_key n \<noteq> snapshot_latest_key" "snapshot_metadata_key n \<noteq> snapshot_latest_key"
proof -
  show a: "snapshot_key n \<noteq> snapshot_metadata_key m" for n m
    by (metis option.distinct(1) snapshot_metadata_seq_key snapshot_metadata_seq_tree)
  show "snapshot_metadata_key m \<noteq> snapshot_key n" using a [of n m] by simp
  have d: "zero_padded 20 (unat n) @ t = ''LATEST'' \<Longrightarrow> False" for t
  proof -
    assume *: "zero_padded 20 (unat n) @ t = ''LATEST''"
    have "zero_padded 20 (unat n) \<noteq> []" by (simp add: zero_padded_def)
    then have "hd (zero_padded 20 (unat n)) = CHR ''L''" using * by (metis hd_append2 list.sel(1))
    moreover have "is_digit_char (hd (zero_padded 20 (unat n)))"
      using zero_padded_digits [of 20 "unat n"] \<open>zero_padded 20 (unat n) \<noteq> []\<close>
      by (metis list.set_sel(1) list_all_iff)
    ultimately show False by (simp add: is_digit_char_def)
  qed
  show "snapshot_key n \<noteq> snapshot_latest_key" "snapshot_metadata_key n \<noteq> snapshot_latest_key"
    using d by (auto simp: key_defs)
qed

lemma write_snapshot_quiet:
  fixes w :: "'z world_scheme"
  assumes "libs_ok L" "events w = []" "write_snapshot_for_head L entries n covered w = (r, w')"
  shows "read_snapshot L n w' = (Inr entries, w')"
    "\<exists>m. read_snapshot_metadata L n w' = (Inr m, w') \<and> sm_seq_num m = n \<and> sm_covered_head m = covered
        \<and> sm_entry_count m = of_nat (length entries) \<and> sm_tree_key m = snapshot_key n"
    "contents (objects w') snapshot_latest_key = Some (zero_padded 20 (unat n))"
    "\<And>k. k \<notin> {snapshot_key n, snapshot_metadata_key n, snapshot_latest_key} \<Longrightarrow>
       contents (objects w') k = contents (objects w) k"
  using assms
  by (auto simp: write_snapshot_for_head_def io_simps to_json_ok libs_ok_codecs quiet_requests utc_now_def
      read_snapshot_def read_snapshot_metadata_def read_json_quiet)

section \<open>The latest snapshot\<close>

lemma set_tree_snapshots: "(n, k) \<in> set (tree_snapshots keys) \<longleftrightarrow> k \<in> set keys \<and> tree_seq k = Some n"
  by (induction keys) (auto simp: tree_snapshots_def List.map_filter_simps split: option.splits)

lemma find_latest_quiet:
  assumes "events w = []" "find_latest_snapshot w = (r, w')"
  shows "w' = w"
    and "r = Inr None \<Longrightarrow> contents (objects w) k \<noteq> None \<Longrightarrow> tree_seq k = None"
    and "r = Inr (Some (n, k)) \<Longrightarrow> contents (objects w) k \<noteq> None \<and> tree_seq k = Some n
        \<and> (\<forall>k' n'. contents (objects w) k' \<noteq> None \<longrightarrow> tree_seq k' = Some n' \<longrightarrow> n' \<le> n)"
proof -
  let ?ts = "tree_snapshots (mem_keys snapshots_prefix (objects w))"
  have run: "w' = w" "r = Inr (case sort_key (\<lambda>(n, k). - int n) ?ts of [] \<Rightarrow> None | x # _ \<Rightarrow> Some x)"
    using assms by (auto simp: find_latest_snapshot_def io_simps quiet_requests)
  show "w' = w" by (rule run)
  have mem: "(n, k) \<in> set ?ts \<longleftrightarrow> contents (objects w) k \<noteq> None \<and> tree_seq k = Some n" for n k
    by (auto simp: set_tree_snapshots mem_keys_set tree_seq_def option_bind_Some strip_prefix_Some)
  show "tree_seq k = None" if "r = Inr None" "contents (objects w) k \<noteq> None"
  proof -
    have "sort_key (\<lambda>(n, k). - int n) ?ts = []" using that(1) run(2) by (auto split: list.splits)
    then have "set ?ts = {}" by (metis set_empty set_sort)
    then show ?thesis using mem [of _ k] that(2) by (cases "tree_seq k") auto
  qed
  show "contents (objects w) k \<noteq> None \<and> tree_seq k = Some n
        \<and> (\<forall>k' n'. contents (objects w) k' \<noteq> None \<longrightarrow> tree_seq k' = Some n' \<longrightarrow> n' \<le> n)"
    if found: "r = Inr (Some (n, k))"
  proof -
    obtain ys where s: "sort_key (\<lambda>(n, k). - int n) ?ts = (n, k) # ys"
      using found run(2) by (cases "sort_key (\<lambda>(n, k). - int n) ?ts") auto
    then have "set ?ts = insert (n, k) (set ys)" by (metis list.simps(15) set_sort)
    moreover have "sorted (map (\<lambda>(n, k). - int n) ((n, k) # ys))" using s by (metis sorted_sort_key)
    ultimately have max: "(n', k') \<in> set ?ts \<Longrightarrow> n' \<le> n" and "(n, k) \<in> set ?ts" for n' k' by fastforce+
    then show ?thesis using mem by blast
  qed
qed

section \<open>Pruning\<close>

lemma snapshots_by_seq_inv: "btree_inv m \<Longrightarrow> btree_inv (snapshots_by_seq keys m)"
  by (induction keys arbitrary: m) (auto split: option.splits)

definition keys_at :: "(nat \<times> string list) list \<Rightarrow> nat \<Rightarrow> string list" where
  "keys_at m n = (case map_of m n of None \<Rightarrow> [] | Some ks \<Rightarrow> ks)"

lemma keys_at_insert: "keys_at (btree_insert i ks m) n = (if n = i then ks else keys_at m n)"
  by (simp add: keys_at_def)

lemma keys_at_snapshots_by_seq:
  "keys_at (snapshots_by_seq keys m) n = keys_at m n @ filter (\<lambda>k. snapshot_seq k = Some n) keys"
proof (induction keys arbitrary: m)
  case (Cons k keys)
  show ?case
  proof (cases "snapshot_seq k")
    case (Some i)
    then have "snapshots_by_seq (k # keys) m = snapshots_by_seq keys (btree_insert i (keys_at m i @ [k]) m)"
      by (simp add: keys_at_def)
    then show ?thesis using Some by (cases "i = n") (simp_all add: Cons.IH keys_at_insert)
  qed (simp add: Cons.IH)
qed simp

lemma snapshots_by_seq_nonempty:
  "\<forall>n. map_of m n \<noteq> Some [] \<Longrightarrow> map_of (snapshots_by_seq keys m) n \<noteq> Some []"
proof (induction keys arbitrary: m)
  case (Cons k keys)
  then show ?case by (cases "snapshot_seq k") (auto intro: Cons.IH)
qed simp

lemma nth_descending:
  fixes ys :: "nat list"
  assumes "sorted_wrt (>) ys" "i < length ys"
  shows "card {m \<in> set ys. ys ! i < m} = i"
proof -
  have lt: "ys ! i < ys ! j \<longleftrightarrow> j < i" if "j < length ys" for j
    using sorted_wrt_nth_less [OF assms(1)] assms(2) that by (metis linorder_cases order_less_asym)
  have "{m \<in> set ys. ys ! i < m} = (nth ys) ` {..<i}"
  proof (intro set_eqI iffI)
    fix m assume "m \<in> {m \<in> set ys. ys ! i < m}"
    then obtain j where j: "j < length ys" "m = ys ! j" "ys ! i < m" by (auto simp: in_set_conv_nth)
    then show "m \<in> nth ys ` {..<i}" using lt [of j] by blast
  next
    fix m assume "m \<in> nth ys ` {..<i}"
    then obtain j where j: "j < i" "m = ys ! j" by blast
    then show "m \<in> {m \<in> set ys. ys ! i < m}" using lt [of j] assms(2) by simp
  qed
  moreover have "inj_on (nth ys) {..<i}"
  proof (rule inj_onI)
    fix a b assume "a \<in> {..<i}" "b \<in> {..<i}" "ys ! a = ys ! b"
    then show "a = b" using sorted_wrt_nth_less [OF assms(1)] assms(2)
      by (metis lessThan_iff linorder_neq_iff order_less_trans)
  qed
  ultimately show ?thesis by (simp add: card_image)
qed

lemma in_drop_descending:
  fixes ys :: "nat list"
  assumes "sorted_wrt (>) ys"
  shows "n \<in> set (drop k ys) \<longleftrightarrow> n \<in> set ys \<and> k \<le> card {m \<in> set ys. n < m}"
proof
  assume "n \<in> set (drop k ys)"
  then obtain i where "i < length (drop k ys)" "drop k ys ! i = n" by (metis in_set_conv_nth)
  then have "n = ys ! (k + i)" "k + i < length ys" by auto
  then show "n \<in> set ys \<and> k \<le> card {m \<in> set ys. n < m}" using nth_descending [OF assms] by auto
next
  assume *: "n \<in> set ys \<and> k \<le> card {m \<in> set ys. n < m}"
  then obtain i where i: "i < length ys" "ys ! i = n" by (metis in_set_conv_nth)
  then have "k \<le> i" using nth_descending [OF assms i(1)] * by simp
  then show "n \<in> set (drop k ys)" using i by (auto simp: in_set_conv_nth intro!: exI [of _ "i - k"])
qed

lemma delete_all_quiet:
  assumes "events w = []"
  shows "\<exists>m. io_fold (\<lambda>k _. delete_object k) ks () w = (Inr (), w\<lparr>objects := m\<rparr>)
    \<and> contents m = (\<lambda>k. if k \<in> set ks then None else contents (objects w) k)"
  using assms
proof (induction ks arbitrary: w)
  case Nil
  then show ?case by (auto simp: io_simps intro!: exI [of _ "objects w"])
next
  case (Cons k ks)
  have "events (w\<lparr>objects := btree_remove k (objects w)\<rparr>) = []" using Cons.prems by simp
  from Cons.IH [OF this] obtain m where
    "io_fold (\<lambda>k _. delete_object k) ks () (w\<lparr>objects := btree_remove k (objects w)\<rparr>) = (Inr (), w\<lparr>objects := m\<rparr>)"
    "contents m = (\<lambda>j. if j \<in> set ks then None else ((contents (objects w))(k := None)) j)" by fastforce
  then show ?case using Cons.prems
    by (intro exI [of _ m]) (simp add: io_bind_apply quiet_requests fun_eq_iff)
qed

lemma prune_loop_quiet:
  assumes "events w = []"
  shows "\<exists>m. io_fold prune_group xs a w = (Inr (a + of_nat (length xs)), w\<lparr>objects := m\<rparr>)
    \<and> contents m = (\<lambda>k. if \<exists>(n, ks) \<in> set xs. k \<in> set ks then None else contents (objects w) k)"
  using assms
proof (induction xs arbitrary: a w)
  case Nil
  then show ?case by (auto simp: io_simps intro!: exI [of _ "objects w"])
next
  case (Cons x xs)
  obtain n ks where x: "x = (n, ks)" by fastforce
  from delete_all_quiet [OF Cons.prems] obtain m1 where
    m1: "io_fold (\<lambda>k _. delete_object k) ks () w = (Inr (), w\<lparr>objects := m1\<rparr>)"
    "contents m1 = (\<lambda>k. if k \<in> set ks then None else contents (objects w) k)" by blast
  have "events (w\<lparr>objects := m1\<rparr>) = []" using Cons.prems by simp
  from Cons.IH [OF this, of "a + 1"] obtain m where
    m: "io_fold prune_group xs (a + 1) (w\<lparr>objects := m1\<rparr>) = (Inr (a + 1 + of_nat (length xs)), w\<lparr>objects := m\<rparr>)"
    "contents m = (\<lambda>k. if \<exists>(n, ks) \<in> set xs. k \<in> set ks then None else contents m1 k)" by fastforce
  have "prune_group x a w = (Inr (a + 1), w\<lparr>objects := m1\<rparr>)"
    using m1(1) by (simp add: prune_group_def x io_bind_apply io_return_apply)
  then show ?case using m m1(2)
    by (intro exI [of _ m]) (simp add: x io_bind_apply fun_eq_iff ac_simps)
qed

text \<open>\<open>rank m n\<close>: how many newer snapshots than \<open>n\<close> the bucket holds.\<close>

definition seqs_in :: "objs \<Rightarrow> nat set" where
  "seqs_in m = {n. \<exists>k. contents m k \<noteq> None \<and> snapshot_seq k = Some n}"

definition rank :: "objs \<Rightarrow> nat \<Rightarrow> nat" where
  "rank m n = card {n' \<in> seqs_in m. n < n'}"

lemma prune_snapshots_quiet:
  assumes "events w = []" "prune_snapshots keep w = (r, w')"
  shows "contents (objects w') k =
      (case snapshot_seq k of
         None \<Rightarrow> contents (objects w) k
       | Some n \<Rightarrow> if unat keep \<le> rank (objects w) n then None else contents (objects w) k)"
    and "r = Inr (of_nat (card {n \<in> seqs_in (objects w). unat keep \<le> rank (objects w) n}))"
proof -
  let ?keys = "mem_keys snapshots_prefix (objects w)"
  let ?m = "snapshots_by_seq ?keys []"
  let ?old = "drop (unat keep) (rev ?m)"
  have in_keys: "k \<in> set ?keys \<longleftrightarrow> contents (objects w) k \<noteq> None \<and> starts_with k snapshots_prefix" for k
    by (auto simp: mem_keys_set)
  have prefix: "snapshot_seq k = Some n \<Longrightarrow> starts_with k snapshots_prefix" for k n
    by (auto simp: snapshot_seq_def option_bind_Some strip_prefix_Some)
  have inv: "btree_inv ?m" by (simp add: snapshots_by_seq_inv)
  then have desc: "sorted_wrt (>) (map fst (rev ?m))" by (simp add: btree_inv_def sorted_wrt_rev rev_map [symmetric])
  have dist: "distinct (map fst ?m)" using inv by (simp add: btree_inv_def strict_sorted_iff)
  have group: "(n, ks) \<in> set ?m \<longleftrightarrow> ks = filter (\<lambda>k. snapshot_seq k = Some n) ?keys \<and> ks \<noteq> []" for n ks
  proof -
    have "(n, ks) \<in> set ?m \<longleftrightarrow> map_of ?m n = Some ks" using dist by simp
    also have "\<dots> \<longleftrightarrow> keys_at ?m n = ks \<and> ks \<noteq> []"
      using snapshots_by_seq_nonempty [of "[]" ?keys n] by (auto simp: keys_at_def split: option.splits)
    finally show ?thesis using keys_at_snapshots_by_seq [of ?keys "[]" n] by (auto simp: keys_at_def [of "[]"])
  qed
  have seqs: "set (map fst (rev ?m)) = seqs_in (objects w)"
  proof (rule set_eqI)
    fix n
    have "n \<in> set (map fst (rev ?m)) \<longleftrightarrow> (\<exists>ks. (n, ks) \<in> set ?m)" by force
    also have "\<dots> \<longleftrightarrow> (\<exists>k \<in> set ?keys. snapshot_seq k = Some n)" using group by (auto simp: filter_empty_conv)
    also have "\<dots> \<longleftrightarrow> n \<in> seqs_in (objects w)" using in_keys prefix by (auto simp: seqs_in_def)
    finally show "n \<in> set (map fst (rev ?m)) \<longleftrightarrow> n \<in> seqs_in (objects w)" .
  qed
  have old: "set (map fst ?old) = {n \<in> seqs_in (objects w). unat keep \<le> rank (objects w) n}"
    using in_drop_descending [OF desc, of _ "unat keep"] seqs
    by (auto simp: drop_map rank_def)
  from prune_loop_quiet [OF assms(1), of ?old 0] obtain m' where
    m': "r = Inr (of_nat (length ?old))" "w' = w\<lparr>objects := m'\<rparr>"
    "contents m' = (\<lambda>k. if \<exists>(n, ks) \<in> set ?old. k \<in> set ks then None else contents (objects w) k)"
    using assms by (auto simp: prune_snapshots_def io_bind_apply quiet_requests)
  have sub: "set ?old \<subseteq> set ?m" by (metis set_drop_subset set_rev)
  have hit: "(\<exists>(n, ks) \<in> set ?old. k \<in> set ks) \<longleftrightarrow>
      k \<in> set ?keys \<and> (\<exists>n. snapshot_seq k = Some n \<and> n \<in> set (map fst ?old))" (is "?l \<longleftrightarrow> ?r")
  proof
    assume ?l
    then obtain n ks where "(n, ks) \<in> set ?old" "k \<in> set ks" by blast
    then show ?r using sub group [of n ks] by force
  next
    assume ?r
    then obtain n ks where n: "k \<in> set ?keys" "snapshot_seq k = Some n" "(n, ks) \<in> set ?old" by auto
    then have "ks = filter (\<lambda>k. snapshot_seq k = Some n) ?keys" using sub group [of n ks] by blast
    then show ?l using n by (intro bexI [of _ "(n, ks)"]) auto
  qed
  show "contents (objects w') k =
      (case snapshot_seq k of
         None \<Rightarrow> contents (objects w) k
       | Some n \<Rightarrow> if unat keep \<le> rank (objects w) n then None else contents (objects w) k)"
    using m'(2,3) hit in_keys [of k] prefix [of k] unfolding old
    by (auto simp: seqs_in_def split: option.splits)
  have "length ?old = card (set (map fst ?old))"
    using dist by (metis distinct_card distinct_drop distinct_rev drop_map length_map rev_map)
  then show "r = Inr (of_nat (card {n \<in> seqs_in (objects w). unat keep \<le> rank (objects w) n}))"
    using m'(1) old by simp
qed

end
