(* ===== verification/Engine.thy ===== *)
theory Engine
  imports Stored_Json Placement
begin

text \<open>
  \<open>MetadataEngine\<close> (\<open>metadata/engine.rs\<close>): creation of the bucket structure, device
  registration and the schema upgrade. The descriptor is created with
  \<open>If-None-Match\<close> and upgraded with \<open>If-Match\<close>; the properties are that an existing
  descriptor is never overwritten by an initialization, whatever the requests meet,
  and that an upgrade is idempotent and never lowers the version.

  Platform names and the rendering of ad hoc JSON documents (\<open>serde_json::json!\<close>,
  \<open>to_vec_pretty\<close>) come from outside: they are the record \<open>engine_env\<close>.
\<close>

datatype json_doc = JNum nat | JStr string | JArr "json_doc list" | JObj "(string \<times> json_doc) list"

record engine_env =
  ee_os :: string
  ee_arch :: string
  ee_render :: "json_doc \<Rightarrow> string + string"

record metadata_engine = world +
  me_device_id :: device_id
  me_logical_clock :: u64

definition folder_nodes_capability :: string where
  "folder_nodes_capability = ''folder_nodes''"

definition render_pretty :: "engine_env \<Rightarrow> json_doc \<Rightarrow> string core_result" where
  "render_pretty E d = (case ee_render E d of Inl m \<Rightarrow> Inl (Protocol m) | Inr t \<Rightarrow> Inr t)"

definition migration_doc :: "libs \<Rightarrow> int \<Rightarrow> json_doc" where
  "migration_doc L at =
     JObj [(''schema_version'', JNum (unat supported_schema_version)),
           (''name'', JStr (''metadata_protocol_v'' @ nat_str (unat supported_schema_version))),
           (''applied_at'', JStr (rfc3339_text L at)),
           (''client_version'', JStr (client_version L))]"

definition write_migration_marker :: "libs \<Rightarrow> engine_env \<Rightarrow> ('z world_scheme, core_error, unit) io" where
  "write_migration_marker L E =
     io_bind utc_now (\<lambda>at.
     io_bind (io_result (render_pretty E (migration_doc L at))) (\<lambda>doc.
     io_bind (put_if_not_exists L (schema_migration_key supported_schema_version) doc) (\<lambda>_. io_return ())))"

definition check_initialized :: "('z world_scheme, core_error, bool) io" where
  "check_initialized =
     io_try (get_object descriptor_key) (\<lambda>r. case r of
         Inr _ \<Rightarrow> io_return True
       | Inl e \<Rightarrow> if is_NotFound e then io_return False else io_throw e)"

definition read_descriptor :: "libs \<Rightarrow> ('z world_scheme, core_error, bucket_descriptor) io" where
  "read_descriptor L =
     io_bind (read_json L (json_descriptor L) ''UTF-8: '' [] descriptor_key) (\<lambda>d.
     io_bind (io_result (validate_descriptor d)) (\<lambda>_. io_return d))"

definition registered_device :: "libs \<Rightarrow> engine_env \<Rightarrow> device_id \<Rightarrow> string \<Rightarrow> int \<Rightarrow> device" where
  "registered_device L E d name at =
     \<lparr>dv_device_id = d, dv_device_name = name, dv_platform = ee_os E, dv_os_version = ee_arch E,
      dv_public_key = [], dv_last_seen = rfc3339_text L at,
      dv_capabilities = \<lparr>dc_cloud_files_api = True, dc_file_provider = False, dc_fuse = False,
        dc_background_sync = True, dc_encryption_at_rest = False\<rparr>,
      dv_client_version = client_version L\<rparr>"

definition upsert_device_registration ::
    "libs \<Rightarrow> engine_env \<Rightarrow> string \<Rightarrow> ('z metadata_engine_scheme, core_error, device) io" where
  "upsert_device_registration L E name =
     io_bind (io_get me_device_id) (\<lambda>d.
     io_bind utc_now (\<lambda>at.
       let device = registered_device L E d name at; id_text = uuid_text L d in
     io_bind (io_result (to_json (json_device L) device)) (\<lambda>json.
     io_bind (put_object L (device_registration_key id_text) json) (\<lambda>_.
     io_bind (io_result (to_json (json_device_capabilities L) (dv_capabilities device))) (\<lambda>caps.
     io_bind (put_object L (device_capabilities_key id_text) caps) (\<lambda>_. io_return device))))))"

definition already_initialized :: core_error where
  "already_initialized = Conflict (''bucket already initialized '' @ [CHR 0xE2, CHR 0x80, CHR 0x94]
     @ '' descriptor exists'')"

definition new_descriptor :: "libs \<Rightarrow> uuid \<Rightarrow> int \<Rightarrow> string \<Rightarrow> bucket_descriptor" where
  "new_descriptor L bucket at name =
     \<lparr>bd_bucket_id = bucket, bd_schema_version = supported_schema_version, bd_created_at = rfc3339_text L at,
      bd_owner = name,
      bd_capabilities = [''conditional_writes'', ''multipart_upload'', ''metadata_v1'', folder_nodes_capability],
      bd_min_client_version = client_version L\<rparr>"

definition registry_doc :: "libs \<Rightarrow> device_id \<Rightarrow> device \<Rightarrow> int \<Rightarrow> json_doc" where
  "registry_doc L d device at =
     JObj [(''schema_version'', JNum (unat supported_schema_version)),
           (''updated_at'', JStr (rfc3339_text L at)),
           (''devices'', JArr [JObj [(''device_id'', JStr (uuid_text L d)),
             (''device_name'', JStr (dv_device_name device)), (''platform'', JStr (dv_platform device)),
             (''client_version'', JStr (dv_client_version device)), (''last_seen'', JStr (dv_last_seen device))]])]"

text \<open>The structure written once the descriptor is ours.\<close>

definition init_structure ::
    "libs \<Rightarrow> engine_env \<Rightarrow> string \<Rightarrow> ('z metadata_engine_scheme, core_error, unit) io" where
  "init_structure L E name =
     io_bind (write_migration_marker L E) (\<lambda>_.
     io_bind (upsert_device_registration L E name) (\<lambda>device.
     io_bind (io_get me_device_id) (\<lambda>d.
     io_bind utc_now (\<lambda>at.
     io_bind (io_result (render_pretty E (registry_doc L d device at))) (\<lambda>registry.
     io_bind (put_if_not_exists L device_registry_key registry) (\<lambda>_.
     io_bind (put_if_not_exists L blob_manifest_key ''{}'') (\<lambda>_.
     io_bind (put_object L ''.s4drive/system/locks/'' []) (\<lambda>_. io_return ()))))))))"

definition init_bucket ::
    "libs \<Rightarrow> engine_env \<Rightarrow> string \<Rightarrow> ('z metadata_engine_scheme, core_error, bucket_descriptor) io" where
  "init_bucket L E name =
     io_bind check_initialized (\<lambda>initialized.
       if initialized then io_throw already_initialized
       else
         io_bind (new_uuid L) (\<lambda>bucket.
         io_bind utc_now (\<lambda>at.
           let d = new_descriptor L bucket at name in
         io_bind (io_result (validate_descriptor d)) (\<lambda>_.
         io_bind (io_result (to_json (json_descriptor L) d)) (\<lambda>json.
         io_bind (put_if_not_exists L descriptor_key json) (\<lambda>created.
           if \<not> created then io_throw already_initialized
           else io_bind (init_structure L E name) (\<lambda>_. io_return d)))))))"

definition upgraded :: "libs \<Rightarrow> bucket_descriptor \<Rightarrow> bucket_descriptor" where
  "upgraded L d =
     d\<lparr>bd_schema_version := supported_schema_version, bd_min_client_version := client_version L,
       bd_capabilities := (if folder_nodes_capability \<in> set (bd_capabilities d) then bd_capabilities d
                           else bd_capabilities d @ [folder_nodes_capability])\<rparr>"

definition upgrade_schema :: "libs \<Rightarrow> engine_env \<Rightarrow> ('z world_scheme, core_error, unit) io" where
  "upgrade_schema L E =
     io_try (head_object descriptor_key) (\<lambda>r. case r of
         Inl e \<Rightarrow> if is_NotFound e then io_return () else io_throw e
       | Inr meta \<Rightarrow>
           io_bind (read_descriptor L) (\<lambda>d.
             if supported_schema_version \<le> bd_schema_version d then io_return ()
             else
               io_bind (io_result (to_json (json_descriptor L) (upgraded L d))) (\<lambda>json.
               io_bind (put_if_match L descriptor_key json (om_etag meta)) (\<lambda>ok.
                 if ok then write_migration_marker L E
                 else
                   io_bind (read_descriptor L) (\<lambda>current.
                     if supported_schema_version \<le> bd_schema_version current then io_return ()
                     else io_throw (Conflict ''bucket descriptor changed during the schema upgrade; retry''))))))"

definition tick_clock :: "('z metadata_engine_scheme, core_error, u64) io" where
  "tick_clock =
     io_bind (io_modify (\<lambda>s. s\<lparr>me_logical_clock := me_logical_clock s + 1\<rparr>)) (\<lambda>_. io_get me_logical_clock)"

section \<open>Keys of the bucket structure\<close>

lemma structure_keys [simp]:
  "schema_migration_key v \<noteq> descriptor_key" "descriptor_key \<noteq> schema_migration_key v"
  "device_registration_key d \<noteq> descriptor_key" "descriptor_key \<noteq> device_registration_key d"
  "device_capabilities_key d \<noteq> descriptor_key" "descriptor_key \<noteq> device_capabilities_key d"
  "device_registry_key \<noteq> descriptor_key" "descriptor_key \<noteq> device_registry_key"
  "blob_manifest_key \<noteq> descriptor_key" "descriptor_key \<noteq> blob_manifest_key"
  "''.s4drive/system/locks/'' \<noteq> descriptor_key" "descriptor_key \<noteq> ''.s4drive/system/locks/''"
  by (simp_all add: key_defs)

section \<open>An existing descriptor\<close>

definition descriptor_is :: "string \<Rightarrow> objs \<Rightarrow> bool" where
  "descriptor_is b m \<longleftrightarrow> contents m descriptor_key = Some b"

lemma keeps_descriptor [keeps_intros]:
  "k \<noteq> descriptor_key \<Longrightarrow> keeps (descriptor_is b) (put_object L k c)"
  "keeps (descriptor_is b) (put_if_not_exists L k c)"
  by (auto simp: request_defs descriptor_is_def mem_defs Let_def contents_None [symmetric] split: option.splits
      intro!: keeps_serve)

lemma keeps_clock [keeps_intros]: "keeps P utc_now" "keeps P (new_uuid L)"
  by (auto simp: keeps_def utc_now_def new_uuid_def io_simps guarded_def env_keeps_def)

lemma keeps_init_bucket: "keeps (descriptor_is b) (init_bucket L E name)"
  unfolding init_bucket_def check_initialized_def init_structure_def write_migration_marker_def
    upsert_device_registration_def Let_def
  by (intro keeps_intros) simp_all

lemma create_over_descriptor:
  assumes "put_if_not_exists L descriptor_key c w = (r, w')" "guarded (descriptor_is b) w"
  shows "r \<noteq> Inr True"
proof -
  have keep: "descriptor_is b (snd (mem_put_if_not_exists L descriptor_key c m))" if "descriptor_is b m" for m
    using that by (auto simp: descriptor_is_def mem_put_if_not_exists_def contents_None [symmetric] split: option.splits)
  from guarded_serve [OF assms(1) [unfolded put_if_not_exists_def] assms(2) keep]
  show ?thesis
    by (auto simp: descriptor_is_def mem_put_if_not_exists_def contents_def split: option.splits)
qed

lemma init_bucket_refused:
  assumes w: "guarded (descriptor_is b) w" and run: "init_bucket L E name w = (r, w')"
  shows "isl r \<and> contents (objects w') descriptor_key = Some b"
proof -
  have "guarded (descriptor_is b) w'" using keeps_init_bucket w run by (rule keepsD)
  then have "contents (objects w') descriptor_key = Some b" by (simp add: guarded_def descriptor_is_def)
  moreover have "isl r"
  proof (rule ccontr)
    assume "\<not> isl r"
    then obtain d where "r = Inr d" by (cases r) auto
    with run [unfolded init_bucket_def] obtain w1 where
      c: "check_initialized w = (Inr False, w1)" and
      rest: "io_bind (new_uuid L) (\<lambda>bucket. io_bind utc_now (\<lambda>at.
           let d = new_descriptor L bucket at name in
         io_bind (io_result (validate_descriptor d)) (\<lambda>_.
         io_bind (io_result (to_json (json_descriptor L) d)) (\<lambda>json.
         io_bind (put_if_not_exists L descriptor_key json) (\<lambda>created.
           if \<not> created then io_throw already_initialized
           else io_bind (init_structure L E name) (\<lambda>_. io_return d)))))) w1 = (Inr d, w')"
      by (auto dest!: io_bindD simp: io_throw_apply split: if_splits)
    have "keeps (descriptor_is b) check_initialized"
      unfolding check_initialized_def by (intro keeps_intros)
    then have g1: "guarded (descriptor_is b) w1" using w c by (rule keepsD)
    from rest [unfolded Let_def] obtain q w2 at w3 json w4 where
      n1: "new_uuid L w1 = (Inr q, w2)" and n2: "utc_now w2 = (Inr at, w3)"
      and put: "put_if_not_exists L descriptor_key json w3 = (Inr True, w4)"
      by (auto dest!: io_bindD simp: io_throw_apply io_result_apply split: if_splits)
    have "guarded (descriptor_is b) w2" using keeps_clock(2) g1 n1 by (rule keepsD)
    with keeps_clock(1) have "guarded (descriptor_is b) w3" using n2 by (rule keepsD)
    then show False using create_over_descriptor [OF put] by blast
  qed
  ultimately show ?thesis by blast
qed

section \<open>Initialization and upgrade, undisturbed\<close>

definition renders :: "engine_env \<Rightarrow> bool" where
  "renders E \<longleftrightarrow> (\<forall>d. \<not> isl (ee_render E d))"

lemma render_pretty_ok: "renders E \<Longrightarrow> \<exists>t. render_pretty E d = Inr t"
  by (auto simp: renders_def render_pretty_def isl_def split: sum.splits dest: spec [of _ d])

text \<open>Actions that, undisturbed, succeed and touch at most the objects under \<open>K\<close>.\<close>

named_theorems writes_intros \<open>actions that write under known keys only\<close>

definition writes :: "string set \<Rightarrow> ('z world_scheme, core_error, 'a) io \<Rightarrow> bool" where
  "writes K m \<longleftrightarrow> (\<forall>w. events w = [] \<longrightarrow> (\<exists>x ob. m w = (Inr x, w\<lparr>objects := ob\<rparr>)
     \<and> (\<forall>k. k \<notin> K \<longrightarrow> contents ob k = contents (objects w) k)))"

lemma writesD:
  assumes "writes K m" "events w = []"
  obtains x ob where "m w = (Inr x, w\<lparr>objects := ob\<rparr>)" "\<And>k. k \<notin> K \<Longrightarrow> contents ob k = contents (objects w) k"
  using assms unfolding writes_def by blast

lemma writes_bind [writes_intros]:
  fixes m :: "('z world_scheme, core_error, 'x) io"
  assumes "writes K m" "\<And>x. writes K (f x)"
  shows "writes K (io_bind m f)"
  unfolding writes_def
proof (intro allI impI)
  fix w :: "'z world_scheme" assume w: "events w = []"
  from writesD [OF assms(1) w] obtain x ob where 1: "m w = (Inr x, w\<lparr>objects := ob\<rparr>)"
    "\<And>k. k \<notin> K \<Longrightarrow> contents ob k = contents (objects w) k" by blast
  have "events (w\<lparr>objects := ob\<rparr>) = []" using w by simp
  from writesD [OF assms(2) [of x] this] obtain y ob2 where
    "f x (w\<lparr>objects := ob\<rparr>) = (Inr y, w\<lparr>objects := ob2\<rparr>)" "\<And>k. k \<notin> K \<Longrightarrow> contents ob2 k = contents ob k" by auto
  then show "\<exists>x ob. io_bind m f w = (Inr x, w\<lparr>objects := ob\<rparr>)
     \<and> (\<forall>k. k \<notin> K \<longrightarrow> contents ob k = contents (objects w) k)"
    using 1 by (intro exI [of _ y] exI [of _ ob2]) (simp add: io_bind_apply)
qed

lemma writes_pure [writes_intros]:
  "writes K (io_return x)" "writes K (io_get f)" "writes K utc_now" "\<not> isl q \<Longrightarrow> writes K (io_result q)"
proof -
  have same: "w = w\<lparr>objects := objects w\<rparr>" for w :: "'z world_scheme" by simp
  show "writes K (io_return x)" "writes K (io_get f)" "writes K utc_now"
    using same by (force simp: writes_def io_simps utc_now_def)+
  show "writes K (io_result q)" if "\<not> isl q"
    using same that by (cases q) (force simp: writes_def io_simps)+
qed

lemma writes_puts [writes_intros]:
  "k \<in> K \<Longrightarrow> writes K (put_object L k b :: ('z world_scheme, core_error, string) io)"
  "k \<in> K \<Longrightarrow> writes K (put_if_not_exists L k b :: ('z world_scheme, core_error, bool) io)"
proof -
  assume "k \<in> K"
  show "writes K (put_object L k b :: ('z world_scheme, core_error, string) io)"
    unfolding writes_def
  proof (intro allI impI)
    fix w :: "'z world_scheme" assume "events w = []"
    then show "\<exists>x ob. put_object L k b w = (Inr x, w\<lparr>objects := ob\<rparr>) \<and> (\<forall>k. k \<notin> K \<longrightarrow> contents ob k = contents (objects w) k)"
      using \<open>k \<in> K\<close> by (intro exI [of _ "store_etag L b"] exI [of _ "btree_insert k (b, store_etag L b) (objects w)"])
        (auto simp: quiet_requests)
  qed
  show "writes K (put_if_not_exists L k b :: ('z world_scheme, core_error, bool) io)"
    unfolding writes_def
  proof (intro allI impI)
    fix w :: "'z world_scheme" assume w: "events w = []"
    show "\<exists>x ob. put_if_not_exists L k b w = (Inr x, w\<lparr>objects := ob\<rparr>) \<and> (\<forall>k. k \<notin> K \<longrightarrow> contents ob k = contents (objects w) k)"
    proof (cases "contents (objects w) k = None")
      case True
      then show ?thesis
        using w \<open>k \<in> K\<close> by (intro exI [of _ True] exI [of _ "btree_insert k (b, store_etag L b) (objects w)"])
          (auto simp: quiet_requests)
    next
      case False
      then show ?thesis using w by (intro exI [of _ False] exI [of _ "objects w"]) (simp add: quiet_requests)
    qed
  qed
qed

lemma not_isl_json: "codec_ok c \<Longrightarrow> \<not> isl (to_json c x)"
  by (simp add: to_json_ok)

lemma not_isl_render: "renders E \<Longrightarrow> \<not> isl (render_pretty E d)"
  using render_pretty_ok [of E d] by auto

lemma write_migration_marker_writes [writes_intros]:
  "renders E \<Longrightarrow> schema_migration_key supported_schema_version \<in> K \<Longrightarrow> writes K (write_migration_marker L E)"
  unfolding write_migration_marker_def by (intro writes_intros not_isl_render)

definition structure_written :: "libs \<Rightarrow> device_id \<Rightarrow> string set" where
  "structure_written L d = {schema_migration_key supported_schema_version,
     device_registration_key (uuid_text L d), device_capabilities_key (uuid_text L d), device_registry_key,
     blob_manifest_key, ''.s4drive/system/locks/''}"

lemma upsert_device_registration_quiet:
  fixes w :: "'z metadata_engine_scheme" and L E name
  assumes L: "libs_ok L" and w: "events w = []"
  defines "d \<equiv> registered_device L E (me_device_id w) name (now w)"
    and "i \<equiv> uuid_text L (me_device_id w)"
  shows "\<exists>ob. upsert_device_registration L E name w = (Inr d, w\<lparr>objects := ob\<rparr>)
    \<and> contents ob = (contents (objects w))(device_registration_key i \<mapsto> json_of (json_device L) d,
        device_capabilities_key i \<mapsto> json_of (json_device_capabilities L) (dv_capabilities d))"
  using w
  by (simp add: upsert_device_registration_def Let_def io_bind_apply io_get_apply io_result_apply
      io_return_apply utc_now_def to_json_ok libs_ok_codecs [OF L] quiet_requests d_def i_def)
    (rule exI, rule conjI, rule refl, simp)

lemma init_structure_writes:
  fixes w :: "'z metadata_engine_scheme"
  assumes L: "libs_ok L" and E: "renders E" and w: "events w = []"
  shows "\<exists>ob. init_structure L E name w = (Inr (), w\<lparr>objects := ob\<rparr>)
    \<and> contents ob descriptor_key = contents (objects w) descriptor_key
    \<and> contents ob (device_registration_key (uuid_text L (me_device_id w)))
        = Some (json_of (json_device L) (registered_device L E (me_device_id w) name (now w)))"
proof -
  let ?r = "device_registration_key (uuid_text L (me_device_id w))"
  let ?d = "registered_device L E (me_device_id w) name (now w)"
  have reg: "?r \<noteq> schema_migration_key v" "?r \<noteq> device_capabilities_key i" "?r \<noteq> device_registry_key"
    "?r \<noteq> blob_manifest_key" "?r \<noteq> ''.s4drive/system/locks/''" for v i
    by (auto simp: key_defs)
  obtain u ob1 where 1: "write_migration_marker L E w = (Inr u, w\<lparr>objects := ob1\<rparr>)"
    "\<And>k. k \<notin> {schema_migration_key supported_schema_version} \<Longrightarrow> contents ob1 k = contents (objects w) k"
    by (rule writesD [OF write_migration_marker_writes [OF E, of "{schema_migration_key supported_schema_version}"] w])
      auto
  from upsert_device_registration_quiet [OF L, of "w\<lparr>objects := ob1\<rparr>" E name] w obtain ob2 where
    2: "upsert_device_registration L E name (w\<lparr>objects := ob1\<rparr>) = (Inr ?d, w\<lparr>objects := ob2\<rparr>)"
    "contents ob2 ?r = Some (json_of (json_device L) ?d)" "contents ob2 descriptor_key = contents ob1 descriptor_key"
    using reg by auto
  let ?K = "{device_registry_key, blob_manifest_key, ''.s4drive/system/locks/''}"
  let ?rest = "io_bind (io_get me_device_id) (\<lambda>d.
     io_bind utc_now (\<lambda>at.
     io_bind (io_result (render_pretty E (registry_doc L d ?d at))) (\<lambda>registry.
     io_bind (put_if_not_exists L device_registry_key registry) (\<lambda>_.
     io_bind (put_if_not_exists L blob_manifest_key ''{}'') (\<lambda>_.
     io_bind (put_object L ''.s4drive/system/locks/'' []) (\<lambda>_. io_return ()))))))"
  have rest: "writes ?K ?rest" by (intro writes_intros not_isl_render [OF E]) auto
  have w2: "events (w\<lparr>objects := ob2\<rparr>) = []" using w by simp
  obtain v ob3 where 3: "?rest (w\<lparr>objects := ob2\<rparr>) = (Inr v, w\<lparr>objects := ob2\<rparr>\<lparr>objects := ob3\<rparr>)"
    "\<And>k. k \<notin> ?K \<Longrightarrow> contents ob3 k = contents (objects (w\<lparr>objects := ob2\<rparr>)) k"
    using writesD [OF rest w2] by blast
  have "init_structure L E name w = (Inr (), w\<lparr>objects := ob3\<rparr>)"
    unfolding init_structure_def using 1(1) 2(1) 3(1) by (simp add: io_bind_apply)
  then show ?thesis
    using 1(2) [of descriptor_key] 2(2,3) 3(2) [of descriptor_key] 3(2) [of ?r] reg by auto
qed

lemma init_bucket_quiet:
  fixes w :: "'z metadata_engine_scheme"
  assumes L: "libs_ok L" and E: "renders E" and w: "events w = []"
    and free: "contents (objects w) descriptor_key = None" and id: "uuid_now_v7 L (draws w) \<noteq> 0"
  shows "\<exists>w'. init_bucket L E name w = (Inr (new_descriptor L (uuid_now_v7 L (draws w)) (now w) name), w')
    \<and> contents (objects w') (device_registration_key (uuid_text L (me_device_id w)))
        = Some (json_of (json_device L) (registered_device L E (me_device_id w) name (now w)))
    \<and> read_descriptor L w' = (Inr (new_descriptor L (uuid_now_v7 L (draws w)) (now w) name), w')"
proof -
  let ?d = "new_descriptor L (uuid_now_v7 L (draws w)) (now w) name"
  have valid: "validate_descriptor ?d = Inr ()"
    using id by (simp add: validate_descriptor_def new_descriptor_def supported_schema_version_def)
  let ?w1 = "w\<lparr>draws := draws w + 1, objects := btree_insert descriptor_key
      (json_of (json_descriptor L) ?d, store_etag L (json_of (json_descriptor L) ?d)) (objects w)\<rparr>"
  from init_structure_writes [OF L E, of ?w1 name] w obtain ob where ob:
    "init_structure L E name ?w1 = (Inr (), ?w1\<lparr>objects := ob\<rparr>)"
    "contents ob descriptor_key = Some (json_of (json_descriptor L) ?d)"
    "contents ob (device_registration_key (uuid_text L (me_device_id w)))
        = Some (json_of (json_device L) (registered_device L E (me_device_id w) name (now w)))" by auto
  have "init_bucket L E name w = (Inr ?d, ?w1\<lparr>objects := ob\<rparr>)"
    using w free valid ob(1)
    by (simp add: init_bucket_def Let_def io_bind_apply io_try_apply io_result_apply io_return_apply
        check_initialized_def utc_now_def io_get_apply new_uuid_def quiet_requests to_json_ok libs_ok_codecs [OF L])
  moreover have "read_descriptor L (?w1\<lparr>objects := ob\<rparr>) = (Inr ?d, ?w1\<lparr>objects := ob\<rparr>)"
    using w ob(2) valid
    by (simp add: read_descriptor_def io_bind_apply io_result_apply io_return_apply read_json_quiet libs_ok_codecs [OF L])
  ultimately show ?thesis using ob(3) by auto
qed

text \<open>The upgrade of an old descriptor, and that upgrading again changes nothing.\<close>

lemma upgraded_fields [simp]:
  "bd_schema_version (upgraded L d) = supported_schema_version" "bd_bucket_id (upgraded L d) = bd_bucket_id d"
  "folder_nodes_capability \<in> set (bd_capabilities (upgraded L d))"
  "set (bd_capabilities d) \<subseteq> set (bd_capabilities (upgraded L d))"
  by (auto simp: upgraded_def)

lemma upgrade_schema_quiet:
  fixes w :: "'z world_scheme"
  assumes L: "libs_ok L" and E: "renders E" and w: "events w = []" and inv: "store_inv L (objects w)"
    and d: "contents (objects w) descriptor_key = Some (json_of (json_descriptor L) d)"
    and valid: "validate_descriptor d = Inr ()"
  shows "\<exists>w'. upgrade_schema L E w = (Inr (), w')
    \<and> (if supported_schema_version \<le> bd_schema_version d then w' = w
       else read_descriptor L w' = (Inr (upgraded L d), w')
         \<and> (\<forall>k. k \<notin> {descriptor_key, schema_migration_key supported_schema_version} \<longrightarrow>
               contents (objects w') k = contents (objects w) k))"
proof (cases "supported_schema_version \<le> bd_schema_version d")
  case True
  then show ?thesis
    using w d valid inv
    by (simp add: upgrade_schema_def io_bind_apply io_try_apply io_result_apply io_return_apply quiet_head
        read_descriptor_def read_json_quiet libs_ok_codecs [OF L])
next
  case False
  let ?j = "json_of (json_descriptor L) (upgraded L d)"
  let ?w1 = "w\<lparr>objects := btree_insert descriptor_key (?j, store_etag L ?j) (objects w)\<rparr>"
  have w1: "events ?w1 = []" using w by simp
  obtain u ob where ob: "write_migration_marker L E ?w1 = (Inr u, ?w1\<lparr>objects := ob\<rparr>)"
    "\<And>k. k \<notin> {schema_migration_key supported_schema_version} \<Longrightarrow> contents ob k = contents (objects ?w1) k"
    by (rule writesD [OF write_migration_marker_writes [OF E, of "{schema_migration_key supported_schema_version}"] w1])
      auto
  have "upgrade_schema L E w = (Inr (), w\<lparr>objects := ob\<rparr>)"
    using w d valid inv False ob(1)
    by (simp add: upgrade_schema_def io_bind_apply io_try_apply io_result_apply io_return_apply quiet_head
        quiet_put_if_match read_descriptor_def read_json_quiet to_json_ok libs_ok_codecs [OF L] libs_ok_etag [OF L])
  moreover have "validate_descriptor (upgraded L d) = Inr ()"
    using valid False
    by (auto simp: validate_descriptor_def supported_schema_version_def split: if_splits)
  moreover have "contents ob descriptor_key = Some ?j" using ob(2) [of descriptor_key] by simp
  ultimately show ?thesis
    using w False ob(2)
    by (auto simp: read_descriptor_def io_bind_apply io_result_apply io_return_apply read_json_quiet libs_ok_codecs [OF L])
qed

end
