(* ===== verification/Optimize.thy ===== *)
theory Optimize
  imports Core_Types "HOL-Library.Multiset" "HOL-Library.List_Lexorder" "HOL-Library.Char_ord"
begin

text \<open>
  Resource control (\<open>optimization.rs\<close>): the token bucket of the rate limiter, the
  streaming threshold, the idle backoff, the adaptive number of transfers and the
  eviction policy of the cache.

  The limiter refills by \<open>(elapsed * rate) as u64\<close>, computed in floating point from
  the clock; a refill is therefore an input of the model, \<open>None\<close> when less than ten
  milliseconds have passed. \<open>consume\<close> may wait forever when no tokens arrive: the
  model runs on the list of refills that happen, and \<open>None\<close> means it still waits.
\<close>

section \<open>Rate limiter\<close>

record rate_limiter =
  rl_rate :: u64
  rl_tokens :: u64
  rl_max_burst :: u64

definition u64_max :: u64 where
  "u64_max = - 1"

definition saturating_add :: "u64 \<Rightarrow> u64 \<Rightarrow> u64" where
  "saturating_add a b = (if a + b < a then u64_max else a + b)"

definition burst_of :: "u64 \<Rightarrow> u64" where
  "burst_of bytes_per_sec = max bytes_per_sec (1024 * 1024)"

definition rate_limiter_new :: "u64 \<Rightarrow> rate_limiter" where
  "rate_limiter_new bytes_per_sec =
     \<lparr>rl_rate = bytes_per_sec, rl_tokens = (if bytes_per_sec = 0 then u64_max else bytes_per_sec),
      rl_max_burst = burst_of bytes_per_sec\<rparr>"

definition set_rate :: "u64 \<Rightarrow> rate_limiter \<Rightarrow> rate_limiter" where
  "set_rate bytes_per_sec l =
     l\<lparr>rl_rate := bytes_per_sec, rl_tokens := (if bytes_per_sec = 0 then u64_max else bytes_per_sec),
       rl_max_burst := burst_of bytes_per_sec\<rparr>"

definition refill :: "u64 option \<Rightarrow> rate_limiter \<Rightarrow> rate_limiter" where
  "refill arrived l =
     (if rl_rate l = 0 then l
      else case arrived of
          None \<Rightarrow> l
        | Some new_tokens \<Rightarrow> l\<lparr>rl_tokens := min (saturating_add (rl_tokens l) new_tokens) (rl_max_burst l)\<rparr>)"

text \<open>The \<open>while\<close> loop of \<open>consume\<close>, one refill per round.\<close>

fun consume_loop :: "u64 option list \<Rightarrow> u64 \<Rightarrow> rate_limiter \<Rightarrow> (rate_limiter \<times> u64 option list) option" where
  "consume_loop [] remaining l = (if remaining = 0 then Some (l, []) else None)"
| "consume_loop (a # rest) remaining l =
     (if remaining = 0 then Some (l, a # rest)
      else
        (let l1 = refill a l;
             taken = min (rl_tokens l1) remaining
         in consume_loop rest (remaining - taken) (l1\<lparr>rl_tokens := rl_tokens l1 - taken\<rparr>)))"

definition consume :: "u64 option list \<Rightarrow> u64 \<Rightarrow> rate_limiter \<Rightarrow> (rate_limiter \<times> u64 option list) option" where
  "consume arrivals bytes l = (if rl_rate l = 0 then Some (l, arrivals) else consume_loop arrivals bytes l)"

definition limiter_inv :: "rate_limiter \<Rightarrow> bool" where
  "limiter_inv l \<longleftrightarrow> rl_max_burst l = burst_of (rl_rate l) \<and> (rl_rate l \<noteq> 0 \<longrightarrow> rl_tokens l \<le> rl_max_burst l)"

definition arrived_total :: "u64 option list \<Rightarrow> nat" where
  "arrived_total as = sum_list (map (\<lambda>a. case a of None \<Rightarrow> 0 | Some n \<Rightarrow> unat n) as)"

lemma unat_u64_max: "unat u64_max = 2 ^ 64 - 1"
  by (simp add: u64_max_def unat_arith_simps unsigned_minus_1_eq_mask mask_eq_exp_minus_1)

lemma unat_saturating_add: "unat (saturating_add a b) = min (unat a + unat b) (2 ^ 64 - 1)"
proof (cases "a \<le> a + b")
  case True
  then have "unat (a + b) = unat a + unat b" by (simp add: unat_plus_simple)
  moreover have "unat (a + b) < 2 ^ 64" by (rule order_less_le_trans [OF unsigned_less]) simp
  ultimately show ?thesis using True leD [OF True] by (simp add: saturating_add_def)
next
  case False
  then have "2 ^ 64 \<le> unat a + unat b" by (simp add: no_olen_add_nat)
  moreover note unat_u64_max
  ultimately show ?thesis using False by (simp add: saturating_add_def not_le)
qed

lemma unat_u64_le: "unat (x :: u64) \<le> 2 ^ 64 - 1"
proof -
  have "unat x < 2 ^ 64" by (rule order_less_le_trans [OF unsigned_less]) simp
  then show ?thesis by simp
qed

lemma unat_min: "unat (min a b) = min (unat a) (unat (b :: u64))"
  by (simp add: min_def word_le_nat_alt)

lemma limiter_inv_new: "limiter_inv (rate_limiter_new r)"
  by (simp add: limiter_inv_def rate_limiter_new_def burst_of_def)

lemma limiter_inv_set_rate: "limiter_inv (set_rate r l)"
  by (simp add: limiter_inv_def set_rate_def burst_of_def)

lemma limiter_inv_refill: "limiter_inv l \<Longrightarrow> limiter_inv (refill a l)"
  by (auto simp: limiter_inv_def refill_def split: option.split)

text \<open>
  What \<open>consume\<close> spends: the bytes it was asked for, out of the tokens it had and those
  that arrived; it never lets more through. Lost tokens are those above the burst.
\<close>

lemma consume_loop_spends:
  "consume_loop as n l = Some (l', rest) \<Longrightarrow> rl_rate l \<noteq> 0 \<Longrightarrow> limiter_inv l \<Longrightarrow>
     limiter_inv l' \<and> (\<exists>used. as = used @ rest
       \<and> unat n + unat (rl_tokens l') \<le> unat (rl_tokens l) + arrived_total used)"
proof (induction as n l rule: consume_loop.induct)
  case (1 n l)
  then show ?case by (auto simp: arrived_total_def split: if_splits)
next
  case (2 a as n l)
  show ?case
  proof (cases "n = 0")
    case True
    then show ?thesis using 2 by (auto simp: arrived_total_def intro!: exI [of _ "[]"])
  next
    case False
    define l1 where "l1 = refill a l"
    define taken where "taken = min (rl_tokens l1) n"
    define l2 where "l2 = l1\<lparr>rl_tokens := rl_tokens l1 - taken\<rparr>"
    have run: "consume_loop as (n - taken) l2 = Some (l', rest)"
      using 2(2) False by (simp add: l1_def l2_def taken_def Let_def)
    have le: "taken \<le> rl_tokens l1" "taken \<le> n" by (simp_all add: taken_def)
    have rate: "rl_rate l2 \<noteq> 0" using 2(3) by (simp add: l2_def l1_def refill_def split: option.split)
    have inv1: "limiter_inv l1" using 2(4) limiter_inv_refill by (simp add: l1_def)
    have "rl_tokens l1 - taken \<le> rl_tokens l1" using le(1) by (simp add: word_sub_le)
    then have inv2: "limiter_inv l2" using inv1 by (auto simp: limiter_inv_def l2_def)
    from 2(1) [OF False l1_def taken_def run [unfolded l2_def] rate [unfolded l2_def] inv2 [unfolded l2_def]]
    obtain used where used: "limiter_inv l'" "as = used @ rest"
      "unat (n - taken) + unat (rl_tokens l') \<le> unat (rl_tokens l1 - taken) + arrived_total used" by auto
    have sub: "unat (n - taken) = unat n - unat taken" "unat (rl_tokens l1 - taken) = unat (rl_tokens l1) - unat taken"
      "unat taken \<le> unat n" "unat taken \<le> unat (rl_tokens l1)"
      using le by (simp_all add: unat_sub word_le_nat_alt)
    have "unat (rl_tokens l1) \<le> unat (rl_tokens l) + (case a of None \<Rightarrow> 0 | Some m \<Rightarrow> unat m)"
      using 2(3) by (auto simp: l1_def refill_def unat_min unat_saturating_add split: option.split)
    then have "unat n + unat (rl_tokens l') \<le> unat (rl_tokens l) + arrived_total (a # used)"
      using used(3) sub by (simp add: arrived_total_def)
    then show ?thesis using used by (intro conjI exI [of _ "a # used"]) simp_all
  qed
qed

text \<open>It returns as soon as enough tokens arrive that no refill has to discard.\<close>

lemma consume_loop_returns:
  assumes "unat n \<le> unat (rl_tokens l) + arrived_total as" "rl_rate l \<noteq> 0" "limiter_inv l"
    "as \<noteq> []" "unat (rl_tokens l) + arrived_total as \<le> unat (rl_max_burst l)"
  shows "consume_loop as n l \<noteq> None"
  using assms
proof (induction as n l rule: consume_loop.induct)
  case (1 n l)
  then show ?case by simp
next
  case (2 a as n l)
  show ?case
  proof (cases "n = 0")
    case False
    define l1 where "l1 = refill a l"
    define taken where "taken = min (rl_tokens l1) n"
    define l2 where "l2 = l1\<lparr>rl_tokens := rl_tokens l1 - taken\<rparr>"
    let ?a = "case a of None \<Rightarrow> 0 | Some m \<Rightarrow> unat m"
    have le: "taken \<le> rl_tokens l1" "taken \<le> n" by (simp_all add: taken_def)
    have keep: "rl_rate l2 = rl_rate l" "rl_max_burst l2 = rl_max_burst l"
      by (simp_all add: l2_def l1_def refill_def split: option.split)
    have tot: "arrived_total (a # as) = ?a + arrived_total as" by (simp add: arrived_total_def)
    have "unat (rl_max_burst l) \<le> 2 ^ 64 - 1" by (rule unat_u64_le)
    then have t1: "unat (rl_tokens l1) = unat (rl_tokens l) + ?a"
      using 2(3,6) tot by (auto simp: l1_def refill_def unat_min unat_saturating_add split: option.split)
    have sub: "unat (n - taken) = unat n - unat taken" "unat (rl_tokens l2) = unat (rl_tokens l1) - unat taken"
      "unat taken \<le> unat n" "unat taken \<le> unat (rl_tokens l1)"
      using le by (simp_all add: l2_def unat_sub word_le_nat_alt)
    have inv2: "limiter_inv l2"
    proof -
      have "rl_tokens l1 - taken \<le> rl_tokens l1" using le(1) by (simp add: word_sub_le)
      then show ?thesis using limiter_inv_refill [OF 2(4), of a] by (auto simp: limiter_inv_def l2_def l1_def)
    qed
    have "consume_loop as (n - taken) l2 \<noteq> None"
    proof (cases "as = []")
      case True
      then have "unat n \<le> unat (rl_tokens l1)" using 2(2) t1 tot by (simp add: arrived_total_def)
      then have "taken = n" by (simp add: taken_def word_le_nat_alt min.absorb2)
      then show ?thesis using True by simp
    next
      case as: False
      from 2(1) [OF False l1_def taken_def, folded l2_def] show ?thesis
        using 2(2,3,6) as inv2 keep sub t1 tot by auto
    qed
    then show ?thesis using False by (simp add: l1_def l2_def taken_def Let_def)
  qed simp
qed

section \<open>Streaming and concurrency\<close>

definition streaming_threshold :: u64 where
  "streaming_threshold = 10 * 1024 * 1024"

definition should_stream :: "u64 \<Rightarrow> bool" where
  "should_stream n \<longleftrightarrow> streaming_threshold < n"

definition max_concurrent_limit :: u32 where
  "max_concurrent_limit = 32"

definition clamp_concurrency :: "u32 \<Rightarrow> u32" where
  "clamp_concurrency v = (if v < 1 then 1 else if max_concurrent_limit < v then max_concurrent_limit else v)"

text \<open>Durations are counted in nanoseconds.\<close>

definition from_secs :: "nat \<Rightarrow> nat" where
  "from_secs n = n * 1000000000"

record idle_backoff =
  ib_steps :: "nat list"
  ib_idle_cycles :: nat

definition with_base :: "nat \<Rightarrow> idle_backoff" where
  "with_base d = (let base = max d (from_secs 1) in
     \<lparr>ib_steps = [base, base * 2, base * 4, base * 10], ib_idle_cycles = 0\<rparr>)"

definition idle_backoff_new :: idle_backoff where
  "idle_backoff_new = with_base (from_secs 30)"

definition backoff_reset :: "idle_backoff \<Rightarrow> idle_backoff" where
  "backoff_reset b = b\<lparr>ib_idle_cycles := 0\<rparr>"

definition current_delay :: "idle_backoff \<Rightarrow> nat" where
  "current_delay b = ib_steps b ! min (ib_idle_cycles b) (length (ib_steps b) - 1)"

text \<open>\<open>idle_cycles\<close> is a \<open>usize\<close>; \<open>saturating_add\<close> stops at its maximum.\<close>

definition usize_max :: nat where
  "usize_max = 2 ^ 64 - 1"

definition next_idle_delay :: "idle_backoff \<Rightarrow> nat \<times> idle_backoff" where
  "next_idle_delay b = (current_delay b, b\<lparr>ib_idle_cycles := min (ib_idle_cycles b + 1) usize_max\<rparr>)"

primrec idle_delays :: "nat \<Rightarrow> idle_backoff \<Rightarrow> nat list" where
  "idle_delays 0 b = []"
| "idle_delays (Suc n) b = fst (next_idle_delay b) # idle_delays n (snd (next_idle_delay b))"

lemma idle_delays_from:
  assumes "ib_steps b = [s0, s1, s2, s3]"
  shows "idle_delays n b = map (\<lambda>i. [s0, s1, s2, s3] ! min i 3) [ib_idle_cycles b ..< ib_idle_cycles b + n]"
  using assms
proof (induction n arbitrary: b)
  case 0
  then show ?case by simp
next
  case (Suc n)
  let ?i = "ib_idle_cycles b" and ?f = "\<lambda>i. [s0, s1, s2, s3] ! min i 3"
  have step: "idle_delays (Suc n) b = ?f ?i # map ?f [min (?i + 1) usize_max ..< min (?i + 1) usize_max + n]"
    using Suc by (simp add: next_idle_delay_def current_delay_def numeral_3_eq_3)
  have 3: "3 < usize_max" by (simp add: usize_max_def)
  show ?case
  proof (cases "?i + 1 \<le> usize_max")
    case True
    then show ?thesis using step by (simp add: upt_conv_Cons [of ?i] del: upt_Suc)
  next
    case False
    then have big: "usize_max \<le> ?i" by simp
    have "map ?f [usize_max ..< usize_max + n] = map ?f [?i + 1 ..< ?i + 1 + n]"
      by (rule nth_equalityI) (use 3 big in \<open>simp_all add: min.absorb2 del: upt_Suc\<close>)
    then show ?thesis using step False by (simp add: upt_conv_Cons [of ?i] del: upt_Suc)
  qed
qed

record adaptive_concurrency =
  ac_current :: u32
  ac_min :: u32
  ac_max :: u32
  ac_target_latency :: nat

definition adaptive_new :: "u32 \<Rightarrow> adaptive_concurrency" where
  "adaptive_new configured =
     \<lparr>ac_current = clamp_concurrency configured, ac_min = 1, ac_max = max_concurrent_limit,
      ac_target_latency = from_secs 2\<rparr>"

definition saturating_dec :: "u32 \<Rightarrow> u32" where
  "saturating_dec n = (if n = 0 then 0 else n - 1)"

definition record_success :: "nat \<Rightarrow> adaptive_concurrency \<Rightarrow> adaptive_concurrency" where
  "record_success latency a =
     (if latency \<le> ac_target_latency a \<and> ac_current a < ac_max a then a\<lparr>ac_current := ac_current a + 1\<rparr>
      else if ac_target_latency a * 3 < latency
      then a\<lparr>ac_current := max (saturating_dec (ac_current a)) (ac_min a)\<rparr>
      else a)"

definition record_failure :: "adaptive_concurrency \<Rightarrow> adaptive_concurrency" where
  "record_failure a = a\<lparr>ac_current := max (ac_current a div 2) (ac_min a)\<rparr>"

definition concurrency_inv :: "adaptive_concurrency \<Rightarrow> bool" where
  "concurrency_inv a \<longleftrightarrow> ac_min a = 1 \<and> ac_max a = 32 \<and> 1 \<le> ac_current a \<and> ac_current a \<le> 32"

lemma concurrency_inv_new: "concurrency_inv (adaptive_new n)"
  by (auto simp: concurrency_inv_def adaptive_new_def clamp_concurrency_def max_concurrent_limit_def
      word_less_nat_alt word_le_nat_alt)

lemma concurrency_inv_failure: "concurrency_inv a \<Longrightarrow> concurrency_inv (record_failure a)"
  by (auto simp: concurrency_inv_def record_failure_def max_def word_le_nat_alt unat_div)

lemma concurrency_inv_success: "concurrency_inv a \<Longrightarrow> concurrency_inv (record_success t a)"
proof -
  assume a: "concurrency_inv a"
  have up: "ac_current a < 32 \<Longrightarrow> 1 \<le> ac_current a + 1 \<and> ac_current a + 1 \<le> 32"
    by (simp add: word_less_nat_alt word_le_nat_alt unat_word_ariths)
  have down: "1 \<le> ac_current a \<Longrightarrow> ac_current a \<le> 32 \<Longrightarrow>
      1 \<le> max (saturating_dec (ac_current a)) 1 \<and> max (saturating_dec (ac_current a)) 1 \<le> 32"
    unfolding saturating_dec_def max_def by (auto; unat_arith)
  show ?thesis using a up down by (auto simp: concurrency_inv_def record_success_def)
qed

datatype concurrency_event = Success nat | Failure

primrec concurrency_step :: "concurrency_event \<Rightarrow> adaptive_concurrency \<Rightarrow> adaptive_concurrency" where
  "concurrency_step (Success latency) a = record_success latency a"
| "concurrency_step Failure a = record_failure a"

lemma concurrency_inv_run: "concurrency_inv a \<Longrightarrow> concurrency_inv (fold concurrency_step es a)"
proof (induction es arbitrary: a)
  case (Cons e es)
  then show ?case by (cases e) (simp_all add: concurrency_inv_success concurrency_inv_failure)
qed simp

section \<open>Cache eviction\<close>

record cache_entry =
  ce_key :: string
  ce_size_bytes :: u64
  ce_last_access_unix_ms :: int

text \<open>The greedy pass over the entries, newest first, with what is kept so far.\<close>

primrec evict_loop :: "nat \<Rightarrow> u64 \<Rightarrow> cache_entry list \<Rightarrow> nat \<Rightarrow> u64 \<Rightarrow> string list" where
  "evict_loop max_items max_bytes [] kept_items kept_bytes = []"
| "evict_loop max_items max_bytes (e # es) kept_items kept_bytes =
     (if kept_items < max_items \<and> saturating_add kept_bytes (ce_size_bytes e) \<le> max_bytes
      then evict_loop max_items max_bytes es (kept_items + 1) (saturating_add kept_bytes (ce_size_bytes e))
      else ce_key e # evict_loop max_items max_bytes es kept_items kept_bytes)"

definition newest_first :: "cache_entry list \<Rightarrow> cache_entry list" where
  "newest_first es = sort_key (\<lambda>e. - ce_last_access_unix_ms e) (sort_key ce_key es)"

definition lru_eviction_candidates :: "cache_entry list \<Rightarrow> nat \<Rightarrow> u64 \<Rightarrow> string list" where
  "lru_eviction_candidates entries max_items max_bytes = evict_loop max_items max_bytes (newest_first entries) 0 0"

text \<open>The entries the pass keeps.\<close>

primrec kept_loop :: "nat \<Rightarrow> u64 \<Rightarrow> cache_entry list \<Rightarrow> nat \<Rightarrow> u64 \<Rightarrow> cache_entry list" where
  "kept_loop max_items max_bytes [] kept_items kept_bytes = []"
| "kept_loop max_items max_bytes (e # es) kept_items kept_bytes =
     (if kept_items < max_items \<and> saturating_add kept_bytes (ce_size_bytes e) \<le> max_bytes
      then e # kept_loop max_items max_bytes es (kept_items + 1) (saturating_add kept_bytes (ce_size_bytes e))
      else kept_loop max_items max_bytes es kept_items kept_bytes)"

lemma evict_complement:
  "mset (map ce_key (kept_loop i b es n k)) + mset (evict_loop i b es n k) = mset (map ce_key es)"
  by (induction es arbitrary: n k) auto

lemma kept_loop_items: "n \<le> i \<Longrightarrow> n + length (kept_loop i b es n k) \<le> i"
proof (induction es arbitrary: n k)
  case (Cons e es)
  then show ?case using Cons.IH [of "n + 1"] by auto
qed simp

lemma kept_loop_bytes:
  assumes "b < u64_max"
  shows "k \<le> b \<Longrightarrow> unat k + sum_list (map (unat \<circ> ce_size_bytes) (kept_loop i b es n k)) \<le> unat b"
proof (induction es arbitrary: n k)
  case Nil
  then show ?case by (simp add: word_le_nat_alt)
next
  case (Cons e es)
  note unat_u64_max
  then have exact: "saturating_add k (ce_size_bytes e) \<le> b \<Longrightarrow>
      unat (saturating_add k (ce_size_bytes e)) = unat k + unat (ce_size_bytes e)"
    using assms by (simp add: word_le_nat_alt word_less_nat_alt unat_saturating_add min_def split: if_splits)
  show ?case
  proof (cases "n < i \<and> saturating_add k (ce_size_bytes e) \<le> b")
    case True
    then show ?thesis using Cons.IH [of "saturating_add k (ce_size_bytes e)" "n + 1"] exact by simp
  next
    case False
    then show ?thesis using Cons by auto
  qed
qed

end
