(* ===== verification/Blobs.thy ===== *)
theory Blobs
  imports Stored_Json Optimize
begin

text \<open>
  \<open>BlobStore\<close> (\<open>metadata/blobs.rs\<close>): contents under the key of their BLAKE3 hash.
  \<open>blob_inv\<close> is the promise of a content addressed store: whatever lies under the key
  of a hash has that hash. Uploads from memory keep it in any schedule of the other
  clients and under any fault; uploads from a file keep it as long as the bytes sent
  are the bytes hashed, which the second hashing of the code can only approximate.
\<close>

definition blob_hash :: "libs \<Rightarrow> string \<Rightarrow> string" where
  "blob_hash L data = hex_text L (blake3_digest L data)"

text \<open>\<open>Uuid::from_bytes\<close> of the first sixteen bytes, most significant first.\<close>

definition blob_id_from_digest :: "string \<Rightarrow> blob_id" where
  "blob_id_from_digest d = foldl (\<lambda>n c. n * 256 + of_nat (byte c)) 0 (take 16 d)"

text \<open>\<open>from_hex\<close> is \<open>blake3::Hash::from_hex\<close>.\<close>

definition blob_id_from_hash :: "(string \<Rightarrow> string option) \<Rightarrow> string \<Rightarrow> blob_id option" where
  "blob_id_from_hash from_hex h =
     (let hex = (case strip_prefix ''blake3:'' h of None \<Rightarrow> h | Some r \<Rightarrow> r)
      in map_option blob_id_from_digest (from_hex hex))"

definition content_ref_for :: "libs \<Rightarrow> string \<Rightarrow> u64 \<Rightarrow> string \<Rightarrow> content_ref" where
  "content_ref_for L data size_bytes mime =
     \<lparr>cr_blob_id = blob_id_from_digest (blake3_digest L data), cr_hash = blob_hash L data, cr_size = size_bytes,
      cr_mime = mime, cr_storage_key = blob_key (blob_hash L data)\<rparr>"

definition store_blob ::
    "libs \<Rightarrow> string \<Rightarrow> string \<Rightarrow> ('z world_scheme, core_error, blob_id \<times> content_ref) io" where
  "store_blob L data mime =
     (let c = content_ref_for L data (of_nat (length data)) mime in
      io_try (head_object (cr_storage_key c)) (\<lambda>r. case r of
          Inr _ \<Rightarrow> io_return (cr_blob_id c, c)
        | Inl e \<Rightarrow>
            if is_NotFound e
            then io_bind (put_if_not_exists L (cr_storage_key c) data) (\<lambda>_. io_return (cr_blob_id c, c))
            else io_throw e))"

text \<open>
  A file is read three times: to hash it, to send it, and to hash it again. Each
  reading is an input: its error, or the bytes it saw.
\<close>

definition hash_file_blake3 :: "libs \<Rightarrow> string core_result \<Rightarrow> (string \<times> string \<times> u64) core_result" where
  "hash_file_blake3 L reading =
     (case reading of
        Inl e \<Rightarrow> Inl e
      | Inr data \<Rightarrow> Inr (blake3_digest L data, blob_hash L data, if length data < 2 ^ 64 then of_nat (length data) else u64_max))"

definition upload_file :: "libs \<Rightarrow> string \<Rightarrow> string core_result \<Rightarrow> ('z world_scheme, core_error, bool) io" where
  "upload_file L k reading = io_bind (io_result reading) (\<lambda>data. put_if_not_exists L k data)"

definition store_file ::
    "libs \<Rightarrow> string \<Rightarrow> string core_result \<Rightarrow> string core_result \<Rightarrow> string core_result \<Rightarrow> string
      \<Rightarrow> ('z world_scheme, core_error, blob_id \<times> content_ref) io" where
  "store_file L path before sent after mime =
     io_bind (io_result (hash_file_blake3 L before)) (\<lambda>(digest, hash, size_bytes).
       let c = \<lparr>cr_blob_id = blob_id_from_digest digest, cr_hash = hash, cr_size = size_bytes, cr_mime = mime,
                cr_storage_key = blob_key hash\<rparr> in
       io_try (head_object (cr_storage_key c)) (\<lambda>r. case r of
           Inr _ \<Rightarrow> io_return (cr_blob_id c, c)
         | Inl e \<Rightarrow>
             if \<not> is_NotFound e then io_throw e
             else
               io_bind (upload_file L (cr_storage_key c) sent) (\<lambda>created.
                 if created then
                   io_bind (io_result (hash_file_blake3 L after)) (\<lambda>(_, after_hash, after_size).
                     if after_hash \<noteq> hash \<or> after_size \<noteq> size_bytes then
                       io_try (delete_object (cr_storage_key c)) (\<lambda>_.
                         io_throw (FileSystem (''file changed during upload: '' @ path)))
                     else io_return (cr_blob_id c, c))
                 else io_return (cr_blob_id c, c))))"

definition get_blob :: "string \<Rightarrow> ('z world_scheme, core_error, string) io" where
  "get_blob h = get_object (blob_key h)"

definition blob_exists :: "string \<Rightarrow> ('z world_scheme, core_error, bool) io" where
  "blob_exists h =
     io_try (head_object (blob_key h)) (\<lambda>r. case r of
         Inr _ \<Rightarrow> io_return True
       | Inl e \<Rightarrow> if is_NotFound e then io_return False else io_throw e)"

definition delete_blob :: "string \<Rightarrow> ('z world_scheme, core_error, unit) io" where
  "delete_blob h = delete_object (blob_key h)"

record blob_statistics =
  bs_total_blobs :: nat
  bs_total_size :: u64

definition blob_stats :: "('z world_scheme, core_error, blob_statistics) io" where
  "blob_stats =
     io_bind (list_objects ''.s4drive/content/blobs/'') (\<lambda>keys.
     io_bind (io_fold (\<lambda>k total. io_try (head_object k) (\<lambda>r. case r of
           Inr meta \<Rightarrow> io_return (total + om_size meta) | Inl _ \<Rightarrow> io_return total)) keys 0) (\<lambda>total.
       io_return \<lparr>bs_total_blobs = length keys, bs_total_size = total\<rparr>))"

section \<open>Content addressing\<close>

text \<open>\<open>Hash::to_hex\<close> is made of hexadecimal digits; no slash is all that is needed here.\<close>

definition hex_ok :: "libs \<Rightarrow> bool" where
  "hex_ok L \<longleftrightarrow> (\<forall>d. CHR ''/'' \<notin> set (hex_text L d))"

definition blob_inv :: "libs \<Rightarrow> objs \<Rightarrow> bool" where
  "blob_inv L m \<longleftrightarrow> (\<forall>d b. contents m (blob_key (blob_hash L d)) = Some b \<longrightarrow> blob_hash L b = blob_hash L d)"

lemma blob_key_inj:
  assumes "CHR ''/'' \<notin> set h" "CHR ''/'' \<notin> set h'"
  shows "blob_key h = blob_key h' \<longleftrightarrow> h = h'"
proof
  assume eq: "blob_key h = blob_key h'"
  have key: "rsplit_once (CHR ''/'') (blob_key g)
      = Some (''.s4drive/content/blobs/'' @ (if 2 \<le> length g \<and> (length g = 2 \<or> \<not> utf8_cont (byte (g ! 2))) then take 2 g else g), g)"
    if "CHR ''/'' \<notin> set g" for g
    using rsplit_once_append [OF that, of "''.s4drive/content/blobs/'' @ (if 2 \<le> length g
        \<and> (length g = 2 \<or> \<not> utf8_cont (byte (g ! 2))) then take 2 g else g)"]
    by (simp add: blob_key_def Let_def)
  show "h = h'" using key [OF assms(1)] key [OF assms(2)] unfolding eq by simp
qed simp

lemma blob_inv_put:
  assumes "hex_ok L" "blob_inv L m" "blob_hash L b = blob_hash L d"
  shows "blob_inv L (btree_insert (blob_key (blob_hash L d)) (b, e) m)"
  using assms blob_key_inj
  by (auto simp: blob_inv_def hex_ok_def blob_hash_def split: if_splits)

lemma keeps_create_blob:
  assumes "hex_ok L" "blob_hash L b = blob_hash L d"
  shows "keeps (blob_inv L) (put_if_not_exists L (blob_key (blob_hash L d)) b)"
  unfolding put_if_not_exists_def
  by (rule keeps_serve) (use blob_inv_put assms in \<open>auto simp: mem_put_if_not_exists_def split: option.splits\<close>)

lemma keeps_store_blob: "hex_ok L \<Longrightarrow> keeps (blob_inv L) (store_blob L data mime)"
  unfolding store_blob_def Let_def content_ref_for_def content_ref.simps
  by (intro keeps_intros keeps_create_blob) simp_all

lemma created_present:
  assumes "put_if_not_exists L k b w = (Inr ok, w')" "guarded P w"
    and "\<And>m. P m \<Longrightarrow> P (snd (mem_put_if_not_exists L k b m))"
  shows "P (objects w') \<and> contents (objects w') k \<noteq> None"
proof -
  from guarded_serve [OF assms(1) [unfolded put_if_not_exists_def] assms(2,3)] obtain m where
    "P (objects w')" "mem_put_if_not_exists L k b m = (Inr ok, objects w')" by (auto simp: guarded_def)
  moreover have "contents (snd (mem_put_if_not_exists L k b m)) k \<noteq> None"
    by (simp add: mem_put_if_not_exists_def contents_def split: option.split)
  ultimately show ?thesis by simp
qed

text \<open>A stored blob lies in the bucket when the call returns, with the hash it is returned with.\<close>

lemma store_blob_stored:
  assumes hex: "hex_ok L" and w: "guarded (blob_inv L) w" and run: "store_blob L data mime w = (Inr (i, c), w')"
  shows "\<exists>b. contents (objects w') (cr_storage_key c) = Some b \<and> blob_hash L b = blob_hash L data"
    "c = content_ref_for L data (of_nat (length data)) mime \<and> i = cr_blob_id c"
proof -
  let ?c = "content_ref_for L data (of_nat (length data)) mime"
  let ?k = "blob_key (blob_hash L data)"
  have k: "cr_storage_key ?c = ?k" by (simp add: content_ref_for_def)
  obtain r w1 where h: "head_object ?k w = (r, w1)" by fastforce
  note g1 = guarded_reads(2) [OF w h]
  have "guarded (blob_inv L) w'" using keeps_store_blob [OF hex] w run by (rule keepsD)
  then have inv: "blob_inv L (objects w')" by (simp add: guarded_def)
  have "c = ?c \<and> i = cr_blob_id c \<and> contents (objects w') ?k \<noteq> None"
  proof (cases r)
    case (Inr meta)
    then show ?thesis using run h g1 by (auto simp: store_blob_def Let_def k io_simps contents_def)
  next
    case (Inl e)
    with run h obtain ok where put: "put_if_not_exists L ?k data w1 = (Inr ok, w')" and "c = ?c" "i = cr_blob_id c"
      by (auto simp: store_blob_def Let_def k io_simps split: if_splits prod.splits sum.splits)
    then show ?thesis
      using created_present [where P = "\<lambda>_. True", OF put] by (simp add: guarded_def env_keeps_def)
  qed
  then show "c = ?c \<and> i = cr_blob_id c"
    "\<exists>b. contents (objects w') (cr_storage_key c) = Some b \<and> blob_hash L b = blob_hash L data"
    using inv k by (auto simp: blob_inv_def)
qed

lemma store_blob_quiet:
  assumes w: "events w = []" and free: "contents (objects w) (blob_key (blob_hash L data)) = None"
  shows "\<exists>c w'. store_blob L data mime w = (Inr (cr_blob_id c, c), w') \<and> get_blob (cr_hash c) w' = (Inr data, w')
    \<and> blob_exists (cr_hash c) w' = (Inr True, w')
    \<and> store_blob L data mime w' = (Inr (cr_blob_id c, c), w')"
  using assms
  by (simp add: store_blob_def Let_def content_ref_for_def io_try_apply io_bind_apply io_return_apply head_object_def
      serve_quiet mem_head_object_def put_if_not_exists_def mem_put_if_not_exists_def contents_None get_blob_def
      get_object_def mem_get_object_def blob_exists_def)

section \<open>Uploads from files\<close>

lemma blob_inv_remove [simp]: "blob_inv L m \<Longrightarrow> blob_inv L (btree_remove k m)"
  by (auto simp: blob_inv_def)

lemma keeps_upload:
  assumes "hex_ok L" "\<And>x. sent = Inr x \<Longrightarrow> blob_hash L x = blob_hash L d"
  shows "keeps (blob_inv L) (upload_file L (blob_key (blob_hash L d)) sent)"
  using assms by (cases sent) (simp_all add: upload_file_def io_bind_known keeps_basic keeps_create_blob)

lemma store_file_unchanged:
  assumes hex: "hex_ok L" and w: "guarded (blob_inv L) w" and sent: "\<And>d. sent = Inr d \<Longrightarrow> before = Inr d"
    and run: "store_file L path before sent after mime w = (r, w')"
  shows "guarded (blob_inv L) w'"
proof -
  have "keeps (blob_inv L) (delete_object k)" for k
    unfolding delete_object_def by (rule keeps_serve) (simp add: mem_delete_object_def)
  then have "keeps (blob_inv L) (store_file L path before sent after mime)"
  proof (cases before)
    case (Inr d)
    then have "keeps (blob_inv L) (upload_file L (blob_key (blob_hash L d)) sent)"
      using sent by (intro keeps_upload [OF hex]) auto
    then show ?thesis
      using Inr \<open>\<And>k. keeps (blob_inv L) (delete_object k)\<close>
      unfolding store_file_def Let_def hash_file_blake3_def
      by (auto simp: io_bind_known intro!: keeps_intros split: prod.split)
  qed (simp add: store_file_def hash_file_blake3_def io_bind_known keeps_basic)
  then show ?thesis using w run by (rule keepsD)
qed

text \<open>
  A file that holds other bytes only while it is being sent passes the second hashing:
  the key of the first hash then names other contents.
\<close>

lemma store_file_swapped:
  assumes "events w = []" "contents (objects w) (blob_key (blob_hash L data)) = None"
  shows "\<exists>c w'. store_file L path (Inr data) (Inr other) (Inr data) mime w = (Inr (cr_blob_id c, c), w')
    \<and> cr_hash c = blob_hash L data \<and> get_blob (cr_hash c) w' = (Inr other, w')"
  using assms
  by (simp add: store_file_def upload_file_def hash_file_blake3_def Let_def io_try_apply io_bind_apply io_result_apply
      io_return_apply head_object_def serve_quiet mem_head_object_def put_if_not_exists_def
      mem_put_if_not_exists_def contents_None get_blob_def get_object_def mem_get_object_def)

text \<open>A change that is still there after the upload is reported and nothing stays behind.\<close>

lemma store_file_changed:
  assumes "events w = []" "contents (objects w) (blob_key (blob_hash L data)) = None"
    "blob_hash L data' \<noteq> blob_hash L data"
  shows "\<exists>w'. store_file L path (Inr data) (Inr sent) (Inr data') mime w =
      (Inl (FileSystem (''file changed during upload: '' @ path)), w') \<and> contents (objects w') = contents (objects w)"
  using assms
  by (simp add: store_file_def upload_file_def hash_file_blake3_def Let_def io_try_apply io_bind_apply io_result_apply
      io_return_apply io_throw_apply head_object_def serve_quiet mem_head_object_def put_if_not_exists_def
      mem_put_if_not_exists_def contents_None delete_object_def mem_delete_object_def fun_eq_iff)
    (simp add: contents_def)

lemma blob_id_prefix:
  assumes "from_hex (hex_text L d) = Some d" "strip_prefix ''blake3:'' (hex_text L d) = None"
  shows "blob_id_from_hash from_hex (hex_text L d) = Some (blob_id_from_digest d)"
    "blob_id_from_hash from_hex (''blake3:'' @ hex_text L d) = Some (blob_id_from_digest d)"
  using assms unfolding blob_id_from_hash_def strip_prefix_append by simp_all

end
