(* ===== verification/Rust_Paths.thy ===== *)
theory Rust_Paths
  imports Rust_Strings
begin

text \<open>
  \<open>std::path::Path\<close> on Unix, as the modelled code uses it: components, parent,
  file name, stem and extension, and \<open>PathBuf::push\<close>. A path is the string it is
  written as.
\<close>

datatype path_component = Root_Dir | Cur_Dir | Parent_Dir | Normal string

definition body_components :: "string list \<Rightarrow> path_component list" where
  "body_components ws =
     map (\<lambda>w. if w = ''..'' then Parent_Dir else Normal w) (filter (\<lambda>w. w \<noteq> [] \<and> w \<noteq> ''.'') ws)"

definition path_components :: "string \<Rightarrow> path_component list" where
  "path_components p =
     (let ws = split_on (CHR ''/'') p in
      (if p \<noteq> [] \<and> hd p = CHR ''/'' then [Root_Dir]
       else if hd ws = ''.'' then [Cur_Dir] else [])
      @ body_components ws)"

definition path_parent :: "string \<Rightarrow> path_component list option" where
  "path_parent p =
     (let cs = path_components p in
      if cs = [] \<or> last cs = Root_Dir then None else Some (butlast cs))"

definition path_file_name :: "string \<Rightarrow> string option" where
  "path_file_name p =
     (let cs = path_components p in
      if cs = [] then None else (case last cs of Normal w \<Rightarrow> Some w | _ \<Rightarrow> None))"

text \<open>The name is split at its last dot, unless it is \<open>..\<close> or the dot is its first byte.\<close>

definition name_split :: "string \<Rightarrow> string \<times> string option" where
  "name_split w =
     (if w = ''..'' then (w, None)
      else (case rsplit_once (CHR ''.'') w of
          None \<Rightarrow> (w, None)
        | Some (before, after) \<Rightarrow> if before = [] then (w, None) else (before, Some after)))"

definition path_file_stem :: "string \<Rightarrow> string option" where
  "path_file_stem p = map_option (fst \<circ> name_split) (path_file_name p)"

definition path_extension :: "string \<Rightarrow> string option" where
  "path_extension p = (case path_file_name p of None \<Rightarrow> None | Some w \<Rightarrow> snd (name_split w))"

text \<open>\<open>PathBuf::push\<close>: an absolute argument replaces the path.\<close>

definition path_push :: "string \<Rightarrow> string \<Rightarrow> string" where
  "path_push p w =
     (if w \<noteq> [] \<and> hd w = CHR ''/'' then w
      else if p = [] \<or> last p = CHR ''/'' then p @ w
      else p @ ''/'' @ w)"

lemma body_components_normal:
  "Normal w \<in> set (body_components ws) \<Longrightarrow> w \<in> set ws \<and> w \<noteq> [] \<and> w \<noteq> ''.'' \<and> w \<noteq> ''..''"
  by (auto simp: body_components_def split: if_splits)

lemma path_components_normal:
  "Normal w \<in> set (path_components p) \<Longrightarrow> CHR ''/'' \<notin> set w \<and> w \<noteq> [] \<and> w \<noteq> ''.'' \<and> w \<noteq> ''..''"
  using body_components_normal [of w "split_on (CHR ''/'') p"] split_on_pieces [of w "CHR ''/''" p]
  by (auto simp: path_components_def Let_def split: if_splits)

lemma path_file_name_normal:
  assumes "path_file_name p = Some w"
  shows "CHR ''/'' \<notin> set w \<and> w \<noteq> [] \<and> w \<noteq> ''.'' \<and> w \<noteq> ''..''"
proof -
  have "Normal w \<in> set (path_components p)"
  proof -
    have "path_components p \<noteq> []" "last (path_components p) = Normal w"
      using assms by (auto simp: path_file_name_def Let_def split: if_splits path_component.splits)
    then show ?thesis by (metis last_in_set)
  qed
  then show ?thesis by (rule path_components_normal)
qed

text \<open>A plain name is its own file name.\<close>

lemma path_file_name_plain:
  assumes "CHR ''/'' \<notin> set w" "w \<noteq> []" "w \<noteq> ''.''" "w \<noteq> ''..''"
  shows "path_file_name w = Some w"
proof -
  have "hd w \<noteq> CHR ''/''" using assms by (metis hd_in_set)
  then have "path_components w = [Normal w]"
    using assms by (simp add: path_components_def split_on_no_sep body_components_def)
  then show ?thesis by (simp add: path_file_name_def)
qed

lemma name_split_parts: "name_split w = (stem, ext) \<Longrightarrow>
    w = stem @ (case ext of None \<Rightarrow> [] | Some e \<Rightarrow> CHR ''.'' # e)"
  by (auto simp: name_split_def split: if_splits option.splits dest: rsplit_once_Some)

lemma name_split_ext: "name_split w = (stem, Some e) \<Longrightarrow> CHR ''.'' \<notin> set e \<and> stem \<noteq> []"
  by (auto simp: name_split_def split: if_splits option.splits dest: rsplit_once_Some)

end
