(* ===== verification/Line_Merge.thy ===== *)
theory Line_Merge
  imports Rust_Paths
begin

text \<open>
  The text merge of the conflict engine (\<open>sync/conflict_engine.rs\<close>): a longest common
  subsequence of lines by dynamic programming, the line changes read off it, and the
  three-way merge of two lists of changes. A slice whose start lies beyond its end
  panics in Rust; here such a run returns \<open>None\<close>.
\<close>

section \<open>Lines\<close>

text \<open>\<open>str::lines\<close>: the pieces between line feeds, a final empty one dropped, a carriage
  return before a line feed stripped.\<close>

definition strip_cr :: "string \<Rightarrow> string" where
  "strip_cr s = (case strip_suffix [CHR 0x0D] s of Some t \<Rightarrow> t | None \<Rightarrow> s)"

definition str_lines :: "string \<Rightarrow> string list" where
  "str_lines s =
     (let pieces = split_on (CHR 0x0A) s
      in map strip_cr (butlast pieces) @ (if last pieces = [] then [] else [last pieces]))"

section \<open>Longest common subsequence\<close>

text \<open>A row of the table from the row above it: \<open>p\<close> is \<open>dp[i-1][j-1]\<close>, \<open>q\<close> is \<open>dp[i-1][j]\<close>,
  \<open>left\<close> is \<open>dp[i][j-1]\<close>.\<close>

fun dp_cells :: "'a \<Rightarrow> 'a list \<Rightarrow> nat list \<Rightarrow> nat \<Rightarrow> nat list" where
  "dp_cells x (y # ys) (p # q # ps) left =
     (let v = (if x = y then p + 1 else max q left) in v # dp_cells x ys (q # ps) v)"
| "dp_cells x _ _ left = []"

definition dp_row :: "'a \<Rightarrow> 'a list \<Rightarrow> nat list \<Rightarrow> nat list" where
  "dp_row x ys prev = 0 # dp_cells x ys prev 0"

primrec dp_rows :: "nat list \<Rightarrow> 'a list \<Rightarrow> 'a list \<Rightarrow> nat list list" where
  "dp_rows prev [] ys = [prev]"
| "dp_rows prev (x # xs) ys = prev # dp_rows (dp_row x ys prev) xs ys"

definition dp_table :: "'a list \<Rightarrow> 'a list \<Rightarrow> nat list list" where
  "dp_table base modified = dp_rows (replicate (length modified + 1) 0) base modified"

text \<open>The walk back through the table; pushing and reversing is consing.\<close>

function lcs_walk ::
    "'a list \<Rightarrow> 'a list \<Rightarrow> nat list list \<Rightarrow> nat \<Rightarrow> nat \<Rightarrow> (nat \<times> nat) list \<Rightarrow> (nat \<times> nat) list" where
  "lcs_walk base modified dp i j result =
     (if i = 0 \<or> j = 0 then result
      else if base ! (i - 1) = modified ! (j - 1)
      then lcs_walk base modified dp (i - 1) (j - 1) ((i - 1, j - 1) # result)
      else if dp ! (i - 1) ! j > dp ! i ! (j - 1)
      then lcs_walk base modified dp (i - 1) j result
      else lcs_walk base modified dp i (j - 1) result)"
  by pat_completeness auto
termination
  by (relation "measure (\<lambda>(base, modified, dp, i, j, result). i + j)") auto

declare lcs_walk.simps [simp del]

definition lcs_pairs :: "'a list \<Rightarrow> 'a list \<Rightarrow> (nat \<times> nat) list" where
  "lcs_pairs base modified =
     (if base = [] \<or> modified = [] then []
      else lcs_walk base modified (dp_table base modified) (length base) (length modified) [])"

definition lcs_indices :: "'a list \<Rightarrow> 'a list \<Rightarrow> nat list" where
  "lcs_indices base modified = map fst (lcs_pairs base modified)"

section \<open>Line changes\<close>

record 'a line_change =
  lc_start :: nat
  lc_end :: nat
  lc_replacement :: "'a list"

definition slice :: "nat \<Rightarrow> nat \<Rightarrow> 'a list \<Rightarrow> 'a list" where
  "slice i j xs = take (j - i) (drop i xs)"

primrec diff_loop :: "'a list \<Rightarrow> 'a list \<Rightarrow> (nat \<times> nat) list \<Rightarrow> nat \<Rightarrow> nat \<Rightarrow> 'a line_change list" where
  "diff_loop base modified [] bc mc =
     (if bc < length base \<or> mc < length modified
      then [\<lparr>lc_start = bc, lc_end = length base, lc_replacement = drop mc modified\<rparr>] else [])"
| "diff_loop base modified (p # ps) bc mc =
     (if bc < fst p \<or> mc < snd p
      then [\<lparr>lc_start = bc, lc_end = fst p, lc_replacement = slice mc (snd p) modified\<rparr>] else [])
     @ diff_loop base modified ps (fst p + 1) (snd p + 1)"

definition diff_lines :: "'a list \<Rightarrow> 'a list \<Rightarrow> 'a line_change list" where
  "diff_lines base modified = diff_loop base modified (lcs_pairs base modified) 0 0"

section \<open>Merging\<close>

definition changes_overlap_or_same_insertion :: "'a line_change \<Rightarrow> 'a line_change \<Rightarrow> bool" where
  "changes_overlap_or_same_insertion l r \<longleftrightarrow>
     (lc_start l = lc_end l \<and> lc_start r = lc_end r \<and> lc_start l = lc_start r)
     \<or> (lc_start l < lc_end r \<and> lc_start r < lc_end l)"

definition append_base :: "'a list \<Rightarrow> 'a list \<Rightarrow> nat \<Rightarrow> nat \<Rightarrow> 'a list option" where
  "append_base out base i j =
     (if min i (length base) \<le> min j (length base)
      then Some (out @ slice (min i (length base)) (min j (length base)) base) else None)"

definition append_conflict :: "string list \<Rightarrow> string \<Rightarrow> string list \<Rightarrow> string \<Rightarrow> string list \<Rightarrow> string list" where
  "append_conflict out local_name local_lines remote_name remote_lines =
     out @ [''<<<<<<< '' @ local_name] @ local_lines @ [''=======''] @ remote_lines
       @ [''>>>>>>> '' @ remote_name]"

definition take_change ::
    "string list \<Rightarrow> string list \<Rightarrow> nat \<Rightarrow> string line_change \<Rightarrow> (string list \<times> nat) option" where
  "take_change base out cursor c =
     (case append_base out base cursor (lc_start c) of
        None \<Rightarrow> None | Some out' \<Rightarrow> Some (out' @ lc_replacement c, lc_end c))"

definition clash ::
    "string list \<Rightarrow> string \<Rightarrow> string \<Rightarrow> string list \<Rightarrow> nat \<Rightarrow> string line_change \<Rightarrow> string line_change
      \<Rightarrow> (string list \<times> nat) option" where
  "clash base local_name remote_name out cursor l r =
     (case append_base out base cursor (min (lc_start l) (lc_start r)) of
        None \<Rightarrow> None
      | Some out' \<Rightarrow>
          Some (if lc_start l = lc_start r \<and> lc_end l = lc_end r \<and> lc_replacement l = lc_replacement r
                then out' @ lc_replacement l
                else append_conflict out' local_name (lc_replacement l) remote_name (lc_replacement r),
                max (lc_end l) (lc_end r)))"

fun merge_loop ::
    "string list \<Rightarrow> string \<Rightarrow> string \<Rightarrow> string line_change list \<Rightarrow> string line_change list
      \<Rightarrow> string list \<Rightarrow> nat \<Rightarrow> (string list \<times> nat) option" where
  "merge_loop base ln rn [] [] out cursor = Some (out, cursor)"
| "merge_loop base ln rn (l # ls) [] out cursor =
     (case take_change base out cursor l of
        None \<Rightarrow> None | Some (out', cursor') \<Rightarrow> merge_loop base ln rn ls [] out' cursor')"
| "merge_loop base ln rn [] (r # rs) out cursor =
     (case take_change base out cursor r of
        None \<Rightarrow> None | Some (out', cursor') \<Rightarrow> merge_loop base ln rn [] rs out' cursor')"
| "merge_loop base ln rn (l # ls) (r # rs) out cursor =
     (if changes_overlap_or_same_insertion l r then
        (case clash base ln rn out cursor l r of
           None \<Rightarrow> None | Some (out', cursor') \<Rightarrow> merge_loop base ln rn ls rs out' cursor')
      else if lc_end l \<le> lc_start r then
        (case take_change base out cursor l of
           None \<Rightarrow> None | Some (out', cursor') \<Rightarrow> merge_loop base ln rn ls (r # rs) out' cursor')
      else
        (case take_change base out cursor r of
           None \<Rightarrow> None | Some (out', cursor') \<Rightarrow> merge_loop base ln rn (l # ls) rs out' cursor'))"

definition merge_line_changes ::
    "string list \<Rightarrow> string line_change list \<Rightarrow> string line_change list \<Rightarrow> string \<Rightarrow> string
      \<Rightarrow> string list option" where
  "merge_line_changes base ls rs local_name remote_name =
     (case merge_loop base local_name remote_name ls rs [] 0 of
        None \<Rightarrow> None
      | Some (out, cursor) \<Rightarrow> append_base out base cursor (length base))"

definition shown_name :: "string \<Rightarrow> string \<Rightarrow> string" where
  "shown_name fallback path = (case path_file_name path of None \<Rightarrow> fallback | Some n \<Rightarrow> n)"

definition text_three_way_merge :: "string \<Rightarrow> string \<Rightarrow> string \<Rightarrow> string \<Rightarrow> string \<Rightarrow> string option" where
  "text_three_way_merge base local remote local_path remote_path =
     (if local = remote then Some local
      else if local = base then Some remote
      else if remote = base then Some local
      else map_option (str_join [CHR 0x0A])
        (merge_line_changes (str_lines base) (diff_lines (str_lines base) (str_lines local))
           (diff_lines (str_lines base) (str_lines remote))
           (shown_name ''local'' local_path) (shown_name ''remote'' remote_path)))"

definition has_conflict_markers :: "string \<Rightarrow> bool" where
  "has_conflict_markers s \<longleftrightarrow>
     str_contains s ''<<<<<<< '' \<and> str_contains s ''======='' \<and> str_contains s ''>>>>>>> ''"

section \<open>The table holds the lengths of longest common subsequences\<close>

fun lcs_len :: "'a list \<Rightarrow> 'a list \<Rightarrow> nat \<Rightarrow> nat \<Rightarrow> nat" where
  "lcs_len xs ys 0 j = 0"
| "lcs_len xs ys (Suc i) 0 = 0"
| "lcs_len xs ys (Suc i) (Suc j) =
     (if xs ! i = ys ! j then lcs_len xs ys i j + 1 else max (lcs_len xs ys i (Suc j)) (lcs_len xs ys (Suc i) j))"

lemma lcs_len_0 [simp]: "lcs_len xs ys i 0 = 0"
  by (cases i) auto

lemma length_dp_cells: "length prev = Suc (length ys) \<Longrightarrow> length (dp_cells x ys prev left) = length ys"
proof (induction ys arbitrary: prev left)
  case Nil
  then show ?case by simp
next
  case (Cons y ys)
  then obtain p q ps where "prev = p # q # ps" by (cases prev; cases "tl prev") auto
  with Cons show ?case by (simp add: Let_def)
qed

lemma dp_cells_nth:
  assumes "length prev = Suc (length ys)" "j < length ys"
    and "\<And>j. j \<le> length ys \<Longrightarrow> prev ! j = f j" "left = g 0"
    and step: "\<And>j. j < length ys \<Longrightarrow> g (Suc j) = (if x = ys ! j then f j + 1 else max (f (Suc j)) (g j))"
  shows "dp_cells x ys prev left ! j = g (Suc j)"
  using assms
proof (induction ys arbitrary: prev left j f g)
  case Nil
  then show ?case by simp
next
  case (Cons y ys)
  then obtain p q ps where prev: "prev = p # q # ps" by (cases prev; cases "tl prev") auto
  have pq: "p = f 0" "q = f 1" using Cons.prems(3) [of 0] Cons.prems(3) [of 1] prev by auto
  let ?v = "if x = y then p + 1 else max q left"
  have v: "?v = g 1" using Cons.prems(5) [of 0] pq Cons.prems(4) by simp
  show ?case
  proof (cases j)
    case 0
    then show ?thesis using v prev by (simp add: Let_def)
  next
    case (Suc k)
    have "dp_cells x ys (q # ps) ?v ! k = g (Suc (Suc k))"
    proof (rule Cons.IH [where f = "\<lambda>j. f (Suc j)" and g = "\<lambda>j. g (Suc j)"])
      show "(q # ps) ! j = f (Suc j)" if "j \<le> length ys" for j
        using Cons.prems(3) [of "Suc j"] that prev by simp
      show "g (Suc (Suc j)) = (if x = ys ! j then f (Suc j) + 1 else max (f (Suc (Suc j))) (g (Suc j)))"
        if "j < length ys" for j
        using Cons.prems(5) [of "Suc j"] that by simp
    qed (use Cons.prems Suc prev v in auto)
    then show ?thesis using Suc prev by (simp add: Let_def)
  qed
qed

lemma dp_row_nth:
  assumes "length prev = Suc (length ys)" "\<And>j. j \<le> length ys \<Longrightarrow> prev ! j = lcs_len xs ys i j" "j \<le> length ys"
  shows "dp_row (xs ! i) ys prev ! j = lcs_len xs ys (Suc i) j"
proof (cases j)
  case 0
  then show ?thesis by (simp add: dp_row_def)
next
  case (Suc k)
  then show ?thesis
    using dp_cells_nth [OF assms(1), of k "lcs_len xs ys i" 0 "lcs_len xs ys (Suc i)" "xs ! i"] assms(2,3)
    by (simp add: dp_row_def)
qed

lemma dp_rows_nth:
  assumes "length prev = Suc (length ys)" "\<And>j. j \<le> length ys \<Longrightarrow> prev ! j = lcs_len xs ys k j"
    and "k + length zs = length xs" "zs = drop k xs" "i \<le> length zs" "j \<le> length ys"
  shows "dp_rows prev zs ys ! i ! j = lcs_len xs ys (k + i) j"
  using assms
proof (induction zs arbitrary: prev k i)
  case Nil
  then show ?case by simp
next
  case (Cons z zs)
  show ?case
  proof (cases i)
    case 0
    then show ?thesis using Cons.prems(2,6) by simp
  next
    case (Suc i')
    have "k < length xs" using Cons.prems(3) by simp
    then have "drop k xs = xs ! k # drop (Suc k) xs" by (rule Cons_nth_drop_Suc [symmetric])
    then have z: "z = xs ! k" "zs = drop (Suc k) xs" using Cons.prems(4) by auto
    have "dp_rows (dp_row z ys prev) zs ys ! i' ! j = lcs_len xs ys (Suc k + i') j"
    proof (rule Cons.IH)
      show "length (dp_row z ys prev) = Suc (length ys)"
        using Cons.prems(1) by (simp add: dp_row_def length_dp_cells)
      show "dp_row z ys prev ! j = lcs_len xs ys (Suc k) j" if "j \<le> length ys" for j
        using dp_row_nth [OF Cons.prems(1,2) that] z(1) by simp
      show "zs = drop (Suc k) xs" by (rule z(2))
    qed (use Cons.prems(3,5,6) Suc in simp_all)
    then show ?thesis using Suc by simp
  qed
qed

lemma dp_table_nth:
  assumes "i \<le> length xs" "j \<le> length ys"
  shows "dp_table xs ys ! i ! j = lcs_len xs ys i j"
  unfolding dp_table_def
  using dp_rows_nth [of "replicate (length ys + 1) 0" ys xs 0 xs i j] assms by (simp del: replicate.simps)

text \<open>No common subsequence of two prefixes is longer than the table's entry.\<close>

lemma subseq_snoc:
  assumes "subseq zs (xs @ [x])"
  shows "subseq (butlast zs) xs" "subseq zs xs \<or> (zs \<noteq> [] \<and> last zs = x)"
proof -
  obtain us vs where zs: "zs = us @ vs" "subseq us xs" "subseq vs [x]"
    using assms by (auto simp: subseq_append_iff)
  have "vs = [] \<or> vs = [x]" using zs(3) by (cases vs) (auto simp: subseq_Cons2_iff split: if_splits)
  moreover have "subseq (butlast us) us" by (auto simp: prefix_imp_subseq prefixeq_butlast)
  ultimately show "subseq (butlast zs) xs" "subseq zs xs \<or> (zs \<noteq> [] \<and> last zs = x)"
    using zs subseq_order.trans by (auto simp: butlast_append)
qed

lemma lcs_len_upper:
  assumes "i \<le> length xs" "j \<le> length ys"
  shows "subseq zs (take i xs) \<Longrightarrow> subseq zs (take j ys) \<Longrightarrow> length zs \<le> lcs_len xs ys i j"
  using assms
proof (induction xs ys i j arbitrary: zs rule: lcs_len.induct)
  case (1 xs ys j)
  then show ?case by simp
next
  case (2 xs ys i)
  then show ?case by simp
next
  case (3 xs ys i j)
  have ti: "take (Suc i) xs = take i xs @ [xs ! i]" and tj: "take (Suc j) ys = take j ys @ [ys ! j]"
    using 3(6,7) by (simp_all add: take_Suc_conv_app_nth)
  note sx = subseq_snoc [OF 3(4) [unfolded ti]] and sy = subseq_snoc [OF 3(5) [unfolded tj]]
  show ?case
  proof (cases "xs ! i = ys ! j")
    case True
    have "length (butlast zs) \<le> lcs_len xs ys i j"
      using 3(1) [OF True sx(1) sy(1)] 3(6,7) by simp
    then show ?thesis using True by simp
  next
    case False
    then have "subseq zs (take i xs) \<or> subseq zs (take j ys)" using sx(2) sy(2) by auto
    then show ?thesis
      using 3(2) [OF False, of zs] 3(3) [OF False, of zs] 3(4-7) False by auto
  qed
qed

section \<open>The pairs are a longest common subsequence\<close>

primrec matching :: "'a list \<Rightarrow> 'a list \<Rightarrow> nat \<Rightarrow> nat \<Rightarrow> (nat \<times> nat) list \<Rightarrow> bool" where
  "matching xs ys i j [] \<longleftrightarrow> i \<le> length xs \<and> j \<le> length ys"
| "matching xs ys i j (p # ps) \<longleftrightarrow>
     i \<le> fst p \<and> j \<le> snd p \<and> fst p < length xs \<and> snd p < length ys \<and> xs ! fst p = ys ! snd p
     \<and> matching xs ys (fst p + 1) (snd p + 1) ps"

lemma matching_mono: "matching xs ys i j ps \<Longrightarrow> i' \<le> i \<Longrightarrow> j' \<le> j \<Longrightarrow> matching xs ys i' j' ps"
  by (cases ps) auto

lemma lcs_walk_ok:
  assumes "i \<le> length xs" "j \<le> length ys" "matching xs ys i j result"
  shows "matching xs ys 0 0 (lcs_walk xs ys (dp_table xs ys) i j result)
    \<and> length (lcs_walk xs ys (dp_table xs ys) i j result) = lcs_len xs ys i j + length result"
  using assms
proof (induction "i + j" arbitrary: i j result rule: less_induct)
  case less
  show ?case
  proof (cases "i = 0 \<or> j = 0")
    case True
    then show ?thesis using less.prems by (subst (1 2) lcs_walk.simps) (auto intro: matching_mono)
  next
    case False
    then obtain k l where kl: "i = Suc k" "j = Suc l" by (metis not0_implies_Suc)
    show ?thesis
    proof (cases "xs ! k = ys ! l")
      case True
      have "matching xs ys k l ((k, l) # result)" using less.prems kl True by simp
      then show ?thesis
        using less.hyps [of k l "(k, l) # result"] kl True less.prems
        by (subst (1 2) lcs_walk.simps) simp
    next
      case neq: False
      have dp: "dp_table xs ys ! k ! j = lcs_len xs ys k j" "dp_table xs ys ! i ! l = lcs_len xs ys i l"
        using less.prems kl by (auto intro!: dp_table_nth)
      have mono: "matching xs ys k j result" "matching xs ys i l result"
        using less.prems(3) kl by (auto intro: matching_mono)
      show ?thesis
      proof (cases "lcs_len xs ys k j > lcs_len xs ys i l")
        case True
        then show ?thesis
          using less.hyps [of k j result] mono(1) kl neq less.prems dp
          by (subst (1 2) lcs_walk.simps) simp
      next
        case False
        then show ?thesis
          using less.hyps [of i l result] mono(2) kl neq less.prems dp
          by (subst (1 2) lcs_walk.simps) simp
      qed
    qed
  qed
qed

lemma lcs_pairs_ok:
  "matching xs ys 0 0 (lcs_pairs xs ys)" "length (lcs_pairs xs ys) = lcs_len xs ys (length xs) (length ys)"
proof -
  have "lcs_len xs [] i 0 = 0" "lcs_len [] ys 0 j = 0" for i j by simp_all
  then show "matching xs ys 0 0 (lcs_pairs xs ys)" "length (lcs_pairs xs ys) = lcs_len xs ys (length xs) (length ys)"
    using lcs_walk_ok [of "length xs" xs "length ys" ys "[]"]
    by (auto simp: lcs_pairs_def)
qed

lemma lcs_pairs_longest_lemma:
  assumes "subseq zs xs" "subseq zs ys"
  shows "length zs \<le> length (lcs_pairs xs ys)"
  using lcs_len_upper [of "length xs" xs "length ys" ys zs] assms by (simp add: lcs_pairs_ok)

section \<open>Applying the changes\<close>

primrec apply_changes :: "'a list \<Rightarrow> 'a line_change list \<Rightarrow> nat \<Rightarrow> 'a list" where
  "apply_changes base [] cursor = drop cursor base"
| "apply_changes base (c # cs) cursor =
     slice cursor (lc_start c) base @ lc_replacement c @ apply_changes base cs (lc_end c)"

text \<open>Changes in order, inside the base text, with an untouched line between two of them.\<close>

primrec changes_from :: "nat \<Rightarrow> nat \<Rightarrow> 'a line_change list \<Rightarrow> bool" where
  "changes_from n cursor [] \<longleftrightarrow> cursor \<le> n"
| "changes_from n cursor (c # cs) \<longleftrightarrow> cursor \<le> lc_start c \<and> lc_start c \<le> lc_end c \<and> lc_end c \<le> n
     \<and> (cs \<noteq> [] \<longrightarrow> lc_end c < lc_start (hd cs)) \<and> changes_from n (lc_end c) cs"

lemma slice_split: "i \<le> j \<Longrightarrow> slice i j xs @ drop j xs = drop i xs"
  by (metis append_take_drop_id drop_drop le_add_diff_inverse2 slice_def)

lemma slice_nth: "i \<le> j \<Longrightarrow> j < length xs \<Longrightarrow> slice i (Suc j) xs = slice i j xs @ [xs ! j]"
  by (simp add: slice_def Suc_diff_le take_Suc_conv_app_nth)

lemma slice_same [simp]: "slice i i xs = []"
  by (simp add: slice_def)

lemma slice_to_end [simp]: "slice i (length xs) xs = drop i xs"
  by (simp add: slice_def)

lemma diff_loop_start:
  assumes "matching xs ys i j ps" "diff_loop xs ys ps i j = c # cs"
  shows "i \<le> lc_start c"
  using assms
proof (induction ps arbitrary: i j)
  case Nil
  then show ?case by (auto split: if_splits)
next
  case (Cons p ps)
  then show ?case by (auto split: if_splits) fastforce
qed

lemma diff_loop_ok:
  assumes "matching xs ys i j ps" "k \<le> i"
  shows "changes_from (length xs) i (diff_loop xs ys ps i j)
    \<and> apply_changes xs (diff_loop xs ys ps i j) k = slice k i xs @ drop j ys"
  using assms
proof (induction ps arbitrary: i j k)
  case Nil
  then show ?case by (auto simp: slice_split)
next
  case (Cons p ps)
  obtain a b where p: "p = (a, b)" by (cases p)
  have m: "i \<le> a" "j \<le> b" "a < length xs" "b < length ys" "xs ! a = ys ! b" "matching xs ys (a + 1) (b + 1) ps"
    using Cons.prems(1) p by auto
  let ?rest = "diff_loop xs ys ps (a + 1) (b + 1)"
  have rest: "changes_from (length xs) (a + 1) ?rest"
    using Cons.IH [OF m(6), of "a + 1"] by simp
  have app: "k' \<le> a + 1 \<Longrightarrow> apply_changes xs ?rest k' = slice k' (a + 1) xs @ drop (b + 1) ys" for k'
    using Cons.IH [OF m(6)] by simp
  have "drop b ys = ys ! b # drop (b + 1) ys" using m(4) by (simp add: Cons_nth_drop_Suc)
  then have step: "k' \<le> a \<Longrightarrow> slice k' (a + 1) xs @ drop (b + 1) ys = slice k' a xs @ drop b ys" for k'
    using slice_nth [of k' a xs] m(3,5) by simp
  have wider: "changes_from (length xs) i' ?rest" if "i' \<le> a" for i'
    using rest that by (cases ?rest) auto
  show ?case
  proof (cases "i < a \<or> j < b")
    case True
    have "?rest \<noteq> [] \<longrightarrow> a < lc_start (hd ?rest)"
      using diff_loop_start [OF m(6)] by (cases ?rest) fastforce+
    then show ?thesis
      using True m(1-3) p wider [of a] app [of a] step [of a] Cons.prems(2) slice_split [of j b ys]
      by (simp flip: append_assoc add: slice_def)
  next
    case False
    then have "i = a" "j = b" using m(1,2) by auto
    then show ?thesis using p wider [of a] app [of k] step [of k] Cons.prems(2) by simp
  qed
qed

lemma diff_lines_changes: "changes_from (length xs) 0 (diff_lines xs ys)"
  using diff_loop_ok [OF lcs_pairs_ok(1), of 0 xs ys] by (simp add: diff_lines_def)

lemma diff_lines_apply_lemma: "apply_changes xs (diff_lines xs ys) 0 = ys"
  using diff_loop_ok [OF lcs_pairs_ok(1), of 0 xs ys] by (simp add: diff_lines_def)

section \<open>Merging without overlap\<close>

fun interleave :: "'a line_change list \<Rightarrow> 'a line_change list \<Rightarrow> 'a line_change list" where
  "interleave [] rs = rs"
| "interleave ls [] = ls"
| "interleave (l # ls) (r # rs) =
     (if lc_end l \<le> lc_start r then l # interleave ls (r # rs) else r # interleave (l # ls) rs)"

lemma interleave_Nil2 [simp]: "interleave ls [] = ls"
  by (cases ls) auto

lemma set_interleave: "set (interleave ls rs) = set ls \<union> set rs"
  by (induction ls rs rule: interleave.induct) auto

lemma no_overlap:
  "\<not> changes_overlap_or_same_insertion l r \<Longrightarrow> lc_end l \<le> lc_start r \<or> lc_end r \<le> lc_start l"
  by (auto simp: changes_overlap_or_same_insertion_def)

lemma take_change_ok:
  "cursor \<le> lc_start c \<Longrightarrow> lc_start c \<le> length base \<Longrightarrow>
     take_change base out cursor c = Some (out @ slice cursor (lc_start c) base @ lc_replacement c, lc_end c)"
  by (simp add: take_change_def append_base_def min_def)

lemma changes_from_cursor: "changes_from n i cs \<Longrightarrow> i \<le> n"
  by (induction cs arbitrary: i) auto

lemma changes_from_later: "changes_from n i (c # cs) \<Longrightarrow> j \<le> lc_start c \<Longrightarrow> changes_from n j (c # cs)"
  by simp

lemma merge_loop_clean:
  assumes "changes_from (length base) cursor ls" "changes_from (length base) cursor rs"
    and "\<forall>l \<in> set ls. \<forall>r \<in> set rs. \<not> changes_overlap_or_same_insertion l r"
  shows "\<exists>out' cursor'. merge_loop base ln rn ls rs out cursor = Some (out', cursor') \<and> cursor' \<le> length base
    \<and> out' @ drop cursor' base = out @ apply_changes base (interleave ls rs) cursor"
  using assms
proof (induction "length ls + length rs" arbitrary: ls rs out cursor rule: less_induct)
  case less
  let ?goal = "\<lambda>ls rs out cursor. \<exists>out' cursor'. merge_loop base ln rn ls rs out cursor = Some (out', cursor')
    \<and> cursor' \<le> length base \<and> out' @ drop cursor' base = out @ apply_changes base (interleave ls rs) cursor"
  consider (none) "ls = []" "rs = []" | (left) l ls' where "ls = l # ls'" "rs = []"
    | (right) r rs' where "ls = []" "rs = r # rs'" | (both) l ls' r rs' where "ls = l # ls'" "rs = r # rs'"
    by (metis neq_Nil_conv)
  then show ?case
  proof cases
    case none
    then show ?thesis using less.prems by simp
  next
    case left
    have "?goal ls' [] (out @ slice cursor (lc_start l) base @ lc_replacement l) (lc_end l)"
      using less.prems left by (intro less.hyps) (auto dest: changes_from_cursor)
    then show ?thesis using left less.prems by (simp add: take_change_ok)
  next
    case right
    have "?goal [] rs' (out @ slice cursor (lc_start r) base @ lc_replacement r) (lc_end r)"
      using less.prems right by (intro less.hyps) (auto dest: changes_from_cursor)
    then show ?thesis using right less.prems by (simp add: take_change_ok)
  next
    case both
    have no: "\<not> changes_overlap_or_same_insertion l r" using less.prems both by simp
    show ?thesis
    proof (cases "lc_end l \<le> lc_start r")
      case True
      have "?goal ls' (r # rs') (out @ slice cursor (lc_start l) base @ lc_replacement l) (lc_end l)"
        using less.prems both True by (intro less.hyps) auto
      then show ?thesis using both less.prems no True by (simp add: take_change_ok)
    next
      case False
      then have "lc_end r \<le> lc_start l" using no_overlap [OF no] by simp
      then have "?goal (l # ls') rs' (out @ slice cursor (lc_start r) base @ lc_replacement r) (lc_end r)"
        using less.prems both by (intro less.hyps) auto
      then show ?thesis using both less.prems no False by (simp add: take_change_ok)
    qed
  qed
qed

lemma merge_clean_lemma:
  assumes "changes_from (length base) 0 ls" "changes_from (length base) 0 rs"
    and "\<forall>l \<in> set ls. \<forall>r \<in> set rs. \<not> changes_overlap_or_same_insertion l r"
  shows "merge_line_changes base ls rs ln rn = Some (apply_changes base (interleave ls rs) 0)"
  using merge_loop_clean [OF assms, of ln rn "[]"]
  by (auto simp: merge_line_changes_def append_base_def min_def)

section \<open>When a merge returns at all\<close>

definition single_overlap :: "'a line_change list \<Rightarrow> 'a line_change list \<Rightarrow> bool" where
  "single_overlap ls rs \<longleftrightarrow>
     (\<forall>l \<in> set ls. \<forall>r \<in> set rs. \<forall>r' \<in> set rs. changes_overlap_or_same_insertion l r
        \<longrightarrow> changes_overlap_or_same_insertion l r' \<longrightarrow> r = r')
   \<and> (\<forall>l \<in> set ls. \<forall>l' \<in> set ls. \<forall>r \<in> set rs. changes_overlap_or_same_insertion l r
        \<longrightarrow> changes_overlap_or_same_insertion l' r \<longrightarrow> l = l')"

lemma overlap_sym: "changes_overlap_or_same_insertion l r \<longleftrightarrow> changes_overlap_or_same_insertion r l"
  by (auto simp: changes_overlap_or_same_insertion_def)

lemma single_overlap_sym: "single_overlap ls rs \<longleftrightarrow> single_overlap rs ls"
  unfolding single_overlap_def using overlap_sym by blast

lemma single_overlap_mono:
  "single_overlap ls rs \<Longrightarrow> set ls' \<subseteq> set ls \<Longrightarrow> set rs' \<subseteq> set rs \<Longrightarrow> single_overlap ls' rs'"
  unfolding single_overlap_def by blast

text \<open>After a clash the next change of either side starts beyond both clashing ones.\<close>

lemma clash_tail:
  assumes cs: "changes_from n cursor (c # cs)" and d: "lc_start d \<le> lc_end d" "lc_end d \<le> n"
    and over: "changes_overlap_or_same_insertion c d"
    and single: "single_overlap (c # cs) ds" "d \<in> set ds"
  shows "changes_from n (max (lc_end c) (lc_end d)) cs"
proof (cases cs)
  case Nil
  then show ?thesis using cs d by simp
next
  case (Cons c' cs')
  have c': "lc_end c < lc_start c'" "lc_start c' \<le> lc_end c'" using cs Cons by auto
  have "lc_end d \<le> lc_start c'"
  proof (rule ccontr)
    assume late: "\<not> lc_end d \<le> lc_start c'"
    then have "changes_overlap_or_same_insertion c' d"
      using over c' by (auto simp: changes_overlap_or_same_insertion_def)
    then have "c' = c" using over single Cons unfolding single_overlap_def by auto
    with c' cs show False by simp
  qed
  then show ?thesis using cs Cons c' by auto
qed

lemma clash_ok:
  assumes "cursor \<le> lc_start l" "cursor \<le> lc_start r" "lc_start l \<le> length base"
  shows "\<exists>out'. clash base ln rn out cursor l r = Some (out', max (lc_end l) (lc_end r))"
  using assms by (auto simp: clash_def append_base_def min_def)

lemma merge_loop_total:
  assumes "changes_from (length base) cursor ls" "changes_from (length base) cursor rs" "single_overlap ls rs"
  shows "\<exists>out' cursor'. merge_loop base ln rn ls rs out cursor = Some (out', cursor') \<and> cursor' \<le> length base"
  using assms
proof (induction "length ls + length rs" arbitrary: ls rs out cursor rule: less_induct)
  case less
  let ?goal = "\<lambda>ls rs out cursor.
    \<exists>out' cursor'. merge_loop base ln rn ls rs out cursor = Some (out', cursor') \<and> cursor' \<le> length base"
  note single = single_overlap_mono [OF less.prems(3)]
  consider (none) "ls = []" "rs = []" | (left) l ls' where "ls = l # ls'" "rs = []"
    | (right) r rs' where "ls = []" "rs = r # rs'" | (both) l ls' r rs' where "ls = l # ls'" "rs = r # rs'"
    by (metis neq_Nil_conv)
  then show ?case
  proof cases
    case none
    then show ?thesis using less.prems by simp
  next
    case left
    have "?goal ls' [] (out @ slice cursor (lc_start l) base @ lc_replacement l) (lc_end l)"
      using less.prems left single [of ls' "[]"] by (intro less.hyps) (auto dest: changes_from_cursor)
    then show ?thesis using left less.prems by (simp add: take_change_ok)
  next
    case right
    have "?goal [] rs' (out @ slice cursor (lc_start r) base @ lc_replacement r) (lc_end r)"
      using less.prems right single [of "[]" rs'] by (intro less.hyps) (auto dest: changes_from_cursor)
    then show ?thesis using right less.prems by (simp add: take_change_ok)
  next
    case both
    show ?thesis
    proof (cases "changes_overlap_or_same_insertion l r")
      case True
      have "changes_from (length base) (max (lc_end l) (lc_end r)) ls'"
        using less.prems both True by (intro clash_tail [where ds = rs]) auto
      moreover have "changes_from (length base) (max (lc_end r) (lc_end l)) rs'"
        using less.prems both True overlap_sym single_overlap_sym by (intro clash_tail [where ds = ls]) auto
      ultimately have "?goal ls' rs' out' (max (lc_end l) (lc_end r))" for out'
        using both single [of ls' rs'] by (intro less.hyps) (auto simp: max.commute)
      moreover obtain out' where "clash base ln rn out cursor l r = Some (out', max (lc_end l) (lc_end r))"
        using clash_ok [of cursor l r base ln rn out] less.prems both by auto
      ultimately show ?thesis using both True by simp
    next
      case no: False
      show ?thesis
      proof (cases "lc_end l \<le> lc_start r")
        case True
        have "?goal ls' (r # rs') (out @ slice cursor (lc_start l) base @ lc_replacement l) (lc_end l)"
          using less.prems both True single [of ls' rs] by (intro less.hyps) auto
        then show ?thesis using both less.prems no True by (simp add: take_change_ok)
      next
        case False
        then have "lc_end r \<le> lc_start l" using no_overlap [OF no] by simp
        then have "?goal (l # ls') rs' (out @ slice cursor (lc_start r) base @ lc_replacement r) (lc_end r)"
          using less.prems both single [of ls rs'] by (intro less.hyps) auto
        then show ?thesis using both less.prems no False by (simp add: take_change_ok)
      qed
    qed
  qed
qed

lemma merge_total_lemma:
  assumes "changes_from (length base) 0 ls" "changes_from (length base) 0 rs" "single_overlap ls rs"
  shows "merge_line_changes base ls rs ln rn \<noteq> None"
  using merge_loop_total [OF assms, of ln rn "[]"]
  by (auto simp: merge_line_changes_def append_base_def min_def)

section \<open>When a merge panics\<close>

text \<open>
  The clash of two changes moves the cursor past both. A change of either side that starts
  before the cursor then makes the loop slice the base out of order.
\<close>

lemma take_change_late: "lc_start c < cursor \<Longrightarrow> cursor \<le> length base \<Longrightarrow> take_change base out cursor c = None"
  by (simp add: take_change_def append_base_def)

lemma clash_late:
  "min (lc_start l) (lc_start r) < cursor \<Longrightarrow> cursor \<le> length base \<Longrightarrow> clash base ln rn out cursor l r = None"
  by (auto simp: clash_def append_base_def)

lemma merge_loop_late_local:
  assumes "lc_start l < cursor" "cursor \<le> length base" "\<And>r. r \<in> set rs \<Longrightarrow> lc_start l < lc_start r \<and> lc_start r \<le> lc_end r"
  shows "merge_loop base ln rn (l # ls) rs out cursor = None"
proof (cases rs)
  case (Cons r rs')
  then have r: "lc_start l < lc_start r" "lc_start r \<le> lc_end r" using assms(3) by auto
  have "lc_end l \<le> lc_start r" if "\<not> changes_overlap_or_same_insertion l r"
    using no_overlap [OF that] r by linarith
  moreover have "min (lc_start l) (lc_start r) < cursor" using assms(1) by simp
  ultimately show ?thesis using Cons clash_late take_change_late assms(1,2) by simp
qed (use assms take_change_late in simp)

lemma merge_loop_late_remote:
  assumes "lc_start r < cursor" "cursor \<le> length base" "\<And>l. l \<in> set ls \<Longrightarrow> lc_start r < lc_start l \<and> lc_start l \<le> lc_end l"
  shows "merge_loop base ln rn ls (r # rs) out cursor = None"
proof (cases ls)
  case (Cons l ls')
  then have l: "lc_start r < lc_start l" "lc_start l \<le> lc_end l" using assms(3) by auto
  then have "\<not> lc_end l \<le> lc_start r" by simp
  moreover have "min (lc_start l) (lc_start r) < cursor" using assms(1) by simp
  ultimately show ?thesis using Cons clash_late take_change_late assms(1,2) by simp
qed (use assms take_change_late in simp)

text \<open>The changes of one side come one after the other.\<close>

lemma changes_after:
  assumes "changes_from n i (c # cs)" "d \<in> set cs"
  shows "lc_end c < lc_start d \<and> lc_start d \<le> lc_end d"
  using assms
proof (induction cs arbitrary: c i)
  case (Cons e es)
  then show ?case by (cases "d = e") force+
qed simp

text \<open>A second change that meets \<open>c\<close> starts before its end.\<close>

lemma second_overlap:
  assumes "changes_overlap_or_same_insertion c d" "changes_overlap_or_same_insertion c e"
    and "lc_end d < lc_start e" "lc_start e \<le> lc_end e" "lc_start d \<le> lc_end d"
  shows "lc_start e < lc_end c"
  using assms by (auto simp: changes_overlap_or_same_insertion_def)

lemma changes_past:
  assumes "changes_from n i (c # cs)" "\<And>c'. c' \<in> set cs \<Longrightarrow> \<not> changes_overlap_or_same_insertion c' d"
    and "changes_overlap_or_same_insertion c d" "lc_start d \<le> lc_end d" "lc_end d \<le> n"
  shows "changes_from n (max (lc_end c) (lc_end d)) cs"
proof (cases cs)
  case (Cons c' cs')
  have c': "lc_end c < lc_start c'" "lc_start c' \<le> lc_end c'" using changes_after [OF assms(1), of c'] Cons by auto
  have "lc_end d \<le> lc_start c' \<or> lc_end c' \<le> lc_start d"
    using no_overlap [OF assms(2) [of c']] Cons by auto
  moreover have "\<not> lc_end c' \<le> lc_start d"
    using assms(3) c' by (auto simp: changes_overlap_or_same_insertion_def)
  ultimately show ?thesis using assms(1) c' Cons by auto
qed (use assms in simp)

lemma single_overlap_Cons:
  assumes "changes_overlap_or_same_insertion l r"
    and "changes_from n i (l # ls)" "changes_from n i (r # rs)"
  shows "single_overlap (l # ls) (r # rs) \<longleftrightarrow> single_overlap ls rs
    \<and> (\<forall>r' \<in> set rs. \<not> changes_overlap_or_same_insertion l r')
    \<and> (\<forall>l' \<in> set ls. \<not> changes_overlap_or_same_insertion l' r)"
proof -
  have "r \<notin> set rs" "l \<notin> set ls"
    using changes_after [OF assms(3), of r] changes_after [OF assms(2), of l] assms(2,3) by auto
  then show ?thesis using assms(1) unfolding single_overlap_def by (simp (no_asm_simp)) blast
qed

lemma single_overlap_skip:
  assumes "\<And>r. r \<in> set rs \<Longrightarrow> \<not> changes_overlap_or_same_insertion l r"
  shows "single_overlap (l # ls) rs \<longleftrightarrow> single_overlap ls rs"
  using assms unfolding single_overlap_def by simp

lemma clash_panics:
  assumes l: "changes_from (length base) cursor (l # ls)" and r: "changes_from (length base) cursor (r # rs)"
    and meet: "changes_overlap_or_same_insertion l r"
    and twice: "(\<exists>r' \<in> set rs. changes_overlap_or_same_insertion l r')
      \<or> (\<exists>l' \<in> set ls. changes_overlap_or_same_insertion l' r)"
  shows "merge_loop base ln rn ls rs out (max (lc_end l) (lc_end r)) = None"
  using twice
proof
  have bound: "max (lc_end l) (lc_end r) \<le> length base" using l r by simp
  assume "\<exists>r' \<in> set rs. changes_overlap_or_same_insertion l r'"
  then obtain r' where r': "r' \<in> set rs" "changes_overlap_or_same_insertion l r'" by blast
  then obtain q qs where rs: "rs = q # qs" by (cases rs) auto
  have "lc_start r' < lc_end l"
    using second_overlap [OF meet r'(2)] changes_after [OF r r'(1)] r by simp
  moreover have "lc_start q \<le> lc_start r'"
  proof (cases "r' = q")
    case False
    then have "r' \<in> set qs" using r'(1) rs by simp
    moreover have "changes_from (length base) (lc_end r) (q # qs)" using r rs by simp
    ultimately show ?thesis using changes_after [of _ _ q qs r'] by force
  qed simp
  ultimately have q: "lc_start q < lc_end l" by simp
  have "lc_start q < lc_start l' \<and> lc_start l' \<le> lc_end l'" if "l' \<in> set ls" for l'
    using changes_after [OF l that] q by simp
  then show ?thesis unfolding rs using q bound by (intro merge_loop_late_remote) auto
next
  have bound: "max (lc_end l) (lc_end r) \<le> length base" using l r by simp
  assume "\<exists>l' \<in> set ls. changes_overlap_or_same_insertion l' r"
  then obtain l' where l': "l' \<in> set ls" "changes_overlap_or_same_insertion r l'" using overlap_sym by blast
  then obtain q qs where ls: "ls = q # qs" by (cases ls) auto
  have "lc_start l' < lc_end r"
    using second_overlap [OF iffD1 [OF overlap_sym meet] l'(2)] changes_after [OF l l'(1)] l by simp
  moreover have "lc_start q \<le> lc_start l'"
  proof (cases "l' = q")
    case False
    then have "l' \<in> set qs" using l'(1) ls by simp
    moreover have "changes_from (length base) (lc_end l) (q # qs)" using l ls by simp
    ultimately show ?thesis using changes_after [of _ _ q qs l'] by force
  qed simp
  ultimately have q: "lc_start q < lc_end r" by simp
  have "lc_start q < lc_start r' \<and> lc_start r' \<le> lc_end r'" if "r' \<in> set rs" for r'
    using changes_after [OF r that] q by simp
  then show ?thesis unfolding ls using q bound by (intro merge_loop_late_local) auto
qed

lemma skipped_first:
  assumes "changes_from n i (r # rs)" "\<not> changes_overlap_or_same_insertion l r" "lc_end l \<le> lc_start r"
    and "lc_start l \<le> lc_end l" "d \<in> set (r # rs)"
  shows "\<not> changes_overlap_or_same_insertion l d"
  using assms changes_after [OF assms(1), of d] by (auto simp: changes_overlap_or_same_insertion_def)

lemma merge_loop_returns_iff:
  assumes "changes_from (length base) cursor ls" "changes_from (length base) cursor rs"
  shows "merge_loop base ln rn ls rs out cursor \<noteq> None \<longleftrightarrow> single_overlap ls rs"
  using assms
proof (induction "length ls + length rs" arbitrary: ls rs out cursor rule: less_induct)
  case less
  show ?case
  proof (cases "ls = [] \<or> rs = []")
    case True
    then have "single_overlap ls rs" by (auto simp: single_overlap_def)
    then show ?thesis using merge_loop_total [OF less.prems] by fastforce
  next
    case False
    then obtain l ls' r rs' where both: "ls = l # ls'" "rs = r # rs'" by (meson neq_Nil_conv)
    note l = less.prems(1) [unfolded both(1)] and r = less.prems(2) [unfolded both(2)]
    show ?thesis
    proof (cases "changes_overlap_or_same_insertion l r")
      case True
      obtain out' where clash: "clash base ln rn out cursor l r = Some (out', max (lc_end l) (lc_end r))"
        using clash_ok [of cursor l r base ln rn out] l r by auto
      note split = single_overlap_Cons [OF True l r]
      show ?thesis
      proof (cases "(\<exists>r' \<in> set rs'. changes_overlap_or_same_insertion l r')
          \<or> (\<exists>l' \<in> set ls'. changes_overlap_or_same_insertion l' r)")
        case twice: True
        then show ?thesis using clash_panics [OF l r True twice] split True clash both by auto
      next
        case False
        have "changes_from (length base) (max (lc_end l) (lc_end r)) ls'"
          using False True l r by (intro changes_past) auto
        moreover have "changes_from (length base) (max (lc_end r) (lc_end l)) rs'"
          using False True l r overlap_sym by (intro changes_past) auto
        ultimately have "merge_loop base ln rn ls' rs' out' (max (lc_end l) (lc_end r)) \<noteq> None \<longleftrightarrow> single_overlap ls' rs'"
          using both by (intro less.hyps) (auto simp: max.commute)
        then show ?thesis using False split True clash both by auto
      qed
    next
      case no: False
      show ?thesis
      proof (cases "lc_end l \<le> lc_start r")
        case True
        have "\<not> changes_overlap_or_same_insertion l d" if "d \<in> set rs" for d
          using skipped_first [OF r no True] l that both by auto
        then have "single_overlap ls rs \<longleftrightarrow> single_overlap ls' rs" unfolding both(1) by (rule single_overlap_skip)
        moreover have "merge_loop base ln rn ls' (r # rs') (out @ slice cursor (lc_start l) base @ lc_replacement l) (lc_end l) \<noteq> None
            \<longleftrightarrow> single_overlap ls' rs"
          unfolding both(2) using l r True both by (intro less.hyps) auto
        ultimately show ?thesis using l no True both by (simp add: take_change_ok)
      next
        case False
        then have early: "lc_end r \<le> lc_start l" using no_overlap [OF no] by simp
        have "\<not> changes_overlap_or_same_insertion r d" if "d \<in> set ls" for d
          using skipped_first [OF l _ early] no r that both overlap_sym by auto
        then have "single_overlap ls rs \<longleftrightarrow> single_overlap ls rs'"
          unfolding both(2) single_overlap_sym [of ls] by (rule single_overlap_skip)
        moreover have "merge_loop base ln rn (l # ls') rs' (out @ slice cursor (lc_start r) base @ lc_replacement r) (lc_end r) \<noteq> None
            \<longleftrightarrow> single_overlap ls rs'"
          unfolding both(1) using l r early both by (intro less.hyps) auto
        ultimately show ?thesis using r no False both by (simp add: take_change_ok)
      qed
    qed
  qed
qed

lemma merge_returns_iff:
  assumes "changes_from (length base) 0 ls" "changes_from (length base) 0 rs"
  shows "merge_line_changes base ls rs ln rn = None \<longleftrightarrow> \<not> single_overlap ls rs"
proof (cases "single_overlap ls rs")
  case False
  then have "merge_loop base ln rn ls rs [] 0 = None" using merge_loop_returns_iff [OF assms] by blast
  then show ?thesis using False by (simp add: merge_line_changes_def)
qed (use merge_total_lemma [OF assms] in simp)

end
