(* ===== verification/Rev_Graph.thy ===== *)
theory Rev_Graph
  imports Core_Types
begin

text \<open>
  The revision graph (\<open>metadata/graph.rs\<close>): a list of revisions with their parents,
  walked from a revision towards its ancestors. The loops follow parent links with no
  bound, so a cyclic list makes them run forever: they are \<open>partial_function\<close>s whose
  value \<open>None\<close> is a run that does not return.
\<close>

type_synonym parents = "(revision_id \<times> revision_id option) list"

definition are_siblings :: "revision_id \<Rightarrow> revision_id \<Rightarrow> revision_id \<Rightarrow> bool" where
  "are_siblings parent a b \<longleftrightarrow> a \<noteq> b"

definition parent_of :: "parents \<Rightarrow> revision_id \<Rightarrow> revision_id option" where
  "parent_of ps r = (case find (\<lambda>(i, _). i = r) ps of None \<Rightarrow> None | Some (_, p) \<Rightarrow> p)"

partial_function (option) ancestor_walk :: "parents \<Rightarrow> revision_id \<Rightarrow> revision_id option \<Rightarrow> bool option" where
  "ancestor_walk ps a current =
     (case current of
        None \<Rightarrow> Some False
      | Some r \<Rightarrow> if r = a then Some True else ancestor_walk ps a (parent_of ps r))"

definition is_ancestor_of :: "revision_id \<Rightarrow> revision_id \<Rightarrow> parents \<Rightarrow> bool option" where
  "is_ancestor_of a b ps = ancestor_walk ps a (Some b)"

partial_function (option) collect_walk ::
    "parents \<Rightarrow> revision_id option \<Rightarrow> revision_id list \<Rightarrow> revision_id list option" where
  "collect_walk ps current acc =
     (case current of
        None \<Rightarrow> Some acc
      | Some r \<Rightarrow> collect_walk ps (parent_of ps r) (acc @ [r]))"

partial_function (option) common_walk ::
    "parents \<Rightarrow> revision_id list \<Rightarrow> revision_id option \<Rightarrow> revision_id option option" where
  "common_walk ps ancestors current =
     (case current of
        None \<Rightarrow> Some None
      | Some r \<Rightarrow> if r \<in> set ancestors then Some (Some r) else common_walk ps ancestors (parent_of ps r))"

definition lowest_common_ancestor :: "revision_id \<Rightarrow> revision_id \<Rightarrow> parents \<Rightarrow> revision_id option option" where
  "lowest_common_ancestor a b ps =
     (case collect_walk ps (Some a) [] of
        None \<Rightarrow> None
      | Some ancestors \<Rightarrow> common_walk ps ancestors (Some b))"

section \<open>Lines of descent\<close>

text \<open>\<open>descends ps b as\<close>: \<open>as\<close> are \<open>b\<close> and its ancestors, up to a revision without a known parent.\<close>

inductive descends :: "parents \<Rightarrow> revision_id \<Rightarrow> revision_id list \<Rightarrow> bool" for ps where
  descends_root: "parent_of ps b = None \<Longrightarrow> descends ps b [b]"
| descends_step: "parent_of ps b = Some p \<Longrightarrow> descends ps p line \<Longrightarrow> descends ps b (b # line)"

inductive_cases descendsE: "descends ps b line"

lemma descends_det: "descends ps b xs \<Longrightarrow> descends ps b ys \<Longrightarrow> xs = ys"
proof (induction arbitrary: ys rule: descends.induct)
  case (descends_root b)
  from descends_root(2) show ?case by (rule descendsE) (use descends_root in auto)
next
  case (descends_step b p line)
  from descends_step.prems obtain zs where "ys = b # zs" "descends ps p zs"
    by (rule descendsE) (use descends_step.hyps in auto)
  with descends_step.IH show ?case by simp
qed

lemma ancestor_walk_descends: "descends ps b line \<Longrightarrow> ancestor_walk ps a (Some b) = Some (a \<in> set line)"
proof (induction rule: descends.induct)
  case (descends_root b)
  then show ?case by (simp add: ancestor_walk.simps)
next
  case (descends_step b p line)
  then show ?case by (subst ancestor_walk.simps) auto
qed

lemma collect_walk_descends: "descends ps b line \<Longrightarrow> collect_walk ps (Some b) acc = Some (acc @ line)"
proof (induction arbitrary: acc rule: descends.induct)
  case (descends_root b)
  then show ?case by (simp add: collect_walk.simps)
next
  case (descends_step b p line)
  then show ?case by (subst collect_walk.simps) simp
qed

lemma common_walk_descends:
  "descends ps b line \<Longrightarrow> common_walk ps as (Some b) = Some (find (\<lambda>r. r \<in> set as) line)"
proof (induction rule: descends.induct)
  case (descends_root b)
  then show ?case by (simp add: common_walk.simps)
next
  case (descends_step b p line)
  then show ?case by (subst common_walk.simps) auto
qed

lemma lca_descends_lemma:
  assumes "descends ps a as" "descends ps b bs"
  shows "lowest_common_ancestor a b ps = Some (find (\<lambda>r. r \<in> set as) bs)"
  using collect_walk_descends [OF assms(1), of "[]"] common_walk_descends [OF assms(2)]
  by (simp add: lowest_common_ancestor_def)

text \<open>The line of descent is finite exactly when the walk returns: each parent link
  decreases some rank, or the walk meets a revision twice.\<close>

lemma descends_ranked:
  assumes "\<And>r p. parent_of ps r = Some p \<Longrightarrow> rank p < (rank r :: nat)"
  shows "\<exists>line. descends ps b line"
proof (induction "rank b" arbitrary: b rule: less_induct)
  case less
  show ?case
  proof (cases "parent_of ps b")
    case None
    then show ?thesis by (blast intro: descends_root)
  next
    case (Some p)
    then obtain line where "descends ps p line" using less assms by blast
    with Some show ?thesis by (blast intro: descends_step)
  qed
qed

lemma collect_walk_returns: "collect_walk ps c acc = Some ys \<Longrightarrow> c = Some b \<Longrightarrow> \<exists>line. descends ps b line"
proof (induction arbitrary: b rule: collect_walk.raw_induct [rotated 1, consumes 1])
  case (1 walk ps c acc ys)
  show ?case
  proof (cases "parent_of ps b")
    case None
    then show ?thesis by (blast intro: descends_root)
  next
    case (Some p)
    then have "walk ps (Some p) (acc @ [b]) = Some ys" using 1(2,3) by simp
    from 1(1) [OF this refl] obtain line where "descends ps p line" ..
    with Some show ?thesis by (blast intro: descends_step)
  qed
qed

end
