(* ===== verification/Conflicts.thy ===== *)
theory Conflicts
  imports Rust_Paths Runtime
begin

text \<open>
  Conflicts between local and remote changes: their detection, the name and place of
  a conflict copy and the status of a resolution (\<open>sync/conflict_engine.rs\<close>), and the
  in-memory list of conflicts (\<open>sync/conflict.rs\<close>). The text merge is \<open>Line_Merge\<close>.
\<close>

datatype conflict_type = Edit_Edit | Delete_Edit | Rename_Rename | Create_Create | External_Change

fun conflict_type_as_str :: "conflict_type \<Rightarrow> string" where
  "conflict_type_as_str Edit_Edit = ''edit_edit''"
| "conflict_type_as_str Delete_Edit = ''delete_edit''"
| "conflict_type_as_str Rename_Rename = ''rename_rename''"
| "conflict_type_as_str Create_Create = ''create_create''"
| "conflict_type_as_str External_Change = ''external_change''"

definition conflict_type_from_str :: "string \<Rightarrow> conflict_type option" where
  "conflict_type_from_str s =
     (if s = ''edit_edit'' then Some Edit_Edit
      else if s = ''delete_edit'' then Some Delete_Edit
      else if s = ''rename_rename'' then Some Rename_Rename
      else if s = ''create_create'' then Some Create_Create
      else if s = ''external_change'' then Some External_Change
      else None)"

datatype conflict_resolution = Keep_Local | Keep_Remote | Keep_Both | Merged_Text string | Merge_Failed

text \<open>The status \<open>resolve\<close> stores; \<open>None\<close> leaves the conflict open.\<close>

fun resolution_status :: "conflict_resolution \<Rightarrow> string option" where
  "resolution_status Keep_Local = Some ''resolved_keep_local''"
| "resolution_status Keep_Remote = Some ''resolved_keep_remote''"
| "resolution_status Keep_Both = Some ''resolved_keep_both''"
| "resolution_status (Merged_Text _) = Some ''resolved_merged''"
| "resolution_status Merge_Failed = None"

definition detect ::
    "bool \<Rightarrow> bool \<Rightarrow> bool \<Rightarrow> bool \<Rightarrow> string option \<Rightarrow> string option \<Rightarrow> string option \<Rightarrow> string option
      \<Rightarrow> conflict_type option" where
  "detect local_exists remote_exists local_is_deleted remote_is_deleted
     local_parent remote_parent local_revision remote_revision =
     (if local_is_deleted \<and> \<not> remote_is_deleted then Some Delete_Edit
      else if \<not> local_is_deleted \<and> remote_is_deleted then Some Delete_Edit
      else if local_exists \<and> remote_exists then
        (case (local_parent, remote_parent) of
           (Some lp, Some rp) \<Rightarrow> if lp = rp \<and> local_revision \<noteq> remote_revision then Some Edit_Edit else None
         | _ \<Rightarrow> None)
      else None)"

section \<open>Names of conflict copies\<close>

definition is_control :: "string \<Rightarrow> bool" where
  "is_control c =
     (case map byte c of
        [b] \<Rightarrow> b < 32 \<or> b = 127
      | [b, d] \<Rightarrow> b = 0xC2 \<and> 0x80 \<le> d \<and> d \<le> 0x9F
      | _ \<Rightarrow> False)"

definition forbidden_in_names :: "char list" where
  "forbidden_in_names = [CHR ''<'', CHR ''>'', CHR '':'', CHR 0x22, CHR ''/'', CHR 0x5C, CHR ''|'', CHR ''?'', CHR ''*'']"

definition short_date :: "string \<Rightarrow> string" where
  "short_date d = concat (take 16 (chars d))"

definition sanitize_char :: "string \<Rightarrow> string" where
  "sanitize_char c = (if is_control c \<or> (\<exists>x \<in> set forbidden_in_names. c = [x]) then ''-'' else c)"

definition sanitize_filename_part :: "string \<Rightarrow> string" where
  "sanitize_filename_part s =
     (let t = trim_char (CHR ''.'') (trim (concat (map sanitize_char (chars s))))
      in if t = [] then ''unknown'' else t)"

definition option_default :: "'a \<Rightarrow> 'a option \<Rightarrow> 'a" where
  "option_default d x = (case x of None \<Rightarrow> d | Some y \<Rightarrow> y)"

definition conflict_filename :: "string \<Rightarrow> string \<Rightarrow> string \<Rightarrow> string" where
  "conflict_filename name device_name date =
     (let path = option_default name (path_file_name name);
          stem = option_default name (path_file_stem path);
          ext = option_default ''conflict'' (path_extension path)
      in sanitize_filename_part stem @ '' (conflict from '' @ sanitize_filename_part device_name @ '' ''
           @ sanitize_filename_part (short_date date) @ '').'' @ ext)"

definition conflict_escapes :: "string \<Rightarrow> core_error" where
  "conflict_escapes name = Protocol (''conflict path escapes sync folder: '' @ name)"

primrec push_components :: "string \<Rightarrow> string \<Rightarrow> path_component list \<Rightarrow> string core_result" where
  "push_components name dir [] = Inr dir"
| "push_components name dir (c # cs) =
     (case c of
        Normal w \<Rightarrow> push_components name (path_push dir w) cs
      | Cur_Dir \<Rightarrow> push_components name dir cs
      | _ \<Rightarrow> Inl (conflict_escapes name))"

definition conflict_parent_dir :: "string \<Rightarrow> string \<Rightarrow> string core_result" where
  "conflict_parent_dir sync_folder name =
     (case path_parent name of
        None \<Rightarrow> Inr sync_folder
      | Some cs \<Rightarrow> push_components name sync_folder cs)"

text \<open>\<open>unique_conflict_path\<close>: \<open>there\<close> is \<open>Path::exists\<close>, \<open>dir\<close> and \<open>name\<close> the path's parent
  and file name, \<open>fresh\<close> the uuid text of the last resort.\<close>

definition numbered_name :: "string \<Rightarrow> string option \<Rightarrow> nat \<Rightarrow> string" where
  "numbered_name stem ext n =
     (case ext of
        Some e \<Rightarrow> if e = [] then stem @ '' '' @ nat_str n else stem @ '' '' @ nat_str n @ ''.'' @ e
      | None \<Rightarrow> stem @ '' '' @ nat_str n)"

definition conflict_numbers :: "nat list" where
  "conflict_numbers = [2..<10000]"

definition unique_conflict_path :: "(string \<Rightarrow> bool) \<Rightarrow> string \<Rightarrow> string \<Rightarrow> string \<Rightarrow> string" where
  "unique_conflict_path there fresh dir name =
     (if \<not> there (path_push dir name) then path_push dir name
      else
        (let (stem, ext) = name_split name in
         case find (\<lambda>n. \<not> there (path_push dir (numbered_name stem ext n))) conflict_numbers of
           Some n \<Rightarrow> path_push dir (numbered_name stem ext n)
         | None \<Rightarrow> path_push dir (stem @ '' '' @ fresh)))"

text \<open>The path \<open>create_conflict_copy\<close> writes, or its error.\<close>

definition conflict_copy_path ::
    "(string \<Rightarrow> bool) \<Rightarrow> string \<Rightarrow> string \<Rightarrow> string \<Rightarrow> string \<Rightarrow> string \<Rightarrow> string core_result" where
  "conflict_copy_path there fresh sync_folder original_name device_name date =
     (let file_name = option_default original_name (path_file_name original_name);
          conflict_name = conflict_filename file_name device_name date
      in case conflict_parent_dir sync_folder original_name of
           Inl e \<Rightarrow> Inl e
         | Inr dir \<Rightarrow> Inr (unique_conflict_path there fresh dir conflict_name))"

section \<open>Text files\<close>

definition text_names :: "string list" where
  "text_names = [''dockerfile'', ''makefile'', ''.gitignore'']"

definition text_extensions :: "string list" where
  "text_extensions =
     [''txt'', ''md'', ''json'', ''yaml'', ''yml'', ''toml'', ''xml'', ''html'', ''htm'', ''css'', ''js'', ''ts'',
      ''jsx'', ''tsx'', ''rs'', ''py'', ''rb'', ''go'', ''java'', ''kt'', ''swift'', ''c'', ''h'', ''cpp'', ''hpp'',
      ''sh'', ''bash'', ''zsh'', ''fish'', ''env'', ''ini'', ''cfg'', ''conf'', ''log'', ''csv'', ''tsv'', ''sql'',
      ''r'', ''scala'', ''clj'', ''lua'', ''pl'', ''pm'', ''php'', ''dart'', ''gradle'', ''lock'', ''gitignore'',
      ''dockerfile'']"

definition is_text_file :: "libs \<Rightarrow> string \<Rightarrow> bool" where
  "is_text_file L p \<longleftrightarrow>
     unicode_lowercase L (option_default [] (path_file_name p)) \<in> set text_names
     \<or> unicode_lowercase L (option_default [] (path_extension p)) \<in> set text_extensions"

section \<open>The conflict list\<close>

record conflict_record =
  cf_file_id :: string
  cf_local_path :: string
  cf_reason :: string
  cf_detected_at :: string

definition register :: "libs \<Rightarrow> int \<Rightarrow> string \<Rightarrow> string \<Rightarrow> string \<Rightarrow> conflict_record list \<Rightarrow> conflict_record list" where
  "register L at file_id local_path reason records =
     records @ [\<lparr>cf_file_id = file_id, cf_local_path = local_path, cf_reason = reason,
       cf_detected_at = rfc3339_text L at\<rparr>]"

definition get_all :: "conflict_record list \<Rightarrow> conflict_record list" where
  "get_all records = records"

definition clear_records :: "conflict_record list \<Rightarrow> conflict_record list" where
  "clear_records records = []"

definition count_records :: "conflict_record list \<Rightarrow> nat" where
  "count_records records = length records"

section \<open>Detection\<close>

lemma conflict_type_roundtrip_lemma: "conflict_type_from_str (conflict_type_as_str t) = Some t"
  by (cases t) (simp_all add: conflict_type_from_str_def)

lemma detect_cases:
  "detect le re ld rd lp rp lr rr =
     (if ld \<noteq> rd then Some Delete_Edit
      else if le \<and> re \<and> lp \<noteq> None \<and> lp = rp \<and> lr \<noteq> rr then Some Edit_Edit else None)"
  by (auto simp: detect_def split: option.splits)

section \<open>Conflict copies stay inside the sync folder\<close>

lemma utf8_head_two:
  assumes "2 \<le> utf8_head_len bs"
  shows "\<exists>a b r. bs = a # b # r \<and> 0xC2 \<le> a"
  using assms by (cases bs; cases "tl bs") (auto simp: utf8_head_len_def split: if_splits)

lemma utf8_head_conts:
  assumes "0xC2 \<le> a" "2 \<le> utf8_head_len (a # r)"
  shows "\<forall>c \<in> set (take (utf8_head_len (a # r) - 1) r). utf8_cont c"
proof -
  consider "a \<le> 0xDF" | "0xE0 \<le> a" "a \<le> 0xEF" | "0xF0 \<le> a" "a \<le> 0xF4" | "0xF4 < a"
    by linarith
  then show ?thesis
    using assms by cases (simp_all add: utf8_head_len_def split: list.splits if_splits)
qed

lemma utf8_head_high:
  assumes "2 \<le> utf8_head_len bs" "b \<in> set (take (utf8_head_len bs) bs)"
  shows "0x80 \<le> b"
proof -
  obtain a r where bs: "bs = a # r" "0xC2 \<le> a" using utf8_head_two [OF assms(1)] by auto
  then have "b = a \<or> b \<in> set (take (utf8_head_len bs - 1) r)"
    using assms by (cases "utf8_head_len bs") auto
  then show ?thesis using utf8_head_conts [OF bs(2)] assms(1) bs by (auto simp: utf8_cont_def)
qed

lemma utf8_head_bytes:
  assumes "2 \<le> utf8_head_len (map byte s)" "c \<in> set (take (utf8_head_len (map byte s)) s)"
  shows "0x80 \<le> byte c"
  using utf8_head_high [OF assms(1), of "byte c"] assms(2) by (simp add: take_map)

lemma chars_bytes:
  assumes "w \<in> set (chars s)" "c \<in> set w"
  shows "w = [c] \<or> 0x80 \<le> byte c"
proof (cases "utf8_chars s")
  case None
  then show ?thesis using assms by (auto simp: chars_def)
next
  case (Some ws)
  then have "w \<in> set ws" using assms(1) by (simp add: chars_def)
  then show ?thesis
    using Some assms(2)
  proof (induction s arbitrary: ws rule: utf8_chars.induct)
    case (1 s)
    let ?n = "utf8_head_len (map byte s)"
    show ?case
    proof (cases "s = [] \<or> ?n = 0")
      case True
      then show ?thesis using 1(2,3) by (subst (asm) utf8_chars.simps) (auto simp: Let_def split: if_splits)
    next
      case False
      then obtain vs where ws: "ws = take ?n s # vs" "utf8_chars (drop ?n s) = Some vs"
        using 1(3) by (subst (asm) utf8_chars.simps) (auto simp: Let_def)
      show ?thesis
      proof (cases "w = take ?n s")
        case True
        show ?thesis
        proof (cases "2 \<le> ?n")
          case big: True
          then show ?thesis using utf8_head_bytes [OF big] 1(4) True by blast
        next
          case False
          then have "?n = 1" using \<open>\<not> (s = [] \<or> ?n = 0)\<close> by linarith
          then show ?thesis using True 1(4) by (cases s) auto
        qed
      next
        case False
        then show ?thesis using 1 ws \<open>\<not> (s = [] \<or> ?n = 0)\<close> by auto
      qed
    qed
  qed
qed

lemma sanitized_chars:
  assumes "c \<in> set (concat (map sanitize_char (chars s)))"
  shows "c \<notin> set forbidden_in_names"
proof
  assume bad: "c \<in> set forbidden_in_names"
  then have low: "byte c < 0x80" by (auto simp: forbidden_in_names_def)
  obtain w where w: "w \<in> set (chars s)" "c \<in> set (sanitize_char w)" using assms by auto
  show False
  proof (cases "is_control w \<or> (\<exists>x \<in> set forbidden_in_names. w = [x])")
    case True
    then show False using w(2) bad by (auto simp: sanitize_char_def forbidden_in_names_def)
  next
    case False
    then have "c \<in> set w" using w(2) by (simp add: sanitize_char_def)
    then have "w = [c]" using chars_bytes [OF w(1)] low by fastforce
    then show False using False bad by blast
  qed
qed

lemma set_trim_start_by: "set (trim_start_by f s) \<subseteq> set s"
proof (induction f s rule: trim_start_by.induct)
  case (1 f s)
  show ?case
  proof (cases "s = [] \<or> f (map byte s) = 0")
    case True
    then show ?thesis by (subst trim_start_by.simps) simp
  next
    case False
    then have "set (trim_start_by f s) \<subseteq> set (drop (f (map byte s)) s)"
      using 1 by (subst trim_start_by.simps) simp
    then show ?thesis by (meson order_trans set_drop_subset)
  qed
qed

lemma set_trim: "set (trim s) \<subseteq> set s"
  unfolding trim_def
  using set_trim_start_by [of ws_last_len "rev (trim_start_by ws_head_len s)"] set_trim_start_by [of ws_head_len s]
  by auto

lemma set_trim_char: "set (trim_char d s) \<subseteq> set s"
  unfolding trim_char_def using set_dropWhileD by (metis set_rev subsetI)

lemma sanitize_safe:
  "set (sanitize_filename_part s) \<inter> set forbidden_in_names = {}" "sanitize_filename_part s \<noteq> []"
proof -
  have "c \<notin> set forbidden_in_names" if "c \<in> set (trim_char (CHR ''.'') (trim (concat (map sanitize_char (chars s)))))" for c
    using that sanitized_chars set_trim set_trim_char by blast
  moreover have "set ''unknown'' \<inter> set forbidden_in_names = {}" by (simp add: forbidden_in_names_def)
  ultimately show "set (sanitize_filename_part s) \<inter> set forbidden_in_names = {}"
    by (auto simp: sanitize_filename_part_def Let_def)
  show "sanitize_filename_part s \<noteq> []" by (simp add: sanitize_filename_part_def Let_def)
qed

lemma no_slash_sanitized: "CHR ''/'' \<notin> set (sanitize_filename_part s)"
  using sanitize_safe(1) [of s] by (auto simp: forbidden_in_names_def)

lemma path_extension_no_slash: "path_extension p = Some e \<Longrightarrow> CHR ''/'' \<notin> set e"
proof -
  assume "path_extension p = Some e"
  then obtain w where w: "path_file_name p = Some w" "snd (name_split w) = Some e"
    by (auto simp: path_extension_def split: option.splits)
  then have "w = fst (name_split w) @ CHR ''.'' # e"
    using name_split_parts [of w "fst (name_split w)" "Some e"] by (metis option.simps(5) prod.collapse)
  then have "set e \<subseteq> set w" by (metis Un_upper2 set_append set_subset_Cons subset_trans)
  with path_file_name_normal [OF w(1)] show ?thesis by blast
qed

lemma conflict_filename_name: "CHR ''/'' \<notin> set (conflict_filename name device date)"
  using no_slash_sanitized path_extension_no_slash
  by (auto simp: conflict_filename_def Let_def option_default_def split: option.splits)

lemma conflict_filename_nonempty: "conflict_filename name device date \<noteq> []"
  by (simp add: conflict_filename_def Let_def)

lemma nat_str_no_slash: "CHR ''/'' \<notin> set (nat_str n)"
  using nat_str_digits [of n] by (auto simp: list_all_iff is_digit_char_def)

text \<open>Below a folder: reached from it by pushing plain names only.\<close>

definition plain_name :: "string \<Rightarrow> bool" where
  "plain_name w \<longleftrightarrow> CHR ''/'' \<notin> set w \<and> w \<noteq> [] \<and> w \<noteq> ''.'' \<and> w \<noteq> ''..''"

definition below :: "string \<Rightarrow> string \<Rightarrow> bool" where
  "below folder p \<longleftrightarrow> (\<exists>ws. list_all plain_name ws \<and> p = foldl path_push folder ws)"

lemma below_refl: "below folder folder"
  unfolding below_def by (intro exI [of _ "[]"]) simp

lemma below_push: "below folder p \<Longrightarrow> plain_name w \<Longrightarrow> below folder (path_push p w)"
  unfolding below_def by (elim exE) (rule_tac x = "ws @ [w]" in exI, simp)

lemma push_components_below:
  "below folder dir \<Longrightarrow> (\<And>w. Normal w \<in> set cs \<Longrightarrow> plain_name w)
    \<Longrightarrow> case push_components name dir cs of
        Inl e \<Rightarrow> e = conflict_escapes name \<and> (Parent_Dir \<in> set cs \<or> Root_Dir \<in> set cs)
      | Inr p \<Rightarrow> below folder p \<and> Parent_Dir \<notin> set cs \<and> Root_Dir \<notin> set cs"
proof (induction cs arbitrary: dir)
  case Nil
  then show ?case by simp
next
  case (Cons c cs)
  show ?case
  proof (cases c)
    case (Normal w)
    have "case push_components name (path_push dir w) cs of
        Inl e \<Rightarrow> e = conflict_escapes name \<and> (Parent_Dir \<in> set cs \<or> Root_Dir \<in> set cs)
      | Inr p \<Rightarrow> below folder p \<and> Parent_Dir \<notin> set cs \<and> Root_Dir \<notin> set cs"
      using Cons.prems Normal by (intro Cons.IH below_push) auto
    then show ?thesis using Normal by (simp split: sum.splits)
  next
    case Cur_Dir
    have "case push_components name dir cs of
        Inl e \<Rightarrow> e = conflict_escapes name \<and> (Parent_Dir \<in> set cs \<or> Root_Dir \<in> set cs)
      | Inr p \<Rightarrow> below folder p \<and> Parent_Dir \<notin> set cs \<and> Root_Dir \<notin> set cs"
      using Cons.prems by (intro Cons.IH) auto
    then show ?thesis using Cur_Dir by (simp split: sum.splits)
  qed auto
qed

lemma path_parent_normal: "path_parent p = Some cs \<Longrightarrow> Normal w \<in> set cs \<Longrightarrow> plain_name w"
  using path_components_normal [of w p]
  by (auto simp: path_parent_def Let_def plain_name_def dest: in_set_butlastD split: if_splits)

lemma conflict_parent_dir_below:
  "conflict_parent_dir folder name = Inr dir \<Longrightarrow> below folder dir"
  using push_components_below [OF below_refl, of _ name folder] path_parent_normal [of name]
  by (fastforce simp: conflict_parent_dir_def below_refl split: option.splits)

lemma plain_conflict_name:
  "3 < length w \<Longrightarrow> CHR ''/'' \<notin> set w \<Longrightarrow> plain_name w"
  by (auto simp: plain_name_def)

lemma numbered_name_plain:
  assumes "CHR ''/'' \<notin> set w" "w \<noteq> []" "name_split w = (stem, ext)"
  shows "CHR ''/'' \<notin> set (numbered_name stem ext n)" "CHR ''/'' \<notin> set stem"
  using assms name_split_parts [OF assms(3)] nat_str_no_slash
  by (auto simp: numbered_name_def split: option.splits)

lemma unique_path_new:
  assumes "\<not> there (path_push dir (fst (name_split name) @ '' '' @ fresh))"
  shows "\<not> there (unique_conflict_path there fresh dir name)"
proof -
  obtain stem ext where parts: "name_split name = (stem, ext)" by fastforce
  have found: "find P xs = Some n \<Longrightarrow> P n" for P :: "nat \<Rightarrow> bool" and xs n by (auto simp: find_Some_iff)
  show ?thesis
    using assms parts found [of "\<lambda>n. \<not> there (path_push dir (numbered_name stem ext n))" conflict_numbers]
    by (auto simp: unique_conflict_path_def split: option.split)
qed

lemma plain_spaced: "CHR '' '' \<in> set w \<Longrightarrow> CHR ''/'' \<notin> set w \<Longrightarrow> plain_name w"
  by (auto simp: plain_name_def)

lemma unique_path_below:
  assumes dir: "below folder dir" and name: "CHR '' '' \<in> set name" "CHR ''/'' \<notin> set name"
    and fresh: "CHR ''/'' \<notin> set fresh"
  shows "below folder (unique_conflict_path there fresh dir name)"
proof -
  obtain stem ext where parts: "name_split name = (stem, ext)" by fastforce
  have "name \<noteq> []" using name(1) by auto
  then have stem: "CHR ''/'' \<notin> set stem" and numbered: "CHR ''/'' \<notin> set (numbered_name stem ext n)" for n
    using numbered_name_plain [OF name(2) _ parts] by auto
  have "CHR '' '' \<in> set (numbered_name stem ext n)" for n
    by (auto simp: numbered_name_def split: option.splits)
  then have "plain_name (numbered_name stem ext n)" for n using numbered by (intro plain_spaced)
  moreover have "plain_name (stem @ '' '' @ fresh)" using stem fresh by (intro plain_spaced) auto
  moreover have "plain_name name" using name by (intro plain_spaced)
  ultimately show ?thesis
    using dir parts by (auto simp: unique_conflict_path_def below_push split: option.split)
qed

lemma conflict_copy_below_lemma:
  assumes "conflict_copy_path there fresh folder name device date = Inr p" "CHR ''/'' \<notin> set fresh"
  shows "below folder p"
proof -
  let ?n = "conflict_filename (option_default name (path_file_name name)) device date"
  obtain dir where dir: "conflict_parent_dir folder name = Inr dir"
    and p: "p = unique_conflict_path there fresh dir ?n"
    using assms(1) by (auto simp: conflict_copy_path_def Let_def split: sum.splits)
  have "CHR '' '' \<in> set ?n" by (simp add: conflict_filename_def Let_def)
  then show ?thesis
    unfolding p by (intro unique_path_below conflict_parent_dir_below [OF dir] conflict_filename_name assms(2))
qed

end
