(* ===== verification/S3_Client.thy ===== *)
theory S3_Client
  imports Stored_Json
begin

text \<open>
  The client side of the object store: the classification of S3 failures
  (\<open>s3/error.rs\<close>, the helpers of \<open>s3/client.rs\<close>), the retry policy and loop
  (\<open>s3/retry.rs\<close>, \<open>S3Adapter::with_retry\<close>), the split of a multipart upload and the
  probe that checks a bucket for the guarantees the metadata code needs.
\<close>

section \<open>Classification of failures\<close>

record classified_error =
  ce_code :: string
  ce_message :: string
  ce_http_status :: u16
  ce_is_retryable :: bool

definition known_codes :: "(string \<times> string \<times> bool) list" where
  "known_codes =
     [(''PreconditionFailed'', ''Conditional write failed (ETag mismatch)'', False),
      (''NoSuchKey'', ''Object not found in bucket'', False),
      (''NoSuchBucket'', ''Bucket does not exist'', False),
      (''AccessDenied'', ''Access denied: check credentials and bucket permissions'', False),
      (''InvalidAccessKeyId'', ''Invalid access key'', False),
      (''SignatureDoesNotMatch'', ''Secret key does not match'', False),
      (''BucketAlreadyExists'', ''Bucket name already taken'', False),
      (''BucketAlreadyOwnedByYou'', ''Bucket already owned by you'', False),
      (''EntityTooLarge'', ''Object size exceeds maximum allowed'', False),
      (''InvalidPart'', ''Invalid multipart upload part'', True),
      (''InvalidPartOrder'', ''Multipart parts uploaded out of order'', True),
      (''NoSuchUpload'', ''Multipart upload ID not found'', True),
      (''OperationAborted'', ''Conflicting conditional S3 operation'', True),
      (''Conflict'', ''S3 operation conflict'', False),
      (''InternalError'', ''Internal server error'', True),
      (''ServiceUnavailable'', ''Service temporarily unavailable'', True),
      (''SlowDown'', ''Slow down: reduce request rate'', True),
      (''RequestTimeout'', ''Request timed out'', True),
      (''RequestTimeTooSkewed'', ''Clock skew: check system time'', False),
      (''InvalidRequest'', ''Invalid request'', False),
      (''MalformedXML'', ''Malformed request'', False)]"

definition classify_error_code :: "string \<Rightarrow> u16 \<Rightarrow> classified_error" where
  "classify_error_code code status =
     (let (message, retryable) =
        (case map_of known_codes code of
           Some r \<Rightarrow> r
         | None \<Rightarrow>
             if 500 \<le> status
             then (''Server error (HTTP '' @ nat_str (unat status) @ ''): '' @ code, True)
             else if status = 429 then (''Rate limited'', True)
             else (''S3 error: '' @ code @ '' (HTTP '' @ nat_str (unat status) @ '')'', False))
      in \<lparr>ce_code = code, ce_message = message, ce_http_status = status, ce_is_retryable = retryable\<rparr>)"

definition retryable_words :: "string list" where
  "retryable_words =
     [''timeout'', ''internalerror'', ''internal server error'', ''serviceunavailable'', ''service unavailable'',
      ''slowdown'', ''requesttimeout'', ''operationaborted'', ''5xx'', ''500'', ''502'', ''503'', ''504'', ''429'']"

fun is_retryable :: "core_error \<Rightarrow> bool" where
  "is_retryable (S3 m) \<longleftrightarrow> (\<exists>w \<in> set retryable_words. str_contains (to_ascii_lowercase m) w)"
| "is_retryable (Network m) \<longleftrightarrow> True"
| "is_retryable _ \<longleftrightarrow> False"

definition explain_412 :: "string \<Rightarrow> string" where
  "explain_412 context =
     ''Another device changed '' @ [CHR 0x27] @ context @ [CHR 0x27] @ '' before this device could commit. ''
     @ ''S4Drive will re-read the current state and attempt to merge.''"

definition contains_any :: "string list \<Rightarrow> string \<Rightarrow> bool" where
  "contains_any ws s \<longleftrightarrow> list_ex (str_contains s) ws"

definition is_precondition_failed_error :: "string option \<Rightarrow> string \<Rightarrow> bool" where
  "is_precondition_failed_error code e \<longleftrightarrow>
     (\<exists>c. code = Some c \<and> to_ascii_lowercase c = to_ascii_lowercase ''PreconditionFailed'')
     \<or> contains_any [''preconditionfailed'', ''precondition failed'', ''412''] (to_ascii_lowercase e)"

definition classify_s3_error :: "string \<Rightarrow> string \<Rightarrow> core_error" where
  "classify_s3_error raw context =
     (let msg = ''s3 error ('' @ context @ ''): '' @ raw; lower = to_ascii_lowercase raw in
      if contains_any [''412'', ''preconditionfailed''] lower
      then Conflict (''412 PreconditionFailed: '' @ context)
      else if contains_any [''404'', ''not found'', ''nosuchkey'', ''notfound''] lower
      then NotFound (''not found: '' @ context)
      else if contains_any [''403'', ''forbidden'', ''accessdenied''] lower
      then Auth (''access denied: '' @ context)
      else if contains_any [''409'', ''conflict''] lower then Conflict (''conflict: '' @ context)
      else if contains_any [''timeout'', ''dispatchfailure'', ''connection reset''] lower then Network msg
      else S3 msg)"

definition classify_s3_service_error :: "string option \<Rightarrow> string \<Rightarrow> string \<Rightarrow> core_error" where
  "classify_s3_service_error code e context =
     (case code of
        Some c \<Rightarrow> if c = [] then classify_s3_error e context else classify_s3_error (c @ '': '' @ e) context
      | None \<Rightarrow> classify_s3_error e context)"

text \<open>The reply of a conditional write: \<open>Ok\<close>, or a service error with its code and text.\<close>

definition conditional_reply :: "string \<Rightarrow> (string option \<times> string) + unit \<Rightarrow> bool core_result" where
  "conditional_reply key reply =
     (case reply of
        Inr _ \<Rightarrow> Inr True
      | Inl (code, e) \<Rightarrow>
          if is_precondition_failed_error code e then Inr False
          else Inl (classify_s3_service_error code e key))"

definition delete_if_match_reply :: "string \<Rightarrow> (string option \<times> string) + unit \<Rightarrow> bool core_result" where
  "delete_if_match_reply key reply =
     (case reply of
        Inr _ \<Rightarrow> Inr True
      | Inl (code, e) \<Rightarrow>
          if is_precondition_failed_error code e then Inr False
          else (let err = classify_s3_service_error code e key
                in if is_NotFound err then Inr False else Inl err))"

section \<open>ETags\<close>

definition normalize_etag :: "string option \<Rightarrow> string" where
  "normalize_etag e = trim_char (CHR 0x22) (case e of None \<Rightarrow> [] | Some s \<Rightarrow> s)"

definition quote_etag_for_condition :: "string \<Rightarrow> string" where
  "quote_etag_for_condition etag =
     (let t = trim etag in
      if starts_with t [CHR 0x22] \<and> ends_with t [CHR 0x22] then t
      else [CHR 0x22] @ trim_char (CHR 0x22) t @ [CHR 0x22])"

section \<open>The retry policy\<close>

text \<open>Durations are in milliseconds; the arithmetic is on \<open>u128\<close>, saturating, and the
  result is cast to \<open>u64\<close>.\<close>

record retry_policy =
  rt_max_attempts :: u32
  rt_base_delay :: nat
  rt_max_delay :: nat

definition retry_policy_new :: "u32 \<Rightarrow> u64 \<Rightarrow> u64 \<Rightarrow> retry_policy" where
  "retry_policy_new n base_secs max_secs =
     \<lparr>rt_max_attempts = n, rt_base_delay = unat base_secs * 1000, rt_max_delay = unat max_secs * 1000\<rparr>"

definition retry_policy_default :: retry_policy where
  "retry_policy_default = \<lparr>rt_max_attempts = 3, rt_base_delay = 1000, rt_max_delay = 60000\<rparr>"

definition u128_max :: nat where
  "u128_max = 2 ^ 128 - 1"

definition base_delay_for_attempt :: "retry_policy \<Rightarrow> u32 \<Rightarrow> nat" where
  "base_delay_for_attempt p attempt =
     min (min (rt_base_delay p * 2 ^ min (unat attempt) 63) u128_max) (rt_max_delay p) mod 2 ^ 64"

definition jitter_seed :: "128 word \<Rightarrow> u32 \<Rightarrow> nat" where
  "jitter_seed nanos attempt = unat (xor nanos (push_bit 32 (ucast attempt)))"

definition delay_for_attempt :: "retry_policy \<Rightarrow> 128 word \<Rightarrow> u32 \<Rightarrow> nat" where
  "delay_for_attempt p nanos attempt =
     (let base_ms = base_delay_for_attempt p attempt in
      if base_ms = 0 then 0
      else
        (let window = max (base_ms div 4) 1;
             lower = base_ms - window;
             upper = min (base_ms + window) (rt_max_delay p);
             span = upper - lower + 1
         in (lower + jitter_seed nanos attempt mod span) mod 2 ^ 64))"

definition should_retry :: "retry_policy \<Rightarrow> core_error \<Rightarrow> u32 \<Rightarrow> bool" where
  "should_retry p e attempt \<longleftrightarrow> \<not> attempt \<ge> rt_max_attempts p \<and> is_retryable e"

text \<open>\<open>with_retry\<close>: the attempt counter never exceeds \<open>max_attempts\<close>, so that many rounds
  after the first bound the loop.\<close>

primrec retry_loop ::
    "retry_policy \<Rightarrow> (u32 \<Rightarrow> ('s, core_error, unit) io) \<Rightarrow> ('s, core_error, 'a) io \<Rightarrow> nat \<Rightarrow> u32
      \<Rightarrow> ('s, core_error, 'a) io" where
  "retry_loop p sleep operation 0 attempt = operation"
| "retry_loop p sleep operation (Suc n) attempt =
     io_try operation (\<lambda>r. case r of
         Inr x \<Rightarrow> io_return x
       | Inl e \<Rightarrow>
           if should_retry p e attempt
           then io_bind (sleep attempt) (\<lambda>_. retry_loop p sleep operation n (attempt + 1))
           else io_throw e)"

definition with_retry ::
    "retry_policy \<Rightarrow> (u32 \<Rightarrow> ('s, core_error, unit) io) \<Rightarrow> ('s, core_error, 'a) io \<Rightarrow> ('s, core_error, 'a) io" where
  "with_retry p sleep operation = retry_loop p sleep operation (unat (rt_max_attempts p)) 0"

section \<open>Multipart uploads\<close>

definition multipart_part_size :: u64 where "multipart_part_size = 5 * 1024 * 1024"
definition max_multipart_parts :: u64 where "max_multipart_parts = 10000"

definition multipart_part_count :: "u64 \<Rightarrow> u32 core_result" where
  "multipart_part_count bytes =
     (if bytes = 0 then Inl (S3 ''multipart upload requires at least one byte'')
      else
        (let parts = bytes div multipart_part_size + (if bytes mod multipart_part_size = 0 then 0 else 1) in
         if parts > max_multipart_parts
         then Inl (S3 (''multipart upload requires '' @ nat_str (unat parts) @ '' parts, above the S3 limit of ''
                @ nat_str (unat max_multipart_parts)))
         else Inr (ucast parts)))"

text \<open>Offset and bytes of the parts of a file upload, and the chunks of a byte upload.\<close>

definition part_range :: "u64 \<Rightarrow> u32 \<Rightarrow> u64 \<times> u64" where
  "part_range bytes i =
     (let offset = ucast i * multipart_part_size in (offset, min (bytes - offset) multipart_part_size))"

definition part_chunk :: "string \<Rightarrow> nat \<Rightarrow> string" where
  "part_chunk data i =
     (let start = i * unat multipart_part_size; stop = min (start + unat multipart_part_size) (length data)
      in take (stop - start) (drop start data))"

definition upload_chunks :: "string \<Rightarrow> string list core_result" where
  "upload_chunks data =
     (case multipart_part_count (of_nat (length data)) of
        Inl e \<Rightarrow> Inl e
      | Inr n \<Rightarrow> Inr (map (part_chunk data) [0..<unat n]))"

section \<open>The probe for a usable bucket\<close>

definition below_level_2 :: "string \<Rightarrow> core_error" where
  "below_level_2 what = Config (''S3 bucket is below S4Drive Level 2: '' @ what)"

definition level2_probe :: "libs \<Rightarrow> string \<Rightarrow> ('z world_scheme, core_error, unit) io" where
  "level2_probe L pre =
     (let key = pre @ ''cas''; create_key = pre @ ''create-once'' in
     io_bind (put_object L key ''base'') (\<lambda>_.
     io_bind (head_object key) (\<lambda>meta.
     io_bind (put_if_match L key ''updated'' (om_etag meta)) (\<lambda>ok.
     if \<not> ok then io_throw (below_level_2 ''If-Match rejected a valid ETag'')
     else
     io_bind (put_if_match L key ''stale'' (om_etag meta)) (\<lambda>ok.
     if ok then io_throw (below_level_2 ''stale If-Match write was accepted'')
     else
     io_bind (put_if_not_exists L create_key ''first'') (\<lambda>ok.
     if \<not> ok then io_throw (below_level_2 ''If-None-Match rejected a new object'')
     else
     io_bind (put_if_not_exists L create_key ''second'') (\<lambda>ok.
     if ok then io_throw (below_level_2 ''If-None-Match overwrote an object'')
     else
     io_bind (get_object key) (\<lambda>body.
     if body \<noteq> ''updated'' then io_throw (below_level_2 ''read-after-write is inconsistent'')
     else
     io_bind (delete_object key) (\<lambda>_.
     io_try (head_object key) (\<lambda>r. case r of
         Inr _ \<Rightarrow> io_throw (below_level_2 ''read-after-delete is inconsistent'')
       | Inl _ \<Rightarrow> io_return ()))))))))))"

definition cleanup_prefix_best_effort :: "string \<Rightarrow> ('z world_scheme, core_error, unit) io" where
  "cleanup_prefix_best_effort pre =
     io_try (list_objects pre) (\<lambda>r. case r of
         Inl _ \<Rightarrow> io_return ()
       | Inr keys \<Rightarrow> io_fold (\<lambda>k _. io_try (delete_object k) (\<lambda>_. io_return ())) keys ())"

definition verify_level2_prerequisites :: "libs \<Rightarrow> ('z world_scheme, core_error, unit) io" where
  "verify_level2_prerequisites L =
     io_bind (new_uuid L) (\<lambda>u.
       let pre = ''.s4drive-compat-min-'' @ uuid_text L u @ ''/'' in
       io_try (level2_probe L pre) (\<lambda>result.
       io_try (cleanup_prefix_best_effort pre) (\<lambda>_.
         io_result (case result of
             Inr x \<Rightarrow> Inr x
           | Inl e \<Rightarrow>
               if is_Config e then Inl e
               else Inl (Config (''S3 bucket is below S4Drive Level 2 or cannot be verified: ''
                      @ core_error_text e))))))"

section \<open>The retry loop\<close>

lemma retry_loop_ok:
  assumes "operation s = (Inr x, s')"
  shows "retry_loop p sleep operation n k s = (Inr x, s')"
  using assms by (cases n) (simp_all add: io_simps)

lemma retry_loop_final:
  assumes "operation s = (Inl e, s')" "\<not> should_retry p e k"
  shows "retry_loop p sleep operation n k s = (Inl e, s')"
  using assms by (cases n) (simp_all add: io_simps)

lemma unat_Suc_below: "unat (k :: u32) < m \<Longrightarrow> m < 2 ^ 32 \<Longrightarrow> unat (k + 1) = unat k + 1"
  by (simp add: unat_word_ariths)

lemma retry_loop_exhausted:
  assumes fails: "\<And>c. operation c = (Inl e, f c)" and e: "is_retryable e" and sleep: "\<And>k c. sleep k c = (Inr (), c)"
  shows "unat (rt_max_attempts p) = unat k + n \<Longrightarrow> retry_loop p sleep operation n k c = (Inl e, (f ^^ (n + 1)) c)"
proof (induction n arbitrary: k c)
  case 0
  then show ?case by (simp add: fails)
next
  case (Suc n)
  have max: "unat (rt_max_attempts p) < 2 ^ 32" by (rule order_less_le_trans [OF unsigned_less]) simp
  have "\<not> k \<ge> rt_max_attempts p" using Suc.prems by (simp add: word_le_nat_alt)
  moreover have "unat (rt_max_attempts p) = unat (k + 1) + n"
    using unat_Suc_below [of k "unat (rt_max_attempts p)"] Suc.prems max by simp
  ultimately show ?case
    using Suc.IH [of "k + 1" "f c"] fails e sleep by (simp add: io_simps should_retry_def funpow_swap1)
qed

section \<open>Delays\<close>

lemma base_delay_le_max: "base_delay_for_attempt p k \<le> rt_max_delay p"
  unfolding base_delay_for_attempt_def by (meson min.cobounded2 mod_less_eq_dividend order_trans)

lemma base_delay_doubles:
  assumes "rt_max_delay p < 2 ^ 64" "unat k \<le> 63"
  shows "base_delay_for_attempt p k = min (rt_base_delay p * 2 ^ unat k) (rt_max_delay p)"
proof -
  have "min (min (rt_base_delay p * 2 ^ unat k) u128_max) (rt_max_delay p) = min (rt_base_delay p * 2 ^ unat k) (rt_max_delay p)"
    using assms(1) by (simp add: u128_max_def min_def)
  then show ?thesis using assms by (simp add: base_delay_for_attempt_def)
qed

lemma jitter_le:
  fixes l u s :: nat
  assumes "l \<le> u"
  shows "l + s mod (u - l + 1) \<le> u"
proof -
  define j where "j = s mod (u - l + 1)"
  have "j < u - l + 1" unfolding j_def by (rule mod_less_divisor) simp
  then show ?thesis unfolding j_def [symmetric] using assms by linarith
qed

lemma delay_bounds_lemma:
  assumes "rt_max_delay p < 2 ^ 63"
  shows "delay_for_attempt p nanos k \<le> rt_max_delay p
    \<and> base_delay_for_attempt p k - max (base_delay_for_attempt p k div 4) 1 \<le> delay_for_attempt p nanos k
    \<and> delay_for_attempt p nanos k \<le> base_delay_for_attempt p k + max (base_delay_for_attempt p k div 4) 1"
proof (cases "base_delay_for_attempt p k = 0")
  case True
  then show ?thesis by (simp add: delay_for_attempt_def)
next
  case False
  let ?b = "base_delay_for_attempt p k"
  let ?w = "max (?b div 4) 1"
  let ?u = "min (?b + ?w) (rt_max_delay p)"
  let ?j = "jitter_seed nanos k mod (?u - (?b - ?w) + 1)"
  have b: "?b \<le> rt_max_delay p" by (rule base_delay_le_max)
  have "?b - ?w \<le> ?b + ?w" by (rule order_trans [OF diff_le_self le_add1])
  moreover have "?b - ?w \<le> rt_max_delay p" by (rule order_trans [OF diff_le_self b])
  ultimately have "?b - ?w \<le> ?u" by (rule min.boundedI)
  then have le: "?b - ?w + ?j \<le> ?u" by (rule jitter_le)
  then have "?b - ?w + ?j \<le> rt_max_delay p" "?b - ?w + ?j \<le> ?b + ?w"
    by (meson min.boundedE)+
  moreover have "?b - ?w + ?j < 2 ^ 64"
    by (rule order_le_less_trans [OF calculation(1) order_less_trans [OF assms]]) simp
  then have "delay_for_attempt p nanos k = ?b - ?w + ?j"
    using False unfolding delay_for_attempt_def Let_def by (simp only: if_False mod_less)
  ultimately show ?thesis by (metis le_add1)
qed

section \<open>Parts of an upload\<close>

lemma unat_part_size: "unat multipart_part_size = 5242880"
  by (simp add: multipart_part_size_def)

lemma ceil_div_cases:
  fixes x P :: nat
  assumes "0 < P"
  shows "(x + (P - 1)) div P = x div P + (if x mod P = 0 then 0 else 1)"
proof -
  have x: "x = P * (x div P) + x mod P" by simp
  show ?thesis
  proof (cases "x mod P = 0")
    case True
    then have "x + (P - 1) = (P - 1) + P * (x div P)" using x by simp
    then have "(x + (P - 1)) div P = x div P + (P - 1) div P"
      using assms by (metis div_mult_self2 add.commute less_not_refl2)
    then show ?thesis using True assms by simp
  next
    case False
    then have "x + (P - 1) = (x mod P - 1) + P * (x div P + 1)"
    proof -
      have "P * (x div P + 1) = P * (x div P) + P" by simp
      then show ?thesis using x assms False by linarith
    qed
    then have "(x + (P - 1)) div P = (x div P + 1) + (x mod P - 1) div P"
      using div_mult_self2 [of P "x mod P - 1" "x div P + 1"] assms by simp
    moreover have "x mod P - 1 < P" using assms mod_less_divisor [of P x] by linarith
    then have "(x mod P - 1) div P = 0" by (rule div_less)
    ultimately show ?thesis using False by simp
  qed
qed

lemma ceil_div_bounds:
  fixes x P :: nat
  assumes "0 < P" "n = (x + (P - 1)) div P"
  shows "x \<le> n * P" "i < n \<Longrightarrow> i * P < x"
proof -
  have "x + (P - 1) < P + n * P" using dividend_less_div_times [OF assms(1)] assms(2) by simp
  then show "x \<le> n * P" using assms(1) by linarith
  assume "i < n"
  then have "Suc i * P \<le> x + (P - 1)"
    using assms less_eq_div_iff_mult_less_eq by (metis Suc_leI)
  then show "i * P < x" using assms(1) by simp
qed

lemma part_count_nat:
  "multipart_part_count n = Inr c \<Longrightarrow>
     0 < unat n \<and> unat c \<le> 10000 \<and> unat c = (unat n + 5242879) div 5242880"
proof -
  assume c: "multipart_part_count n = Inr c"
  let ?parts = "n div multipart_part_size + (if n mod multipart_part_size = 0 then 0 else 1)"
  have n0: "n \<noteq> 0" and le: "?parts \<le> max_multipart_parts" and c': "c = ucast ?parts"
    using c by (auto simp: multipart_part_count_def Let_def split: if_splits)
  have ns: "unat n < 2 ^ 64" by (rule order_less_le_trans [OF unsigned_less]) simp
  have m: "n mod multipart_part_size = 0 \<longleftrightarrow> unat n mod 5242880 = 0"
    by (simp add: unat_eq_zero [symmetric] unat_mod_distrib unat_part_size del: unat_eq_zero)
  have small: "unat n div 5242880 + 1 < 2 ^ 64" using ns by (simp add: div_less_iff_less_mult)
  have parts: "unat ?parts = (unat n + 5242879) div 5242880"
    using ceil_div_cases [of 5242880 "unat n"] m small
    by (simp add: unat_word_ariths unat_div_distrib unat_part_size)
  have "unat ?parts \<le> 10000" using le by (simp add: word_le_nat_alt max_multipart_parts_def)
  moreover have "unat c = unat ?parts" using calculation c'
    by (simp add: unsigned_ucast_eq take_bit_nat_eq_self)
  ultimately show ?thesis using parts n0 by (simp add: unat_gt_0)
qed

lemma chunks_prefix:
  fixes data :: string and P :: nat
  shows "concat (map (\<lambda>i. take (min (i * P + P) (length data) - i * P) (drop (i * P) data)) [0..<n]) = take (n * P) data"
proof (induction n)
  case 0
  then show ?case by simp
next
  case (Suc n)
  have "take (min (n * P + P) (length data) - n * P) (drop (n * P) data) = take P (drop (n * P) data)"
    by (simp add: min_def)
  moreover have "take (Suc n * P) data = take (n * P) data @ take P (drop (n * P) data)"
    by (metis add.commute mult_Suc take_add)
  ultimately show ?case using Suc by simp
qed

lemma upload_chunks_lemma:
  assumes small: "length data < 2 ^ 64" and chunks: "upload_chunks data = Inr cs"
  shows "concat cs = data" "length cs \<le> 10000" "\<And>c. c \<in> set cs \<Longrightarrow> c \<noteq> [] \<and> length c \<le> 5242880"
proof -
  obtain n where n: "multipart_part_count (of_nat (length data)) = Inr n" "cs = map (part_chunk data) [0..<unat n]"
    using chunks by (auto simp: upload_chunks_def split: sum.splits)
  have len: "unat (of_nat (length data) :: u64) = length data" using small by (simp add: unat_of_nat)
  from part_count_nat [OF n(1)] have c: "0 < length data" "unat n \<le> 10000" "unat n = (length data + 5242879) div 5242880"
    by (simp_all add: len)
  note ceil = ceil_div_bounds [of 5242880 "unat n" "length data"]
  have "length data \<le> unat n * 5242880" using ceil(1) c(3) by simp
  moreover have "concat cs = take (unat n * 5242880) data"
  proof -
    have "part_chunk data = (\<lambda>i. take (min (i * 5242880 + 5242880) (length data) - i * 5242880) (drop (i * 5242880) data))"
      by (rule ext) (simp only: part_chunk_def unat_part_size Let_def)
    then show ?thesis using chunks_prefix [of 5242880 data "unat n"] n(2) by simp
  qed
  ultimately show "concat cs = data" by simp
  show "length cs \<le> 10000" using n(2) c(2) by simp
  show "c \<noteq> [] \<and> length c \<le> 5242880" if mem: "c \<in> set cs" for c
  proof -
    obtain i where i: "i < unat n" "c = part_chunk data i" using mem n(2) by auto
    then have "i * 5242880 < length data" using ceil(2) c(3) by simp
    then show ?thesis using i(2) by (auto simp: part_chunk_def unat_part_size Let_def)
  qed
qed

section \<open>ETags and the probe\<close>

lemma trim_char_quotes:
  assumes "CHR 0x22 \<notin> set e"
  shows "trim_char (CHR 0x22) (CHR 0x22 # e @ [CHR 0x22]) = e"
proof (cases "e = []")
  case True
  then show ?thesis by (simp add: trim_char_def)
next
  case False
  then have "hd e \<noteq> CHR 0x22" "last e \<noteq> CHR 0x22" using assms by (metis hd_in_set, metis last_in_set)
  then have "dropWhile (\<lambda>c. c = CHR 0x22) (e @ [CHR 0x22]) = e @ [CHR 0x22]"
    "dropWhile (\<lambda>c. c = CHR 0x22) (rev e) = rev e"
    using False by (auto intro!: dropWhile_hd_id simp: hd_rev)
  then show ?thesis by (simp add: trim_char_def)
qed

lemma quote_etag_lemma:
  assumes "list_all graphic e" "CHR 0x22 \<notin> set e"
  shows "quote_etag_for_condition e = [CHR 0x22] @ e @ [CHR 0x22]"
    "normalize_etag (Some (quote_etag_for_condition e)) = e"
proof -
  have "trim e = e"
    using assms(1) by (cases "e = []") (auto simp: list_all_iff intro: trim_graphic_ends)
  moreover have "\<not> starts_with e [CHR 0x22]"
    using assms(2) by (cases e) (auto simp: starts_with_def)
  ultimately show "quote_etag_for_condition e = [CHR 0x22] @ e @ [CHR 0x22]"
    using assms(2) by (simp add: quote_etag_for_condition_def trim_char_none)
  then show "normalize_etag (Some (quote_etag_for_condition e)) = e"
    using trim_char_quotes [OF assms(2)] by (simp add: normalize_etag_def)
qed

end
