(* ===== verification/Sample_Libs.thy ===== *)
theory Sample_Libs
  imports Runtime
begin

text \<open>
  A concrete instance of the external libraries, small enough to compute with:
  every value is written as a list of numbers, and a list of numbers as decimal
  numerals separated by commas. It satisfies \<open>libs_ok\<close>, so the hypotheses of the
  properties can hold; the witnesses run the program on it.
\<close>

section \<open>Numbers as text\<close>

definition tokens_text :: "nat list \<Rightarrow> string" where
  "tokens_text ns = concat (map (\<lambda>n. nat_str n @ '','') ns)"

fun read_tokens :: "string \<Rightarrow> string \<Rightarrow> nat list" where
  "read_tokens acc [] = []"
| "read_tokens acc (c # s) =
     (if c = CHR '','' then digits_val (rev acc) # read_tokens [] s else read_tokens (c # acc) s)"

lemma read_tokens_digits:
  "CHR '','' \<notin> set ds \<Longrightarrow> read_tokens acc (ds @ CHR '','' # s) = digits_val (rev acc @ ds) # read_tokens [] s"
  by (induction ds arbitrary: acc) auto

lemma comma_not_digit: "CHR '','' \<notin> set (nat_str n)"
  using nat_str_digits [of n] by (auto simp: list_all_iff is_digit_char_def)

lemma read_tokens_text [simp]: "read_tokens [] (tokens_text ns) = ns"
  by (induction ns) (auto simp: tokens_text_def read_tokens_digits comma_not_digit)

lemma tokens_text_inj: "tokens_text a = tokens_text b \<longleftrightarrow> a = b"
  by (metis read_tokens_text)

lemma tokens_text_graphic: "list_all graphic (tokens_text ns)"
  using nat_str_graphic by (induction ns) (auto simp: tokens_text_def graphic_def)

lemma tokens_text_chars: "c \<in> set (tokens_text ns) \<Longrightarrow> is_digit_char c \<or> c = CHR '',''"
  using nat_str_digits by (induction ns) (auto simp: tokens_text_def list_all_iff)

section \<open>Prefix codes\<close>

type_synonym 'a reader = "nat list \<Rightarrow> ('a \<times> nat list) option"

definition bind_reader :: "'a reader \<Rightarrow> ('a \<Rightarrow> 'b reader) \<Rightarrow> 'b reader" where
  "bind_reader p k ns = (case p ns of None \<Rightarrow> None | Some (x, r) \<Rightarrow> k x r)"

definition yield :: "'a \<Rightarrow> 'a reader" where
  "yield x ns = Some (x, ns)"

lemma bind_reader_Some [simp]: "p ns = Some (x, r) \<Longrightarrow> bind_reader p k ns = k x r"
  by (simp add: bind_reader_def)

lemma yield_apply [simp]: "yield x ns = Some (x, ns)"
  by (simp add: yield_def)

fun get_nat :: "nat reader" where
  "get_nat [] = None"
| "get_nat (n # r) = Some (n, r)"

definition get_map :: "(nat \<Rightarrow> 'a) \<Rightarrow> 'a reader" where
  "get_map f = bind_reader get_nat (\<lambda>n. yield (f n))"

lemma get_map_Cons [simp]: "get_map f (n # r) = Some (f n, r)"
  by (simp add: get_map_def)

fun get_many :: "'a reader \<Rightarrow> nat \<Rightarrow> 'a list reader" where
  "get_many p 0 ns = Some ([], ns)"
| "get_many p (Suc n) ns = bind_reader p (\<lambda>x. bind_reader (get_many p n) (\<lambda>xs. yield (x # xs))) ns"

definition put_list :: "('a \<Rightarrow> nat list) \<Rightarrow> 'a list \<Rightarrow> nat list" where
  "put_list e xs = length xs # concat (map e xs)"

definition get_list :: "'a reader \<Rightarrow> 'a list reader" where
  "get_list p = bind_reader get_nat (get_many p)"

lemma get_many_map:
  "(\<And>x r. p (e x @ r) = Some (x, r)) \<Longrightarrow> get_many p (length xs) (concat (map e xs) @ r) = Some (xs, r)"
  by (induction xs) simp_all

lemma get_put_list [simp]:
  "(\<And>x r. p (e x @ r) = Some (x, r)) \<Longrightarrow> get_list p (put_list e xs @ r) = Some (xs, r)"
  by (simp add: get_list_def put_list_def get_many_map)

fun put_option :: "('a \<Rightarrow> nat list) \<Rightarrow> 'a option \<Rightarrow> nat list" where
  "put_option e None = [0]"
| "put_option e (Some x) = 1 # e x"

definition get_option :: "'a reader \<Rightarrow> 'a option reader" where
  "get_option p = bind_reader get_nat (\<lambda>n. if n = 0 then yield None else bind_reader p (\<lambda>x. yield (Some x)))"

lemma get_put_option [simp]:
  "(\<And>x r. p (e x @ r) = Some (x, r)) \<Longrightarrow> get_option p (put_option e x @ r) = Some (x, r)"
  by (cases x) (simp_all add: get_option_def)

definition put_word :: "'n::len word \<Rightarrow> nat list" where
  "put_word w = [unat w]"

definition get_word :: "'n::len word reader" where
  "get_word = get_map of_nat"

lemma get_put_word [simp]: "get_word (put_word w @ r) = Some (w, r)"
  by (simp add: get_word_def put_word_def)

definition put_bool :: "bool \<Rightarrow> nat list" where
  "put_bool b = [if b then 1 else 0]"

definition get_bool :: "bool reader" where
  "get_bool = get_map (\<lambda>n. n = 1)"

lemma get_put_bool [simp]: "get_bool (put_bool b @ r) = Some (b, r)"
  by (simp add: get_bool_def put_bool_def)

definition put_str :: "string \<Rightarrow> nat list" where
  "put_str = put_list (\<lambda>c. [of_char c])"

definition get_str :: "string reader" where
  "get_str = get_list (get_map char_of)"

lemma get_put_str [simp]: "get_str (put_str s @ r) = Some (s, r)"
  unfolding get_str_def put_str_def by (rule get_put_list) simp

definition text_codec :: "('a \<Rightarrow> nat list) \<Rightarrow> 'a reader \<Rightarrow> 'a codec" where
  "text_codec e p =
     \<lparr>encode = (\<lambda>x. Inr (tokens_text (e x))),
      decode = (\<lambda>t. case p (read_tokens [] t) of Some (x, []) \<Rightarrow> Inr x | _ \<Rightarrow> Inl ''invalid text'')\<rparr>"

lemma text_codec_ok: "(\<And>x r. p (e x @ r) = Some (x, r)) \<Longrightarrow> codec_ok (text_codec e p)"
proof -
  assume inv: "\<And>x r. p (e x @ r) = Some (x, r)"
  have "p (e x) = Some (x, [])" for x using inv [of x "[]"] by simp
  then show ?thesis
    using ascii_graphic [OF tokens_text_graphic]
    by (auto simp: codec_ok_def text_codec_def)
qed

section \<open>Codes of the metadata types\<close>

fun put_entry_type :: "entry_type \<Rightarrow> nat list" where
  "put_entry_type File = [0]" | "put_entry_type Folder = [1]" | "put_entry_type Symlink = [2]"

definition get_entry_type :: "entry_type reader" where
  "get_entry_type = get_map (\<lambda>n. if n = 0 then File else if n = 1 then Folder else Symlink)"

lemma get_put_entry_type [simp]: "get_entry_type (put_entry_type x @ r) = Some (x, r)"
  by (cases x) (simp_all add: get_entry_type_def)

fun put_lock_mode :: "lock_mode \<Rightarrow> nat list" where
  "put_lock_mode Soft = [0]" | "put_lock_mode Hard = [1]" | "put_lock_mode Read = [2]" | "put_lock_mode Write = [3]"

definition get_lock_mode :: "lock_mode reader" where
  "get_lock_mode = get_map (\<lambda>n. if n = 0 then Soft else if n = 1 then Hard else if n = 2 then Read else Write)"

lemma get_put_lock_mode [simp]: "get_lock_mode (put_lock_mode x @ r) = Some (x, r)"
  by (cases x) (simp_all add: get_lock_mode_def)

fun put_op_type :: "op_type \<Rightarrow> nat list" where
  "put_op_type CreateFolder = [0]" | "put_op_type CreateFile = [1]" | "put_op_type UploadNewRevision = [2]"
| "put_op_type Rename = [3]" | "put_op_type Move = [4]" | "put_op_type Delete = [5]" | "put_op_type Restore = [6]"
| "put_op_type UpdateMetadata = [7]"

definition get_op_type :: "op_type reader" where
  "get_op_type = get_map (\<lambda>n. if n = 0 then CreateFolder else if n = 1 then CreateFile
     else if n = 2 then UploadNewRevision else if n = 3 then Rename else if n = 4 then Move
     else if n = 5 then Delete else if n = 6 then Restore else UpdateMetadata)"

lemma get_put_op_type [simp]: "get_op_type (put_op_type x @ r) = Some (x, r)"
  by (cases x) (simp_all add: get_op_type_def)

fun put_watermark_status :: "device_watermark_status \<Rightarrow> nat list" where
  "put_watermark_status Active = [0]" | "put_watermark_status Retired = [1]"

definition get_watermark_status :: "device_watermark_status reader" where
  "get_watermark_status = get_map (\<lambda>n. if n = 0 then Active else Retired)"

lemma get_put_watermark_status [simp]: "get_watermark_status (put_watermark_status x @ r) = Some (x, r)"
  by (cases x) (simp_all add: get_watermark_status_def)

definition put_device_capabilities :: "device_capabilities \<Rightarrow> nat list" where
  "put_device_capabilities x =
     put_bool (dc_cloud_files_api x) @ put_bool (dc_file_provider x) @ put_bool (dc_fuse x)
      @ put_bool (dc_background_sync x) @ put_bool (dc_encryption_at_rest x)"

definition get_device_capabilities :: "device_capabilities reader" where
  "get_device_capabilities =
     bind_reader get_bool (\<lambda>x0.
     bind_reader get_bool (\<lambda>x1.
     bind_reader get_bool (\<lambda>x2.
     bind_reader get_bool (\<lambda>x3.
     bind_reader get_bool (\<lambda>x4.
     yield \<lparr>dc_cloud_files_api = x0, dc_file_provider = x1, dc_fuse = x2, dc_background_sync = x3, dc_encryption_at_rest = x4\<rparr>)))))"

lemma get_put_device_capabilities [simp]: "get_device_capabilities (put_device_capabilities x @ r) = Some (x, r)"
  by (simp add: get_device_capabilities_def put_device_capabilities_def)

definition put_bucket_descriptor :: "bucket_descriptor \<Rightarrow> nat list" where
  "put_bucket_descriptor x =
     put_word (bd_bucket_id x) @ put_word (bd_schema_version x) @ put_str (bd_created_at x)
      @ put_str (bd_owner x) @ (put_list put_str) (bd_capabilities x)
      @ put_str (bd_min_client_version x)"

definition get_bucket_descriptor :: "bucket_descriptor reader" where
  "get_bucket_descriptor =
     bind_reader get_word (\<lambda>x0.
     bind_reader get_word (\<lambda>x1.
     bind_reader get_str (\<lambda>x2.
     bind_reader get_str (\<lambda>x3.
     bind_reader (get_list get_str) (\<lambda>x4.
     bind_reader get_str (\<lambda>x5.
     yield \<lparr>bd_bucket_id = x0, bd_schema_version = x1, bd_created_at = x2, bd_owner = x3, bd_capabilities = x4, bd_min_client_version = x5\<rparr>))))))"

lemma get_put_bucket_descriptor [simp]: "get_bucket_descriptor (put_bucket_descriptor x @ r) = Some (x, r)"
  by (simp add: get_bucket_descriptor_def put_bucket_descriptor_def)

definition put_device :: "device \<Rightarrow> nat list" where
  "put_device x =
     put_word (dv_device_id x) @ put_str (dv_device_name x) @ put_str (dv_platform x)
      @ put_str (dv_os_version x) @ put_str (dv_public_key x) @ put_str (dv_last_seen x)
      @ put_device_capabilities (dv_capabilities x) @ put_str (dv_client_version x)"

definition get_device :: "device reader" where
  "get_device =
     bind_reader get_word (\<lambda>x0.
     bind_reader get_str (\<lambda>x1.
     bind_reader get_str (\<lambda>x2.
     bind_reader get_str (\<lambda>x3.
     bind_reader get_str (\<lambda>x4.
     bind_reader get_str (\<lambda>x5.
     bind_reader get_device_capabilities (\<lambda>x6.
     bind_reader get_str (\<lambda>x7.
     yield \<lparr>dv_device_id = x0, dv_device_name = x1, dv_platform = x2, dv_os_version = x3, dv_public_key = x4, dv_last_seen = x5, dv_capabilities = x6, dv_client_version = x7\<rparr>))))))))"

lemma get_put_device [simp]: "get_device (put_device x @ r) = Some (x, r)"
  by (simp add: get_device_def put_device_def)

definition put_device_watermark :: "device_watermark \<Rightarrow> nat list" where
  "put_device_watermark x =
     put_word (wm_device_id x) @ put_str (wm_last_seen_at x) @ put_word (wm_applied_snapshot_seq x)
      @ put_str (wm_applied_head x) @ put_str (wm_client_version x)
      @ put_watermark_status (wm_status x)"

definition get_device_watermark :: "device_watermark reader" where
  "get_device_watermark =
     bind_reader get_word (\<lambda>x0.
     bind_reader get_str (\<lambda>x1.
     bind_reader get_word (\<lambda>x2.
     bind_reader get_str (\<lambda>x3.
     bind_reader get_str (\<lambda>x4.
     bind_reader get_watermark_status (\<lambda>x5.
     yield \<lparr>wm_device_id = x0, wm_last_seen_at = x1, wm_applied_snapshot_seq = x2, wm_applied_head = x3, wm_client_version = x4, wm_status = x5\<rparr>))))))"

lemma get_put_device_watermark [simp]: "get_device_watermark (put_device_watermark x @ r) = Some (x, r)"
  by (simp add: get_device_watermark_def put_device_watermark_def)

definition put_snapshot_metadata :: "snapshot_metadata \<Rightarrow> nat list" where
  "put_snapshot_metadata x =
     put_word (sm_schema_version x) @ put_word (sm_seq_num x) @ put_str (sm_created_at x)
      @ put_word (sm_entry_count x) @ put_str (sm_tree_key x)
      @ (put_option put_str) (sm_covered_head x)"

definition get_snapshot_metadata :: "snapshot_metadata reader" where
  "get_snapshot_metadata =
     bind_reader get_word (\<lambda>x0.
     bind_reader get_word (\<lambda>x1.
     bind_reader get_str (\<lambda>x2.
     bind_reader get_word (\<lambda>x3.
     bind_reader get_str (\<lambda>x4.
     bind_reader (get_option get_str) (\<lambda>x5.
     yield \<lparr>sm_schema_version = x0, sm_seq_num = x1, sm_created_at = x2, sm_entry_count = x3, sm_tree_key = x4, sm_covered_head = x5\<rparr>))))))"

lemma get_put_snapshot_metadata [simp]: "get_snapshot_metadata (put_snapshot_metadata x @ r) = Some (x, r)"
  by (simp add: get_snapshot_metadata_def put_snapshot_metadata_def)

definition put_content_ref :: "content_ref \<Rightarrow> nat list" where
  "put_content_ref x =
     put_word (cr_blob_id x) @ put_str (cr_hash x) @ put_word (cr_size x) @ put_str (cr_mime x)
      @ put_str (cr_storage_key x)"

definition get_content_ref :: "content_ref reader" where
  "get_content_ref =
     bind_reader get_word (\<lambda>x0.
     bind_reader get_str (\<lambda>x1.
     bind_reader get_word (\<lambda>x2.
     bind_reader get_str (\<lambda>x3.
     bind_reader get_str (\<lambda>x4.
     yield \<lparr>cr_blob_id = x0, cr_hash = x1, cr_size = x2, cr_mime = x3, cr_storage_key = x4\<rparr>)))))"

lemma get_put_content_ref [simp]: "get_content_ref (put_content_ref x @ r) = Some (x, r)"
  by (simp add: get_content_ref_def put_content_ref_def)

definition put_file_attributes :: "file_attributes \<Rightarrow> nat list" where
  "put_file_attributes x =
     put_bool (fa_favorite x) @ put_bool (fa_shared x) @ (put_list put_str) (fa_tags x)"

definition get_file_attributes :: "file_attributes reader" where
  "get_file_attributes =
     bind_reader get_bool (\<lambda>x0.
     bind_reader get_bool (\<lambda>x1.
     bind_reader (get_list get_str) (\<lambda>x2.
     yield \<lparr>fa_favorite = x0, fa_shared = x1, fa_tags = x2\<rparr>)))"

lemma get_put_file_attributes [simp]: "get_file_attributes (put_file_attributes x @ r) = Some (x, r)"
  by (simp add: get_file_attributes_def put_file_attributes_def)

definition put_lock_state :: "lock_state \<Rightarrow> nat list" where
  "put_lock_state x =
     put_bool (lk_locked x) @ (put_option put_word) (lk_owner_device_id x)
      @ (put_option put_lock_mode) (lk_mode x) @ (put_option put_str) (lk_expires_at x)"

definition get_lock_state :: "lock_state reader" where
  "get_lock_state =
     bind_reader get_bool (\<lambda>x0.
     bind_reader (get_option get_word) (\<lambda>x1.
     bind_reader (get_option get_lock_mode) (\<lambda>x2.
     bind_reader (get_option get_str) (\<lambda>x3.
     yield \<lparr>lk_locked = x0, lk_owner_device_id = x1, lk_mode = x2, lk_expires_at = x3\<rparr>))))"

lemma get_put_lock_state [simp]: "get_lock_state (put_lock_state x @ r) = Some (x, r)"
  by (simp add: get_lock_state_def put_lock_state_def)

definition put_file_entry :: "file_entry \<Rightarrow> nat list" where
  "put_file_entry x =
     put_word (fe_file_id x) @ (put_option put_word) (fe_parent_id x) @ put_str (fe_name x)
      @ put_str (fe_normalized_name x) @ put_entry_type (fe_entry_type x)
      @ (put_option put_word) (fe_current_revision_id x)
      @ (put_option put_content_ref) (fe_content_ref x) @ put_word (fe_size x)
      @ (put_option put_str) (fe_content_hash x) @ (put_option put_str) (fe_mime x)
      @ put_str (fe_created_at x) @ put_str (fe_updated_at x)
      @ (put_option put_str) (fe_deleted_at x) @ (put_list put_word) (fe_version_history x)
      @ put_file_attributes (fe_attributes x) @ put_lock_state (fe_lock_state x)"

definition get_file_entry :: "file_entry reader" where
  "get_file_entry =
     bind_reader get_word (\<lambda>x0.
     bind_reader (get_option get_word) (\<lambda>x1.
     bind_reader get_str (\<lambda>x2.
     bind_reader get_str (\<lambda>x3.
     bind_reader get_entry_type (\<lambda>x4.
     bind_reader (get_option get_word) (\<lambda>x5.
     bind_reader (get_option get_content_ref) (\<lambda>x6.
     bind_reader get_word (\<lambda>x7.
     bind_reader (get_option get_str) (\<lambda>x8.
     bind_reader (get_option get_str) (\<lambda>x9.
     bind_reader get_str (\<lambda>x10.
     bind_reader get_str (\<lambda>x11.
     bind_reader (get_option get_str) (\<lambda>x12.
     bind_reader (get_list get_word) (\<lambda>x13.
     bind_reader get_file_attributes (\<lambda>x14.
     bind_reader get_lock_state (\<lambda>x15.
     yield \<lparr>fe_file_id = x0, fe_parent_id = x1, fe_name = x2, fe_normalized_name = x3, fe_entry_type = x4, fe_current_revision_id = x5, fe_content_ref = x6, fe_size = x7, fe_content_hash = x8, fe_mime = x9, fe_created_at = x10, fe_updated_at = x11, fe_deleted_at = x12, fe_version_history = x13, fe_attributes = x14, fe_lock_state = x15\<rparr>))))))))))))))))"

lemma get_put_file_entry [simp]: "get_file_entry (put_file_entry x @ r) = Some (x, r)"
  by (simp add: get_file_entry_def put_file_entry_def)

definition put_preconditions :: "preconditions \<Rightarrow> nat list" where
  "put_preconditions x =
     (put_option put_str) (pre_expected_etag x) @ (put_option put_str) (pre_expected_version_id x)
      @ put_bool (pre_file_exists x) @ put_bool (pre_parent_exists x)"

definition get_preconditions :: "preconditions reader" where
  "get_preconditions =
     bind_reader (get_option get_str) (\<lambda>x0.
     bind_reader (get_option get_str) (\<lambda>x1.
     bind_reader get_bool (\<lambda>x2.
     bind_reader get_bool (\<lambda>x3.
     yield \<lparr>pre_expected_etag = x0, pre_expected_version_id = x1, pre_file_exists = x2, pre_parent_exists = x3\<rparr>))))"

lemma get_put_preconditions [simp]: "get_preconditions (put_preconditions x @ r) = Some (x, r)"
  by (simp add: get_preconditions_def put_preconditions_def)

definition put_effects :: "effects \<Rightarrow> nat list" where
  "put_effects x =
     (put_option put_word) (ef_new_revision_id x)
      @ (put_option put_content_ref) (ef_new_content_ref x) @ (put_option put_str) (ef_new_name x)
      @ (put_option put_word) (ef_new_parent_id x) @ put_bool (ef_deleted x)"

definition get_effects :: "effects reader" where
  "get_effects =
     bind_reader (get_option get_word) (\<lambda>x0.
     bind_reader (get_option get_content_ref) (\<lambda>x1.
     bind_reader (get_option get_str) (\<lambda>x2.
     bind_reader (get_option get_word) (\<lambda>x3.
     bind_reader get_bool (\<lambda>x4.
     yield \<lparr>ef_new_revision_id = x0, ef_new_content_ref = x1, ef_new_name = x2, ef_new_parent_id = x3, ef_deleted = x4\<rparr>)))))"

lemma get_put_effects [simp]: "get_effects (put_effects x @ r) = Some (x, r)"
  by (simp add: get_effects_def put_effects_def)

definition put_operation :: "operation \<Rightarrow> nat list" where
  "put_operation x =
     put_str (op_op_id x) @ put_word (op_device_id x) @ put_str (op_actor_id x)
      @ put_word (op_logical_clock x) @ put_str (op_base_head x)
      @ (put_option put_word) (op_target_file_id x) @ put_op_type (op_op_type x)
      @ put_preconditions (op_preconditions x) @ put_effects (op_effects x)
      @ put_str (op_timestamp x) @ (put_option put_str) (op_signature x)"

definition get_operation :: "operation reader" where
  "get_operation =
     bind_reader get_str (\<lambda>x0.
     bind_reader get_word (\<lambda>x1.
     bind_reader get_str (\<lambda>x2.
     bind_reader get_word (\<lambda>x3.
     bind_reader get_str (\<lambda>x4.
     bind_reader (get_option get_word) (\<lambda>x5.
     bind_reader get_op_type (\<lambda>x6.
     bind_reader get_preconditions (\<lambda>x7.
     bind_reader get_effects (\<lambda>x8.
     bind_reader get_str (\<lambda>x9.
     bind_reader (get_option get_str) (\<lambda>x10.
     yield \<lparr>op_op_id = x0, op_device_id = x1, op_actor_id = x2, op_logical_clock = x3, op_base_head = x4, op_target_file_id = x5, op_op_type = x6, op_preconditions = x7, op_effects = x8, op_timestamp = x9, op_signature = x10\<rparr>)))))))))))"

lemma get_put_operation [simp]: "get_operation (put_operation x @ r) = Some (x, r)"
  by (simp add: get_operation_def put_operation_def)

definition put_deletion :: "tombstone \<Rightarrow> nat list" where
  "put_deletion x =
     put_word (ts_file_id x) @ put_str (ts_path_at_delete x) @ put_str (ts_name_at_delete x)
      @ put_str (ts_deleted_by x) @ put_str (ts_deleted_at x) @ put_str (ts_retention_until x)
      @ (put_list put_word) (ts_content_refs x) @ put_bool (ts_restorable x)"

definition get_deletion :: "tombstone reader" where
  "get_deletion =
     bind_reader get_word (\<lambda>x0.
     bind_reader get_str (\<lambda>x1.
     bind_reader get_str (\<lambda>x2.
     bind_reader get_str (\<lambda>x3.
     bind_reader get_str (\<lambda>x4.
     bind_reader get_str (\<lambda>x5.
     bind_reader (get_list get_word) (\<lambda>x6.
     bind_reader get_bool (\<lambda>x7.
     yield \<lparr>ts_file_id = x0, ts_path_at_delete = x1, ts_name_at_delete = x2, ts_deleted_by = x3, ts_deleted_at = x4, ts_retention_until = x5, ts_content_refs = x6, ts_restorable = x7\<rparr>))))))))"

lemma get_put_deletion [simp]: "get_deletion (put_deletion x @ r) = Some (x, r)"
  by (simp add: get_deletion_def put_deletion_def)

definition put_op_compaction_cursor :: "op_compaction_cursor \<Rightarrow> nat list" where
  "put_op_compaction_cursor x =
     put_word (oc_schema_version x) @ put_word (oc_snapshot_seq x) @ put_str (oc_covered_head x)
      @ put_str (oc_next_op x) @ (put_list put_str) (oc_pending_delete x)"

definition get_op_compaction_cursor :: "op_compaction_cursor reader" where
  "get_op_compaction_cursor =
     bind_reader get_word (\<lambda>x0.
     bind_reader get_word (\<lambda>x1.
     bind_reader get_str (\<lambda>x2.
     bind_reader get_str (\<lambda>x3.
     bind_reader (get_list get_str) (\<lambda>x4.
     yield \<lparr>oc_schema_version = x0, oc_snapshot_seq = x1, oc_covered_head = x2, oc_next_op = x3, oc_pending_delete = x4\<rparr>)))))"

lemma get_put_op_compaction_cursor [simp]: "get_op_compaction_cursor (put_op_compaction_cursor x @ r) = Some (x, r)"
  by (simp add: get_op_compaction_cursor_def put_op_compaction_cursor_def)

section \<open>The instance\<close>

definition sample_time_text :: "int \<Rightarrow> string" where
  "sample_time_text t = tokens_text [if t < 0 then 1 else 0, nat \<bar>t\<bar>]"

definition sample_time_parse :: "string \<Rightarrow> string + int" where
  "sample_time_parse s =
     (case read_tokens [] s of
        [sign, n] \<Rightarrow> Inr (if sign = 1 then - int n else int n)
      | _ \<Rightarrow> Inl ''invalid time'')"

definition sample_libs :: libs where
  "sample_libs =
     \<lparr>uuid_now_v7 = (\<lambda>n. of_nat (n + 1)),
      uuid_text = (\<lambda>u. nat_str (unat u)),
      uuid_parse = (\<lambda>s. if s = nat_str (unat (of_nat (digits_val s) :: uuid)) then Some (of_nat (digits_val s)) else None),
      uuid_bytes = (\<lambda>u. nat_str (unat u)),
      uuid_from_custom_bytes = (\<lambda>s. of_nat (length s)),
      rfc3339_text = sample_time_text,
      rfc3339_parse = sample_time_parse,
      utf8_error_text = (\<lambda>_. ''invalid utf-8 sequence''),
      unicode_lowercase = to_ascii_lowercase,
      unicode_uppercase = id,
      blake3_digest = id,
      hex_text = (\<lambda>s. tokens_text (map of_char s)),
      store_etag = (\<lambda>b. tokens_text (map of_char b)),
      client_version = ''0.1.0'',
      json_descriptor = text_codec put_bucket_descriptor get_bucket_descriptor,
      json_device = text_codec put_device get_device,
      json_device_capabilities = text_codec put_device_capabilities get_device_capabilities,
      json_watermark = text_codec put_device_watermark get_device_watermark,
      json_snapshot_metadata = text_codec put_snapshot_metadata get_snapshot_metadata,
      json_entry = text_codec put_file_entry get_file_entry,
      json_entries = text_codec (put_list put_file_entry) (get_list get_file_entry),
      json_operation = text_codec put_operation get_operation,
      json_tombstone = text_codec put_deletion get_deletion,
      json_cursor = text_codec put_op_compaction_cursor get_op_compaction_cursor\<rparr>"

lemma map_of_char_inj: "map (of_char :: char \<Rightarrow> nat) a = map of_char b \<longleftrightarrow> a = b"
  by (auto dest: map_injective simp: inj_on_def)

lemma sample_libs_ok: "libs_ok sample_libs"
proof -
  have u: "uuid_parse sample_libs (uuid_text sample_libs u) = Some u" for u
    by (simp add: sample_libs_def)
  have digits: "c \<in> set (nat_str n) \<Longrightarrow> is_digit_char c" for c n
    using nat_str_digits [of n] by (simp add: list_all_iff)
  have ut: "uuid_text sample_libs u \<noteq> [] \<and> list_all graphic (uuid_text sample_libs u)
      \<and> CHR ''/'' \<notin> set (uuid_text sample_libs u) \<and> CHR '':'' \<notin> set (uuid_text sample_libs u)" for u
    using digits [of "CHR ''/''"] digits [of "CHR '':''"] nat_str_graphic
    by (auto simp: sample_libs_def is_digit_char_def)
  have t: "rfc3339_parse sample_libs (rfc3339_text sample_libs x) = Inr x" for x
    by (auto simp: sample_libs_def sample_time_text_def sample_time_parse_def)
  have e: "inj (store_etag sample_libs)" "CHR 0x22 \<notin> set (store_etag sample_libs b)" for b
    using tokens_text_chars [of "CHR 0x22" "map of_char b"]
    by (auto simp: sample_libs_def inj_on_def tokens_text_inj map_of_char_inj is_digit_char_def)
  have c: "codec_ok (json_descriptor sample_libs)" "codec_ok (json_device sample_libs)"
    "codec_ok (json_device_capabilities sample_libs)" "codec_ok (json_watermark sample_libs)"
    "codec_ok (json_snapshot_metadata sample_libs)" "codec_ok (json_entry sample_libs)"
    "codec_ok (json_entries sample_libs)" "codec_ok (json_operation sample_libs)"
    "codec_ok (json_tombstone sample_libs)" "codec_ok (json_cursor sample_libs)"
    by (simp_all add: sample_libs_def text_codec_ok)
  show ?thesis using u ut t e c by (auto simp: libs_ok_def)
qed

end
