(* ===== verification/Samples.thy ===== *)
theory Samples
  imports Sample_Libs Op_Search Durable_Safety File_Tree Snapshots Engine Blobs
begin

text \<open>
  Concrete worlds for the witnesses: a log of device 7 on an empty bucket and on a
  bucket with one committed operation, over the executable \<open>sample_libs\<close>.
\<close>

definition sample_effects :: effects where
  "sample_effects = \<lparr>ef_new_revision_id = Some 5, ef_new_content_ref = None, ef_new_name = None,
     ef_new_parent_id = None, ef_deleted = False\<rparr>"

definition sample_preconditions :: preconditions where
  "sample_preconditions = \<lparr>pre_expected_etag = None, pre_expected_version_id = None, pre_file_exists = True,
     pre_parent_exists = True\<rparr>"

definition sample_op :: operation where
  "sample_op = \<lparr>op_op_id = new_op_id sample_libs 9 1 42, op_device_id = 9, op_actor_id = ''9'',
     op_logical_clock = 1, op_base_head = [], op_target_file_id = Some 3, op_op_type = UploadNewRevision,
     op_preconditions = sample_preconditions, op_effects = sample_effects, op_timestamp = [], op_signature = None\<rparr>"

definition sample_log :: "objs \<Rightarrow> oplog" where
  "sample_log m = \<lparr>objects = m, events = [], now = 0, draws = 0, ol_device = 7, ol_clock = 0, ol_head = None,
     ol_etag = None, ol_loaded = False\<rparr>"

definition put_raw :: "string \<Rightarrow> string \<Rightarrow> objs \<Rightarrow> objs" where
  "put_raw k b = btree_insert k (b, store_etag sample_libs b)"

definition sample_bucket :: objs where
  "sample_bucket = put_raw head_key (op_op_id sample_op)
     (put_raw (op_key (op_op_id sample_op)) (json_of (json_operation sample_libs) sample_op) [])"

lemma committed_empty: "committed L [] []"
  by (simp add: committed_def chain_root)

lemma sample_op_fields [simp]: "op_op_id sample_op = new_op_id sample_libs 9 1 42" "op_base_head sample_op = []"
  "op_target_file_id sample_op = Some 3"
  by (simp_all add: sample_op_def)

lemma committed_sample: "committed sample_libs sample_bucket [sample_op]"
proof -
  let ?i = "op_op_id sample_op" and ?b = "json_of (json_operation sample_libs) sample_op"
  have "committed sample_libs (put_raw (op_key ?i) ?b []) []"
    unfolding put_raw_def by (rule committed_op_other [OF committed_empty]) (simp_all del: btree_insert.simps)
  moreover have "op_in sample_libs (put_raw (op_key ?i) ?b []) ?i = Some sample_op"
    by (intro op_in_json sample_libs_ok) (simp add: put_raw_def del: btree_insert.simps)
  ultimately show ?thesis
    unfolding sample_bucket_def put_raw_def
    using new_op_id_text [OF sample_libs_ok] by (intro committed_push) (auto simp del: btree_insert.simps)
qed

lemma sample_draws: "map (uuid_now_v7 sample_libs) [0..<8] = [1, 2, 3, 4, 5, 6, 7, 8]"
  by (simp add: sample_libs_def upt_rec)

lemma sample_fresh: "fresh_ids sample_libs 7 (\<lambda>i. contents [] (op_key i)) 0 8"
  using sample_draws by (simp add: fresh_ids_def)

lemma sample_own: "\<not> is_own sample_libs 7 (op_op_id sample_op)"
  by code_simp

lemma own_new: "is_own L d i \<Longrightarrow> i = new_op_id L e c u \<Longrightarrow> libs_ok L \<Longrightarrow> d = e"
proof -
  assume *: "is_own L d i" "i = new_op_id L e c u" "libs_ok L"
  then obtain r where "uuid_text L d @ CHR '':'' # r = uuid_text L e @ CHR '':'' # nat_str (unat c) @ CHR '':'' # uuid_text L u"
    by (auto simp: is_own_def starts_with_iff new_op_id_def)
  then have "uuid_text L d = uuid_text L e"
    using libs_ok_uuid(5) [OF *(3), of d] libs_ok_uuid(5) [OF *(3), of e]
    by (metis split_once_append option.inject prod.inject)
  then show ?thesis using *(3) by (simp add: uuid_text_inj)
qed

lemma sample_log_empty: "log_for sample_libs (sample_log []) []"
  using sample_fresh
  by (simp add: log_for_def sample_log_def protocol_env_def committed_empty max_commit_attempts_def)

lemma sample_bucket_contents:
  "contents sample_bucket (op_key i) = (if i = op_op_id sample_op then Some (json_of (json_operation sample_libs) sample_op) else None)"
  "contents sample_bucket head_key = Some (op_op_id sample_op)"
  by (simp_all add: sample_bucket_def put_raw_def del: btree_insert.simps)

lemma sample_log_bucket: "log_for sample_libs (sample_log sample_bucket) [sample_op]"
proof -
  have "new_op_id sample_libs 7 c u \<noteq> op_op_id sample_op" for c u
    using own_new [OF new_op_id_own [of sample_libs 7 c u] _ sample_libs_ok, of 9 1 42] by auto
  then have "fresh_ids sample_libs 7 (\<lambda>i. contents sample_bucket (op_key i)) 0 8"
    using sample_draws by (simp add: fresh_ids_def sample_bucket_contents)
  then show ?thesis
    by (simp add: log_for_def sample_log_def protocol_env_def committed_sample max_commit_attempts_def)
qed

definition loaded_log :: "objs \<Rightarrow> operation list \<Rightarrow> oplog" where
  "loaded_log m xs = (sample_log m)\<lparr>ol_head := head_of xs, ol_etag := map_option (store_etag sample_libs) (head_of xs),
     ol_loaded := True\<rparr>"

lemma loaded_log_empty: "log_for sample_libs (loaded_log [] []) []"
  using sample_log_empty
  by (simp add: log_for_def loaded_log_def protocol_env_def synced_def sample_log_def)

lemma sample_protocol: "protocol_env L mine (sample_log m)"
  by (simp add: protocol_env_def sample_log_def)

lemma sample_head_text: "head_text (op_op_id sample_op)"
  using new_op_id_text [OF sample_libs_ok] by simp

lemma sample_load:
  "load_head_consistent sample_libs (sample_log sample_bucket) = (Inr (), loaded_log sample_bucket [sample_op])"
proof -
  let ?i = "op_op_id sample_op"
  have head: "map_of sample_bucket head_key = Some (?i, store_etag sample_libs ?i)"
    by (simp add: sample_bucket_def put_raw_def del: btree_insert.simps sample_op_fields)
  have reads: "string_from_utf8 ?i = Some ?i" "trim ?i = ?i" "?i \<noteq> []"
    using sample_head_text by (auto simp: head_text_def string_from_utf8_def simp del: sample_op_fields)
  show ?thesis
    using head reads
    by (simp add: load_head_consistent_def max_head_load_attempts_def numeral_3_eq_3 load_head_def load_present_def
        store_head_def io_try_apply io_bind_apply io_return_apply io_modify_apply head_object_def get_object_def
        serve_quiet mem_head_object_def mem_get_object_def sample_log_def loaded_log_def Let_def
        del: sample_op_fields)
qed

section \<open>Worlds without a log\<close>

definition sample_world :: "objs \<Rightarrow> world" where
  "sample_world m = \<lparr>objects = m, events = [], now = 100, draws = 0\<rparr>"

lemma sample_world_simps [simp]:
  "objects (sample_world m) = m" "events (sample_world m) = []" "now (sample_world m) = 100"
  "draws (sample_world m) = 0"
  by (simp_all add: sample_world_def)

lemma guarded_sample: "P m \<Longrightarrow> guarded P (sample_world m)"
  by (simp add: guarded_def env_keeps_def)

lemma store_inv_put_raw [simp]: "store_inv sample_libs m \<Longrightarrow> store_inv sample_libs (put_raw k b m)"
  by (simp add: put_raw_def del: btree_insert.simps)

lemma contents_put_raw [simp]: "contents (put_raw k b m) = (contents m)(k \<mapsto> b)"
  by (simp add: put_raw_def del: btree_insert.simps)

definition sample_entry :: "string \<Rightarrow> file_entry" where
  "sample_entry name = \<lparr>fe_file_id = 3, fe_parent_id = None, fe_name = name, fe_normalized_name = name,
     fe_entry_type = File, fe_current_revision_id = Some 5, fe_content_ref = None, fe_size = 2,
     fe_content_hash = None, fe_mime = None, fe_created_at = sample_time_text 1, fe_updated_at = sample_time_text 1,
     fe_deleted_at = None, fe_version_history = [], fe_attributes = file_attributes_default,
     fe_lock_state = lock_state_default\<rparr>"

definition sample_tombstone :: "int \<Rightarrow> string \<Rightarrow> tombstone" where
  "sample_tombstone until name = \<lparr>ts_file_id = 3, ts_path_at_delete = name, ts_name_at_delete = name,
     ts_deleted_by = ''9'', ts_deleted_at = sample_time_text 1, ts_retention_until = sample_time_text until,
     ts_content_refs = [], ts_restorable = True\<rparr>"

lemma sample_entry_valid: "validate_file_entry sample_libs (sample_entry ''a'') = Inr ()"
  by code_simp

lemma sample_entry_id [simp]: "fe_file_id (sample_entry n) = 3"
  by (simp add: sample_entry_def)

lemma sample_tombstone_id [simp]: "ts_file_id (sample_tombstone t n) = 3"
  by (simp add: sample_tombstone_def)

lemma sample_etag_digits:
  assumes "\<not> is_digit_char c" "c \<noteq> CHR '',''"
  shows "c \<notin> set (store_etag sample_libs b)"
  using assms nat_str_digits by (auto simp: sample_libs_def tokens_text_def list_all_iff)

definition stored_entry :: "string \<Rightarrow> objs" where
  "stored_entry name = put_raw (tree_entry_key sample_libs 3) (json_of (json_entry sample_libs) (sample_entry name)) []"

lemma stored_entry_only:
  "only_version sample_libs (tree_entry_key sample_libs 3) (Some (json_of (json_entry sample_libs) (sample_entry name)))
     (stored_entry name)"
  by (simp add: only_version_def stored_entry_def)

lemma stored_entry_version:
  "get_entry_version sample_libs 3 (sample_world (stored_entry name)) = (Inr (Some \<lparr>ev_entry = sample_entry name,
     ev_etag = store_etag sample_libs (json_of (json_entry sample_libs) (sample_entry name))\<rparr>),
     sample_world (stored_entry name))"
proof -
  let ?w = "sample_world (stored_entry name)"
  have inv: "store_inv sample_libs (objects ?w)" by (simp add: stored_entry_def)
  have "get_entry sample_libs 3 ?w = (Inr (sample_entry name), ?w)"
    by (simp add: get_entry_def read_json_quiet stored_entry_def libs_ok_codecs sample_libs_ok)
  then show ?thesis
    using quiet_head [OF _ inv]
    by (simp add: get_entry_version_def numeral_eq_Suc io_try_apply io_return_apply stored_entry_def)
qed

definition stored_tombstone :: "int \<Rightarrow> objs" where
  "stored_tombstone until = put_raw (tombstone_key sample_libs 3)
     (json_of (json_tombstone sample_libs) (sample_tombstone until ''a'')) []"

definition race_world :: world where
  "race_world =
     \<lparr>objects = stored_tombstone 50,
      events = [no_event, no_event, no_event\<lparr>ev_env :=
        put_raw (tree_entry_key sample_libs 3) (json_of (json_entry sample_libs) (sample_entry ''a''))
        \<circ> put_raw (tombstone_key sample_libs 3) (json_of (json_tombstone sample_libs) (sample_tombstone 200 ''b''))\<rparr>],
      now = 100, draws = 0\<rparr>"

definition sample_snapshot_metadata :: "u64 \<Rightarrow> snapshot_metadata" where
  "sample_snapshot_metadata n = \<lparr>sm_schema_version = 2, sm_seq_num = n, sm_created_at = sample_time_text 1,
     sm_entry_count = 0, sm_tree_key = snapshot_key n, sm_covered_head = Some (op_op_id sample_op)\<rparr>"

definition sample_watermark :: "u64 \<Rightarrow> device_watermark" where
  "sample_watermark n = \<lparr>wm_device_id = 9, wm_last_seen_at = sample_time_text 90, wm_applied_snapshot_seq = n,
     wm_applied_head = [], wm_client_version = [], wm_status = Active\<rparr>"

definition stored_snapshots :: objs where
  "stored_snapshots = put_raw (snapshot_key 3) [] (put_raw (snapshot_key 5) [] (put_raw (snapshot_metadata_key 5) [] []))"

definition sample_env :: engine_env where
  "sample_env = \<lparr>ee_os = ''linux'', ee_arch = ''x86_64'', ee_render = (\<lambda>_. Inr ''{}'')\<rparr>"

lemma sample_env_renders: "renders sample_env"
  by (simp add: renders_def sample_env_def)

definition sample_engine :: "objs \<Rightarrow> metadata_engine" where
  "sample_engine m = \<lparr>objects = m, events = [], now = 100, draws = 0, me_device_id = 7, me_logical_clock = 0\<rparr>"

definition sample_descriptor :: bucket_descriptor where
  "sample_descriptor = \<lparr>bd_bucket_id = 4, bd_schema_version = 1, bd_created_at = sample_time_text 1, bd_owner = ''me'',
     bd_capabilities = [''metadata_v1''], bd_min_client_version = ''0.0.1''\<rparr>"

definition stored_descriptor :: objs where
  "stored_descriptor = put_raw descriptor_key (json_of (json_descriptor sample_libs) sample_descriptor) []"

lemma sample_hex_ok: "hex_ok sample_libs"
  using sample_etag_digits [of "CHR ''/''"] by (auto simp: hex_ok_def is_digit_char_def sample_libs_def)

lemma search_loop_found:
  assumes "read_operation L i w = (Inr x, w)" "op_op_id x = i" "own x" "0 < n"
  shows "search_loop L target own floor n i None w = (Inr (Found x False), w)"
  using assms by (cases n) (simp_all add: io_try_apply io_return_apply)

lemma sample_search:
  assumes "op_target_file_id sample_op = Some t" "own sample_op"
  shows "search_chain sample_libs t own floor (loaded_log sample_bucket [sample_op])
    = (Inr (Found sample_op False), loaded_log sample_bucket [sample_op])"
proof -
  let ?w = "loaded_log sample_bucket [sample_op]"
  have "op_in sample_libs (objects ?w) (op_op_id sample_op) = Some sample_op"
    using committed_op_in [OF committed_sample, of sample_op] by (simp add: loaded_log_def sample_log_def)
  from op_in_read [OF this] have "read_operation sample_libs (op_op_id sample_op) ?w = (Inr sample_op, ?w)"
    by (simp add: read_operation_eq get_object_def serve_quiet loaded_log_def sample_log_def mem_get_object_def)
  then show ?thesis
    using assms search_loop_found [of sample_libs "op_op_id sample_op" ?w sample_op own]
    by (simp add: search_chain_def max_durable_walk_ops_def io_simps loaded_log_def del: sample_op_fields)
qed

lemma sample_superseded:
  "superseded sample_libs (op_op_id sample_op) 3 (sample_log sample_bucket) = (Inr False, loaded_log sample_bucket [sample_op])"
  using sample_search [of 3 "\<lambda>x. op_op_id x = op_op_id sample_op"]
  by (simp add: superseded_def io_bind_apply sample_load io_return_apply del: sample_op_fields(1,2))

lemma sample_latest:
  "latest_matching sample_libs 3 (\<lambda>x. ef_new_revision_id (op_effects x) \<noteq> None) (sample_log sample_bucket)
    = (Inr (Some sample_op), loaded_log sample_bucket [sample_op])"
proof -
  have "ef_new_revision_id (op_effects sample_op) \<noteq> None"
    by (simp add: sample_op_def sample_effects_def)
  then show ?thesis
    using sample_search [of 3 "\<lambda>x. op_target_file_id x = Some 3 \<and> ef_new_revision_id (op_effects x) \<noteq> None"]
    by (simp add: latest_matching_def io_bind_apply sample_load io_return_apply del: sample_op_fields(1,2))
qed

section \<open>A durable request\<close>

definition put_tombstone_version :: "tombstone_version \<Rightarrow> nat list" where
  "put_tombstone_version x = put_deletion (tv_tombstone x) @ put_str (tv_etag x)"

definition get_tombstone_version' :: "tombstone_version reader" where
  "get_tombstone_version' =
     bind_reader get_deletion (\<lambda>x0. bind_reader get_str (\<lambda>x1. yield \<lparr>tv_tombstone = x0, tv_etag = x1\<rparr>))"

lemma get_put_tombstone_version [simp]: "get_tombstone_version' (put_tombstone_version x @ r) = Some (x, r)"
  by (simp add: get_tombstone_version'_def put_tombstone_version_def)

definition put_receipt :: "receipt \<Rightarrow> nat list" where
  "put_receipt x =
     put_word (rc_version x) @ put_word (rc_workspace_id x) @ put_word (rc_request_id x) @ put_str (rc_payload_hash x)
      @ put_option put_str (rc_initial_base_head x) @ put_list put_operation (rc_attempts x)
      @ put_option put_str (rc_committed_op_id x) @ put_option put_tombstone_version (rc_observed_deletion x)"

definition get_receipt :: "receipt reader" where
  "get_receipt =
     bind_reader get_word (\<lambda>x0.
     bind_reader get_word (\<lambda>x1.
     bind_reader get_word (\<lambda>x2.
     bind_reader get_str (\<lambda>x3.
     bind_reader (get_option get_str) (\<lambda>x4.
     bind_reader (get_list get_operation) (\<lambda>x5.
     bind_reader (get_option get_str) (\<lambda>x6.
     bind_reader (get_option get_tombstone_version') (\<lambda>x7.
     yield \<lparr>rc_version = x0, rc_workspace_id = x1, rc_request_id = x2, rc_payload_hash = x3,
       rc_initial_base_head = x4, rc_attempts = x5, rc_committed_op_id = x6, rc_observed_deletion = x7\<rparr>))))))))"

definition sample_receipt_codec :: "receipt codec" where
  "sample_receipt_codec = text_codec put_receipt get_receipt"

lemma sample_receipt_codec_ok: "codec_ok sample_receipt_codec"
  unfolding sample_receipt_codec_def by (rule text_codec_ok) (simp add: get_receipt_def put_receipt_def)

definition sample_request :: request_identity where
  "sample_request = \<lparr>ri_workspace_id = 1, ri_request_id = 2, ri_payload_hash = ''h''\<rparr>"

definition sample_durable :: "remote_receipt durable" where
  "sample_durable = \<lparr>objects = [], events = [], now = 0, draws = 0, ol_device = 7, ol_clock = 0, ol_head = None,
     ol_etag = None, ol_loaded = False, du_journal = new_journal sample_request\<rparr>"

lemma sample_request_new:
  "request_new sample_libs sample_receipt_codec sample_request 16 [] sample_durable"
proof -
  have "map (uuid_now_v7 sample_libs) [0..<16] = [1, 2, 3, 4, 5, 6, 7, 8, 9, 10, 11, 12, 13, 14, 15, 16]"
    by (simp add: sample_libs_def upt_rec)
  then have "fresh_ids sample_libs 7 (own_objects []) 0 16"
    by (simp add: fresh_ids_def own_objects_def)
  then show ?thesis
    by (simp add: request_new_def sample_durable_def sample_receipt_codec_ok protocol_env_def committed_empty)
qed

end
