(* ===== verification/Local_Disk.thy ===== *)
theory Local_Disk
  imports Runtime Rust_Paths
begin

text \<open>
  The local file system as the mutation code uses it on Unix, and the helpers of
  \<open>fs_mutations/atomic.rs\<close>. A directory entry is a pair of the directory and a name;
  regular files are inodes, so that two names or an open handle can share their bytes.

  A system call is one atomic action. Before it, other programs may have changed the
  disk (\<open>xe_env\<close>), and it may fail without effect (\<open>xe_fault\<close>); the list \<open>disk_events\<close>
  decides both, and once it is used up calls run undisturbed. Directories opened by a
  handle are named by the path they were opened with.
\<close>

section \<open>Disks and system calls\<close>

type_synonym dir = "path_component list"
type_synonym dir_entry = "dir \<times> string"

datatype fs_node = Regular nat | Symbolic_Link | Directory | Special

record disk =
  names :: "dir_entry \<Rightarrow> fs_node option"
  bytes :: "nat \<Rightarrow> string"
  dirs :: "dir \<Rightarrow> bool"
  inodes :: nat

datatype io_kind = Not_Found | Already_Exists | Other_Kind

type_synonym io_failure = "io_kind \<times> string"
type_synonym 'a sys = "disk \<Rightarrow> (io_failure + 'a) \<times> disk"

definition no_entry :: io_failure where
  "no_entry = (Not_Found, ''No such file or directory (os error 2)'')"

definition entry_exists :: io_failure where
  "entry_exists = (Already_Exists, ''File exists (os error 17)'')"

definition is_directory :: io_failure where
  "is_directory = (Other_Kind, ''Is a directory (os error 21)'')"

definition too_many_links :: io_failure where
  "too_many_links = (Other_Kind, ''Too many levels of symbolic links (os error 40)'')"

definition sys_open_dir :: "dir \<Rightarrow> unit sys" where
  "sys_open_dir p d = (if dirs d p then Inr () else Inl no_entry, d)"

definition sys_stat :: "dir_entry \<Rightarrow> fs_node sys" where
  "sys_stat k d = (case names d k of None \<Rightarrow> Inl no_entry | Some n \<Rightarrow> Inr n, d)"

text \<open>An opened entry is its node, and links are not followed.\<close>

definition sys_open :: "dir_entry \<Rightarrow> fs_node sys" where
  "sys_open k d =
     (case names d k of
        None \<Rightarrow> Inl no_entry
      | Some Symbolic_Link \<Rightarrow> Inl too_many_links
      | Some n \<Rightarrow> Inr n, d)"

text \<open>Opening for writing fails for a directory.\<close>

definition sys_open_write :: "dir_entry \<Rightarrow> fs_node sys" where
  "sys_open_write k d =
     (case names d k of
        None \<Rightarrow> Inl no_entry
      | Some Symbolic_Link \<Rightarrow> Inl too_many_links
      | Some Directory \<Rightarrow> Inl is_directory
      | Some n \<Rightarrow> Inr n, d)"

definition sys_read :: "nat \<Rightarrow> string sys" where
  "sys_read i d = (Inr (bytes d i), d)"

definition sys_create_new :: "dir_entry \<Rightarrow> nat sys" where
  "sys_create_new k d =
     (if names d k \<noteq> None then (Inl entry_exists, d)
      else (Inr (inodes d), d\<lparr>names := (names d)(k \<mapsto> Regular (inodes d)),
              bytes := (bytes d)(inodes d := []), inodes := inodes d + 1\<rparr>))"

definition sys_write_all :: "nat \<Rightarrow> string \<Rightarrow> unit sys" where
  "sys_write_all i b d = (Inr (), d\<lparr>bytes := (bytes d)(i := bytes d i @ b)\<rparr>)"

definition sys_sync :: "unit sys" where
  "sys_sync d = (Inr (), d)"

text \<open>\<open>rename\<close> replaces a file; of two names of one file it keeps both.\<close>

definition sys_rename :: "dir_entry \<Rightarrow> dir_entry \<Rightarrow> unit sys" where
  "sys_rename k k' d =
     (case names d k of
        None \<Rightarrow> (Inl no_entry, d)
      | Some n \<Rightarrow>
          if names d k' = Some Directory \<and> n \<noteq> Directory then (Inl is_directory, d)
          else if names d k' = Some n then (Inr (), d)
          else (Inr (), d\<lparr>names := (names d)(k := None, k' := Some n)\<rparr>))"

definition sys_rename_new :: "dir_entry \<Rightarrow> dir_entry \<Rightarrow> unit sys" where
  "sys_rename_new k k' d =
     (case names d k of
        None \<Rightarrow> (Inl no_entry, d)
      | Some n \<Rightarrow>
          if names d k' \<noteq> None then (Inl entry_exists, d)
          else (Inr (), d\<lparr>names := (names d)(k := None, k' := Some n)\<rparr>))"

definition sys_exchange :: "dir_entry \<Rightarrow> dir_entry \<Rightarrow> unit sys" where
  "sys_exchange k k' d =
     (case (names d k, names d k') of
        (Some n, Some n') \<Rightarrow> (Inr (), d\<lparr>names := (names d)(k := Some n', k' := Some n)\<rparr>)
      | _ \<Rightarrow> (Inl no_entry, d))"

definition sys_unlink :: "dir_entry \<Rightarrow> unit sys" where
  "sys_unlink k d =
     (case names d k of
        None \<Rightarrow> (Inl no_entry, d)
      | Some Directory \<Rightarrow> (Inl is_directory, d)
      | Some _ \<Rightarrow> (Inr (), d\<lparr>names := (names d)(k := None)\<rparr>))"

lemmas sys_defs = sys_open_dir_def sys_stat_def sys_open_def sys_open_write_def sys_read_def sys_create_new_def
  sys_write_all_def sys_sync_def sys_rename_def sys_rename_new_def sys_exchange_def sys_unlink_def

section \<open>Calls among other programs\<close>

record disk_event =
  xe_env :: "disk \<Rightarrow> disk"
  xe_fault :: "string option"

record local_world =
  disk :: disk
  disk_events :: "disk_event list"
  fresh_uuids :: nat

definition call :: "'a sys \<Rightarrow> ('z local_world_scheme, io_failure, 'a) io" where
  "call f w =
     (case disk_events w of
        [] \<Rightarrow> (case f (disk w) of (r, d) \<Rightarrow> (r, w\<lparr>disk := d\<rparr>))
      | ev # evs \<Rightarrow>
          (case xe_fault ev of
             Some m \<Rightarrow> (Inl (Other_Kind, m), w\<lparr>disk := xe_env ev (disk w), disk_events := evs\<rparr>)
           | None \<Rightarrow> (case f (xe_env ev (disk w)) of (r, d) \<Rightarrow> (r, w\<lparr>disk := d, disk_events := evs\<rparr>))))"

fun io_error :: "io_failure \<Rightarrow> core_error" where
  "io_error (k, m) = FileSystem m"

definition or_io_error :: "('s, io_failure, 'a) io \<Rightarrow> ('s, core_error, 'a) io" where
  "or_io_error m = io_try m (\<lambda>r. case r of Inl e \<Rightarrow> io_throw (io_error e) | Inr x \<Rightarrow> io_return x)"

abbreviation do_call :: "'a sys \<Rightarrow> ('z local_world_scheme, core_error, 'a) io" where
  "do_call f \<equiv> or_io_error (call f)"

lemma io_bind_result_Inr: "io_bind (io_result (Inr x)) k = k x"
  by (rule ext) (simp add: io_simps)

section \<open>atomic.rs\<close>

definition sync_dir :: "('z local_world_scheme, core_error, unit) io" where
  "sync_dir = io_bind (do_call sys_sync) (\<lambda>_. do_call sys_sync)"

definition write_exclusive :: "dir_entry \<Rightarrow> string \<Rightarrow> ('z local_world_scheme, core_error, unit) io" where
  "write_exclusive k b =
     io_bind (do_call (sys_create_new k)) (\<lambda>i.
     io_bind (do_call (sys_write_all i b)) (\<lambda>_.
     io_bind (do_call sys_sync) (\<lambda>_. sync_dir)))"

definition read_optional :: "dir_entry \<Rightarrow> ('z local_world_scheme, core_error, string option) io" where
  "read_optional k =
     io_try (call (sys_stat k)) (\<lambda>r. case r of
         Inl e \<Rightarrow> if fst e = Not_Found then io_return None else io_throw (io_error e)
       | Inr n \<Rightarrow>
           if n = Symbolic_Link then io_throw SymlinkNotAllowed
           else io_bind (do_call (sys_open k)) (\<lambda>n. case n of
               Regular i \<Rightarrow> io_bind (do_call (sys_read i)) (\<lambda>b. io_return (Some b))
             | _ \<Rightarrow> io_throw (io_error is_directory)))"

text \<open>\<open>uuid_now_v7\<close> draws the temporary name.\<close>

definition temporary_name :: "libs \<Rightarrow> ('z local_world_scheme, core_error, string) io" where
  "temporary_name L w =
     (Inr (uuid_text L (uuid_now_v7 L (fresh_uuids w)) @ ''.tmp''), w\<lparr>fresh_uuids := fresh_uuids w + 1\<rparr>)"

definition replace_json :: "libs \<Rightarrow> dir \<Rightarrow> string \<Rightarrow> string \<Rightarrow> ('z local_world_scheme, core_error, unit) io" where
  "replace_json L p name b =
     io_bind (temporary_name L) (\<lambda>tmp.
     io_bind (write_exclusive (p, tmp) b) (\<lambda>_.
     io_bind (do_call (sys_rename (p, tmp) (p, name))) (\<lambda>_. sync_dir)))"

definition move_new :: "dir_entry \<Rightarrow> dir_entry \<Rightarrow> ('z local_world_scheme, core_error, unit) io" where
  "move_new k k' =
     io_try (call (sys_rename_new k k')) (\<lambda>r. case r of
         Inl e \<Rightarrow> if fst e = Already_Exists then io_throw (NameExists (snd k')) else io_throw (io_error e)
       | Inr _ \<Rightarrow> io_bind sync_dir (\<lambda>_. sync_dir))"

definition publish_new :: "dir_entry \<Rightarrow> dir_entry \<Rightarrow> ('z local_world_scheme, core_error, unit) io" where
  "publish_new = move_new"

definition exchange :: "dir_entry \<Rightarrow> dir_entry \<Rightarrow> ('z local_world_scheme, core_error, unit) io" where
  "exchange k k' = do_call (sys_exchange k k')"

text \<open>
  The opened file's metadata: its node and its size. \<open>take(limit + 1)\<close> bounds what is
  read of a file that grows after its size was checked.
\<close>

definition sys_metadata :: "fs_node \<Rightarrow> (fs_node \<times> u64) sys" where
  "sys_metadata n d = (Inr (n, case n of Regular i \<Rightarrow> of_nat (length (bytes d i)) | _ \<Rightarrow> 0), d)"

definition node_inode :: "fs_node \<Rightarrow> nat option" where
  "node_inode n = (case n of Regular i \<Rightarrow> Some i | _ \<Rightarrow> None)"

definition read_body_optional ::
    "dir_entry \<Rightarrow> u64 \<Rightarrow> (fs_node \<times> u64 \<Rightarrow> unit core_result)
      \<Rightarrow> ('z local_world_scheme, core_error, string option) io" where
  "read_body_optional k limit validate =
     io_try (call (sys_stat k)) (\<lambda>r.
       if r = Inr Symbolic_Link then io_throw SymlinkNotAllowed
       else
         io_try (call (sys_open k)) (\<lambda>r. case r of
             Inl e \<Rightarrow> if fst e = Not_Found then io_return None else io_throw (io_error e)
           | Inr n \<Rightarrow>
               io_bind (do_call (sys_metadata n)) (\<lambda>metadata.
                 case node_inode n of
                   None \<Rightarrow> io_throw OutsideNotes
                 | Some i \<Rightarrow>
                     if limit < snd metadata then io_throw (NoteTooLarge (snd metadata) limit)
                     else
                       io_bind (io_result (validate metadata)) (\<lambda>_.
                       io_bind (do_call (sys_read i)) (\<lambda>b.
                         let body = take (unat (limit + 1)) b
                         in if limit < of_nat (length body)
                            then io_throw (NoteTooLarge (of_nat (length body)) limit)
                            else io_return (Some body))))))"

end
