(* ===== verification/Publication.thy ===== *)
theory Publication
  imports Local_Disk
begin

text \<open>
  Publication of downloaded or merged bytes over a local file (\<open>fs_mutations/mod.rs\<close>):
  the token of the local content a decision was made against, and the exchange that
  replaces the file only if it still has that content. The properties are about what
  other programs write meanwhile.
\<close>

section \<open>LocalContentToken\<close>

datatype local_content_token = Missing | Hash string

definition stored_missing :: string where
  "stored_missing = ''missing''"

definition to_stored :: "local_content_token \<Rightarrow> string" where
  "to_stored t = (case t of Missing \<Rightarrow> stored_missing | Hash h \<Rightarrow> h)"

definition from_stored :: "string \<Rightarrow> local_content_token" where
  "from_stored s = (if s = stored_missing then Missing else Hash s)"

definition content_token :: "libs \<Rightarrow> string \<Rightarrow> local_content_token" where
  "content_token L b = Hash (''blake3:'' @ hex_text L (blake3_digest L b))"

definition not_regular_message :: string where
  "not_regular_message = ''The local item is not a regular file.''"

definition capture_in :: "libs \<Rightarrow> dir_entry \<Rightarrow> ('z local_world_scheme, core_error, local_content_token) io" where
  "capture_in L k =
     io_try (call (sys_stat k)) (\<lambda>r. case r of
         Inl e \<Rightarrow> if fst e = Not_Found then io_return Missing else io_throw (io_error e)
       | Inr Symbolic_Link \<Rightarrow> io_throw SymlinkNotAllowed
       | Inr (Regular _) \<Rightarrow>
           io_bind (do_call (sys_open k)) (\<lambda>n.
           io_bind (do_call (sys_metadata n)) (\<lambda>_.
             case node_inode n of
               None \<Rightarrow> io_throw (FileSystem not_regular_message)
             | Some i \<Rightarrow> io_bind (do_call (sys_read i)) (\<lambda>b. io_return (content_token L b))))
       | Inr _ \<Rightarrow> io_throw (FileSystem not_regular_message))"

text \<open>The parent of a bare name is the current directory.\<close>

definition publication_location :: "string \<Rightarrow> dir_entry core_result" where
  "publication_location p =
     (case path_file_name p of
        None \<Rightarrow> Inl (FileSystem ''A publication destination must have a file name.'')
      | Some name \<Rightarrow>
          (case path_parent p of
             Some (c # cs) \<Rightarrow> Inr (c # cs, name)
           | _ \<Rightarrow> Inr ([Cur_Dir], name)))"

definition capture :: "libs \<Rightarrow> string \<Rightarrow> ('z local_world_scheme, core_error, local_content_token) io" where
  "capture L p =
     io_bind (io_result (publication_location p)) (\<lambda>k.
     io_try (call (sys_open_dir (fst k))) (\<lambda>r. case r of
         Inl e \<Rightarrow> if fst e = Not_Found then io_return Missing else io_throw (io_error e)
       | Inr _ \<Rightarrow> capture_in L k))"

section \<open>Publication\<close>

definition rustix_publish_new :: "dir_entry \<Rightarrow> dir_entry \<Rightarrow> ('z local_world_scheme, core_error, unit) io" where
  "rustix_publish_new k k' =
     io_try (call (sys_rename_new k k')) (\<lambda>r. case r of
         Inl e \<Rightarrow> if fst e = Already_Exists then io_throw (NameExists (snd k')) else io_throw (io_error e)
       | Inr _ \<Rightarrow> io_return ())"

definition rustix_exchange :: "dir_entry \<Rightarrow> dir_entry \<Rightarrow> ('z local_world_scheme, core_error, unit) io" where
  "rustix_exchange k k' = do_call (sys_exchange k k')"

text \<open>\<open>NameExists\<close> of the move is a stale write of the caller.\<close>

definition stale_if_exists :: "file_id \<Rightarrow> ('s, core_error, 'a) io \<Rightarrow> ('s, core_error, 'a) io" where
  "stale_if_exists i m =
     io_try m (\<lambda>r. case r of
         Inl (NameExists _) \<Rightarrow> io_throw (StaleWrite i)
       | Inl e \<Rightarrow> io_throw e
       | Inr x \<Rightarrow> io_return x)"

text \<open>
  \<open>publish_checked_stage\<close> in three parts: opening and flushing the staged file, the
  move to a free name, and the exchange with the verification of what it displaced.
\<close>

definition prepare_stage ::
    "dir_entry \<Rightarrow> dir_entry \<Rightarrow> ('z local_world_scheme, core_error, unit) io" where
  "prepare_stage stage target =
     io_bind (do_call (sys_open_dir (fst stage))) (\<lambda>_.
     io_bind (do_call (sys_open_dir (fst target))) (\<lambda>_.
     io_bind (do_call (sys_stat stage)) (\<lambda>n.
       if node_inode n = None then io_throw (FileSystem ''Staging must be a regular file.'')
       else io_bind (do_call (sys_open_write stage)) (\<lambda>_. do_call sys_sync))))"

definition publish_missing ::
    "file_id \<Rightarrow> dir_entry \<Rightarrow> dir_entry \<Rightarrow> ('z local_world_scheme, core_error, 'a) io
      \<Rightarrow> ('z local_world_scheme, core_error, 'a) io" where
  "publish_missing i stage target after_publish =
     io_bind (stale_if_exists i (rustix_publish_new stage target)) (\<lambda>_.
     io_bind sync_dir (\<lambda>_.
     io_bind sync_dir (\<lambda>_. after_publish)))"

definition publish_exchange ::
    "libs \<Rightarrow> file_id \<Rightarrow> string \<Rightarrow> dir_entry \<Rightarrow> dir_entry \<Rightarrow> local_content_token
      \<Rightarrow> ('z local_world_scheme, core_error, 'a) io \<Rightarrow> ('z local_world_scheme, core_error, 'a) io" where
  "publish_exchange L i staged_path stage target expected after_publish =
     io_bind (rustix_exchange stage target) (\<lambda>_.
     io_bind sync_dir (\<lambda>_.
     io_bind sync_dir (\<lambda>_.
     io_bind (capture L staged_path) (\<lambda>displaced.
       if displaced \<noteq> expected then io_throw (StaleWrite i)
       else
         io_bind after_publish (\<lambda>x.
         io_bind (do_call (sys_unlink stage)) (\<lambda>_.
         io_bind sync_dir (\<lambda>_. io_return x)))))))"

definition publish_checked_stage ::
    "libs \<Rightarrow> string \<Rightarrow> string \<Rightarrow> local_content_token \<Rightarrow> file_id
      \<Rightarrow> ('z local_world_scheme, core_error, 'a) io \<Rightarrow> ('z local_world_scheme, core_error, 'a) io" where
  "publish_checked_stage L staged_path target_path expected i after_publish =
     (if path_components staged_path = path_components target_path
      then io_throw (FileSystem ''Staging must be separate from the local file.'')
      else
        io_bind (io_result (publication_location staged_path)) (\<lambda>stage.
        io_bind (io_result (publication_location target_path)) (\<lambda>target.
        io_bind (prepare_stage stage target) (\<lambda>_.
          if expected = Missing then publish_missing i stage target after_publish
          else publish_exchange L i staged_path stage target expected after_publish))))"

definition publish_staged_checked ::
    "libs \<Rightarrow> file_id \<Rightarrow> string \<Rightarrow> string \<Rightarrow> local_content_token \<Rightarrow> ('z local_world_scheme, core_error, unit) io
      \<Rightarrow> ('z local_world_scheme, core_error, 'a) io \<Rightarrow> ('z local_world_scheme, core_error, 'a) io" where
  "publish_staged_checked L i staged_path target_path expected validate_target after_publish =
     io_bind validate_target (\<lambda>_.
     io_bind (capture L target_path) (\<lambda>current.
       if current \<noteq> expected then io_throw (StaleWrite i)
       else publish_checked_stage L staged_path target_path expected i after_publish))"

definition publish_staged ::
    "libs \<Rightarrow> file_id \<Rightarrow> string \<Rightarrow> string \<Rightarrow> local_content_token \<Rightarrow> ('z local_world_scheme, core_error, 'a) io
      \<Rightarrow> ('z local_world_scheme, core_error, 'a) io" where
  "publish_staged L i staged_path target_path expected after_publish =
     publish_staged_checked L i staged_path target_path expected (io_return ()) after_publish"

section \<open>A save of another program during the publication\<close>

text \<open>An editor's atomic save: it renames the new file, inode \<open>j\<close>, over the target.\<close>

definition atomic_save :: "dir_entry \<Rightarrow> nat \<Rightarrow> string \<Rightarrow> disk \<Rightarrow> disk" where
  "atomic_save k j b d = d\<lparr>names := (names d)(k \<mapsto> Regular j), bytes := (bytes d)(j := b)\<rparr>"

definition named_at :: "dir_entry \<Rightarrow> nat \<Rightarrow> disk \<Rightarrow> bool" where
  "named_at k j d \<longleftrightarrow> names d k = Some (Regular j)"

definition kept :: "dir_entry \<Rightarrow> dir_entry \<Rightarrow> nat \<Rightarrow> string \<Rightarrow> disk \<Rightarrow> bool" where
  "kept s t j b d \<longleftrightarrow> (named_at s j d \<or> named_at t j d) \<and> bytes d j = b"

definition unnamed :: "dir_entry \<Rightarrow> dir_entry \<Rightarrow> nat \<Rightarrow> disk \<Rightarrow> bool" where
  "unnamed s t j d \<longleftrightarrow> \<not> named_at s j d \<and> \<not> named_at t j d"

text \<open>
  Other programs leave the staging name \<open>s\<close> alone; before the save the inode \<open>j\<close> is
  not in use, after it nobody replaces or rewrites the saved file.
\<close>

definition foreign :: "dir_entry \<Rightarrow> (disk \<Rightarrow> disk) \<Rightarrow> bool" where
  "foreign s e \<longleftrightarrow> (\<forall>d. names (e d) s = names d s)"

definition before_save :: "dir_entry \<Rightarrow> dir_entry \<Rightarrow> nat \<Rightarrow> disk_event \<Rightarrow> bool" where
  "before_save s t j ev \<longleftrightarrow> foreign s (xe_env ev) \<and> (\<forall>d. unnamed s t j d \<longrightarrow> unnamed s t j (xe_env ev d))"

definition after_save :: "dir_entry \<Rightarrow> dir_entry \<Rightarrow> nat \<Rightarrow> string \<Rightarrow> disk_event \<Rightarrow> bool" where
  "after_save s t j b ev \<longleftrightarrow> foreign s (xe_env ev) \<and> (\<forall>d. kept s t j b d \<longrightarrow> kept s t j b (xe_env ev d))"

text \<open>Either the save is still to come, or its file is kept under one of the two names.\<close>

definition save_pending ::
    "dir_entry \<Rightarrow> dir_entry \<Rightarrow> nat \<Rightarrow> string \<Rightarrow> disk_event list \<Rightarrow> 'z local_world_scheme \<Rightarrow> bool" where
  "save_pending s t j b later w \<longleftrightarrow>
     (\<exists>earlier ft. disk_events w = earlier @ \<lparr>xe_env = atomic_save t j b, xe_fault = ft\<rparr> # later
        \<and> list_all (before_save s t j) earlier \<and> list_all (after_save s t j b) later
        \<and> unnamed s t j (disk w))"

definition saved ::
    "dir_entry \<Rightarrow> dir_entry \<Rightarrow> nat \<Rightarrow> string \<Rightarrow> disk_event list \<Rightarrow> 'z local_world_scheme \<Rightarrow> bool" where
  "saved s t j b later w \<longleftrightarrow>
     kept s t j b (disk w) \<and> list_all (after_save s t j b) (disk_events w)
     \<and> length (disk_events w) \<le> length later"

definition save_safe ::
    "dir_entry \<Rightarrow> dir_entry \<Rightarrow> nat \<Rightarrow> string \<Rightarrow> disk_event list \<Rightarrow> 'z local_world_scheme \<Rightarrow> bool" where
  "save_safe s t j b later w \<longleftrightarrow> save_pending s t j b later w \<or> saved s t j b later w"

text \<open>Actions that neither lose the saved file nor bring its inode into use themselves.\<close>

definition harmless :: "dir_entry \<Rightarrow> dir_entry \<Rightarrow> nat \<Rightarrow> string \<Rightarrow> 'a sys \<Rightarrow> bool" where
  "harmless s t j b f \<longleftrightarrow>
     (\<forall>d. (kept s t j b d \<longrightarrow> kept s t j b (snd (f d))) \<and> (unnamed s t j d \<longrightarrow> unnamed s t j (snd (f d))))"

lemma harmless_reading [simp]:
  "harmless s t j b (sys_open_dir p)" "harmless s t j b (sys_stat k)" "harmless s t j b (sys_open k)"
  "harmless s t j b (sys_open_write k)" "harmless s t j b (sys_read i)" "harmless s t j b sys_sync"
  "harmless s t j b (sys_metadata n)"
  by (simp_all add: harmless_def sys_defs sys_metadata_def)

lemma harmless_moving [simp]:
  "harmless s t j b (sys_rename_new s t)" "harmless s t j b (sys_exchange s t)"
  by (auto simp: harmless_def sys_defs kept_def unnamed_def named_at_def split: option.splits)

lemma call_step:
  assumes "call f w = (r, w')"
  obtains (quiet) "disk_events w = []" "f (disk w) = (r, disk w')" "disk_events w' = []"
  | (failed) ev evs m where "disk_events w = ev # evs" "xe_fault ev = Some m" "r = Inl (Other_Kind, m)"
      "disk w' = xe_env ev (disk w)" "disk_events w' = evs"
  | (run) ev evs where "disk_events w = ev # evs" "xe_fault ev = None"
      "f (xe_env ev (disk w)) = (r, disk w')" "disk_events w' = evs"
  using assms by (auto simp: call_def split: list.splits option.splits prod.splits)

lemma save_pending_step:
  assumes "save_pending s t j b later w" "disk_events w = ev # evs" "disk_events w' = evs"
    and f: "\<And>d. kept s t j b d \<Longrightarrow> kept s t j b (f d)" "\<And>d. unnamed s t j d \<Longrightarrow> unnamed s t j (f d)"
    and w': "disk w' = f (xe_env ev (disk w))" and "s \<noteq> t"
  shows "save_safe s t j b later w'"
proof -
  obtain earlier ft where e: "ev # evs = earlier @ \<lparr>xe_env = atomic_save t j b, xe_fault = ft\<rparr> # later"
    "list_all (before_save s t j) earlier" "list_all (after_save s t j b) later" "unnamed s t j (disk w)"
    using assms(1,2) by (auto simp: save_pending_def)
  show ?thesis
  proof (cases earlier)
    case Nil
    then have "xe_env ev = atomic_save t j b" "evs = later" using e by auto
    moreover have "kept s t j b (atomic_save t j b (disk w))"
      by (simp add: kept_def named_at_def atomic_save_def)
    ultimately have "saved s t j b later w'" using f(1) w' e(3) assms(3) by (simp add: saved_def)
    then show ?thesis by (simp add: save_safe_def)
  next
    case (Cons x xs)
    then have x: "x = ev" "evs = xs @ \<lparr>xe_env = atomic_save t j b, xe_fault = ft\<rparr> # later" using e by auto
    then have "unnamed s t j (disk w')" using Cons e w' f(2) by (simp add: before_save_def)
    then have "save_pending s t j b later w'"
      using x Cons e assms(3) unfolding save_pending_def by auto
    then show ?thesis by (simp add: save_safe_def)
  qed
qed

lemma save_safe_call:
  assumes "harmless s t j b f" "s \<noteq> t"
  shows "hoare (save_safe s t j b later) (call f) (\<lambda>_. save_safe s t j b later :: 'z local_world_scheme \<Rightarrow> bool)"
proof (rule hoareI)
  fix w w' :: "'z local_world_scheme" and r
  assume P: "save_safe s t j b later w" and c: "call f w = (r, w')"
  have f: "\<And>d. kept s t j b d \<Longrightarrow> kept s t j b (snd (f d))" "\<And>d. unnamed s t j d \<Longrightarrow> unnamed s t j (snd (f d))"
    using assms(1) by (auto simp: harmless_def)
  from c show "save_safe s t j b later w'"
  proof (cases rule: call_step)
    case quiet
    then have "\<not> save_pending s t j b later w" by (simp add: save_pending_def)
    then have "saved s t j b later w" using P by (simp add: save_safe_def)
    then have "saved s t j b later w'" using quiet f(1) [of "disk w"] by (simp add: saved_def)
    then show ?thesis by (simp add: save_safe_def)
  next
    case (failed ev evs m)
    show ?thesis
    proof (cases "save_pending s t j b later w")
      case True
      from save_pending_step [OF this failed(1,5), of "\<lambda>d. d"] failed(4) assms(2) show ?thesis by simp
    next
      case False
      then have "saved s t j b later w" using P by (simp add: save_safe_def)
      then have "saved s t j b later w'" using failed by (simp add: saved_def after_save_def)
      then show ?thesis by (simp add: save_safe_def)
    qed
  next
    case (run ev evs)
    have d: "disk w' = snd (f (xe_env ev (disk w)))" using run by simp
    show ?thesis
    proof (cases "save_pending s t j b later w")
      case True
      from save_pending_step [OF this run(1,4), of "\<lambda>d. snd (f d)"] f d assms(2) show ?thesis by simp
    next
      case False
      then have "saved s t j b later w" using P by (simp add: save_safe_def)
      then have "saved s t j b later w'" using run d f(1) by (simp add: saved_def after_save_def)
      then show ?thesis by (simp add: save_safe_def)
    qed
  qed
qed

lemma hoare_do_call:
  "hoare P (call f) (\<lambda>r s. case r of Inl e \<Rightarrow> Q (Inl (io_error e)) s | Inr x \<Rightarrow> Q (Inr x) s) \<Longrightarrow> hoare P (do_call f) Q"
  by (fastforce simp: hoare_def or_io_error_def io_simps split: prod.splits sum.splits)

lemma save_safe_do_call:
  "harmless s t j b f \<Longrightarrow> s \<noteq> t \<Longrightarrow>
     hoare (save_safe s t j b later) (do_call f) (\<lambda>_. save_safe s t j b later :: 'z local_world_scheme \<Rightarrow> bool)"
  by (rule hoare_do_call, rule hoare_weaken [OF save_safe_call]) (auto split: sum.splits)

lemma save_safe_foreign:
  assumes "save_safe s t j b later w" "s \<noteq> t" "ev \<in> set (disk_events w)"
  shows "names (xe_env ev d) s = names d s"
  using assms
  by (auto simp: save_safe_def save_pending_def saved_def list_all_iff before_save_def after_save_def foreign_def
      atomic_save_def)

text \<open>With \<open>j\<close> at the staging name the save has happened and its bytes are there.\<close>

lemma save_safe_staged:
  "save_safe s t j b later w \<Longrightarrow> names (disk w) s = Some (Regular j) \<Longrightarrow> bytes (disk w) j = b"
  by (auto simp: save_safe_def save_pending_def saved_def unnamed_def named_at_def kept_def)

text \<open>Reading the staging directory while its name stays what it is.\<close>

definition staged_safe ::
    "dir_entry \<Rightarrow> dir_entry \<Rightarrow> nat \<Rightarrow> string \<Rightarrow> disk_event list \<Rightarrow> fs_node option \<Rightarrow> 'z local_world_scheme \<Rightarrow> bool"
    where
  "staged_safe s t j b later n w \<longleftrightarrow> save_safe s t j b later w \<and> names (disk w) s = n"

definition reads :: "'a sys \<Rightarrow> bool" where
  "reads f \<longleftrightarrow> (\<forall>d. snd (f d) = d)"

lemma reads_simps [simp]:
  "reads (sys_open_dir p)" "reads (sys_stat k)" "reads (sys_open k)" "reads (sys_open_write k)" "reads (sys_read i)"
  "reads sys_sync" "reads (sys_metadata n)"
  by (simp_all add: reads_def sys_defs sys_metadata_def)

lemma reads_harmless: "reads f \<Longrightarrow> harmless s t j b f"
  by (simp add: reads_def harmless_def)

lemma staged_safe_call:
  assumes "reads f" "s \<noteq> t"
  shows "hoare (staged_safe s t j b later n :: 'z local_world_scheme \<Rightarrow> bool) (call f)
    (\<lambda>r w. staged_safe s t j b later n w \<and> (r = fst (f (disk w)) \<or> (\<exists>m. r = Inl (Other_Kind, m))))"
proof (rule hoareI)
  fix w w' :: "'z local_world_scheme" and r
  assume "staged_safe s t j b later n w" and c: "call f w = (r, w')"
  then have P: "save_safe s t j b later w" "names (disk w) s = n" by (simp_all add: staged_safe_def)
  have safe: "save_safe s t j b later w'"
    by (rule hoareD [OF save_safe_call [OF reads_harmless [OF assms(1)] assms(2)] P(1) c])
  have env: "\<And>ev d. ev \<in> set (disk_events w) \<Longrightarrow> names (xe_env ev d) s = names d s"
    using save_safe_foreign P assms(2) by blast
  have f: "\<And>d r d'. f d = (r, d') \<Longrightarrow> d' = d" using assms(1) by (metis reads_def snd_conv)
  have "names (disk w') s = names (disk w) s \<and> (r = fst (f (disk w')) \<or> (\<exists>m. r = Inl (Other_Kind, m)))"
    using c
  proof (cases rule: call_step)
    case quiet
    with f [OF quiet(2)] show ?thesis by simp
  next
    case (failed ev evs m)
    with env [of ev] show ?thesis by simp
  next
    case (run ev evs)
    with f [OF run(3)] env [of ev] show ?thesis by simp
  qed
  then show "staged_safe s t j b later n w'
      \<and> (r = fst (f (disk w')) \<or> (\<exists>m. r = Inl (Other_Kind, m)))"
    using P safe by (simp add: staged_safe_def)
qed

lemma staged_safe_do_call:
  assumes "reads f" "s \<noteq> t" "staged_safe s t j b later n w" "do_call f w = (r, w')"
  shows "staged_safe s t j b later n w' \<and> (\<forall>x. r = Inr x \<longrightarrow> fst (f (disk w')) = Inr x)"
proof -
  obtain r1 w1 where c: "call f w = (r1, w1)" by (cases "call f w")
  from hoareD [OF staged_safe_call [OF assms(1,2)] assms(3) this] assms(4) c show ?thesis
    by (auto simp: or_io_error_def io_simps split: sum.splits)
qed

lemma capture_staged:
  assumes "s \<noteq> t" "content_token L b \<noteq> expected" "expected \<noteq> Missing"
    and P: "staged_safe s t j b later n w" and run: "capture_in L s w = (r, w')"
  shows "staged_safe s t j b later n w' \<and> (r = Inr expected \<longrightarrow> n \<noteq> Some (Regular j))"
proof -
  note do_call = staged_safe_do_call [OF _ assms(1)]
  obtain q w1 where q: "call (sys_stat s) w = (q, w1)" by (cases "call (sys_stat s) w")
  have P1: "staged_safe s t j b later n w1"
    using hoareD [OF staged_safe_call [OF _ assms(1)] P q] by simp
  show ?thesis
  proof (cases "\<exists>i. q = Inr (Regular i)")
    case False
    then show ?thesis
      using run q P1 assms(3)
      by (auto simp: capture_in_def io_simps split: sum.splits fs_node.splits if_splits)
  next
    case True
    then have run1: "io_bind (do_call (sys_open s)) (\<lambda>n. io_bind (do_call (sys_metadata n)) (\<lambda>_.
        case node_inode n of None \<Rightarrow> io_throw (FileSystem not_regular_message)
        | Some i \<Rightarrow> io_bind (do_call (sys_read i)) (\<lambda>b. io_return (content_token L b)))) w1 = (r, w')"
      using run q by (auto simp: capture_in_def io_try_apply)
    obtain q2 w2 where q2: "do_call (sys_open s) w1 = (q2, w2)" by (cases "do_call (sys_open s) w1")
    note P2 = do_call [OF _ P1 q2]
    show ?thesis
    proof (cases q2)
      case (Inl e)
      then show ?thesis using run1 q2 P2 by (auto simp: io_simps)
    next
      case (Inr x)
      then have x: "n = Some x"
        using P2 by (auto simp: sys_open_def staged_safe_def split: option.splits fs_node.splits)
      obtain q3 w3 where q3: "do_call (sys_metadata x) w2 = (q3, w3)" by (cases "do_call (sys_metadata x) w2")
      note P3 = do_call [OF _ _ q3]
      show ?thesis
      proof (cases "(q3, node_inode x)")
        case (Pair a c)
        then show ?thesis
        proof (cases "(\<exists>y. a = Inr y) \<and> (\<exists>i. c = Some i)")
          case False
          then show ?thesis
            using run1 q2 q3 Inr P2 P3 Pair by (auto simp: io_simps split: sum.splits option.splits)
        next
          case True
          then obtain i where i: "node_inode x = Some i" and "\<exists>y. q3 = Inr y" using Pair by auto
          then have xi: "x = Regular i" by (simp add: node_inode_def split: fs_node.splits)
          obtain q4 w4 where q4: "do_call (sys_read i) w3 = (q4, w4)" by (cases "do_call (sys_read i) w3")
          have P4: "staged_safe s t j b later n w4" "\<forall>y. q4 = Inr y \<longrightarrow> y = bytes (disk w4) i"
            using do_call [OF reads_simps(5) conjunct1 [OF P3 [OF reads_simps(7) conjunct1 [OF P2 [OF reads_simps(3)]]]] q4]
            by (auto simp: sys_read_def)
          have r: "w' = w4" "r = Inr expected \<Longrightarrow> \<exists>y. q4 = Inr y \<and> expected = content_token L y"
            using run1 q2 q3 q4 Inr i \<open>\<exists>y. q3 = Inr y\<close> by (auto simp: io_simps split: sum.splits)
          have "n \<noteq> Some (Regular j)" if ok: "r = Inr expected"
          proof
            assume n: "n = Some (Regular j)"
            then have "i = j" using x xi by simp
            moreover have "bytes (disk w4) j = b"
              using P4(1) save_safe_staged [of s t j b later w4] unfolding n staged_safe_def by blast
            ultimately show False using r(2) [OF ok] P4(2) assms(2) by auto
          qed
          then show ?thesis using P4 r by blast
        qed
      qed
    qed
  qed
qed

section \<open>Publishing around a save\<close>

text \<open>Callbacks of the caller, on its index: they leave the disk alone.\<close>

definition leaves_disk :: "('z local_world_scheme, 'e, 'a) io \<Rightarrow> bool" where
  "leaves_disk m \<longleftrightarrow> (\<forall>w. disk (snd (m w)) = disk w \<and> disk_events (snd (m w)) = disk_events w)"

lemma leaves_diskD:
  assumes "leaves_disk m" "m w = (r, w')"
  shows "disk w' = disk w" "disk_events w' = disk_events w"
  using assms by (metis leaves_disk_def snd_conv)+

lemma save_safe_same:
  "disk w' = disk w \<Longrightarrow> disk_events w' = disk_events w \<Longrightarrow> save_safe s t j b later w' = save_safe s t j b later w"
  by (simp add: save_safe_def save_pending_def saved_def)

definition keeps_save ::
    "dir_entry \<Rightarrow> dir_entry \<Rightarrow> nat \<Rightarrow> string \<Rightarrow> disk_event list \<Rightarrow> ('z local_world_scheme, 'e, 'a) io \<Rightarrow> bool" where
  "keeps_save s t j b later m \<longleftrightarrow> hoare (save_safe s t j b later) m (\<lambda>_. save_safe s t j b later)"

lemma keeps_saveD: "keeps_save s t j b later m \<Longrightarrow> save_safe s t j b later w \<Longrightarrow> m w = (r, w') \<Longrightarrow> save_safe s t j b later w'"
  by (auto simp: keeps_save_def hoare_def)

named_theorems keeps_save_intros \<open>what keeps a save of another program\<close>

lemma keeps_save_basic [keeps_save_intros]:
  "keeps_save s t j b later (io_return x)" "keeps_save s t j b later (io_throw e)"
  "keeps_save s t j b later (io_result r)"
  by (auto simp: keeps_save_def hoare_def io_simps)

lemma keeps_save_bind [keeps_save_intros]:
  "keeps_save s t j b later m \<Longrightarrow> (\<And>x. keeps_save s t j b later (k x)) \<Longrightarrow> keeps_save s t j b later (io_bind m k)"
  unfolding keeps_save_def by (rule hoare_bind) auto

lemma keeps_save_try [keeps_save_intros]:
  "keeps_save s t j b later m \<Longrightarrow> (\<And>r. keeps_save s t j b later (k r)) \<Longrightarrow> keeps_save s t j b later (io_try m k)"
  unfolding keeps_save_def by (rule hoare_try) auto

lemma keeps_save_call [keeps_save_intros]:
  "harmless s t j b f \<Longrightarrow> s \<noteq> t \<Longrightarrow> keeps_save s t j b later (call f)"
  "harmless s t j b f \<Longrightarrow> s \<noteq> t \<Longrightarrow> keeps_save s t j b later (do_call f)"
  unfolding keeps_save_def by (auto intro: save_safe_call save_safe_do_call)

lemma keeps_save_leaves: "leaves_disk m \<Longrightarrow> keeps_save s t j b later m"
  unfolding keeps_save_def by (rule hoareI) (metis leaves_diskD save_safe_same)

lemma keeps_save_capture_in: "s \<noteq> t \<Longrightarrow> keeps_save s t j b later (capture_in L k)"
  unfolding capture_in_def
  by (intro keeps_save_intros)
    (auto split: sum.split fs_node.split option.split intro!: keeps_save_intros)

lemma keeps_save_capture: "s \<noteq> t \<Longrightarrow> keeps_save s t j b later (capture L p)"
  unfolding capture_def
  by (intro keeps_save_intros)
    (auto split: sum.split intro!: keeps_save_intros keeps_save_capture_in)

lemma keeps_save_sync_dir: "s \<noteq> t \<Longrightarrow> keeps_save s t j b later sync_dir"
  unfolding sync_dir_def by (auto intro!: keeps_save_intros)

lemma keeps_save_prepare: "s \<noteq> t \<Longrightarrow> keeps_save s t j b later (prepare_stage s t)"
  unfolding prepare_stage_def by (intro keeps_save_intros) (auto intro!: keeps_save_intros)

lemma keeps_save_missing:
  assumes "s \<noteq> t" "leaves_disk A"
  shows "keeps_save s t j b later (publish_missing i s t A)"
  unfolding publish_missing_def stale_if_exists_def rustix_publish_new_def
  by (intro keeps_save_intros)
    (auto split: sum.split core_error.split
      intro!: keeps_save_intros keeps_save_sync_dir keeps_save_leaves [OF assms(2)] assms(1))

text \<open>The only removal: what the verification saw at the staging name.\<close>

lemma save_safe_unlink:
  assumes "s \<noteq> t" "staged_safe s t j b later n w" "n \<noteq> Some (Regular j)" "do_call (sys_unlink s) w = (r, w')"
  shows "save_safe s t j b later w'"
proof -
  have P: "save_safe s t j b later w" "names (disk w) s = n" using assms(2) by (simp_all add: staged_safe_def)
  let ?f = "\<lambda>d. if named_at s j d then (Inr (), d) else sys_unlink s d"
  have f: "harmless s t j b ?f"
    by (auto simp: harmless_def sys_unlink_def kept_def unnamed_def named_at_def split: option.split fs_node.split)
  have env: "\<And>ev. ev \<in> set (disk_events w) \<Longrightarrow> names (xe_env ev (disk w)) s = n"
    using save_safe_foreign P assms(1) by blast
  have "call (sys_unlink s) w = call ?f w"
    using env P(2) assms(3)
    by (auto simp: call_def named_at_def split: list.split option.split)
  then have "do_call ?f w = (r, w')" using assms(4) by (simp add: or_io_error_def io_try_apply)
  then show ?thesis using keeps_saveD [OF keeps_save_call(2) [OF f assms(1)] P(1)] by blast
qed

lemma keeps_save_exchange:
  assumes "s \<noteq> t" "leaves_disk A" "publication_location p = Inr s"
    and bad: "content_token L b \<noteq> expected" "expected \<noteq> Missing"
  shows "keeps_save s t j b later (publish_exchange L i p s t expected A)"
proof -
  let ?after = "\<lambda>displaced. if displaced \<noteq> expected then io_throw (StaleWrite i)
      else io_bind A (\<lambda>x. io_bind (do_call (sys_unlink s)) (\<lambda>_. io_bind sync_dir (\<lambda>_. io_return x)))"
  have finish: "keeps_save s t j b later (io_bind (capture L p) ?after)"
    unfolding keeps_save_def
  proof (rule hoareI)
    fix w w' and r
    assume safe: "save_safe s t j b later w" and run: "io_bind (capture L p) ?after w = (r, w')"
    obtain q w1 where q: "capture L p w = (q, w1)" by (cases "capture L p w")
    have safe1: "save_safe s t j b later w1" by (rule keeps_saveD [OF keeps_save_capture [OF assms(1)] safe q])
    show "save_safe s t j b later w'"
    proof (cases "q = Inr expected")
      case False
      then show ?thesis using run q safe1 by (auto simp: io_simps split: sum.splits if_splits)
    next
      case True
      obtain q0 w0 where q0: "call (sys_open_dir (fst s)) w = (q0, w0)" by (cases "call (sys_open_dir (fst s)) w")
      have "staged_safe s t j b later (names (disk w) s) w" using safe by (simp add: staged_safe_def)
      from hoareD [OF staged_safe_call [OF reads_simps(1) assms(1)] this q0]
      have P0: "staged_safe s t j b later (names (disk w) s) w0" by blast
      have "capture_in L s w0 = (Inr expected, w1)"
        using q True q0 bad(2) assms(3) by (auto simp: capture_def io_simps split: sum.splits if_splits)
      from capture_staged [OF assms(1) bad P0 this]
      have P1: "staged_safe s t j b later (names (disk w) s) w1" "names (disk w) s \<noteq> Some (Regular j)" by auto
      obtain q2 w2 where q2: "A w1 = (q2, w2)" by (cases "A w1")
      have P2: "staged_safe s t j b later (names (disk w) s) w2"
        using P1(1) leaves_diskD [OF assms(2) q2] save_safe_same [of w2 w1] by (simp add: staged_safe_def)
      obtain q3 w3 where q3: "do_call (sys_unlink s) w2 = (q3, w3)" by (cases "do_call (sys_unlink s) w2")
      have safe3: "save_safe s t j b later w3" by (rule save_safe_unlink [OF assms(1) P2 P1(2) q3])
      obtain q4 w4 where q4: "sync_dir w3 = (q4, w4)" by (cases "sync_dir w3")
      have "save_safe s t j b later w4" by (rule keeps_saveD [OF keeps_save_sync_dir [OF assms(1)] safe3 q4])
      then show ?thesis
        using run q True q2 q3 q4 P2 safe3
        by (auto simp: io_simps staged_safe_def split: sum.splits)
    qed
  qed
  show ?thesis
    unfolding publish_exchange_def rustix_exchange_def
    by (intro keeps_save_intros keeps_save_sync_dir finish assms(1)) simp
qed

lemma keeps_save_publish:
  assumes "leaves_disk V" "leaves_disk A" "publication_location p = Inr s" "publication_location q = Inr t" "s \<noteq> t"
    and "content_token L b \<noteq> expected"
  shows "keeps_save s t j b later (publish_staged_checked L i p q expected V A)"
  unfolding publish_staged_checked_def publish_checked_stage_def assms(3,4) io_bind_result_Inr
  by (auto intro!: keeps_save_intros keeps_save_leaves [OF assms(1)] keeps_save_capture keeps_save_prepare
      keeps_save_missing keeps_save_exchange assms)

section \<open>An undisturbed publication\<close>

lemma call_quiet: "disk_events w = [] \<Longrightarrow> call f w = (fst (f (disk w)), w\<lparr>disk := snd (f (disk w))\<rparr>)"
  by (simp add: call_def split: prod.splits)

lemma do_call_quiet:
  "disk_events w = [] \<Longrightarrow>
     do_call f w = (case fst (f (disk w)) of Inl e \<Rightarrow> Inl (io_error e) | Inr x \<Rightarrow> Inr x, w\<lparr>disk := snd (f (disk w))\<rparr>)"
  by (simp add: or_io_error_def io_simps call_quiet split: sum.splits)

lemma sync_dir_quiet: "disk_events w = [] \<Longrightarrow> sync_dir w = (Inr (), w)"
  by (simp add: sync_dir_def io_simps do_call_quiet sys_sync_def)

text \<open>The content of a name, as a token; what is not a regular file has none.\<close>

definition token_at :: "libs \<Rightarrow> dir_entry \<Rightarrow> disk \<Rightarrow> local_content_token option" where
  "token_at L k d =
     (case names d k of
        None \<Rightarrow> Some Missing
      | Some (Regular j) \<Rightarrow> Some (content_token L (bytes d j))
      | Some _ \<Rightarrow> None)"

lemma capture_quiet:
  assumes "disk_events w = []" "publication_location p = Inr k" "dirs (disk w) (fst k)" "token_at L k (disk w) = Some c"
  shows "capture L p w = (Inr c, w)"
  using assms
  by (auto simp: capture_def capture_in_def token_at_def io_simps call_quiet do_call_quiet sys_defs sys_metadata_def
      no_entry_def node_inode_def split: option.splits fs_node.splits)

lemma publish_stale_quiet:
  assumes "disk_events w = []" "V w = (Inr (), w)"
    and "publication_location q = Inr t" "dirs (disk w) (fst t)" "token_at L t (disk w) = Some c" "c \<noteq> expected"
  shows "publish_staged_checked L i p q expected V A w = (Inl (StaleWrite i), w)"
  using capture_quiet [OF assms(1,3,4,5)] assms(2,6) by (simp add: publish_staged_checked_def io_simps)

lemma prepare_quiet:
  assumes "disk_events w = []" "dirs (disk w) (fst s)" "dirs (disk w) (fst t)" "names (disk w) s = Some (Regular i0)"
  shows "prepare_stage s t w = (Inr (), w)"
  using assms by (simp add: prepare_stage_def io_simps do_call_quiet sys_defs node_inode_def)

definition published :: "dir_entry \<Rightarrow> dir_entry \<Rightarrow> fs_node option \<Rightarrow> disk \<Rightarrow> disk" where
  "published s t left d = d\<lparr>names := (names d)(t := names d s, s := left)\<rparr>"

lemma publish_quiet:
  fixes w :: "'z local_world_scheme"
  assumes w: "disk_events w = []" and V: "V w = (Inr (), w)" and A: "leaves_disk A"
    and loc: "publication_location p = Inr s" "publication_location q = Inr t" "s \<noteq> t"
    and paths: "path_components p \<noteq> path_components q"
    and dirs: "dirs (disk w) (fst s)" "dirs (disk w) (fst t)"
    and stage: "names (disk w) s = Some (Regular i0)" and tok: "token_at L t (disk w) = Some expected"
    and run: "publish_staged_checked L i p q expected V A w = (r, w')"
  shows "\<exists>v. r = fst (A (w\<lparr>disk := published s t v (disk w)\<rparr>))
    \<and> (v = None \<or> v = names (disk w) t)
    \<and> disk w' = published s t (case r of Inl _ \<Rightarrow> names (disk w) t | Inr _ \<Rightarrow> None) (disk w)"
proof -
  let ?m = "publish_checked_stage L p q expected i A"
  have run1: "?m w = (r, w')"
    using run capture_quiet [OF w loc(2) dirs(2) tok] V by (simp add: publish_staged_checked_def io_simps)
  show ?thesis
  proof (cases "expected = Missing")
    case True
    then have free: "names (disk w) t = None"
      using tok by (simp add: token_at_def content_token_def split: option.splits fs_node.splits)
    let ?w1 = "w\<lparr>disk := published s t None (disk w)\<rparr>"
    have swap: "(names (disk w))(s := None, t \<mapsto> Regular i0) = (names (disk w))(t \<mapsto> Regular i0, s := None)"
      using loc(3) by (simp add: fun_upd_twist)
    have m: "?m w = A ?w1"
      using True free stage paths loc w prepare_quiet [OF w dirs stage] swap
      by (simp add: publish_checked_stage_def io_bind_result_Inr io_simps publish_missing_def rustix_publish_new_def
          stale_if_exists_def call_quiet sys_rename_new_def sync_dir_quiet published_def)
    then have A1: "A ?w1 = (r, w')" using run1 by simp
    from leaves_diskD(1) [OF A this] show ?thesis
      using free by (intro exI [of _ None]) (simp add: A1 split: sum.splits)
  next
    case False
    then obtain j where j: "names (disk w) t = Some (Regular j)" "expected = content_token L (bytes (disk w) j)"
      using tok by (auto simp: token_at_def split: option.splits fs_node.splits)
    let ?d1 = "published s t (Some (Regular j)) (disk w)"
    let ?w1 = "w\<lparr>disk := ?d1\<rparr>"
    obtain ra w2 where ra: "A ?w1 = (ra, w2)" by (cases "A ?w1")
    then have w2: "disk w2 = ?d1" "disk_events w2 = []" using leaves_diskD [OF A ra] w by simp_all
    have "(names (disk w))(s \<mapsto> Regular j, t \<mapsto> Regular i0) = (names (disk w))(t \<mapsto> Regular i0, s \<mapsto> Regular j)"
      using loc(3) by (simp add: fun_upd_twist)
    then have ex: "rustix_exchange s t w = (Inr (), ?w1)"
      using stage j(1) w by (simp add: rustix_exchange_def do_call_quiet sys_exchange_def published_def)
    have cap: "capture L p ?w1 = (Inr expected, ?w1)"
      by (rule capture_quiet [OF _ loc(1)]) (use w dirs j(2) in \<open>simp_all add: published_def token_at_def\<close>)
    have unlink: "do_call (sys_unlink s) w2 = (Inr (), w2\<lparr>disk := published s t None (disk w)\<rparr>)"
      using w2 by (simp add: do_call_quiet sys_unlink_def published_def)
    have "?m w = (case ra of Inl e \<Rightarrow> (Inl e, w2) | Inr x \<Rightarrow> (Inr x, w2\<lparr>disk := published s t None (disk w)\<rparr>))"
      using False paths loc w prepare_quiet [OF w dirs stage] ex cap ra unlink w2(2)
      by (simp add: publish_checked_stage_def io_bind_result_Inr io_simps publish_exchange_def sync_dir_quiet
          split: sum.splits)
    then have "r = ra" "disk w' = published s t (case r of Inl _ \<Rightarrow> names (disk w) t | Inr _ \<Rightarrow> None) (disk w)"
      using run1 w2(1) j(1) by (auto split: sum.splits)
    then show ?thesis using ra j(1) by (intro exI [of _ "Some (Regular j)"]) simp
  qed
qed

end
