(* ===== verification/Entry_Locks.thy ===== *)
theory Entry_Locks
  imports Core_Types
begin

text \<open>
  The lock discipline of \<open>MutationCoordinator\<close> (\<open>fs_mutations/mod.rs\<close>): every local
  writer takes the lifecycle lock, the topology lock and the locks of its entries, in
  that order, the entries sorted and each once. Writers are threads that acquire their
  claims one after the other, run their action and drop their guards; a step is one
  acquisition or one release. A blocked writer may have to wait behind writers of the
  same lock that wait already, the strictest policy \<open>std::sync::RwLock\<close> allows.
\<close>

section \<open>Claims\<close>

datatype lock = Lifecycle | Topology | Entry uuid file_id

datatype claim_mode = Shared | Exclusive

type_synonym claim = "lock \<times> claim_mode"

text \<open>\<open>with_entries\<close> sorts and deduplicates the ids before it locks them in order.\<close>

definition entry_claims :: "uuid \<Rightarrow> file_id list \<Rightarrow> claim list" where
  "entry_claims workspace ids = map (\<lambda>i. (Entry workspace i, Exclusive)) (remdups_adj (sort ids))"

definition with_content_claims :: "uuid \<Rightarrow> file_id list \<Rightarrow> claim list" where
  "with_content_claims workspace ids = (Lifecycle, Shared) # (Topology, Shared) # entry_claims workspace ids"

definition with_topology_claims :: "uuid \<Rightarrow> file_id list \<Rightarrow> claim list" where
  "with_topology_claims workspace ids = (Lifecycle, Shared) # (Topology, Exclusive) # entry_claims workspace ids"

text \<open>The order of the locks, as a number that grows along the claims of a thread.\<close>

fun before :: "lock \<Rightarrow> lock \<Rightarrow> bool" where
  "before Lifecycle Lifecycle = False"
| "before Lifecycle _ = True"
| "before Topology (Entry _ _) = True"
| "before Topology _ = False"
| "before (Entry w i) (Entry v j) = (w < v \<or> w = v \<and> i < j)"
| "before (Entry _ _) _ = False"

lemma before_irrefl [simp]: "\<not> before l l"
  by (cases l) auto

lemma before_trans: "before a b \<Longrightarrow> before b c \<Longrightarrow> before a c"
  by (cases a; cases b; cases c) auto

lemma before_total: "a \<noteq> b \<Longrightarrow> before a b \<or> before b a"
  by (cases a; cases b) auto

instantiation lock :: linorder
begin

definition less_lock :: "lock \<Rightarrow> lock \<Rightarrow> bool" where
  "less_lock a b \<longleftrightarrow> before a b"

definition less_eq_lock :: "lock \<Rightarrow> lock \<Rightarrow> bool" where
  "less_eq_lock a b \<longleftrightarrow> a = b \<or> before a b"

instance
  by standard (auto simp: less_lock_def less_eq_lock_def dest: before_trans before_total)

end

text \<open>A thread's claims go up in this order: what it waits for is after all it holds.\<close>

definition ordered :: "claim list \<Rightarrow> bool" where
  "ordered cs \<longleftrightarrow> sorted_wrt (\<lambda>c d. fst c < fst d) cs"

lemma remdups_adj_strict: "sorted xs \<Longrightarrow> sorted_wrt (<) (remdups_adj (xs :: 'a :: linorder list))"
proof (induction xs rule: remdups_adj.induct)
  case (3 x y xs)
  have "x < z" if "x \<noteq> y" "z \<in> set (remdups_adj (y # xs))" for z
    using 3(3) that by auto
  then show ?case using 3 by simp
qed auto

lemma ordered_entries: "ordered (entry_claims workspace ids)"
  using remdups_adj_strict [of "sort ids"] by (simp add: ordered_def entry_claims_def sorted_wrt_map less_lock_def)

lemma ordered_with_content: "ordered (with_content_claims workspace ids)"
  and ordered_with_topology: "ordered (with_topology_claims workspace ids)"
  using ordered_entries [of workspace ids]
  by (auto simp: ordered_def with_content_claims_def with_topology_claims_def entry_claims_def less_lock_def)

section \<open>Threads\<close>

datatype thread =
    Acquiring "claim list" "claim list"
  | Releasing "claim list"

fun held :: "thread \<Rightarrow> claim list" where
  "held (Acquiring got todo) = got"
| "held (Releasing got) = got"

fun waits_for :: "thread \<Rightarrow> claim option" where
  "waits_for (Acquiring got (c # todo)) = Some c"
| "waits_for _ = None"

definition finished :: "thread \<Rightarrow> bool" where
  "finished t \<longleftrightarrow> t = Releasing []"

fun conflicts :: "claim \<Rightarrow> claim \<Rightarrow> bool" where
  "conflicts (l, m) (k, n) = (l = k \<and> (m = Exclusive \<or> n = Exclusive))"

definition others :: "thread list \<Rightarrow> nat \<Rightarrow> thread set" where
  "others ts i = {ts ! k | k. k < length ts \<and> k \<noteq> i}"

text \<open>
  Guards are dropped in the order Rust drops them: the vector of entry guards first,
  from its front, then the topology guard and the lifecycle guard.
\<close>

definition release_order :: "claim list \<Rightarrow> claim list" where
  "release_order got = drop 2 got @ rev (take 2 got)"

lemma release_order_simps [simp]: "set (release_order got) = set got" "length (release_order got) = length got"
proof -
  have "set (drop 2 got) \<union> set (take 2 got) = set got" by (metis Un_commute append_take_drop_id set_append)
  then show "set (release_order got) = set got" by (simp add: release_order_def)
  show "length (release_order got) = length got" by (simp add: release_order_def)
qed

text \<open>
  The lock can be taken: no thread holds it in a conflicting mode, the thread itself
  included, since neither lock is reentrant; and with writers preferred a reader does not
  pass a waiting writer.
\<close>

definition free_for :: "bool \<Rightarrow> thread list \<Rightarrow> nat \<Rightarrow> claim \<Rightarrow> bool" where
  "free_for writers_first ts i c \<longleftrightarrow>
     (\<forall>t \<in> set ts. \<not> list_ex (conflicts c) (held t))
   \<and> (writers_first \<and> snd c = Shared \<longrightarrow> (\<forall>t \<in> others ts i. waits_for t \<noteq> Some (fst c, Exclusive)))"

inductive lock_step :: "bool \<Rightarrow> thread list \<Rightarrow> thread list \<Rightarrow> bool" for writers_first where
  acquire: "i < length ts \<Longrightarrow> ts ! i = Acquiring got (c # todo) \<Longrightarrow> free_for writers_first ts i c \<Longrightarrow>
     lock_step writers_first ts (ts[i := Acquiring (got @ [c]) todo])"
| run_action: "i < length ts \<Longrightarrow> ts ! i = Acquiring got [] \<Longrightarrow> lock_step writers_first ts (ts[i := Releasing (release_order got)])"
| release: "i < length ts \<Longrightarrow> ts ! i = Releasing (c # got) \<Longrightarrow> lock_step writers_first ts (ts[i := Releasing got])"

inductive_cases lock_stepE: "lock_step writers_first ts us"

definition starting :: "claim list list \<Rightarrow> thread list" where
  "starting css = map (Acquiring []) css"

definition lock_run :: "bool \<Rightarrow> claim list list \<Rightarrow> thread list \<Rightarrow> bool" where
  "lock_run writers_first css ts \<longleftrightarrow> (lock_step writers_first)\<^sup>*\<^sup>* (starting css) ts"

section \<open>The invariant\<close>

fun claims_ordered :: "thread \<Rightarrow> bool" where
  "claims_ordered (Acquiring got todo) = ordered (got @ todo)"
| "claims_ordered (Releasing got) = True"

definition exclusive :: "thread list \<Rightarrow> bool" where
  "exclusive ts \<longleftrightarrow> (\<forall>i < length ts. \<forall>k < length ts. i \<noteq> k \<longrightarrow>
     (\<forall>c \<in> set (held (ts ! i)). \<forall>d \<in> set (held (ts ! k)). \<not> conflicts c d))"

definition locks_ok :: "thread list \<Rightarrow> bool" where
  "locks_ok ts \<longleftrightarrow> list_all claims_ordered ts \<and> exclusive ts"

lemma conflicts_sym: "conflicts c d = conflicts d c"
  by (cases c; cases d) auto

lemma exclusive_update:
  assumes "exclusive ts"
    and "\<And>t d. t \<in> others ts i \<Longrightarrow> d \<in> set (held t) \<Longrightarrow> \<forall>c \<in> set (held u). \<not> conflicts c d"
  shows "exclusive (ts[i := u])"
  unfolding exclusive_def
proof (intro allI impI ballI)
  fix a b c d
  assume *: "a < length (ts[i := u])" "b < length (ts[i := u])" "a \<noteq> b"
    and c: "c \<in> set (held (ts[i := u] ! a))" and d: "d \<in> set (held (ts[i := u] ! b))"
  have new: "\<not> conflicts x y" if "x \<in> set (held u)" "y \<in> set (held (ts ! k))" "k < length ts" "k \<noteq> i" for x y k
    using assms(2) [of "ts ! k" y] that by (auto simp: others_def)
  show "\<not> conflicts c d"
  proof (cases "a = i")
    case True
    then show ?thesis using * c d new [of c d b] by simp
  next
    case False
    show ?thesis
    proof (cases "b = i")
      case True
      then show ?thesis using * c d new [of d c a] False conflicts_sym [of c d] by simp
    next
      case b: False
      then show ?thesis using assms(1) * c d False by (simp add: exclusive_def)
    qed
  qed
qed

lemma locks_ok_start: "list_all ordered css \<Longrightarrow> locks_ok (starting css)"
  by (auto simp: locks_ok_def starting_def list_all_iff exclusive_def)

lemma others_held: "exclusive ts \<Longrightarrow> i < length ts \<Longrightarrow> t \<in> others ts i \<Longrightarrow> c \<in> set (held (ts ! i)) \<Longrightarrow>
    d \<in> set (held t) \<Longrightarrow> \<not> conflicts c d"
  by (auto simp: exclusive_def others_def)

lemma locks_ok_step:
  assumes "locks_ok ts" "lock_step writers_first ts us"
  shows "locks_ok us"
  using assms(2)
proof cases
  case (acquire i got c todo)
  have "ordered (got @ c # todo)"
    using assms(1) acquire(2,3) by (auto simp: locks_ok_def list_all_length)
  moreover have "exclusive (ts[i := Acquiring (got @ [c]) todo])"
  proof (rule exclusive_update)
    show "exclusive ts" using assms(1) by (simp add: locks_ok_def)
    fix t d
    assume "t \<in> others ts i" "d \<in> set (held t)"
    then show "\<forall>c' \<in> set (held (Acquiring (got @ [c]) todo)). \<not> conflicts c' d"
      using acquire others_held [OF \<open>exclusive ts\<close> acquire(2), of t _ d]
      by (auto simp: free_for_def list_ex_iff others_def)
  qed
  ultimately show ?thesis
    using assms(1) acquire by (auto simp: locks_ok_def list_all_length nth_list_update)
next
  case (run_action i got)
  have "exclusive (ts[i := Releasing (release_order got)])"
    by (rule exclusive_update)
      (use assms(1) run_action others_held [of ts i] in \<open>auto simp: locks_ok_def\<close>)
  then show ?thesis using assms(1) run_action by (auto simp: locks_ok_def list_all_length nth_list_update)
next
  case (release i c got)
  have "exclusive (ts[i := Releasing got])"
    by (rule exclusive_update)
      (use assms(1) release others_held [of ts i] in \<open>auto simp: locks_ok_def\<close>)
  then show ?thesis using assms(1) release by (auto simp: locks_ok_def list_all_length nth_list_update)
qed

lemma locks_ok_run: "list_all ordered css \<Longrightarrow> lock_run writers_first css ts \<Longrightarrow> locks_ok ts"
  unfolding lock_run_def
  by (erule rtranclp_induct [where P = locks_ok]) (auto intro: locks_ok_start locks_ok_step)

section \<open>Progress\<close>

lemma waiting_thread: "waits_for t = Some c \<longleftrightarrow> (\<exists>got todo. t = Acquiring got (c # todo))"
  by (cases t rule: waits_for.cases) auto

text \<open>What a waiting thread holds is before what it waits for.\<close>

lemma held_before_awaited:
  assumes "claims_ordered t" "waits_for t = Some c" "d \<in> set (held t)"
  shows "fst d < fst c"
proof -
  obtain got todo where "t = Acquiring got (c # todo)" using assms(2) by (auto simp: waiting_thread)
  then show ?thesis using assms by (auto simp: ordered_def sorted_wrt_append)
qed

text \<open>
  If no thread can run its action or release, a thread that waits for the greatest lock
  waited for can take it, an exclusive claim first.
\<close>

lemma greatest_claim_free:
  assumes ok: "locks_ok ts" and stuck: "\<forall>t \<in> set ts. finished t \<or> waits_for t \<noteq> None"
    and some: "t0 \<in> set ts" "\<not> finished t0"
  shows "\<exists>i < length ts. \<exists>c. waits_for (ts ! i) = Some c \<and> free_for writers_first ts i c"
proof -
  let ?W = "{l. \<exists>t \<in> set ts. \<exists>m. waits_for t = Some (l, m)}"
  let ?m = "Max ?W"
  have "?W \<subseteq> (\<lambda>t. fst (the (waits_for t))) ` set ts" by force
  then have fin: "finite ?W" by (rule finite_surj [OF finite_set])
  have "?W \<noteq> {}" using stuck some by fastforce
  then have "?m \<in> ?W" by (rule Max_in [OF fin])
  then obtain t1 mode1 where t1: "t1 \<in> set ts" "waits_for t1 = Some (?m, mode1)" by blast
  obtain t mode where t: "t \<in> set ts" "waits_for t = Some (?m, mode)"
    and first: "mode = Shared \<Longrightarrow> \<forall>u \<in> set ts. waits_for u \<noteq> Some (?m, Exclusive)"
  proof (cases "\<exists>u \<in> set ts. waits_for u = Some (?m, Exclusive)")
    case True
    then obtain u where "u \<in> set ts" "waits_for u = Some (?m, Exclusive)" by blast
    then show ?thesis by (rule that) simp
  next
    case False
    from t1 show ?thesis by (rule that) (use False in blast)
  qed
  obtain i where i: "i < length ts" "ts ! i = t" using t(1) by (metis in_set_conv_nth)
  have member: "u \<in> set ts" if "u \<in> others ts i" for u using that by (auto simp: others_def)
  have "\<not> conflicts (?m, mode) d" if u: "u \<in> set ts" and d: "d \<in> set (held u)" for u d
  proof
    assume "conflicts (?m, mode) d"
    then have m: "fst d = ?m" by (cases d) auto
    have "\<not> finished u" using d by (auto simp: finished_def)
    then obtain c where c: "waits_for u = Some c" using stuck u by blast
    have "claims_ordered u" using ok u by (auto simp: locks_ok_def list_all_iff)
    then have "?m < fst c" using held_before_awaited [OF _ c d] m by simp
    moreover have "fst c \<in> ?W" using c u by (cases c) auto
    ultimately show False using Max_ge [OF fin] by fastforce
  qed
  then have "free_for writers_first ts i (?m, mode)"
    using first member by (auto simp: free_for_def list_ex_iff)
  then show ?thesis using i t(2) by blast
qed

lemma lock_progress:
  assumes "locks_ok ts" "\<not> list_all finished ts"
  shows "\<exists>us. lock_step writers_first ts us"
proof -
  obtain t0 where t0: "t0 \<in> set ts" "\<not> finished t0" using assms(2) by (auto simp: list_all_iff)
  show ?thesis
  proof (cases "\<forall>t \<in> set ts. finished t \<or> waits_for t \<noteq> None")
    case True
    from greatest_claim_free [OF assms(1) this t0] show ?thesis
      by (auto simp: waiting_thread intro: lock_step.acquire)
  next
    case False
    then obtain i where i: "i < length ts" "\<not> finished (ts ! i)" "waits_for (ts ! i) = None"
      by (metis in_set_conv_nth)
    then consider got where "ts ! i = Acquiring got []" | c got where "ts ! i = Releasing (c # got)"
      by (cases "ts ! i" rule: waits_for.cases; auto simp: finished_def neq_Nil_conv)
    then show ?thesis by cases (use i(1) in \<open>auto intro: lock_step.run_action lock_step.release\<close>)
  qed
qed

section \<open>Length of a run\<close>

fun steps_left :: "thread \<Rightarrow> nat" where
  "steps_left (Acquiring got todo) = 2 * length todo + length got + 1"
| "steps_left (Releasing got) = length got"

definition total_left :: "thread list \<Rightarrow> nat" where
  "total_left ts = sum_list (map steps_left ts)"

lemma total_left_update:
  "i < length ts \<Longrightarrow> steps_left (ts ! i) = Suc (steps_left u) \<Longrightarrow> total_left ts = Suc (total_left (ts[i := u]))"
  unfolding total_left_def
proof (induction ts arbitrary: i)
  case (Cons t ts)
  then show ?case by (cases i) auto
qed simp

lemma lock_step_decreases: "lock_step writers_first ts us \<Longrightarrow> total_left ts = Suc (total_left us)"
  by (elim lock_step.cases) (auto intro!: total_left_update)

lemma lock_steps_bounded:
  "(lock_step writers_first ^^ n) ts us \<Longrightarrow> n + total_left us = total_left ts"
proof (induction n arbitrary: us)
  case (Suc n)
  then obtain vs where "(lock_step writers_first ^^ n) ts vs" "lock_step writers_first vs us" by auto
  then show ?case using Suc.IH lock_step_decreases by fastforce
qed auto

lemma lock_run_relpow: "(lock_step writers_first ^^ n) (starting css) ts \<Longrightarrow> lock_run writers_first css ts"
  unfolding lock_run_def by (metis rtranclp_power)

section \<open>Requests\<close>

datatype lock_request = Content uuid "file_id list" | Whole_Topology uuid "file_id list"

fun request_claims :: "lock_request \<Rightarrow> claim list" where
  "request_claims (Content workspace ids) = with_content_claims workspace ids"
| "request_claims (Whole_Topology workspace ids) = with_topology_claims workspace ids"

abbreviation requested :: "lock_request list \<Rightarrow> thread list" where
  "requested rs \<equiv> starting (map request_claims rs)"

lemma requests_ordered: "list_all ordered (map request_claims rs)"
proof -
  have "ordered (request_claims r)" for r
    by (cases r) (simp_all add: ordered_with_content ordered_with_topology)
  then show ?thesis by (simp add: list_all_iff)
qed

text \<open>A thread that holds an entry holds the topology lock in the mode of its request.\<close>

definition under_topology :: "claim list \<Rightarrow> bool" where
  "under_topology got \<longleftrightarrow> (\<forall>c \<in> set got. \<forall>w i. fst c = Entry w i \<longrightarrow> (\<exists>m. (Topology, m) \<in> set got))"

fun shaped :: "thread \<Rightarrow> bool" where
  "shaped (Acquiring got todo) = (\<forall>n. under_topology (take n (got @ todo)) \<and> under_topology (drop n (release_order (got @ todo))))"
| "shaped (Releasing got) = (\<forall>n. under_topology (drop n got))"

lemma entries_under_topology: "list_all (\<lambda>c. \<exists>w i. fst c = Entry w i) es \<Longrightarrow>
    shaped (Acquiring [] ((Lifecycle, a) # (Topology, m) # es))"
proof -
  have "under_topology (take n ((Lifecycle, a) # (Topology, m) # es))" for n
    by (cases n; cases "n - 1") (auto simp: under_topology_def)
  moreover have "under_topology (drop n (es @ [(Topology, m), (Lifecycle, a)]))" for n
    by (cases "n \<le> length es"; cases "n - length es")
      (auto simp: under_topology_def drop_Cons split: nat.splits)
  ultimately show ?thesis by (simp add: release_order_def numeral_2_eq_2)
qed

lemma shaped_requests: "list_all shaped (requested rs)"
proof -
  have "shaped (Acquiring [] (request_claims r))" for r
    by (cases r)
      (simp_all only: request_claims.simps with_content_claims_def with_topology_claims_def entry_claims_def,
        (rule entries_under_topology, simp add: list_all_iff)+)
  then show ?thesis by (simp add: starting_def list_all_iff)
qed

lemma shaped_step:
  assumes "list_all shaped ts" "lock_step writers_first ts us"
  shows "list_all shaped us"
  using assms(2)
proof cases
  case (acquire i got c todo)
  then have "shaped (Acquiring (got @ [c]) todo)" using assms(1) by (auto simp: list_all_length)
  then show ?thesis using assms(1) acquire by (auto simp: list_all_length nth_list_update)
next
  case (run_action i got)
  then have "shaped (Releasing (release_order got))" using assms(1) by (auto simp: list_all_length)
  then show ?thesis using assms(1) run_action by (auto simp: list_all_length nth_list_update)
next
  case (release i c got)
  then have "\<forall>n. under_topology (drop n (c # got))" using assms(1) by (auto simp: list_all_length)
  then have "shaped (Releasing got)" by (auto dest: spec [of _ "Suc _"])
  then show ?thesis using assms(1) release by (auto simp: list_all_length nth_list_update)
qed

lemma shaped_run: "lock_run writers_first (map request_claims rs) ts \<Longrightarrow> list_all shaped ts"
  unfolding lock_run_def
  by (erule rtranclp_induct [where P = "list_all shaped"]) (auto intro: shaped_requests shaped_step)

lemma shaped_held: "shaped t \<Longrightarrow> under_topology (held t)"
proof (cases t)
  case (Acquiring got todo)
  moreover assume "shaped t"
  ultimately have "under_topology (take (length got) (got @ todo))" by (auto simp del: take_append)
  then show ?thesis using Acquiring by simp
qed (auto dest: spec [of _ 0])

text \<open>Who holds the whole topology is alone with the entries of every workspace.\<close>

lemma topology_writer_alone:
  assumes "lock_run writers_first (map request_claims rs) ts" "i < length ts" "k < length ts" "i \<noteq> k"
    and "(Topology, Exclusive) \<in> set (held (ts ! i))" "c \<in> set (held (ts ! k))"
  shows "fst c = Lifecycle"
proof (cases "fst c")
  case Topology
  have "exclusive ts" using locks_ok_run [OF requests_ordered assms(1)] by (simp add: locks_ok_def)
  then have "\<not> conflicts (Topology, Exclusive) c" using assms(2-6) by (auto simp: exclusive_def)
  then show ?thesis using Topology by (cases c) auto
next
  case (Entry w e)
  have "exclusive ts" using locks_ok_run [OF requests_ordered assms(1)] by (simp add: locks_ok_def)
  moreover obtain m where "(Topology, m) \<in> set (held (ts ! k))"
    using shaped_run [OF assms(1)] assms(3,6) Entry shaped_held [of "ts ! k"]
    by (fastforce simp: list_all_length under_topology_def)
  ultimately show ?thesis using assms(2-5) by (fastforce simp: exclusive_def)
qed

lemma entry_holder_unique:
  assumes "lock_run writers_first (map request_claims rs) ts" "i < length ts" "k < length ts"
    and "(Entry w e, Exclusive) \<in> set (held (ts ! i))" "(Entry w e, Exclusive) \<in> set (held (ts ! k))"
  shows "i = k"
  using locks_ok_run [OF requests_ordered assms(1)] assms(2-)
  by (fastforce simp: locks_ok_def exclusive_def)

end
