(* ===== verification/Samples_Local.thy ===== *)
theory Samples_Local
  imports Publication Entry_Locks Sample_Libs
begin

text \<open>
  Small disks and runs on them, for the concrete instances of the properties of the
  local file system: the staged file \<open>s\<close> with new bytes and the target \<open>t\<close> with old
  ones in one directory, and a publication that expects the old ones.
\<close>

abbreviation sample_place :: "string \<Rightarrow> dir_entry" where
  "sample_place name \<equiv> ([Root_Dir, Normal ''d''], name)"

definition sample_disk :: disk where
  "sample_disk =
     \<lparr>names = Map.empty(sample_place ''s'' \<mapsto> Regular 0, sample_place ''t'' \<mapsto> Regular 1),
      bytes = (\<lambda>i. if i = 0 then ''new'' else ''old''),
      dirs = (\<lambda>p. p = [Root_Dir, Normal ''d'']), inodes = 2\<rparr>"

definition sample_local :: "disk_event list \<Rightarrow> local_world" where
  "sample_local evs = \<lparr>disk = sample_disk, disk_events = evs, fresh_uuids = 0\<rparr>"

definition idle_call :: disk_event where
  "idle_call = \<lparr>xe_env = id, xe_fault = None\<rparr>"

definition publish_sample :: "disk_event list \<Rightarrow> (core_error + unit) \<times> local_world" where
  "publish_sample evs =
     publish_staged_checked sample_libs 3 ''/d/s'' ''/d/t'' (content_token sample_libs ''old'')
       (io_return ()) (io_return ()) (sample_local evs)"

text \<open>A save that replaces the target, and one that writes into the old file.\<close>

definition sample_save :: disk_event where
  "sample_save = \<lparr>xe_env = atomic_save (sample_place ''t'') 9 ''edit'', xe_fault = None\<rparr>"

definition write_in_place :: "nat \<Rightarrow> string \<Rightarrow> disk_event" where
  "write_in_place j b = \<lparr>xe_env = (\<lambda>d. d\<lparr>bytes := (bytes d)(j := b)\<rparr>), xe_fault = None\<rparr>"

lemma sample_locations:
  "publication_location ''/d/s'' = Inr (sample_place ''s'')" "publication_location ''/d/t'' = Inr (sample_place ''t'')"
  by code_simp+

lemma leaves_disk_return [simp]: "leaves_disk (io_return x)"
  by (simp add: leaves_disk_def io_simps)

lemma idle_before_save: "before_save s t j idle_call"
  by (simp add: before_save_def foreign_def idle_call_def)

section \<open>Locks\<close>

text \<open>A content write of two entries and a topology change; the latter has two of its locks.\<close>

definition sample_requests :: "lock_request list" where
  "sample_requests = [Content 1 [5, 3, 5], Whole_Topology 1 [3]]"

definition sample_threads_mid :: "thread list" where
  "sample_threads_mid =
     [Acquiring [] (with_content_claims 1 [5, 3, 5]),
      Acquiring [(Lifecycle, Shared)] [(Topology, Exclusive), (Entry 1 3, Exclusive)]]"

definition sample_threads :: "thread list" where
  "sample_threads =
     [Acquiring [] (with_content_claims 1 [5, 3, 5]),
      Acquiring [(Lifecycle, Shared), (Topology, Exclusive)] [(Entry 1 3, Exclusive)]]"

lemma sample_threads_run:
  "lock_step True (requested sample_requests) sample_threads_mid" "lock_step True sample_threads_mid sample_threads"
proof -
  have starts: "requested sample_requests =
      [Acquiring [] (with_content_claims 1 [5, 3, 5]),
       Acquiring [] [(Lifecycle, Shared), (Topology, Exclusive), (Entry 1 3, Exclusive)]]"
    by (simp add: sample_requests_def starting_def with_topology_claims_def entry_claims_def)
  have other: "others [a, b] (Suc 0) = {a}" for a b
    by (auto simp: others_def less_Suc_eq intro: exI [of _ 0])
  show "lock_step True (requested sample_requests) sample_threads_mid"
    using lock_step.acquire [of 1 "requested sample_requests" "[]" "(Lifecycle, Shared)" _ True]
    by (simp add: starts other free_for_def with_content_claims_def sample_threads_mid_def)
  show "lock_step True sample_threads_mid sample_threads"
    using lock_step.acquire [of 1 sample_threads_mid "[(Lifecycle, Shared)]" "(Topology, Exclusive)" _ True]
    by (simp add: sample_threads_mid_def sample_threads_def other free_for_def)
qed

end
