(* ===== verification/Sync_Paths.thy ===== *)
theory Sync_Paths
  imports Conflicts Placement
begin

text \<open>
  The helpers of \<open>sync/mod.rs\<close> around paths and hashes: the mapping between local paths
  and keys relative to the sync folder, the ignore rules of the scanner, and the
  comparisons of revisions and hashes the sync passes decide by. \<open>canonicalize\<close> of the
  file system is a parameter.
\<close>

section \<open>Keys and local paths\<close>

definition path_strip_prefix :: "string \<Rightarrow> string \<Rightarrow> path_component list option" where
  "path_strip_prefix root p =
     (let cs = path_components p; rs = path_components root
      in if take (length rs) cs = rs then Some (drop (length rs) cs) else None)"

definition normal_names :: "path_component list \<Rightarrow> string list" where
  "normal_names cs = List.map_filter (\<lambda>c. case c of Normal w \<Rightarrow> Some w | _ \<Rightarrow> None) cs"

definition path_to_s3_key :: "path_component list \<Rightarrow> string" where
  "path_to_s3_key cs = str_join ''/'' (normal_names cs)"

definition outside_message :: "string \<Rightarrow> string \<Rightarrow> string" where
  "outside_message p root = p @ '' is outside sync folder '' @ root"

definition relative_s3_key :: "string \<Rightarrow> string \<Rightarrow> string core_result" where
  "relative_s3_key sync_folder p =
     (case path_strip_prefix sync_folder p of
        Some relative \<Rightarrow> Inr (path_to_s3_key relative)
      | None \<Rightarrow>
          (case strip_prefix sync_folder p of
             None \<Rightarrow> Inl (FileSystem (outside_message p sync_folder))
           | Some stripped \<Rightarrow>
               Inr (path_to_s3_key (path_components
                 (dropWhile (\<lambda>c. c = CHR ''/'' \<or> c = CHR 0x5C) stripped)))))"

definition remote_path_escapes :: "string \<Rightarrow> core_error" where
  "remote_path_escapes remote_path = Protocol (''remote path escapes sync folder: '' @ remote_path)"

fun safe_join_loop :: "string \<Rightarrow> path_component list \<Rightarrow> string \<Rightarrow> string core_result" where
  "safe_join_loop remote_path [] p = Inr p"
| "safe_join_loop remote_path (Normal part # cs) p = safe_join_loop remote_path cs (path_push p part)"
| "safe_join_loop remote_path (Cur_Dir # cs) p = safe_join_loop remote_path cs p"
| "safe_join_loop remote_path (_ # cs) p = Inl (remote_path_escapes remote_path)"

definition safe_join_sync_path :: "string \<Rightarrow> string \<Rightarrow> string core_result" where
  "safe_join_sync_path sync_folder remote_path =
     safe_join_loop remote_path (path_components remote_path) sync_folder"

definition same_path :: "(string \<Rightarrow> string option) \<Rightarrow> string \<Rightarrow> string \<Rightarrow> bool" where
  "same_path canonicalize left right \<longleftrightarrow>
     path_components left = path_components right
     \<or> (case (canonicalize left, canonicalize right) of
          (Some l, Some r) \<Rightarrow> path_components l = path_components r
        | _ \<Rightarrow> False)"

section \<open>What the scanner ignores\<close>

definition slashes :: "string \<Rightarrow> string" where
  "slashes s = map (\<lambda>c. if c = CHR 0x5C then CHR ''/'' else c) s"

text \<open>
  The text \<open>strip_prefix\<close> leaves: the rest of the path without separators and \<open>.\<close> at its
  ends.
\<close>

definition trivial_piece :: "string \<Rightarrow> bool" where
  "trivial_piece w \<longleftrightarrow> w = [] \<or> w = ''.''"

fun drop_pieces :: "nat \<Rightarrow> string list \<Rightarrow> string list" where
  "drop_pieces 0 ws = dropWhile trivial_piece ws"
| "drop_pieces (Suc n) [] = []"
| "drop_pieces (Suc n) (w # ws) = (if trivial_piece w then drop_pieces (Suc n) ws else drop_pieces n ws)"

definition relative_text :: "string \<Rightarrow> string \<Rightarrow> string option" where
  "relative_text root p =
     (if path_strip_prefix root p = None then None
      else if path_components root = [] then Some p
      else Some (str_join ''/'' (rev (dropWhile trivial_piece (rev
             (drop_pieces (length (filter (\<lambda>c. c \<noteq> Root_Dir \<and> c \<noteq> Cur_Dir) (path_components root)))
               (split_on (CHR ''/'') p)))))))"

definition matches_exclude_pattern :: "string \<Rightarrow> string \<Rightarrow> string list \<Rightarrow> bool" where
  "matches_exclude_pattern p root exclude_patterns \<longleftrightarrow>
     list_ex (\<lambda>raw.
       let pattern = trim_char (CHR ''/'') (trim raw) in
       pattern \<noteq> []
       \<and> (let normalized_pattern = slashes pattern;
              normalized_path = slashes p;
              relative_path = (case relative_text root p of Some r \<Rightarrow> slashes r | None \<Rightarrow> normalized_path)
          in case strip_prefix ''*'' normalized_pattern of
               Some ending \<Rightarrow>
                 (case path_file_name p of Some name \<Rightarrow> ends_with name ending | None \<Rightarrow> False)
             | None \<Rightarrow>
                 if CHR ''/'' \<in> set normalized_pattern then
                   relative_path = normalized_pattern
                   \<or> starts_with relative_path (normalized_pattern @ ''/'')
                   \<or> ends_with normalized_path (''/'' @ normalized_pattern)
                   \<or> str_contains normalized_path (''/'' @ normalized_pattern @ ''/'')
                 else Normal normalized_pattern \<in> set (path_components p)))
     exclude_patterns"

definition ignored_suffixes :: "string list" where
  "ignored_suffixes = [''~'', ''.tmp'', ''.swp'', ''.swx'', ''.goutputstream'']"

definition check_relative_path :: "path_component list \<Rightarrow> string \<Rightarrow> string \<Rightarrow> string list \<Rightarrow> bool" where
  "check_relative_path relative p root exclude_patterns \<longleftrightarrow>
     list_ex (\<lambda>c. case c of Normal name \<Rightarrow> starts_with name ''.'' \<or> name = ''node_modules'' | _ \<Rightarrow> False) relative
     \<or> (let name = option_default [] (path_file_name p)
        in starts_with name ''.'' \<or> list_ex (ends_with name) ignored_suffixes
           \<or> name \<in> {''Thumbs.db'', ''.DS_Store'', ''desktop.ini''})
     \<or> matches_exclude_pattern p root exclude_patterns"

definition should_ignore_sync_path ::
    "(string \<Rightarrow> string option) \<Rightarrow> string \<Rightarrow> string \<Rightarrow> string list \<Rightarrow> bool" where
  "should_ignore_sync_path canonicalize p root exclude_patterns =
     (let resolved = (if root = [] then None
        else case path_strip_prefix root p of
            Some relative \<Rightarrow> Some relative
          | None \<Rightarrow>
              (case (canonicalize p, canonicalize root) of
                 (Some q, Some r) \<Rightarrow> path_strip_prefix r q
               | _ \<Rightarrow> None))
      in check_relative_path (option_default (path_components p) resolved) p root exclude_patterns)"

definition should_ignore_sync_with_excludes ::
    "(string \<Rightarrow> string option) \<Rightarrow> string \<Rightarrow> string list \<Rightarrow> bool" where
  "should_ignore_sync_with_excludes canonicalize p exclude_patterns =
     should_ignore_sync_path canonicalize p [] exclude_patterns"

definition should_ignore_sync :: "(string \<Rightarrow> string option) \<Rightarrow> string \<Rightarrow> bool" where
  "should_ignore_sync canonicalize p = should_ignore_sync_with_excludes canonicalize p []"

section \<open>Hashes, revisions, errors\<close>

function trim_start_matches :: "string \<Rightarrow> string \<Rightarrow> string" where
  "trim_start_matches pat s =
     (if pat \<noteq> [] \<and> starts_with s pat then trim_start_matches pat (drop (length pat) s) else s)"
  by pat_completeness auto
termination
  by (relation "measure (\<lambda>(pat, s). length s)") (auto simp: starts_with_iff)

declare trim_start_matches.simps [simp del]

definition raw_hash :: "string \<Rightarrow> string" where
  "raw_hash h = trim_start_matches ''blake3:'' h"

definition blake3_local_hash :: "string \<Rightarrow> string" where
  "blake3_local_hash h = ''blake3:'' @ raw_hash h"

definition content_hash_matches :: "string option \<Rightarrow> string \<Rightarrow> bool" where
  "content_hash_matches stored h = (case stored of None \<Rightarrow> False | Some s \<Rightarrow> raw_hash s = raw_hash h)"

definition hash_from_blob_key :: "string \<Rightarrow> string option" where
  "hash_from_blob_key s3_key =
     (let h = last (split_on (CHR ''/'') s3_key) in if h = [] then None else Some h)"

definition parent_revision_from_history :: "file_entry \<Rightarrow> revision_id option" where
  "parent_revision_from_history x =
     (case fe_current_revision_id x of
        None \<Rightarrow> None
      | Some current \<Rightarrow> find (\<lambda>r. r \<noteq> current) (rev (fe_version_history x)))"

definition with_latest_revision :: "file_entry \<Rightarrow> operation option \<Rightarrow> file_entry" where
  "with_latest_revision x latest =
     (case Option.bind latest (\<lambda>y. ef_new_revision_id (op_effects y)) of
        None \<Rightarrow> x
      | Some r \<Rightarrow>
          if fe_current_revision_id x \<noteq> Some r
          then x\<lparr>fe_current_revision_id := Some r,
                 fe_content_ref := Option.bind latest (\<lambda>y. ef_new_content_ref (op_effects y)),
                 fe_content_hash := None\<rparr>
          else x)"

definition remote_revision_diverged :: "revision_id option \<Rightarrow> file_entry \<Rightarrow> string \<Rightarrow> bool" where
  "remote_revision_diverged parent remote local_hash =
     (case (parent, fe_current_revision_id remote) of
        (Some p, Some r) \<Rightarrow>
          p \<noteq> r
          \<and> \<not> content_hash_matches
                (case fe_content_ref remote of Some c \<Rightarrow> Some (cr_hash c) | None \<Rightarrow> fe_content_hash remote)
                local_hash
      | _ \<Rightarrow> False)"

definition is_conflict_error :: "libs \<Rightarrow> core_error \<Rightarrow> bool" where
  "is_conflict_error L e \<longleftrightarrow>
     is_Conflict e \<or> str_contains (core_error_text e) ''412'' \<or> str_contains (core_error_text e) ''409''
     \<or> str_contains (unicode_lowercase L (core_error_text e)) ''precondition''"

text \<open>Seconds to wait before the next try of a transfer.\<close>

definition retry_backoff :: "u32 \<Rightarrow> u64" where
  "retry_backoff retry_count = push_bit (unat (min (if retry_count = 0 then 0 else retry_count - 1) 5)) 1"

section \<open>File system events\<close>

datatype fs_event =
    Created string
  | Modified string
  | Deleted string
  | Renamed string string

text \<open>The proper ancestors of a path, as component lists.\<close>

definition inner_ancestors :: "string \<Rightarrow> path_component list list" where
  "inner_ancestors p =
     (let cs = path_components p; shortest = (if take 1 cs = [Root_Dir] then 1 else 0)
      in map (\<lambda>n. take n cs) (rev [shortest..<length cs]))"

definition drop_deletes_inside_deleted_folders :: "fs_event list \<Rightarrow> fs_event list" where
  "drop_deletes_inside_deleted_folders evs =
     (let deleted = List.map_filter (\<lambda>ev. case ev of Deleted p \<Rightarrow> Some (path_components p) | _ \<Rightarrow> None) evs
      in filter (\<lambda>ev. case ev of
            Deleted p \<Rightarrow> \<not> list_ex (\<lambda>a. a \<in> set deleted) (inner_ancestors p)
          | _ \<Rightarrow> True) evs)"

section \<open>Paths inside the sync folder\<close>

lemma split_on_append: "split_on d (a @ d # b) = split_on d a @ split_on d b"
proof (induction a)
  case (Cons c a)
  then show ?case by (cases "split_on d a") auto
qed simp

lemma body_components_append: "body_components (xs @ ys) = body_components xs @ body_components ys"
  by (simp add: body_components_def)

lemma body_components_plain: "list_all plain_name ws \<Longrightarrow> body_components ws = map Normal ws"
  by (induction ws) (auto simp: body_components_def plain_name_def)

lemma path_components_push:
  assumes "plain_name w"
  shows "path_components (path_push p w) = path_components p @ [Normal w]"
proof -
  have w: "split_on (CHR ''/'') w = [w]" "w \<noteq> []"
    using assms split_on_no_sep [of "CHR ''/''" w] by (auto simp: plain_name_def)
  then have hd_w: "hd w \<noteq> CHR ''/''" using assms hd_in_set [of w] by (metis plain_name_def)
  have body: "body_components [w] = [Normal w]" using body_components_plain [of "[w]"] assms by simp
  consider (empty) "p = []" | (slash) q where "p = q @ ''/''" | (other) "p \<noteq> []" "last p \<noteq> CHR ''/''"
    by (cases p rule: rev_cases) auto
  then show ?thesis
  proof cases
    case empty
    then show ?thesis
      using w hd_w body assms by (auto simp: path_push_def path_components_def plain_name_def body_components_def)
  next
    case slash
    then have push: "path_push p w = q @ CHR ''/'' # w" using w hd_w by (simp add: path_push_def)
    have pieces: "split_on (CHR ''/'') (q @ CHR ''/'' # w) = split_on (CHR ''/'') q @ [w]"
      "split_on (CHR ''/'') p = split_on (CHR ''/'') q @ [[]]"
      using w slash by (simp_all add: split_on_append)
    have "body_components [[]] = []" by (simp add: body_components_def)
    then show ?thesis
      unfolding push path_components_def Let_def pieces
      using slash body by (auto simp: body_components_append hd_append)
  next
    case other
    then have push: "path_push p w = p @ CHR ''/'' # w" using w hd_w by (simp add: path_push_def)
    have pieces: "split_on (CHR ''/'') (p @ CHR ''/'' # w) = split_on (CHR ''/'') p @ [w]"
      using w by (simp add: split_on_append)
    show ?thesis
      unfolding push path_components_def Let_def pieces
      using other body by (auto simp: body_components_append hd_append)
  qed
qed

lemma path_components_pushes:
  "list_all plain_name ws \<Longrightarrow> path_components (foldl path_push p ws) = path_components p @ map Normal ws"
  by (induction ws arbitrary: p) (auto simp: path_components_push)

lemma normal_names_simps [simp]:
  "normal_names [] = []" "normal_names (Normal w # cs) = w # normal_names cs"
  "normal_names (Cur_Dir # cs) = normal_names cs" "normal_names (map Normal ws) = ws"
  by (induction ws) (auto simp: normal_names_def map_filter_simps)

lemma safe_join_loop_pushes:
  "safe_join_loop r cs p =
     (if Parent_Dir \<in> set cs \<or> Root_Dir \<in> set cs then Inl (remote_path_escapes r)
      else Inr (foldl path_push p (normal_names cs)))"
  by (induction r cs p rule: safe_join_loop.induct) auto

lemma normal_names_plain: "list_all plain_name (normal_names (path_components p))"
  using path_components_normal [of _ p]
  by (auto simp: list_all_iff normal_names_def map_filter_def plain_name_def split: path_component.splits)

lemma safe_join_components:
  assumes "safe_join_sync_path folder key = Inr p"
  shows "path_components p = path_components folder @ map Normal (normal_names (path_components key))"
  using assms path_components_pushes [OF normal_names_plain, of folder key]
  by (auto simp: safe_join_sync_path_def safe_join_loop_pushes split: if_splits)

lemma relative_key_of_join:
  assumes "safe_join_sync_path folder key = Inr p"
  shows "relative_s3_key folder p = Inr (path_text (normal_names (path_components key)))"
  by (simp add: relative_s3_key_def path_strip_prefix_def safe_join_components [OF assms] Let_def path_to_s3_key_def
      path_text_def)

lemma path_components_text:
  assumes "list_all plain_name ws"
  shows "path_components (path_text ws) = map Normal ws"
proof (cases "ws = []")
  case True
  then show ?thesis by (simp add: path_components_def body_components_def)
next
  case False
  have comps: "list_all component ws" using assms by (auto simp: list_all_iff component_def plain_name_def)
  have split: "split_on (CHR ''/'') (path_text ws) = ws" by (rule path_text_split [OF comps False])
  have "hd ws \<noteq> ''.''" using assms False by (cases ws) (auto simp: plain_name_def)
  moreover have "hd (path_text ws) \<noteq> CHR ''/''" by (rule path_text_ends [OF False comps])
  ultimately show ?thesis by (simp add: path_components_def split body_components_plain [OF assms])
qed

lemma safe_join_text:
  "list_all plain_name ws \<Longrightarrow> safe_join_sync_path folder (path_text ws) = Inr (foldl path_push folder ws)"
  by (auto simp: safe_join_sync_path_def safe_join_loop_pushes path_components_text)

end
