(* ===== verification/Watcher.thy ===== *)
theory Watcher
  imports Sync_Paths
begin

text \<open>
  The stream of file system events (\<open>watcher.rs\<close>): what a notification becomes, how the
  halves of a rename wait for their pair, which renames are dropped as round trips, and
  how edits follow the renames after them. A notification of the crate \<open>notify\<close> is its
  kind and its paths; a moment is a number of milliseconds.
\<close>

section \<open>Notifications\<close>

datatype notify_kind =
    Kind_Create | Kind_Name_Both | Kind_Name_From | Kind_Name_To | Kind_Modify | Kind_Remove | Kind_Other

record notification =
  nt_kind :: notify_kind
  nt_paths :: "string list"

datatype raw_event = Ready fs_event | Rename_From string | Rename_To string

fun event_path :: "fs_event \<Rightarrow> string" where
  "event_path (Created p) = p"
| "event_path (Modified p) = p"
| "event_path (Deleted p) = p"
| "event_path (Renamed p q) = q"

fun event_type :: "fs_event \<Rightarrow> string" where
  "event_type (Created p) = ''created''"
| "event_type (Modified p) = ''modified''"
| "event_type (Deleted p) = ''deleted''"
| "event_type (Renamed p q) = ''renamed''"

definition should_ignore_path :: "string \<Rightarrow> bool" where
  "should_ignore_path p \<longleftrightarrow>
     list_ex (\<lambda>c. case c of Normal name \<Rightarrow> starts_with name ''.'' \<or> name = ''node_modules'' | _ \<Rightarrow> False)
       (path_components p)
     \<or> (let name = option_default [] (path_file_name p)
        in starts_with name ''.'' \<and> \<not> starts_with name ''.s4drive''
           \<or> list_ex (ends_with name) [''~'', ''.tmp'', ''.swp'', ''.swx'']
           \<or> name \<in> {''Thumbs.db'', ''.DS_Store'', ''desktop.ini'', ''node_modules''})"

definition is_internal_staging :: "string \<Rightarrow> bool" where
  "is_internal_staging p \<longleftrightarrow>
     (case path_file_name p of
        Some name \<Rightarrow> starts_with name ''.s4drive_staging'' \<or> str_contains name ''.s4drive-restore-''
      | None \<Rightarrow> False)"

definition visible_event :: "string \<Rightarrow> (string \<Rightarrow> raw_event) \<Rightarrow> raw_event option" where
  "visible_event p build = (if should_ignore_path p then None else Some (build p))"

definition convert_rename_event :: "string list \<Rightarrow> fs_event option" where
  "convert_rename_event ps =
     (case ps of
        p # q # _ \<Rightarrow>
          if is_internal_staging q then None
          else (case (should_ignore_path p, should_ignore_path q) of
              (True, True) \<Rightarrow> None
            | (True, False) \<Rightarrow> Some (Created q)
            | (False, True) \<Rightarrow> Some (Deleted p)
            | (False, False) \<Rightarrow> Some (Renamed p q))
      | _ \<Rightarrow> None)"

definition convert_notify_event :: "notification \<Rightarrow> raw_event option" where
  "convert_notify_event e =
     (if nt_kind e = Kind_Name_Both then map_option Ready (convert_rename_event (nt_paths e))
      else case nt_paths e of
        [] \<Rightarrow> None
      | p # _ \<Rightarrow>
          (case nt_kind e of
             Kind_Name_From \<Rightarrow> visible_event p Rename_From
           | Kind_Name_To \<Rightarrow> visible_event p Rename_To
           | Kind_Create \<Rightarrow> visible_event p (\<lambda>p. Ready (Created p))
           | Kind_Modify \<Rightarrow> visible_event p (\<lambda>p. Ready (Modified p))
           | Kind_Remove \<Rightarrow> visible_event p (\<lambda>p. Ready (Deleted p))
           | _ \<Rightarrow> None))"

section \<open>Round trips\<close>

text \<open>The positions of the current chain of renames, and the positions to drop.\<close>

type_synonym trips = "nat list \<times> nat set"

definition leads_to :: "fs_event list \<Rightarrow> nat \<Rightarrow> string \<Rightarrow> bool" where
  "leads_to events prior p \<longleftrightarrow> (case events ! prior of Renamed q r \<Rightarrow> r = p | _ \<Rightarrow> False)"

definition leaves_from :: "fs_event list \<Rightarrow> nat \<Rightarrow> string \<Rightarrow> bool" where
  "leaves_from events prior p \<longleftrightarrow> (case events ! prior of Renamed q r \<Rightarrow> q = p | _ \<Rightarrow> False)"

definition trip_step :: "fs_event list \<Rightarrow> nat \<times> fs_event \<Rightarrow> trips \<Rightarrow> trips" where
  "trip_step events ie s =
     (let (index, event) = ie; (chain, dropped) = s in
      case event of
        Renamed p q \<Rightarrow>
          (let chain = (if chain \<noteq> [] \<and> leads_to events (last chain) p then chain else []);
               start = length (takeWhile (\<lambda>prior. \<not> leaves_from events prior q) chain)
           in if start < length chain
              then (take start chain, dropped \<union> set (drop start chain) \<union> {index})
              else (chain @ [index], dropped))
      | _ \<Rightarrow> ([], dropped))"

definition drop_rename_round_trips :: "fs_event list \<Rightarrow> fs_event list" where
  "drop_rename_round_trips events =
     (let dropped = snd (fold (trip_step events) (enumerate 0 events) ([], {}))
      in map snd (filter (\<lambda>(index, event). index \<notin> dropped) (enumerate 0 events)))"

section \<open>Edits follow renames\<close>

fun moved_edit :: "fs_event \<Rightarrow> string \<Rightarrow> string \<Rightarrow> fs_event option" where
  "moved_edit (Created p) q r =
     map_option (\<lambda>inside. Created (if inside = [] then r else path_push r inside)) (relative_text q p)"
| "moved_edit (Modified p) q r =
     map_option (\<lambda>inside. Modified (if inside = [] then r else path_push r inside)) (relative_text q p)"
| "moved_edit _ q r = None"

definition follow_step :: "fs_event \<Rightarrow> fs_event list \<Rightarrow> fs_event list" where
  "follow_step event ordered =
     (case event of
        Renamed p q \<Rightarrow>
          filter (\<lambda>e. moved_edit e p q = None) ordered @ [event]
          @ List.map_filter (\<lambda>e. moved_edit e p q) ordered
      | _ \<Rightarrow> ordered @ [event])"

definition edits_follow_renames :: "fs_event list \<Rightarrow> fs_event list" where
  "edits_follow_renames events = fold follow_step events []"

section \<open>The stream\<close>

record event_stream =
  es_rx :: "raw_event list"
  es_pending :: "raw_event list"
  es_held :: "(raw_event \<times> nat) list"
  es_pair_wait :: nat

definition rename_pair_wait :: nat where
  "rename_pair_wait = 1000"

definition new_stream :: event_stream where
  "new_stream = \<lparr>es_rx = [], es_pending = [], es_held = [], es_pair_wait = rename_pair_wait\<rparr>"

text \<open>The other end of the channel.\<close>

definition deliver :: "notification \<Rightarrow> event_stream \<Rightarrow> event_stream" where
  "deliver e s = (case convert_notify_event e of None \<Rightarrow> s | Some raw \<Rightarrow> s\<lparr>es_rx := es_rx s @ [raw]\<rparr>)"

definition receive :: "event_stream \<Rightarrow> event_stream" where
  "receive s = s\<lparr>es_pending := es_pending s @ es_rx s, es_rx := []\<rparr>"

definition has_pending :: "nat \<Rightarrow> event_stream \<Rightarrow> bool \<times> event_stream" where
  "has_pending moment s =
     (let s = receive s
      in (es_pending s \<noteq> [] \<or> list_ex (\<lambda>(raw, since). moment - since \<ge> es_pair_wait s) (es_held s), s))"

fun pair_from :: "raw_event \<Rightarrow> string list" where
  "pair_from (Ready (Renamed p q)) = [p]"
| "pair_from _ = []"

fun pair_to :: "raw_event \<Rightarrow> string list" where
  "pair_to (Ready (Renamed p q)) = [q]"
| "pair_to _ = []"

text \<open>What a raw event becomes: nothing, an event, or a half that is held on.\<close>

definition drained :: "string list \<Rightarrow> string list \<Rightarrow> bool \<Rightarrow> raw_event \<Rightarrow> fs_event list \<times> raw_event list" where
  "drained renamed_from renamed_to waited raw =
     (case raw of
        Ready e \<Rightarrow> ([e], [])
      | Rename_From p \<Rightarrow>
          if p \<in> set renamed_from then ([], [])
          else if waited then ([Deleted p], []) else ([], [raw])
      | Rename_To p \<Rightarrow>
          if p \<in> set renamed_to then ([], [])
          else if waited then ([Created p], []) else ([], [raw]))"

definition arrived :: "nat \<Rightarrow> event_stream \<Rightarrow> (raw_event \<times> nat) list" where
  "arrived moment s = es_held s @ map (\<lambda>raw. (raw, moment)) (es_pending (receive s))"

definition drain :: "nat \<Rightarrow> event_stream \<Rightarrow> fs_event list \<times> event_stream" where
  "drain moment s =
     (let raws = arrived moment s;
          renamed_from = concat (map (pair_from \<circ> fst) raws);
          renamed_to = concat (map (pair_to \<circ> fst) raws);
          become = (\<lambda>(raw, since). drained renamed_from renamed_to (moment - since \<ge> es_pair_wait s) raw);
          events = concat (map (fst \<circ> become) raws);
          held = concat (map (\<lambda>a. map (\<lambda>raw. (raw, snd a)) (snd (become a))) raws)
      in (edits_follow_renames (drop_rename_round_trips events), (receive s)\<lparr>es_pending := [], es_held := held\<rparr>))"

end
