(* ===== verification/Watcher_Facts.thy ===== *)
theory Watcher_Facts
  imports Watcher "HOL-Library.Multiset"
begin

text \<open>
  What the watcher's rewriting of events preserves. A disk maps paths to files;
  \<open>disk_effect\<close> is what an event says happened. Dropping round trips is compared with
  running all events; \<open>carried\<close> is where an edit is after the renames that follow it.
\<close>

section \<open>The effect of events\<close>

type_synonym disk_files = "(string \<Rightarrow> nat option) \<times> nat"

definition move_tree :: "string \<Rightarrow> string \<Rightarrow> (string \<Rightarrow> nat option) \<Rightarrow> string \<Rightarrow> nat option" where
  "move_tree p q m =
     (\<lambda>r. if is_inside r q then m (p @ drop (length q) r) else if is_inside r p then None else m r)"

fun disk_effect :: "fs_event \<Rightarrow> disk_files \<Rightarrow> disk_files" where
  "disk_effect (Created p) (m, n) = (m(p \<mapsto> n), n + 1)"
| "disk_effect (Modified p) (m, n) = (m, n)"
| "disk_effect (Deleted p) (m, n) = ((\<lambda>r. if is_inside r p then None else m r), n)"
| "disk_effect (Renamed p q) (m, n) = (move_tree p q m, n)"

text \<open>Every rename goes to a place where nothing is, outside of what it moves.\<close>

fun vacant_moves :: "fs_event list \<Rightarrow> disk_files \<Rightarrow> bool" where
  "vacant_moves [] s = True"
| "vacant_moves (Renamed p q # es) s \<longleftrightarrow>
     \<not> is_inside p q \<and> \<not> is_inside q p \<and> (\<forall>r. is_inside r q \<longrightarrow> fst s r = None)
     \<and> vacant_moves es (disk_effect (Renamed p q) s)"
| "vacant_moves (e # es) s \<longleftrightarrow> vacant_moves es (disk_effect e s)"

lemma vacant_moves_append:
  "vacant_moves (es @ fs) s \<longleftrightarrow> vacant_moves es s \<and> vacant_moves fs (fold disk_effect es s)"
  by (induction es s rule: vacant_moves.induct) auto

lemma inside_both: "is_inside r p \<Longrightarrow> is_inside r q \<Longrightarrow> is_inside p q \<or> is_inside q p"
proof -
  assume inside: "is_inside r p" "is_inside r q"
  obtain a where a: "r = p @ a" "a = [] \<or> (\<exists>c. a = ''/'' @ c)" using inside(1) by (auto simp: is_inside_iff)
  obtain b where "r = q @ b" "b = [] \<or> (\<exists>c. b = ''/'' @ c)" using inside(2) by (auto simp: is_inside_iff)
  with a show ?thesis
    by (auto simp: is_inside_iff append_eq_append_conv2 Cons_eq_append_conv append_eq_Cons_conv)
qed

lemma inside_rest: "is_inside r q \<Longrightarrow> is_inside (p @ drop (length q) r) p \<and> q @ drop (length q) r = r"
  by (auto simp: is_inside_iff)

lemma move_tree_self: "move_tree p p m = m"
  by (rule ext) (auto simp: move_tree_def inside_rest)

text \<open>What was at the place of a moved tree, when it got there.\<close>

definition made_room :: "string \<Rightarrow> string \<Rightarrow> (string \<Rightarrow> nat option) \<Rightarrow> bool" where
  "made_room p q m \<longleftrightarrow> (\<forall>r. is_inside r q \<longrightarrow> m r = None \<or> is_inside r p)"

lemma move_tree_twice:
  assumes "made_room p q m"
  shows "move_tree q t (move_tree p q m) = move_tree p t m"
proof (rule ext)
  fix r
  show "move_tree q t (move_tree p q m) r = move_tree p t m r"
    using assms inside_rest [of r t q] by (auto simp: move_tree_def made_room_def)
qed

lemma made_room_next:
  assumes "\<not> is_inside q t" "\<not> is_inside t q" "\<forall>r. is_inside r t \<longrightarrow> move_tree p q m r = None"
  shows "made_room p t m"
  unfolding made_room_def
proof (intro allI impI)
  fix r
  assume r: "is_inside r t"
  then have "\<not> is_inside r q" using inside_both [of r q t] assms(1,2) by blast
  then show "m r = None \<or> is_inside r p" using assms(3) r by (auto simp: move_tree_def split: if_splits)
qed

fun linked :: "string \<Rightarrow> fs_event list \<Rightarrow> string \<Rightarrow> bool" where
  "linked p [] q \<longleftrightarrow> p = q"
| "linked p (Renamed a b # es) q \<longleftrightarrow> a = p \<and> linked b es q"
| "linked p (e # es) q \<longleftrightarrow> False"

lemma renames_append: "linked p (es @ fs) q \<longleftrightarrow> (\<exists>r. linked p es r \<and> linked r fs q)"
  by (induction p es q rule: linked.induct) auto

lemma linked_snoc: "linked p (es @ [Renamed a b]) q \<longleftrightarrow> linked p es a \<and> q = b"
  by (auto simp: renames_append)

lemma linked_run:
  assumes "linked q es t" "vacant_moves es (move_tree p q m, n)" "made_room p q m"
  shows "fold disk_effect es (move_tree p q m, n) = (move_tree p t m, n) \<and> made_room p t m"
  using assms
proof (induction es arbitrary: q)
  case (Cons e es)
  obtain r where e: "e = Renamed q r" "linked r es t" using Cons.prems(1) by (cases e) auto
  have free: "\<not> is_inside q r" "\<not> is_inside r q" "\<forall>u. is_inside u r \<longrightarrow> move_tree p q m u = None"
    and rest: "vacant_moves es (disk_effect e (move_tree p q m, n))"
    using Cons.prems(2) e by simp_all
  have "disk_effect e (move_tree p q m, n) = (move_tree p r m, n)"
    using e move_tree_twice [OF Cons.prems(3)] by simp
  moreover have "made_room p r m" by (rule made_room_next [OF free])
  ultimately show ?case using Cons.IH [OF e(2)] rest by simp
qed simp

text \<open>A closed trip over free places leaves the disk as it was.\<close>

lemma closed_trip:
  assumes "linked q es p" "vacant_moves (es @ [Renamed p q]) s"
  shows "fold disk_effect (es @ [Renamed p q]) s = s"
proof -
  obtain m n where s: "s = (m, n)" by (cases s)
  have room: "made_room q q m" by (simp add: made_room_def)
  have "fold disk_effect (es @ [Renamed p q]) (move_tree q q m, n) = (move_tree q q m, n)"
    using linked_run [of q "es @ [Renamed p q]" q q m n] assms s room by (simp add: renames_append move_tree_self)
  then show ?thesis by (simp add: s move_tree_self)
qed

section \<open>Dropped round trips\<close>

definition kept_positions :: "nat \<Rightarrow> nat set \<Rightarrow> nat list" where
  "kept_positions n dropped = filter (\<lambda>i. i \<notin> dropped) [0..<n]"

abbreviation events_at :: "fs_event list \<Rightarrow> nat list \<Rightarrow> fs_event list" where
  "events_at events is \<equiv> map ((!) events) is"

text \<open>
  After \<open>n\<close> events: the chain is the end of the kept positions and a trip of renames, and
  the kept events have the effect of all of them.
\<close>

definition trips_ok :: "fs_event list \<Rightarrow> disk_files \<Rightarrow> nat \<Rightarrow> trips \<Rightarrow> bool" where
  "trips_ok events s n t \<longleftrightarrow>
     snd t \<subseteq> {..<n}
   \<and> (\<exists>before. kept_positions n (snd t) = before @ fst t)
   \<and> (fst t \<noteq> [] \<longrightarrow> (\<exists>p q. linked p (events_at events (fst t)) q))
   \<and> vacant_moves (events_at events (kept_positions n (snd t))) s
   \<and> fold disk_effect (events_at events (kept_positions n (snd t))) s = fold disk_effect (take n events) s"

lemma kept_next: "d \<subseteq> {..<n} \<Longrightarrow> kept_positions (Suc n) d = kept_positions n d @ [n]"
  by (auto simp: kept_positions_def)

lemma distinct_kept: "distinct (kept_positions n d)"
  by (simp add: kept_positions_def)

lemma kept_drop:
  assumes "kept_positions n d = as @ bs"
  shows "kept_positions (Suc n) (d \<union> set bs \<union> {n}) = as"
proof -
  have "kept_positions (Suc n) (d \<union> set bs \<union> {n}) = filter (\<lambda>i. i \<notin> set bs) (kept_positions n d)"
    by (auto simp: kept_positions_def intro!: filter_cong)
  also have "\<dots> = as"
    using distinct_kept [of n d] unfolding assms by (auto simp: filter_empty_conv intro!: filter_True)
  finally show ?thesis .
qed

lemma leads_to_linked:
  assumes "linked p (events_at events chain) q" "chain \<noteq> []"
  shows "leads_to events (last chain) r \<longleftrightarrow> q = r"
proof -
  have "linked p (events_at events (butlast chain) @ [events ! last chain]) q"
    using assms by (metis append_butlast_last_id list.simps(8,9) map_append)
  then show ?thesis by (cases "events ! last chain") (auto simp: renames_append leads_to_def)
qed

text \<open>A rename that does not close a trip, or another event, is kept.\<close>

lemma trips_ok_keep:
  assumes "trips_ok events s n (chain, d)" "n < length events" "vacant_moves [events ! n] (fold disk_effect (take n events) s)"
    and "chain' = [] \<or> (\<exists>before. kept_positions n d @ [n] = before @ chain')"
    and "chain' \<noteq> [] \<longrightarrow> (\<exists>p q. linked p (events_at events chain') q)"
  shows "trips_ok events s (Suc n) (chain', d)"
  using assms unfolding trips_ok_def
  by (auto simp: kept_next vacant_moves_append take_Suc_conv_app_nth less_SucI)

lemma trips_ok_step:
  assumes "trips_ok events s n t" "n < length events" "vacant_moves [events ! n] (fold disk_effect (take n events) s)"
  shows "trips_ok events s (Suc n) (trip_step events (n, events ! n) t)"
proof -
  obtain chain0 d where t: "t = (chain0, d)" by (cases t)
  note ok = assms(1) [unfolded t]
  show ?thesis
  proof (cases "events ! n")
    case (Renamed p q)
    define chain where "chain = (if chain0 \<noteq> [] \<and> leads_to events (last chain0) p then chain0 else [])"
    define start where "start = length (takeWhile (\<lambda>prior. \<not> leaves_from events prior q) chain)"
    have step: "trip_step events (n, events ! n) t = (if start < length chain
        then (take start chain, d \<union> set (drop start chain) \<union> {n}) else (chain @ [n], d))"
      by (simp add: trip_step_def t Renamed chain_def [symmetric] start_def [symmetric] Let_def)
    have "\<exists>before. kept_positions n d = before @ chain0" using ok by (simp add: trips_ok_def)
    then obtain before where kept: "kept_positions n d = before @ chain"
      by (metis append_Nil2 chain_def)
    have link: "\<exists>x. linked x (events_at events chain) p"
    proof (cases "chain = []")
      case False
      then have "chain0 \<noteq> []" "chain = chain0" "leads_to events (last chain0) p"
        by (auto simp: chain_def split: if_splits)
      then show ?thesis using ok leads_to_linked [of _ events chain0] by (auto simp: trips_ok_def)
    qed auto
    then obtain x where x: "linked x (events_at events chain) p" by blast
    show ?thesis
    proof (cases "start < length chain")
      case False
      have "linked x (events_at events (chain @ [n])) q" using x by (simp add: Renamed linked_snoc)
      then have "trips_ok events s (Suc n) (chain @ [n], d)"
        using trips_ok_keep [OF ok assms(2,3), of "chain @ [n]"] kept by auto
      then show ?thesis using False by (simp add: step)
    next
      case True
      define as where "as = take start chain"
      define bs where "bs = drop start chain"
      have chain: "chain = as @ bs" by (simp add: as_def bs_def)
      have first: "leaves_from events (chain ! start) q"
        using nth_length_takeWhile [of "\<lambda>prior. \<not> leaves_from events prior q" chain] True
        by (simp add: start_def)
      obtain r where r: "linked x (events_at events as) r" "linked r (events_at events bs) p"
        using x chain by (metis renames_append map_append)
      have "bs = chain ! start # drop (Suc start) chain" using True by (simp add: bs_def Cons_nth_drop_Suc)
      then have "r = q" using r(2) first by (cases "events ! (chain ! start)") (auto simp: leaves_from_def)
      have kept': "kept_positions n d = (before @ as) @ bs" using kept chain by simp
      let ?mid = "fold disk_effect (events_at events (before @ as)) s"
      have vac: "vacant_moves (events_at events ((before @ as) @ bs)) s"
        and same: "fold disk_effect (take n events) s = fold disk_effect (events_at events ((before @ as) @ bs)) s"
        using ok unfolding kept' [symmetric] by (simp_all add: trips_ok_def)
      have closing: "vacant_moves (events_at events bs @ [Renamed p q]) ?mid"
        using vac assms(3) unfolding same by (simp add: Renamed vacant_moves_append)
      have returns: "fold disk_effect (events_at events bs @ [Renamed p q]) ?mid = ?mid"
        by (rule closed_trip [OF _ closing]) (use r(2) \<open>r = q\<close> in simp)
      have "kept_positions (Suc n) (d \<union> set bs \<union> {n}) = before @ as" by (rule kept_drop [OF kept'])
      moreover have "set bs \<subseteq> {..<n}"
        using kept' by (metis Un_upper2 atLeast0LessThan filter_is_subset kept_positions_def order_trans set_append set_upt)
      moreover have "fold disk_effect (take (Suc n) events) s = ?mid"
        using returns same by (simp add: take_Suc_conv_app_nth assms(2) Renamed)
      ultimately have "trips_ok events s (Suc n) (as, d \<union> set bs \<union> {n})"
        using ok r(1) vac by (auto simp: trips_ok_def vacant_moves_append less_SucI)
      then show ?thesis using True by (simp add: step as_def bs_def)
    qed
  qed (use trips_ok_keep [OF ok assms(2,3), of "[]"] in \<open>simp_all add: trip_step_def t\<close>)
qed

lemma trips_ok_run:
  assumes "vacant_moves events s" "n \<le> length events"
  shows "trips_ok events s n (fold (trip_step events) (enumerate 0 (take n events)) ([], {}))"
  using assms(2)
proof (induction n)
  case 0
  show ?case by (simp add: trips_ok_def kept_positions_def)
next
  case (Suc n)
  then have n: "n < length events" by simp
  have "enumerate 0 (take (Suc n) events) = enumerate 0 (take n events) @ [(n, events ! n)]"
    using n by (simp add: take_Suc_conv_app_nth enumerate_append_eq min_absorb2)
  moreover have "vacant_moves [events ! n] (fold disk_effect (take n events) s)"
    using assms(1) id_take_nth_drop [OF n] vacant_moves_append [of "take n events" "events ! n # drop (Suc n) events" s]
      vacant_moves_append [of "[events ! n]" "drop (Suc n) events"] by simp
  ultimately show ?case using trips_ok_step Suc.IH n by simp
qed

lemma kept_events: "map snd (filter (\<lambda>(i, e). i \<notin> d) (enumerate 0 events)) = events_at events (kept_positions (length events) d)"
proof -
  have "enumerate 0 events = map (\<lambda>i. (i, events ! i)) [0..<length events]"
    by (rule nth_equalityI) (simp_all add: nth_enumerate_eq)
  then show ?thesis by (simp add: kept_positions_def filter_map comp_def)
qed

lemma round_trips_free:
  assumes "vacant_moves events s"
  shows "fold disk_effect (drop_rename_round_trips events) s = fold disk_effect events s"
    and "vacant_moves (drop_rename_round_trips events) s"
  using trips_ok_run [OF assms order_refl] by (simp_all add: drop_rename_round_trips_def trips_ok_def kept_events)

section \<open>Edits\<close>

fun is_edit :: "fs_event \<Rightarrow> bool" where
  "is_edit (Created p) = True"
| "is_edit (Modified p) = True"
| "is_edit _ = False"

text \<open>An edit after one more event, and the edits of a list after all that follow them.\<close>

definition carry :: "fs_event \<Rightarrow> fs_event \<Rightarrow> fs_event" where
  "carry event e =
     (case event of Renamed p q \<Rightarrow> (case moved_edit e p q of Some e' \<Rightarrow> e' | None \<Rightarrow> e) | _ \<Rightarrow> e)"

primrec carried_edits :: "fs_event list \<Rightarrow> fs_event list" where
  "carried_edits [] = []"
| "carried_edits (e # es) = (if is_edit e then [fold carry es e] else []) @ carried_edits es"

text \<open>The event leaves the edit before it where it is.\<close>

definition stays :: "fs_event \<Rightarrow> fs_event \<Rightarrow> bool" where
  "stays e event \<longleftrightarrow> (case event of Renamed p q \<Rightarrow> moved_edit e p q = None | _ \<Rightarrow> True)"

lemma moved_edit_is_edit: "moved_edit e p q = Some e' \<Longrightarrow> is_edit e \<and> is_edit e'"
  by (cases e) auto

lemma unmoved_other: "\<not> is_edit e \<Longrightarrow> moved_edit e p q = None"
  by (cases e) auto

lemma carried_edits_snoc:
  "carried_edits (es @ [e]) = map (carry e) (carried_edits es) @ (if is_edit e then [e] else [])"
  by (induction es) auto

lemma edits_follow_snoc: "edits_follow_renames (es @ [e]) = follow_step e (edits_follow_renames es)"
  by (simp add: edits_follow_renames_def)

lemma filter_unmoved:
  "filter is_edit (List.map_filter (\<lambda>e. moved_edit e p q) es) = List.map_filter (\<lambda>e. moved_edit e p q) es"
  "filter (\<lambda>e. \<not> is_edit e) (List.map_filter (\<lambda>e. moved_edit e p q) es) = []"
  by (auto simp: map_filter_def filter_id_conv filter_empty_conv dest: moved_edit_is_edit)

lemma edits_keep_others:
  "filter (\<lambda>e. \<not> is_edit e) (edits_follow_renames es) = filter (\<lambda>e. \<not> is_edit e) es"
proof (induction es rule: rev_induct)
  case (snoc e es)
  have unmoved: "filter (\<lambda>e. \<not> is_edit e) (filter (\<lambda>e. moved_edit e p q = None) fs) = filter (\<lambda>e. \<not> is_edit e) fs"
    for p q fs
    by (induction fs) (auto simp: unmoved_other)
  show ?case
    using snoc by (cases e) (simp_all add: edits_follow_snoc follow_step_def unmoved filter_unmoved del: filter_filter)
qed (simp add: edits_follow_renames_def)

lemma edits_carried:
  "mset (filter is_edit (edits_follow_renames es)) = mset (carried_edits es)"
proof (induction es rule: rev_induct)
  case (snoc e es)
  have moved: "mset (filter is_edit (filter (\<lambda>e. moved_edit e p q = None) fs))
      + mset (List.map_filter (\<lambda>e. moved_edit e p q) fs) = image_mset (carry (Renamed p q)) (mset (filter is_edit fs))"
    for p q fs
    by (induction fs) (auto simp: carry_def map_filter_simps dest: moved_edit_is_edit simp del: filter_filter split: option.splits)
  have keep: "carry e = id" if "\<forall>p q. e \<noteq> Renamed p q"
    using that by (cases e) (auto simp: carry_def)
  show ?case
    using snoc moved keep by (cases e) (simp_all add: edits_follow_snoc follow_step_def carried_edits_snoc filter_unmoved)
qed (simp add: edits_follow_renames_def)

lemma edits_settled: "sorted_wrt stays (edits_follow_renames es)"
proof (induction es rule: rev_induct)
  case (snoc e es)
  have edit: "is_edit f \<Longrightarrow> stays d f" for d f by (cases f) (simp_all add: stays_def)
  have moved: "f \<in> set (List.map_filter (\<lambda>e. moved_edit e p q) fs) \<Longrightarrow> is_edit f" for f p q fs
    by (auto simp: map_filter_def dest: moved_edit_is_edit)
  have sorted: "sorted_wrt stays fs" if "\<And>f. f \<in> set fs \<Longrightarrow> is_edit f" for fs
    using that edit by (induction fs) auto
  show ?case
  proof (cases e)
    case (Renamed p q)
    then show ?thesis
      using snoc edit moved sorted [OF moved]
      by (auto simp: edits_follow_snoc follow_step_def sorted_wrt_append sorted_wrt_filter stays_def [of _ "Renamed p q"])
  qed (use snoc edit in \<open>simp_all add: edits_follow_snoc follow_step_def sorted_wrt_append stays_def\<close>)
qed (simp add: edits_follow_renames_def)

section \<open>Deletions\<close>

lemma set_drop_trips: "set (drop_rename_round_trips es) \<subseteq> set es"
  by (auto simp: drop_rename_round_trips_def in_set_enumerate_eq)

text \<open>Only renames are dropped.\<close>

definition renames_only :: "fs_event list \<Rightarrow> nat set \<Rightarrow> bool" where
  "renames_only events is \<longleftrightarrow> (\<forall>i \<in> is. \<exists>p q. events ! i = Renamed p q)"

lemma trip_step_renames:
  assumes "renames_only events (set (fst t) \<union> snd t)"
  shows "renames_only events (set (fst (trip_step events (n, events ! n) t)) \<union> snd (trip_step events (n, events ! n) t))"
  using assms by (cases "events ! n"; cases t)
    (auto simp: trip_step_def renames_only_def Let_def dest: in_set_takeD in_set_dropD)

lemma trips_renames:
  "n \<le> length events \<Longrightarrow> renames_only events (set (fst (fold (trip_step events) (enumerate 0 (take n events)) ([], {})))
     \<union> snd (fold (trip_step events) (enumerate 0 (take n events)) ([], {})))"
proof (induction n)
  case (Suc n)
  then have "enumerate 0 (take (Suc n) events) = enumerate 0 (take n events) @ [(n, events ! n)]"
    by (simp add: take_Suc_conv_app_nth enumerate_append_eq min_absorb2)
  then show ?case using trip_step_renames Suc by simp
qed (simp add: renames_only_def)

lemma kept_unless_renamed:
  assumes "e \<in> set events" "\<And>p q. e \<noteq> Renamed p q"
  shows "e \<in> set (drop_rename_round_trips events)"
proof -
  obtain i where i: "i < length events" "events ! i = e" using assms(1) by (auto simp: in_set_conv_nth)
  have "i \<notin> snd (fold (trip_step events) (enumerate 0 events) ([], {}))"
    using trips_renames [of "length events" events] i assms(2) by (auto simp: renames_only_def)
  then show ?thesis using i by (force simp: drop_rename_round_trips_def in_set_enumerate_eq)
qed

lemma others_in_follow: "\<not> is_edit e \<Longrightarrow> e \<in> set (edits_follow_renames es) \<longleftrightarrow> e \<in> set es"
  using arg_cong [OF edits_keep_others [of es], of set] by auto

text \<open>A half is paired when the whole rename is among the arrived events.\<close>

definition paired :: "(raw_event \<times> nat) list \<Rightarrow> raw_event \<Rightarrow> bool" where
  "paired raws raw \<longleftrightarrow>
     (case raw of
        Rename_From p \<Rightarrow> (\<exists>q since. (Ready (Renamed p q), since) \<in> set raws)
      | Rename_To q \<Rightarrow> (\<exists>p since. (Ready (Renamed p q), since) \<in> set raws)
      | Ready e \<Rightarrow> False)"

definition is_half :: "raw_event \<Rightarrow> bool" where
  "is_half raw \<longleftrightarrow> (case raw of Ready e \<Rightarrow> False | _ \<Rightarrow> True)"

lemma paired_from: "p \<in> set (concat (map (pair_from \<circ> fst) raws)) \<longleftrightarrow> paired raws (Rename_From p)"
proof -
  have "p \<in> set (pair_from raw) \<longleftrightarrow> (\<exists>q. raw = Ready (Renamed p q))" for raw
    by (cases raw rule: pair_from.cases) auto
  then show ?thesis by (force simp: paired_def)
qed

lemma paired_to: "q \<in> set (concat (map (pair_to \<circ> fst) raws)) \<longleftrightarrow> paired raws (Rename_To q)"
proof -
  have "q \<in> set (pair_to raw) \<longleftrightarrow> (\<exists>p. raw = Ready (Renamed p q))" for raw
    by (cases raw rule: pair_to.cases) auto
  then show ?thesis by (force simp: paired_def)
qed

lemma drain_deletions:
  "Deleted p \<in> set (fst (drain moment s)) \<longleftrightarrow>
     (\<exists>since. (Ready (Deleted p), since) \<in> set (arrived moment s))
   \<or> (\<exists>since. (Rename_From p, since) \<in> set (arrived moment s) \<and> moment - since \<ge> es_pair_wait s
        \<and> \<not> paired (arrived moment s) (Rename_From p))"
proof -
  have trips: "Deleted p \<in> set (edits_follow_renames (drop_rename_round_trips es)) \<longleftrightarrow> Deleted p \<in> set es" for es
    using kept_unless_renamed [of "Deleted p" es] set_drop_trips [of es] by (auto simp: others_in_follow)
  have one: "Deleted p \<in> set (fst (drained froms tos waited raw))
      \<longleftrightarrow> raw = Ready (Deleted p) \<or> raw = Rename_From p \<and> waited \<and> p \<notin> set froms" for froms tos waited raw
    by (auto simp: drained_def split: raw_event.split)
  define raws where "raws = arrived moment s"
  define froms where "froms = concat (map (pair_from \<circ> fst) raws)"
  have "p \<in> set froms \<longleftrightarrow> paired raws (Rename_From p)" unfolding froms_def by (rule paired_from)
  then show ?thesis
    unfolding drain_def Let_def fst_conv trips raws_def [symmetric] froms_def [symmetric]
    by (force simp: one)
qed

lemma drain_held:
  "set (es_held (snd (drain moment s))) = {(raw, since). (raw, since) \<in> set (arrived moment s) \<and> is_half raw
     \<and> \<not> paired (arrived moment s) raw \<and> moment - since < es_pair_wait s}"
proof -
  define raws where "raws = arrived moment s"
  define froms where "froms = concat (map (pair_from \<circ> fst) raws)"
  define tos where "tos = concat (map (pair_to \<circ> fst) raws)"
  have "p \<in> set froms \<longleftrightarrow> paired raws (Rename_From p)" "p \<in> set tos \<longleftrightarrow> paired raws (Rename_To p)" for p
    unfolding froms_def tos_def by (rule paired_from, rule paired_to)
  then have one: "set (snd (drained froms tos waited raw)) = (if is_half raw \<and> \<not> waited \<and> \<not> paired raws raw then {raw} else {})"
    for waited raw
    by (cases raw) (simp_all add: drained_def is_half_def paired_def [of _ "Ready _"])
  have "set (es_held (snd (drain moment s))) = (\<Union>(raw, since) \<in> set raws.
      (\<lambda>r. (r, since)) ` set (snd (drained froms tos (moment - since \<ge> es_pair_wait s) raw)))"
    unfolding drain_def Let_def raws_def [symmetric] froms_def [symmetric] tos_def [symmetric] by force
  then show ?thesis unfolding one raws_def by (auto split: if_splits)
qed

end
