(* ===== verification/Local_Index.thy ===== *)
theory Local_Index
  imports Rust_Paths Runtime Placement
begin

text \<open>
  The local database (\<open>db.rs\<close>, \<open>migrations/\<close>): its tables as lists of rows in the order of
  their row ids, and the methods of \<open>LocalDatabase\<close> on the index of local files and
  folders (\<open>objects\<close>). \<open>Transfer_Queue\<close>, \<open>Revision_Store\<close> and \<open>Notes_Index\<close> hold the
  methods on the other tables. A method is one transaction, so it is a function on the
  tables; a failing statement of SQLite other than the constraints modelled here is not.
  Columns that no method reads (\<open>sync_folder_id\<close>, \<open>remote_etag\<close>, \<open>remote_mtime\<close>,
  \<open>version_vector\<close>, \<open>max_retries\<close> and others) are left out. A uuid column holds the uuid itself where every writer stores a uuid's
  text; \<open>transfer_queue.file_id\<close> holds any text. What a statement takes from outside,
  \<open>datetime('now')\<close> and the local file's mtime and key, is an argument.
\<close>

section \<open>Rows\<close>

datatype object_state =
    Synced | Modified_Locally | Modified_Remotely | Pending_Upload | Pending_Download
  | In_Conflict | Deleted_Locally | Deleted_Remotely | Ignored

datatype transfer_direction = Upload | Download

datatype transfer_status = Queued | In_Progress | Paused | Completed | Failed

text \<open>\<open>SupplementalEntryMetadata\<close>, the fields of an entry without a column of their own.\<close>

record supplemental_metadata =
  su_content_ref :: "content_ref option"
  su_mime :: "string option"
  su_deleted_at :: "timestamp option"
  su_version_history :: "revision_id list"
  su_attributes :: file_attributes
  su_lock_state :: lock_state

record object_row =
  ob_id :: nat
  ob_file_id :: file_id
  ob_local_path :: string
  ob_s3_key :: string
  ob_size :: int
  ob_state :: object_state
  ob_is_folder :: bool
  ob_parent_file_id :: "file_id option"
  ob_current_revision_id :: "revision_id option"
  ob_local_hash :: "string option"
  ob_local_mtime :: "string option"
  ob_created_at :: timestamp
  ob_updated_at :: timestamp
  ob_entry_metadata :: "supplemental_metadata option"
  ob_local_file_key :: "string option"
  ob_remote_seen_scan_id :: "string option"

record transfer_row =
  tq_id :: nat
  tq_direction :: transfer_direction
  tq_file_id :: string
  tq_local_path :: string
  tq_s3_key :: string
  tq_blob_hash :: "string option"
  tq_total_bytes :: int
  tq_transferred_bytes :: int
  tq_status :: transfer_status
  tq_error_message :: "string option"
  tq_retry_count :: int
  tq_priority :: int
  tq_created_at :: timestamp
  tq_updated_at :: timestamp

record blob_candidate =
  bc_blob_key :: string
  bc_blob_hash :: string
  bc_blob_id :: string
  bc_first_seen_at :: timestamp
  bc_last_seen_at :: timestamp
  bc_quarantine_until :: timestamp
  bc_deleted_at :: "timestamp option"
  bc_last_error :: "string option"

record revision_record =
  rr_revision_id :: string
  rr_file_id :: string
  rr_parent_revision_id :: "string option"
  rr_content_hash :: "string option"
  rr_size :: u64
  rr_mime :: "string option"
  rr_author_device_id :: string
  rr_author_name :: string
  rr_created_at :: timestamp
  rr_merge_state :: string
  rr_conflict_revision_id :: "string option"

record conflict_row =
  cw_id :: nat
  cw_conflict_id :: string
  cw_file_id :: string
  cw_local_revision_id :: "string option"
  cw_remote_revision_id :: "string option"
  cw_local_path :: string
  cw_remote_path :: string
  cw_sibling_path :: string
  cw_conflict_type :: string
  cw_human_reason :: string
  cw_file_size :: u64
  cw_mime :: "string option"
  cw_status :: string
  cw_created_at :: timestamp
  cw_resolved_at :: "timestamp option"
  cw_resolution_note :: string

text \<open>\<open>note_local_versions\<close>: the save token of a note, and \<open>local_mutations\<close>.\<close>

record save_token =
  st_generation :: nat
  st_content_hash :: string

record mutation_row =
  mu_request_id :: uuid
  mu_workspace_id :: uuid
  mu_file_id :: uuid
  mu_kind :: string
  mu_stage :: string
  mu_created_at :: timestamp

record local_index =
  object_rows :: "object_row list"
  transfers :: "transfer_row list"
  checkpoints :: "(string \<times> string) list"
  blob_candidates :: "blob_candidate list"
  revision_rows :: "revision_record list"
  conflict_rows :: "conflict_row list"
  note_versions :: "((uuid \<times> file_id) \<times> save_token) list"
  note_workspaces :: "(uuid \<times> nat \<times> string option) list"
  note_roots :: "(uuid \<times> file_id) list"
  mutation_rows :: "mutation_row list"
  next_object :: nat
  next_transfer :: nat
  next_conflict :: nat

text \<open>What the file system says of a path when its row is written.\<close>

record local_probe =
  pr_mtime_millis :: "string \<Rightarrow> string option"
  pr_file_key :: "string \<Rightarrow> string option"

record indexed_folder =
  if_file_id :: file_id
  if_parent_id :: "file_id option"
  if_local_path :: string
  if_remote_path :: string

record transfer_job =
  tj_id :: nat
  tj_direction :: transfer_direction
  tj_file_id :: string
  tj_local_path :: string
  tj_s3_key :: string
  tj_expected_content_hash :: "string option"
  tj_total_bytes :: u64
  tj_transferred_bytes :: u64
  tj_status :: transfer_status
  tj_retry_count :: u32
  tj_error_message :: "string option"
  tj_created_at :: timestamp
  tj_updated_at :: timestamp

definition live_row :: "object_row \<Rightarrow> bool" where
  "live_row r \<longleftrightarrow> ob_state r \<notin> {Deleted_Locally, Deleted_Remotely, Ignored}"

definition deleted_row :: "object_row \<Rightarrow> bool" where
  "deleted_row r \<longleftrightarrow> ob_state r \<in> {Deleted_Locally, Deleted_Remotely}"

definition trim_end_char :: "char \<Rightarrow> string \<Rightarrow> string" where
  "trim_end_char d s = rev (dropWhile (\<lambda>c. c = d) (rev s))"

definition subtree_prefix :: "string \<Rightarrow> string" where
  "subtree_prefix folder = trim_end_char (CHR ''/'') folder @ ''/''"

definition at_or_under :: "string \<Rightarrow> string \<Rightarrow> bool" where
  "at_or_under folder p \<longleftrightarrow> p = folder \<or> starts_with p (subtree_prefix folder)"

definition update_where :: "('r \<Rightarrow> bool) \<Rightarrow> ('r \<Rightarrow> 'r) \<Rightarrow> 'r list \<Rightarrow> 'r list" where
  "update_where c f rs = map (\<lambda>r. if c r then f r else r) rs"

definition changes :: "('r \<Rightarrow> bool) \<Rightarrow> 'r list \<Rightarrow> nat" where
  "changes c rs = length (filter c rs)"

definition first_row :: "'r list \<Rightarrow> 'r option" where
  "first_row rs = (case rs of [] \<Rightarrow> None | r # _ \<Rightarrow> Some r)"

definition last_row :: "'r list \<Rightarrow> 'r option" where
  "last_row rs = first_row (rev rs)"

section \<open>The index of local files\<close>

definition entry_name_from_paths :: "string \<Rightarrow> string \<Rightarrow> string" where
  "entry_name_from_paths local_path s3_key =
     (case path_file_name (if local_path = [] then s3_key else local_path) of Some w \<Rightarrow> w | None \<Rightarrow> [])"

definition encode_entry_metadata :: "file_entry \<Rightarrow> supplemental_metadata" where
  "encode_entry_metadata x =
     \<lparr>su_content_ref = fe_content_ref x, su_mime = fe_mime x, su_deleted_at = fe_deleted_at x,
      su_version_history = fe_version_history x, su_attributes = fe_attributes x, su_lock_state = fe_lock_state x\<rparr>"

definition file_entry_from_index_row :: "libs \<Rightarrow> object_row \<Rightarrow> file_entry" where
  "file_entry_from_index_row L r =
     (let name = entry_name_from_paths (ob_local_path r) (ob_s3_key r);
          x = \<lparr>fe_file_id = ob_file_id r, fe_parent_id = ob_parent_file_id r, fe_name = name,
            fe_normalized_name = unicode_lowercase L name,
            fe_entry_type = (if ob_is_folder r then Folder else File),
            fe_current_revision_id = ob_current_revision_id r, fe_content_ref = None,
            fe_size = word_of_int (max 0 (ob_size r)), fe_content_hash = ob_local_hash r, fe_mime = None,
            fe_created_at = ob_created_at r, fe_updated_at = ob_updated_at r, fe_deleted_at = None,
            fe_version_history = [], fe_attributes = file_attributes_default, fe_lock_state = lock_state_default\<rparr>
      in case ob_entry_metadata r of
           None \<Rightarrow> x
         | Some m \<Rightarrow> x\<lparr>fe_content_ref := su_content_ref m, fe_mime := su_mime m, fe_deleted_at := su_deleted_at m,
             fe_version_history := su_version_history m, fe_attributes := su_attributes m,
             fe_lock_state := su_lock_state m\<rparr>)"

text \<open>\<open>INSERT OR REPLACE\<close>: a row with the same file id goes, the new one gets a new row id.\<close>

definition write_file_index ::
    "local_probe \<Rightarrow> file_entry \<Rightarrow> string \<Rightarrow> string \<Rightarrow> object_state \<Rightarrow> local_index \<Rightarrow> local_index" where
  "write_file_index P x local_path indexed_s3_key st db =
     db\<lparr>object_rows := filter (\<lambda>r. ob_file_id r \<noteq> fe_file_id x) (object_rows db)
          @ [\<lparr>ob_id = next_object db, ob_file_id = fe_file_id x, ob_local_path = local_path,
              ob_s3_key = indexed_s3_key, ob_size = sint (fe_size x), ob_state = st,
              ob_is_folder = (fe_entry_type x = Folder), ob_parent_file_id = fe_parent_id x,
              ob_current_revision_id = fe_current_revision_id x, ob_local_hash = fe_content_hash x,
              ob_local_mtime = (if local_path = [] then None else pr_mtime_millis P local_path),
              ob_created_at = fe_created_at x, ob_updated_at = fe_updated_at x,
              ob_entry_metadata = Some (encode_entry_metadata x),
              ob_local_file_key = pr_file_key P local_path, ob_remote_seen_scan_id = None\<rparr>],
        next_object := next_object db + 1\<rparr>"

definition upsert_file_index ::
    "local_probe \<Rightarrow> file_entry \<Rightarrow> string \<Rightarrow> string \<Rightarrow> object_state \<Rightarrow> local_index \<Rightarrow> local_index" where
  "upsert_file_index P x local_path s3_key st db =
     write_file_index P x local_path (if s3_key = [] then fe_name x else s3_key) st db"

definition upsert_file :: "local_probe \<Rightarrow> file_entry \<Rightarrow> local_index \<Rightarrow> local_index" where
  "upsert_file P x db = upsert_file_index P x [] (fe_name x) Synced db"

definition register_file_at_path_with_state ::
    "local_probe \<Rightarrow> file_entry \<Rightarrow> string \<Rightarrow> string \<Rightarrow> object_state \<Rightarrow> local_index \<Rightarrow> local_index" where
  "register_file_at_path_with_state P x local_path s3_key st db = upsert_file_index P x local_path s3_key st db"

definition register_local_file_at_path ::
    "local_probe \<Rightarrow> file_entry \<Rightarrow> string \<Rightarrow> string \<Rightarrow> local_index \<Rightarrow> local_index" where
  "register_local_file_at_path P x local_path s3_key db =
     register_file_at_path_with_state P x local_path s3_key
       (if fe_deleted_at x \<noteq> None then Deleted_Locally else Pending_Upload) db"

definition register_local_file :: "local_probe \<Rightarrow> file_entry \<Rightarrow> local_index \<Rightarrow> local_index" where
  "register_local_file P x db = register_local_file_at_path P x [] (fe_name x) db"

definition row_of :: "local_index \<Rightarrow> file_id \<Rightarrow> object_row option" where
  "row_of db i = first_row (filter (\<lambda>r. ob_file_id r = i) (object_rows db))"

definition get_file :: "libs \<Rightarrow> file_id \<Rightarrow> local_index \<Rightarrow> file_entry option" where
  "get_file L i db = map_option (file_entry_from_index_row L) (row_of db i)"

definition get_local_path :: "file_id \<Rightarrow> local_index \<Rightarrow> string option" where
  "get_local_path i db = map_option ob_local_path (row_of db i)"

definition get_s3_key :: "file_id \<Rightarrow> local_index \<Rightarrow> string option" where
  "get_s3_key i db = map_option ob_s3_key (row_of db i)"

definition get_object_state :: "file_id \<Rightarrow> local_index \<Rightarrow> object_state option" where
  "get_object_state i db = map_option ob_state (row_of db i)"

definition update_objects :: "(object_row \<Rightarrow> bool) \<Rightarrow> (object_row \<Rightarrow> object_row) \<Rightarrow> local_index \<Rightarrow> local_index" where
  "update_objects c f db = db\<lparr>object_rows := update_where c f (object_rows db)\<rparr>"

definition mark_file_synced :: "file_id \<Rightarrow> local_index \<Rightarrow> local_index" where
  "mark_file_synced i = update_objects (\<lambda>r. ob_file_id r = i) (\<lambda>r. r\<lparr>ob_state := Synced\<rparr>)"

definition mark_file_synced_with_content :: "timestamp \<Rightarrow> file_id \<Rightarrow> u64 \<Rightarrow> string \<Rightarrow> local_index \<Rightarrow> local_index" where
  "mark_file_synced_with_content at i n h =
     update_objects (\<lambda>r. ob_file_id r = i)
       (\<lambda>r. r\<lparr>ob_state := Synced, ob_size := sint n, ob_local_hash := Some h, ob_updated_at := at\<rparr>)"

definition mark_file_conflict :: "file_id \<Rightarrow> local_index \<Rightarrow> local_index" where
  "mark_file_conflict i = update_objects (\<lambda>r. ob_file_id r = i) (\<lambda>r. r\<lparr>ob_state := In_Conflict\<rparr>)"

definition mark_file_deleted :: "timestamp \<Rightarrow> file_id \<Rightarrow> local_index \<Rightarrow> local_index" where
  "mark_file_deleted at i =
     update_objects (\<lambda>r. ob_file_id r = i) (\<lambda>r. r\<lparr>ob_state := Deleted_Locally, ob_updated_at := at\<rparr>)"

text \<open>
  A row of \<open>revisions\<close> references its object, and foreign keys are on: deleting an object
  that still has revisions fails.
\<close>

definition remove_file :: "libs \<Rightarrow> file_id \<Rightarrow> local_index \<Rightarrow> local_index core_result" where
  "remove_file L i db =
     (if \<exists>r \<in> set (object_rows db). ob_file_id r = i then
        if \<exists>v \<in> set (revision_rows db). rr_file_id v = uuid_text L i
        then Inl (Database ''FOREIGN KEY constraint failed'')
        else Inr (db\<lparr>object_rows := filter (\<lambda>r. ob_file_id r \<noteq> i) (object_rows db)\<rparr>)
      else Inr db)"

definition update_local_path :: "timestamp \<Rightarrow> file_id \<Rightarrow> string \<Rightarrow> string \<Rightarrow> local_index \<Rightarrow> local_index" where
  "update_local_path at i local_path s3_key =
     update_objects (\<lambda>r. ob_file_id r = i)
       (\<lambda>r. r\<lparr>ob_local_path := local_path, ob_s3_key := s3_key, ob_updated_at := at\<rparr>)"

definition update_local_mtime_by_path :: "local_probe \<Rightarrow> timestamp \<Rightarrow> string \<Rightarrow> local_index \<Rightarrow> local_index" where
  "update_local_mtime_by_path P at p =
     update_objects (\<lambda>r. ob_local_path r = p)
       (\<lambda>r. r\<lparr>ob_local_mtime := (if p = [] then None else pr_mtime_millis P p),
              ob_local_file_key := pr_file_key P p, ob_updated_at := at\<rparr>)"

definition set_parent :: "file_id \<Rightarrow> file_id option \<Rightarrow> local_index \<Rightarrow> local_index" where
  "set_parent i parent = update_objects (\<lambda>r. ob_file_id r = i) (\<lambda>r. r\<lparr>ob_parent_file_id := parent\<rparr>)"

definition mark_remote_tree_entry_seen :: "file_id \<Rightarrow> string \<Rightarrow> local_index \<Rightarrow> local_index" where
  "mark_remote_tree_entry_seen i scan_id =
     update_objects (\<lambda>r. ob_file_id r = i) (\<lambda>r. r\<lparr>ob_remote_seen_scan_id := Some scan_id\<rparr>)"

definition remote_tree_scan_blocker_count :: "string \<Rightarrow> local_index \<Rightarrow> nat" where
  "remote_tree_scan_blocker_count scan_id db =
     changes (\<lambda>r. ob_state r \<notin> {Deleted_Locally, Ignored}
         \<and> \<not> (ob_state r = Pending_Upload \<and> ob_current_revision_id r = None)
         \<and> (case ob_remote_seen_scan_id r of None \<Rightarrow> [] | Some s \<Rightarrow> s) \<noteq> scan_id)
       (object_rows db)"

text \<open>A path may be shared with deleted rows: a live row comes first, then the newest.\<close>

definition file_row_at :: "string \<Rightarrow> local_index \<Rightarrow> object_row option" where
  "file_row_at p db =
     (let rows = filter (\<lambda>r. ob_local_path r = p \<and> \<not> ob_is_folder r) (object_rows db)
      in case last_row (filter (\<lambda>r. \<not> deleted_row r) rows) of Some r \<Rightarrow> Some r | None \<Rightarrow> last_row rows)"

definition get_file_by_local_path :: "libs \<Rightarrow> string \<Rightarrow> local_index \<Rightarrow> file_entry option" where
  "get_file_by_local_path L p db = map_option (file_entry_from_index_row L) (file_row_at p db)"

definition get_file_snapshot_by_local_path :: "string \<Rightarrow> local_index \<Rightarrow> object_row option" where
  "get_file_snapshot_by_local_path p db = file_row_at p db"

text \<open>The one live file with a file key; none when several have it.\<close>

definition live_file_with_local_key :: "string \<Rightarrow> local_index \<Rightarrow> object_row option" where
  "live_file_with_local_key key db =
     (case filter (\<lambda>r. ob_local_file_key r = Some key \<and> \<not> ob_is_folder r \<and> ob_local_path r \<noteq> [] \<and> live_row r)
         (object_rows db) of
        [r] \<Rightarrow> Some r
      | _ \<Rightarrow> None)"

definition live_files_under :: "libs \<Rightarrow> string \<Rightarrow> local_index \<Rightarrow> (file_entry \<times> string) list" where
  "live_files_under L folder db =
     map (\<lambda>r. (file_entry_from_index_row L r, ob_local_path r))
       (sort_key ob_local_path (filter (\<lambda>r. starts_with (ob_local_path r) (subtree_prefix folder)
          \<and> \<not> ob_is_folder r \<and> live_row r) (object_rows db)))"

definition removed_remotely_under :: "libs \<Rightarrow> string \<Rightarrow> local_index \<Rightarrow> (file_entry \<times> string) list" where
  "removed_remotely_under L folder db =
     map (\<lambda>r. (file_entry_from_index_row L r, ob_local_path r))
       (sort_key ob_local_path (filter (\<lambda>r. starts_with (ob_local_path r) (subtree_prefix folder)
          \<and> ob_state r = Deleted_Remotely) (object_rows db)))"

definition query_folders :: "(object_row \<Rightarrow> bool) \<Rightarrow> local_index \<Rightarrow> indexed_folder list" where
  "query_folders c db =
     map (\<lambda>r. \<lparr>if_file_id = ob_file_id r, if_parent_id = ob_parent_file_id r, if_local_path = ob_local_path r,
               if_remote_path = ob_s3_key r\<rparr>)
       (sort_key ob_local_path (filter c (object_rows db)))"

definition folder_by_id :: "file_id \<Rightarrow> local_index \<Rightarrow> indexed_folder option" where
  "folder_by_id i db = first_row (query_folders (\<lambda>r. ob_file_id r = i \<and> ob_is_folder r \<and> live_row r) db)"

definition folder_at :: "string \<Rightarrow> local_index \<Rightarrow> indexed_folder option" where
  "folder_at remote_path db =
     first_row (query_folders (\<lambda>r. ob_s3_key r = remote_path \<and> ob_is_folder r \<and> live_row r) db)"

definition live_folders_under :: "string \<Rightarrow> local_index \<Rightarrow> indexed_folder list" where
  "live_folders_under folder db =
     query_folders (\<lambda>r. starts_with (ob_local_path r) (subtree_prefix folder) \<and> ob_is_folder r \<and> live_row r) db"

definition live_entry_at :: "string \<Rightarrow> local_index \<Rightarrow> file_id option" where
  "live_entry_at remote_path db =
     map_option ob_file_id (first_row (filter (\<lambda>r. ob_s3_key r = remote_path \<and> live_row r) (object_rows db)))"

definition register_folder :: "libs \<Rightarrow> local_probe \<Rightarrow> timestamp \<Rightarrow> indexed_folder \<Rightarrow> local_index \<Rightarrow> local_index" where
  "register_folder L P at f db =
     upsert_file_index P
       (folder_entry L (if_file_id f)
         \<lparr>pl_parent_id = if_parent_id f, pl_name = snd (split_path (if_remote_path f))\<rparr> at)
       (if_local_path f) (if_remote_path f) Synced db"

definition get_file_size :: "file_id \<Rightarrow> local_index \<Rightarrow> u64 option" where
  "get_file_size i db = map_option (\<lambda>r. word_of_int (max 0 (ob_size r))) (row_of db i)"

definition update_file_size :: "timestamp \<Rightarrow> file_id \<Rightarrow> u64 \<Rightarrow> local_index \<Rightarrow> local_index" where
  "update_file_size at i n =
     update_objects (\<lambda>r. ob_file_id r = i) (\<lambda>r. r\<lparr>ob_size := sint n, ob_updated_at := at\<rparr>)"

definition count_objects :: "local_index \<Rightarrow> nat" where
  "count_objects db = length (object_rows db)"

definition count_live_objects :: "local_index \<Rightarrow> nat" where
  "count_live_objects db = changes (\<lambda>r. \<not> ob_is_folder r \<and> live_row r) (object_rows db)"

record indexed_local_file =
  lf_row_id :: nat
  lf_file_id :: file_id
  lf_local_path :: string
  lf_s3_key :: string
  lf_state :: object_state

definition live_local_file_candidates_after :: "nat \<Rightarrow> nat \<Rightarrow> local_index \<Rightarrow> indexed_local_file list" where
  "live_local_file_candidates_after after limit db =
     map (\<lambda>r. \<lparr>lf_row_id = ob_id r, lf_file_id = ob_file_id r, lf_local_path = ob_local_path r,
             lf_s3_key = ob_s3_key r, lf_state = ob_state r\<rparr>)
       (take limit (filter (\<lambda>r. after < ob_id r \<and> ob_local_path r \<noteq> [] \<and> \<not> ob_is_folder r
          \<and> ob_state r \<in> {Synced, Modified_Locally, Pending_Upload}) (object_rows db)))"

definition live_local_file_candidates :: "nat \<Rightarrow> local_index \<Rightarrow> indexed_local_file list" where
  "live_local_file_candidates limit db = live_local_file_candidates_after 0 limit db"

definition set_current_revision_content ::
    "libs \<Rightarrow> timestamp \<Rightarrow> file_id \<Rightarrow> revision_id \<Rightarrow> u64 \<Rightarrow> string \<Rightarrow> local_index \<Rightarrow> local_index core_result" where
  "set_current_revision_content L at i revision n h db =
     (if \<exists>r \<in> set (object_rows db). ob_file_id r = i
      then Inr (update_objects (\<lambda>r. ob_file_id r = i)
        (\<lambda>r. r\<lparr>ob_current_revision_id := Some revision, ob_size := sint n, ob_local_hash := Some h,
               ob_state := Synced, ob_updated_at := at\<rparr>) db)
      else Inl (NotFound (''object not found for file_id '' @ uuid_text L i)))"

end
