(* ===== verification/Transfer_Queue.thy ===== *)
theory Transfer_Queue
  imports Local_Index Sync_Paths
begin

text \<open>
  The transfer queue (the \<open>transfer_queue\<close> methods of \<open>db.rs\<close>, and \<open>transfer.rs\<close>, which
  calls them), the sync checkpoints and the blob collection candidates. \<open>at\<close> is
  \<open>datetime('now')\<close>, and a cutoff is \<open>datetime('now', '-n hours')\<close>: SQLite compares both
  as texts, and so does the model.
\<close>

section \<open>Jobs\<close>

abbreviation active_status :: "transfer_status set" where
  "active_status \<equiv> {Queued, In_Progress, Paused}"

definition update_transfers ::
    "(transfer_row \<Rightarrow> bool) \<Rightarrow> (transfer_row \<Rightarrow> transfer_row) \<Rightarrow> local_index \<Rightarrow> local_index" where
  "update_transfers c f db = db\<lparr>transfers := update_where c f (transfers db)\<rparr>"

definition add_transfer ::
    "timestamp \<Rightarrow> transfer_direction \<Rightarrow> string \<Rightarrow> string \<Rightarrow> string \<Rightarrow> u64 \<Rightarrow> string option
      \<Rightarrow> local_index \<Rightarrow> local_index" where
  "add_transfer at d i local_path s3_key n bound_to db =
     db\<lparr>transfers := transfers db
          @ [\<lparr>tq_id = next_transfer db, tq_direction = d, tq_file_id = i, tq_local_path = local_path,
              tq_s3_key = s3_key, tq_blob_hash = bound_to, tq_total_bytes = sint n,
              tq_transferred_bytes = 0, tq_status = Queued, tq_error_message = None,
              tq_retry_count = 0, tq_priority = 0, tq_created_at = at, tq_updated_at = at\<rparr>],
        next_transfer := next_transfer db + 1\<rparr>"

definition unfinished_for :: "transfer_direction \<Rightarrow> string \<Rightarrow> transfer_row \<Rightarrow> bool" where
  "unfinished_for d i t \<longleftrightarrow>
     tq_direction t = d \<and> tq_file_id t = i \<and> tq_status t \<in> {Queued, In_Progress, Paused, Failed}"

definition enqueue_transfer ::
    "timestamp \<Rightarrow> transfer_direction \<Rightarrow> string \<Rightarrow> string \<Rightarrow> string \<Rightarrow> u64 \<Rightarrow> string option
      \<Rightarrow> local_index \<Rightarrow> local_index" where
  "enqueue_transfer at d i local_path s3_key n bound_to db =
     (if changes (unfinished_for d i) (transfers db) > 0
      then update_transfers (unfinished_for d i)
        (\<lambda>t. t\<lparr>tq_local_path := local_path, tq_s3_key := s3_key, tq_total_bytes := sint n,
               tq_blob_hash := (case bound_to of Some b \<Rightarrow> Some b | None \<Rightarrow> tq_blob_hash t),
               tq_transferred_bytes := 0, tq_status := Queued, tq_error_message := None,
               tq_retry_count := 0, tq_updated_at := at\<rparr>) db
      else add_transfer at d i local_path s3_key n bound_to db)"

definition transfer_job_from_row :: "transfer_row \<Rightarrow> transfer_job" where
  "transfer_job_from_row t =
     \<lparr>tj_id = tq_id t, tj_direction = tq_direction t, tj_file_id = tq_file_id t,
      tj_local_path = tq_local_path t, tj_s3_key = tq_s3_key t, tj_expected_content_hash = tq_blob_hash t,
      tj_total_bytes = word_of_int (max 0 (tq_total_bytes t)),
      tj_transferred_bytes = word_of_int (max 0 (tq_transferred_bytes t)), tj_status = tq_status t,
      tj_retry_count = word_of_int (max 0 (tq_retry_count t)), tj_error_message = tq_error_message t,
      tj_created_at = tq_created_at t, tj_updated_at = tq_updated_at t\<rparr>"

text \<open>\<open>ORDER BY priority DESC, created_at ASC\<close>; rows that tie stay in the order of their ids.\<close>

definition by_priority :: "transfer_row list \<Rightarrow> transfer_row list" where
  "by_priority ts = sort_key (\<lambda>t. - tq_priority t) (sort_key tq_created_at ts)"

definition get_pending_transfers :: "transfer_direction \<Rightarrow> u32 \<Rightarrow> local_index \<Rightarrow> transfer_job list" where
  "get_pending_transfers d limit db =
     map transfer_job_from_row (take (unat limit)
       (by_priority (filter (\<lambda>t. tq_direction t = d \<and> tq_status t = Queued) (transfers db))))"

definition monitor_rank :: "transfer_status \<Rightarrow> nat" where
  "monitor_rank s = (case s of In_Progress \<Rightarrow> 0 | Failed \<Rightarrow> 1 | Queued \<Rightarrow> 2 | Paused \<Rightarrow> 3 | Completed \<Rightarrow> 4)"

definition get_recent_transfers :: "u32 \<Rightarrow> u32 \<Rightarrow> local_index \<Rightarrow> transfer_job list" where
  "get_recent_transfers active_limit completed_limit db =
     map transfer_job_from_row
       (take (unat active_limit) (sort_key (\<lambda>t. monitor_rank (tq_status t))
          (by_priority (filter (\<lambda>t. tq_status t \<noteq> Completed) (transfers db))))
        @ take (unat completed_limit) (rev (sort_key tq_updated_at
            (filter (\<lambda>t. tq_status t = Completed) (transfers db)))))"

definition job_not_found :: "nat \<Rightarrow> core_error" where
  "job_not_found i = NotFound (''transfer job '' @ nat_str i @ '' not found'')"

definition update_job :: "nat \<Rightarrow> (transfer_row \<Rightarrow> transfer_row) \<Rightarrow> local_index \<Rightarrow> local_index core_result" where
  "update_job i f db =
     (if \<exists>t \<in> set (transfers db). tq_id t = i then Inr (update_transfers (\<lambda>t. tq_id t = i) f db)
      else Inl (job_not_found i))"

definition completed_row :: "timestamp \<Rightarrow> transfer_row \<Rightarrow> transfer_row" where
  "completed_row at t =
     t\<lparr>tq_status := Completed,
       tq_transferred_bytes := (if tq_total_bytes t > 0 then tq_total_bytes t else tq_transferred_bytes t),
       tq_updated_at := at\<rparr>"

definition update_transfer_status :: "timestamp \<Rightarrow> nat \<Rightarrow> transfer_status \<Rightarrow> local_index \<Rightarrow> local_index core_result" where
  "update_transfer_status at i s =
     update_job i (if s = Completed then completed_row at else (\<lambda>t. t\<lparr>tq_status := s, tq_updated_at := at\<rparr>))"

definition fail_transfer :: "timestamp \<Rightarrow> nat \<Rightarrow> string \<Rightarrow> local_index \<Rightarrow> local_index core_result" where
  "fail_transfer at i message =
     update_job i (\<lambda>t. t\<lparr>tq_status := Failed, tq_error_message := Some message, tq_updated_at := at\<rparr>)"

definition increment_retry :: "timestamp \<Rightarrow> nat \<Rightarrow> local_index \<Rightarrow> (u32 \<times> local_index) core_result" where
  "increment_retry at i db =
     (case update_job i (\<lambda>t. t\<lparr>tq_retry_count := tq_retry_count t + 1, tq_updated_at := at\<rparr>) db of
        Inl e \<Rightarrow> Inl e
      | Inr db' \<Rightarrow> (case first_row (filter (\<lambda>t. tq_id t = i) (transfers db')) of
            Some t \<Rightarrow> Inr (word_of_int (tq_retry_count t), db')
          | None \<Rightarrow> Inl (Database ''Query returned no rows'')))"

definition count_pending :: "transfer_direction \<Rightarrow> local_index \<Rightarrow> nat" where
  "count_pending d db = changes (\<lambda>t. tq_direction t = d \<and> tq_status t = Queued) (transfers db)"

definition pending_count :: "local_index \<Rightarrow> nat \<times> nat" where
  "pending_count db = (count_pending Upload db, count_pending Download db)"

text \<open>SQLite's \<open>SUM\<close> fails when a partial sum leaves the 64-bit integers.\<close>

primrec sql_sum :: "int \<Rightarrow> int list \<Rightarrow> int option" where
  "sql_sum acc [] = Some acc"
| "sql_sum acc (x # xs) =
     (if - (2 ^ 63) \<le> acc + x \<and> acc + x < 2 ^ 63 then sql_sum (acc + x) xs else None)"

definition sum_pending_bytes :: "transfer_direction \<Rightarrow> local_index \<Rightarrow> u64 core_result" where
  "sum_pending_bytes d db =
     (case sql_sum 0 (map tq_total_bytes
         (filter (\<lambda>t. tq_direction t = d \<and> tq_status t = Queued) (transfers db))) of
        Some n \<Rightarrow> Inr (word_of_int n)
      | None \<Rightarrow> Inl (Database ''integer overflow''))"

definition clean_completed_transfers_batched :: "timestamp \<Rightarrow> nat \<Rightarrow> local_index \<Rightarrow> nat \<times> local_index" where
  "clean_completed_transfers_batched cutoff limit db =
     (let old = take limit (sort_key tq_updated_at
            (filter (\<lambda>t. tq_status t \<in> {Completed, Failed} \<and> tq_updated_at t < cutoff) (transfers db)))
      in (length old, db\<lparr>transfers := filter (\<lambda>t. tq_id t \<notin> tq_id ` set old) (transfers db)\<rparr>))"

definition cancel_active_transfers_for_file :: "libs \<Rightarrow> timestamp \<Rightarrow> file_id \<Rightarrow> string \<Rightarrow> local_index \<Rightarrow> nat \<times> local_index" where
  "cancel_active_transfers_for_file L at i reason db =
     (let c = (\<lambda>t. tq_file_id t = uuid_text L i \<and> tq_status t \<in> active_status) in
      (changes c (transfers db),
       update_transfers c (\<lambda>t. t\<lparr>tq_status := Failed, tq_error_message := Some reason, tq_updated_at := at\<rparr>) db))"

text \<open>\<open>LIKE '%conflict%'\<close> folds ASCII case; a job without a message does not match.\<close>

definition message_like :: "string \<Rightarrow> transfer_row \<Rightarrow> bool" where
  "message_like pat t \<longleftrightarrow>
     (case tq_error_message t of None \<Rightarrow> False
      | Some m \<Rightarrow> str_contains (to_ascii_lowercase m) (to_ascii_lowercase pat))"

definition complete_conflict_transfers_for_file ::
    "libs \<Rightarrow> timestamp \<Rightarrow> file_id \<Rightarrow> string \<Rightarrow> local_index \<Rightarrow> nat \<times> local_index" where
  "complete_conflict_transfers_for_file L at i reason db =
     (let c = (\<lambda>t. tq_file_id t = uuid_text L i \<and> tq_status t \<noteq> Completed \<and> message_like ''conflict'' t) in
      (changes c (transfers db),
       update_transfers c (\<lambda>t. (completed_row at t)\<lparr>tq_error_message := Some reason\<rparr>) db))"

text \<open>At start-up: jobs in progress when the process stopped, then failures of a known fault.\<close>

definition false_blob_precondition :: "transfer_row \<Rightarrow> bool" where
  "false_blob_precondition t \<longleftrightarrow>
     tq_status t = Failed \<and> message_like ''.s4drive/content/blobs/'' t
     \<and> (message_like ''PreconditionFailed'' t \<or> message_like ''Precondition Failed'' t \<or> message_like ''412'' t)"

definition recover_interrupted_transfers :: "timestamp \<Rightarrow> local_index \<Rightarrow> nat \<times> local_index" where
  "recover_interrupted_transfers at db =
     (let interrupted = (\<lambda>t. tq_status t = In_Progress);
          db1 = update_transfers interrupted
            (\<lambda>t. t\<lparr>tq_status := Queued, tq_updated_at := at,
                   tq_error_message := (case tq_error_message t of
                     Some m \<Rightarrow> Some m | None \<Rightarrow> Some ''recovered after restart'')\<rparr>) db
      in (changes interrupted (transfers db) + changes false_blob_precondition (transfers db1),
          update_transfers false_blob_precondition
            (\<lambda>t. t\<lparr>tq_status := Queued, tq_retry_count := 0,
                   tq_error_message := Some ''recovered after content blob deduplication conflict'',
                   tq_updated_at := at\<rparr>) db1))"

section \<open>Jobs and the index\<close>

text \<open>\<open>REPOINT_TRANSFERS\<close>: an upload gets the new key, a download keeps its blob key.\<close>

definition repoint_transfers :: "libs \<Rightarrow> timestamp \<Rightarrow> file_id \<Rightarrow> string \<Rightarrow> string \<Rightarrow> local_index \<Rightarrow> local_index" where
  "repoint_transfers L at i local_path s3_key =
     update_transfers (\<lambda>t. tq_file_id t = uuid_text L i \<and> tq_status t \<in> active_status)
       (\<lambda>t. t\<lparr>tq_local_path := local_path,
              tq_s3_key := (if tq_direction t = Upload then s3_key else tq_s3_key t), tq_updated_at := at\<rparr>)"

definition moved_path :: "string \<Rightarrow> string \<Rightarrow> string \<Rightarrow> string" where
  "moved_path from_local to_local p = to_local @ drop (length from_local) p"

definition moved_key :: "string \<Rightarrow> string \<Rightarrow> string \<Rightarrow> string" where
  "moved_key from_remote to_remote k =
     (if k = from_remote \<or> starts_with k (from_remote @ ''/'')
      then to_remote @ drop (length from_remote) k else k)"

definition move_subtree :: "timestamp \<Rightarrow> string \<Rightarrow> string \<Rightarrow> string \<Rightarrow> string \<Rightarrow> local_index \<Rightarrow> local_index" where
  "move_subtree at from_local to_local from_remote to_remote db =
     update_transfers (\<lambda>t. at_or_under from_local (tq_local_path t) \<and> tq_status t \<noteq> Completed)
       (\<lambda>t. t\<lparr>tq_local_path := moved_path from_local to_local (tq_local_path t),
              tq_s3_key := (if tq_direction t = Upload then moved_key from_remote to_remote (tq_s3_key t)
                            else tq_s3_key t),
              tq_updated_at := at\<rparr>)
     (update_objects (\<lambda>r. at_or_under from_local (ob_local_path r) \<and> \<not> deleted_row r)
       (\<lambda>r. r\<lparr>ob_local_path := moved_path from_local to_local (ob_local_path r),
              ob_s3_key := moved_key from_remote to_remote (ob_s3_key r), ob_updated_at := at\<rparr>) db)"

definition mark_deleted_where ::
    "libs \<Rightarrow> timestamp \<Rightarrow> string \<Rightarrow> object_state \<Rightarrow> (object_row \<Rightarrow> bool) \<Rightarrow> local_index \<Rightarrow> nat \<times> local_index" where
  "mark_deleted_where L at folder s extra db =
     (let rows = (\<lambda>r. at_or_under folder (ob_local_path r) \<and> live_row r \<and> extra r);
          ids = map (\<lambda>r. uuid_text L (ob_file_id r)) (filter rows (object_rows db))
      in (changes rows (object_rows db),
          update_objects rows (\<lambda>r. r\<lparr>ob_state := s, ob_updated_at := at\<rparr>)
            (update_transfers (\<lambda>t. tq_status t \<in> active_status \<and> tq_file_id t \<in> set ids)
              (\<lambda>t. t\<lparr>tq_status := Failed, tq_error_message := Some ''folder deleted'', tq_updated_at := at\<rparr>) db)))"

definition mark_subtree_deleted :: "libs \<Rightarrow> timestamp \<Rightarrow> string \<Rightarrow> object_state \<Rightarrow> local_index \<Rightarrow> nat \<times> local_index" where
  "mark_subtree_deleted L at folder s = mark_deleted_where L at folder s (\<lambda>r. True)"

definition mark_folders_deleted :: "libs \<Rightarrow> timestamp \<Rightarrow> string \<Rightarrow> object_state \<Rightarrow> local_index \<Rightarrow> nat \<times> local_index" where
  "mark_folders_deleted L at folder s = mark_deleted_where L at folder s ob_is_folder"

definition transfer_moved :: "transfer_job \<Rightarrow> local_index \<Rightarrow> bool" where
  "transfer_moved job db =
     (case first_row (filter (\<lambda>t. tq_id t = tj_id job \<and> tq_status t \<in> {Queued, In_Progress}) (transfers db)) of
        Some t \<Rightarrow> tq_local_path t \<noteq> tj_local_path job
      | None \<Rightarrow> False)"

text \<open>SQL \<open>replace(v.content_hash, 'blake3:', '')\<close> on a stored token.\<close>

function sql_replace :: "string \<Rightarrow> string \<Rightarrow> string \<Rightarrow> string" where
  "sql_replace pat by s =
     (if pat = [] then s
      else if s = [] then []
      else if starts_with s pat then by @ sql_replace pat by (drop (length pat) s)
      else hd s # sql_replace pat by (tl s))"
  by pat_completeness auto
termination
  by (relation "measure (\<lambda>(pat, by, s). length s)") (auto simp: starts_with_iff)

declare sql_replace.simps [simp del]

definition upload_binding_is_current :: "libs \<Rightarrow> transfer_job \<Rightarrow> string \<Rightarrow> local_index \<Rightarrow> bool" where
  "upload_binding_is_current L job expected db \<longleftrightarrow>
     list_ex (\<lambda>r. uuid_text L (ob_file_id r) = tj_file_id job
       \<and> ob_local_path r = tj_local_path job \<and> ob_s3_key r = tj_s3_key job
       \<and> ob_state r \<notin> {Deleted_Locally, Deleted_Remotely, Ignored, In_Conflict}
       \<and> list_ex (\<lambda>v. snd (fst v) = ob_file_id r
           \<and> sql_replace ''blake3:'' [] (st_content_hash (snd v)) = trim_start_matches ''blake3:'' expected)
         (note_versions db)
       \<and> list_ex (\<lambda>t. tq_id t = tj_id job \<and> tq_file_id t = uuid_text L (ob_file_id r)
           \<and> tq_status t \<in> {Queued, In_Progress}
           \<and> \<not> list_ex (\<lambda>newer. tq_file_id newer = uuid_text L (ob_file_id r) \<and> tq_direction newer = Upload
                 \<and> tq_id t < tq_id newer \<and> tq_status newer \<in> active_status) (transfers db))
         (transfers db))
       (object_rows db)"

definition upload_binding_matches :: "libs \<Rightarrow> transfer_job \<Rightarrow> local_index \<Rightarrow> bool" where
  "upload_binding_matches L job db =
     (case tj_expected_content_hash job of
        None \<Rightarrow> True
      | Some expected \<Rightarrow> upload_binding_is_current L job expected db)"

definition indexed_place :: "libs \<Rightarrow> string \<Rightarrow> local_index \<Rightarrow> (string \<times> string \<times> file_id option) option" where
  "indexed_place L i db =
     map_option (\<lambda>r. (ob_local_path r, ob_s3_key r, ob_parent_file_id r))
       (first_row (filter (\<lambda>r. uuid_text L (ob_file_id r) = i) (object_rows db)))"

definition finish_upload ::
    "libs \<Rightarrow> local_probe \<Rightarrow> timestamp \<Rightarrow> transfer_job \<Rightarrow> file_entry \<Rightarrow> bool \<Rightarrow> local_index \<Rightarrow> bool \<times> local_index" where
  "finish_upload L P at job x local_content_matches db =
     (let current = (case tj_expected_content_hash job of
            None \<Rightarrow> True
          | Some expected \<Rightarrow> local_content_matches \<and> upload_binding_is_current L job expected db);
          db1 = (if current then
              (case indexed_place L (tj_file_id job) db of
                 Some (local_path, s3_key, parent) \<Rightarrow>
                   write_file_index P (x\<lparr>fe_parent_id := parent\<rparr>) local_path s3_key Synced db
               | None \<Rightarrow> write_file_index P x (tj_local_path job) (tj_s3_key job) Synced db)
            else db)
      in (current, update_transfers (\<lambda>t. tq_id t = tj_id job) (completed_row at) db1))"

section \<open>Checkpoints\<close>

definition get_checkpoint :: "string \<Rightarrow> local_index \<Rightarrow> string option" where
  "get_checkpoint name db = map_of (checkpoints db) name"

definition set_checkpoint :: "string \<Rightarrow> string \<Rightarrow> local_index \<Rightarrow> local_index" where
  "set_checkpoint name v db =
     db\<lparr>checkpoints := (name, v) # filter (\<lambda>c. fst c \<noteq> name) (checkpoints db)\<rparr>"

definition replace_checkpoint :: "string \<Rightarrow> string \<Rightarrow> string \<Rightarrow> local_index \<Rightarrow> bool \<times> local_index" where
  "replace_checkpoint name expected v db =
     (if expected = []
      then (case get_checkpoint name db of
          None \<Rightarrow> (True, set_checkpoint name v db)
        | Some old \<Rightarrow> if old = [] then (True, set_checkpoint name v db) else (False, db))
      else if get_checkpoint name db = Some expected then (True, set_checkpoint name v db)
      else (False, db))"

definition get_or_create_local_device_id :: "libs \<Rightarrow> uuid \<Rightarrow> local_index \<Rightarrow> uuid \<times> local_index" where
  "get_or_create_local_device_id L fresh db =
     (case get_checkpoint ''local_device_id'' db of
        Some v \<Rightarrow> (case uuid_parse L v of
            Some i \<Rightarrow> (i, db)
          | None \<Rightarrow> (fresh, set_checkpoint ''local_device_id'' (uuid_text L fresh) db))
      | None \<Rightarrow> (fresh, set_checkpoint ''local_device_id'' (uuid_text L fresh) db))"

section \<open>Blob collection candidates\<close>

definition upsert_remote_blob_gc_candidate ::
    "timestamp \<Rightarrow> string \<Rightarrow> string \<Rightarrow> string \<Rightarrow> timestamp \<Rightarrow> local_index \<Rightarrow> local_index" where
  "upsert_remote_blob_gc_candidate at key h i until db =
     db\<lparr>blob_candidates :=
       (if \<exists>c \<in> set (blob_candidates db). bc_blob_key c = key
        then update_where (\<lambda>c. bc_blob_key c = key)
          (\<lambda>c. c\<lparr>bc_blob_hash := h, bc_blob_id := i, bc_last_seen_at := at,
                 bc_quarantine_until := (if bc_deleted_at c \<noteq> None then until else bc_quarantine_until c),
                 bc_deleted_at := None, bc_last_error := None\<rparr>) (blob_candidates db)
        else blob_candidates db
          @ [\<lparr>bc_blob_key = key, bc_blob_hash = h, bc_blob_id = i, bc_first_seen_at = at,
              bc_last_seen_at = at, bc_quarantine_until = until, bc_deleted_at = None, bc_last_error = None\<rparr>])\<rparr>"

definition due_remote_blob_gc_candidates :: "timestamp \<Rightarrow> nat \<Rightarrow> local_index \<Rightarrow> blob_candidate list" where
  "due_remote_blob_gc_candidates now limit db =
     take limit (sort_key bc_quarantine_until (sort_key bc_blob_key
       (filter (\<lambda>c. bc_deleted_at c = None \<and> bc_quarantine_until c \<le> now) (blob_candidates db))))"

definition remove_remote_blob_gc_candidate :: "string \<Rightarrow> local_index \<Rightarrow> local_index" where
  "remove_remote_blob_gc_candidate key db =
     db\<lparr>blob_candidates := filter (\<lambda>c. bc_blob_key c \<noteq> key) (blob_candidates db)\<rparr>"

definition update_candidates :: "string \<Rightarrow> (blob_candidate \<Rightarrow> blob_candidate) \<Rightarrow> local_index \<Rightarrow> local_index" where
  "update_candidates key f db =
     db\<lparr>blob_candidates := update_where (\<lambda>c. bc_blob_key c = key) f (blob_candidates db)\<rparr>"

definition mark_remote_blob_gc_deleted :: "timestamp \<Rightarrow> string \<Rightarrow> local_index \<Rightarrow> local_index" where
  "mark_remote_blob_gc_deleted at key =
     update_candidates key (\<lambda>c. c\<lparr>bc_deleted_at := Some at, bc_last_error := None\<rparr>)"

definition record_remote_blob_gc_error :: "string \<Rightarrow> string \<Rightarrow> local_index \<Rightarrow> local_index" where
  "record_remote_blob_gc_error key message = update_candidates key (\<lambda>c. c\<lparr>bc_last_error := Some message\<rparr>)"

definition local_content_references_blob :: "string \<Rightarrow> local_index \<Rightarrow> bool" where
  "local_content_references_blob h0 db =
     (let raw = trim_start_matches ''blake3:'' h0; hashes = {raw, ''blake3:'' @ raw}; key = blob_key raw in
      changes (\<lambda>r. (case ob_local_hash r of Some h \<Rightarrow> h \<in> hashes | None \<Rightarrow> False) \<or> ob_s3_key r = key) (object_rows db)
      + changes (\<lambda>v. case rr_content_hash v of Some h \<Rightarrow> h \<in> hashes | None \<Rightarrow> False) (revision_rows db)
      + changes (\<lambda>t. tq_s3_key t = key \<and> tq_status t \<in> active_status) (transfers db) > 0)"

end
