(* ===== verification/Revision_Store.thy ===== *)
theory Revision_Store
  imports Transfer_Queue
begin

text \<open>
  The revision history, the conflict records and the retention of the local database
  (\<open>db.rs\<close>, the operations of phase 5 and local maintenance), and \<open>VersionApi\<close>
  (\<open>sync/versions.rs\<close>) over them. Foreign keys are on: a revision needs its object.
\<close>

section \<open>Revisions\<close>

definition same_revision_content :: "revision_record \<Rightarrow> revision_record \<Rightarrow> bool" where
  "same_revision_content a b \<longleftrightarrow>
     rr_file_id a = rr_file_id b \<and> rr_parent_revision_id a = rr_parent_revision_id b
     \<and> rr_content_hash a = rr_content_hash b \<and> rr_size a = rr_size b \<and> rr_mime a = rr_mime b
     \<and> rr_merge_state a = rr_merge_state b \<and> rr_conflict_revision_id a = rr_conflict_revision_id b"

definition get_revision :: "string \<Rightarrow> local_index \<Rightarrow> revision_record option" where
  "get_revision i db = first_row (filter (\<lambda>r. rr_revision_id r = i) (revision_rows db))"

definition has_object :: "libs \<Rightarrow> string \<Rightarrow> local_index \<Rightarrow> bool" where
  "has_object L i db \<longleftrightarrow> (\<exists>r \<in> set (object_rows db). uuid_text L (ob_file_id r) = i)"

definition revision_constraints :: "libs \<Rightarrow> revision_record \<Rightarrow> local_index \<Rightarrow> string option" where
  "revision_constraints L v db =
     (if rr_merge_state v \<notin> {''clean'', ''merged'', ''conflicted''} then Some ''CHECK constraint failed: merge_state''
      else if get_revision (rr_revision_id v) db \<noteq> None
      then Some ''UNIQUE constraint failed: revisions.revision_id''
      else if \<not> has_object L (rr_file_id v) db then Some ''FOREIGN KEY constraint failed''
      else None)"

definition insert_revision :: "libs \<Rightarrow> revision_record \<Rightarrow> local_index \<Rightarrow> local_index core_result" where
  "insert_revision L v db =
     (case revision_constraints L v db of
        None \<Rightarrow> Inr (db\<lparr>revision_rows := revision_rows db @ [v]\<rparr>)
      | Some message \<Rightarrow>
          (case get_revision (rr_revision_id v) db of
             Some existing \<Rightarrow>
               if same_revision_content existing v then Inr db
               else Inl (Conflict (''revision id already exists with different content: '' @ rr_revision_id v))
           | None \<Rightarrow> Inl (Database (''insert revision '' @ rr_revision_id v @ '': '' @ message))))"

definition latest_first :: "revision_record list \<Rightarrow> revision_record list" where
  "latest_first rs = rev (sort_key rr_created_at (sort_key rr_revision_id rs))"

definition get_revisions :: "string \<Rightarrow> local_index \<Rightarrow> revision_record list" where
  "get_revisions i db = latest_first (filter (\<lambda>r. rr_file_id r = i) (revision_rows db))"

definition get_recent_revisions :: "nat \<Rightarrow> local_index \<Rightarrow> revision_record list" where
  "get_recent_revisions limit db = take limit (latest_first (revision_rows db))"

definition get_sibling_revisions :: "string \<Rightarrow> string \<Rightarrow> local_index \<Rightarrow> revision_record list" where
  "get_sibling_revisions i parent db =
     latest_first (filter (\<lambda>r. rr_file_id r = i \<and> rr_parent_revision_id r = Some parent) (revision_rows db))"

definition count_revisions :: "string \<Rightarrow> local_index \<Rightarrow> u32" where
  "count_revisions i db = word_of_nat (changes (\<lambda>r. rr_file_id r = i) (revision_rows db))"

text \<open>
  \<open>VersionApi\<close>: the history the interface shows, numbered from the oldest. How chrono
  parses and prints a date is the argument \<open>chrono_date\<close>, \<open>None\<close> where it cannot.
\<close>

record version_info =
  vi_revision_id :: string
  vi_version_number :: u32
  vi_file_id :: string
  vi_parent_revision_id :: "string option"
  vi_content_hash :: "string option"
  vi_size :: u64
  vi_mime :: "string option"
  vi_author_device :: string
  vi_author_name :: string
  vi_created_at :: timestamp
  vi_merge_state :: string
  vi_is_latest :: bool
  vi_human_date :: string

record version_history =
  vh_file_id :: string
  vh_file_name :: string
  vh_total_versions :: u32
  vh_current_version_number :: u32
  vh_versions :: "version_info list"

definition format_human_date :: "(timestamp \<Rightarrow> string option) \<Rightarrow> timestamp \<Rightarrow> string" where
  "format_human_date chrono_date created =
     (case chrono_date created of
        Some text_of_date \<Rightarrow> text_of_date
      | None \<Rightarrow> if length created \<ge> 16 then take 2 (drop 8 created) @ '' '' @ take 2 (drop 5 created) else created)"

definition get_version_history ::
    "(timestamp \<Rightarrow> string option) \<Rightarrow> string \<Rightarrow> local_index \<Rightarrow> version_history" where
  "get_version_history chrono_date i db =
     (let revisions = get_revisions i db; total = (word_of_nat (length revisions) :: u32)
      in \<lparr>vh_file_id = i, vh_file_name = [], vh_total_versions = total, vh_current_version_number = total,
          vh_versions = map (\<lambda>(k, r). \<lparr>vi_revision_id = rr_revision_id r,
              vi_version_number = total - word_of_nat k, vi_file_id = rr_file_id r,
              vi_parent_revision_id = rr_parent_revision_id r, vi_content_hash = rr_content_hash r,
              vi_size = rr_size r, vi_mime = rr_mime r, vi_author_device = rr_author_device_id r,
              vi_author_name = rr_author_name r, vi_created_at = rr_created_at r,
              vi_merge_state = rr_merge_state r, vi_is_latest = (k = 0),
              vi_human_date = format_human_date chrono_date (rr_created_at r)\<rparr>) (enumerate 0 revisions)\<rparr>)"

definition record_revision ::
    "libs \<Rightarrow> timestamp \<Rightarrow> string \<Rightarrow> file_id \<Rightarrow> string option \<Rightarrow> string option \<Rightarrow> u64 \<Rightarrow> string option
      \<Rightarrow> string \<Rightarrow> string \<Rightarrow> string \<Rightarrow> string option \<Rightarrow> local_index \<Rightarrow> local_index core_result" where
  "record_revision L now revision i parent h n mime author author_name merge conflict db =
     insert_revision L
       \<lparr>rr_revision_id = revision, rr_file_id = uuid_text L i, rr_parent_revision_id = parent,
        rr_content_hash = h, rr_size = n, rr_mime = mime, rr_author_device_id = author,
        rr_author_name = author_name, rr_created_at = now, rr_merge_state = merge,
        rr_conflict_revision_id = conflict\<rparr> db"

definition content_key_for_revision :: "string \<Rightarrow> local_index \<Rightarrow> string option" where
  "content_key_for_revision i db =
     (case get_revision i db of
        None \<Rightarrow> None
      | Some r \<Rightarrow> map_option (\<lambda>h. blob_key (trim_start_matches ''blake3:'' h)) (rr_content_hash r))"

section \<open>Conflict records\<close>

definition insert_conflict_record :: "conflict_row \<Rightarrow> local_index \<Rightarrow> local_index core_result" where
  "insert_conflict_record c db =
     (if \<exists>d \<in> set (conflict_rows db). cw_conflict_id d = cw_conflict_id c
      then Inl (Database ''UNIQUE constraint failed: conflict_records.conflict_id'')
      else Inr (db\<lparr>conflict_rows := conflict_rows db
             @ [c\<lparr>cw_id := next_conflict db, cw_status := ''open'', cw_resolved_at := None,
                  cw_resolution_note := []\<rparr>],
           next_conflict := next_conflict db + 1\<rparr>))"

definition get_open_conflicts :: "local_index \<Rightarrow> conflict_row list" where
  "get_open_conflicts db =
     rev (sort_key cw_created_at (rev (filter (\<lambda>c. cw_status c = ''open'') (conflict_rows db))))"

definition get_conflicts_for_file :: "string \<Rightarrow> local_index \<Rightarrow> conflict_row list" where
  "get_conflicts_for_file i db =
     rev (sort_key cw_created_at
       (rev (filter (\<lambda>c. cw_file_id c = i \<and> cw_status c = ''open'') (conflict_rows db))))"

definition has_open_conflict :: "string \<Rightarrow> string \<Rightarrow> local_index \<Rightarrow> bool" where
  "has_open_conflict i kind db \<longleftrightarrow> list_ex (\<lambda>c. cw_conflict_type c = kind) (get_conflicts_for_file i db)"

definition conflict_statuses :: "string list" where
  "conflict_statuses = [''open'', ''resolved_keep_local'', ''resolved_keep_remote'',
     ''resolved_keep_both'', ''resolved_merged'']"

definition resolve_conflict :: "timestamp \<Rightarrow> string \<Rightarrow> string \<Rightarrow> string \<Rightarrow> local_index \<Rightarrow> local_index core_result" where
  "resolve_conflict at i resolution note db =
     (let c = (\<lambda>r. cw_conflict_id r = i \<and> cw_status r = ''open'') in
      if \<not> (\<exists>r \<in> set (conflict_rows db). c r) then Inl (NotFound (''open conflict not found: '' @ i))
      else if resolution \<notin> set conflict_statuses then Inl (Database ''CHECK constraint failed: status'')
      else Inr (db\<lparr>conflict_rows := update_where c
        (\<lambda>r. r\<lparr>cw_status := resolution, cw_resolved_at := Some at, cw_resolution_note := note\<rparr>) (conflict_rows db)\<rparr>))"

definition count_open_conflicts :: "local_index \<Rightarrow> u32" where
  "count_open_conflicts db = word_of_nat (changes (\<lambda>c. cw_status c = ''open'') (conflict_rows db))"

section \<open>Retention\<close>

definition settled_at :: "conflict_row \<Rightarrow> timestamp" where
  "settled_at c = (case cw_resolved_at c of Some t \<Rightarrow> t | None \<Rightarrow> cw_created_at c)"

definition prune_resolved_conflicts :: "timestamp \<Rightarrow> nat \<Rightarrow> local_index \<Rightarrow> nat \<times> local_index" where
  "prune_resolved_conflicts cutoff limit db =
     (let old = take limit (sort_key settled_at
            (filter (\<lambda>c. cw_status c \<noteq> ''open'' \<and> settled_at c < cutoff) (conflict_rows db)))
      in (length old, db\<lparr>conflict_rows := filter (\<lambda>c. cw_id c \<notin> cw_id ` set old) (conflict_rows db)\<rparr>))"

definition newer_revisions :: "revision_record \<Rightarrow> local_index \<Rightarrow> nat" where
  "newer_revisions r db =
     changes (\<lambda>v. rr_file_id v = rr_file_id r
       \<and> (rr_created_at r < rr_created_at v
          \<or> rr_created_at v = rr_created_at r \<and> rr_revision_id r < rr_revision_id v)) (revision_rows db)"

definition prunable_revision :: "libs \<Rightarrow> timestamp \<Rightarrow> nat \<Rightarrow> local_index \<Rightarrow> revision_record \<Rightarrow> bool" where
  "prunable_revision L cutoff keep db r \<longleftrightarrow>
     rr_created_at r < cutoff
     \<and> \<not> (\<exists>x \<in> set (object_rows db). map_option (uuid_text L) (ob_current_revision_id x) = Some (rr_revision_id r))
     \<and> keep \<le> newer_revisions r db"

definition prune_old_revisions :: "libs \<Rightarrow> timestamp \<Rightarrow> nat \<Rightarrow> nat \<Rightarrow> local_index \<Rightarrow> nat \<times> local_index" where
  "prune_old_revisions L cutoff keep limit db =
     (let old = take limit (sort_key rr_created_at (sort_key rr_revision_id
            (filter (prunable_revision L cutoff keep db) (revision_rows db))))
      in (length old, db\<lparr>revision_rows :=
            filter (\<lambda>r. rr_revision_id r \<notin> rr_revision_id ` set old) (revision_rows db)\<rparr>))"

definition drop_object :: "string \<Rightarrow> libs \<Rightarrow> local_index \<Rightarrow> local_index" where
  "drop_object i L db =
     db\<lparr>transfers := filter (\<lambda>t. \<not> (tq_file_id t = i \<and> tq_status t \<in> {Completed, Failed})) (transfers db),
        conflict_rows := filter (\<lambda>c. \<not> (cw_file_id c = i \<and> cw_status c \<noteq> ''open'')) (conflict_rows db),
        revision_rows := filter (\<lambda>r. rr_file_id r \<noteq> i) (revision_rows db),
        object_rows := filter (\<lambda>r. uuid_text L (ob_file_id r) \<noteq> i) (object_rows db)\<rparr>"

definition prune_deleted_objects :: "libs \<Rightarrow> timestamp \<Rightarrow> nat \<Rightarrow> local_index \<Rightarrow> nat \<times> local_index" where
  "prune_deleted_objects L cutoff limit db =
     (let old = take limit (sort_key ob_updated_at
            (filter (\<lambda>r. deleted_row r \<and> ob_updated_at r < cutoff) (object_rows db)));
          ids = map (\<lambda>r. uuid_text L (ob_file_id r)) old
      in (length old, fold (\<lambda>i. drop_object i L) ids db))"

end
