(* ===== verification/Notes_Index.thy ===== *)
theory Notes_Index
  imports Revision_Store
begin

text \<open>
  What Notes keeps in the local database (the \<open>notes_*\<close> methods of \<open>db.rs\<close>): the bound
  root, the save tokens, the topology generation, and the projection of a mutation
  journal entry (\<open>fs_mutations/journal.rs\<close>) on the index and the transfer queue. The
  state of an indexed identity is the \<open>object_state\<close> its text names, as the schema's
  check demands, and a size is below \<open>2 ^ 63\<close>, as SQLite's integers demand.
\<close>

section \<open>Journal entries\<close>

datatype mutation_kind =
    M_Create_Note | M_Create_Folder | M_Save | M_Rename | M_Move | M_Delete | M_Restore

fun mutation_kind_text :: "mutation_kind \<Rightarrow> string" where
  "mutation_kind_text M_Create_Note = ''CreateNote''"
| "mutation_kind_text M_Create_Folder = ''CreateFolder''"
| "mutation_kind_text M_Save = ''Save''"
| "mutation_kind_text M_Rename = ''Rename''"
| "mutation_kind_text M_Move = ''Move''"
| "mutation_kind_text M_Delete = ''Delete''"
| "mutation_kind_text M_Restore = ''Restore''"

record indexed_identity =
  id_metadata_available :: bool
  id_entry :: file_entry
  id_relative :: string
  id_state :: object_state
  id_token :: "save_token option"

text \<open>
  The fields of an intent the database reads; the others (hashes and identities the
  file publication checks, the acknowledgement) do not reach it.
\<close>

record mutation_intent =
  mi_sequence :: u64
  mi_workspace_id :: uuid
  mi_request_id :: uuid
  mi_file_id :: file_id
  mi_root_id :: file_id
  mi_root_identity :: string
  mi_kind :: mutation_kind
  mi_stage :: string
  mi_created_at :: timestamp
  mi_baseline :: "indexed_identity list"
  mi_changes :: "indexed_identity list"
  mi_no_op :: bool

section \<open>The root\<close>

definition notes_previous_root :: "libs \<Rightarrow> local_index \<Rightarrow> file_id option" where
  "notes_previous_root L db =
     (let rows = filter (\<lambda>r. ob_s3_key r = ''Notes'' \<and> ob_is_folder r
            \<and> get_checkpoint (''notes/retired-root/'' @ uuid_text L (ob_file_id r)) db = None) (object_rows db)
      in map_option ob_file_id
        (case last_row (filter live_row rows) of Some r \<Rightarrow> Some r | None \<Rightarrow> last_row rows))"

definition notes_root_binding :: "uuid \<Rightarrow> local_index \<Rightarrow> file_id option" where
  "notes_root_binding ws db = map_of (note_roots db) ws"

definition notes_bind_root :: "uuid \<Rightarrow> file_id \<Rightarrow> local_index \<Rightarrow> file_id \<times> local_index" where
  "notes_bind_root ws root db =
     (case map_of (note_roots db) ws of
        Some bound \<Rightarrow> (bound, db)
      | None \<Rightarrow> (root, db\<lparr>note_roots := note_roots db @ [(ws, root)]\<rparr>))"

definition root_identity_name :: "libs \<Rightarrow> uuid \<Rightarrow> string" where
  "root_identity_name L ws = ''notes/root-identity/'' @ uuid_text L ws"

definition notes_accept_recovered_root :: "libs \<Rightarrow> file_id \<Rightarrow> bool \<Rightarrow> local_index \<Rightarrow> local_index" where
  "notes_accept_recovered_root L root retire db =
     (let names = map (\<lambda>(ws, r). root_identity_name L ws)
            (filter (\<lambda>(ws, r). r = root) (note_roots db));
          db1 = db\<lparr>checkpoints := filter (\<lambda>c. fst c \<notin> set names) (checkpoints db)\<rparr>
      in if retire
         then (set_checkpoint (''notes/retired-root/'' @ uuid_text L root) ''1'' db1)
                \<lparr>note_roots := filter (\<lambda>(ws, r). r \<noteq> root) (note_roots db)\<rparr>
         else db1)"

text \<open>The live rows reachable from the root by parent links, to a depth; a level per step.\<close>

primrec subtree_level :: "file_id \<Rightarrow> local_index \<Rightarrow> nat \<Rightarrow> file_id list" where
  "subtree_level root db 0 =
     map ob_file_id (filter (\<lambda>r. ob_file_id r = root \<and> ob_is_folder r \<and> \<not> deleted_row r) (object_rows db))"
| "subtree_level root db (Suc k) =
     map ob_file_id (filter (\<lambda>r. \<not> deleted_row r
       \<and> (case ob_parent_file_id r of Some p \<Rightarrow> p \<in> set (subtree_level root db k) | None \<Rightarrow> False)) (object_rows db))"

definition depth_of :: "file_id \<Rightarrow> local_index \<Rightarrow> nat \<Rightarrow> file_id \<Rightarrow> nat option" where
  "depth_of root db max_depth i = find (\<lambda>k. i \<in> set (subtree_level root db k)) [0..<Suc max_depth]"

definition notes_root_subtree ::
    "libs \<Rightarrow> file_id \<Rightarrow> nat \<Rightarrow> local_index \<Rightarrow> (file_entry \<times> string \<times> object_state) list" where
  "notes_root_subtree L root max_depth db =
     map (\<lambda>r. (file_entry_from_index_row L r, ob_s3_key r, ob_state r))
       (sort_key (\<lambda>r. case depth_of root db max_depth (ob_file_id r) of Some k \<Rightarrow> k | None \<Rightarrow> 0)
         (sort_key ob_s3_key
           (filter (\<lambda>r. depth_of root db max_depth (ob_file_id r) \<noteq> None) (object_rows db))))"

section \<open>Tokens and generations\<close>

definition put_token :: "uuid \<times> file_id \<Rightarrow> save_token \<Rightarrow> bool \<Rightarrow> local_index \<Rightarrow> local_index" where
  "put_token k t replace db =
     (if \<exists>v \<in> set (note_versions db). fst v = k
      then if replace
        then db\<lparr>note_versions := update_where (\<lambda>v. fst v = k) (\<lambda>v. (k, t)) (note_versions db)\<rparr>
        else db
      else db\<lparr>note_versions := note_versions db @ [(k, t)]\<rparr>)"

definition notes_token_projection :: "uuid \<Rightarrow> file_id \<Rightarrow> local_index \<Rightarrow> save_token option" where
  "notes_token_projection ws i db = map_of (note_versions db) (ws, i)"

definition notes_content_token :: "uuid \<Rightarrow> file_id \<Rightarrow> string \<Rightarrow> local_index \<Rightarrow> save_token \<times> local_index" where
  "notes_content_token ws i h db =
     (case notes_token_projection ws i db of
        None \<Rightarrow> (let t = \<lparr>st_generation = 1, st_content_hash = h\<rparr> in (t, put_token (ws, i) t True db))
      | Some old \<Rightarrow>
          if st_content_hash old = h then (old, db)
          else (let t = \<lparr>st_generation = st_generation old + 1, st_content_hash = h\<rparr> in
            (t, put_token (ws, i) t True db)))"

definition notes_topology_generation :: "uuid \<Rightarrow> string \<Rightarrow> local_index \<Rightarrow> nat \<times> local_index" where
  "notes_topology_generation ws signature db =
     (case map_of (note_workspaces db) ws of
        None \<Rightarrow> (1, db\<lparr>note_workspaces := note_workspaces db @ [(ws, 1, Some signature)]\<rparr>)
      | Some (g, h) \<Rightarrow>
          if h = Some signature then (g, db)
          else (g + 1, db\<lparr>note_workspaces :=
            update_where (\<lambda>w. fst w = ws) (\<lambda>w. (ws, g + 1, Some signature)) (note_workspaces db)\<rparr>))"

section \<open>Entries\<close>

definition in_notes :: "string \<Rightarrow> bool" where
  "in_notes k \<longleftrightarrow> k = ''Notes'' \<or> take 6 k = ''Notes/''"

definition notes_indexed_entries :: "libs \<Rightarrow> local_index \<Rightarrow> file_entry list" where
  "notes_indexed_entries L db =
     map (file_entry_from_index_row L)
       (sort_key ob_s3_key (sort_key (\<lambda>r. uuid_text L (ob_file_id r))
         (filter (\<lambda>r. in_notes (ob_s3_key r) \<and> \<not> deleted_row r) (object_rows db))))"

definition notes_count_cloud_only_missing :: "(string \<Rightarrow> bool) \<Rightarrow> string \<Rightarrow> local_index \<Rightarrow> nat" where
  "notes_count_cloud_only_missing exists sync_root db =
     changes (\<lambda>r. in_notes (ob_s3_key r) \<and> \<not> ob_is_folder r \<and> \<not> deleted_row r
       \<and> (ob_state r = Pending_Download
          \<or> \<not> exists (path_push sync_root (if ob_local_path r \<noteq> [] then ob_local_path r else ob_s3_key r))))
       (object_rows db)"

text \<open>
  \<open>status IN ('pending', 'running')\<close>: the statuses the query asks for, as the texts
  \<open>transfer_status\<close> is stored as.
\<close>

fun transfer_status_text :: "transfer_status \<Rightarrow> string" where
  "transfer_status_text Queued = ''queued''"
| "transfer_status_text In_Progress = ''in_progress''"
| "transfer_status_text Paused = ''paused''"
| "transfer_status_text Completed = ''completed''"
| "transfer_status_text Failed = ''failed''"

definition notes_has_pending_mutations :: "uuid \<Rightarrow> local_index \<Rightarrow> bool" where
  "notes_has_pending_mutations ws db \<longleftrightarrow>
     changes (\<lambda>m. mu_workspace_id m = ws) (mutation_rows db) > 0
     \<or> changes (\<lambda>t. in_notes (tq_s3_key t) \<and> tq_direction t = Upload
          \<and> transfer_status_text (tq_status t) \<in> {''pending'', ''running''}) (transfers db) > 0"

definition notes_reserve_local :: "file_entry \<Rightarrow> string \<Rightarrow> string \<Rightarrow> local_index \<Rightarrow> (file_id \<times> local_index) core_result" where
  "notes_reserve_local x local_path relative db =
     (let existing = take 2 (filter (\<lambda>r. (ob_s3_key r = relative \<or> local_path \<noteq> [] \<and> ob_local_path r = local_path)
            \<and> \<not> deleted_row r) (object_rows db))
      in case existing of
        [r] \<Rightarrow>
          if ob_is_folder r \<noteq> (fe_entry_type x = Folder) then Inl (NameExists relative)
          else Inr (ob_file_id r,
            (case fe_parent_id x of
               Some p \<Rightarrow> update_objects (\<lambda>q. ob_file_id q = ob_file_id r \<and> ob_parent_file_id q = None)
                 (\<lambda>q. q\<lparr>ob_parent_file_id := Some p\<rparr>) db
             | None \<Rightarrow> db))
      | [] \<Rightarrow>
          if row_of db (fe_file_id x) \<noteq> None then Inl (NameExists relative)
          else Inr (fe_file_id x,
            db\<lparr>object_rows := object_rows db
                 @ [\<lparr>ob_id = next_object db, ob_file_id = fe_file_id x, ob_local_path = local_path,
                     ob_s3_key = relative, ob_size = sint (fe_size x), ob_state = Pending_Upload,
                     ob_is_folder = (fe_entry_type x = Folder), ob_parent_file_id = fe_parent_id x,
                     ob_current_revision_id = fe_current_revision_id x, ob_local_hash = None,
                     ob_local_mtime = None, ob_created_at = fe_created_at x, ob_updated_at = fe_updated_at x,
                     ob_entry_metadata = None, ob_local_file_key = None, ob_remote_seen_scan_id = None\<rparr>],
               next_object := next_object db + 1\<rparr>)
      | _ \<Rightarrow> Inl (NameExists relative))"

definition entry_metadata_available :: "file_id \<Rightarrow> local_index \<Rightarrow> bool" where
  "entry_metadata_available i db = (case row_of db i of Some r \<Rightarrow> ob_entry_metadata r \<noteq> None | None \<Rightarrow> False)"

section \<open>Projecting a journal entry\<close>

definition put_mutation :: "mutation_intent \<Rightarrow> string \<Rightarrow> local_index \<Rightarrow> local_index" where
  "put_mutation x stage db =
     (if \<exists>m \<in> set (mutation_rows db). mu_request_id m = mi_request_id x
      then db\<lparr>mutation_rows := update_where (\<lambda>m. mu_request_id m = mi_request_id x)
        (\<lambda>m. m\<lparr>mu_stage := stage\<rparr>) (mutation_rows db)\<rparr>
      else db\<lparr>mutation_rows := mutation_rows db
        @ [\<lparr>mu_request_id = mi_request_id x, mu_workspace_id = mi_workspace_id x, mu_file_id = mi_file_id x,
            mu_kind = mutation_kind_text (mi_kind x), mu_stage = stage, mu_created_at = mi_created_at x\<rparr>]\<rparr>)"

definition notes_mutation_stages :: "libs \<Rightarrow> local_index \<Rightarrow> (uuid \<times> string) list" where
  "notes_mutation_stages L db =
     map (\<lambda>m. (mu_request_id m, mu_stage m))
       (sort_key mu_created_at (sort_key (\<lambda>m. uuid_text L (mu_request_id m)) (mutation_rows db)))"

definition notes_mark_mutation_committed :: "uuid \<Rightarrow> local_index \<Rightarrow> bool \<times> local_index" where
  "notes_mark_mutation_committed request db =
     (let c = (\<lambda>m. mu_request_id m = request \<and> mu_stage m = ''indexed'') in
      (changes c (mutation_rows db) = 1,
       db\<lparr>mutation_rows := update_where c (\<lambda>m. m\<lparr>mu_stage := ''committed''\<rparr>) (mutation_rows db)\<rparr>))"

definition identity_metadata :: "indexed_identity \<Rightarrow> supplemental_metadata option" where
  "identity_metadata d = (if id_metadata_available d then Some (encode_entry_metadata (id_entry d)) else None)"

definition insert_identity :: "string \<Rightarrow> indexed_identity \<Rightarrow> local_index \<Rightarrow> local_index" where
  "insert_identity root d db =
     (let x = id_entry d in
      if row_of db (fe_file_id x) \<noteq> None then db
      else db\<lparr>object_rows := object_rows db
            @ [\<lparr>ob_id = next_object db, ob_file_id = fe_file_id x, ob_local_path = path_push root (id_relative d),
                ob_s3_key = id_relative d, ob_size = uint (fe_size x), ob_state = id_state d,
                ob_is_folder = (fe_entry_type x = Folder), ob_parent_file_id = fe_parent_id x,
                ob_current_revision_id = fe_current_revision_id x, ob_local_hash = fe_content_hash x,
                ob_local_mtime = None, ob_created_at = fe_created_at x, ob_updated_at = fe_updated_at x,
                ob_entry_metadata = identity_metadata d, ob_local_file_key = None,
                ob_remote_seen_scan_id = None\<rparr>],
          next_object := next_object db + 1\<rparr>)"

definition rebuild_identity :: "string \<Rightarrow> indexed_identity \<Rightarrow> local_index \<Rightarrow> local_index" where
  "rebuild_identity root d =
     (let x = id_entry d in
      update_objects (\<lambda>r. ob_file_id r = fe_file_id x)
        (\<lambda>r. r\<lparr>ob_local_path := path_push root (id_relative d), ob_s3_key := id_relative d,
               ob_size := uint (fe_size x), ob_state := id_state d, ob_parent_file_id := fe_parent_id x,
               ob_current_revision_id := fe_current_revision_id x, ob_local_hash := fe_content_hash x,
               ob_created_at := fe_created_at x, ob_updated_at := fe_updated_at x,
               ob_entry_metadata := identity_metadata d\<rparr>))"

definition replace_identity :: "string \<Rightarrow> indexed_identity \<Rightarrow> local_index \<Rightarrow> local_index" where
  "replace_identity root d =
     (let x = id_entry d in
      update_objects (\<lambda>r. ob_file_id r = fe_file_id x)
        (\<lambda>r. r\<lparr>ob_local_path := path_push root (id_relative d), ob_s3_key := id_relative d,
               ob_size := uint (fe_size x),
               ob_state := (if ob_state r = Ignored \<and> id_state d \<noteq> Deleted_Locally then ob_state r else id_state d),
               ob_parent_file_id := fe_parent_id x, ob_updated_at := fe_updated_at x,
               ob_entry_metadata := (case identity_metadata d of Some m \<Rightarrow> Some m | None \<Rightarrow> ob_entry_metadata r)\<rparr>))"

definition redirect_transfers ::
    "libs \<Rightarrow> timestamp \<Rightarrow> string \<Rightarrow> mutation_kind \<Rightarrow> indexed_identity \<Rightarrow> local_index \<Rightarrow> local_index" where
  "redirect_transfers L at root kind d =
     (let i = fe_file_id (id_entry d) in
      case kind of
        M_Delete \<Rightarrow> update_transfers (\<lambda>t. tq_file_id t = uuid_text L i \<and> tq_status t \<in> active_status)
          (\<lambda>t. t\<lparr>tq_status := Failed, tq_error_message := Some ''Superseded by a local mutation''\<rparr>)
      | M_Rename \<Rightarrow> repoint_transfers L at i (path_push root (id_relative d)) (id_relative d)
      | M_Move \<Rightarrow> repoint_transfers L at i (path_push root (id_relative d)) (id_relative d)
      | _ \<Rightarrow> (\<lambda>db. db))"

definition project_identity ::
    "libs \<Rightarrow> timestamp \<Rightarrow> string \<Rightarrow> mutation_intent \<Rightarrow> bool \<Rightarrow> bool \<Rightarrow> indexed_identity \<Rightarrow> local_index \<Rightarrow> local_index" where
  "project_identity L at root x rebuild replace d db =
     (let db1 = insert_identity root d db;
          db2 = (if rebuild then rebuild_identity root d db1 else db1);
          db3 = (if replace then redirect_transfers L at root (mi_kind x) d (replace_identity root d db2) else db2)
      in case id_token d of
           Some t \<Rightarrow> put_token (mi_workspace_id x, fe_file_id (id_entry d)) t replace db3
         | None \<Rightarrow> db3)"

definition mutation_indexed :: "uuid \<Rightarrow> local_index \<Rightarrow> bool" where
  "mutation_indexed request db \<longleftrightarrow>
     list_ex (\<lambda>m. mu_request_id m = request \<and> mu_stage m = ''indexed'') (mutation_rows db)"

definition queue_identity :: "libs \<Rightarrow> timestamp \<Rightarrow> string \<Rightarrow> indexed_identity \<Rightarrow> local_index \<Rightarrow> local_index" where
  "queue_identity L at root d db =
     (if fe_entry_type (id_entry d) = File \<and> id_state d \<noteq> Ignored
      then add_transfer at Upload (uuid_text L (fe_file_id (id_entry d))) (path_push root (id_relative d))
        (id_relative d) (fe_size (id_entry d)) (map_option st_content_hash (id_token d)) db
      else db)"

definition queues_content :: "mutation_intent \<Rightarrow> bool" where
  "queues_content x \<longleftrightarrow> \<not> mi_no_op x \<and> mi_kind x \<in> {M_Create_Note, M_Save, M_Restore}"

definition project_notes_intent ::
    "libs \<Rightarrow> timestamp \<Rightarrow> string \<Rightarrow> mutation_intent \<Rightarrow> bool \<Rightarrow> bool \<Rightarrow> local_index \<Rightarrow> local_index" where
  "project_notes_intent L at root x apply_changes rebuild db =
     (let db1 = fold (project_identity L at root x rebuild False) (mi_baseline x) db;
          db2 = (if apply_changes then fold (project_identity L at root x rebuild True) (mi_changes x) db1 else db1);
          db3 = snd (notes_bind_root (mi_workspace_id x) (mi_root_id x) db2);
          name = root_identity_name L (mi_workspace_id x);
          db4 = (if get_checkpoint name db3 = None then set_checkpoint name (mi_root_identity x) db3 else db3);
          db5 = (if apply_changes \<and> \<not> mutation_indexed (mi_request_id x) db4 \<and> queues_content x
                 then fold (queue_identity L at root) (mi_changes x) db4 else db4)
      in put_mutation x (if apply_changes then ''indexed'' else mi_stage x) db5)"

definition notes_project_intent ::
    "libs \<Rightarrow> timestamp \<Rightarrow> string \<Rightarrow> mutation_intent \<Rightarrow> bool \<Rightarrow> local_index \<Rightarrow> local_index" where
  "notes_project_intent L at root x apply_changes db = project_notes_intent L at root x apply_changes False db"

definition notes_rebuild_intent ::
    "libs \<Rightarrow> timestamp \<Rightarrow> string \<Rightarrow> mutation_intent \<Rightarrow> bool \<Rightarrow> local_index \<Rightarrow> local_index" where
  "notes_rebuild_intent L at root x apply_changes db = project_notes_intent L at root x apply_changes True db"

section \<open>Returning a moved root\<close>

definition relocation_changed :: core_error where
  "relocation_changed = Conflict ''The Notes index changed while its folder was being restored.''"

definition relocate_identity ::
    "libs \<Rightarrow> timestamp \<Rightarrow> string \<Rightarrow> mutation_intent \<Rightarrow> indexed_identity \<Rightarrow> local_index \<Rightarrow> local_index core_result" where
  "relocate_identity L at root x d db =
     (case find (\<lambda>old. fe_file_id (id_entry old) = fe_file_id (id_entry d)) (mi_baseline x) of
        None \<Rightarrow> Inl relocation_changed
      | Some old \<Rightarrow>
          (let i = fe_file_id (id_entry d);
               old_local = path_push root (id_relative old); new_local = path_push root (id_relative d);
               c = (\<lambda>r. ob_file_id r = i \<and> ob_s3_key r \<in> {id_relative old, id_relative d} \<and> \<not> deleted_row r);
               db1 = update_objects c
                 (\<lambda>r. r\<lparr>ob_local_path := new_local, ob_s3_key := id_relative d,
                        ob_parent_file_id := fe_parent_id (id_entry d),
                        ob_state := (if i = mi_root_id x then id_state d else ob_state r), ob_updated_at := at\<rparr>) db
           in if changes c (object_rows db) \<noteq> 1 then Inl relocation_changed
              else Inr (update_transfers (\<lambda>t. tq_file_id t = uuid_text L i \<and> tq_local_path t = old_local
                     \<and> tq_status t \<noteq> Completed)
                (\<lambda>t. t\<lparr>tq_local_path := new_local,
                       tq_s3_key := (if tq_direction t = Upload then id_relative d else tq_s3_key t),
                       tq_updated_at := at\<rparr>) db1)))"

primrec fold_result :: "('x \<Rightarrow> 's \<Rightarrow> 's core_result) \<Rightarrow> 'x list \<Rightarrow> 's \<Rightarrow> 's core_result" where
  "fold_result f [] s = Inr s"
| "fold_result f (x # xs) s = (case f x s of Inl e \<Rightarrow> Inl e | Inr s' \<Rightarrow> fold_result f xs s')"

text \<open>One transaction: an error leaves the tables as they were.\<close>

definition notes_project_root_relocation ::
    "libs \<Rightarrow> timestamp \<Rightarrow> string \<Rightarrow> mutation_intent \<Rightarrow> local_index \<Rightarrow> local_index core_result" where
  "notes_project_root_relocation L at root x db =
     (case fold_result (relocate_identity L at root x) (mi_changes x) db of
        Inl e \<Rightarrow> Inl e
      | Inr db1 \<Rightarrow>
          (let (bound, db2) = notes_bind_root (mi_workspace_id x) (mi_root_id x) db1 in
           if bound \<noteq> mi_root_id x then Inl relocation_changed
           else Inr (put_mutation x ''indexed'' db2)))"

end
