(* ===== verification/Index_Safety.thy ===== *)
theory Index_Safety
  imports Notes_Index
begin

text \<open>
  What every method of the local database keeps: the keys its schema declares unique are
  unique, the rows of a table are in the order of their row ids and below the next one,
  and every revision has its object. \<open>index_step\<close> is one call of a method with any
  arguments; the invariant is proved by rule induction over it.
\<close>

definition rows_ok :: "('r \<Rightarrow> nat) \<Rightarrow> nat \<Rightarrow> 'r list \<Rightarrow> bool" where
  "rows_ok key bound rs \<longleftrightarrow> sorted_wrt (<) (map key rs) \<and> (\<forall>r \<in> set rs. key r < bound)"

definition tables_ok :: "local_index \<Rightarrow> bool" where
  "tables_ok db \<longleftrightarrow>
     rows_ok ob_id (next_object db) (object_rows db)
   \<and> rows_ok tq_id (next_transfer db) (transfers db)
   \<and> rows_ok cw_id (next_conflict db) (conflict_rows db)"

definition keys_ok :: "local_index \<Rightarrow> bool" where
  "keys_ok db \<longleftrightarrow>
     distinct (map ob_file_id (object_rows db)) \<and> distinct (map rr_revision_id (revision_rows db))
   \<and> distinct (map cw_conflict_id (conflict_rows db)) \<and> distinct (map fst (checkpoints db))
   \<and> distinct (map bc_blob_key (blob_candidates db)) \<and> distinct (map fst (note_versions db))
   \<and> distinct (map fst (note_workspaces db)) \<and> distinct (map fst (note_roots db))
   \<and> distinct (map mu_request_id (mutation_rows db))"

definition references_ok :: "libs \<Rightarrow> local_index \<Rightarrow> bool" where
  "references_ok L db \<longleftrightarrow> (\<forall>v \<in> set (revision_rows db). has_object L (rr_file_id v) db)"

definition index_ok :: "libs \<Rightarrow> local_index \<Rightarrow> bool" where
  "index_ok L db \<longleftrightarrow> tables_ok db \<and> keys_ok db \<and> references_ok L db"

section \<open>Table operations\<close>

lemma rows_ok_Nil [simp]: "rows_ok key bound []"
  by (simp add: rows_ok_def)

lemma rows_ok_filter [intro]: "rows_ok key bound rs \<Longrightarrow> rows_ok key bound (filter c rs)"
  by (auto simp: rows_ok_def sorted_wrt_map sorted_wrt_filter)

lemma rows_ok_snoc:
  "rows_ok key bound rs \<Longrightarrow> key r = bound \<Longrightarrow> rows_ok key (Suc bound) (rs @ [r])"
  by (auto simp: rows_ok_def sorted_wrt_append)

lemma map_update_where [simp]:
  assumes "\<And>r. key (f r) = key r"
  shows "map key (update_where c f rs) = map key rs"
  using assms by (simp add: update_where_def)

lemma set_update_where: "set (update_where c f rs) = (\<lambda>r. if c r then f r else r) ` set rs"
  by (simp add: update_where_def)

lemma rows_ok_update [intro]:
  assumes "rows_ok key bound rs" "\<And>r. key (f r) = key r"
  shows "rows_ok key bound (update_where c f rs)"
  using assms by (auto simp: rows_ok_def set_update_where simp del: map_map)

lemma keys_update_where:
  assumes "\<And>r. c r \<Longrightarrow> key (f r) = key r"
  shows "map key (update_where c f rs) = map key rs"
  using assms by (simp add: update_where_def)

lemma distinct_map_filter_snoc:
  "distinct (map key rs) \<Longrightarrow> (\<And>x. x \<in> set rs \<Longrightarrow> c x \<Longrightarrow> key x \<noteq> key r) \<Longrightarrow> distinct (map key (filter c rs @ [r]))"
  by (fastforce simp: distinct_map_filter)

lemma first_row_None [simp]: "first_row rs = None \<longleftrightarrow> rs = []"
  by (cases rs) (simp_all add: first_row_def)

text \<open>Objects keep their ids, and revisions their objects, when no row goes.\<close>

definition ids_of :: "local_index \<Rightarrow> file_id set" where
  "ids_of db = ob_file_id ` set (object_rows db)"

lemma has_object_ids: "has_object L i db \<longleftrightarrow> i \<in> uuid_text L ` ids_of db"
  by (auto simp: has_object_def ids_of_def)

lemma ids_of_map: "ids_of db = set (map ob_file_id (object_rows db))"
  by (simp add: ids_of_def)

lemma references_ok_mono:
  assumes "references_ok L db" "revision_rows db' = revision_rows db" "ids_of db \<subseteq> ids_of db'"
  shows "references_ok L db'"
  using assms by (auto simp: references_ok_def has_object_ids)

lemma index_ok_update_objects [intro]:
  assumes "index_ok L db" "\<And>r. ob_id (f r) = ob_id r \<and> ob_file_id (f r) = ob_file_id r"
  shows "index_ok L (update_objects c f db)"
proof -
  have "ids_of (update_objects c f db) = ids_of db"
    using keys_update_where [of c ob_file_id f "object_rows db"] assms(2)
    by (simp add: ids_of_map update_objects_def del: set_map)
  then show ?thesis
    using assms references_ok_mono [of L db "update_objects c f db"]
    by (auto simp: index_ok_def tables_ok_def keys_ok_def update_objects_def keys_update_where intro!: rows_ok_update)
qed

lemma index_ok_update_transfers [intro]:
  assumes "index_ok L db" "\<And>t. tq_id (f t) = tq_id t"
  shows "index_ok L (update_transfers c f db)"
  using assms references_ok_mono [of L db "update_transfers c f db"]
  by (auto simp: index_ok_def tables_ok_def keys_ok_def update_transfers_def ids_of_def intro!: rows_ok_update)

lemma index_ok_add_transfer [intro]:
  assumes "index_ok L db"
  shows "index_ok L (add_transfer at d i p k n b db)"
  using assms references_ok_mono [of L db "add_transfer at d i p k n b db"]
  by (auto simp: index_ok_def tables_ok_def keys_ok_def add_transfer_def ids_of_def intro!: rows_ok_snoc)

lemma index_ok_filter_transfers [intro]:
  assumes "index_ok L db"
  shows "index_ok L (db\<lparr>transfers := filter c (transfers db)\<rparr>)"
  using assms references_ok_mono [of L db "db\<lparr>transfers := filter c (transfers db)\<rparr>"]
  by (auto simp: index_ok_def tables_ok_def keys_ok_def ids_of_def)

lemma write_file_index_ids [simp]: "ids_of (write_file_index P x p k s db) = insert (fe_file_id x) (ids_of db)"
  by (auto simp: ids_of_def write_file_index_def)

lemma index_ok_write_file_index [intro]:
  assumes "index_ok L db"
  shows "index_ok L (write_file_index P x p k s db)"
proof -
  let ?db = "write_file_index P x p k s db"
  have "references_ok L ?db"
    by (rule references_ok_mono [of _ db]) (use assms in \<open>auto simp: index_ok_def write_file_index_def ids_of_def\<close>)
  moreover have "tables_ok ?db"
    using assms by (auto simp: index_ok_def tables_ok_def write_file_index_def intro!: rows_ok_snoc)
  moreover have "keys_ok ?db"
    using assms by (auto simp: index_ok_def keys_ok_def write_file_index_def distinct_map_filter)
  ultimately show ?thesis by (simp add: index_ok_def)
qed

lemma set_checkpoint_ok [intro]:
  assumes "index_ok L db"
  shows "index_ok L (set_checkpoint n v db)"
  using assms references_ok_mono [of L db "set_checkpoint n v db"]
  by (auto simp: index_ok_def tables_ok_def keys_ok_def set_checkpoint_def ids_of_def distinct_map_filter)

section \<open>Methods\<close>

lemma update_job_ok [intro]:
  assumes "index_ok L db" "update_job i f db = Inr db'" "\<And>t. tq_id (f t) = tq_id t"
  shows "index_ok L db'"
  using assms by (auto simp: update_job_def split: if_splits)

lemma completed_row_id [simp]: "tq_id (completed_row at t) = tq_id t"
  by (simp add: completed_row_def)

lemma enqueue_transfer_ok [intro]: "index_ok L db \<Longrightarrow> index_ok L (enqueue_transfer at d i p k n b db)"
  by (auto simp: enqueue_transfer_def)

lemma finish_upload_ok [intro]:
  assumes "index_ok L db"
  shows "index_ok L (snd (finish_upload L P at job x same db))"
  using assms by (auto simp: finish_upload_def Let_def split: option.splits)

lemma replace_checkpoint_ok [intro]: "index_ok L db \<Longrightarrow> index_ok L (snd (replace_checkpoint n e v db))"
  by (auto simp: replace_checkpoint_def split: option.splits)

lemma candidates_ok:
  assumes "index_ok L db" "distinct (map bc_blob_key cs)"
  shows "index_ok L (db\<lparr>blob_candidates := cs\<rparr>)"
  using assms references_ok_mono [of L db "db\<lparr>blob_candidates := cs\<rparr>"]
  by (auto simp: index_ok_def tables_ok_def keys_ok_def ids_of_def)

lemma candidates_distinct: "index_ok L db \<Longrightarrow> distinct (map bc_blob_key (blob_candidates db))"
  by (simp add: index_ok_def keys_ok_def)

lemma upsert_candidate_ok [intro]:
  "index_ok L db \<Longrightarrow> index_ok L (upsert_remote_blob_gc_candidate at key h i until db)"
  unfolding upsert_remote_blob_gc_candidate_def
  by (rule candidates_ok) (auto simp: keys_update_where dest: candidates_distinct)

lemma remove_candidate_ok [intro]:
  "index_ok L db \<Longrightarrow> index_ok L (remove_remote_blob_gc_candidate key db)"
  unfolding remove_remote_blob_gc_candidate_def
  by (rule candidates_ok) (auto simp: distinct_map_filter dest: candidates_distinct)

lemma update_candidates_ok [intro]:
  "index_ok L db \<Longrightarrow> (\<And>c. bc_blob_key (f c) = bc_blob_key c) \<Longrightarrow> index_ok L (update_candidates key f db)"
  unfolding update_candidates_def
  by (rule candidates_ok) (auto simp: keys_update_where dest: candidates_distinct)

lemma get_revision_None: "get_revision i db = None \<longleftrightarrow> i \<notin> rr_revision_id ` set (revision_rows db)"
  by (auto simp: get_revision_def first_row_None filter_empty_conv)

lemma insert_revision_ok [intro]:
  assumes "index_ok L db" "insert_revision L v db = Inr db'"
  shows "index_ok L db'"
proof (cases "revision_constraints L v db")
  case None
  then have v: "get_revision (rr_revision_id v) db = None" "has_object L (rr_file_id v) db"
    and db': "db' = db\<lparr>revision_rows := revision_rows db @ [v]\<rparr>"
    using assms(2) by (auto simp: insert_revision_def revision_constraints_def split: if_splits)
  have "references_ok L db'"
    using assms(1) v by (auto simp: db' index_ok_def references_ok_def has_object_def)
  then show ?thesis
    using assms(1) v by (auto simp: db' index_ok_def tables_ok_def keys_ok_def get_revision_None)
next
  case (Some m)
  then show ?thesis using assms by (auto simp: insert_revision_def split: option.splits if_splits)
qed

lemma filter_revisions_ok:
  assumes "index_ok L db"
  shows "index_ok L (db\<lparr>revision_rows := filter c (revision_rows db)\<rparr>)"
  using assms by (auto simp: index_ok_def tables_ok_def keys_ok_def references_ok_def has_object_def distinct_map_filter)

lemma conflicts_ok:
  assumes "index_ok L db" "rows_ok cw_id n cs" "distinct (map cw_conflict_id cs)"
  shows "index_ok L (db\<lparr>conflict_rows := cs, next_conflict := n\<rparr>)"
  using assms references_ok_mono [of L db "db\<lparr>conflict_rows := cs, next_conflict := n\<rparr>"]
  by (auto simp: index_ok_def tables_ok_def keys_ok_def ids_of_def)

lemma conflict_facts:
  assumes "index_ok L db"
  shows "rows_ok cw_id (next_conflict db) (conflict_rows db)" "distinct (map cw_conflict_id (conflict_rows db))"
  using assms by (simp_all add: index_ok_def tables_ok_def keys_ok_def)

lemma conflicts_same_ok:
  assumes "index_ok L db" "rows_ok cw_id (next_conflict db) cs" "distinct (map cw_conflict_id cs)"
  shows "index_ok L (db\<lparr>conflict_rows := cs\<rparr>)"
  using conflicts_ok [OF assms] by simp

lemma insert_conflict_ok [intro]:
  assumes "index_ok L db" "insert_conflict_record c db = Inr db'"
  shows "index_ok L db'"
proof -
  have "db' = db\<lparr>conflict_rows := conflict_rows db
      @ [c\<lparr>cw_id := next_conflict db, cw_status := ''open'', cw_resolved_at := None, cw_resolution_note := []\<rparr>],
      next_conflict := next_conflict db + 1\<rparr>"
    and "cw_conflict_id c \<notin> cw_conflict_id ` set (conflict_rows db)"
    using assms(2) by (auto simp: insert_conflict_record_def split: if_splits)
  then show ?thesis
    using conflict_facts [OF assms(1)] by (auto intro!: conflicts_ok [OF assms(1)] rows_ok_snoc)
qed

lemma resolve_conflict_ok [intro]:
  assumes "index_ok L db" "resolve_conflict at i s note db = Inr db'"
  shows "index_ok L db'"
  using assms conflict_facts [OF assms(1)]
  by (auto simp: resolve_conflict_def Let_def keys_update_where split: if_splits
      intro!: conflicts_same_ok rows_ok_update)

lemma prune_conflicts_ok [intro]: "index_ok L db \<Longrightarrow> index_ok L (snd (prune_resolved_conflicts cutoff limit db))"
  by (auto simp: prune_resolved_conflicts_def Let_def distinct_map_filter
      intro!: conflicts_same_ok dest: conflict_facts)

lemma drop_object_ok [intro]:
  assumes "index_ok L db"
  shows "index_ok L (drop_object i L db)"
proof -
  have "references_ok L (drop_object i L db)"
    using assms by (fastforce simp: index_ok_def references_ok_def drop_object_def has_object_def)
  then show ?thesis
    using assms by (auto simp: index_ok_def tables_ok_def keys_ok_def drop_object_def distinct_map_filter)
qed

lemma fold_ok: "(\<And>x db. index_ok L db \<Longrightarrow> index_ok L (f x db)) \<Longrightarrow> index_ok L db \<Longrightarrow> index_ok L (fold f xs db)"
  by (induction xs arbitrary: db) auto

lemma prune_objects_ok [intro]: "index_ok L db \<Longrightarrow> index_ok L (snd (prune_deleted_objects L cutoff limit db))"
  by (auto simp: prune_deleted_objects_def Let_def intro: fold_ok)

lemma remove_file_ok [intro]:
  assumes "index_ok L db" "remove_file L i db = Inr db'"
  shows "index_ok L db'"
proof (cases "db' = db")
  case False
  then have db': "db' = db\<lparr>object_rows := filter (\<lambda>r. ob_file_id r \<noteq> i) (object_rows db)\<rparr>"
    and unreferenced: "\<forall>v \<in> set (revision_rows db). rr_file_id v \<noteq> uuid_text L i"
    using assms(2) by (auto simp: remove_file_def split: if_splits)
  have "references_ok L db'"
    using assms(1) unreferenced
    by (simp add: index_ok_def references_ok_def has_object_def db') metis
  then show ?thesis
    using assms(1) by (auto simp: db' index_ok_def tables_ok_def keys_ok_def distinct_map_filter)
qed (use assms in simp)

lemma set_revision_content_ok [intro]:
  assumes "index_ok L db" "set_current_revision_content L at i v n h db = Inr db'"
  shows "index_ok L db'"
  using assms by (auto simp: set_current_revision_content_def split: if_splits)

text \<open>Notes.\<close>

lemma new_object_ok:
  assumes "index_ok L db" "ob_id r = next_object db" "ob_file_id r \<notin> ids_of db"
  shows "index_ok L (db\<lparr>object_rows := object_rows db @ [r], next_object := Suc (next_object db)\<rparr>)"
  using assms references_ok_mono [of L db "db\<lparr>object_rows := object_rows db @ [r], next_object := Suc (next_object db)\<rparr>"]
  by (auto simp: index_ok_def tables_ok_def keys_ok_def ids_of_def intro!: rows_ok_snoc)

lemma row_of_None: "row_of db i = None \<longleftrightarrow> i \<notin> ids_of db"
  by (auto simp: row_of_def first_row_None ids_of_def filter_empty_conv)

lemma insert_identity_ok [intro]: "index_ok L db \<Longrightarrow> index_ok L (insert_identity root d db)"
  by (auto simp: insert_identity_def Let_def row_of_None intro!: new_object_ok)

lemma versions_ok:
  assumes "index_ok L db" "distinct (map fst vs)"
  shows "index_ok L (db\<lparr>note_versions := vs\<rparr>)"
  using assms references_ok_mono [of L db "db\<lparr>note_versions := vs\<rparr>"]
  by (auto simp: index_ok_def tables_ok_def keys_ok_def ids_of_def)

lemma put_token_ok [intro]:
  assumes "index_ok L db"
  shows "index_ok L (put_token k t replace db)"
proof -
  have keys: "distinct (map fst (note_versions db))" using assms by (simp add: index_ok_def keys_ok_def)
  then have "distinct (map fst (update_where (\<lambda>v. fst v = k) (\<lambda>v. (k, t)) (note_versions db)))"
    by (subst keys_update_where) simp_all
  then show ?thesis
    using assms keys unfolding put_token_def by (auto intro!: versions_ok)
qed

lemma bind_root_ok [intro]:
  assumes "index_ok L db"
  shows "index_ok L (snd (notes_bind_root ws root db))"
  using assms references_ok_mono [of L db "snd (notes_bind_root ws root db)"]
  by (auto simp: index_ok_def tables_ok_def keys_ok_def notes_bind_root_def ids_of_def map_of_eq_None_iff
      split: option.splits)

lemma put_mutation_ok [intro]:
  assumes "index_ok L db"
  shows "index_ok L (put_mutation x stage db)"
  using assms references_ok_mono [of L db "put_mutation x stage db"]
  by (auto simp: index_ok_def tables_ok_def keys_ok_def put_mutation_def ids_of_def keys_update_where)

lemma if_ok: "index_ok L a \<Longrightarrow> index_ok L b \<Longrightarrow> index_ok L (if c then a else b)"
  by simp

lemma redirect_transfers_ok: "index_ok L db \<Longrightarrow> index_ok L (redirect_transfers L at root kind d db)"
  by (cases kind) (auto simp: redirect_transfers_def repoint_transfers_def Let_def)

lemma replace_identity_ok: "index_ok L db \<Longrightarrow> index_ok L (replace_identity root d db)"
  unfolding replace_identity_def Let_def by (rule index_ok_update_objects) simp_all

lemma rebuild_identity_ok: "index_ok L db \<Longrightarrow> index_ok L (rebuild_identity root d db)"
  unfolding rebuild_identity_def Let_def by (rule index_ok_update_objects) simp_all

lemma project_identity_ok: "index_ok L db \<Longrightarrow> index_ok L (project_identity L at root x rebuild replace d db)"
  unfolding project_identity_def Let_def
  by (cases "id_token d")
    (simp_all add: insert_identity_ok rebuild_identity_ok replace_identity_ok redirect_transfers_ok put_token_ok)

lemma queue_identity_ok: "index_ok L db \<Longrightarrow> index_ok L (queue_identity L at root d db)"
  by (auto simp: queue_identity_def)

lemma project_intent_ok [intro]: "index_ok L db \<Longrightarrow> index_ok L (project_notes_intent L at root x apply rebuild db)"
  unfolding project_notes_intent_def Let_def
  by (intro put_mutation_ok if_ok set_checkpoint_ok fold_ok bind_root_ok project_identity_ok queue_identity_ok)

lemma relocate_identity_ok:
  "index_ok L db \<Longrightarrow> relocate_identity L at root x d db = Inr db' \<Longrightarrow> index_ok L db'"
  unfolding relocate_identity_def Let_def
  by (clarsimp split: option.splits if_splits; intro index_ok_update_transfers index_ok_update_objects; simp)

lemma fold_result_ok:
  assumes "\<And>x s s'. P s \<Longrightarrow> f x s = Inr s' \<Longrightarrow> P s'"
  shows "P s \<Longrightarrow> fold_result f xs s = Inr s' \<Longrightarrow> P s'"
proof (induction xs arbitrary: s)
  case (Cons x xs)
  then show ?case using assms [of s x] by (auto split: sum.splits)
qed simp

lemma project_relocation_ok [intro]:
  assumes "index_ok L db" "notes_project_root_relocation L at root x db = Inr db'"
  shows "index_ok L db'"
proof -
  obtain db1 where db1: "fold_result (relocate_identity L at root x) (mi_changes x) db = Inr db1"
    and db': "db' = put_mutation x ''indexed'' (snd (notes_bind_root (mi_workspace_id x) (mi_root_id x) db1))"
    using assms(2)
    by (auto simp: notes_project_root_relocation_def Let_def split: sum.splits prod.splits if_splits)
  have "index_ok L db1"
    using assms(1) db1 by (rule fold_result_ok [of "index_ok L", rotated]) (rule relocate_identity_ok)
  then show ?thesis by (auto simp: db')
qed

section \<open>Calls\<close>

text \<open>One successful call of a method that writes; one that fails leaves the tables as they were.\<close>

inductive index_step :: "libs \<Rightarrow> local_index \<Rightarrow> local_index \<Rightarrow> bool" for L where
  upsert: "index_step L db (upsert_file_index P x p k s db)"
| synced: "index_step L db (mark_file_synced i db)"
| synced_content: "index_step L db (mark_file_synced_with_content at i n h db)"
| conflicted: "index_step L db (mark_file_conflict i db)"
| deleted: "index_step L db (mark_file_deleted at i db)"
| removed: "remove_file L i db = Inr db' \<Longrightarrow> index_step L db db'"
| relocated: "index_step L db (update_local_path at i p k db)"
| restamped: "index_step L db (update_local_mtime_by_path P at p db)"
| resized: "index_step L db (update_file_size at i n db)"
| reparented: "index_step L db (set_parent i q db)"
| seen: "index_step L db (mark_remote_tree_entry_seen i scan db)"
| restored: "set_current_revision_content L at i v n h db = Inr db' \<Longrightarrow> index_step L db db'"
| subtree_moved: "index_step L db (move_subtree at a b c d db)"
| subtree_deleted: "index_step L db (snd (mark_deleted_where L at folder s extra db))"
| enqueued: "index_step L db (enqueue_transfer at d i p k n b db)"
| job_status: "update_transfer_status at j s db = Inr db' \<Longrightarrow> index_step L db db'"
| job_failed: "fail_transfer at j message db = Inr db' \<Longrightarrow> index_step L db db'"
| job_retried: "increment_retry at j db = Inr (c, db') \<Longrightarrow> index_step L db db'"
| jobs_cleaned: "index_step L db (snd (clean_completed_transfers_batched cutoff limit db))"
| jobs_cancelled: "index_step L db (snd (cancel_active_transfers_for_file L at i reason db))"
| conflicts_completed: "index_step L db (snd (complete_conflict_transfers_for_file L at i reason db))"
| recovered: "index_step L db (snd (recover_interrupted_transfers at db))"
| repointed: "index_step L db (repoint_transfers L at i p k db)"
| uploaded: "index_step L db (snd (finish_upload L P at job x same db))"
| checkpoint: "index_step L db (set_checkpoint n v db)"
| checkpoint_replaced: "index_step L db (snd (replace_checkpoint n e v db))"
| candidate: "index_step L db (upsert_remote_blob_gc_candidate at key h i until db)"
| candidate_removed: "index_step L db (remove_remote_blob_gc_candidate key db)"
| candidate_deleted: "index_step L db (mark_remote_blob_gc_deleted at key db)"
| candidate_failed: "index_step L db (record_remote_blob_gc_error key message db)"
| revision: "insert_revision L v db = Inr db' \<Longrightarrow> index_step L db db'"
| conflict_recorded: "insert_conflict_record c db = Inr db' \<Longrightarrow> index_step L db db'"
| conflict_resolved: "resolve_conflict at i s note db = Inr db' \<Longrightarrow> index_step L db db'"
| conflicts_pruned: "index_step L db (snd (prune_resolved_conflicts cutoff limit db))"
| revisions_pruned: "index_step L db (snd (prune_old_revisions L cutoff keep limit db))"
| objects_pruned: "index_step L db (snd (prune_deleted_objects L cutoff limit db))"
| root_bound: "index_step L db (snd (notes_bind_root ws root db))"
| root_accepted: "index_step L db (notes_accept_recovered_root L root retire db)"
| token: "index_step L db (snd (notes_content_token ws i h db))"
| topology: "index_step L db (snd (notes_topology_generation ws signature db))"
| reserved: "notes_reserve_local x p k db = Inr (i, db') \<Longrightarrow> index_step L db db'"
| committed: "index_step L db (snd (notes_mark_mutation_committed request db))"
| projected: "index_step L db (project_notes_intent L at root m apply rebuild db)"
| root_relocated: "notes_project_root_relocation L at root m db = Inr db' \<Longrightarrow> index_step L db db'"

lemma object_updates_ok:
  assumes "index_ok L db"
  shows "index_ok L (mark_file_synced i db)" "index_ok L (mark_file_synced_with_content at i n h db)"
    "index_ok L (mark_file_conflict i db)" "index_ok L (mark_file_deleted at i db)"
    "index_ok L (update_local_path at i p k db)" "index_ok L (update_local_mtime_by_path P at p db)"
    "index_ok L (update_file_size at i n db)" "index_ok L (set_parent i q db)"
    "index_ok L (mark_remote_tree_entry_seen i scan db)" "index_ok L (move_subtree at a b c d db)"
    "index_ok L (snd (mark_deleted_where L at folder s extra db))"
  unfolding mark_file_synced_def mark_file_synced_with_content_def mark_file_conflict_def mark_file_deleted_def
    update_local_path_def update_local_mtime_by_path_def update_file_size_def set_parent_def
    mark_remote_tree_entry_seen_def move_subtree_def mark_deleted_where_def Let_def snd_conv
  by (intro index_ok_update_objects index_ok_update_transfers; simp add: assms)+

lemma transfer_updates_ok:
  assumes "index_ok L db"
  shows "update_transfer_status at j s db = Inr db' \<Longrightarrow> index_ok L db'"
    "fail_transfer at j message db = Inr db' \<Longrightarrow> index_ok L db'"
    "index_ok L (snd (clean_completed_transfers_batched cutoff limit db))"
    "index_ok L (snd (cancel_active_transfers_for_file L at i reason db))"
    "index_ok L (snd (complete_conflict_transfers_for_file L at i reason db))"
    "index_ok L (snd (recover_interrupted_transfers at db))"
    "index_ok L (repoint_transfers L at i p k db)"
proof -
  show "update_transfer_status at j s db = Inr db' \<Longrightarrow> index_ok L db'"
    unfolding update_transfer_status_def by (erule update_job_ok [OF assms]) simp
  show "fail_transfer at j message db = Inr db' \<Longrightarrow> index_ok L db'"
    unfolding fail_transfer_def by (erule update_job_ok [OF assms]) simp
  show "index_ok L (snd (clean_completed_transfers_batched cutoff limit db))"
    unfolding clean_completed_transfers_batched_def Let_def snd_conv
    by (rule index_ok_filter_transfers [OF assms])
qed (unfold cancel_active_transfers_for_file_def complete_conflict_transfers_for_file_def Let_def snd_conv
    recover_interrupted_transfers_def repoint_transfers_def,
    (intro index_ok_update_transfers assms; simp)+)

lemma increment_retry_ok: "index_ok L db \<Longrightarrow> increment_retry at j db = Inr (c, db') \<Longrightarrow> index_ok L db'"
  unfolding increment_retry_def
  by (auto split: sum.splits option.splits intro: update_job_ok)

lemma accept_root_ok: "index_ok L db \<Longrightarrow> index_ok L (notes_accept_recovered_root L root retire db)"
  using references_ok_mono [of L db "notes_accept_recovered_root L root retire db"]
  by (auto simp: index_ok_def tables_ok_def keys_ok_def notes_accept_recovered_root_def Let_def
      set_checkpoint_def ids_of_def distinct_map_filter)

lemma content_token_ok: "index_ok L db \<Longrightarrow> index_ok L (snd (notes_content_token ws i h db))"
  by (auto simp: notes_content_token_def Let_def split: option.splits)

lemma topology_ok: "index_ok L db \<Longrightarrow> index_ok L (snd (notes_topology_generation ws signature db))"
  using references_ok_mono [of L db "snd (notes_topology_generation ws signature db)"]
  by (auto simp: index_ok_def tables_ok_def keys_ok_def notes_topology_generation_def ids_of_def
      keys_update_where map_of_eq_None_iff split: option.splits)

lemma reserve_ok: "index_ok L db \<Longrightarrow> notes_reserve_local x p k db = Inr (i, db') \<Longrightarrow> index_ok L db'"
  unfolding notes_reserve_local_def Let_def
  by (auto split: list.splits if_splits option.splits simp: row_of_None intro!: new_object_ok)

lemma mark_committed_ok: "index_ok L db \<Longrightarrow> index_ok L (snd (notes_mark_mutation_committed request db))"
  using references_ok_mono [of L db "snd (notes_mark_mutation_committed request db)"]
  by (auto simp: index_ok_def tables_ok_def keys_ok_def notes_mark_mutation_committed_def Let_def ids_of_def
      keys_update_where)

lemma index_step_ok: "index_step L db db' \<Longrightarrow> index_ok L db \<Longrightarrow> index_ok L db'"
proof (induction rule: index_step.induct)
  case upsert
  then show ?case unfolding upsert_file_index_def by blast
next
  case revisions_pruned
  then show ?case unfolding prune_old_revisions_def Let_def snd_conv by (rule filter_revisions_ok)
next
  case (candidate_deleted db at key)
  then show ?case unfolding mark_remote_blob_gc_deleted_def by (rule update_candidates_ok) simp
next
  case (candidate_failed db key message)
  then show ?case unfolding record_remote_blob_gc_error_def by (rule update_candidates_ok) simp
qed (auto intro: object_updates_ok transfer_updates_ok increment_retry_ok accept_root_ok content_token_ok
    topology_ok reserve_ok mark_committed_ok)

definition empty_index :: local_index where
  "empty_index = \<lparr>object_rows = [], transfers = [], checkpoints = [], blob_candidates = [], revision_rows = [],
     conflict_rows = [], note_versions = [], note_workspaces = [], note_roots = [], mutation_rows = [],
     next_object = 1, next_transfer = 1, next_conflict = 1\<rparr>"

lemma empty_index_ok: "index_ok L empty_index"
  by (simp add: empty_index_def index_ok_def tables_ok_def keys_ok_def references_ok_def)

lemma reachable_index_ok: "(index_step L)\<^sup>*\<^sup>* empty_index db \<Longrightarrow> index_ok L db"
  by (induction rule: rtranclp_induct) (auto intro: empty_index_ok index_step_ok)

end
