(* ===== verification/Notes_Replay.thy ===== *)
theory Notes_Replay
  imports Index_Ops
begin

text \<open>
  Applying a journal entry to the local database more than once, as recovery after a
  crash does. \<open>change_settled\<close> says that an identity's change is already in the tables; then
  projecting it again writes nothing but the time stamps of redirected jobs.
\<close>

definition undated :: "local_index \<Rightarrow> local_index" where
  "undated db = db\<lparr>transfers := map (\<lambda>t. t\<lparr>tq_updated_at := []\<rparr>) (transfers db)\<rparr>"

definition identity_id :: "indexed_identity \<Rightarrow> file_id" where
  "identity_id d = fe_file_id (id_entry d)"

definition replaced_row :: "string \<Rightarrow> indexed_identity \<Rightarrow> object_row \<Rightarrow> object_row" where
  "replaced_row root d r =
     (let x = id_entry d in
      r\<lparr>ob_local_path := path_push root (id_relative d), ob_s3_key := id_relative d,
        ob_size := uint (fe_size x),
        ob_state := (if ob_state r = Ignored \<and> id_state d \<noteq> Deleted_Locally then ob_state r else id_state d),
        ob_parent_file_id := fe_parent_id x, ob_updated_at := fe_updated_at x,
        ob_entry_metadata := (case identity_metadata d of Some m \<Rightarrow> Some m | None \<Rightarrow> ob_entry_metadata r)\<rparr>)"

definition moves_file :: "mutation_kind \<Rightarrow> bool" where
  "moves_file kind \<longleftrightarrow> kind = M_Rename \<or> kind = M_Move"

text \<open>The known part: the row and the token exist. The settled part: they are the change's.\<close>

definition known :: "mutation_intent \<Rightarrow> indexed_identity \<Rightarrow> local_index \<Rightarrow> bool" where
  "known x d db \<longleftrightarrow>
     identity_id d \<in> ids_of db
   \<and> (id_token d \<noteq> None \<longrightarrow> (\<exists>v \<in> set (note_versions db). fst v = (mi_workspace_id x, identity_id d)))"

definition change_settled :: "libs \<Rightarrow> string \<Rightarrow> mutation_intent \<Rightarrow> indexed_identity \<Rightarrow> local_index \<Rightarrow> bool" where
  "change_settled L root x d db \<longleftrightarrow>
     known x d db
   \<and> (\<forall>r \<in> set (object_rows db). ob_file_id r = identity_id d \<longrightarrow> replaced_row root d r = r)
   \<and> (\<forall>v \<in> set (note_versions db). \<forall>t. id_token d = Some t \<and> fst v = (mi_workspace_id x, identity_id d) \<longrightarrow> snd v = t)
   \<and> (\<forall>t \<in> set (transfers db). tq_file_id t = uuid_text L (identity_id d) \<and> tq_status t \<in> active_status \<longrightarrow>
        mi_kind x \<noteq> M_Delete
        \<and> (moves_file (mi_kind x) \<longrightarrow> tq_local_path t = path_push root (id_relative d)
             \<and> (tq_direction t = Upload \<longrightarrow> tq_s3_key t = id_relative d)))"

lemma replaced_row_simps [simp]:
  "ob_file_id (replaced_row root d r) = ob_file_id r"
  "replaced_row root d (replaced_row root d r) = replaced_row root d r"
  by (auto simp: replaced_row_def Let_def split: option.splits)

lemma replace_identity_alt:
  "replace_identity root d = update_objects (\<lambda>r. ob_file_id r = identity_id d) (replaced_row root d)"
  by (simp add: replace_identity_def replaced_row_def [abs_def] identity_id_def Let_def)

lemma undated_simps [simp]:
  "object_rows (undated db) = object_rows db" "note_versions (undated db) = note_versions db"
  "note_roots (undated db) = note_roots db" "checkpoints (undated db) = checkpoints db"
  "mutation_rows (undated db) = mutation_rows db" "ids_of (undated db) = ids_of db"
  by (simp_all add: undated_def ids_of_def)

lemma settled_undated: "change_settled L root x d (undated db) \<longleftrightarrow> change_settled L root x d db"
  by (simp add: change_settled_def known_def undated_def ids_of_def)

lemma update_where_id: "(\<And>r. r \<in> set rs \<Longrightarrow> c r \<Longrightarrow> f r = r) \<Longrightarrow> update_where c f rs = rs"
  by (simp add: update_where_def map_idI)

lemma undated_repoint:
  assumes "\<And>t. t \<in> set (transfers db) \<Longrightarrow> tq_file_id t = uuid_text L i \<Longrightarrow> tq_status t \<in> active_status
      \<Longrightarrow> tq_local_path t = p \<and> (tq_direction t = Upload \<longrightarrow> tq_s3_key t = k)"
  shows "undated (repoint_transfers L at i p k db) = undated db"
proof -
  have "map (\<lambda>t. t\<lparr>tq_updated_at := []\<rparr>) (transfers (repoint_transfers L at i p k db))
      = map (\<lambda>t. t\<lparr>tq_updated_at := []\<rparr>) (transfers db)"
    using assms by (auto simp: repoint_transfers_def update_transfers_def update_where_def)
  then show ?thesis
    by (simp add: undated_def repoint_transfers_def update_transfers_def)
qed

lemma known_insert: "identity_id d \<in> ids_of db \<Longrightarrow> insert_identity root d db = db"
  by (simp add: insert_identity_def identity_id_def row_of_None Let_def)

lemma known_put_token: "(\<exists>v \<in> set (note_versions db). fst v = k) \<Longrightarrow> put_token k t False db = db"
  by (simp add: put_token_def)

lemma known_baseline: "known x d db \<Longrightarrow> project_identity L at root x False False d db = db"
  by (auto simp: project_identity_def known_def known_insert known_put_token identity_id_def split: option.splits)

lemma settled_again:
  assumes "change_settled L root x d db"
  shows "undated (project_identity L at root x False True d db) = undated db"
proof -
  have known: "identity_id d \<in> ids_of db" using assms by (simp add: change_settled_def known_def)
  have replace: "replace_identity root d db = db"
    using assms by (simp add: replace_identity_alt update_objects_def update_where_id change_settled_def)
  have redirect: "undated (redirect_transfers L at root (mi_kind x) d db) = undated db"
  proof (cases "mi_kind x")
    case M_Delete
    then have "redirect_transfers L at root (mi_kind x) d db = db"
      using assms by (auto simp: redirect_transfers_def update_transfers_def change_settled_def identity_id_def Let_def
          intro!: update_where_id arg_cong [where f = "\<lambda>ts. db\<lparr>transfers := ts\<rparr>", of _ "transfers db", simplified])
    then show ?thesis by simp
  qed (use assms in \<open>auto simp: redirect_transfers_def change_settled_def moves_file_def identity_id_def Let_def
      intro!: undated_repoint\<close>)
  have token: "put_token (mi_workspace_id x, identity_id d) t True db' = db'"
    if "id_token d = Some t" "note_versions db' = note_versions db" for t db'
  proof -
    have "update_where (\<lambda>v. fst v = (mi_workspace_id x, identity_id d))
        (\<lambda>v. ((mi_workspace_id x, identity_id d), t)) (note_versions db) = note_versions db"
      by (rule update_where_id) (use assms that in \<open>auto simp: change_settled_def\<close>)
    then show ?thesis
      using assms that by (auto simp: change_settled_def known_def put_token_def)
  qed
  have versions: "note_versions (redirect_transfers L at root (mi_kind x) d db) = note_versions db"
    by (cases "mi_kind x") (simp_all add: redirect_transfers_def update_transfers_def repoint_transfers_def Let_def)
  show ?thesis
    using redirect token [OF _ versions]
    by (auto simp: project_identity_def known_insert [OF known] replace identity_id_def Let_def split: option.splits)
qed

lemma fold_settled:
  assumes "\<forall>d \<in> set ds. change_settled L root x d db" "undated cur = undated db"
  shows "undated (fold (project_identity L at root x False True) ds cur) = undated db"
  using assms
proof (induction ds arbitrary: cur)
  case (Cons d ds)
  then have "change_settled L root x d cur" by (metis settled_undated list.set_intros(1))
  then have "undated (project_identity L at root x False True d cur) = undated db"
    using Cons.prems settled_again by metis
  then show ?case using Cons by simp
qed simp

lemma fold_known:
  assumes "\<forall>d \<in> set ds. known x d db"
  shows "fold (project_identity L at root x False False) ds db = db"
  using assms by (induction ds) (simp_all add: known_baseline)

section \<open>What one projection leaves\<close>

definition versions_of :: "local_index \<Rightarrow> (uuid \<times> file_id) set" where
  "versions_of db = fst ` set (note_versions db)"

lemma known_alt:
  "known x d db \<longleftrightarrow> identity_id d \<in> ids_of db
    \<and> (id_token d \<noteq> None \<longrightarrow> (mi_workspace_id x, identity_id d) \<in> versions_of db)"
  unfolding known_def versions_of_def by (auto simp: image_iff Bex_def)

lemma table_ids [simp]:
  "ids_of (insert_identity root d db) = insert (identity_id d) (ids_of db)"
  "ids_of (replace_identity root d db) = ids_of db"
  "ids_of (rebuild_identity root d db) = ids_of db"
  "ids_of (redirect_transfers L at root kind d db) = ids_of db"
  "ids_of (put_token k t b db) = ids_of db"
proof -
  show "ids_of (insert_identity root d db) = insert (identity_id d) (ids_of db)"
    using row_of_None [of db "identity_id d"]
    by (auto simp: insert_identity_def identity_id_def ids_of_def Let_def)
  show "ids_of (replace_identity root d db) = ids_of db" "ids_of (rebuild_identity root d db) = ids_of db"
    unfolding replace_identity_def rebuild_identity_def Let_def ids_of_map update_objects_def
    by (simp_all add: keys_update_where del: set_map)
  show "ids_of (redirect_transfers L at root kind d db) = ids_of db"
    by (cases kind) (simp_all add: redirect_transfers_def repoint_transfers_def update_transfers_def ids_of_def Let_def)
  show "ids_of (put_token k t b db) = ids_of db"
    by (simp add: put_token_def ids_of_def)
qed

lemma table_versions [simp]:
  "note_versions (insert_identity root d db) = note_versions db"
  "note_versions (replace_identity root d db) = note_versions db"
  "note_versions (rebuild_identity root d db) = note_versions db"
  "note_versions (redirect_transfers L at root kind d db) = note_versions db"
  by (simp_all add: insert_identity_def replace_identity_def rebuild_identity_def redirect_transfers_def
      repoint_transfers_def update_transfers_def update_objects_def Let_def split: mutation_kind.split)

lemma versions_of_put_token: "versions_of (put_token k t b db) = insert k (versions_of db)"
proof (cases "\<exists>v \<in> set (note_versions db). fst v = k")
  case True
  have "map fst (update_where (\<lambda>v. fst v = k) (\<lambda>v. (k, t)) (note_versions db)) = map fst (note_versions db)"
    by (rule keys_update_where) simp
  then have "fst ` set (update_where (\<lambda>v. fst v = k) (\<lambda>v. (k, t)) (note_versions db)) = fst ` set (note_versions db)"
    by (metis set_map)
  then show ?thesis using True by (auto simp: versions_of_def put_token_def)
qed (auto simp: versions_of_def put_token_def)

lemma project_identity_keys:
  "ids_of (project_identity L at root x rebuild replace d db) = insert (identity_id d) (ids_of db)"
  "versions_of db \<subseteq> versions_of (project_identity L at root x rebuild replace d db)"
  "id_token d \<noteq> None \<Longrightarrow> (mi_workspace_id x, identity_id d) \<in> versions_of (project_identity L at root x rebuild replace d db)"
proof -
  define db3 where "db3 = (let db2 = (if rebuild then rebuild_identity root d (insert_identity root d db)
        else insert_identity root d db)
      in if replace then redirect_transfers L at root (mi_kind x) d (replace_identity root d db2) else db2)"
  have shape: "project_identity L at root x rebuild replace d db
      = (case id_token d of Some t \<Rightarrow> put_token (mi_workspace_id x, identity_id d) t replace db3 | None \<Rightarrow> db3)"
    unfolding project_identity_def db3_def identity_id_def Let_def by (rule refl)
  have ids: "ids_of db3 = insert (identity_id d) (ids_of db)" and versions: "versions_of db3 = versions_of db"
    by (simp_all add: db3_def Let_def versions_of_def)
  show "ids_of (project_identity L at root x rebuild replace d db) = insert (identity_id d) (ids_of db)"
    "versions_of db \<subseteq> versions_of (project_identity L at root x rebuild replace d db)"
    "id_token d \<noteq> None \<Longrightarrow> (mi_workspace_id x, identity_id d) \<in> versions_of (project_identity L at root x rebuild replace d db)"
    unfolding shape using ids versions by (auto simp: versions_of_put_token split: option.splits)
qed

lemma known_after: "known x d (project_identity L at root x rebuild replace d db)"
  by (simp add: known_alt project_identity_keys)

lemma known_mono: "known x d db \<Longrightarrow> known x d (project_identity L at root x rebuild replace d' db)"
  using project_identity_keys(2) [of db L at root x rebuild replace d'] by (auto simp: known_alt project_identity_keys(1))

lemma known_fold: "known x d db \<Longrightarrow> known x d (fold (project_identity L at root x rebuild replace) ds db)"
  by (induction ds arbitrary: db) (simp_all add: known_mono)

lemma known_fold_all: "d \<in> set ds \<Longrightarrow> known x d (fold (project_identity L at root x rebuild replace) ds db)"
  by (induction ds arbitrary: db) (auto simp: known_fold known_after)

text \<open>The three parts of \<open>change_settled\<close>, on the tables they speak of.\<close>

definition rows_settled :: "string \<Rightarrow> indexed_identity \<Rightarrow> object_row list \<Rightarrow> bool" where
  "rows_settled root d rs \<longleftrightarrow> (\<forall>r \<in> set rs. ob_file_id r = identity_id d \<longrightarrow> replaced_row root d r = r)"

definition tokens_settled ::
    "mutation_intent \<Rightarrow> indexed_identity \<Rightarrow> ((uuid \<times> file_id) \<times> save_token) list \<Rightarrow> bool" where
  "tokens_settled x d vs \<longleftrightarrow>
     (\<forall>v \<in> set vs. \<forall>t. id_token d = Some t \<and> fst v = (mi_workspace_id x, identity_id d) \<longrightarrow> snd v = t)"

definition jobs_settled ::
    "libs \<Rightarrow> string \<Rightarrow> mutation_intent \<Rightarrow> indexed_identity \<Rightarrow> transfer_row list \<Rightarrow> bool" where
  "jobs_settled L root x d ts \<longleftrightarrow>
     (\<forall>t \<in> set ts. tq_file_id t = uuid_text L (identity_id d) \<and> tq_status t \<in> active_status \<longrightarrow>
        mi_kind x \<noteq> M_Delete
        \<and> (moves_file (mi_kind x) \<longrightarrow> tq_local_path t = path_push root (id_relative d)
             \<and> (tq_direction t = Upload \<longrightarrow> tq_s3_key t = id_relative d)))"

lemma settled_parts:
  "change_settled L root x d db \<longleftrightarrow> known x d db \<and> rows_settled root d (object_rows db)
    \<and> tokens_settled x d (note_versions db) \<and> jobs_settled L root x d (transfers db)"
  by (simp add: change_settled_def rows_settled_def tokens_settled_def jobs_settled_def)

lemma table_rows:
  "object_rows (redirect_transfers L at root kind d db) = object_rows db"
  "object_rows (put_token k t b db) = object_rows db"
  "transfers (insert_identity root d db) = transfers db"
  "transfers (replace_identity root d db) = transfers db"
  "transfers (put_token k t b db) = transfers db"
  by (simp_all add: insert_identity_def replace_identity_def redirect_transfers_def put_token_def
      repoint_transfers_def update_transfers_def update_objects_def Let_def split: mutation_kind.split)

lemma rows_settled_after: "rows_settled root d (object_rows (replace_identity root d db))"
  by (auto simp: rows_settled_def replace_identity_alt update_objects_def set_update_where)

lemma rows_settled_other:
  assumes "identity_id d' \<noteq> identity_id d" "rows_settled root d (object_rows db)"
  shows "rows_settled root d (object_rows (replace_identity root d' (insert_identity root d' db)))"
  using assms
  by (auto simp: rows_settled_def replace_identity_alt insert_identity_def update_objects_def set_update_where
      identity_id_def Let_def split: if_splits)

lemma tokens_settled_put:
  assumes "d = d' \<or> identity_id d' \<noteq> identity_id d \<and> tokens_settled x d (note_versions db)" "id_token d' = Some t"
  shows "tokens_settled x d (note_versions (put_token (mi_workspace_id x, identity_id d') t True db))"
  using assms by (auto simp: tokens_settled_def put_token_def set_update_where)

lemma jobs_settled_after: "jobs_settled L root x d (transfers (redirect_transfers L at root (mi_kind x) d db))"
  by (cases "mi_kind x")
    (auto simp: jobs_settled_def redirect_transfers_def repoint_transfers_def update_transfers_def
      set_update_where moves_file_def identity_id_def Let_def)

lemma jobs_settled_other:
  assumes "uuid_text L (identity_id d') \<noteq> uuid_text L (identity_id d)" "jobs_settled L root x d (transfers db)"
  shows "jobs_settled L root x d (transfers (redirect_transfers L at root (mi_kind x) d' db))"
  using assms
  by (cases "mi_kind x")
    (auto simp: jobs_settled_def redirect_transfers_def repoint_transfers_def update_transfers_def
      set_update_where moves_file_def identity_id_def Let_def)

lemma project_identity_tables:
  "object_rows (project_identity L at root x False True d db)
     = object_rows (replace_identity root d (insert_identity root d db))"
  "transfers (project_identity L at root x False True d db)
     = transfers (redirect_transfers L at root (mi_kind x) d (replace_identity root d (insert_identity root d db)))"
  by (simp_all add: project_identity_def table_rows Let_def split: option.split)

lemma tokens_settled_project:
  assumes "d = d' \<or> identity_id d' \<noteq> identity_id d \<and> tokens_settled x d (note_versions db)"
  shows "tokens_settled x d (note_versions (project_identity L at root x False True d' db))"
proof (cases "id_token d'")
  case None
  then show ?thesis using assms by (auto simp: project_identity_def tokens_settled_def Let_def)
next
  case (Some t)
  then show ?thesis
    using tokens_settled_put [of d d' x _ t] assms
    by (auto simp: project_identity_def identity_id_def [symmetric] Let_def)
qed

lemma settled_after: "change_settled L root x d (project_identity L at root x False True d db)"
  by (simp add: settled_parts known_after project_identity_tables rows_settled_after jobs_settled_after
      tokens_settled_project)

lemma settled_other:
  assumes "inj (uuid_text L)" "identity_id d' \<noteq> identity_id d" "change_settled L root x d db"
  shows "change_settled L root x d (project_identity L at root x False True d' db)"
proof -
  have "uuid_text L (identity_id d') \<noteq> uuid_text L (identity_id d)" using assms(1,2) by (auto dest: injD)
  then have "jobs_settled L root x d (transfers (project_identity L at root x False True d' db))"
    using assms(3) unfolding project_identity_tables settled_parts
    by (intro jobs_settled_other) (simp_all add: table_rows)
  then show ?thesis
    using assms(2,3)
    by (simp add: settled_parts known_mono project_identity_tables(1) rows_settled_other tokens_settled_project)
qed

lemma fold_settles:
  assumes "inj (uuid_text L)"
  shows "distinct (map identity_id ds) \<Longrightarrow> d \<in> set ds
    \<Longrightarrow> change_settled L root x d (fold (project_identity L at root x False True) ds db)"
proof (induction ds arbitrary: db)
  case (Cons d' ds)
  have keep: "change_settled L root x d db \<Longrightarrow> identity_id d \<notin> identity_id ` set es
      \<Longrightarrow> change_settled L root x d (fold (project_identity L at root x False True) es db)" for es db
    by (induction es arbitrary: db) (auto dest: not_sym intro: settled_other [OF assms])
  show ?case using Cons keep [of _ ds] settled_after [of L root x d' at db] by (cases "d = d'") auto
qed simp

section \<open>A projection applied again\<close>

text \<open>What the steps after the identities keep.\<close>

lemma settled_cong:
  assumes "object_rows db' = object_rows db" "note_versions db' = note_versions db"
    and "jobs_settled L root x d (transfers db')"
  shows "change_settled L root x d db \<Longrightarrow> change_settled L root x d db'"
  using assms by (simp add: settled_parts known_def ids_of_def)

definition project_tail ::
    "libs \<Rightarrow> timestamp \<Rightarrow> string \<Rightarrow> mutation_intent \<Rightarrow> bool \<Rightarrow> local_index \<Rightarrow> local_index" where
  "project_tail L at root x apply_changes db2 =
     (let db3 = snd (notes_bind_root (mi_workspace_id x) (mi_root_id x) db2);
          name = root_identity_name L (mi_workspace_id x);
          db4 = (if get_checkpoint name db3 = None then set_checkpoint name (mi_root_identity x) db3 else db3);
          db5 = (if apply_changes \<and> \<not> mutation_indexed (mi_request_id x) db4 \<and> queues_content x
                 then fold (queue_identity L at root) (mi_changes x) db4 else db4)
      in put_mutation x (if apply_changes then ''indexed'' else mi_stage x) db5)"

lemma project_split:
  "notes_project_intent L at root x apply_changes db =
     project_tail L at root x apply_changes
       (if apply_changes then fold (project_identity L at root x False True) (mi_changes x)
            (fold (project_identity L at root x False False) (mi_baseline x) db)
        else fold (project_identity L at root x False False) (mi_baseline x) db)"
  by (simp add: notes_project_intent_def project_notes_intent_def project_tail_def Let_def)

lemma queue_identity_tables [simp]:
  "object_rows (queue_identity L at root d db) = object_rows db"
  "note_versions (queue_identity L at root d db) = note_versions db"
  "note_roots (queue_identity L at root d db) = note_roots db"
  "checkpoints (queue_identity L at root d db) = checkpoints db"
  "mutation_rows (queue_identity L at root d db) = mutation_rows db"
  by (simp_all add: queue_identity_def add_transfer_def)

lemma fold_tables:
  "(\<And>d db. get (f d db) = get db) \<Longrightarrow> get (fold f ds db) = get db"
  by (induction ds arbitrary: db) simp_all

lemmas queue_fold_tables [simp] =
  fold_tables [where get = object_rows and f = "queue_identity L at root", OF queue_identity_tables(1)]
  fold_tables [where get = note_versions and f = "queue_identity L at root", OF queue_identity_tables(2)]
  fold_tables [where get = note_roots and f = "queue_identity L at root", OF queue_identity_tables(3)]
  fold_tables [where get = checkpoints and f = "queue_identity L at root", OF queue_identity_tables(4)]
  fold_tables [where get = mutation_rows and f = "queue_identity L at root", OF queue_identity_tables(5)]
  for L at root

lemma put_mutation_tables [simp]:
  "object_rows (put_mutation x s db) = object_rows db" "note_versions (put_mutation x s db) = note_versions db"
  "transfers (put_mutation x s db) = transfers db" "note_roots (put_mutation x s db) = note_roots db"
  "checkpoints (put_mutation x s db) = checkpoints db"
  by (simp_all add: put_mutation_def)

lemma bind_root_tables [simp]:
  "object_rows (snd (notes_bind_root ws root db)) = object_rows db"
  "note_versions (snd (notes_bind_root ws root db)) = note_versions db"
  "transfers (snd (notes_bind_root ws root db)) = transfers db"
  "mutation_rows (snd (notes_bind_root ws root db)) = mutation_rows db"
  "checkpoints (snd (notes_bind_root ws root db)) = checkpoints db"
  by (simp_all add: notes_bind_root_def split: option.split)

lemma set_checkpoint_tables [simp]:
  "object_rows (set_checkpoint n v db) = object_rows db" "note_versions (set_checkpoint n v db) = note_versions db"
  "transfers (set_checkpoint n v db) = transfers db" "note_roots (set_checkpoint n v db) = note_roots db"
  "mutation_rows (set_checkpoint n v db) = mutation_rows db"
  by (simp_all add: set_checkpoint_def)

lemma project_tail_rows [simp]:
  "object_rows (project_tail L at root x b db) = object_rows db"
  "note_versions (project_tail L at root x b db) = note_versions db"
  by (simp_all add: project_tail_def Let_def)

lemma jobs_settled_queue:
  "queues_content x \<Longrightarrow> jobs_settled L root x d ts"
  by (auto simp: jobs_settled_def queues_content_def moves_file_def)

lemma project_tail_jobs: "\<not> queues_content x \<Longrightarrow> transfers (project_tail L at root x b db) = transfers db"
  by (simp add: project_tail_def Let_def)

lemma settled_tail:
  assumes "change_settled L root x d db"
  shows "change_settled L root x d (project_tail L at root x b db)"
proof (rule settled_cong [OF _ _ _ assms])
  show "jobs_settled L root x d (transfers (project_tail L at root x b db))"
    using assms by (cases "queues_content x") (simp_all add: jobs_settled_queue project_tail_jobs settled_parts)
qed simp_all

lemma known_tail: "known x d db \<Longrightarrow> known x d (project_tail L at root x b db)"
  by (simp add: known_def ids_of_def)

text \<open>The tail leaves its marks, and does nothing where they are.\<close>

definition marked :: "libs \<Rightarrow> mutation_intent \<Rightarrow> local_index \<Rightarrow> bool" where
  "marked L x db \<longleftrightarrow>
     map_of (note_roots db) (mi_workspace_id x) \<noteq> None
   \<and> get_checkpoint (root_identity_name L (mi_workspace_id x)) db \<noteq> None
   \<and> (\<exists>m \<in> set (mutation_rows db). mu_request_id m = mi_request_id x)
   \<and> (\<forall>m \<in> set (mutation_rows db). mu_request_id m = mi_request_id x \<longrightarrow> mu_stage m = ''indexed'')"

lemma marked_cong:
  "note_roots db' = note_roots db \<Longrightarrow> checkpoints db' = checkpoints db \<Longrightarrow> mutation_rows db' = mutation_rows db
    \<Longrightarrow> marked L x db' \<longleftrightarrow> marked L x db"
  by (simp add: marked_def get_checkpoint_def)

lemma put_mutation_marks:
  "\<exists>m \<in> set (mutation_rows (put_mutation x s db)). mu_request_id m = mi_request_id x"
  "m \<in> set (mutation_rows (put_mutation x s db)) \<Longrightarrow> mu_request_id m = mi_request_id x \<Longrightarrow> mu_stage m = s"
  by (auto simp: put_mutation_def set_update_where image_iff Bex_def split: if_splits)

lemma marked_tail: "marked L x (project_tail L at root x True db)"
  unfolding marked_def project_tail_def Let_def
  by (auto simp: put_mutation_marks get_checkpoint_def set_checkpoint_def notes_bind_root_def map_of_append
      map_add_def split: option.splits)

lemma project_tail_marked:
  assumes "marked L x db"
  shows "project_tail L at root x True db = db"
proof -
  have root: "snd (notes_bind_root (mi_workspace_id x) (mi_root_id x) db) = db"
    and checkpoint: "get_checkpoint (root_identity_name L (mi_workspace_id x)) db \<noteq> None"
    using assms by (auto simp: marked_def notes_bind_root_def split: option.splits)
  have indexed: "mutation_indexed (mi_request_id x) db" and "put_mutation x ''indexed'' db = db"
    using assms by (auto simp: marked_def mutation_indexed_def list_ex_iff put_mutation_def update_where_id)
  then show ?thesis
    using checkpoint by (auto simp: project_tail_def root Let_def)
qed

lemma undated_fields:
  assumes "undated db = undated db'"
  shows "object_rows db = object_rows db'" "note_versions db = note_versions db'" "note_roots db = note_roots db'"
    "checkpoints db = checkpoints db'" "mutation_rows db = mutation_rows db'"
  using assms undated_simps by metis+

lemma projected_settled:
  assumes "inj (uuid_text L)" "distinct (map identity_id (mi_changes x))"
    and "db1 = notes_project_intent L at root x True db"
  shows "\<forall>d \<in> set (mi_baseline x). known x d db1" "\<forall>d \<in> set (mi_changes x). change_settled L root x d db1" "marked L x db1"
proof -
  let ?base = "fold (project_identity L at root x False False) (mi_baseline x) db"
  let ?all = "fold (project_identity L at root x False True) (mi_changes x) ?base"
  have db1: "db1 = project_tail L at root x True ?all"
    by (simp add: assms(3) project_split)
  show "\<forall>d \<in> set (mi_baseline x). known x d db1"
    unfolding db1 by (intro ballI known_tail known_fold [where ds = "mi_changes x"]) (rule known_fold_all)
  show "\<forall>d \<in> set (mi_changes x). change_settled L root x d db1"
    by (auto simp: db1 intro!: settled_tail fold_settles assms(1,2))
  show "marked L x db1" by (simp add: db1 marked_tail)
qed

lemma project_again:
  assumes "inj (uuid_text L)" "distinct (map identity_id (mi_changes x))"
    and "db1 = notes_project_intent L at root x True db"
  shows "undated (notes_project_intent L at' root x True db1) = undated db1"
proof -
  note change_settled = projected_settled [OF assms]
  have base: "fold (project_identity L at' root x False False) (mi_baseline x) db1 = db1"
    using change_settled(1) by (rule fold_known)
  define cur where "cur = fold (project_identity L at' root x False True) (mi_changes x) db1"
  have cur: "undated cur = undated db1"
    unfolding cur_def using change_settled(2) by (rule fold_settled) simp
  have "marked L x cur"
    using change_settled(3) marked_cong [of cur db1] undated_fields [OF cur] by simp
  then show ?thesis
    using cur by (simp add: project_split base cur_def [symmetric] project_tail_marked)
qed

section \<open>Recovery\<close>

text \<open>How many uploads a projection queues.\<close>

definition queued_by :: "mutation_intent \<Rightarrow> nat" where
  "queued_by x = changes (\<lambda>d. fe_entry_type (id_entry d) = File \<and> id_state d \<noteq> Ignored) (mi_changes x)"

lemma redirect_jobs: "length (transfers (redirect_transfers L at root kind d db)) = length (transfers db)"
  by (cases kind) (simp_all add: redirect_transfers_def repoint_transfers_def update_transfers_def update_where_def Let_def)

lemma rebuild_jobs: "transfers (rebuild_identity root d db) = transfers db"
  by (simp add: rebuild_identity_def update_objects_def Let_def)

lemma project_identity_jobs: "length (transfers (project_identity L at root x rebuild replace d db)) = length (transfers db)"
  by (simp add: project_identity_def Let_def table_rows rebuild_jobs redirect_jobs split: option.split)

lemma fold_project_jobs:
  "length (transfers (fold (project_identity L at root x rebuild replace) ds db)) = length (transfers db)"
  by (rule fold_tables [where get = "\<lambda>db. length (transfers db)"]) (rule project_identity_jobs)

lemma table_mutations:
  "mutation_rows (insert_identity root d db) = mutation_rows db"
  "mutation_rows (rebuild_identity root d db) = mutation_rows db"
  "mutation_rows (replace_identity root d db) = mutation_rows db"
  "mutation_rows (redirect_transfers L at root kind d db) = mutation_rows db"
  "mutation_rows (put_token k t b db) = mutation_rows db"
  by (simp_all add: insert_identity_def rebuild_identity_def replace_identity_def redirect_transfers_def
      repoint_transfers_def update_transfers_def update_objects_def put_token_def Let_def split: mutation_kind.split)

lemma project_identity_mutations: "mutation_rows (project_identity L at root x rebuild replace d db) = mutation_rows db"
  by (simp add: project_identity_def Let_def table_mutations split: option.split)

lemma fold_project_mutations:
  "mutation_rows (fold (project_identity L at root x rebuild replace) ds db) = mutation_rows db"
  by (rule fold_tables) (rule project_identity_mutations)

lemma queue_fold_jobs:
  "length (transfers (fold (queue_identity L at root) ds db))
    = length (transfers db) + changes (\<lambda>d. fe_entry_type (id_entry d) = File \<and> id_state d \<noteq> Ignored) ds"
  by (induction ds arbitrary: db) (auto simp: queue_identity_def add_transfer_def changes_def)

lemma project_jobs:
  "length (transfers (notes_project_intent L at root x b db)) = length (transfers db)
    + (if b \<and> \<not> mutation_indexed (mi_request_id x) db \<and> queues_content x then queued_by x else 0)"
  by (simp add: project_split project_tail_def Let_def fold_project_jobs queue_fold_jobs queued_by_def
      mutation_indexed_def fold_project_mutations)

lemma project_stage:
  "mutation_indexed (mi_request_id x) (notes_project_intent L at root x b db)
    \<longleftrightarrow> b \<or> mi_stage x = ''indexed''"
  unfolding project_split project_tail_def Let_def mutation_indexed_def list_ex_iff
  using put_mutation_marks by (cases b) (simp_all, metis+)

end
