(* ===== verification/Local_Tree.thy ===== *)
theory Local_Tree
  imports Rust_Paths "HOL-Library.AList" "HOL-Library.Sublist"
begin

text \<open>
  The local folder as the sync engine sees it through \<open>std::fs\<close> on Unix: the nodes of a
  tree by the components of their paths, in the order a directory is read in. Links,
  permissions and failing devices are left out; a call fails for what is at the places it
  names, with the message of the operating system. \<open>tree_ok\<close> says that every node lies in a
  directory.
\<close>

datatype tree_node = Tree_Dir | Tree_File string

type_synonym local_tree = "(path_component list \<times> tree_node) list"

definition node_at :: "local_tree \<Rightarrow> string \<Rightarrow> tree_node option" where
  "node_at t p = map_of t (path_components p)"

definition path_exists :: "local_tree \<Rightarrow> string \<Rightarrow> bool" where
  "path_exists t p \<longleftrightarrow> node_at t p \<noteq> None"

definition path_is_dir :: "local_tree \<Rightarrow> string \<Rightarrow> bool" where
  "path_is_dir t p \<longleftrightarrow> node_at t p = Some Tree_Dir"

definition file_bytes :: "local_tree \<Rightarrow> string \<Rightarrow> string option" where
  "file_bytes t p = (case node_at t p of Some (Tree_File b) \<Rightarrow> Some b | _ \<Rightarrow> None)"

text \<open>What a call answers: the message of the operating system, or the new tree.\<close>

type_synonym tree_result = "string + local_tree"

definition is_file_node :: "tree_node option \<Rightarrow> bool" where
  "is_file_node n \<longleftrightarrow> (case n of Some (Tree_File _) \<Rightarrow> True | _ \<Rightarrow> False)"

definition make_dirs :: "path_component list \<Rightarrow> local_tree \<Rightarrow> tree_result" where
  "make_dirs cs t =
     (let ds = tl (prefixes cs) in
      if list_ex (\<lambda>d. is_file_node (map_of t d)) ds then Inl ''Not a directory (os error 20)''
      else Inr (fold (\<lambda>d. AList.update d Tree_Dir) ds t))"

definition create_dir_all :: "string \<Rightarrow> local_tree \<Rightarrow> tree_result" where
  "create_dir_all p = make_dirs (path_components p)"

definition parent_is_dir :: "local_tree \<Rightarrow> path_component list \<Rightarrow> bool" where
  "parent_is_dir t cs \<longleftrightarrow> map_of t (butlast cs) = Some Tree_Dir"

definition create_dir :: "string \<Rightarrow> local_tree \<Rightarrow> tree_result" where
  "create_dir p t =
     (let cs = path_components p in
      if map_of t cs \<noteq> None then Inl ''File exists (os error 17)''
      else if \<not> parent_is_dir t cs then Inl ''No such file or directory (os error 2)''
      else Inr (AList.update cs Tree_Dir t))"

definition empty_dir :: "local_tree \<Rightarrow> path_component list \<Rightarrow> bool" where
  "empty_dir t cs \<longleftrightarrow> list_all (\<lambda>(ds, _). \<not> strict_prefix cs ds) t"

definition moved_to :: "path_component list \<Rightarrow> path_component list \<Rightarrow> path_component list \<Rightarrow> path_component list" where
  "moved_to p q cs = (if prefix p cs then q @ drop (length p) cs else cs)"

definition move_nodes :: "path_component list \<Rightarrow> path_component list \<Rightarrow> local_tree \<Rightarrow> local_tree" where
  "move_nodes p q t = map (\<lambda>(cs, n). (moved_to p q cs, n)) (filter (\<lambda>(cs, _). cs \<noteq> q) t)"

text \<open>\<open>std::fs::rename\<close>: a file replaces a file, a directory an empty directory.\<close>

definition rename_nodes :: "path_component list \<Rightarrow> path_component list \<Rightarrow> local_tree \<Rightarrow> tree_result" where
  "rename_nodes p q t =
     (if map_of t p = None \<or> \<not> parent_is_dir t q then Inl ''No such file or directory (os error 2)''
      else if p = q then Inr t
      else if prefix p q then Inl ''Invalid argument (os error 22)''
      else case (map_of t p, map_of t q) of
          (Some (Tree_File _), Some Tree_Dir) \<Rightarrow> Inl ''Is a directory (os error 21)''
        | (Some Tree_Dir, Some (Tree_File _)) \<Rightarrow> Inl ''Not a directory (os error 20)''
        | (Some Tree_Dir, Some Tree_Dir) \<Rightarrow>
            if empty_dir t q then Inr (move_nodes p q t) else Inl ''Directory not empty (os error 39)''
        | _ \<Rightarrow> Inr (move_nodes p q t))"

definition rename_path :: "string \<Rightarrow> string \<Rightarrow> local_tree \<Rightarrow> tree_result" where
  "rename_path p q = rename_nodes (path_components p) (path_components q)"

section \<open>Well-formed trees\<close>

definition tree_ok :: "local_tree \<Rightarrow> bool" where
  "tree_ok t \<longleftrightarrow> distinct (map fst t)
     \<and> (\<forall>cs \<in> fst ` set t. cs \<noteq> [] \<and> (\<forall>ds. ds \<noteq> [] \<and> strict_prefix ds cs \<longrightarrow> map_of t ds = Some Tree_Dir))"

lemma tree_okD:
  assumes "tree_ok t" "map_of t cs \<noteq> None" "strict_prefix ds cs" "ds \<noteq> []"
  shows "map_of t ds = Some Tree_Dir"
  using assms by (force simp: tree_ok_def map_of_eq_None_iff)

lemma tree_ok_nonempty: "tree_ok t \<Longrightarrow> map_of t [] = None"
  by (auto simp: tree_ok_def map_of_eq_None_iff)

lemma fold_update:
  "map_of (fold (\<lambda>d. AList.update d v) ds t) = (\<lambda>d. if d \<in> set ds then Some v else map_of t d)"
  by (induction ds arbitrary: t) (auto simp: AList.update_conv' fun_eq_iff)

lemma distinct_fold_update: "distinct (map fst t) \<Longrightarrow> distinct (map fst (fold (\<lambda>d. AList.update d v) ds t))"
  by (induction ds arbitrary: t) (auto intro: AList.distinct_update)

lemma set_tl_prefixes: "set (tl (prefixes cs)) = {ds. prefix ds cs \<and> ds \<noteq> []}"
  by (cases cs) (auto simp: prefix_Cons)

lemma tree_ok_alt:
  "tree_ok t \<longleftrightarrow> distinct (map fst t) \<and> map_of t [] = None
     \<and> (\<forall>cs ds. map_of t cs \<noteq> None \<longrightarrow> ds \<noteq> [] \<longrightarrow> strict_prefix ds cs \<longrightarrow> map_of t ds = Some Tree_Dir)"
  by (auto simp: tree_ok_def map_of_eq_None_iff image_iff)

lemma make_dirs_nodes:
  "make_dirs cs t = Inr t' \<Longrightarrow> map_of t' = (\<lambda>d. if d \<noteq> [] \<and> prefix d cs then Some Tree_Dir else map_of t d)"
  by (auto simp: make_dirs_def Let_def fold_update set_tl_prefixes split: if_splits)

lemma make_dirs_spares:
  "make_dirs cs t = Inr t' \<Longrightarrow> map_of t d = Some n \<Longrightarrow> map_of t' d = Some n"
  by (cases n)
    (auto simp: make_dirs_def Let_def fold_update set_tl_prefixes is_file_node_def list_ex_iff split: if_splits option.splits)

lemma make_dirs_ok:
  assumes "tree_ok t" "make_dirs cs t = Inr t'"
  shows "tree_ok t'"
proof -
  have "distinct (map fst t')"
    using assms by (auto simp: tree_ok_def make_dirs_def Let_def intro: distinct_fold_update split: if_splits)
  moreover have "map_of t' ds = Some Tree_Dir" if "map_of t' es \<noteq> None" "strict_prefix ds es" "ds \<noteq> []" for es ds
    using that tree_okD [OF assms(1), of es ds] make_dirs_spares [OF assms(2), of ds] make_dirs_nodes [OF assms(2)]
    by (auto split: if_splits dest: prefix_order.strict_trans1 prefix_order.dual_order.strict_implies_order prefix_order.trans)
  ultimately show ?thesis
    using make_dirs_nodes [OF assms(2)] tree_ok_nonempty [OF assms(1)] by (auto simp: tree_ok_alt)
qed

lemma create_dir_nodes:
  "create_dir p t = Inr t' \<Longrightarrow> map_of t' = (map_of t)(path_components p \<mapsto> Tree_Dir) \<and> map_of t (path_components p) = None
    \<and> parent_is_dir t (path_components p)"
  by (auto simp: create_dir_def Let_def AList.update_conv' split: if_splits)

section \<open>Renames\<close>

text \<open>What a rename that succeeds found: a place that is free, or holds a file or an empty directory.\<close>

lemma rename_nodes_cases:
  assumes "rename_nodes p q t = Inr t'"
  obtains (same) "p = q" "t' = t" | (moved) "t' = move_nodes p q t" "p \<noteq> q" "\<not> prefix p q" "map_of t p \<noteq> None"
      "parent_is_dir t q" "empty_dir t q \<or> map_of t q \<noteq> Some Tree_Dir"
      "is_file_node (map_of t q) \<Longrightarrow> is_file_node (map_of t p)"
  using assms
  by (auto simp: rename_nodes_def is_file_node_def split: if_splits option.splits tree_node.splits prod.splits)

text \<open>Nothing but the node at the place itself lies at a place that a rename takes.\<close>

lemma room:
  assumes "tree_ok t" "empty_dir t q \<or> map_of t q \<noteq> Some Tree_Dir" "q \<noteq> []" "map_of t cs \<noteq> None" "prefix q cs"
  shows "cs = q"
proof (rule ccontr)
  assume "cs \<noteq> q"
  then have sp: "strict_prefix q cs" using assms(5) by (simp add: strict_prefix_def)
  then have "map_of t q = Some Tree_Dir" using tree_okD [OF assms(1,4)] assms(3) by blast
  moreover obtain n where "(cs, n) \<in> set t" using assms(4) by (meson map_of_SomeD not_None_eq)
  then have "\<not> empty_dir t q" using sp by (auto simp: empty_dir_def list_all_iff)
  ultimately show False using assms(2) by blast
qed

lemma moved_to_inj:
  assumes "moved_to p q cs = moved_to p q ds" "prefix q cs \<Longrightarrow> prefix p cs" "prefix q ds \<Longrightarrow> prefix p ds"
  shows "cs = ds"
  using assms by (auto simp: moved_to_def prefix_def split: if_splits)

text \<open>The place \<open>q\<close> is taken by the tree at \<open>p\<close>: it is free, or only its own node is there.\<close>

definition makes_room :: "path_component list \<Rightarrow> path_component list \<Rightarrow> local_tree \<Rightarrow> bool" where
  "makes_room p q t \<longleftrightarrow> tree_ok t \<and> q \<noteq> [] \<and> map_of t p \<noteq> None \<and> p \<noteq> q \<and> \<not> prefix p q
     \<and> (empty_dir t q \<or> map_of t q \<noteq> Some Tree_Dir)"

lemma makes_room_free: "makes_room p q t \<Longrightarrow> map_of t cs \<noteq> None \<Longrightarrow> prefix q cs \<Longrightarrow> cs = q"
  by (auto simp: makes_room_def intro: room)

lemma distinct_moved:
  assumes "makes_room p q t"
  shows "distinct (map fst (move_nodes p q t))"
proof -
  have dist: "distinct (map fst t)" using assms by (simp add: makes_room_def tree_ok_def)
  have "inj_on (moved_to p q) (fst ` set t - {q})"
  proof (rule inj_onI)
    fix cs ds
    assume "cs \<in> fst ` set t - {q}" "ds \<in> fst ` set t - {q}" and eq: "moved_to p q cs = moved_to p q ds"
    then show "cs = ds"
      using makes_room_free [OF assms] by (intro moved_to_inj [OF eq]) (auto simp: map_of_eq_None_iff)
  qed
  moreover have "map fst (move_nodes p q t) = map (moved_to p q) (filter (\<lambda>cs. cs \<noteq> q) (map fst t))"
    by (auto simp: move_nodes_def filter_map o_def case_prod_unfold)
  moreover have "set (filter (\<lambda>cs. cs \<noteq> q) (map fst t)) = fst ` set t - {q}" by auto
  ultimately show ?thesis using dist by (simp add: distinct_map)
qed

lemma move_nodes_at:
  assumes "makes_room p q t"
  shows "map_of (move_nodes p q t) cs =
    (if prefix q cs then map_of t (p @ drop (length q) cs) else if prefix p cs then None else map_of t cs)"
proof -
  have dist: "distinct (map fst t)" using assms by (simp add: makes_room_def tree_ok_def)
  have iff: "map_of (move_nodes p q t) cs = Some n \<longleftrightarrow> (\<exists>ds. map_of t ds = Some n \<and> ds \<noteq> q \<and> cs = moved_to p q ds)" for n
    using distinct_moved [OF assms] dist
    by (force simp: map_of_eq_Some_iff move_nodes_def image_iff)
  have p: "\<not> prefix p q" "\<not> prefix q p"
    using assms makes_room_free [OF assms, of p] by (auto simp: makes_room_def)
  have "map_of (move_nodes p q t) cs = Some n \<longleftrightarrow>
      (if prefix q cs then map_of t (p @ drop (length q) cs) else if prefix p cs then None else map_of t cs) = Some n" for n
  proof (cases "prefix q cs")
    case True
    then obtain r where r: "cs = q @ r" by (auto simp: prefix_def)
    have "map_of (move_nodes p q t) cs = Some n \<longleftrightarrow> map_of t (p @ r) = Some n"
      unfolding iff
    proof
      assume "\<exists>ds. map_of t ds = Some n \<and> ds \<noteq> q \<and> cs = moved_to p q ds"
      then obtain ds where ds: "map_of t ds = Some n" "ds \<noteq> q" "cs = moved_to p q ds" by blast
      then have "prefix p ds" using True makes_room_free [OF assms, of ds] by (auto simp: moved_to_def split: if_splits)
      then show "map_of t (p @ r) = Some n" using ds r by (auto simp: moved_to_def prefix_def)
    next
      assume "map_of t (p @ r) = Some n"
      then show "\<exists>ds. map_of t ds = Some n \<and> ds \<noteq> q \<and> cs = moved_to p q ds"
        using r p by (intro exI [of _ "p @ r"]) (auto simp: moved_to_def)
    qed
    then show ?thesis using r by simp
  next
    case False
    then show ?thesis
      using makes_room_free [OF assms] p unfolding iff by (auto simp: moved_to_def)
  qed
  then show ?thesis by (metis not_None_eq)
qed

lemma move_nodes_ok:
  assumes room: "makes_room p q t" and parent: "parent_is_dir t q"
  shows "tree_ok (move_nodes p q t)"
  unfolding tree_ok_alt
proof (intro conjI allI impI)
  have ok: "tree_ok t" "map_of t p \<noteq> None" and p: "\<not> prefix p q" "\<not> prefix q p" "q \<noteq> []"
    using room makes_room_free [OF room, of p] by (auto simp: makes_room_def)
  have above_q: "map_of t ds = Some Tree_Dir" if "strict_prefix ds q" "ds \<noteq> []" for ds
  proof (cases "ds = butlast q")
    case False
    have "prefix ds (butlast q)" using that(1) p(3) by (metis append_butlast_last_id prefix_order.less_le prefix_snoc)
    then have "strict_prefix ds (butlast q)" using False by (simp add: strict_prefix_def)
    then show ?thesis using tree_okD [OF ok(1), of "butlast q" ds] parent that(2) by (simp add: parent_is_dir_def)
  qed (use parent in \<open>simp add: parent_is_dir_def\<close>)
  show "distinct (map fst (move_nodes p q t))" using room by (rule distinct_moved)
  show "map_of (move_nodes p q t) [] = None"
    using tree_ok_nonempty [OF ok(1)] p by (auto simp: move_nodes_at [OF room])
  fix cs ds
  assume cs: "map_of (move_nodes p q t) cs \<noteq> None" and ds: "ds \<noteq> []" "strict_prefix ds cs"
  show "map_of (move_nodes p q t) ds = Some Tree_Dir"
  proof (cases "prefix q cs")
    case True
    then obtain r where r: "cs = q @ r" by (auto simp: prefix_def)
    then have pr: "map_of t (p @ r) \<noteq> None" using cs by (simp add: move_nodes_at [OF room])
    show ?thesis
    proof (cases "prefix q ds")
      case True
      then obtain u where u: "ds = q @ u" by (auto simp: prefix_def)
      then have "strict_prefix (p @ u) (p @ r)" using ds(2) r by (auto simp: strict_prefix_def)
      moreover have "p \<noteq> []" using tree_ok_nonempty [OF ok(1)] ok(2) by auto
      ultimately have "map_of t (p @ u) = Some Tree_Dir" using tree_okD [OF ok(1) pr] by simp
      then show ?thesis using u by (simp add: move_nodes_at [OF room])
    next
      case False
      then have "strict_prefix ds q" using ds(2) r by (auto simp: strict_prefix_def prefix_append)
      then show ?thesis
        using above_q [OF _ ds(1)] p(1) False prefix_order.trans [of p ds q]
        by (auto simp: move_nodes_at [OF room] strict_prefix_def)
    qed
  next
    case False
    then have "map_of t cs \<noteq> None" "\<not> prefix p cs" using cs by (auto simp: move_nodes_at [OF room] split: if_splits)
    moreover have "\<not> prefix q ds" "prefix p ds \<Longrightarrow> prefix p cs"
      using False ds(2) by (auto simp: strict_prefix_def dest: prefix_order.trans)
    ultimately show ?thesis using tree_okD [OF ok(1) _ ds(2,1)] by (auto simp: move_nodes_at [OF room])
  qed
qed

lemma rename_nodes_ok:
  assumes "tree_ok t" "rename_nodes p q t = Inr t'" "q \<noteq> []"
  shows "tree_ok t'"
  using assms(2)
proof (cases rule: rename_nodes_cases)
  case moved
  then have "makes_room p q t" using assms(1,3) by (simp add: makes_room_def)
  then show ?thesis using move_nodes_ok moved by simp
qed (use assms(1) in simp)

section \<open>No file is lost\<close>

text \<open>Every file of \<open>t\<close> is in \<open>t'\<close> with its contents, maybe at another place, no two at the same.\<close>

definition keeps_files :: "local_tree \<Rightarrow> local_tree \<Rightarrow> bool" where
  "keeps_files t t' \<longleftrightarrow> (\<exists>f. inj_on f {cs. is_file_node (map_of t cs)}
     \<and> (\<forall>cs b. map_of t cs = Some (Tree_File b) \<longrightarrow> map_of t' (f cs) = Some (Tree_File b)))"

lemma keeps_files_refl [simp]: "keeps_files t t"
  unfolding keeps_files_def by (rule exI [of _ id]) simp

lemma keeps_files_trans:
  assumes "keeps_files t u" "keeps_files u v"
  shows "keeps_files t v"
proof -
  obtain f g where f: "inj_on f {cs. is_file_node (map_of t cs)}"
      "\<And>cs b. map_of t cs = Some (Tree_File b) \<Longrightarrow> map_of u (f cs) = Some (Tree_File b)"
    and g: "inj_on g {cs. is_file_node (map_of u cs)}"
      "\<And>cs b. map_of u cs = Some (Tree_File b) \<Longrightarrow> map_of v (g cs) = Some (Tree_File b)"
    using assms unfolding keeps_files_def by blast
  have "is_file_node (map_of t cs) \<Longrightarrow> is_file_node (map_of u (f cs))" for cs
    using f(2) [of cs] by (auto simp: is_file_node_def split: option.splits tree_node.splits)
  then have "inj_on (g \<circ> f) {cs. is_file_node (map_of t cs)}"
    by (intro comp_inj_on f(1) inj_on_subset [OF g(1)]) auto
  then show ?thesis unfolding keeps_files_def using f(2) g(2) by (intro exI [of _ "g \<circ> f"]) auto
qed

lemma keeps_files_same: "(\<And>cs b. map_of t cs = Some (Tree_File b) \<Longrightarrow> map_of t' cs = Some (Tree_File b)) \<Longrightarrow> keeps_files t t'"
  unfolding keeps_files_def by (rule exI [of _ id]) simp

lemma make_dirs_keeps: "make_dirs cs t = Inr t' \<Longrightarrow> keeps_files t t'"
  by (rule keeps_files_same) (rule make_dirs_spares)

lemma rename_nodes_keeps:
  assumes "tree_ok t" "rename_nodes p q t = Inr t'" "q \<noteq> []" "p = q \<or> \<not> is_file_node (map_of t q)"
  shows "keeps_files t t'"
  using assms(2)
proof (cases rule: rename_nodes_cases)
  case moved
  have room: "makes_room p q t" using assms(1,3) moved by (simp add: makes_room_def)
  have free: "is_file_node (map_of t cs) \<Longrightarrow> \<not> prefix q cs" for cs
    using makes_room_free [OF room, of cs] assms(4) moved(2) by (auto simp: is_file_node_def split: option.splits)
  have "inj_on (moved_to p q) {cs. is_file_node (map_of t cs)}"
    by (rule inj_onI, erule moved_to_inj) (use free in auto)
  moreover have "map_of t' (moved_to p q cs) = Some (Tree_File b)" if "map_of t cs = Some (Tree_File b)" for cs b
    using that free [of cs] moved(1) unfolding move_nodes_at [OF room] moved(1)
    by (auto simp: moved_to_def is_file_node_def prefix_def)
  ultimately show ?thesis unfolding keeps_files_def by blast
qed simp

end
