(* ===== verification/Index_View.thy ===== *)
theory Index_View
  imports Index_Ops Local_Tree Sync_Paths
begin

text \<open>
  The index of local files refines a map from file ids to places in a tree. The database
  keeps paths and keys as texts and rewrites them by their length; the map keeps the names
  along a path, and a folder that moves takes its tree along as \<open>std::fs::rename\<close> does in
  \<open>Local_Tree\<close>. The locale \<open>call_refinement\<close> states such a refinement call by call; it is
  interpreted on the index, on the checkpoints and on the save tokens.
\<close>

locale call_refinement =
  fixes view :: "'s \<Rightarrow> 'm"
    and run :: "'c \<Rightarrow> 's \<Rightarrow> 's"
    and act :: "'c \<Rightarrow> 'm \<Rightarrow> 'm"
    and ok :: "'s \<Rightarrow> bool"
    and allowed :: "'c \<Rightarrow> bool"
  assumes call_ok: "ok s \<Longrightarrow> allowed c \<Longrightarrow> ok (run c s)"
    and call_view: "ok s \<Longrightarrow> allowed c \<Longrightarrow> view (run c s) = act c (view s)"
begin

lemma calls_refine:
  "ok s \<Longrightarrow> list_all allowed cs \<Longrightarrow> ok (fold run cs s) \<and> view (fold run cs s) = fold act cs (view s)"
  by (induction cs arbitrary: s) (simp_all add: call_ok call_view)

end

section \<open>Places\<close>

datatype phase = Live | Hidden | Gone

record spot =
  sp_place :: "path_component list"
  sp_key :: "path_component list"
  sp_folder :: bool
  sp_phase :: phase

type_synonym spots = "file_id \<rightharpoonup> spot"

definition phase_of :: "object_state \<Rightarrow> phase" where
  "phase_of s = (if s \<in> {Deleted_Locally, Deleted_Remotely} then Gone else if s = Ignored then Hidden else Live)"

definition spot_of :: "object_row \<Rightarrow> spot" where
  "spot_of r =
     \<lparr>sp_place = path_components (ob_local_path r), sp_key = path_components (ob_s3_key r),
      sp_folder = ob_is_folder r, sp_phase = phase_of (ob_state r)\<rparr>"

definition spots_of :: "local_index \<Rightarrow> spots" where
  "spots_of db i = map_option spot_of (row_of db i)"

section \<open>What a call does to the places\<close>

text \<open>One file; a folder with all that lies in it; what is deleted at or under a folder.\<close>

definition put_spot :: "file_id \<Rightarrow> spot \<Rightarrow> spots \<Rightarrow> spots" where
  "put_spot i s m = m(i \<mapsto> s)"

definition forget :: "file_id \<Rightarrow> spots \<Rightarrow> spots" where
  "forget i m = m(i := None)"

definition in_phase :: "phase \<Rightarrow> file_id \<Rightarrow> spots \<Rightarrow> spots" where
  "in_phase ph i m = m(i := map_option (sp_phase_update (\<lambda>_. ph)) (m i))"

definition re_place :: "path_component list \<Rightarrow> path_component list \<Rightarrow> file_id \<Rightarrow> spots \<Rightarrow> spots" where
  "re_place p k i m = m(i := map_option (\<lambda>s. s\<lparr>sp_place := p, sp_key := k\<rparr>) (m i))"

definition relocate ::
    "path_component list \<Rightarrow> path_component list \<Rightarrow> path_component list \<Rightarrow> path_component list \<Rightarrow> spots \<Rightarrow> spots" where
  "relocate p q u v m i =
     (case m i of
        None \<Rightarrow> None
      | Some s \<Rightarrow>
          Some (if prefix p (sp_place s) \<and> sp_phase s \<noteq> Gone
                then s\<lparr>sp_place := moved_to p q (sp_place s), sp_key := moved_to u v (sp_key s)\<rparr> else s))"

definition give_up :: "(spot \<Rightarrow> bool) \<Rightarrow> path_component list \<Rightarrow> phase \<Rightarrow> spots \<Rightarrow> spots" where
  "give_up which p ph m i =
     map_option (\<lambda>s. if prefix p (sp_place s) \<and> sp_phase s = Live \<and> which s then s\<lparr>sp_phase := ph\<rparr> else s) (m i)"

section \<open>The calls\<close>

text \<open>The methods of the database that write the objects table, with their arguments.\<close>

datatype index_call =
    Register local_probe file_entry string string object_state
  | Register_Folder local_probe timestamp indexed_folder
  | Set_Synced file_id | Set_Synced_Content timestamp file_id u64 string
  | Set_Revision timestamp file_id revision_id u64 string
  | Set_Conflict file_id | Set_Deleted timestamp file_id
  | Set_Path timestamp file_id string string | Set_Size timestamp file_id u64
  | Set_Parent file_id "file_id option" | Set_Seen file_id string
  | Touch local_probe timestamp string | Remove file_id
  | Move_Under timestamp string string string string
  | Delete_Under timestamp string object_state | Delete_Folders_Under timestamp string object_state

definition on_success :: "local_index \<Rightarrow> local_index core_result \<Rightarrow> local_index" where
  "on_success db r = (case r of Inl _ \<Rightarrow> db | Inr db' \<Rightarrow> db')"

fun run_index :: "libs \<Rightarrow> index_call \<Rightarrow> local_index \<Rightarrow> local_index" where
  "run_index L (Register P x p k s) db = register_file_at_path_with_state P x p k s db"
| "run_index L (Register_Folder P at f) db = register_folder L P at f db"
| "run_index L (Set_Synced i) db = mark_file_synced i db"
| "run_index L (Set_Synced_Content at i n h) db = mark_file_synced_with_content at i n h db"
| "run_index L (Set_Revision at i v n h) db = on_success db (set_current_revision_content L at i v n h db)"
| "run_index L (Set_Conflict i) db = mark_file_conflict i db"
| "run_index L (Set_Deleted at i) db = mark_file_deleted at i db"
| "run_index L (Set_Path at i p k) db = update_local_path at i p k db"
| "run_index L (Set_Size at i n) db = update_file_size at i n db"
| "run_index L (Set_Parent i q) db = set_parent i q db"
| "run_index L (Set_Seen i scan) db = mark_remote_tree_entry_seen i scan db"
| "run_index L (Touch P at p) db = update_local_mtime_by_path P at p db"
| "run_index L (Remove i) db = on_success db (remove_file L i db)"
| "run_index L (Move_Under at a b ra rb) db = move_subtree at a b ra rb db"
| "run_index L (Delete_Under at a s) db = snd (mark_subtree_deleted L at a s db)"
| "run_index L (Delete_Folders_Under at a s) db = snd (mark_folders_deleted L at a s db)"

text \<open>\<open>held\<close>: the files that have revisions, which cannot be removed.\<close>

fun act_index :: "file_id set \<Rightarrow> index_call \<Rightarrow> spots \<Rightarrow> spots" where
  "act_index held (Register P x p k s) m =
     put_spot (fe_file_id x) \<lparr>sp_place = path_components p, sp_key = path_components (if k = [] then fe_name x else k),
       sp_folder = (fe_entry_type x = Folder), sp_phase = phase_of s\<rparr> m"
| "act_index held (Register_Folder P at f) m =
     put_spot (if_file_id f) \<lparr>sp_place = path_components (if_local_path f), sp_key = path_components (if_remote_path f),
       sp_folder = True, sp_phase = Live\<rparr> m"
| "act_index held (Set_Synced i) m = in_phase Live i m"
| "act_index held (Set_Synced_Content at i n h) m = in_phase Live i m"
| "act_index held (Set_Revision at i v n h) m = in_phase Live i m"
| "act_index held (Set_Conflict i) m = in_phase Live i m"
| "act_index held (Set_Deleted at i) m = in_phase Gone i m"
| "act_index held (Set_Path at i p k) m = re_place (path_components p) (path_components k) i m"
| "act_index held (Remove i) m = (if i \<in> held then m else forget i m)"
| "act_index held (Move_Under at a b ra rb) m =
     relocate (path_components a) (path_components b) (path_components ra) (path_components rb) m"
| "act_index held (Delete_Under at a s) m = give_up (\<lambda>_. True) (path_components a) (phase_of s) m"
| "act_index held (Delete_Folders_Under at a s) m = give_up sp_folder (path_components a) (phase_of s) m"
| "act_index held _ m = m"

text \<open>
  Texts as the engine writes them: an absolute path of plain names or none, a key of plain
  names.
\<close>

definition local_text :: "string \<Rightarrow> bool" where
  "local_text p \<longleftrightarrow> (let ws = normal_names (path_components p) in p = (if ws = [] then [] else ''/'' @ path_text ws))"

definition key_text :: "string \<Rightarrow> bool" where
  "key_text k \<longleftrightarrow> k = path_text (normal_names (path_components k))"

definition texts_ok :: "local_index \<Rightarrow> bool" where
  "texts_ok db \<longleftrightarrow> (\<forall>r \<in> set (object_rows db). local_text (ob_local_path r) \<and> key_text (ob_s3_key r))"

fun texts_in :: "index_call \<Rightarrow> bool" where
  "texts_in (Register P x p k s) \<longleftrightarrow> local_text p \<and> key_text (if k = [] then fe_name x else k)"
| "texts_in (Register_Folder P at f) \<longleftrightarrow> local_text (if_local_path f) \<and> key_text (if_remote_path f) \<and> if_remote_path f \<noteq> []"
| "texts_in (Set_Path at i p k) \<longleftrightarrow> local_text p \<and> key_text k"
| "texts_in (Move_Under at a b ra rb) \<longleftrightarrow> local_text a \<and> local_text b \<and> key_text ra \<and> key_text rb
     \<and> a \<noteq> [] \<and> b \<noteq> [] \<and> ra \<noteq> [] \<and> rb \<noteq> []"
| "texts_in (Delete_Under at a s) \<longleftrightarrow> local_text a \<and> a \<noteq> []"
| "texts_in (Delete_Folders_Under at a s) \<longleftrightarrow> local_text a \<and> a \<noteq> []"
| "texts_in _ \<longleftrightarrow> True"

definition revised :: "libs \<Rightarrow> local_index \<Rightarrow> file_id set" where
  "revised L db = {i. \<exists>v \<in> set (revision_rows db). rr_file_id v = uuid_text L i}"

section \<open>Texts and names\<close>

lemma plain_component: "list_all plain_name ws \<Longrightarrow> list_all component ws"
  by (auto simp: list_all_iff component_def plain_name_def)

lemma path_text_append:
  "as \<noteq> [] \<Longrightarrow> zs \<noteq> [] \<Longrightarrow> path_text (as @ zs) = path_text as @ ''/'' @ path_text zs"
proof (induction as)
  case (Cons a as)
  then show ?case by (cases as; cases zs) (simp_all add: path_text_def)
qed simp

lemma inside_names:
  assumes "list_all plain_name as" "list_all plain_name ws" "as \<noteq> []"
  shows "is_inside (path_text ws) (path_text as) \<longleftrightarrow> prefix as ws"
proof
  assume "prefix as ws"
  then obtain zs where "ws = as @ zs" by (auto simp: prefix_def)
  then show "is_inside (path_text ws) (path_text as)"
    using path_text_append [OF assms(3), of zs] by (cases "zs = []") (auto simp: is_inside_iff)
next
  assume "is_inside (path_text ws) (path_text as)"
  then consider "path_text ws = path_text as" | r where "path_text ws = path_text as @ CHR ''/'' # r"
    by (auto simp: is_inside_iff)
  then show "prefix as ws"
  proof cases
    case 1
    then have "map Normal ws = map Normal as" using path_components_text assms(1,2) by metis
    then show ?thesis by (metis normal_names_simps(4) prefix_order.order_refl)
  next
    case 2
    then have "ws \<noteq> []" by (auto simp: path_text_def)
    then have "ws = as @ split_on (CHR ''/'') r"
      using path_text_split [OF plain_component [OF assms(1)] assms(3)] path_text_split [OF plain_component [OF assms(2)]] 2
      by (metis split_on_append)
    then show ?thesis by simp
  qed
qed

lemma moved_names:
  assumes "prefix as ws" "as \<noteq> []" "bs \<noteq> []"
  shows "path_text bs @ drop (length (path_text as)) (path_text ws) = path_text (bs @ drop (length as) ws)"
proof -
  obtain zs where "ws = as @ zs" using assms(1) by (auto simp: prefix_def)
  then show ?thesis
    using path_text_append [OF assms(2), of zs] path_text_append [OF assms(3), of zs] by (cases "zs = []") auto
qed

lemma local_text_names:
  assumes "local_text p" "p \<noteq> []"
  obtains ws where "list_all plain_name ws" "ws \<noteq> []" "p = CHR ''/'' # path_text ws" "path_components p = Root_Dir # map Normal ws"
proof -
  define ws where "ws = normal_names (path_components p)"
  have plain: "list_all plain_name ws" unfolding ws_def by (rule normal_names_plain)
  have ws: "ws \<noteq> []" "p = CHR ''/'' # path_text ws"
    using assms by (auto simp: local_text_def ws_def Let_def split: if_splits)
  have "split_on (CHR ''/'') p = [] # ws" using ws path_text_split [OF plain_component [OF plain] ws(1)] by simp
  then have "path_components p = Root_Dir # map Normal ws"
    using ws(2) body_components_plain [OF plain] by (simp add: path_components_def) (simp add: body_components_def)
  then show ?thesis using that plain ws by blast
qed

lemma local_text_Nil [simp]: "local_text []"
  by (simp add: local_text_def path_components_def body_components_def)

lemma key_text_names:
  assumes "key_text k"
  obtains ws where "list_all plain_name ws" "k = path_text ws" "path_components k = map Normal ws"
  using assms normal_names_plain path_components_text [OF normal_names_plain, of k] unfolding key_text_def by metis

lemma local_textI: "list_all plain_name ws \<Longrightarrow> ws \<noteq> [] \<Longrightarrow> local_text (CHR ''/'' # path_text ws)"
proof -
  assume plain: "list_all plain_name ws" and ws: "ws \<noteq> []"
  let ?p = "CHR ''/'' # path_text ws"
  have "split_on (CHR ''/'') ?p = [] # ws" using path_text_split [OF plain_component [OF plain] ws] by simp
  then have "path_components ?p = Root_Dir # map Normal ws"
    using body_components_plain [OF plain] by (simp add: path_components_def) (simp add: body_components_def)
  moreover have "normal_names (Root_Dir # cs) = normal_names cs" for cs by (simp add: normal_names_def map_filter_simps)
  ultimately show ?thesis using ws by (simp add: local_text_def)
qed

lemma key_textI: "list_all plain_name ws \<Longrightarrow> key_text (path_text ws)"
  by (simp add: key_text_def path_components_text)

lemma prefix_normal: "prefix (map Normal as) (map Normal ws) \<longleftrightarrow> prefix as ws"
proof
  assume "prefix (map Normal as) (map Normal ws)"
  then obtain us where "prefix us ws" "map Normal as = map Normal us" using prefix_map_rightE by blast
  then show "prefix as ws" by (metis normal_names_simps(4))
qed (rule map_mono_prefix)

text \<open>The texts are compared and rewritten by their bytes, the places by their names.\<close>

lemma under_names:
  assumes "local_text a" "a \<noteq> []" "local_text p"
  shows "at_or_under a p \<longleftrightarrow> prefix (path_components a) (path_components p)"
proof -
  obtain as where as: "list_all plain_name as" "as \<noteq> []" "a = CHR ''/'' # path_text as" "path_components a = Root_Dir # map Normal as"
    using local_text_names [OF assms(1,2)] .
  have "plain_folder a"
    using as(3) path_text_ends [OF as(2) plain_component [OF as(1)]] path_text_nonempty [OF as(2) plain_component [OF as(1)]]
    by (simp add: plain_folder_def)
  then have under: "at_or_under a p \<longleftrightarrow> is_inside p a" by (rule at_or_under_plain)
  show ?thesis
  proof (cases "p = []")
    case True
    then show ?thesis using under as(3,4) by (simp add: is_inside_iff path_components_def body_components_def)
  next
    case False
    then obtain ws where ws: "list_all plain_name ws" "p = CHR ''/'' # path_text ws" "path_components p = Root_Dir # map Normal ws"
      using local_text_names [OF assms(3)] by metis
    have "is_inside p a \<longleftrightarrow> is_inside (path_text ws) (path_text as)" using as(3) ws(2) by (simp add: is_inside_iff)
    also have "\<dots> \<longleftrightarrow> prefix as ws" by (rule inside_names [OF as(1) ws(1) as(2)])
    also have "\<dots> \<longleftrightarrow> prefix (path_components a) (path_components p)"
      using as(4) ws(3) by (simp add: prefix_normal)
    finally show ?thesis using under by simp
  qed
qed

lemma moved_path_names:
  assumes "local_text a" "a \<noteq> []" "local_text b" "b \<noteq> []" "local_text p" "at_or_under a p"
  shows "path_components (moved_path a b p) = moved_to (path_components a) (path_components b) (path_components p)"
    and "local_text (moved_path a b p)"
proof -
  obtain as where as: "list_all plain_name as" "as \<noteq> []" "a = CHR ''/'' # path_text as" "path_components a = Root_Dir # map Normal as"
    using local_text_names [OF assms(1,2)] .
  obtain bs where bs: "list_all plain_name bs" "bs \<noteq> []" "b = CHR ''/'' # path_text bs" "path_components b = Root_Dir # map Normal bs"
    using local_text_names [OF assms(3,4)] .
  have pre: "prefix (path_components a) (path_components p)" using assms under_names by blast
  then have "p \<noteq> []" using as(4) by (auto simp: path_components_def body_components_def)
  then obtain ws where ws: "list_all plain_name ws" "p = CHR ''/'' # path_text ws" "path_components p = Root_Dir # map Normal ws"
    using local_text_names [OF assms(5)] by metis
  have names: "prefix as ws" using pre as(4) ws(3) by (simp add: prefix_normal)
  let ?ws = "bs @ drop (length as) ws"
  have plain: "list_all plain_name ?ws" using bs(1) ws(1) by (auto simp: list_all_iff dest: in_set_dropD)
  have written: "moved_path a b p = CHR ''/'' # path_text ?ws"
    using moved_names [OF names as(2) bs(2)] by (simp add: moved_path_def as(3) bs(3) ws(2))
  show local: "local_text (moved_path a b p)" unfolding written by (rule local_textI [OF plain]) (use bs(2) in simp)
  have "path_components (moved_path a b p) = Root_Dir # map Normal ?ws"
    using local_text_names [OF local] path_components_text [OF plain] written
    by (metis list.discI list.inject path_components_text)
  then show "path_components (moved_path a b p) = moved_to (path_components a) (path_components b) (path_components p)"
    using pre by (simp add: moved_to_def as(4) bs(4) ws(3) drop_map)
qed

lemma moved_key_names:
  assumes "key_text a" "a \<noteq> []" "key_text b" "b \<noteq> []" "key_text k"
  shows "path_components (moved_key a b k) = moved_to (path_components a) (path_components b) (path_components k)"
    and "key_text (moved_key a b k)"
proof -
  obtain as where as: "list_all plain_name as" "a = path_text as" "path_components a = map Normal as"
    using key_text_names [OF assms(1)] .
  obtain bs where bs: "list_all plain_name bs" "b = path_text bs" "path_components b = map Normal bs"
    using key_text_names [OF assms(3)] .
  obtain ws where ws: "list_all plain_name ws" "k = path_text ws" "path_components k = map Normal ws"
    using key_text_names [OF assms(5)] .
  have ne: "as \<noteq> []" "bs \<noteq> []" using assms(2,4) as(2) bs(2) by (auto simp: path_text_def)
  let ?ws = "if prefix as ws then bs @ drop (length as) ws else ws"
  have plain: "list_all plain_name ?ws" using bs(1) ws(1) by (auto simp: list_all_iff dest: in_set_dropD)
  have written: "moved_key a b k = path_text ?ws"
    using moved_names [OF _ ne, of ws] inside_names [OF as(1) ws(1) ne(1)]
    by (simp add: moved_key_inside as(2) bs(2) ws(2))
  show "key_text (moved_key a b k)" unfolding written by (rule key_textI [OF plain])
  show "path_components (moved_key a b k) = moved_to (path_components a) (path_components b) (path_components k)"
    unfolding written path_components_text [OF plain] by (simp add: moved_to_def as(3) bs(3) ws(3) prefix_normal drop_map)
qed

section \<open>The index\<close>

lemma first_row_filter_snoc:
  "first_row (filter c (rs @ [r])) = (case first_row (filter c rs) of Some q \<Rightarrow> Some q | None \<Rightarrow> if c r then Some r else None)"
  by (cases "filter c rs") (auto simp: first_row_def)

lemma filter_other_key: "j \<noteq> i \<Longrightarrow> filter (\<lambda>r. key r \<noteq> i \<and> key r = j) rs = filter (\<lambda>r. key r = j) rs"
  by (rule filter_cong) auto

lemma row_of_SomeD: "row_of db i = Some r \<Longrightarrow> r \<in> set (object_rows db) \<and> ob_file_id r = i"
  by (auto simp: row_of_def first_row_def filter_eq_Cons_iff split: list.splits)

lemma no_row_of: "row_of db i = None \<longleftrightarrow> (\<forall>r \<in> set (object_rows db). ob_file_id r \<noteq> i)"
  by (auto simp: row_of_def filter_empty_conv)

text \<open>A new row takes the place of the one the file had.\<close>

lemma spots_write:
  "spots_of (write_file_index P x p k s db)
    = put_spot (fe_file_id x) \<lparr>sp_place = path_components p, sp_key = path_components k,
        sp_folder = (fe_entry_type x = Folder), sp_phase = phase_of s\<rparr> (spots_of db)"
proof (rule ext)
  fix j
  show "spots_of (write_file_index P x p k s db) j
    = put_spot (fe_file_id x) \<lparr>sp_place = path_components p, sp_key = path_components k,
        sp_folder = (fe_entry_type x = Folder), sp_phase = phase_of s\<rparr> (spots_of db) j"
  proof (cases "j = fe_file_id x")
    case True
    then show ?thesis
      by (simp add: spots_of_def put_spot_def row_of_def write_file_index_def first_row_filter_snoc)
        (simp add: first_row_def spot_of_def)
  next
    case False
    then show ?thesis
      by (simp add: spots_of_def put_spot_def row_of_def write_file_index_def first_row_filter_snoc
          filter_other_key [of j "fe_file_id x" ob_file_id] split: option.split)
  qed
qed

lemma first_row_update:
  assumes "\<And>r. key (f r) = key r"
  shows "first_row (filter (\<lambda>r. key r = j) (update_where c f rs))
    = map_option (\<lambda>r. if c r then f r else r) (first_row (filter (\<lambda>r. key r = j) rs))"
  using assms by (induction rs) (auto simp: update_where_def first_row_def)

lemma row_of_update:
  assumes "\<And>r. ob_file_id (f r) = ob_file_id r"
  shows "row_of (update_objects c f db) i = map_option (\<lambda>r. if c r then f r else r) (row_of db i)"
  by (simp add: row_of_def update_objects_def first_row_update [of ob_file_id f, OF assms])

text \<open>An update of some rows, by what it does to their spots.\<close>

lemma spots_update:
  assumes "\<And>r. ob_file_id (f r) = ob_file_id r"
    and "\<And>r. r \<in> set (object_rows db) \<Longrightarrow> spot_of (if c r then f r else r) = g (ob_file_id r) (spot_of r)"
  shows "spots_of (update_objects c f db) = (\<lambda>i. map_option (g i) (spots_of db i))"
proof (rule ext)
  fix i
  show "spots_of (update_objects c f db) i = map_option (g i) (spots_of db i)"
    using assms(2) row_of_SomeD [of db i] by (cases "row_of db i") (auto simp: spots_of_def row_of_update assms(1))
qed

lemma texts_update:
  assumes "texts_ok db" "\<And>r. c r \<Longrightarrow> r \<in> set (object_rows db) \<Longrightarrow> local_text (ob_local_path (f r)) \<and> key_text (ob_s3_key (f r))"
  shows "texts_ok (update_objects c f db)"
  using assms by (auto simp: texts_ok_def update_objects_def set_update_where)

text \<open>The methods that update one file.\<close>

lemma spots_update_one:
  assumes "\<And>r. ob_file_id (f r) = ob_file_id r" "\<And>r. spot_of (f r) = h (spot_of r)"
  shows "spots_of (update_objects (\<lambda>r. ob_file_id r = i) f db) = (spots_of db)(i := map_option h (spots_of db i))"
  by (subst spots_update [where g = "\<lambda>j. if j = i then h else (\<lambda>s. s)", OF assms(1)])
    (auto simp: assms(2) fun_eq_iff option.map_ident)

lemma spot_of_simps [simp]:
  "spot_of (r\<lparr>ob_state := s\<rparr>) = (spot_of r)\<lparr>sp_phase := phase_of s\<rparr>"
  "spot_of (r\<lparr>ob_size := n\<rparr>) = spot_of r" "spot_of (r\<lparr>ob_local_hash := h\<rparr>) = spot_of r"
  "spot_of (r\<lparr>ob_updated_at := at\<rparr>) = spot_of r" "spot_of (r\<lparr>ob_parent_file_id := q\<rparr>) = spot_of r"
  "spot_of (r\<lparr>ob_remote_seen_scan_id := z\<rparr>) = spot_of r" "spot_of (r\<lparr>ob_current_revision_id := v\<rparr>) = spot_of r"
  "spot_of (r\<lparr>ob_local_mtime := t\<rparr>) = spot_of r" "spot_of (r\<lparr>ob_local_file_key := fk\<rparr>) = spot_of r"
  "spot_of (r\<lparr>ob_local_path := p\<rparr>) = (spot_of r)\<lparr>sp_place := path_components p\<rparr>"
  "spot_of (r\<lparr>ob_s3_key := k\<rparr>) = (spot_of r)\<lparr>sp_key := path_components k\<rparr>"
  by (simp_all add: spot_of_def)

lemma phase_live [simp]: "phase_of Synced = Live" "phase_of In_Conflict = Live" "phase_of Deleted_Locally = Gone"
  by (simp_all add: phase_of_def)

lemma phase_rows: "sp_phase (spot_of r) = Gone \<longleftrightarrow> deleted_row r" "sp_phase (spot_of r) = Live \<longleftrightarrow> live_row r"
  by (auto simp: spot_of_def phase_of_def deleted_row_def live_row_def)

lemma spot_fields: "sp_place (spot_of r) = path_components (ob_local_path r)" "sp_folder (spot_of r) = ob_is_folder r"
    "sp_key (spot_of r) = path_components (ob_s3_key r)"
  by (simp_all add: spot_of_def)

lemmas one_file_methods = mark_file_synced_def mark_file_synced_with_content_def mark_file_conflict_def
  mark_file_deleted_def update_local_path_def update_file_size_def set_parent_def mark_remote_tree_entry_seen_def

lemma spots_one_file:
  "spots_of (mark_file_synced i db) = in_phase Live i (spots_of db)"
  "spots_of (mark_file_synced_with_content at i n h db) = in_phase Live i (spots_of db)"
  "spots_of (mark_file_conflict i db) = in_phase Live i (spots_of db)"
  "spots_of (mark_file_deleted at i db) = in_phase Gone i (spots_of db)"
  "spots_of (update_local_path at i p k db) = re_place (path_components p) (path_components k) i (spots_of db)"
  "spots_of (update_file_size at i n db) = spots_of db" "spots_of (set_parent i q db) = spots_of db"
  "spots_of (mark_remote_tree_entry_seen i scan db) = spots_of db"
  unfolding one_file_methods in_phase_def re_place_def
  by (subst spots_update_one, simp, simp, rule refl | subst spots_update_one [where h = "\<lambda>s. s"], simp, simp, simp add: option.map_ident)+

lemma spots_touch: "spots_of (update_local_mtime_by_path P at p db) = spots_of db"
  unfolding update_local_mtime_by_path_def by (subst spots_update [where g = "\<lambda>_ s. s"]) (simp_all add: option.map_ident)

lemma spots_other_tables [simp]:
  "spots_of (update_transfers c g db) = spots_of db" "object_rows (update_transfers c g db) = object_rows db"
  "texts_ok (update_transfers c g db) = texts_ok db"
  by (simp_all add: spots_of_def row_of_def update_transfers_def texts_ok_def fun_eq_iff)

section \<open>The methods that update a folder\<close>

lemma spots_move:
  assumes "texts_ok db" "texts_in (Move_Under at a b ra rb)"
  shows "spots_of (move_subtree at a b ra rb db)
    = relocate (path_components a) (path_components b) (path_components ra) (path_components rb) (spots_of db)"
proof -
  define g :: "file_id \<Rightarrow> spot \<Rightarrow> spot" where "g i s = (if prefix (path_components a) (sp_place s) \<and> sp_phase s \<noteq> Gone
      then s\<lparr>sp_place := moved_to (path_components a) (path_components b) (sp_place s),
             sp_key := moved_to (path_components ra) (path_components rb) (sp_key s)\<rparr> else s)" for i s
  have "spots_of (move_subtree at a b ra rb db) = (\<lambda>i. map_option (g i) (spots_of db i))"
    unfolding move_subtree_def spots_other_tables
  proof (rule spots_update)
    fix r
    assume r: "r \<in> set (object_rows db)"
    then have texts: "local_text (ob_local_path r)" "key_text (ob_s3_key r)" using assms(1) by (auto simp: texts_ok_def)
    then show "spot_of (if at_or_under a (ob_local_path r) \<and> \<not> deleted_row r
        then r\<lparr>ob_local_path := moved_path a b (ob_local_path r), ob_s3_key := moved_key ra rb (ob_s3_key r), ob_updated_at := at\<rparr>
        else r) = g (ob_file_id r) (spot_of r)"
      using assms(2) under_names [of a] moved_path_names(1) [of a b] moved_key_names(1) [of ra rb]
      by (simp add: g_def spot_fields phase_rows)
  qed simp
  then show ?thesis by (auto simp: relocate_def g_def fun_eq_iff split: option.split)
qed

lemma spots_give_up:
  assumes "texts_ok db" "local_text a" "a \<noteq> []" "\<And>r. extra r = which (spot_of r)"
  shows "spots_of (snd (mark_deleted_where L at a s extra db)) = give_up which (path_components a) (phase_of s) (spots_of db)"
proof -
  have "spots_of (snd (mark_deleted_where L at a s extra db))
      = (\<lambda>i. map_option (\<lambda>q. if prefix (path_components a) (sp_place q) \<and> sp_phase q = Live \<and> which q
          then q\<lparr>sp_phase := phase_of s\<rparr> else q) (spots_of db i))"
    unfolding mark_deleted_where_def Let_def snd_conv
  proof (subst spots_update [where g = "\<lambda>_ q. if prefix (path_components a) (sp_place q) \<and> sp_phase q = Live \<and> which q
          then q\<lparr>sp_phase := phase_of s\<rparr> else q"])
    fix r
    assume "r \<in> set (object_rows (update_transfers (\<lambda>t. tq_status t \<in> active_status
        \<and> tq_file_id t \<in> set (map (\<lambda>r. uuid_text L (ob_file_id r))
            (filter (\<lambda>r. at_or_under a (ob_local_path r) \<and> live_row r \<and> extra r) (object_rows db))))
      (\<lambda>t. t\<lparr>tq_status := Failed, tq_error_message := Some ''folder deleted'', tq_updated_at := at\<rparr>) db))"
    then have "local_text (ob_local_path r)" using assms(1) by (auto simp: texts_ok_def)
    then show "spot_of (if at_or_under a (ob_local_path r) \<and> live_row r \<and> extra r
        then r\<lparr>ob_state := s, ob_updated_at := at\<rparr> else r)
      = (if prefix (path_components a) (sp_place (spot_of r)) \<and> sp_phase (spot_of r) = Live \<and> which (spot_of r)
         then (spot_of r)\<lparr>sp_phase := phase_of s\<rparr> else spot_of r)"
      using under_names [OF assms(2,3)] by (simp add: spot_fields phase_rows assms(4))
  qed simp_all
  then show ?thesis by (simp add: give_up_def fun_eq_iff)
qed

section \<open>The refinement\<close>

lemma has_row: "(\<exists>r \<in> set (object_rows db). ob_file_id r = i) \<longleftrightarrow> spots_of db i \<noteq> None"
  using no_row_of [of db i] by (auto simp: spots_of_def)

lemma spots_revision:
  "spots_of (on_success db (set_current_revision_content L at i v n h db)) = in_phase Live i (spots_of db)"
proof (cases "spots_of db i")
  case None
  then have "\<not> (\<exists>r \<in> set (object_rows db). ob_file_id r = i)" using has_row by blast
  then show ?thesis
    using None by (auto simp: set_current_revision_content_def on_success_def in_phase_def fun_eq_iff)
next
  case (Some s)
  then have "\<exists>r \<in> set (object_rows db). ob_file_id r = i" using has_row [of db i] by simp
  then show ?thesis
    unfolding in_phase_def set_current_revision_content_def on_success_def
    by (simp only: if_True sum.case) (subst spots_update_one, simp, simp, rule refl)
qed

lemma spots_remove:
  "spots_of (on_success db (remove_file L i db)) = (if i \<in> revised L db then spots_of db else forget i (spots_of db))"
proof (cases "\<exists>r \<in> set (object_rows db). ob_file_id r = i")
  case False
  then have "spots_of db i = None" using has_row by blast
  then have "forget i (spots_of db) = spots_of db" by (auto simp: forget_def)
  then show ?thesis using False unfolding remove_file_def on_success_def by simp
next
  case True
  show ?thesis
    using True by (auto simp: remove_file_def on_success_def revised_def forget_def spots_of_def row_of_def
        filter_other_key [of _ i ob_file_id] fun_eq_iff filter_empty_conv)
qed

lemma run_index_view:
  assumes "texts_ok db" "texts_in c"
  shows "spots_of (run_index L c db) = act_index (revised L db) c (spots_of db)"
proof (cases c)
  case (Move_Under at a b ra rb)
  then show ?thesis using spots_move [OF assms [unfolded Move_Under]] by simp
next
  case (Delete_Under at a s)
  then show ?thesis using assms by (simp add: mark_subtree_deleted_def spots_give_up)
next
  case (Delete_Folders_Under at a s)
  then show ?thesis using assms by (simp add: mark_folders_deleted_def spots_give_up spot_fields)
next
  case (Register P x p k s)
  then show ?thesis by (simp add: register_file_at_path_with_state_def upsert_file_index_def spots_write)
next
  case (Register_Folder P at f)
  then show ?thesis
    using assms(2) by (simp add: register_folder_def upsert_file_index_def spots_write folder_entry_def apply_to_def)
qed (simp_all add: spots_one_file spots_touch spots_revision spots_remove)

lemma run_index_keeps_revisions: "revision_rows (run_index L c db) = revision_rows db"
  by (cases c) (auto simp: one_file_methods update_local_mtime_by_path_def update_objects_def on_success_def
    set_current_revision_content_def remove_file_def register_file_at_path_with_state_def register_folder_def
    upsert_file_index_def write_file_index_def move_subtree_def mark_subtree_deleted_def mark_folders_deleted_def
    mark_deleted_where_def update_transfers_def Let_def)

lemma run_index_texts:
  assumes "texts_ok db" "texts_in c"
  shows "texts_ok (run_index L c db)"
proof -
  have new: "local_text p \<Longrightarrow> key_text k \<Longrightarrow> texts_ok (write_file_index P x p k s db)" for P x p k s
    using assms(1) by (auto simp: texts_ok_def write_file_index_def)
  note same = texts_update [OF assms(1)]
  have paths: "r \<in> set (object_rows db) \<Longrightarrow> local_text (ob_local_path r) \<and> key_text (ob_s3_key r)" for r
    using assms(1) by (simp add: texts_ok_def)
  show ?thesis
  proof (cases c)
    case (Move_Under at a b ra rb)
    have "texts_ok (update_objects (\<lambda>r. at_or_under a (ob_local_path r) \<and> \<not> deleted_row r)
        (\<lambda>r. r\<lparr>ob_local_path := moved_path a b (ob_local_path r), ob_s3_key := moved_key ra rb (ob_s3_key r), ob_updated_at := at\<rparr>) db)"
      using assms(2) paths moved_path_names(2) [of a b] moved_key_names(2) [of ra rb] Move_Under by (intro same) simp
    then show ?thesis unfolding Move_Under run_index.simps move_subtree_def by simp
  next
    case (Delete_Under at a s)
    then show ?thesis using assms(1) paths
      by (auto simp: mark_subtree_deleted_def mark_deleted_where_def Let_def intro!: texts_update)
  next
    case (Delete_Folders_Under at a s)
    then show ?thesis using assms(1) paths
      by (auto simp: mark_folders_deleted_def mark_deleted_where_def Let_def intro!: texts_update)
  next
    case (Register P x p k s)
    then show ?thesis
      using assms(2) new by (simp add: register_file_at_path_with_state_def upsert_file_index_def)
  next
    case (Register_Folder P at f)
    then show ?thesis using assms(2) new by (simp add: register_folder_def upsert_file_index_def)
  next
    case (Remove i)
    then show ?thesis using assms(1) by (auto simp: remove_file_def on_success_def texts_ok_def)
  next
    case (Set_Revision at i v n h)
    then show ?thesis
      using assms(1) paths same by (auto simp: set_current_revision_content_def on_success_def)
  qed (use assms(2) paths in \<open>auto simp: one_file_methods update_local_mtime_by_path_def intro!: same\<close>)
qed

interpretation places: call_refinement spots_of "run_index L" "act_index held" "\<lambda>db. texts_ok db \<and> revised L db = held" texts_in
  for L held
proof unfold_locales
  fix db c
  assume ok: "texts_ok db \<and> revised L db = held" and c: "texts_in c"
  have "revised L (run_index L c db) = revised L db" by (simp add: revised_def run_index_keeps_revisions)
  then show "texts_ok (run_index L c db) \<and> revised L (run_index L c db) = held"
    using ok c run_index_texts by simp
  show "spots_of (run_index L c db) = act_index held c (spots_of db)"
    using ok c run_index_view by blast
qed

section \<open>Other tables\<close>

definition checkpoint_view :: "local_index \<Rightarrow> string \<Rightarrow> string option" where
  "checkpoint_view db n = get_checkpoint n db"

lemma map_of_filter_other: "map_of (filter (\<lambda>c. fst c \<noteq> n) cs) m = (if m = n then None else map_of cs m)"
  by (induction cs) auto

interpretation checkpoints: call_refinement checkpoint_view "\<lambda>(n, v). set_checkpoint n v" "\<lambda>(n, v) m. m(n \<mapsto> v)"
  "\<lambda>_. True" "\<lambda>_. True"
  by unfold_locales
    (auto simp: checkpoint_view_def get_checkpoint_def set_checkpoint_def map_of_filter_other fun_eq_iff)

definition token_view :: "local_index \<Rightarrow> uuid \<times> file_id \<Rightarrow> save_token option" where
  "token_view db k = map_of (note_versions db) k"

lemma map_of_update_where:
  "map_of (update_where (\<lambda>v. fst v = k) (\<lambda>v. (k, t)) vs) = (if k \<in> fst ` set vs then (map_of vs)(k \<mapsto> t) else map_of vs)"
  by (induction vs) (auto simp: update_where_def fun_upd_def)

lemma token_view_put: "token_view (put_token k t True db) = (token_view db)(k \<mapsto> t)"
proof (cases "k \<in> fst ` set (note_versions db)")
  case True
  then have "\<exists>v \<in> set (note_versions db). fst v = k" by force
  then show ?thesis using True by (auto simp: token_view_def put_token_def map_of_update_where fun_eq_iff)
next
  case False
  then have "map_of (note_versions db) k = None" "\<not> (\<exists>v \<in> set (note_versions db). fst v = k)"
    by (auto simp: map_of_eq_None_iff)
  then show ?thesis
    by (intro ext) (auto simp: token_view_def put_token_def map_add_def split: option.split)
qed

interpretation tokens: call_refinement token_view "\<lambda>(k, t). put_token k t True" "\<lambda>(k, t) m. m(k \<mapsto> t)"
  "\<lambda>_. True" "\<lambda>_. True"
  by unfold_locales (auto simp: token_view_put)

end
