(* ===== verification/Local_Scan.thy ===== *)
theory Local_Scan
  imports Index_View Blobs
begin

text \<open>
  How sync decides whether a local file changed (\<open>sync/mod.rs\<close>, the fingerprint of size
  and mtime, then the content hash), what the scan does with a file the index knows, and
  what an upload does with its job. A file is what \<open>metadata\<close> and a read say of its path;
  \<open>None\<close> is a path without a regular file.
\<close>

record local_file =
  fl_bytes :: string
  fl_mtime :: "string option"

type_synonym local_files = "string \<Rightarrow> local_file option"

definition file_len :: "local_file \<Rightarrow> u64" where
  "file_len f = word_of_nat (length (fl_bytes f))"

text \<open>The probe of the database, on the same files.\<close>

definition probe_of :: "local_files \<Rightarrow> (string \<Rightarrow> string option) \<Rightarrow> local_probe" where
  "probe_of files keys =
     \<lparr>pr_mtime_millis = (\<lambda>p. Option.bind (files p) fl_mtime), pr_file_key = keys\<rparr>"

section \<open>Has a file changed?\<close>

definition snapshot_size :: "object_row \<Rightarrow> u64" where
  "snapshot_size r = word_of_int (max 0 (ob_size r))"

definition fingerprint_matches :: "object_row \<Rightarrow> local_file option \<Rightarrow> bool" where
  "fingerprint_matches snapshot file \<longleftrightarrow>
     (case file of
        None \<Rightarrow> False
      | Some f \<Rightarrow> file_len f = snapshot_size snapshot \<and> ob_local_mtime snapshot \<noteq> None
          \<and> fl_mtime f = ob_local_mtime snapshot)"

definition local_file_changed_since_sync :: "libs \<Rightarrow> local_file option \<Rightarrow> string option \<Rightarrow> bool" where
  "local_file_changed_since_sync L file stored_hash \<longleftrightarrow>
     (case file of
        None \<Rightarrow> False
      | Some f \<Rightarrow> (case stored_hash of
            None \<Rightarrow> True
          | Some h \<Rightarrow> \<not> content_hash_matches (Some h) (blob_hash L (fl_bytes f))))"

definition local_file_edited :: "libs \<Rightarrow> local_index \<Rightarrow> local_files \<Rightarrow> string \<Rightarrow> bool" where
  "local_file_edited L db files p \<longleftrightarrow>
     (case get_file_snapshot_by_local_path p db of
        None \<Rightarrow> files p \<noteq> None
      | Some snapshot \<Rightarrow>
          if fingerprint_matches snapshot (files p) then False
          else local_file_changed_since_sync L (files p) (ob_local_hash snapshot))"

section \<open>The scan, for a file the index knows\<close>

definition unchanged_mtime :: "object_row \<Rightarrow> local_file \<Rightarrow> bool" where
  "unchanged_mtime snapshot f \<longleftrightarrow>
     snapshot_size snapshot = file_len f \<and> ob_local_mtime snapshot = fl_mtime f
     \<and> ob_state snapshot \<in> {Synced, Pending_Upload}"

datatype scan_outcome = Left_Alone local_index | Changed_Content

definition scan_known_file ::
    "libs \<Rightarrow> local_probe \<Rightarrow> timestamp \<Rightarrow> string \<Rightarrow> local_file \<Rightarrow> local_index \<Rightarrow> scan_outcome" where
  "scan_known_file L P at p f db =
     (let same_content = (\<lambda>x. fe_size x = file_len f \<and> content_hash_matches (fe_content_hash x) (blob_hash L (fl_bytes f)));
          hashed = (case get_file_by_local_path L p db of
              Some x \<Rightarrow> if same_content x then Left_Alone (update_local_mtime_by_path P at p db) else Changed_Content
            | None \<Rightarrow> Changed_Content)
      in case get_file_snapshot_by_local_path p db of
           Some snapshot \<Rightarrow>
             if unchanged_mtime snapshot f
             then Left_Alone (if ob_local_file_key snapshot = None then update_local_mtime_by_path P at p db else db)
             else hashed
         | None \<Rightarrow> hashed)"

text \<open>A changed file: the indexed entry with the new content, or a new one, and its job.\<close>

definition scanned_entry ::
    "libs \<Rightarrow> file_id \<Rightarrow> timestamp \<Rightarrow> string \<Rightarrow> local_file \<Rightarrow> file_entry option \<Rightarrow> file_entry" where
  "scanned_entry L fresh at s3_key f existing =
     (case existing of
        Some x \<Rightarrow> x\<lparr>fe_name := s3_key, fe_normalized_name := unicode_lowercase L (normalize_name s3_key),
            fe_size := file_len f, fe_content_hash := Some (blake3_local_hash (blob_hash L (fl_bytes f))),
            fe_updated_at := at\<rparr>
      | None \<Rightarrow> \<lparr>fe_file_id = fresh, fe_parent_id = None, fe_name = s3_key,
            fe_normalized_name = unicode_lowercase L (normalize_name s3_key), fe_entry_type = File,
            fe_current_revision_id = None, fe_content_ref = None, fe_size = file_len f,
            fe_content_hash = Some (blake3_local_hash (blob_hash L (fl_bytes f))), fe_mime = None,
            fe_created_at = at, fe_updated_at = at, fe_deleted_at = None, fe_version_history = [],
            fe_attributes = file_attributes_default, fe_lock_state = lock_state_default\<rparr>)"

definition queue_scanned ::
    "libs \<Rightarrow> local_probe \<Rightarrow> timestamp \<Rightarrow> string \<Rightarrow> string \<Rightarrow> file_entry \<Rightarrow> local_file \<Rightarrow> local_index \<Rightarrow> local_index" where
  "queue_scanned L P at p s3_key x f db =
     enqueue_transfer at Upload (uuid_text L (fe_file_id x)) p s3_key (file_len f) None
       (register_local_file_at_path P x p s3_key db)"

section \<open>Jobs in hand\<close>

definition upload_generation_matches :: "libs \<Rightarrow> local_files \<Rightarrow> transfer_job \<Rightarrow> bool" where
  "upload_generation_matches L files job \<longleftrightarrow>
     (case tj_expected_content_hash job of
        None \<Rightarrow> True
      | Some expected \<Rightarrow> (case files (tj_local_path job) of
            None \<Rightarrow> False
          | Some f \<Rightarrow> content_hash_matches (Some expected) (blob_hash L (fl_bytes f))))"

definition upload_parent_revision ::
    "libs \<Rightarrow> local_index \<Rightarrow> transfer_job \<Rightarrow> revision_id option \<Rightarrow> file_entry \<Rightarrow> string \<Rightarrow> revision_id option" where
  "upload_parent_revision L db job indexed_parent remote device =
     (if tj_expected_content_hash job = None then indexed_parent
      else case fe_current_revision_id remote of
        None \<Rightarrow> indexed_parent
      | Some remote_revision \<Rightarrow>
          (case get_revision (uuid_text L remote_revision) db of
             None \<Rightarrow> indexed_parent
           | Some r \<Rightarrow>
               (let remote_hash = (case fe_content_hash remote of
                      Some h \<Rightarrow> Some h | None \<Rightarrow> map_option cr_hash (fe_content_ref remote))
                in if rr_file_id r = tj_file_id job \<and> rr_author_device_id r = device
                     \<and> (case remote_hash of Some h \<Rightarrow> content_hash_matches (rr_content_hash r) h | None \<Rightarrow> False)
                   then Some remote_revision else indexed_parent)))"

definition superseded_locally :: "libs \<Rightarrow> local_index \<Rightarrow> file_id \<Rightarrow> operation \<Rightarrow> bool" where
  "superseded_locally L db i x \<longleftrightarrow>
     (case ef_new_revision_id (op_effects x) of
        None \<Rightarrow> False
      | Some revision \<Rightarrow>
          (case get_revision (uuid_text L revision) db of
             None \<Rightarrow> False
           | Some r \<Rightarrow> rr_file_id r = uuid_text L i
               \<and> Option.bind (get_file L i db) fe_current_revision_id \<noteq> Some revision))"

definition record_entry_revision ::
    "libs \<Rightarrow> timestamp \<Rightarrow> file_id \<Rightarrow> revision_id option \<Rightarrow> revision_id option \<Rightarrow> content_ref option
      \<Rightarrow> string \<Rightarrow> string \<Rightarrow> string \<Rightarrow> string option \<Rightarrow> local_index \<Rightarrow> local_index core_result" where
  "record_entry_revision L at i revision parent content author author_name merge conflict db =
     (case revision of
        None \<Rightarrow> Inr db
      | Some v \<Rightarrow>
          record_revision L at (uuid_text L v) i (map_option (uuid_text L) parent)
            (map_option (\<lambda>c. blake3_local_hash (cr_hash c)) content)
            (case content of Some c \<Rightarrow> cr_size c | None \<Rightarrow> 0) (map_option cr_mime content)
            author author_name merge conflict db)"

text \<open>\<open>retry_later\<close> without its sleep.\<close>

definition retry_later :: "timestamp \<Rightarrow> nat \<Rightarrow> u32 \<Rightarrow> core_error \<Rightarrow> local_index \<Rightarrow> local_index core_result" where
  "retry_later at job max_retries e db =
     (case increment_retry at job db of
        Inl x \<Rightarrow> Inl x
      | Inr (retry, db') \<Rightarrow>
          if retry \<ge> max_retries then fail_transfer at job (''max retries: '' @ core_error_text e) db'
          else update_transfer_status at job Queued db')"

section \<open>After an upload\<close>

lemma last_row_snoc: "last_row (filter c (rs @ [r])) = (if c r then Some r else last_row (filter c rs))"
  by (simp add: last_row_def first_row_def)

lemma update_transfers_rows [simp]: "object_rows (update_transfers c f db) = object_rows db"
  by (simp add: update_transfers_def)

lemma file_row_at_cong: "object_rows db = object_rows db' \<Longrightarrow> file_row_at p db = file_row_at p db'"
  by (simp add: file_row_at_def)

text \<open>The row an upload writes is the one the scan finds at its path.\<close>

lemma written_row_found:
  assumes "fe_entry_type x = File"
  shows "file_row_at p (write_file_index P x p k Synced db)
    = Some (last (object_rows (write_file_index P x p k Synced db)))"
proof -
  let ?rs = "filter (\<lambda>r. ob_file_id r \<noteq> fe_file_id x) (object_rows db)"
  obtain r where rows: "object_rows (write_file_index P x p k Synced db) = ?rs @ [r]"
    and r: "ob_local_path r = p" "\<not> ob_is_folder r" "ob_state r = Synced"
    using assms by (simp add: write_file_index_def)
  have "last_row (filter (\<lambda>r. \<not> deleted_row r) (filter (\<lambda>r. ob_local_path r = p \<and> \<not> ob_is_folder r) (?rs @ [r]))) = Some r"
    using r by (simp add: filter_filter last_row_def first_row_def deleted_row_def)
  then show ?thesis
    unfolding file_row_at_def rows by simp
qed

text \<open>The row and the job after the upload of a job that is not bound to its content.\<close>

lemma unbound_upload_row:
  assumes "tj_expected_content_hash job = None"
    and "indexed_place L (tj_file_id job) db = Some (p, k, parent)" "fe_entry_type x = File"
  obtains r where
    "get_file_snapshot_by_local_path p (snd (finish_upload L P at job x same db)) = Some r"
    "ob_state r = Synced" "ob_size r = sint (fe_size x)" "ob_local_hash r = fe_content_hash x"
    "ob_local_mtime r = (if p = [] then None else pr_mtime_millis P p)" "ob_local_file_key r = pr_file_key P p"
proof
  let ?x = "x\<lparr>fe_parent_id := parent\<rparr>"
  let ?r = "last (object_rows (write_file_index P ?x p k Synced db))"
  have "object_rows (snd (finish_upload L P at job x same db)) = object_rows (write_file_index P ?x p k Synced db)"
    using assms(1,2) by (simp add: finish_upload_def)
  then show "get_file_snapshot_by_local_path p (snd (finish_upload L P at job x same db)) = Some ?r"
    using written_row_found [of ?x p P k db] assms(3)
    by (simp add: get_file_snapshot_by_local_path_def cong: file_row_at_cong)
qed (simp_all add: write_file_index_def)

end
