(* ===== verification/Samples_Index.thy ===== *)
theory Samples_Index
  imports Index_Ops Notes_Replay Local_Scan Sample_Libs
begin

text \<open>
  A small local database and a journal entry, for the concrete instances of the
  properties of the index: the file 1 at \<open>/d/a/t\<close> with the content \<open>old\<close>, its job, and
  a save of the note 2.
\<close>

definition sample_probe :: local_probe where
  "sample_probe = \<lparr>pr_mtime_millis = (\<lambda>p. Some ''1''), pr_file_key = (\<lambda>p. None)\<rparr>"

definition indexed_file :: "file_id \<Rightarrow> string \<Rightarrow> file_entry" where
  "indexed_file i content =
     \<lparr>fe_file_id = i, fe_parent_id = None, fe_name = ''t'', fe_normalized_name = ''t'', fe_entry_type = File,
      fe_current_revision_id = None, fe_content_ref = None, fe_size = word_of_nat (length content),
      fe_content_hash = Some (blob_hash sample_libs content), fe_mime = None, fe_created_at = ''1'',
      fe_updated_at = ''1'', fe_deleted_at = None, fe_version_history = [],
      fe_attributes = file_attributes_default, fe_lock_state = lock_state_default\<rparr>"

definition sample_index :: local_index where
  "sample_index = add_transfer ''1'' Upload (uuid_text sample_libs 1) ''/d/a/t'' ''a/t'' 3 None
     (write_file_index sample_probe (indexed_file 1 ''old'') ''/d/a/t'' ''a/t'' Pending_Upload empty_index)"

lemma sample_index_reached: "(index_step L)\<^sup>*\<^sup>* empty_index sample_index"
proof -
  have first: "write_file_index sample_probe (indexed_file 1 ''old'') ''/d/a/t'' ''a/t'' Pending_Upload empty_index
      = upsert_file_index sample_probe (indexed_file 1 ''old'') ''/d/a/t'' ''a/t'' Pending_Upload empty_index"
    by (simp add: upsert_file_index_def)
  have none: "transfers (upsert_file_index sample_probe (indexed_file 1 ''old'') ''/d/a/t'' ''a/t'' Pending_Upload empty_index) = []"
    by (simp add: upsert_file_index_def write_file_index_def empty_index_def)
  have sample: "sample_index = enqueue_transfer ''1'' Upload (uuid_text sample_libs 1) ''/d/a/t'' ''a/t'' 3 None
      (upsert_file_index sample_probe (indexed_file 1 ''old'') ''/d/a/t'' ''a/t'' Pending_Upload empty_index)"
    unfolding sample_index_def first by (simp add: enqueue_transfer_def changes_def none)
  show ?thesis
    unfolding sample
    by (rule rtranclp.rtrancl_into_rtrancl, rule r_into_rtranclp, rule index_step.upsert, rule index_step.enqueued)
qed

text \<open>The job in the hands of the uploader, and the file after an edit of the same size.\<close>

definition sample_job :: transfer_job where
  "sample_job =
     \<lparr>tj_id = 1, tj_direction = Upload, tj_file_id = uuid_text sample_libs 1, tj_local_path = ''/d/a/t'',
      tj_s3_key = ''a/t'', tj_expected_content_hash = None, tj_total_bytes = 3, tj_transferred_bytes = 0,
      tj_status = In_Progress, tj_retry_count = 0, tj_error_message = None, tj_created_at = ''1'',
      tj_updated_at = ''1''\<rparr>"

definition edited_file :: local_file where
  "edited_file = \<lparr>fl_bytes = ''new'', fl_mtime = Some ''2''\<rparr>"

definition edited_files :: local_files where
  "edited_files p = (if p = ''/d/a/t'' then Some edited_file else None)"

text \<open>A save of a note that the database does not know yet.\<close>

definition saved_note :: indexed_identity where
  "saved_note =
     \<lparr>id_metadata_available = True, id_entry = indexed_file 2 ''note'', id_relative = ''Notes/n.md'',
      id_state = Pending_Upload, id_token = Some \<lparr>st_generation = 1, st_content_hash = ''h''\<rparr>\<rparr>"

definition sample_intent :: mutation_intent where
  "sample_intent =
     \<lparr>mi_sequence = 1, mi_workspace_id = 5, mi_request_id = 6, mi_file_id = 2, mi_root_id = 7,
      mi_root_identity = ''r'', mi_kind = M_Save, mi_stage = ''published'', mi_created_at = ''1'',
      mi_baseline = [], mi_changes = [saved_note], mi_no_op = False\<rparr>"

text \<open>
  Calls that put a folder over the file 1 and the file 5 next to it, under a name that
  begins alike, move the folder and delete what lies at its new place.
\<close>

definition sample_calls :: "index_call list" where
  "sample_calls =
     [Register_Folder sample_probe ''1''
        \<lparr>if_file_id = 4, if_parent_id = None, if_local_path = ''/d/a'', if_remote_path = ''a''\<rparr>,
      Register sample_probe (indexed_file 5 ''x'') ''/d/ab'' ''ab'' Synced,
      Move_Under ''2'' ''/d/a'' ''/d/c/b'' ''a'' ''c/b'', Delete_Under ''3'' ''/d/c'' Deleted_Remotely]"

end
