(* ===== verification/Retention.thy ===== *)
theory Retention
  imports Transfer_Queue File_Tree Snapshots Engine Blobs
begin

text \<open>
  Maintenance of the bucket by a device (\<open>sync/maintenance.rs\<close>) and the blob leases of
  uploads (\<open>sync/mod.rs\<close>): retiring expired deletion records, collecting blobs that
  nothing refers to, snapshots and compaction of the operation log. A listing comes in
  pages from the service, the parameter \<open>G\<close>; the text of a lease is rendered by \<open>E\<close> and
  read by \<open>R\<close>, which gives its \<open>expires_at\<close>. The loops over pages need not end while other
  devices add keys, so they are partial: \<open>None\<close> is a run that does not return.
\<close>

record maintainer = metadata_engine +
  mt_db :: local_index

section \<open>Runs that may not return\<close>

type_synonym ('s, 'a) run = "'s \<Rightarrow> (core_error + 'a) \<times> 's"
type_synonym ('s, 'a) lrun = "'s \<Rightarrow> ((core_error + 'a) \<times> 's) option"

definition run_try :: "('s, 'a) lrun \<Rightarrow> (core_error + 'a \<Rightarrow> ('s, 'b) lrun) \<Rightarrow> ('s, 'b) lrun" where
  "run_try m k s = (case m s of None \<Rightarrow> None | Some (r, s') \<Rightarrow> k r s')"

definition run_bind :: "('s, 'a) lrun \<Rightarrow> ('a \<Rightarrow> ('s, 'b) lrun) \<Rightarrow> ('s, 'b) lrun" where
  "run_bind m k = run_try m (\<lambda>r. case r of Inl e \<Rightarrow> (\<lambda>s. Some (Inl e, s)) | Inr x \<Rightarrow> k x)"

definition once :: "('s, 'a) run \<Rightarrow> ('s, 'a) lrun" where
  "once m s = Some (m s)"

primrec run_fold :: "('x \<Rightarrow> 'a \<Rightarrow> ('s, 'a) lrun) \<Rightarrow> 'x list \<Rightarrow> 'a \<Rightarrow> ('s, 'a) lrun" where
  "run_fold f [] a = once (io_return a)"
| "run_fold f (x # xs) a = run_bind (f x a) (run_fold f xs)"

text \<open>A question after another, asked if the answer so far is no.\<close>

definition or_else :: "('s, bool) lrun \<Rightarrow> ('s, bool) lrun \<Rightarrow> ('s, bool) lrun" where
  "or_else m n = run_bind m (\<lambda>yes. if yes then once (io_return True) else n)"

section \<open>Pages of keys\<close>

record key_page =
  pg_keys :: "string list"
  pg_next :: "string option"
  pg_truncated :: bool

type_synonym pager = "string \<Rightarrow> nat \<Rightarrow> string option \<Rightarrow> objs \<Rightarrow> key_page"

definition clamp_page :: "int \<Rightarrow> nat" where
  "clamp_page n = nat (max 1 (min 1000 n))"

definition list_objects_page ::
    "pager \<Rightarrow> string \<Rightarrow> int \<Rightarrow> string option \<Rightarrow> ('z world_scheme, core_error, key_page) io" where
  "list_objects_page G p n cursor = serve (\<lambda>m. (Inr (G p (clamp_page n) cursor m), m))"

text \<open>A page of keys is visited until a visit says yes.\<close>

primrec visit_keys :: "(string \<Rightarrow> ('s, core_error, bool) io) \<Rightarrow> string list \<Rightarrow> ('s, core_error, bool) io" where
  "visit_keys visit [] = io_return False"
| "visit_keys visit (k # ks) = io_bind (visit k) (\<lambda>yes. if yes then io_return True else visit_keys visit ks)"

partial_function (option) visit_pages ::
    "pager \<Rightarrow> string \<Rightarrow> int \<Rightarrow> core_error \<Rightarrow> (string \<Rightarrow> ('z world_scheme, core_error, bool) io) \<Rightarrow> string option
      \<Rightarrow> ('z world_scheme, bool) lrun" where
  "visit_pages G p n truncated visit cursor w =
     (case list_objects_page G p n cursor w of
        (Inl e, w1) \<Rightarrow> Some (Inl e, w1)
      | (Inr page, w1) \<Rightarrow>
          (case visit_keys visit (pg_keys page) w1 of
             (Inl e, w2) \<Rightarrow> Some (Inl e, w2)
           | (Inr yes, w2) \<Rightarrow>
               if yes then Some (Inr True, w2)
               else if \<not> pg_truncated page then Some (Inr False, w2)
               else (case pg_next page of
                   None \<Rightarrow> Some (Inl truncated, w2)
                 | Some t \<Rightarrow> visit_pages G p n truncated visit (Some t) w2)))"

definition truncated_list :: "string \<Rightarrow> core_error" where
  "truncated_list what = S3 (what @ '' LIST was truncated without ContinuationToken'')"

section \<open>Expired deletion records\<close>

datatype tombstone_cleanup = Cleanup_Missing | Not_Expired | Retired_Record | Kept_Record string

text \<open>A new \<open>OperationLog\<close> of some identity and clock over the same bucket.\<close>

definition with_log :: "device_id \<Rightarrow> u64 \<Rightarrow> (oplog, core_error, 'a) io \<Rightarrow> ('z world_scheme, core_error, 'a) io" where
  "with_log d clock m w =
     (case m \<lparr>objects = objects w, events = events w, now = now w, draws = draws w, ol_device = d, ol_clock = clock,
         ol_head = None, ol_etag = None, ol_loaded = False\<rparr> of
        (r, s) \<Rightarrow> (r, w\<lparr>objects := objects s, events := events s, now := now s, draws := draws s\<rparr>))"

definition cleanup_decision :: "bool \<Rightarrow> operation option \<Rightarrow> string option" where
  "cleanup_decision live latest =
     (case map_option (\<lambda>x. ef_deleted (op_effects x)) latest of
        Some deleted \<Rightarrow>
          if deleted \<and> live then Some ''the tree still lists an entry the log deleted''
          else if \<not> deleted \<and> \<not> live then Some ''a later change of the entry is not in the tree yet''
          else None
      | None \<Rightarrow> None)"

definition retire_record ::
    "libs \<Rightarrow> file_id \<Rightarrow> tombstone_version \<Rightarrow> ('z world_scheme, core_error, tombstone_cleanup) io" where
  "retire_record L i version =
     io_bind
       (io_try (get_entry L i) (\<lambda>r. case r of
            Inr _ \<Rightarrow> io_return True
          | Inl e \<Rightarrow> if is_NotFound e then io_return False else io_throw e))
       (\<lambda>live.
     io_bind (with_log 0 0 (latest_on_target L i)) (\<lambda>latest.
       case cleanup_decision live latest of
         Some reason \<Rightarrow> io_return (Kept_Record reason)
       | None \<Rightarrow>
           io_bind (delete_if_match (tombstone_key L i) (tv_etag version)) (\<lambda>deleted.
             io_return (if deleted then Retired_Record else Kept_Record ''a newer deletion replaced the record''))))"

definition collect_expired_tombstone_at ::
    "libs \<Rightarrow> file_id \<Rightarrow> int \<Rightarrow> ('z world_scheme, core_error, tombstone_cleanup) io" where
  "collect_expired_tombstone_at L i at =
     io_try (get_tombstone_version L i) (\<lambda>r. case r of
         Inl e \<Rightarrow>
           if is_NotFound e then io_return Cleanup_Missing
           else if is_Protocol e \<or> is_Conflict e then io_return (Kept_Record ''the deletion record cannot be read'')
           else io_throw e
       | Inr version \<Rightarrow>
           (case rfc3339_parse L (ts_retention_until (tv_tombstone version)) of
              Inl _ \<Rightarrow> io_return (Kept_Record ''the retention time cannot be read'')
            | Inr until \<Rightarrow>
                if until > at then io_return Not_Expired else retire_record L i version))"

definition stale_etag :: string where
  "stale_etag = ''00000000000000000000000000000000''"

definition probe_key :: "libs \<Rightarrow> uuid \<Rightarrow> string" where
  "probe_key L u = ''.s4drive/meta/probes/conditional-delete/'' @ uuid_text L u"

definition probe_delete :: "string \<Rightarrow> string \<Rightarrow> ('z world_scheme, core_error, bool) io" where
  "probe_delete k etag =
     io_try (delete_if_match k stale_etag) (\<lambda>r.
       if r = Inr False
       then io_try (head_object k) (\<lambda>h. case h of
           Inr _ \<Rightarrow> delete_if_match k etag
         | Inl e \<Rightarrow> if is_NotFound e then io_return False else io_throw e)
       else io_return False)"

definition conditional_delete_supported :: "libs \<Rightarrow> ('z world_scheme, core_error, bool) io" where
  "conditional_delete_supported L =
     io_bind (new_uuid L) (\<lambda>u.
     io_bind (put_if_not_exists L (probe_key L u) ''probe'') (\<lambda>created.
       if \<not> created then io_return False
       else
         io_bind (head_object (probe_key L u)) (\<lambda>meta.
         io_bind (probe_delete (probe_key L u) (om_etag meta)) (\<lambda>supported.
           if supported then io_return True
           else io_try (delete_object (probe_key L u)) (\<lambda>r. case r of
               Inr _ \<Rightarrow> io_return False
             | Inl e \<Rightarrow> if is_NotFound e then io_return False else io_throw e)))))"

section \<open>Blobs that nothing refers to\<close>

definition content_ref_matches_blob :: "libs \<Rightarrow> content_ref \<Rightarrow> blob_candidate \<Rightarrow> bool" where
  "content_ref_matches_blob L c b \<longleftrightarrow>
     cr_storage_key c = bc_blob_key b \<or> cr_hash c = bc_blob_hash b \<or> uuid_text L (cr_blob_id c) = bc_blob_id b"

definition entry_references_blob :: "libs \<Rightarrow> file_entry \<Rightarrow> blob_candidate \<Rightarrow> bool" where
  "entry_references_blob L x b \<longleftrightarrow>
     (case fe_content_ref x of Some c \<Rightarrow> content_ref_matches_blob L c b | None \<Rightarrow> False)
     \<or> fe_content_hash x = Some (bc_blob_hash b)"

definition reference_page_size :: "int \<Rightarrow> int" where
  "reference_page_size configured = max 1 (min 1000 configured)"

text \<open>A visit that reads the object of a key; an object that is gone is passed over.\<close>

definition visit_found :: "('s, core_error, 'a) io \<Rightarrow> ('a \<Rightarrow> bool) \<Rightarrow> ('s, core_error, bool) io" where
  "visit_found read matches =
     io_try read (\<lambda>r. case r of
         Inr x \<Rightarrow> io_return (matches x)
       | Inl e \<Rightarrow> if is_NotFound e then io_return False else io_throw e)"

definition tree_visit :: "libs \<Rightarrow> blob_candidate \<Rightarrow> string \<Rightarrow> ('z world_scheme, core_error, bool) io" where
  "tree_visit L b k =
     (case tree_key_to_file_id L k of
        None \<Rightarrow> io_return False
      | Some i \<Rightarrow> visit_found (get_entry L i) (\<lambda>x. entry_references_blob L x b))"

definition tombstone_visit :: "libs \<Rightarrow> blob_id \<Rightarrow> string \<Rightarrow> ('z world_scheme, core_error, bool) io" where
  "tombstone_visit L blob k =
     (case tombstone_key_to_file_id L k of
        None \<Rightarrow> io_return False
      | Some i \<Rightarrow> visit_found (get_tombstone L i) (\<lambda>t. blob \<in> set (ts_content_refs t)))"

definition op_visit :: "libs \<Rightarrow> blob_candidate \<Rightarrow> string \<Rightarrow> ('z world_scheme, core_error, bool) io" where
  "op_visit L b k =
     visit_found (read_json L (json_operation L) ''operation UTF-8: '' [] k)
       (\<lambda>x. case ef_new_content_ref (op_effects x) of Some c \<Rightarrow> content_ref_matches_blob L c b | None \<Rightarrow> False)"

definition snapshot_visit :: "libs \<Rightarrow> blob_candidate \<Rightarrow> string \<Rightarrow> ('z world_scheme, core_error, bool) io" where
  "snapshot_visit L b k =
     (if \<not> ends_with k ''/tree.json'' then io_return False
      else visit_found (read_json L (json_entries L) ''snapshot UTF-8: '' ''snapshot tree: '' k)
        (list_ex (\<lambda>x. entry_references_blob L x b)))"

text \<open>An expired lease is removed on the way; whether that works does not matter.\<close>

definition lease_visit ::
    "libs \<Rightarrow> (string \<Rightarrow> string option) \<Rightarrow> int \<Rightarrow> string \<Rightarrow> ('z world_scheme, core_error, bool) io" where
  "lease_visit L R at k =
     io_try (get_object k) (\<lambda>r. case r of
         Inl e \<Rightarrow> if is_NotFound e then io_return False else io_throw e
       | Inr data \<Rightarrow>
           (case R data of
              None \<Rightarrow> io_return True
            | Some expires_at \<Rightarrow>
                (case rfc3339_parse L expires_at of
                   Inl _ \<Rightarrow> io_return True
                 | Inr expires \<Rightarrow>
                     if expires > at then io_return True
                     else io_try (delete_object k) (\<lambda>_. io_return False))))"

definition blob_has_active_lease ::
    "libs \<Rightarrow> pager \<Rightarrow> (string \<Rightarrow> string option) \<Rightarrow> int \<Rightarrow> string \<Rightarrow> ('z world_scheme, bool) lrun" where
  "blob_has_active_lease L G R page_size h w =
     visit_pages G (blob_lease_prefix h) (reference_page_size page_size) (truncated_list ''blob lease'')
       (lease_visit L R (now w)) None w"

definition tree_references_blob ::
    "libs \<Rightarrow> pager \<Rightarrow> int \<Rightarrow> blob_candidate \<Rightarrow> ('z world_scheme, bool) lrun" where
  "tree_references_blob L G page_size b =
     visit_pages G tree_prefix (reference_page_size page_size) (truncated_list ''tree'') (tree_visit L b) None"

text \<open>The message of the uuid crate is left out.\<close>

definition invalid_blob_id :: core_error where
  "invalid_blob_id = Protocol ''invalid blob id: ''"

definition tombstone_references_blob ::
    "libs \<Rightarrow> pager \<Rightarrow> int \<Rightarrow> blob_candidate \<Rightarrow> ('z world_scheme, bool) lrun" where
  "tombstone_references_blob L G page_size b =
     (case uuid_parse L (bc_blob_id b) of
        None \<Rightarrow> once (io_throw invalid_blob_id)
      | Some blob \<Rightarrow>
          visit_pages G tombstone_prefix (reference_page_size page_size) (truncated_list ''tombstone'')
            (tombstone_visit L blob) None)"

definition ops_reference_blob ::
    "libs \<Rightarrow> pager \<Rightarrow> int \<Rightarrow> blob_candidate \<Rightarrow> ('z world_scheme, bool) lrun" where
  "ops_reference_blob L G page_size b =
     visit_pages G op_prefix (reference_page_size page_size) (truncated_list ''ops'') (op_visit L b) None"

definition snapshots_reference_blob ::
    "libs \<Rightarrow> pager \<Rightarrow> int \<Rightarrow> blob_candidate \<Rightarrow> ('z world_scheme, bool) lrun" where
  "snapshots_reference_blob L G page_size b =
     visit_pages G snapshots_prefix (reference_page_size page_size) (truncated_list ''snapshot'') (snapshot_visit L b) None"

definition remote_blob_is_referenced ::
    "libs \<Rightarrow> pager \<Rightarrow> (string \<Rightarrow> string option) \<Rightarrow> int \<Rightarrow> blob_candidate \<Rightarrow> ('z maintainer_scheme, bool) lrun" where
  "remote_blob_is_referenced L G R page_size b =
     or_else (once (io_get (\<lambda>w. local_content_references_blob (bc_blob_hash b) (mt_db w))))
     (or_else (blob_has_active_lease L G R page_size (bc_blob_hash b))
     (or_else (tree_references_blob L G page_size b)
     (or_else (tombstone_references_blob L G page_size b)
     (or_else (ops_reference_blob L G page_size b)
       (snapshots_reference_blob L G page_size b)))))"

text \<open>The sweep; its counts are the blobs deleted, retained and left with an error.\<close>

type_synonym sweep_counts = "u64 \<times> u64 \<times> u64"

definition db_call :: "(local_index \<Rightarrow> local_index) \<Rightarrow> ('z maintainer_scheme, core_error, unit) io" where
  "db_call f = io_modify (\<lambda>w. w\<lparr>mt_db := f (mt_db w)\<rparr>)"

definition sweep_failed ::
    "string \<Rightarrow> core_error \<Rightarrow> sweep_counts \<Rightarrow> ('z maintainer_scheme, core_error, sweep_counts) io" where
  "sweep_failed key e = (\<lambda>(deleted, retained, errors).
     io_bind (db_call (record_remote_blob_gc_error key (core_error_text e))) (\<lambda>_.
       io_return (deleted, retained, errors + 1)))"

definition delete_unreferenced ::
    "libs \<Rightarrow> string \<Rightarrow> sweep_counts \<Rightarrow> ('z maintainer_scheme, core_error, sweep_counts) io" where
  "delete_unreferenced L key = (\<lambda>(deleted, retained, errors).
     io_try (delete_object key) (\<lambda>r.
       if (case r of Inr _ \<Rightarrow> True | Inl e \<Rightarrow> is_NotFound e)
       then io_bind utc_now (\<lambda>at.
         io_bind (db_call (mark_remote_blob_gc_deleted (rfc3339_text L at) key)) (\<lambda>_.
           io_return (deleted + 1, retained, errors)))
       else sweep_failed key (projl r) (deleted, retained, errors)))"

definition sweep_candidate ::
    "libs \<Rightarrow> pager \<Rightarrow> (string \<Rightarrow> string option) \<Rightarrow> int \<Rightarrow> blob_candidate \<Rightarrow> sweep_counts
      \<Rightarrow> ('z maintainer_scheme, sweep_counts) lrun" where
  "sweep_candidate L G R page_size b = (\<lambda>(deleted, retained, errors).
     run_try (remote_blob_is_referenced L G R page_size b) (\<lambda>r. case r of
         Inr True \<Rightarrow> once (io_bind (db_call (remove_remote_blob_gc_candidate (bc_blob_key b))) (\<lambda>_.
             io_return (deleted, retained + 1, errors)))
       | Inr False \<Rightarrow> once (delete_unreferenced L (bc_blob_key b) (deleted, retained, errors))
       | Inl e \<Rightarrow> once (sweep_failed (bc_blob_key b) e (deleted, retained, errors))))"

definition sweep_remote_blob_candidates ::
    "libs \<Rightarrow> pager \<Rightarrow> (string \<Rightarrow> string option) \<Rightarrow> int \<Rightarrow> nat \<Rightarrow> ('z maintainer_scheme, sweep_counts) lrun" where
  "sweep_remote_blob_candidates L G R page_size batch w =
     run_fold (sweep_candidate L G R page_size)
       (due_remote_blob_gc_candidates (rfc3339_text L (now w)) (max 1 batch) (mt_db w)) (0, 0, 0) w"

section \<open>Discovery of blobs\<close>

record blob_identity =
  bi_key :: string
  bi_hash :: string
  bi_blob_id :: blob_id

definition hex_digit :: "char \<Rightarrow> nat option" where
  "hex_digit c =
     (if CHR ''0'' \<le> c \<and> c \<le> CHR ''9'' then Some (byte c - byte (CHR ''0''))
      else if CHR ''a'' \<le> c \<and> c \<le> CHR ''f'' then Some (byte c - byte (CHR ''a'') + 10)
      else if CHR ''A'' \<le> c \<and> c \<le> CHR ''F'' then Some (byte c - byte (CHR ''A'') + 10)
      else None)"

text \<open>\<open>u8::from_str_radix\<close> of two characters; a sign before one digit is read too.\<close>

definition hex_byte :: "char \<Rightarrow> char \<Rightarrow> nat option" where
  "hex_byte c d =
     (if c = CHR ''+'' then hex_digit d
      else case (hex_digit c, hex_digit d) of (Some h, Some l) \<Rightarrow> Some (16 * h + l) | _ \<Rightarrow> None)"

fun hex_bytes :: "nat \<Rightarrow> string \<Rightarrow> nat list option" where
  "hex_bytes 0 s = Some []"
| "hex_bytes (Suc n) (c # d # s) =
     (case hex_byte c d of None \<Rightarrow> None | Some b \<Rightarrow> map_option ((#) b) (hex_bytes n s))"
| "hex_bytes (Suc n) _ = None"

definition blob_id_from_hex :: "string \<Rightarrow> blob_id option" where
  "blob_id_from_hex h =
     (if length h < 32 then None
      else map_option (foldl (\<lambda>n b. n * 256 + of_nat b) 0) (hex_bytes 16 h))"

definition parse_blob_key :: "string \<Rightarrow> blob_identity option" where
  "parse_blob_key key =
     (case strip_prefix blob_prefix key of
        None \<Rightarrow> None
      | Some rest \<Rightarrow>
          (case split_once (CHR ''/'') rest of
             None \<Rightarrow> None
           | Some (p, h) \<Rightarrow>
               if CHR ''/'' \<in> set h \<or> length h \<noteq> 64 \<or> \<not> list_all (\<lambda>c. hex_digit c \<noteq> None) h then None
               else if take 2 h \<noteq> p then None
               else map_option (\<lambda>i. \<lparr>bi_key = key, bi_hash = h, bi_blob_id = i\<rparr>) (blob_id_from_hex h)))"

definition blob_discovery_checkpoint_after_limit :: "bool \<Rightarrow> string option \<Rightarrow> bool \<Rightarrow> string option core_result" where
  "blob_discovery_checkpoint_after_limit page_is_truncated next_token processed_full_page =
     (if \<not> page_is_truncated then Inr (Some [])
      else if \<not> processed_full_page then Inr None
      else case next_token of None \<Rightarrow> Inl (truncated_list ''blob'') | Some t \<Rightarrow> Inr (Some t))"

text \<open>The keys of one page: what was seen, and whether the whole page was processed.\<close>

primrec discover_keys ::
    "libs \<Rightarrow> timestamp \<Rightarrow> timestamp \<Rightarrow> nat \<Rightarrow> string list \<Rightarrow> nat \<times> local_index \<Rightarrow> bool \<times> nat \<times> local_index" where
  "discover_keys L at until limit [] s = (True, s)"
| "discover_keys L at until limit (k # ks) s =
     (let (seen, db) = s in
      if seen \<ge> limit then (False, s)
      else case parse_blob_key k of
          None \<Rightarrow> discover_keys L at until limit ks s
        | Some b \<Rightarrow> discover_keys L at until limit ks
            (seen + 1, upsert_remote_blob_gc_candidate at (bi_key b) (bi_hash b) (uuid_text L (bi_blob_id b)) until db))"

definition blob_discovery_cursor :: string where
  "blob_discovery_cursor = ''maintenance_blob_discovery_cursor''"

definition non_empty :: "string option \<Rightarrow> string option" where
  "non_empty v = (case v of Some [] \<Rightarrow> None | _ \<Rightarrow> v)"

primrec discover_pages ::
    "libs \<Rightarrow> pager \<Rightarrow> int \<Rightarrow> timestamp \<Rightarrow> timestamp \<Rightarrow> nat \<Rightarrow> nat \<Rightarrow> string option \<Rightarrow> nat
      \<Rightarrow> ('z maintainer_scheme, core_error, nat) io" where
  "discover_pages L G page_size at until limit 0 cursor seen = io_return seen"
| "discover_pages L G page_size at until limit (Suc rounds) cursor seen =
     io_bind (list_objects_page G blob_prefix page_size cursor) (\<lambda>page.
     io_bind (io_get mt_db) (\<lambda>db.
       let (full, seen, db) = discover_keys L at until limit (pg_keys page) (seen, db) in
       io_bind (db_call (\<lambda>_. db)) (\<lambda>_.
         if seen \<ge> limit then
           io_bind (io_result (blob_discovery_checkpoint_after_limit (pg_truncated page) (pg_next page) full)) (\<lambda>c.
           io_bind (case c of None \<Rightarrow> io_return () | Some v \<Rightarrow> db_call (set_checkpoint blob_discovery_cursor v)) (\<lambda>_.
             io_return seen))
         else if pg_truncated page then
           (case pg_next page of
              None \<Rightarrow> io_throw (truncated_list ''blob'')
            | Some t \<Rightarrow>
                io_bind (db_call (set_checkpoint blob_discovery_cursor t)) (\<lambda>_.
                  discover_pages L G page_size at until limit rounds (Some t) seen))
         else
           io_bind (db_call (set_checkpoint blob_discovery_cursor [])) (\<lambda>_. io_return seen))))"

definition blob_discovery_max_pages_per_pass :: nat where
  "blob_discovery_max_pages_per_pass = 2"

definition discover_remote_blob_candidates ::
    "libs \<Rightarrow> pager \<Rightarrow> nat \<Rightarrow> u64 \<Rightarrow> ('z maintainer_scheme, core_error, nat) io" where
  "discover_remote_blob_candidates L G batch quarantine_days =
     io_bind utc_now (\<lambda>at.
     io_bind (io_get (\<lambda>w. non_empty (get_checkpoint blob_discovery_cursor (mt_db w)))) (\<lambda>cursor.
       discover_pages L G (int (max 1 (min 1000 batch))) (rfc3339_text L at)
         (rfc3339_text L (at + duration_days (as_i64 quarantine_days)))
         (max 1 batch) blob_discovery_max_pages_per_pass cursor 0))"

section \<open>Leases of uploads\<close>

definition lease_doc :: "libs \<Rightarrow> device_id \<Rightarrow> content_ref \<Rightarrow> int \<Rightarrow> int \<Rightarrow> json_doc" where
  "lease_doc L d c at expires =
     JObj [(''schema_version'', JNum 1),
           (''blob_hash'', JStr (cr_hash c)),
           (''blob_key'', JStr (cr_storage_key c)),
           (''blob_id'', JStr (uuid_text L (cr_blob_id c))),
           (''device_id'', JStr (uuid_text L d)),
           (''created_at'', JStr (rfc3339_text L at)),
           (''expires_at'', JStr (rfc3339_text L expires))]"

definition min_blob_lease_ttl_minutes :: u64 where
  "min_blob_lease_ttl_minutes = 1"

definition duration_minutes :: "int \<Rightarrow> int" where
  "duration_minutes n = n * 60000000000"

definition create_blob_lease ::
    "libs \<Rightarrow> engine_env \<Rightarrow> device_id \<Rightarrow> content_ref \<Rightarrow> u64 \<Rightarrow> ('z world_scheme, core_error, string) io" where
  "create_blob_lease L E d c ttl_minutes =
     io_bind utc_now (\<lambda>at.
       let ttl = duration_minutes (as_i64 (max ttl_minutes min_blob_lease_ttl_minutes));
           k = blob_lease_key (cr_hash c) (uuid_text L d) in
       io_bind (io_result (render_pretty E (lease_doc L d c at (at + ttl)))) (\<lambda>body.
       io_bind (put_object L k body) (\<lambda>_. io_return k)))"

definition release_blob_lease :: "string \<Rightarrow> ('z world_scheme, core_error, unit) io" where
  "release_blob_lease k =
     io_try (delete_object k) (\<lambda>r. case r of
         Inr _ \<Rightarrow> io_return ()
       | Inl e \<Rightarrow> if is_NotFound e then io_return () else io_throw e)"

section \<open>Snapshots and the operation log\<close>

text \<open>The entries of a page of the tree; \<open>None\<close> once there are more than \<open>most\<close>.\<close>

primrec page_entries ::
    "libs \<Rightarrow> nat \<Rightarrow> file_id list \<Rightarrow> file_entry list \<Rightarrow> ('z world_scheme, core_error, file_entry list option) io" where
  "page_entries L most [] acc = io_return (Some acc)"
| "page_entries L most (i # is) acc =
     io_try (get_entry L i) (\<lambda>r.
       if (case r of Inr _ \<Rightarrow> True | Inl e \<Rightarrow> is_NotFound e) then
         (let acc = (case r of Inr x \<Rightarrow> acc @ [x] | Inl _ \<Rightarrow> acc)
          in if length acc > most then io_return None else page_entries L most is acc)
       else io_throw (projl r))"

definition remote_snapshot_page_size :: int where
  "remote_snapshot_page_size = 1000"

partial_function (option) collect_entries ::
    "libs \<Rightarrow> pager \<Rightarrow> nat \<Rightarrow> string option \<Rightarrow> file_entry list \<Rightarrow> ('z world_scheme, file_entry list option) lrun" where
  "collect_entries L G most cursor acc w =
     (case list_objects_page G tree_prefix remote_snapshot_page_size cursor w of
        (Inl e, w1) \<Rightarrow> Some (Inl e, w1)
      | (Inr page, w1) \<Rightarrow>
          (case page_entries L most (List.map_filter (tree_key_to_file_id L) (pg_keys page)) acc w1 of
             (Inl e, w2) \<Rightarrow> Some (Inl e, w2)
           | (Inr None, w2) \<Rightarrow> Some (Inr None, w2)
           | (Inr (Some acc), w2) \<Rightarrow>
               if \<not> pg_truncated page then Some (Inr (Some acc), w2)
               else (case pg_next page of
                   None \<Rightarrow> Some (Inl (truncated_list ''snapshot tree''), w2)
                 | Some t \<Rightarrow> collect_entries L G most (Some t) acc w2)))"

definition collect_remote_tree_entries_for_snapshot ::
    "libs \<Rightarrow> pager \<Rightarrow> nat \<Rightarrow> ('z world_scheme, file_entry list option) lrun" where
  "collect_remote_tree_entries_for_snapshot L G most = collect_entries L G most None []"

definition remote_head_for_maintenance :: "libs \<Rightarrow> ('z world_scheme, core_error, string) io" where
  "remote_head_for_maintenance L =
     io_bind (new_uuid L) (\<lambda>d.
     io_bind (with_log d 0 (load_head L)) (\<lambda>head. io_return (case head of Some h \<Rightarrow> h | None \<Rightarrow> [])))"

definition covered_head_of :: "snapshot_metadata option \<Rightarrow> string option" where
  "covered_head_of snapshot = Option.bind snapshot sm_covered_head"

definition should_write_remote_snapshot ::
    "libs \<Rightarrow> nat \<Rightarrow> string \<Rightarrow> snapshot_metadata option \<Rightarrow> ('z world_scheme, core_error, bool) io" where
  "should_write_remote_snapshot L interval_ops current_head latest =
     (if current_head = [] then io_return False
      else if covered_head_of latest = Some current_head then io_return False
      else
        io_bind (op_count_since L current_head (covered_head_of latest) (max 1 interval_ops)) (\<lambda>n.
          io_return (n \<ge> max 1 interval_ops)))"

definition max_remote_head_walk_ops :: nat where
  "max_remote_head_walk_ops = 10000"

definition applied_snapshot_seq_for_head ::
    "libs \<Rightarrow> string \<Rightarrow> snapshot_metadata option \<Rightarrow> ('z world_scheme, core_error, u64) io" where
  "applied_snapshot_seq_for_head L applied_head latest =
     (case latest of
        None \<Rightarrow> io_return 0
      | Some snapshot \<Rightarrow>
          (case non_empty (sm_covered_head snapshot) of
             None \<Rightarrow> io_return 0
           | Some covered \<Rightarrow>
               if applied_head = [] then io_return 0
               else
                 io_bind (head_reaches L applied_head covered max_remote_head_walk_ops) (\<lambda>reaches.
                   io_return (if reaches then sm_seq_num snapshot else 0))))"

definition remote_head_checkpoint :: string where
  "remote_head_checkpoint = ''remote_head''"

record maintenance_config =
  mc_enabled :: bool
  mc_local_delete_batch_size :: nat
  mc_transfer_retention_hours :: u64
  mc_activity_retention_days :: u64
  mc_activity_keep_min :: nat
  mc_resolved_conflict_retention_days :: u64
  mc_deleted_object_retention_days :: u64
  mc_revision_retention_days :: u64
  mc_min_revisions_per_file :: u32
  mc_tombstone_retention_days :: u32
  mc_tombstone_batch :: nat
  mc_snapshot_keep :: u32
  mc_blob_gc_enabled :: bool
  mc_blob_quarantine_days :: u64
  mc_blob_discovery_batch :: nat
  mc_blob_delete_batch :: nat
  mc_blob_reference_page :: int
  mc_op_compaction_enabled :: bool
  mc_op_compaction_batch :: nat
  mc_op_retention_days :: u64
  mc_op_snapshot_interval_ops :: nat
  mc_op_snapshot_max_entries :: nat
  mc_op_watermark_stale_days :: u64
  mc_blob_lease_ttl_minutes :: u64
  mc_sqlite_maintenance :: bool

record op_maintenance_report =
  om_snapshots_written :: u64
  om_ops_deleted :: u64
  om_watermarks_updated :: u64

text \<open>A snapshot of the tree, if it is due and the tree is not too large.\<close>

definition write_due_snapshot ::
    "libs \<Rightarrow> pager \<Rightarrow> maintenance_config \<Rightarrow> string \<Rightarrow> snapshot_metadata option
      \<Rightarrow> ('z world_scheme, snapshot_metadata option \<times> u64) lrun" where
  "write_due_snapshot L G C current_head latest =
     run_bind (once (should_write_remote_snapshot L (mc_op_snapshot_interval_ops C) current_head latest)) (\<lambda>due.
       if \<not> due then once (io_return (latest, 0))
       else
         (let n = (case latest of Some m \<Rightarrow> sm_seq_num m + 1 | None \<Rightarrow> 1) in
          run_bind (collect_remote_tree_entries_for_snapshot L G (max 1 (mc_op_snapshot_max_entries C))) (\<lambda>entries.
            case entries of
              None \<Rightarrow> once (io_return (latest, 0))
            | Some xs \<Rightarrow>
                once (io_bind (write_snapshot_for_head L xs n (Some current_head)) (\<lambda>_.
                  io_bind (read_snapshot_metadata L n) (\<lambda>m. io_return (Some m, 1)))))))"

text \<open>The watermark is written before the log is compacted.\<close>

definition finish_op_maintenance ::
    "libs \<Rightarrow> maintenance_config \<Rightarrow> string \<Rightarrow> snapshot_metadata option \<Rightarrow> u64
      \<Rightarrow> ('z maintainer_scheme, core_error, op_maintenance_report) io" where
  "finish_op_maintenance L C applied_head latest written =
     io_bind (applied_snapshot_seq_for_head L applied_head latest) (\<lambda>n.
     io_bind (io_get me_device_id) (\<lambda>d.
     io_bind (watermark_update L d n applied_head) (\<lambda>_.
       case latest of
         None \<Rightarrow> io_return \<lparr>om_snapshots_written = written, om_ops_deleted = 0, om_watermarks_updated = 1\<rparr>
       | Some snapshot \<Rightarrow>
           io_bind (compact L snapshot (max 1 (mc_op_compaction_batch C)) (mc_op_watermark_stale_days C)
               (mc_op_retention_days C)) (\<lambda>report.
             io_return \<lparr>om_snapshots_written = written, om_ops_deleted = rp_pruned_ops report,
               om_watermarks_updated = 1\<rparr>))))"

definition maintain_remote_op_log ::
    "libs \<Rightarrow> pager \<Rightarrow> engine_env \<Rightarrow> maintenance_config \<Rightarrow> string \<Rightarrow> ('z maintainer_scheme, op_maintenance_report) lrun" where
  "maintain_remote_op_log L G E C device_name =
     run_bind (once (upsert_device_registration L E device_name)) (\<lambda>_.
     run_bind (once (remote_head_for_maintenance L)) (\<lambda>current_head.
     run_bind (once (io_get (\<lambda>w. case get_checkpoint remote_head_checkpoint (mt_db w) of
         Some h \<Rightarrow> h | None \<Rightarrow> []))) (\<lambda>applied_head.
     run_bind (once (latest_snapshot_metadata L)) (\<lambda>latest.
     run_bind (write_due_snapshot L G C current_head latest) (\<lambda>(latest, written).
       once (finish_op_maintenance L C applied_head latest written))))))"

section \<open>Deletion records, page by page\<close>

text \<open>The cleanup of the ids of a page; \<open>deleted\<close> counts up to the limit of a pass.\<close>

primrec cleanup_page ::
    "libs \<Rightarrow> int \<Rightarrow> nat \<Rightarrow> file_id list \<Rightarrow> nat \<Rightarrow> ('z world_scheme, core_error, nat) io" where
  "cleanup_page L at limit [] deleted = io_return deleted"
| "cleanup_page L at limit (i # is) deleted =
     (if deleted \<ge> limit then io_return deleted
      else io_try (collect_expired_tombstone_at L i at) (\<lambda>r.
        cleanup_page L at limit is (if r = Inr Retired_Record then deleted + 1 else deleted)))"

definition tombstone_cursor :: string where
  "tombstone_cursor = ''maintenance_tombstone_cursor''"

definition tombstone_page_size :: int where
  "tombstone_page_size = 250"

definition tombstone_max_pages_per_pass :: nat where
  "tombstone_max_pages_per_pass = 4"

primrec cleanup_pages ::
    "libs \<Rightarrow> pager \<Rightarrow> int \<Rightarrow> nat \<Rightarrow> nat \<Rightarrow> string option \<Rightarrow> nat \<Rightarrow> ('z maintainer_scheme, core_error, nat) io" where
  "cleanup_pages L G at limit 0 cursor deleted = io_return deleted"
| "cleanup_pages L G at limit (Suc rounds) cursor deleted =
     io_bind (list_objects_page G tombstone_prefix tombstone_page_size cursor) (\<lambda>page.
     io_bind (cleanup_page L at limit (List.map_filter (tombstone_key_to_file_id L) (pg_keys page)) deleted) (\<lambda>deleted.
       if deleted \<ge> limit then io_return deleted
       else if pg_truncated page then
         (case pg_next page of
            None \<Rightarrow> io_throw (truncated_list ''tombstone'')
          | Some t \<Rightarrow>
              io_bind (db_call (set_checkpoint tombstone_cursor t)) (\<lambda>_.
                cleanup_pages L G at limit rounds (Some t) deleted))
       else
         io_bind (db_call (set_checkpoint tombstone_cursor [])) (\<lambda>_. io_return deleted)))"

definition collect_expired_remote_tombstones ::
    "libs \<Rightarrow> pager \<Rightarrow> maintenance_config \<Rightarrow> ('z maintainer_scheme, core_error, nat) io" where
  "collect_expired_remote_tombstones L G C =
     io_bind (conditional_delete_supported L) (\<lambda>supported.
       if \<not> supported then io_return 0
       else
         io_bind utc_now (\<lambda>at.
         io_bind (io_get (\<lambda>w. non_empty (get_checkpoint tombstone_cursor (mt_db w)))) (\<lambda>cursor.
           cleanup_pages L G at (max 1 (mc_tombstone_batch C)) tombstone_max_pages_per_pass cursor 0)))"

end
