(* ===== verification/Retention_Facts.thy ===== *)
theory Retention_Facts
  imports Retention
begin

text \<open>
  The collection of blobs among other devices: a blob stays as long as one object of the
  bucket refers to it during the sweep, and an unreferenced one is deleted, also under the
  hands of an upload that has found it there.
\<close>

section \<open>Requests that do not lie\<close>

text \<open>A failed request is never reported as a missing object.\<close>

definition honest :: "'z world_scheme \<Rightarrow> bool" where
  "honest w \<longleftrightarrow> (\<forall>ev \<in> set (events w). \<forall>e. ev_fault ev = Refused e \<or> ev_fault ev = Lost_Reply e \<longrightarrow> \<not> is_NotFound e)"

definition safe :: "(objs \<Rightarrow> bool) \<Rightarrow> 'z world_scheme \<Rightarrow> bool" where
  "safe P w \<longleftrightarrow> guarded P w \<and> honest w"

definition stays_safe :: "(objs \<Rightarrow> bool) \<Rightarrow> ('z world_scheme, 'e, 'a) io \<Rightarrow> bool" where
  "stays_safe P m \<longleftrightarrow> (\<forall>w. safe P w \<longrightarrow> safe P (snd (m w)))"

named_theorems safe_intros

lemma serve_safe:
  assumes "serve f w = (r, w')" "safe P w" "\<And>m. P m \<Longrightarrow> P (snd (f m))"
  shows "safe P w' \<and> ((\<exists>m. P m \<and> f m = (r, objects w')) \<or> (\<exists>e. r = Inl e \<and> \<not> is_NotFound e))"
  using serve_rule [OF assms(1), of P] assms(2,3) unfolding safe_def guarded_def honest_def by blast

lemma stays_safe_serve: "(\<And>m. P m \<Longrightarrow> P (snd (f m))) \<Longrightarrow> stays_safe P (serve f)"
  unfolding stays_safe_def by (metis prod.collapse serve_safe)

lemma stays_safeD: "stays_safe P m \<Longrightarrow> safe P w \<Longrightarrow> m w = (r, w') \<Longrightarrow> safe P w'"
  by (metis snd_conv stays_safe_def)

lemma stays_safe_basic [safe_intros]:
  "stays_safe P (io_return x)" "stays_safe P (io_throw e)" "stays_safe P (io_result q)" "stays_safe P (io_get f)"
  by (simp_all add: stays_safe_def io_return_def io_throw_def io_result_def io_get_def)

lemma stays_safe_try [safe_intros]:
  "stays_safe P m \<Longrightarrow> (\<And>x. stays_safe P (k x)) \<Longrightarrow> stays_safe P (io_try m k)"
  by (auto simp: stays_safe_def io_try_def split: prod.splits)

lemma stays_safe_bind [safe_intros]:
  "stays_safe P m \<Longrightarrow> (\<And>x. stays_safe P (k x)) \<Longrightarrow> stays_safe P (io_bind m k)"
  by (auto simp: stays_safe_def io_bind_def split: prod.splits sum.splits)

lemma stays_safe_reads [safe_intros]:
  "stays_safe P (get_object k)" "stays_safe P (read_json L c up jp k)" "stays_safe P (list_objects_page G p n cursor)"
proof -
  show get: "stays_safe P (get_object k)"
    unfolding get_object_def by (rule stays_safe_serve) (simp add: mem_get_object_def split: option.split)
  show "stays_safe P (read_json L c up jp k)"
    unfolding read_json_def by (intro stays_safe_bind get stays_safe_basic)
  show "stays_safe P (list_objects_page G p n cursor)"
    unfolding list_objects_page_def by (rule stays_safe_serve) simp
qed

text \<open>An object that stays is read as it is, or the request fails with another error.\<close>

lemma read_present:
  assumes "get_object k w = (r, w')" "safe P w" "\<And>m. P m \<Longrightarrow> contents m k = Some b"
  shows "r = Inr b \<or> (\<exists>e. r = Inl e \<and> \<not> is_NotFound e)"
proof -
  have there: "P m \<Longrightarrow> mem_get_object k m = (Inr b, m)" for m
    using assms(3) [of m] by (auto simp: mem_get_object_def contents_def)
  then have "\<And>m. P m \<Longrightarrow> P (snd (mem_get_object k m))" by simp
  from serve_safe [OF assms(1) [unfolded get_object_def] assms(2) this] show ?thesis using there by auto
qed

lemma visit_found_present:
  assumes "visit_found (read_json L c up jp k) matches w = (r, w')" "safe P w" "\<And>m. P m \<Longrightarrow> contents m k = Some b"
    and "parse_json L c up jp b = Inr x" "matches x"
  shows "r \<noteq> Inr False"
proof -
  obtain q w1 where q: "get_object k w = (q, w1)" by fastforce
  have "q = Inr b \<or> (\<exists>e. q = Inl e \<and> \<not> is_NotFound e)"
    by (rule read_present [OF q assms(2)]) (rule assms(3))
  then show ?thesis
  proof (elim disjE exE conjE)
    assume "q = Inr b"
    then show ?thesis using assms(1,4,5) q by (auto simp: visit_found_def read_json_def io_simps)
  next
    fix e assume "q = Inl e" "\<not> is_NotFound e"
    then show ?thesis using assms(1) q by (auto simp: visit_found_def read_json_def io_simps)
  qed
qed

section \<open>Pages\<close>

text \<open>
  The documented behaviour of the paged listing: keys with the prefix in order, after the
  place the token stands for, as many as asked for; a page is truncated exactly if there
  are more, and then its token stands for its last key.
\<close>

definition rest_keys :: "(string \<Rightarrow> string) \<Rightarrow> string \<Rightarrow> string option \<Rightarrow> objs \<Rightarrow> string list" where
  "rest_keys after p cursor m = filter (\<lambda>k. case cursor of None \<Rightarrow> True | Some t \<Rightarrow> after t < k) (mem_keys p m)"

definition pages_ok :: "pager \<Rightarrow> bool" where
  "pages_ok G \<longleftrightarrow> (\<exists>after. \<forall>p n cursor m. 0 < n \<longrightarrow>
     (let page = G p n cursor m; rest = rest_keys after p cursor m
      in pg_keys page = take n rest \<and> (pg_truncated page \<longleftrightarrow> n < length rest)
         \<and> (pg_truncated page \<longrightarrow> (\<exists>t. pg_next page = Some t \<and> after t = last (pg_keys page)))))"

lemma visit_keys_sees:
  assumes "\<And>x. x \<in> set ks \<Longrightarrow> stays_safe P (visit x)"
    and "\<And>w r w'. safe P w \<Longrightarrow> visit k w = (r, w') \<Longrightarrow> r \<noteq> Inr False"
  shows "visit_keys visit ks w = (r, w') \<Longrightarrow> safe P w \<Longrightarrow> safe P w' \<and> (k \<in> set ks \<longrightarrow> r \<noteq> Inr False)"
  using assms(1)
proof (induction ks arbitrary: w)
  case (Cons x ks)
  obtain q w1 where q: "visit x w = (q, w1)" by fastforce
  have w1: "safe P w1" using stays_safeD [of P "visit x" w q w1] Cons.prems(2,3) q by simp
  show ?case
  proof (cases "q = Inr False")
    case True
    then have "x \<noteq> k" using assms(2) [OF Cons.prems(2), of q w1] q by blast
    then show ?thesis using Cons.IH [OF _ w1] Cons.prems(1,3) q True by (simp add: io_simps)
  next
    case False
    then show ?thesis using Cons.prems(1) q w1 by (cases q) (auto simp: io_simps)
  qed
qed (auto simp: io_simps)

lemma take_sorted_rest:
  assumes "sorted_wrt (<) xs" "k \<in> set xs" "k \<notin> set (take n xs)" "0 < n"
  shows "n < length xs \<and> last (take n xs) < (k :: 'a :: linorder)"
proof -
  have "xs = take n xs @ drop n xs" by simp
  then have k: "k \<in> set (drop n xs)" using assms(2,3) by (metis Un_iff set_append)
  then have "n < length xs" by (cases "n < length xs") auto
  then have "take n xs \<noteq> []" using assms(4) by auto
  then have "last (take n xs) \<in> set (take n xs)" by (rule last_in_set)
  then show ?thesis
    using k assms(1) sorted_wrt_append [of "(<)" "take n xs" "drop n xs"] \<open>n < length xs\<close> by simp
qed

lemma clamp_page_pos: "0 < clamp_page n"
  by (simp add: clamp_page_def)

text \<open>A visit of all pages comes by every key that is there all the time.\<close>

definition pages_after :: "pager \<Rightarrow> string \<Rightarrow> (string \<Rightarrow> string) \<Rightarrow> bool" where
  "pages_after G p after \<longleftrightarrow> (\<forall>n cursor m. 0 < n \<longrightarrow>
     pg_keys (G p n cursor m) = take n (rest_keys after p cursor m)
     \<and> (pg_truncated (G p n cursor m) \<longleftrightarrow> n < length (rest_keys after p cursor m))
     \<and> (pg_truncated (G p n cursor m) \<longrightarrow>
          (\<exists>t. pg_next (G p n cursor m) = Some t \<and> after t = last (pg_keys (G p n cursor m)))))"

lemma pages_okD: "pages_ok G \<Longrightarrow> \<exists>after. \<forall>p. pages_after G p after"
  unfolding pages_ok_def pages_after_def Let_def by blast

text \<open>A key that is not on a page comes after it.\<close>

lemma page_passes:
  assumes "pages_after G p after" "0 < n" "btree_inv m" "starts_with k p" "contents m k \<noteq> None"
    and "\<forall>t. cursor = Some t \<longrightarrow> after t < k" "k \<notin> set (pg_keys (G p n cursor m))"
  shows "\<exists>t. pg_truncated (G p n cursor m) \<and> pg_next (G p n cursor m) = Some t \<and> after t < k"
proof -
  let ?rest = "rest_keys after p cursor m"
  have "sorted_wrt (<) ?rest"
    using assms(3) by (simp add: rest_keys_def mem_keys_def btree_inv_def sorted_wrt_filter)
  moreover have "k \<in> set ?rest"
    using assms(4-6) by (auto simp: rest_keys_def mem_keys_set split: option.split)
  moreover have "k \<notin> set (take n ?rest)" using assms(1,2,7) by (simp add: pages_after_def)
  ultimately have "n < length ?rest \<and> last (take n ?rest) < k" by (rule take_sorted_rest) (rule assms(2))
  then show ?thesis using assms(1,2) unfolding pages_after_def by metis
qed

lemma page_keys_prefix:
  assumes "pages_after G p after" "0 < n"
  shows "x \<in> set (pg_keys (G p n cursor m)) \<Longrightarrow> starts_with x p"
  using assms in_set_takeD by (fastforce simp: pages_after_def rest_keys_def mem_keys_set)

lemma visit_pages_sees:
  assumes "visit_pages G p n truncated visit cursor w = Some y"
  shows "pages_after G p after \<Longrightarrow> (\<And>x. starts_with x p \<Longrightarrow> stays_safe P (visit x)) \<Longrightarrow> starts_with k p
    \<Longrightarrow> (\<And>m. P m \<Longrightarrow> btree_inv m \<and> contents m k \<noteq> None)
    \<Longrightarrow> (\<And>w r w'. safe P w \<Longrightarrow> visit k w = (r, w') \<Longrightarrow> r \<noteq> Inr False)
    \<Longrightarrow> \<forall>t. cursor = Some t \<longrightarrow> after t < k \<Longrightarrow> safe P w \<Longrightarrow> safe P (snd y) \<and> fst y \<noteq> Inr False"
  using assms
proof (induction arbitrary: k rule: visit_pages.raw_induct [rotated 1, consumes 1])
  case (1 visit_pages G p n truncated visit cursor w y)
  obtain q w1 where page: "list_objects_page G p n cursor w = (q, w1)" by fastforce
  have w1: "safe P w1" using stays_safe_reads(3) 1(9) page by (rule stays_safeD)
  show ?case
  proof (cases q)
    case (Inl e)
    then show ?thesis using 1(2) page w1 by auto
  next
    case (Inr pg)
    obtain m where m: "P m" "pg = G p (clamp_page n) cursor m"
      using serve_safe [OF page [unfolded list_objects_page_def] 1(9)] Inr by auto
    obtain v w2 where v: "visit_keys visit (pg_keys pg) w1 = (v, w2)" by fastforce
    have "\<And>x. x \<in> set (pg_keys pg) \<Longrightarrow> stays_safe P (visit x)"
      using page_keys_prefix [OF 1(3) clamp_page_pos] 1(4) m(2) by blast
    from visit_keys_sees [OF this 1(7) v w1]
    have w2: "safe P w2" and seen: "k \<in> set (pg_keys pg) \<longrightarrow> v \<noteq> Inr False" by auto
    show ?thesis
    proof (cases "v = Inr False")
      case False
      then show ?thesis using 1(2) page Inr v w2 by (cases v) auto
    next
      case True
      then have "k \<notin> set (pg_keys (G p (clamp_page n) cursor m))" using seen m(2) by simp
      moreover have "btree_inv m" "contents m k \<noteq> None" using 1(6) m(1) by blast+
      ultimately obtain t where t: "pg_truncated pg" "pg_next pg = Some t" "after t < k"
        using page_passes [OF 1(3) clamp_page_pos _ 1(5)] 1(8) m(2) by metis
      then have "visit_pages G p n truncated visit (Some t) w2 = Some y"
        using 1(2) page Inr v True by simp
      from 1(1) [OF this 1(3-7) _ w2] show ?thesis using t(3) by simp
    qed
  qed
qed

section \<open>The sweep\<close>

text \<open>Runs that keep the bucket safe, and questions whose answer is not no.\<close>

definition run_safe :: "(objs \<Rightarrow> bool) \<Rightarrow> ('z world_scheme, 'a) lrun \<Rightarrow> bool" where
  "run_safe P m \<longleftrightarrow> (\<forall>w r w'. safe P w \<longrightarrow> m w = Some (r, w') \<longrightarrow> safe P w')"

definition not_denied :: "(objs \<Rightarrow> bool) \<Rightarrow> ('z world_scheme, bool) lrun \<Rightarrow> bool" where
  "not_denied P m \<longleftrightarrow> (\<forall>w r w'. safe P w \<longrightarrow> m w = Some (r, w') \<longrightarrow> r \<noteq> Inr False)"

lemma run_safe_once: "stays_safe P m \<Longrightarrow> run_safe P (once m)"
  by (auto simp: run_safe_def once_def stays_safe_def)

lemma run_safe_try: "run_safe P m \<Longrightarrow> (\<And>r. run_safe P (k r)) \<Longrightarrow> run_safe P (run_try m k)"
  unfolding run_safe_def run_try_def
proof (intro allI impI)
  fix w r w'
  assume m: "\<forall>w r w'. safe P w \<longrightarrow> m w = Some (r, w') \<longrightarrow> safe P w'"
    and k: "\<And>r. \<forall>w q w'. safe P w \<longrightarrow> k r w = Some (q, w') \<longrightarrow> safe P w'"
    and w: "safe P w" and run: "(case m w of None \<Rightarrow> None | Some (r, s') \<Rightarrow> k r s') = Some (r, w')"
  obtain q w1 where "m w = Some (q, w1)" "k q w1 = Some (r, w')" using run by (auto split: option.splits)
  then show "safe P w'" using m k [of q] w by blast
qed

lemma run_safe_bind:
  assumes "run_safe P m" "\<And>x. run_safe P (k x)"
  shows "run_safe P (run_bind m k)"
  unfolding run_bind_def
proof (rule run_safe_try [OF assms(1)])
  show "run_safe P (case r of Inl e \<Rightarrow> \<lambda>s. Some (Inl e, s) | Inr x \<Rightarrow> k x)" for r
    using assms(2) by (cases r) (auto simp: run_safe_def)
qed

lemma run_safe_or: "run_safe P m \<Longrightarrow> run_safe P n \<Longrightarrow> run_safe P (or_else m n)"
  unfolding or_else_def
  by (rule run_safe_bind) (simp_all add: run_safe_once stays_safe_basic split: if_split)

lemma or_else_Some:
  "or_else m n w = Some (r, w') \<Longrightarrow> (\<exists>q w1. m w = Some (q, w1) \<and> (q \<noteq> Inr False \<longrightarrow> r = q \<and> w' = w1)
     \<and> (q = Inr False \<longrightarrow> n w1 = Some (r, w')))"
  by (auto simp: or_else_def run_bind_def run_try_def once_def io_simps split: option.splits sum.splits if_splits)

lemma not_denied_or:
  "not_denied P m \<Longrightarrow> not_denied P (or_else m n)"
  "run_safe P m \<Longrightarrow> not_denied P n \<Longrightarrow> not_denied P (or_else m n)"
  unfolding not_denied_def run_safe_def by (metis or_else_Some)+

lemma visit_keys_stays: "(\<And>x. x \<in> set ks \<Longrightarrow> stays_safe P (visit x)) \<Longrightarrow> stays_safe P (visit_keys visit ks)"
  by (induction ks) (auto intro!: safe_intros)

lemma visit_pages_stays:
  assumes "visit_pages G p n truncated visit cursor w = Some y"
  shows "pages_after G p after \<Longrightarrow> (\<And>x. starts_with x p \<Longrightarrow> stays_safe P (visit x)) \<Longrightarrow> safe P w \<Longrightarrow> safe P (snd y)"
  using assms
proof (induction rule: visit_pages.raw_induct [rotated 1, consumes 1])
  case (1 visit_pages G p n truncated visit cursor w y)
  obtain q w1 where page: "list_objects_page G p n cursor w = (q, w1)" by fastforce
  have w1: "safe P w1" using stays_safe_reads(3) 1(5) page by (rule stays_safeD)
  show ?case
  proof (cases q)
    case (Inl e)
    then show ?thesis using 1(2) page w1 by auto
  next
    case (Inr pg)
    obtain m where m: "pg = G p (clamp_page n) cursor m"
      using serve_safe [OF page [unfolded list_objects_page_def] 1(5)] Inr by auto
    obtain v w2 where v: "visit_keys visit (pg_keys pg) w1 = (v, w2)" by fastforce
    have "\<And>x. x \<in> set (pg_keys pg) \<Longrightarrow> stays_safe P (visit x)"
      using page_keys_prefix [OF 1(3) clamp_page_pos] 1(4) m by blast
    then have w2: "safe P w2" using stays_safeD [OF visit_keys_stays w1 v] by blast
    have y: "(case v of Inl e \<Rightarrow> Some (Inl e, w2) | Inr yes \<Rightarrow> if yes then Some (Inr True, w2)
        else if \<not> pg_truncated pg then Some (Inr False, w2)
        else (case pg_next pg of None \<Rightarrow> Some (Inl truncated, w2)
          | Some t \<Rightarrow> visit_pages G p n truncated visit (Some t) w2)) = Some y"
      using 1(2) page Inr v by simp
    have "snd y = w2 \<or> (\<exists>t. visit_pages G p n truncated visit (Some t) w2 = Some y)"
      using y by (auto split: sum.splits if_splits option.splits)
    then consider (out) "snd y = w2" | (more) t where "visit_pages G p n truncated visit (Some t) w2 = Some y"
      by blast
    then show ?thesis using 1(1) [OF _ 1(3,4) w2] w2 by cases auto
  qed
qed

lemma run_safe_pages:
  assumes "pages_ok G" "\<And>x. starts_with x p \<Longrightarrow> stays_safe P (visit x)"
  shows "run_safe P (visit_pages G p n truncated visit cursor)"
  using pages_okD [OF assms(1)] visit_pages_stays assms(2) unfolding run_safe_def by (metis snd_conv)

lemma not_denied_pages:
  assumes "pages_ok G" "\<And>x. starts_with x p \<Longrightarrow> stays_safe P (visit x)" "starts_with k p"
    and "\<And>m. P m \<Longrightarrow> btree_inv m \<and> contents m k \<noteq> None"
    and "\<And>w r w'. safe P w \<Longrightarrow> visit k w = (r, w') \<Longrightarrow> r \<noteq> Inr False"
  shows "not_denied P (visit_pages G p n truncated visit None)"
  unfolding not_denied_def
proof (intro allI impI)
  fix w r w'
  assume w: "safe P w" and run: "visit_pages G p n truncated visit None w = Some (r, w')"
  obtain after where "pages_after G p after" using pages_okD [OF assms(1)] by blast
  from visit_pages_sees [OF run this assms(2-5) _ w] show "r \<noteq> Inr False" by simp
qed

lemma visit_found_stays [safe_intros]: "stays_safe P m \<Longrightarrow> stays_safe P (visit_found m matches)"
  unfolding visit_found_def by (rule stays_safe_try) (auto split: sum.split intro!: safe_intros)

lemma visits_stay:
  "stays_safe P (tree_visit L b x)" "stays_safe P (tombstone_visit L blob x)" "stays_safe P (op_visit L b x)"
  "stays_safe P (snapshot_visit L b x)"
  by (auto simp: tree_visit_def tombstone_visit_def op_visit_def snapshot_visit_def get_entry_def get_tombstone_def
      split: option.split intro!: safe_intros)

lemma lease_visit_stays:
  assumes "\<And>m. P m \<Longrightarrow> P (btree_remove x m)"
  shows "stays_safe P (lease_visit L R at x)"
proof -
  have "stays_safe P (delete_object x)"
    unfolding delete_object_def by (rule stays_safe_serve) (simp add: mem_delete_object_def assms)
  then show ?thesis
    unfolding lease_visit_def by (auto split: sum.split option.split intro!: safe_intros)
qed

text \<open>The object \<open>body\<close> under the key \<open>k\<close> refers to the blob of the candidate.\<close>

definition refers :: "libs \<Rightarrow> blob_candidate \<Rightarrow> string \<Rightarrow> string \<Rightarrow> bool" where
  "refers L b k body \<longleftrightarrow>
     (\<exists>i x. k = tree_entry_key L i \<and> parse_json L (json_entry L) ''UTF-8: '' ''deserialize entry: '' body = Inr x
        \<and> entry_references_blob L x b)
   \<or> (\<exists>i t blob. k = tombstone_key L i \<and> uuid_parse L (bc_blob_id b) = Some blob
        \<and> parse_json L (json_tombstone L) ''UTF-8: '' ''deserialize tombstone: '' body = Inr t
        \<and> blob \<in> set (ts_content_refs t))
   \<or> (\<exists>x c. starts_with k op_prefix \<and> parse_json L (json_operation L) ''operation UTF-8: '' [] body = Inr x
        \<and> ef_new_content_ref (op_effects x) = Some c \<and> content_ref_matches_blob L c b)
   \<or> (\<exists>xs. starts_with k snapshots_prefix \<and> ends_with k ''/tree.json''
        \<and> parse_json L (json_entries L) ''snapshot UTF-8: '' ''snapshot tree: '' body = Inr xs
        \<and> list_ex (\<lambda>x. entry_references_blob L x b) xs)"

lemma refers_elsewhere:
  assumes "refers L b k body"
  shows "\<not> starts_with k blob_prefix" "\<not> starts_with k (blob_lease_prefix h)"
  using assms
  by (auto simp: refers_def starts_with_iff blob_prefix_def blob_lease_prefix_def tree_entry_key_def tombstone_key_def
      op_prefix_def snapshots_prefix_def)

lemma blob_key_no_lease: "starts_with k blob_prefix \<Longrightarrow> \<not> starts_with k (blob_lease_prefix h)"
  by (auto simp: starts_with_iff blob_prefix_def blob_lease_prefix_def)

definition referenced :: "string \<Rightarrow> string \<Rightarrow> string \<Rightarrow> string \<Rightarrow> objs \<Rightarrow> bool" where
  "referenced key data k body m \<longleftrightarrow> btree_inv m \<and> contents m k = Some body \<and> contents m key = Some data"

lemma referenced_remove:
  "referenced key data k body m \<Longrightarrow> x \<noteq> k \<Longrightarrow> x \<noteq> key \<Longrightarrow> referenced key data k body (btree_remove x m)"
  by (simp add: referenced_def)

lemma tree_key_prefix: "starts_with (tree_entry_key L i) tree_prefix" "starts_with (tombstone_key L i) tombstone_prefix"
  by (auto simp: tree_entry_key_def tree_prefix_def tombstone_key_def tombstone_prefix_def starts_with_iff)

lemma lease_stays:
  assumes "refers L b k body" "starts_with key blob_prefix" "starts_with x (blob_lease_prefix h)"
  shows "stays_safe (referenced key data k body) (lease_visit L R at x)"
  by (rule lease_visit_stays, rule referenced_remove)
    (use assms refers_elsewhere(2) [OF assms(1)] blob_key_no_lease in auto)

lemma references_safe:
  assumes "pages_ok G" "refers L b k body" "starts_with key blob_prefix"
  shows "run_safe (referenced key data k body) (blob_has_active_lease L G R n h)"
    "run_safe (referenced key data k body) (tree_references_blob L G n c)"
    "run_safe (referenced key data k body) (tombstone_references_blob L G n c)"
    "run_safe (referenced key data k body) (ops_reference_blob L G n c)"
    "run_safe (referenced key data k body) (snapshots_reference_blob L G n c)"
proof -
  have "run_safe (referenced key data k body) (visit_pages G (blob_lease_prefix h) p t (lease_visit L R at) None)" for p t at
    by (rule run_safe_pages [OF assms(1)]) (rule lease_stays [OF assms(2,3)])
  then show "run_safe (referenced key data k body) (blob_has_active_lease L G R n h)"
    unfolding run_safe_def blob_has_active_lease_def by blast
qed (auto simp: tree_references_blob_def tombstone_references_blob_def ops_reference_blob_def
    snapshots_reference_blob_def split: option.split intro!: run_safe_pages [OF assms(1)] visits_stay run_safe_once safe_intros)

text \<open>One of the scans comes by the reference.\<close>

lemma reference_found:
  assumes L: "libs_ok L" and G: "pages_ok G" and k: "refers L b k body" and key: "starts_with key blob_prefix"
    and P: "P = referenced key data k body"
  shows "not_denied P (tree_references_blob L G n b :: ('z world_scheme, bool) lrun)
    \<or> not_denied P (tombstone_references_blob L G n b :: ('z world_scheme, bool) lrun)
    \<or> not_denied P (ops_reference_blob L G n b :: ('z world_scheme, bool) lrun)
    \<or> not_denied P (snapshots_reference_blob L G n b :: ('z world_scheme, bool) lrun)"
proof -
  have there: "P m \<Longrightarrow> btree_inv m \<and> contents m k \<noteq> None" "P m \<Longrightarrow> contents m k = Some body" for m
    by (simp_all add: P referenced_def)
  have found: "not_denied P (visit_pages G p n t visit None)"
    if "\<And>x. stays_safe P (visit x)" "starts_with k p" "\<And>w r w'. safe P w \<Longrightarrow> visit k w = (r, w') \<Longrightarrow> r \<noteq> Inr False"
    for p n t visit
    by (rule not_denied_pages [OF G that(1,2)]) (use there(1) that(3) in auto)
  have seen: "r \<noteq> Inr False" if "visit_found (read_json L c up jp k) matches w = (r, w')" "safe P w"
    "parse_json L c up jp body = Inr x" "matches x" for c up jp x matches w r w'
    by (rule visit_found_present [OF that(1,2) there(2) that(3,4)])
  consider (entry) i x where "k = tree_entry_key L i" "entry_references_blob L x b"
      "parse_json L (json_entry L) ''UTF-8: '' ''deserialize entry: '' body = Inr x"
    | (tomb) i t blob where "k = tombstone_key L i" "uuid_parse L (bc_blob_id b) = Some blob"
      "parse_json L (json_tombstone L) ''UTF-8: '' ''deserialize tombstone: '' body = Inr t" "blob \<in> set (ts_content_refs t)"
    | (op) x c where "starts_with k op_prefix" "parse_json L (json_operation L) ''operation UTF-8: '' [] body = Inr x"
      "ef_new_content_ref (op_effects x) = Some c" "content_ref_matches_blob L c b"
    | (snap) xs where "starts_with k snapshots_prefix" "ends_with k ''/tree.json''"
      "parse_json L (json_entries L) ''snapshot UTF-8: '' ''snapshot tree: '' body = Inr xs"
      "list_ex (\<lambda>x. entry_references_blob L x b) xs"
    using k unfolding refers_def by blast
  then show ?thesis
  proof cases
    case entry
    have key_id: "tree_key_to_file_id L k = Some i" "starts_with k tree_prefix"
      using entry(1) L tree_key_prefix by auto
    have "not_denied P (tree_references_blob L G n b)"
      unfolding tree_references_blob_def
      by (rule found [OF visits_stay(1) key_id(2)], simp add: tree_visit_def get_entry_def key_id entry(1) [symmetric])
        (erule (1) visit_found_present [where matches = "\<lambda>x. entry_references_blob L x b", OF _ _ _ entry(3,2)], erule there(2))
    then show ?thesis ..
  next
    case tomb
    have key_id: "tombstone_key_to_file_id L k = Some i" "starts_with k tombstone_prefix"
      using tomb(1) L tree_key_prefix by auto
    have "not_denied P (tombstone_references_blob L G n b)"
      unfolding tombstone_references_blob_def tomb(2) option.case
      by (rule found [OF visits_stay(2) key_id(2)], simp add: tombstone_visit_def get_tombstone_def key_id tomb(1) [symmetric])
        (erule (1) visit_found_present [where matches = "\<lambda>t. blob \<in> set (ts_content_refs t)", OF _ _ _ tomb(3,4)], erule there(2))
    then show ?thesis by blast
  next
    case op
    have "not_denied P (ops_reference_blob L G n b)"
      unfolding ops_reference_blob_def
      by (rule found [OF visits_stay(3)]) (use op in \<open>auto simp: op_visit_def dest: seen\<close>)
    then show ?thesis by blast
  next
    case snap
    have "not_denied P (snapshots_reference_blob L G n b)"
      unfolding snapshots_reference_blob_def
      by (rule found [OF visits_stay(4)]) (use snap in \<open>auto simp: snapshot_visit_def dest: seen\<close>)
    then show ?thesis by blast
  qed
qed

lemma referenced_not_denied:
  assumes "libs_ok L" "pages_ok G" "refers L b k body" "starts_with key blob_prefix"
  shows "run_safe (referenced key data k body) (remote_blob_is_referenced L G R n c)"
    "not_denied (referenced key data k body) (remote_blob_is_referenced L G R n b :: ('z maintainer_scheme, bool) lrun)"
proof -
  note safe = references_safe [OF assms(2-4), where data = data] run_safe_once [OF stays_safe_basic(4)]
  show "run_safe (referenced key data k body) (remote_blob_is_referenced L G R n c)"
    unfolding remote_blob_is_referenced_def by (intro run_safe_or safe)
  have later: "not_denied (referenced key data k body) (or_else (tree_references_blob L G n b)
      (or_else (tombstone_references_blob L G n b) (or_else (ops_reference_blob L G n b) (snapshots_reference_blob L G n b)))
        :: ('z maintainer_scheme, bool) lrun)"
    using reference_found [OF assms refl, where data = data and n = n]
  proof (elim disjE)
    assume "not_denied (referenced key data k body) (tree_references_blob L G n b :: ('z maintainer_scheme, bool) lrun)"
    then show ?thesis by (rule not_denied_or(1))
  next
    assume "not_denied (referenced key data k body) (tombstone_references_blob L G n b :: ('z maintainer_scheme, bool) lrun)"
    then show ?thesis by (intro not_denied_or(2) [OF safe(2)] not_denied_or(1))
  next
    assume "not_denied (referenced key data k body) (ops_reference_blob L G n b :: ('z maintainer_scheme, bool) lrun)"
    then show ?thesis by (intro not_denied_or(2) [OF safe(2)] not_denied_or(2) [OF safe(3)] not_denied_or(1))
  next
    assume "not_denied (referenced key data k body) (snapshots_reference_blob L G n b :: ('z maintainer_scheme, bool) lrun)"
    then show ?thesis
      by (intro not_denied_or(2) [OF safe(2)] not_denied_or(2) [OF safe(3)] not_denied_or(2) [OF safe(4)])
  qed
  show "not_denied (referenced key data k body) (remote_blob_is_referenced L G R n b :: ('z maintainer_scheme, bool) lrun)"
    unfolding remote_blob_is_referenced_def
    by (intro not_denied_or(2) [OF safe(6)] not_denied_or(2) [OF safe(1)] later)
qed

lemma safe_db [simp]: "safe P (w\<lparr>mt_db := db\<rparr>) \<longleftrightarrow> safe P w"
  by (simp add: safe_def guarded_def env_keeps_def honest_def)

lemma stays_safe_db [safe_intros]: "stays_safe P (db_call f)"
  by (simp add: stays_safe_def db_call_def io_modify_def)

lemma stays_safe_failed: "stays_safe P (sweep_failed key e cnt)"
  by (cases cnt) (auto simp: sweep_failed_def intro!: safe_intros)

lemma stays_safe_delete: "(\<And>m. P m \<Longrightarrow> P (btree_remove x m)) \<Longrightarrow> stays_safe P (delete_unreferenced L x cnt)"
proof -
  assume P: "\<And>m. P m \<Longrightarrow> P (btree_remove x m)"
  have "stays_safe P (delete_object x)"
    unfolding delete_object_def by (rule stays_safe_serve) (simp add: mem_delete_object_def P)
  then show ?thesis
    by (cases cnt) (auto simp: delete_unreferenced_def utc_now_def intro!: safe_intros stays_safe_failed)
qed

lemma candidate_kept:
  assumes "libs_ok L" "pages_ok G" "starts_with key blob_prefix" "starts_with (bc_blob_key c) blob_prefix"
    and "refers L b k body" "bc_blob_key c = key \<longrightarrow> refers L c k body"
  shows "run_safe (referenced key data k body) (sweep_candidate L G R n c cnt :: ('z maintainer_scheme, sweep_counts) lrun)"
  unfolding run_safe_def
proof (intro allI impI)
  let ?P = "referenced key data k body"
  fix w w' :: "'z maintainer_scheme" and r
  assume w: "safe ?P w" and run: "sweep_candidate L G R n c cnt w = Some (r, w')"
  obtain d t e where cnt: "cnt = (d, t, e)" by (cases cnt)
  obtain q w1 where q: "remote_blob_is_referenced L G R n c w = Some (q, w1)"
    using run by (auto simp: sweep_candidate_def cnt run_try_def split: option.splits)
  have w1: "safe ?P w1"
    using referenced_not_denied(1) [OF assms(1,2,5,3)] w q unfolding run_safe_def by blast
  have last: "w' = snd (case q of Inr True \<Rightarrow> io_bind (db_call (remove_remote_blob_gc_candidate (bc_blob_key c))) (\<lambda>_. io_return (d, t + 1, e)) w1
      | Inr False \<Rightarrow> delete_unreferenced L (bc_blob_key c) cnt w1 | Inl x \<Rightarrow> sweep_failed (bc_blob_key c) x cnt w1)"
    using run q by (auto simp: sweep_candidate_def cnt run_try_def once_def split: sum.splits bool.splits)
  consider (yes) "q = Inr True" | (no) "q = Inr False" "bc_blob_key c \<noteq> key" | (err) x where "q = Inl x"
    using referenced_not_denied(2) [OF assms(1,2) _ assms(3), of c k body] w q assms(6) unfolding not_denied_def
    by (metis (full_types) sum.exhaust)
  then show "safe ?P w'"
  proof cases
    case yes
    then have "w' = snd (io_bind (db_call (remove_remote_blob_gc_candidate (bc_blob_key c))) (\<lambda>_. io_return (d, t + 1, e)) w1)"
      using last by simp
    also have "safe ?P \<dots>" using w1 by (simp add: db_call_def io_simps)
    finally show ?thesis .
  next
    case no
    have "bc_blob_key c \<noteq> k" using refers_elsewhere(1) [OF assms(5)] assms(4) by auto
    then have "stays_safe ?P (delete_unreferenced L (bc_blob_key c) cnt :: ('z maintainer_scheme, _, _) io)"
      using no(2) by (auto intro!: stays_safe_delete referenced_remove)
    then show ?thesis using w1 last no(1) by (simp add: stays_safe_def)
  next
    case err
    have "stays_safe ?P (sweep_failed (bc_blob_key c) x cnt :: ('z maintainer_scheme, _, _) io)"
      by (rule stays_safe_failed)
    then show ?thesis using w1 last err unfolding stays_safe_def by simp
  qed
qed

lemma run_fold_safe:
  assumes "\<And>x a. x \<in> set xs \<Longrightarrow> run_safe P (f x a)"
  shows "run_safe P (run_fold f xs a)"
  using assms by (induction xs arbitrary: a) (auto intro!: run_safe_bind run_safe_once safe_intros)

lemma due_candidates: "set (due_remote_blob_gc_candidates t n db) \<subseteq> set (blob_candidates db)"
  by (auto simp: due_remote_blob_gc_candidates_def dest: in_set_takeD)

lemma sweep_keeps_referenced:
  assumes "libs_ok L" "pages_ok G" "starts_with key blob_prefix" "refers L b k body"
    and "\<And>c. c \<in> set (blob_candidates (mt_db w)) \<Longrightarrow> starts_with (bc_blob_key c) blob_prefix"
    and "\<And>c. c \<in> set (blob_candidates (mt_db w)) \<Longrightarrow> bc_blob_key c = key \<Longrightarrow> refers L c k body"
    and "safe (referenced key data k body) w" "sweep_remote_blob_candidates L G R n batch w = Some (r, w')"
  shows "contents (objects w') key = Some data"
proof -
  have "run_safe (referenced key data k body) (run_fold (sweep_candidate L G R n)
      (due_remote_blob_gc_candidates (rfc3339_text L (now w)) (max 1 batch) (mt_db w)) (0, 0, 0))"
    using due_candidates [of "rfc3339_text L (now w)" "max 1 batch" "mt_db w"] assms(5,6)
    by (intro run_fold_safe candidate_kept [OF assms(1,2,3) _ assms(4)]) auto
  then have "safe (referenced key data k body) w'"
    using assms(7,8) unfolding run_safe_def sweep_remote_blob_candidates_def by blast
  then show ?thesis by (simp add: safe_def guarded_def referenced_def)
qed

section \<open>The sweep returns\<close>

text \<open>
  Requests that use up the events of the world and, once these are over, add no key: the
  loops over pages end, because every next page starts behind the keys of the last one.
\<close>

definition shrinks :: "('z world_scheme, 'e, 'a) io \<Rightarrow> bool" where
  "shrinks m \<longleftrightarrow> (\<forall>w. length (events (snd (m w))) \<le> length (events w)
     \<and> (events w = [] \<longrightarrow> dom (contents (objects (snd (m w)))) \<subseteq> dom (contents (objects w))))"

named_theorems shrink_intros

lemma shrinks_basic [shrink_intros]:
  "shrinks (io_return x)" "shrinks (io_throw e)" "shrinks (io_result q)" "shrinks (io_get f)"
  by (simp_all add: shrinks_def io_return_def io_throw_def io_result_def io_get_def)

lemma shrinks_try [shrink_intros]:
  assumes "shrinks m" "\<And>x. shrinks (k x)"
  shows "shrinks (io_try m k)"
  unfolding shrinks_def
proof
  fix w
  obtain r w1 where m: "m w = (r, w1)" by fastforce
  show "length (events (snd (io_try m k w))) \<le> length (events w)
     \<and> (events w = [] \<longrightarrow> dom (contents (objects (snd (io_try m k w)))) \<subseteq> dom (contents (objects w)))"
    using spec [OF assms(1) [unfolded shrinks_def], of w] spec [OF assms(2) [of r, unfolded shrinks_def], of w1] m
    by (simp add: io_try_def) (metis le_trans le_zero_eq length_0_conv order_trans)
qed

lemma shrinks_bind [shrink_intros]:
  assumes "shrinks m" "\<And>x. shrinks (k x)"
  shows "shrinks (io_bind m k)"
proof -
  have "shrinks (io_try m (\<lambda>r. case r of Inl e \<Rightarrow> io_throw e | Inr x \<Rightarrow> k x))"
    using assms by (intro shrinks_try) (auto split: sum.split intro: shrinks_basic)
  moreover have "io_try m (\<lambda>r. case r of Inl e \<Rightarrow> io_throw e | Inr x \<Rightarrow> k x) = io_bind m k"
    by (auto simp: io_try_def io_bind_def io_throw_def fun_eq_iff split: prod.split sum.split)
  ultimately show ?thesis by simp
qed

lemma shrinks_serve: "(\<And>m. dom (contents (snd (f m))) \<subseteq> dom (contents m)) \<Longrightarrow> shrinks (serve f)"
  unfolding shrinks_def serve_def by (force split: list.split prod.split)

lemma shrinks_requests [shrink_intros]:
  "shrinks (get_object k)" "shrinks (delete_object k)" "shrinks (list_objects_page G p n cursor)"
  unfolding get_object_def delete_object_def list_objects_page_def
  by (rule shrinks_serve; auto simp: mem_get_object_def mem_delete_object_def split: option.split)+

lemma shrinks_visits [shrink_intros]:
  "shrinks (tree_visit L b x)" "shrinks (tombstone_visit L blob x)" "shrinks (op_visit L b x)"
  "shrinks (snapshot_visit L b x)" "shrinks (lease_visit L R at x)"
  by (auto simp: tree_visit_def tombstone_visit_def op_visit_def snapshot_visit_def lease_visit_def get_entry_def
      get_tombstone_def visit_found_def read_json_def split: option.split sum.split intro!: shrink_intros)

lemma shrinks_visit_keys: "(\<And>x. shrinks (visit x)) \<Longrightarrow> shrinks (visit_keys visit ks)"
  by (induction ks) (auto intro!: shrink_intros)

definition keys_left :: "(string \<Rightarrow> string) \<Rightarrow> string \<Rightarrow> string option \<Rightarrow> 'z world_scheme \<Rightarrow> nat" where
  "keys_left after p cursor w = card (set (rest_keys after p cursor (objects w)))"

lemma rest_keys_dom: "set (rest_keys after p cursor m)
    = {k \<in> dom (contents m). starts_with k p \<and> (\<forall>t. cursor = Some t \<longrightarrow> after t < k)}"
  by (auto simp: rest_keys_def mem_keys_set split: option.splits)

lemma keys_left_less:
  assumes "pages_after G p after" "0 < n" "pg_truncated (G p n cursor (objects w))"
    and "pg_next (G p n cursor (objects w)) = Some t" "dom (contents (objects w')) \<subseteq> dom (contents (objects w))"
  shows "keys_left after p (Some t) w' < keys_left after p cursor w"
proof -
  let ?old = "rest_keys after p cursor (objects w)"
  have more: "take n ?old \<noteq> []" "after t = last (take n ?old)"
    using assms(1-4) unfolding pages_after_def by (metis list.size(3) not_less_zero take_eq_Nil2, metis option.inject)
  then have t: "after t \<in> set ?old" by (metis last_in_set in_set_takeD)
  have "set (rest_keys after p (Some t) (objects w')) \<subset> set ?old"
    using t assms(5) by (fastforce simp: rest_keys_dom)
  then show ?thesis unfolding keys_left_def by (rule psubset_card_mono [rotated]) simp
qed

lemma visit_pages_returns:
  assumes "pages_after G p after" "\<And>x. shrinks (visit x)"
  shows "visit_pages G p n truncated visit cursor w \<noteq> None"
proof (induction "(cursor, w)" arbitrary: cursor w rule: wf_induct_rule
    [OF wf_measures [of "[\<lambda>(c, w). length (events w), \<lambda>(c, w). keys_left after p c w]"]])
  case 1
  obtain q w1 where page: "list_objects_page G p n cursor w = (q, w1)" by fastforce
  show ?case
  proof (cases q)
    case (Inr pg)
    obtain v w2 where v: "visit_keys visit (pg_keys pg) w1 = (v, w2)" by fastforce
    have after_visits: "length (events w2) \<le> length (events w1)"
      "events w1 = [] \<longrightarrow> dom (contents (objects w2)) \<subseteq> dom (contents (objects w1))"
      using shrinks_visit_keys [of visit "pg_keys pg", OF assms(2)] v unfolding shrinks_def by (metis snd_conv)+
    have "visit_pages G p n truncated visit (Some t) w2 \<noteq> None"
      if t: "pg_truncated pg" "pg_next pg = Some t" for t
    proof (rule 1)
      have "length (events w2) < length (events w) \<or> (length (events w2) = length (events w)
          \<and> keys_left after p (Some t) w2 < keys_left after p cursor w)"
      proof (cases "events w")
        case Nil
        then have same: "w1 = w" "pg = G p (clamp_page n) cursor (objects w)"
          using page Inr by (auto simp: list_objects_page_def serve_quiet)
        then show ?thesis
          using keys_left_less [OF assms(1) clamp_page_pos, of n cursor w t w2] t after_visits Nil by simp
      next
        case (Cons ev evs)
        then have "length (events w1) < length (events w)"
          using page by (auto simp: list_objects_page_def serve_def split: prod.splits)
        then show ?thesis using after_visits(1) by simp
      qed
      then show "((Some t, w2), cursor, w)
          \<in> measures [\<lambda>(c, w). length (events w), \<lambda>(c, w). keys_left after p c w]" by auto
    qed
    then show ?thesis
      by (subst visit_pages.simps) (use page Inr v in \<open>auto split: sum.split option.split\<close>)
  qed (subst visit_pages.simps, simp add: page)
qed

definition returns :: "('s, 'a) lrun \<Rightarrow> bool" where
  "returns m \<longleftrightarrow> (\<forall>w. m w \<noteq> None)"

lemma returns_once: "returns (once m)"
  by (simp add: returns_def once_def)

lemma returns_try: "returns m \<Longrightarrow> (\<And>r. returns (k r)) \<Longrightarrow> returns (run_try m k)"
  by (fastforce simp: returns_def run_try_def split: option.split)

lemma returns_bind: "returns m \<Longrightarrow> (\<And>x. returns (k x)) \<Longrightarrow> returns (run_bind m k)"
  unfolding run_bind_def by (rule returns_try) (auto simp: returns_def split: sum.split)

lemma returns_or: "returns m \<Longrightarrow> returns n \<Longrightarrow> returns (or_else m n)"
  unfolding or_else_def by (rule returns_bind) (auto intro: returns_once)

lemma returns_fold: "(\<And>x a. returns (f x a)) \<Longrightarrow> returns (run_fold f xs a)"
  by (induction xs arbitrary: a) (auto intro: returns_once returns_bind)

lemma returns_pages: "pages_ok G \<Longrightarrow> (\<And>x. shrinks (visit x)) \<Longrightarrow> returns (visit_pages G p n truncated visit cursor)"
  using pages_okD visit_pages_returns unfolding returns_def by blast

lemma returns_referenced: "pages_ok G \<Longrightarrow> returns (remote_blob_is_referenced L G R n b)"
proof -
  assume G: "pages_ok G"
  have "returns (blob_has_active_lease L G R n h)" for h
    using returns_pages [OF G, of "lease_visit L R at" for at, OF shrinks_visits(5)]
    unfolding returns_def blob_has_active_lease_def by blast
  then show ?thesis
    unfolding remote_blob_is_referenced_def tree_references_blob_def tombstone_references_blob_def
      ops_reference_blob_def snapshots_reference_blob_def
    by (auto split: option.split intro!: returns_or returns_once returns_pages [OF G] shrink_intros)
qed

lemma sweep_returns: "pages_ok G \<Longrightarrow> \<exists>r w'. sweep_remote_blob_candidates L G R n batch w = Some (r, w')"
proof -
  assume "pages_ok G"
  then have "returns (sweep_candidate L G R n b cnt)" for b cnt
    by (cases cnt) (auto simp: sweep_candidate_def intro!: returns_try returns_referenced returns_once
        split: sum.split bool.split)
  from returns_fold [of "sweep_candidate L G R n", OF this] show ?thesis
    unfolding sweep_remote_blob_candidates_def returns_def by (metis not_Some_eq surj_pair)
qed

end
