(* ===== verification/Samples_Retention.thy ===== *)
theory Samples_Retention
  imports Retention_Facts Samples Samples_Index
begin

text \<open>
  A paged listing whose token is the last key of its page, a device that collects blobs,
  and buckets with one blob, for the concrete instances of the properties of maintenance.
\<close>

definition sample_pager :: pager where
  "sample_pager p n cursor m =
     (let rest = filter (\<lambda>k. case cursor of None \<Rightarrow> True | Some t \<Rightarrow> t < k) (mem_keys p m)
      in \<lparr>pg_keys = take n rest, pg_next = (if n < length rest then Some (last (take n rest)) else None),
          pg_truncated = n < length rest\<rparr>)"

lemma sample_pages_ok: "pages_ok sample_pager"
  unfolding pages_ok_def
  by (rule exI [of _ "\<lambda>t. t"]) (simp add: sample_pager_def rest_keys_def Let_def)

definition sample_maintainer :: "local_index \<Rightarrow> objs \<Rightarrow> maintainer" where
  "sample_maintainer db m =
     \<lparr>objects = m, events = [], now = 100, draws = 0, me_device_id = 7, me_logical_clock = 0, mt_db = db\<rparr>"

lemma sample_maintainer_db [simp]: "mt_db (sample_maintainer db m) = db"
  by (simp add: sample_maintainer_def)

definition due_blob :: "string \<Rightarrow> blob_candidate" where
  "due_blob data =
     (let h = blob_hash sample_libs data in
      \<lparr>bc_blob_key = blob_key h, bc_blob_hash = h,
       bc_blob_id = uuid_text sample_libs (blob_id_from_digest (blake3_digest sample_libs data)),
       bc_first_seen_at = [], bc_last_seen_at = [], bc_quarantine_until = [], bc_deleted_at = None, bc_last_error = None\<rparr>)"

lemma due_blob_simps [simp]:
  "bc_blob_key (due_blob data) = blob_key (blob_hash sample_libs data)"
  "bc_blob_hash (due_blob data) = blob_hash sample_libs data"
  "bc_blob_id (due_blob data) = uuid_text sample_libs (blob_id_from_digest (blake3_digest sample_libs data))"
  by (simp_all add: due_blob_def Let_def)

definition collecting :: "string \<Rightarrow> local_index" where
  "collecting data = empty_index\<lparr>blob_candidates := [due_blob data]\<rparr>"

text \<open>What the sweep of the other device makes of the bucket.\<close>

definition swept_by_other :: "string \<Rightarrow> objs \<Rightarrow> objs" where
  "swept_by_other data m =
     objects (snd (the (sweep_remote_blob_candidates sample_libs sample_pager Some 250 1
       (sample_maintainer (collecting data) m))))"

definition only_blob :: "string \<Rightarrow> objs" where
  "only_blob data = put_raw (blob_key (blob_hash sample_libs data)) data []"

section \<open>A sweep of a blob that nothing refers to\<close>

lemma visit_pages_empty:
  assumes "events w = []" "mem_keys p (objects w) = []"
  shows "visit_pages sample_pager p n e visit None w = Some (Inr False, w)"
  using assms
  by (subst visit_pages.simps)
    (simp add: list_objects_page_def serve_quiet sample_pager_def io_return_apply clamp_page_def)

lemma or_else_no: "m w = Some (Inr False, w) \<Longrightarrow> or_else m n w = n w"
  by (simp add: or_else_def run_bind_def run_try_def)

lemma unreferenced_alone:
  assumes "events w = []" "\<not> local_content_references_blob (bc_blob_hash b) (mt_db w)"
    and "uuid_parse L (bc_blob_id b) = Some blob"
    and "\<forall>p \<in> {blob_lease_prefix (bc_blob_hash b), tree_prefix, tombstone_prefix, op_prefix, snapshots_prefix}.
      mem_keys p (objects w) = []"
  shows "remote_blob_is_referenced L sample_pager R n b w = Some (Inr False, w)"
  using assms
  by (simp add: remote_blob_is_referenced_def or_else_no once_def io_get_apply blob_has_active_lease_def
      tree_references_blob_def tombstone_references_blob_def ops_reference_blob_def snapshots_reference_blob_def
      visit_pages_empty)

lemma blob_hash_no_prefix:
  "mem_keys p (only_blob data) \<noteq> [] \<Longrightarrow> starts_with (blob_key (blob_hash sample_libs data)) p"
  by (simp add: only_blob_def put_raw_def mem_keys_def split: if_splits)

lemma only_blob_elsewhere:
  "p \<in> {blob_lease_prefix h, tree_prefix, tombstone_prefix, op_prefix, snapshots_prefix} \<Longrightarrow> mem_keys p (only_blob data) = []"
  by (rule ccontr, drule blob_hash_no_prefix)
    (auto simp: blob_key_def blob_lease_prefix_def tree_prefix_def tombstone_prefix_def op_prefix_def
      snapshots_prefix_def starts_with_iff)

lemma collecting_due: "due_remote_blob_gc_candidates t (Suc 0) (collecting data) = [due_blob data]"
  by (simp add: due_remote_blob_gc_candidates_def collecting_def due_blob_def Let_def)

lemma collecting_local: "\<not> local_content_references_blob h (collecting data)"
  by (simp add: local_content_references_blob_def collecting_def empty_index_def changes_def Let_def)

lemma sample_sweep_deletes: "contents (swept_by_other data (only_blob data)) (blob_key (blob_hash sample_libs data)) = None"
proof -
  let ?w = "sample_maintainer (collecting data) (only_blob data)"
  have "remote_blob_is_referenced sample_libs sample_pager Some 250 (due_blob data) ?w = Some (Inr False, ?w)"
    using collecting_local only_blob_elsewhere libs_ok_uuid(1) [OF sample_libs_ok]
    by (intro unreferenced_alone) (auto simp: sample_maintainer_def)
  then have "\<exists>w. sweep_candidate sample_libs sample_pager Some 250 (due_blob data) (0, 0, 0) ?w = Some (Inr (1, 0, 0), w)
      \<and> objects w = btree_remove (blob_key (blob_hash sample_libs data)) (only_blob data)"
    by (simp add: sweep_candidate_def run_try_def once_def delete_unreferenced_def delete_object_def serve_quiet
        mem_delete_object_def io_simps utc_now_def db_call_def sample_maintainer_def io_try_apply io_bind_apply
        io_get_apply io_modify_apply io_return_apply)
  then show ?thesis
    by (auto simp: swept_by_other_def sweep_remote_blob_candidates_def collecting_due run_bind_def run_try_def
        once_def io_return_apply)
qed

section \<open>A blob that the tree refers to\<close>

definition referring_entry :: "string \<Rightarrow> file_entry" where
  "referring_entry data = (Samples.sample_entry ''a'')\<lparr>fe_content_hash := Some (blob_hash sample_libs data)\<rparr>"

definition referring_bucket :: "string \<Rightarrow> objs" where
  "referring_bucket data = put_raw (tree_entry_key sample_libs 3) (json_of (json_entry sample_libs) (referring_entry data))
     (only_blob data)"

lemma sample_refers:
  "refers sample_libs (due_blob data) (tree_entry_key sample_libs 3)
     (json_of (json_entry sample_libs) (referring_entry data))"
proof -
  have "parse_json sample_libs (json_entry sample_libs) u j (json_of (json_entry sample_libs) (referring_entry data))
    = Inr (referring_entry data)" for u j
    by (simp add: libs_ok_codecs sample_libs_ok)
  then show ?thesis
    by (auto simp: refers_def entry_references_blob_def referring_entry_def)
qed

lemma sample_referenced:
  "guarded (referenced (blob_key (blob_hash sample_libs data)) data (tree_entry_key sample_libs 3)
     (json_of (json_entry sample_libs) (referring_entry data))) (sample_maintainer db (referring_bucket data))"
proof -
  have "store_inv sample_libs (referring_bucket data)"
    by (simp add: referring_bucket_def only_blob_def)
  moreover have "blob_key (blob_hash sample_libs data) \<noteq> tree_entry_key sample_libs 3"
    by (auto simp: blob_key_def tree_entry_key_def)
  ultimately show ?thesis
    by (auto simp: guarded_def env_keeps_def referenced_def store_inv_def sample_maintainer_def referring_bucket_def
        only_blob_def)
qed

lemma sample_honest: "honest (sample_maintainer db m)"
  by (simp add: honest_def sample_maintainer_def)

lemma collecting_ok: "index_ok L (collecting data)"
  unfolding collecting_def by (rule candidates_ok [OF empty_index_ok]) simp

end
