(* ===== verification/Sync_Host.thy ===== *)
theory Sync_Host
  imports Retention Local_Tree Local_Scan Sync_Paths
begin

text \<open>
  A device that synchronizes: its view of the bucket and its local database
  (\<open>maintainer\<close>) together with its local folder. The helpers of \<open>sync/mod.rs\<close> its handlers
  share: commits, the local trash; and whether an entry is deleted in the bucket
  (\<open>sync/folder_recovery.rs\<close>). Entries in the activity log are left out everywhere.
\<close>

record sync_host = maintainer +
  sh_tree :: local_tree

text \<open>
  What stays the same: the folder, the device, the text of SQLite's \<open>datetime('now')\<close> and
  what the platform says of the files in a tree.
\<close>

record sync_env =
  se_folder :: string
  se_device :: device_id
  se_sql_time :: "int \<Rightarrow> timestamp"
  se_probe :: "local_tree \<Rightarrow> local_probe"

definition db_at :: "sync_env \<Rightarrow> (timestamp \<Rightarrow> local_index \<Rightarrow> local_index) \<Rightarrow> ('z maintainer_scheme, core_error, unit) io" where
  "db_at E f = io_modify (\<lambda>w. w\<lparr>mt_db := f (se_sql_time E (now w)) (mt_db w)\<rparr>)"

definition ask_db :: "(local_index \<Rightarrow> 'a) \<Rightarrow> ('z maintainer_scheme, core_error, 'a) io" where
  "ask_db f = io_get (\<lambda>w. f (mt_db w))"

definition ask_tree :: "(local_tree \<Rightarrow> 'a) \<Rightarrow> ('z sync_host_scheme, core_error, 'a) io" where
  "ask_tree f = io_get (\<lambda>w. f (sh_tree w))"

text \<open>A call of \<open>std::fs\<close>, its error in the words of its caller.\<close>

definition tree_call ::
    "string \<Rightarrow> (local_tree \<Rightarrow> tree_result) \<Rightarrow> ('z sync_host_scheme, core_error, unit) io" where
  "tree_call words f w =
     (case f (sh_tree w) of
        Inl m \<Rightarrow> (Inl (FileSystem (words @ m)), w)
      | Inr t \<Rightarrow> (Inr (), w\<lparr>sh_tree := t\<rparr>))"

definition ignore_result :: "('s, 'e, 'a) io \<Rightarrow> ('s, 'f, unit) io" where
  "ignore_result m = io_try m (\<lambda>_. io_return ())"

text \<open>A read that may find nothing.\<close>

definition if_found :: "('s, core_error, 'a) io \<Rightarrow> ('a option \<Rightarrow> ('s, core_error, 'b) io) \<Rightarrow> ('s, core_error, 'b) io" where
  "if_found m k =
     io_try m (\<lambda>r. case r of
         Inr x \<Rightarrow> k (Some x)
       | Inl e \<Rightarrow> if is_NotFound e then k None else io_throw e)"

section \<open>Commits\<close>

definition logical_clock_seed :: "int \<Rightarrow> u64" where
  "logical_clock_seed at = word_of_int (max 0 (at div 1000000))"

definition commit_op ::
    "libs \<Rightarrow> device_id \<Rightarrow> file_id \<Rightarrow> op_type \<Rightarrow> bool \<Rightarrow> effects \<Rightarrow> ('z world_scheme, core_error, unit) io" where
  "commit_op L d i ty file_exists eff =
     io_bind (io_get (\<lambda>w. logical_clock_seed (now w))) (\<lambda>clock.
     io_bind (with_log d clock (commit L (Some i) ty
         \<lparr>pre_expected_etag = None, pre_expected_version_id = None, pre_file_exists = file_exists,
          pre_parent_exists = True\<rparr> eff)) (\<lambda>_.
       io_return ()))"

definition commit_sync_operation ::
    "libs \<Rightarrow> device_id \<Rightarrow> file_id \<Rightarrow> op_type \<Rightarrow> content_ref option \<Rightarrow> revision_id option \<Rightarrow> string option
      \<Rightarrow> file_id option \<Rightarrow> bool \<Rightarrow> ('z world_scheme, core_error, unit) io" where
  "commit_sync_operation L d i ty content revision name parent deleted =
     commit_op L d i ty True
       \<lparr>ef_new_revision_id = revision, ef_new_content_ref = content, ef_new_name = name,
        ef_new_parent_id = parent, ef_deleted = deleted\<rparr>"

text \<open>A deletion record may outlive a restore; the log decides, or the tree once the log is compacted.\<close>

definition is_remotely_deleted :: "libs \<Rightarrow> file_id \<Rightarrow> ('z world_scheme, core_error, bool) io" where
  "is_remotely_deleted L i =
     if_found (get_tombstone L i) (\<lambda>t. case t of
         None \<Rightarrow> io_return False
       | Some _ \<Rightarrow>
           io_bind (with_log 0 0 (latest_on_target L i)) (\<lambda>latest. case latest of
               Some x \<Rightarrow> io_return (ef_deleted (op_effects x))
             | None \<Rightarrow>
                 if_found (get_entry L i) (\<lambda>entry. case entry of
                     Some x \<Rightarrow> io_return (fe_deleted_at x \<noteq> None)
                   | None \<Rightarrow> io_return True)))"

section \<open>The local trash\<close>

definition local_trash :: "string \<Rightarrow> string" where
  "local_trash folder = path_push (path_push (path_push folder ''.s4drive'') ''trash'') ''local''"

definition trash_target :: "libs \<Rightarrow> string \<Rightarrow> string \<Rightarrow> file_id \<Rightarrow> string" where
  "trash_target L folder local_path i =
     path_push (local_trash folder)
       (uuid_text L i @ ''-'' @ (case path_file_name local_path of Some n \<Rightarrow> n | None \<Rightarrow> ''deleted''))"

definition move_local_file_to_trash ::
    "libs \<Rightarrow> string \<Rightarrow> string \<Rightarrow> file_id \<Rightarrow> ('z sync_host_scheme, core_error, unit) io" where
  "move_local_file_to_trash L folder local_path i =
     io_bind (ask_tree (\<lambda>t. path_exists t local_path)) (\<lambda>there.
       if \<not> there then io_return ()
       else
         io_bind (tree_call ''create local trash: '' (create_dir_all (local_trash folder))) (\<lambda>_.
         tree_call (''move deleted file to local trash '' @ local_path @ '' -> '' @ trash_target L folder local_path i @ '': '')
           (rename_path local_path (trash_target L folder local_path i))))"

section \<open>What is in the folder\<close>

text \<open>The files of the local tree as the change detection sees them.\<close>

definition files_of :: "sync_env \<Rightarrow> local_tree \<Rightarrow> local_files" where
  "files_of E t p =
     map_option (\<lambda>b. \<lparr>fl_bytes = b, fl_mtime = pr_mtime_millis (se_probe E t) p\<rparr>) (file_bytes t p)"

record folder_scan =
  fs_files :: "(path_component list \<times> u64) list"
  fs_folders :: "path_component list list"
  fs_truncated :: bool

text \<open>The entries of a directory with their names, as \<open>read_dir\<close> gives them.\<close>

definition dir_entries :: "local_tree \<Rightarrow> path_component list \<Rightarrow> (string \<times> path_component list \<times> tree_node) list" where
  "dir_entries t cs =
     List.map_filter (\<lambda>(ds, n). case ds of
         [] \<Rightarrow> None
       | _ \<Rightarrow> (case last ds of Normal name \<Rightarrow> if butlast ds = cs then Some (name, ds, n) else None | _ \<Rightarrow> None)) t"

definition canonical_in :: "local_tree \<Rightarrow> string \<Rightarrow> string option" where
  "canonical_in t p = (if path_exists t p then Some p else None)"

text \<open>One level per unit of fuel; folders nest at most as deep as the tree has nodes.\<close>

primrec scan_inner ::
    "nat \<Rightarrow> local_tree \<Rightarrow> string \<Rightarrow> string list \<Rightarrow> nat \<Rightarrow> string \<Rightarrow> folder_scan \<Rightarrow> folder_scan" where
  "scan_inner 0 t root excludes most dir s = s"
| "scan_inner (Suc depth) t root excludes most dir s =
     fold (\<lambda>(name, ds, n) s.
         let p = path_push dir name; rel = drop (length (path_components root)) ds in
         if fs_truncated s then s
         else if length (fs_files s) \<ge> most then s\<lparr>fs_truncated := True\<rparr>
         else if should_ignore_sync_path (canonical_in t) p root excludes then s
         else (case n of
             Tree_Dir \<Rightarrow> scan_inner depth t root excludes most p (s\<lparr>fs_folders := fs_folders s @ [rel]\<rparr>)
           | Tree_File b \<Rightarrow> s\<lparr>fs_files := fs_files s @ [(rel, word_of_nat (length b))]\<rparr>))
       (dir_entries t (path_components dir)) s"

definition scan_folder_recursive_bounded :: "local_tree \<Rightarrow> string \<Rightarrow> string list \<Rightarrow> nat \<Rightarrow> folder_scan" where
  "scan_folder_recursive_bounded t root excludes most =
     (let s = \<lparr>fs_files = [], fs_folders = [], fs_truncated = False\<rparr>
      in if path_is_dir t root then scan_inner (length t) t root excludes most root s else s)"

definition max_sync_scan_files :: nat where
  "max_sync_scan_files = 1000000"

section \<open>What the helpers leave alone\<close>

lemma tree_call_keeps:
  assumes "tree_call words f w = (r, w')" "tree_ok (sh_tree w)"
    and "\<And>t. f (sh_tree w) = Inr t \<Longrightarrow> tree_ok t \<and> keeps_files (sh_tree w) t"
  shows "tree_ok (sh_tree w') \<and> keeps_files (sh_tree w) (sh_tree w')"
  using assms by (auto simp: tree_call_def split: sum.splits)

end
