(* ===== verification/Folder_Recovery.thy ===== *)
theory Folder_Recovery
  imports Sync_Host Durable_Commit Notes_Index Publication
begin

text \<open>
  What happens when the local folder disappears (\<open>sync/folder_recovery.rs\<close>): the prompt
  that is stored until the user decides, the deletion of what the user gave up, with a
  journal of its commits in the local database, and the return of the folder. The codecs
  \<open>C\<close> and \<open>D\<close> stand for the JSON of the prompt and of the journal. Restoring the data
  downloads it, which \<open>restore_data\<close> leaves to its argument.
\<close>

datatype recovery_decision = Decide_Restore | Decide_Delete

record delete_target =
  dt_entry :: file_entry
  dt_etag :: string
  dt_path :: string
  dt_blobs :: "blob_id list"

record folder_recovery =
  fr_id :: uuid
  fr_path :: string
  fr_decision :: "recovery_decision option"
  fr_notes_root :: "file_id option"
  fr_targets :: "delete_target list option"
  fr_previous_notes_root :: "file_id option"

section \<open>The prompt\<close>

definition recovery_checkpoint :: "libs \<Rightarrow> string \<Rightarrow> string \<Rightarrow> string" where
  "recovery_checkpoint L root ending = ''folder-recovery/'' @ blob_hash L root @ ''/'' @ ending"

definition save_recovery ::
    "libs \<Rightarrow> folder_recovery codec \<Rightarrow> string \<Rightarrow> folder_recovery \<Rightarrow> ('z maintainer_scheme, core_error, unit) io" where
  "save_recovery L C root r =
     (case encode C r of
        Inl m \<Rightarrow> io_throw (Internal m)
      | Inr json \<Rightarrow> db_call (set_checkpoint (recovery_checkpoint L root ''pending'') json))"

text \<open>\<open>symlink_metadata\<close>: a path below a file is an error, any other missing path is absent.\<close>

definition below_file :: "local_tree \<Rightarrow> string \<Rightarrow> bool" where
  "below_file t p \<longleftrightarrow> list_ex (\<lambda>cs. is_file_node (map_of t cs)) (butlast (prefixes (path_components p)))"

definition is_directory_at :: "string \<Rightarrow> local_tree \<Rightarrow> bool core_result" where
  "is_directory_at p t =
     (case node_at t p of
        Some Tree_Dir \<Rightarrow> Inr True
      | Some (Tree_File _) \<Rightarrow> Inl (FileSystem (p @ '' must be a directory, not a file or link''))
      | None \<Rightarrow> if below_file t p then Inl (FileSystem ''Not a directory (os error 20)'') else Inr False)"

definition is_absent_at :: "string \<Rightarrow> local_tree \<Rightarrow> bool core_result" where
  "is_absent_at p t =
     (case node_at t p of
        Some _ \<Rightarrow> Inr False
      | None \<Rightarrow> if below_file t p then Inl (FileSystem ''Not a directory (os error 20)'') else Inr True)"

definition check_directory :: "string \<Rightarrow> ('z sync_host_scheme, core_error, bool) io" where
  "check_directory p = io_bind (ask_tree (is_directory_at p)) io_result"

text \<open>\<open>None\<close>: another inspection stored its prompt first.\<close>

definition store_new ::
    "libs \<Rightarrow> folder_recovery codec \<Rightarrow> string \<Rightarrow> string \<Rightarrow> folder_recovery
      \<Rightarrow> ('z maintainer_scheme, core_error, folder_recovery option option) io" where
  "store_new L C root expected r =
     (case encode C r of
        Inl m \<Rightarrow> io_throw (Internal m)
      | Inr json \<Rightarrow>
          io_bind (ask_db (replace_checkpoint (recovery_checkpoint L root ''pending'') expected json)) (\<lambda>(stored, db).
          io_bind (db_call (\<lambda>_. db)) (\<lambda>_.
            io_return (if stored then Some (Some r) else None))))"

definition new_prompt :: "uuid \<Rightarrow> string \<Rightarrow> file_id option \<Rightarrow> folder_recovery" where
  "new_prompt i p notes =
     \<lparr>fr_id = i, fr_path = p, fr_decision = None, fr_notes_root = notes, fr_targets = None,
      fr_previous_notes_root = None\<rparr>"

definition inspect_saved ::
    "libs \<Rightarrow> folder_recovery codec \<Rightarrow> string \<Rightarrow> string
      \<Rightarrow> ('z sync_host_scheme, core_error, folder_recovery option option) io" where
  "inspect_saved L C root old_text =
     (case decode C old_text of
        Inl m \<Rightarrow> io_throw (Database m)
      | Inr r \<Rightarrow>
          io_bind (if fr_notes_root r = None then io_return True else check_directory root) (\<lambda>stays.
            if stays then io_return (Some (Some r))
            else io_bind (new_uuid L) (\<lambda>i. store_new L C root old_text (new_prompt i root None))))"

definition notes_folder_in :: "string \<Rightarrow> local_index \<Rightarrow> indexed_folder option" where
  "notes_folder_in root db =
     (case folder_at ''Notes'' db of
        Some f \<Rightarrow> if path_strip_prefix root (if_local_path f) \<noteq> None then Some f else None
      | None \<Rightarrow> None)"

text \<open>Whether the folder has been used before, and the Notes folder in it.\<close>

definition workspace_known :: "libs \<Rightarrow> string \<Rightarrow> local_index \<Rightarrow> bool" where
  "workspace_known L root db \<longleftrightarrow>
     get_checkpoint (recovery_checkpoint L root ''seen'') db \<noteq> None
     \<or> live_files_under L root db \<noteq> [] \<or> live_folders_under root db \<noteq> []"

definition missing_part ::
    "libs \<Rightarrow> string \<Rightarrow> bool \<Rightarrow> bool \<Rightarrow> indexed_folder option \<Rightarrow> ('z sync_host_scheme, core_error, string option) io" where
  "missing_part L root root_exists known notes =
     (if \<not> root_exists \<and> known then io_return (Some root)
      else if root_exists \<and> notes \<noteq> None then
        io_bind (io_bind (ask_tree (is_absent_at (path_push root ''Notes''))) io_result) (\<lambda>absent.
          io_return (if absent then Some (path_push root ''Notes'') else None))
      else io_return None)"

definition try_inspect ::
    "libs \<Rightarrow> folder_recovery codec \<Rightarrow> string \<Rightarrow> ('z sync_host_scheme, core_error, folder_recovery option option) io" where
  "try_inspect L C root =
     io_bind (ask_db (\<lambda>db. option_default [] (get_checkpoint (recovery_checkpoint L root ''pending'') db))) (\<lambda>old_text.
       if old_text \<noteq> [] then inspect_saved L C root old_text
       else
         io_bind (check_directory root) (\<lambda>root_exists.
         io_bind (ask_db (\<lambda>db. get_checkpoint (recovery_checkpoint L root ''seen'') db \<noteq> None)) (\<lambda>seen.
         io_bind (ask_db (workspace_known L root)) (\<lambda>known.
         io_bind (ask_db (notes_folder_in root)) (\<lambda>notes.
         io_bind (missing_part L root root_exists known notes) (\<lambda>missing_path.
         io_bind (if root_exists \<and> \<not> seen
             then db_call (set_checkpoint (recovery_checkpoint L root ''seen'') ''1'') else io_return ()) (\<lambda>_.
           case missing_path of
             None \<Rightarrow> io_return (Some None)
           | Some p \<Rightarrow>
               io_bind (new_uuid L) (\<lambda>i.
                 store_new L C root []
                   (new_prompt i p (if p = root then None else map_option if_file_id notes))))))))))"

text \<open>
  The loop ends when the prompt of this call is stored. A method of the database is one
  transaction, and here nobody else writes between two of them, so one round is enough
  (\<open>try_inspect_decides\<close>).
\<close>

primrec inspect_loop ::
    "nat \<Rightarrow> libs \<Rightarrow> folder_recovery codec \<Rightarrow> string \<Rightarrow> ('z sync_host_scheme, core_error, folder_recovery option) io" where
  "inspect_loop 0 L C root = io_throw WorkspaceBusy"
| "inspect_loop (Suc n) L C root =
     io_bind (try_inspect L C root) (\<lambda>outcome. case outcome of
         Some r \<Rightarrow> io_return r
       | None \<Rightarrow> inspect_loop n L C root)"

definition inspect ::
    "libs \<Rightarrow> folder_recovery codec \<Rightarrow> string \<Rightarrow> ('z sync_host_scheme, core_error, folder_recovery option) io" where
  "inspect L C root = inspect_loop 1 L C root"

definition ensure_available ::
    "libs \<Rightarrow> folder_recovery codec \<Rightarrow> string \<Rightarrow> ('z sync_host_scheme, core_error, unit) io" where
  "ensure_available L C root =
     io_bind (inspect L C root) (\<lambda>pending. case pending of
         Some r \<Rightarrow> io_throw (FileSystem (''Local folder is missing: '' @ fr_path r
             @ ''. Open S4Drive to restore data from the server or confirm deletion.''))
       | None \<Rightarrow> io_return ())"

definition accept_notes_relocation ::
    "libs \<Rightarrow> folder_recovery codec \<Rightarrow> string \<Rightarrow> uuid \<Rightarrow> ('z sync_host_scheme, core_error, unit) io" where
  "accept_notes_relocation L C root i =
     io_bind (inspect L C root) (\<lambda>pending.
       if (case pending of Some r \<Rightarrow> fr_notes_root r = Some i \<and> fr_decision r = None | None \<Rightarrow> False)
       then db_call (set_checkpoint (recovery_checkpoint L root ''pending'') [])
       else io_return ())"

definition ensure_root_available ::
    "libs \<Rightarrow> folder_recovery codec \<Rightarrow> string \<Rightarrow> ('z sync_host_scheme, core_error, unit) io" where
  "ensure_root_available L C root =
     io_bind (inspect L C root) (\<lambda>pending.
     io_bind (if (case pending of Some r \<Rightarrow> fr_decision r \<noteq> None | None \<Rightarrow> False) then io_return True
         else io_bind (check_directory root) (\<lambda>there. io_return (\<not> there))) (\<lambda>check.
       if check then ensure_available L C root else io_return ()))"

section \<open>What is in the bucket\<close>

definition remote_entries :: "libs \<Rightarrow> ('z world_scheme, core_error, file_entry list) io" where
  "remote_entries L =
     io_bind (list_entries L) (\<lambda>ids.
     io_fold (\<lambda>i xs.
       io_bind (get_entry L i) (\<lambda>x.
         if fe_deleted_at x \<noteq> None then io_return xs
         else io_bind (is_remotely_deleted L i) (\<lambda>gone. io_return (if gone then xs else xs @ [x])))) ids [])"

text \<open>An entry by its id; a later one of the list replaces an earlier one.\<close>

definition entry_by_id :: "file_entry list \<Rightarrow> file_id \<Rightarrow> file_entry option" where
  "entry_by_id xs i = find (\<lambda>x. fe_file_id x = i) (rev xs)"

lemma entry_by_id_in: "entry_by_id xs i = Some x \<Longrightarrow> x \<in> set xs \<and> fe_file_id x = i"
  by (auto simp: entry_by_id_def find_Some_iff) (metis length_rev nth_mem set_rev)

function remote_path_loop ::
    "file_entry list \<Rightarrow> file_id list \<Rightarrow> file_id option \<Rightarrow> string list \<Rightarrow> string option core_result" where
  "remote_path_loop xs visited None parts = Inr (Some (str_join ''/'' parts))"
| "remote_path_loop xs visited (Some i) parts =
     (if i \<in> set visited then Inl (Protocol ''Folder cycle in server data'')
      else case entry_by_id xs i of
          None \<Rightarrow> Inr None
        | Some f \<Rightarrow>
            if fe_entry_type f \<noteq> Folder then Inl (Protocol ''Invalid parent folder'')
            else remote_path_loop xs (i # visited) (fe_parent_id f) (fe_name f # parts))"
  by pat_completeness auto

termination
proof (relation "measure (\<lambda>(xs, visited, i, parts). card (fe_file_id ` set xs - set visited))")
  fix xs :: "file_entry list" and visited :: "file_id list" and i :: file_id and parts :: "string list" and f :: file_entry
  assume "i \<notin> set visited" "entry_by_id xs i = Some f"
  then have "i \<in> fe_file_id ` set xs - set visited" using entry_by_id_in by blast
  then have "card (fe_file_id ` set xs - set (i # visited)) < card (fe_file_id ` set xs - set visited)"
    by (intro psubset_card_mono) auto
  then show "((xs, i # visited, fe_parent_id f, fe_name f # parts), xs, visited, Some i, parts)
      \<in> measure (\<lambda>(xs, visited, i, parts). card (fe_file_id ` set xs - set visited))" by simp
qed simp

definition remote_path :: "file_entry \<Rightarrow> file_entry list \<Rightarrow> string option core_result" where
  "remote_path x xs = remote_path_loop xs [fe_file_id x] (fe_parent_id x) [fe_name x]"

definition in_scope :: "string \<Rightarrow> folder_recovery \<Rightarrow> bool" where
  "in_scope p r \<longleftrightarrow> fr_notes_root r = None \<or> p = ''Notes'' \<or> starts_with p ''Notes/''"

section \<open>What is to be deleted\<close>

text \<open>The blobs of the entries at or under a path.\<close>

primrec target_blobs :: "file_entry list \<Rightarrow> file_entry \<Rightarrow> string \<Rightarrow> file_entry list \<Rightarrow> blob_id list core_result" where
  "target_blobs all x p [] = Inr []"
| "target_blobs all x p (c # cs) =
     (case remote_path c all of
        Inl e \<Rightarrow> Inl e
      | Inr child \<Rightarrow>
          (case target_blobs all x p cs of
             Inl e \<Rightarrow> Inl e
           | Inr blobs \<Rightarrow>
               Inr (case (child, fe_content_ref c) of
                   (Some q, Some content) \<Rightarrow>
                     if q = p \<or> (fe_entry_type x = Folder \<and> starts_with q (p @ ''/''))
                     then cr_blob_id content # blobs else blobs
                 | _ \<Rightarrow> blobs)))"

definition is_target :: "folder_recovery \<Rightarrow> file_entry \<Rightarrow> bool" where
  "is_target r x \<longleftrightarrow> (case fr_notes_root r of Some i \<Rightarrow> fe_file_id x = i | None \<Rightarrow> fe_parent_id x = None)"

definition prepare_target ::
    "libs \<Rightarrow> file_entry list \<Rightarrow> file_entry \<Rightarrow> delete_target list \<Rightarrow> ('z world_scheme, core_error, delete_target list) io" where
  "prepare_target L all x targets =
     io_bind (io_result (remote_path x all)) (\<lambda>p. case p of
         None \<Rightarrow> io_return targets
       | Some p \<Rightarrow>
           io_bind (get_entry_version L (fe_file_id x)) (\<lambda>version. case version of
               None \<Rightarrow> io_return targets
             | Some observed \<Rightarrow>
                 io_bind (io_result (target_blobs all x p all)) (\<lambda>blobs.
                   io_return (targets @ [\<lparr>dt_entry = ev_entry observed, dt_etag = ev_etag observed, dt_path = p,
                     dt_blobs = remdups_adj (sort blobs)\<rparr>]))))"

definition prepare_delete :: "libs \<Rightarrow> folder_recovery \<Rightarrow> ('z world_scheme, core_error, delete_target list) io" where
  "prepare_delete L r =
     io_bind (remote_entries L) (\<lambda>all.
       io_fold (\<lambda>x targets. if is_target r x then prepare_target L all x targets else io_return targets) all [])"

section \<open>The journal of a deletion\<close>

record recovery_receipt =
  jr_attempts :: "operation list"
  jr_committed :: "op_id option"

definition receipt_read :: "recovery_receipt codec \<Rightarrow> string \<Rightarrow> local_index \<Rightarrow> recovery_receipt core_result" where
  "receipt_read D key db =
     (case get_checkpoint key db of
        None \<Rightarrow> Inr \<lparr>jr_attempts = [], jr_committed = None\<rparr>
      | Some s \<Rightarrow> (case decode D s of Inl m \<Rightarrow> Inl (Database m) | Inr r \<Rightarrow> Inr r))"

definition receipt_change ::
    "recovery_receipt codec \<Rightarrow> string \<Rightarrow> (recovery_receipt \<Rightarrow> recovery_receipt) \<Rightarrow> local_index
      \<Rightarrow> unit core_result \<times> local_index" where
  "receipt_change D key change db =
     (case receipt_read D key db of
        Inl e \<Rightarrow> (Inl e, db)
      | Inr r \<Rightarrow> (case encode D (change r) of
          Inl m \<Rightarrow> (Inl (Internal m), db)
        | Inr json \<Rightarrow> (Inr (), set_checkpoint key json db)))"

definition recovery_journal :: "recovery_receipt codec \<Rightarrow> string \<Rightarrow> local_index journal_ops" where
  "recovery_journal D key =
     \<lparr>jo_attempts = (\<lambda>db. case receipt_read D key db of Inl e \<Rightarrow> Inl e | Inr r \<Rightarrow> Inr (jr_attempts r)),
      jo_record_attempt = (\<lambda>x. receipt_change D key (\<lambda>r.
          if \<exists>a \<in> set (jr_attempts r). op_op_id a = op_op_id x then r else r\<lparr>jr_attempts := jr_attempts r @ [x]\<rparr>)),
      jo_record_committed = (\<lambda>i. receipt_change D key (\<lambda>r. r\<lparr>jr_committed := Some i\<rparr>)),
      jo_committed = (\<lambda>db. case receipt_read D key db of Inl e \<Rightarrow> Inl e | Inr r \<Rightarrow> Inr (jr_committed r))\<rparr>"

text \<open>A durable commit whose journal is in the local database.\<close>

definition with_durable ::
    "device_id \<Rightarrow> u64 \<Rightarrow> (local_index durable, core_error, 'a) io \<Rightarrow> ('z maintainer_scheme, core_error, 'a) io" where
  "with_durable d clock m w =
     (case m \<lparr>objects = objects w, events = events w, now = now w, draws = draws w, ol_device = d, ol_clock = clock,
         ol_head = None, ol_etag = None, ol_loaded = False, du_journal = mt_db w\<rparr> of
        (r, s) \<Rightarrow> (r, w\<lparr>objects := objects s, events := events s, now := now s, draws := draws s, mt_db := du_journal s\<rparr>))"

section \<open>Deletion\<close>

definition receipt_key :: "libs \<Rightarrow> uuid \<Rightarrow> file_id \<Rightarrow> string" where
  "receipt_key L r i = ''folder-recovery/receipt/'' @ uuid_text L r @ ''/'' @ uuid_text L i"

definition changed_before :: core_error where
  "changed_before = Conflict ''Server data changed after deletion was confirmed. Retry after reviewing the changes.''"

definition changed_while :: core_error where
  "changed_while = Conflict ''Server data changed while applying deletion.''"

definition overtaken_deletion :: core_error where
  "overtaken_deletion = Conflict ''Another device changed an item after this deletion. Its newer data was preserved.''"

text \<open>Nothing of the target may have changed before its first attempt is recorded.\<close>

definition check_target ::
    "libs \<Rightarrow> recovery_receipt codec \<Rightarrow> string \<Rightarrow> delete_target \<Rightarrow> ('z maintainer_scheme, core_error, unit) io" where
  "check_target L D key t =
     io_bind (ask_db (jo_attempts (recovery_journal D key))) (\<lambda>r.
     io_bind (io_result r) (\<lambda>attempts.
       if attempts \<noteq> [] then io_return ()
       else
         io_bind (get_entry_version L (fe_file_id (dt_entry t))) (\<lambda>current. case current of
             Some v \<Rightarrow> if ev_etag v \<noteq> dt_etag t then io_throw changed_before else io_return ()
           | None \<Rightarrow> io_return ())))"

definition deletion_effects :: "file_entry \<Rightarrow> effects" where
  "deletion_effects x =
     \<lparr>ef_new_revision_id = None, ef_new_content_ref = None, ef_new_name = Some (fe_name x),
      ef_new_parent_id = fe_parent_id x, ef_deleted = True\<rparr>"

definition commit_deletion ::
    "libs \<Rightarrow> recovery_receipt codec \<Rightarrow> string \<Rightarrow> device_id \<Rightarrow> file_entry \<Rightarrow> u64
      \<Rightarrow> ('z maintainer_scheme, core_error, durable_commit) io" where
  "commit_deletion L D key device x clock =
     with_durable device clock (commit_durable L (recovery_journal D key) (fe_file_id x) Delete
       \<lparr>pre_expected_etag = None, pre_expected_version_id = None, pre_file_exists = True, pre_parent_exists = True\<rparr>
       (deletion_effects x))"

text \<open>The tree entry goes if it is still the one the user saw.\<close>

definition apply_deletion ::
    "libs \<Rightarrow> bool \<Rightarrow> delete_target \<Rightarrow> ('z world_scheme, core_error, unit) io" where
  "apply_deletion L conditional t =
     io_bind (get_entry_version L (fe_file_id (dt_entry t))) (\<lambda>current. case current of
         None \<Rightarrow> io_return ()
       | Some v \<Rightarrow>
           if fe_deleted_at (ev_entry v) \<noteq> None then io_return ()
           else if ev_etag v \<noteq> dt_etag t then io_throw changed_while
           else
             io_bind (if conditional then delete_if_match (tree_entry_key L (fe_file_id (dt_entry t))) (dt_etag t)
                 else io_bind utc_now (\<lambda>at.
                   put_entry_if L ((ev_entry v)\<lparr>fe_deleted_at := Some (rfc3339_text L at)\<rparr>) (Some v))) (\<lambda>applied.
               if applied then io_return () else io_throw changed_while))"

definition delete_target_step ::
    "libs \<Rightarrow> recovery_receipt codec \<Rightarrow> device_id \<Rightarrow> uuid \<Rightarrow> bool \<Rightarrow> delete_target
      \<Rightarrow> ('z maintainer_scheme, core_error, unit) io" where
  "delete_target_step L D device r conditional t =
     (let x = dt_entry t; key = receipt_key L r (fe_file_id x); done_key = key @ ''/applied'' in
      io_bind (ask_db (\<lambda>db. get_checkpoint done_key db \<noteq> None)) (\<lambda>finished.
        if finished then io_return ()
        else
          io_bind (check_target L D key t) (\<lambda>_.
          io_bind (create_tombstone L (fe_file_id x) (dt_path t) (fe_name x) (uuid_text L device) (dt_blobs t) 90) (\<lambda>_.
          io_bind (io_get (\<lambda>w. logical_clock_seed (now w))) (\<lambda>clock.
          io_bind (commit_deletion L D key device x clock) (\<lambda>committed.
            if dc_superseded committed then io_throw overtaken_deletion
            else
              io_bind (apply_deletion L conditional t) (\<lambda>_.
                db_call (set_checkpoint done_key ''1''))))))))"

definition delete_targets ::
    "libs \<Rightarrow> recovery_receipt codec \<Rightarrow> device_id \<Rightarrow> folder_recovery \<Rightarrow> ('z maintainer_scheme, core_error, unit) io" where
  "delete_targets L D device r =
     (let targets = option_default [] (fr_targets r) in
      io_bind (if targets = [] then io_return False else conditional_delete_supported L) (\<lambda>conditional.
        io_fold (\<lambda>t _. delete_target_step L D device (fr_id r) conditional t) targets ()))"


section \<open>Restoring\<close>

primrec create_each :: "string \<Rightarrow> string list \<Rightarrow> ('z sync_host_scheme, core_error, unit) io" where
  "create_each p [] = io_return ()"
| "create_each p (n # ns) =
     io_bind (check_directory (path_push p n)) (\<lambda>there.
     io_bind (if there then io_return () else tree_call [] (create_dir (path_push p n))) (\<lambda>_.
       create_each (path_push p n) ns))"

definition create_directory :: "string \<Rightarrow> string \<Rightarrow> ('z sync_host_scheme, core_error, unit) io" where
  "create_directory root relative =
     io_bind (io_result (safe_join_sync_path root relative)) (\<lambda>_.
       create_each root (normal_names (path_components relative)))"

text \<open>\<open>LocalContentToken::capture\<close> on the local tree.\<close>

definition capture_tree :: "libs \<Rightarrow> string \<Rightarrow> local_tree \<Rightarrow> local_content_token core_result" where
  "capture_tree L p t =
     (case node_at t p of
        Some (Tree_File b) \<Rightarrow> Inr (content_token L b)
      | Some Tree_Dir \<Rightarrow> Inl (FileSystem not_regular_message)
      | None \<Rightarrow> if below_file t p then Inl (FileSystem ''Not a directory (os error 20)'') else Inr Missing)"

text \<open>\<open>publish\<close> over a target that is still missing, as nobody else acts in between.\<close>

definition put_file :: "string \<Rightarrow> string \<Rightarrow> local_tree \<Rightarrow> tree_result" where
  "put_file p b t =
     (if parent_is_dir t (path_components p) then Inr (AList.update (path_components p) (Tree_File b) t)
      else Inl ''No such file or directory (os error 2)'')"

definition local_file_appeared :: "string \<Rightarrow> core_error" where
  "local_file_appeared p = Conflict (''A local file appeared at '' @ p @ ''. Preserve it before retrying recovery.'')"

text \<open>\<open>fetch\<close> is the download of a key into a staged file.\<close>

definition restore_content ::
    "libs \<Rightarrow> (string \<Rightarrow> ('z sync_host_scheme, core_error, string) io) \<Rightarrow> content_ref \<Rightarrow> string
      \<Rightarrow> ('z sync_host_scheme, core_error, unit) io" where
  "restore_content L fetch content target =
     io_bind (io_bind (ask_tree (capture_tree L target)) io_result) (\<lambda>token. case token of
         Hash h \<Rightarrow> if h \<noteq> cr_hash content then io_throw (local_file_appeared target) else io_return ()
       | Missing \<Rightarrow>
           io_bind (fetch (cr_storage_key content)) (\<lambda>data.
             if blob_hash L data \<noteq> cr_hash content \<or> of_nat (length data) \<noteq> cr_size content
             then io_throw (Protocol ''Restored file failed its integrity check'')
             else tree_call [] (put_file target data)))"

definition parent_text :: "string \<Rightarrow> string" where
  "parent_text relative = str_join ''/'' (butlast (normal_names (path_components relative)))"

definition restore_node ::
    "libs \<Rightarrow> (string \<Rightarrow> ('z sync_host_scheme, core_error, string) io) \<Rightarrow> string \<Rightarrow> file_entry \<Rightarrow> string \<Rightarrow> string
      \<Rightarrow> ('z sync_host_scheme, core_error, bool) io" where
  "restore_node L fetch root x relative target =
     (case fe_entry_type x of
        Folder \<Rightarrow> io_bind (create_directory root relative) (\<lambda>_. io_return True)
      | File \<Rightarrow>
          io_bind (if parent_text relative = [] then io_return () else create_directory root (parent_text relative)) (\<lambda>_.
            case fe_content_ref x of
              None \<Rightarrow> io_throw (Protocol ''Server file has no saved content'')
            | Some content \<Rightarrow> io_bind (restore_content L fetch content target) (\<lambda>_. io_return True))
      | Symlink \<Rightarrow> io_return False)"

definition restore_entry ::
    "libs \<Rightarrow> sync_env \<Rightarrow> (string \<Rightarrow> ('z sync_host_scheme, core_error, string) io) \<Rightarrow> folder_recovery
      \<Rightarrow> file_entry list \<Rightarrow> file_entry \<Rightarrow> ('z sync_host_scheme, core_error, unit) io" where
  "restore_entry L E fetch r all x =
     io_bind (io_result (remote_path x all)) (\<lambda>relative. case relative of
         None \<Rightarrow> io_return ()
       | Some relative \<Rightarrow>
           if \<not> in_scope relative r then io_return ()
           else
             io_bind (io_result (safe_join_sync_path (se_folder E) relative)) (\<lambda>target.
             io_bind (restore_node L fetch (se_folder E) x relative target) (\<lambda>restored.
               if \<not> restored then io_return ()
               else
                 io_bind (db_at E (\<lambda>at db. snd (cancel_active_transfers_for_file L at (fe_file_id x)
                   ''folder recovery replaced pending transfer'' db))) (\<lambda>_.
                 io_bind (ask_tree (se_probe E)) (\<lambda>probe.
                   db_call (register_file_at_path_with_state probe x target relative Synced))))))"

definition restore_data ::
    "libs \<Rightarrow> sync_env \<Rightarrow> (string \<Rightarrow> ('z sync_host_scheme, core_error, string) io) \<Rightarrow> folder_recovery
      \<Rightarrow> ('z sync_host_scheme, core_error, unit) io" where
  "restore_data L E fetch r =
     io_bind (remote_entries L) (\<lambda>all. io_fold (\<lambda>x _. restore_entry L E fetch r all x) all ())"

definition archive_notes_journal :: "libs \<Rightarrow> string \<Rightarrow> uuid \<Rightarrow> ('z sync_host_scheme, core_error, unit) io" where
  "archive_notes_journal L root i =
     (let key = ''folder-recovery/'' @ uuid_text L i @ ''/journal-archived'';
          state = path_push root ''.s4drive/notes-state'';
          archive = path_push root (''.s4drive/recovery-archive-'' @ uuid_text L i) in
      io_bind (ask_db (\<lambda>db. get_checkpoint key db \<noteq> None)) (\<lambda>archived.
        if archived then io_return ()
        else
          io_bind (ask_tree (\<lambda>t. \<not> path_exists t archive \<and> path_exists t state)) (\<lambda>move.
          io_bind (if move then tree_call [] (rename_path state archive) else io_return ()) (\<lambda>_.
            db_call (set_checkpoint key ''1'')))))"

definition first_error :: "('e + unit) list \<Rightarrow> 'e + unit" where
  "first_error rs = (case filter isl rs of [] \<Rightarrow> Inr () | r # _ \<Rightarrow> r)"

primrec check_empty_replacement :: "nat \<Rightarrow> local_tree \<Rightarrow> string \<Rightarrow> bool \<Rightarrow> string \<Rightarrow> unit core_result" where
  "check_empty_replacement 0 t root started p = Inr ()"
| "check_empty_replacement (Suc depth) t root started p =
     first_error (map (\<lambda>(name, ds, n).
         if started \<and> path_components p = path_components root \<and> name = ''.s4drive'' then
           (case is_directory_at (path_push p name) t of
              Inl e \<Rightarrow> Inl e | Inr there \<Rightarrow> if there then Inr () else Inl SymlinkNotAllowed)
         else case n of
             Tree_Dir \<Rightarrow> check_empty_replacement depth t root started (path_push p name)
           | Tree_File _ \<Rightarrow> Inl (Conflict ''New local files appeared. Preserve them before retrying deletion.''))
       (dir_entries t (path_components p)))"

section \<open>The decision\<close>

definition check_decision ::
    "string \<Rightarrow> uuid \<Rightarrow> recovery_decision \<Rightarrow> folder_recovery \<Rightarrow> ('z sync_host_scheme, core_error, unit) io" where
  "check_decision root i decision r =
     (if fr_id r \<noteq> i then io_throw WorkspaceChanged
      else if (case fr_decision r of Some chosen \<Rightarrow> chosen \<noteq> decision | None \<Rightarrow> False)
      then io_throw (Conflict ''Recovery already started. Retry the original action.'')
      else if decision = Decide_Delete then
        io_bind (check_directory (fr_path r)) (\<lambda>there.
          if there
          then io_bind (ask_tree (\<lambda>t. check_empty_replacement (length t) t root (fr_decision r \<noteq> None) (fr_path r))) io_result
          else io_return ())
      else io_return ())"

definition accept_root :: "libs \<Rightarrow> bool \<Rightarrow> file_id \<Rightarrow> ('z maintainer_scheme, core_error, unit) io" where
  "accept_root L gone i = db_call (notes_accept_recovered_root L i gone)"

text \<open>A conflict while deleting puts the question to the user again, under a new id.\<close>

definition run_delete ::
    "libs \<Rightarrow> sync_env \<Rightarrow> folder_recovery codec \<Rightarrow> recovery_receipt codec \<Rightarrow> folder_recovery
      \<Rightarrow> ('z sync_host_scheme, core_error, unit) io" where
  "run_delete L E C D r =
     io_try (delete_targets L D (se_device E) r) (\<lambda>outcome. case outcome of
         Inl e \<Rightarrow>
           if is_Conflict e then
             io_bind (new_uuid L) (\<lambda>i.
             io_bind (save_recovery L C (se_folder E) (r\<lparr>fr_id := i, fr_decision := None, fr_targets := None\<rparr>)) (\<lambda>_.
               io_throw (Conflict (''Server data changed. Some deletions may already be complete. ''
                 @ ''Review the folder and choose how to continue.''))))
           else io_throw e
       | Inr _ \<Rightarrow>
           io_bind (db_at E (\<lambda>at db. snd (mark_subtree_deleted L at (fr_path r) Deleted_Locally db))) (\<lambda>_.
             case fr_previous_notes_root r of None \<Rightarrow> io_return () | Some i \<Rightarrow> accept_root L True i))"

definition run_restore ::
    "libs \<Rightarrow> sync_env \<Rightarrow> (string \<Rightarrow> ('z sync_host_scheme, core_error, string) io) \<Rightarrow> folder_recovery
      \<Rightarrow> ('z sync_host_scheme, core_error, unit) io" where
  "run_restore L E fetch r =
     io_bind (db_at E (\<lambda>at db. snd (mark_subtree_deleted L at (fr_path r) Deleted_Remotely db))) (\<lambda>_.
     io_bind (restore_data L E fetch r) (\<lambda>_.
     io_bind (case fr_previous_notes_root r of
         None \<Rightarrow> io_return ()
       | Some i \<Rightarrow>
           io_bind (ask_db (\<lambda>db. get_object_state i db \<in> {Some Deleted_Locally, Some Deleted_Remotely})) (\<lambda>retired.
             accept_root L retired i)) (\<lambda>_.
     io_bind (ask_db (folder_at ''Notes'')) (\<lambda>notes. case notes of
         None \<Rightarrow> io_return ()
       | Some f \<Rightarrow> accept_root L False (if_file_id f)))))"

text \<open>Storing the decision, with what it deletes.\<close>

definition decide ::
    "libs \<Rightarrow> sync_env \<Rightarrow> folder_recovery codec \<Rightarrow> recovery_decision \<Rightarrow> folder_recovery
      \<Rightarrow> ('z sync_host_scheme, core_error, folder_recovery) io" where
  "decide L E C decision r =
     io_bind (if fr_decision r = None
         then io_bind (ask_db (\<lambda>db. map_option if_file_id (folder_at ''Notes'' db))) (\<lambda>notes.
           io_return (r\<lparr>fr_previous_notes_root := notes\<rparr>))
         else io_return r) (\<lambda>r.
     io_bind (io_return (r\<lparr>fr_decision := Some decision\<rparr>)) (\<lambda>r.
     io_bind (save_recovery L C (se_folder E) r) (\<lambda>_.
       if decision = Decide_Delete \<and> fr_targets r = None then
         io_bind (prepare_delete L r) (\<lambda>targets.
         io_bind (save_recovery L C (se_folder E) (r\<lparr>fr_targets := Some targets\<rparr>)) (\<lambda>_.
           io_return (r\<lparr>fr_targets := Some targets\<rparr>)))
       else io_return r)))"

definition finish_recovery ::
    "libs \<Rightarrow> sync_env \<Rightarrow> folder_recovery codec \<Rightarrow> folder_recovery \<Rightarrow> ('z sync_host_scheme, core_error, unit) io" where
  "finish_recovery L E C r =
     io_bind (if fr_notes_root r \<noteq> None then create_directory (se_folder E) ''Notes'' else io_return ()) (\<lambda>_.
     io_bind (inspect L C (se_folder E)) (\<lambda>pending.
       if (case pending of None \<Rightarrow> True | Some q \<Rightarrow> fr_id q \<noteq> fr_id r) then io_throw WorkspaceChanged
       else
         io_bind (db_call (set_checkpoint (recovery_checkpoint L (se_folder E) ''seen'') ''1'')) (\<lambda>_.
           db_call (set_checkpoint (recovery_checkpoint L (se_folder E) ''pending'') []))))"

definition resolve_recovery ::
    "libs \<Rightarrow> engine_env \<Rightarrow> sync_env \<Rightarrow> folder_recovery codec \<Rightarrow> recovery_receipt codec
      \<Rightarrow> (string \<Rightarrow> ('z sync_host_scheme, core_error, string) io) \<Rightarrow> uuid \<Rightarrow> recovery_decision
      \<Rightarrow> ('z sync_host_scheme, core_error, unit) io" where
  "resolve_recovery L M E C D fetch i decision =
     io_bind (inspect L C (se_folder E)) (\<lambda>pending. case pending of
         None \<Rightarrow> io_throw (NotFound ''No folder recovery is pending'')
       | Some r \<Rightarrow>
           io_bind (check_decision (se_folder E) i decision r) (\<lambda>_.
           io_bind (upgrade_schema L M) (\<lambda>_.
           io_bind (decide L E C decision r) (\<lambda>r.
           io_bind (if decision = Decide_Delete then run_delete L E C D r else io_return ()) (\<lambda>_.
           io_bind (check_directory (se_folder E)) (\<lambda>there.
           io_bind (if there then io_return () else tree_call [] (create_dir_all (se_folder E))) (\<lambda>_.
           io_bind (archive_notes_journal L (se_folder E) (fr_id r)) (\<lambda>_.
           io_bind (if decision = Decide_Restore then run_restore L E fetch r else io_return ()) (\<lambda>_.
             finish_recovery L E C r)))))))))"

end
