(* ===== verification/Folder_Nodes.thy ===== *)
theory Folder_Nodes
  imports Folder_Recovery
begin

text \<open>
  The folders of the sync folder as entries of the bucket tree (\<open>sync/folders.rs\<close>): a local
  folder gets its node in the bucket (\<open>ensure_folder\<close>), and a folder of the bucket is
  created on disk, or moved there with everything inside (\<open>place_folder\<close>). The tree of
  \<open>Local_Tree\<close> has no links, so a path is its own canonical form.
\<close>

definition folder_id_generations :: nat where "folder_id_generations = 16"
definition max_folder_depth :: nat where "max_folder_depth = 256"
definition max_name_suffix :: nat where "max_name_suffix = 1000"

section \<open>From the local folders to the bucket\<close>

definition is_folder_at :: "file_entry \<Rightarrow> placement \<Rightarrow> bool" where
  "is_folder_at x p \<longleftrightarrow> fe_entry_type x = Folder \<and> placement_of x = p"

definition commit_folder ::
    "libs \<Rightarrow> sync_env \<Rightarrow> file_id \<Rightarrow> op_type \<Rightarrow> placement \<Rightarrow> ('z world_scheme, core_error, unit) io" where
  "commit_folder L E i ty p =
     commit_op L (se_device E) i ty (ty \<noteq> CreateFolder)
       \<lparr>ef_new_revision_id = None, ef_new_content_ref = None, ef_new_name = Some (pl_name p),
        ef_new_parent_id = pl_parent_id p, ef_deleted = False\<rparr>"

definition write_tree_entry :: "libs \<Rightarrow> file_id \<Rightarrow> placement \<Rightarrow> ('z world_scheme, core_error, unit) io" where
  "write_tree_entry L i p =
     io_bind utc_now (\<lambda>at.
     if_found (get_entry L i) (\<lambda>found.
       let x = (case found of Some x \<Rightarrow> x | None \<Rightarrow> folder_entry L i p (rfc3339_text L at)) in
       upsert_entry L ((apply_to L p x)\<lparr>fe_updated_at := rfc3339_text L at\<rparr>)))"

definition create_remote :: "libs \<Rightarrow> sync_env \<Rightarrow> file_id \<Rightarrow> placement \<Rightarrow> ('z world_scheme, core_error, unit) io" where
  "create_remote L E i p =
     io_bind (commit_folder L E i CreateFolder p) (\<lambda>_. write_tree_entry L i p)"

text \<open>Another device's operation on a deterministic id is taken for the same create.\<close>

definition try_claim :: "libs \<Rightarrow> sync_env \<Rightarrow> file_id \<Rightarrow> placement \<Rightarrow> ('z world_scheme, core_error, bool) io" where
  "try_claim L E i p =
     if_found (get_entry L i) (\<lambda>found. case found of
         Some x \<Rightarrow> io_return (is_folder_at x p)
       | None \<Rightarrow>
           if_found (get_tombstone L i) (\<lambda>deleted. case deleted of
               Some _ \<Rightarrow> io_return False
             | None \<Rightarrow>
                 io_try (create_remote L E i p) (\<lambda>r. case r of
                     Inr _ \<Rightarrow> io_return True
                   | Inl e \<Rightarrow>
                       if is_Conflict e then
                         if_found (get_entry L i) (\<lambda>found. case found of
                             Some x \<Rightarrow> io_return (is_folder_at x p)
                           | None \<Rightarrow> io_return True)
                       else io_throw e)))"

primrec claim_loop ::
    "libs \<Rightarrow> sync_env \<Rightarrow> placement \<Rightarrow> nat list \<Rightarrow> ('z world_scheme, core_error, file_id) io" where
  "claim_loop L E p [] =
     io_bind (new_uuid L) (\<lambda>i. io_bind (create_remote L E i p) (\<lambda>_. io_return i))"
| "claim_loop L E p (g # gs) =
     (let i = folder_node_id L (pl_parent_id p) (pl_name p) (of_nat g) in
      io_bind (try_claim L E i p) (\<lambda>mine. if mine then io_return i else claim_loop L E p gs))"

definition claim_folder_id :: "libs \<Rightarrow> sync_env \<Rightarrow> placement \<Rightarrow> ('z world_scheme, core_error, file_id) io" where
  "claim_folder_id L E p = claim_loop L E p [0..<folder_id_generations]"

definition another_location :: "libs \<Rightarrow> file_id \<Rightarrow> core_error" where
  "another_location L i = Conflict (''folder '' @ uuid_text L i @ '' is already committed at another location'')"

definition deleted_elsewhere :: "libs \<Rightarrow> file_id \<Rightarrow> core_error" where
  "deleted_elsewhere L i = Conflict (''folder '' @ uuid_text L i @ '' was deleted on another device'')"

definition folder_committed_concurrently :: "libs \<Rightarrow> file_id \<Rightarrow> core_error" where
  "folder_committed_concurrently L i = Conflict (''folder '' @ uuid_text L i @ '' was committed concurrently'')"

definition publish_folder_at ::
    "libs \<Rightarrow> sync_env \<Rightarrow> file_id \<Rightarrow> placement \<Rightarrow> ('z world_scheme, core_error, unit) io" where
  "publish_folder_at L E i p =
     if_found (get_entry L i) (\<lambda>found. case found of
         Some x \<Rightarrow> if is_folder_at x p then io_return () else io_throw (another_location L i)
       | None \<Rightarrow>
           if_found (get_tombstone L i) (\<lambda>deleted. case deleted of
               Some _ \<Rightarrow> io_throw (deleted_elsewhere L i)
             | None \<Rightarrow>
                 io_try (create_remote L E i p) (\<lambda>r. case r of
                     Inr _ \<Rightarrow> io_return ()
                   | Inl e \<Rightarrow>
                       if is_Conflict e then
                         if_found (get_entry L i) (\<lambda>found.
                           if (case found of Some x \<Rightarrow> is_folder_at x p | None \<Rightarrow> False) then io_return ()
                           else io_throw (folder_committed_concurrently L i))
                       else io_throw e)))"

text \<open>A folder of Notes may be reserved in the local database before it is in the bucket.\<close>

definition publish_reserved_folder ::
    "libs \<Rightarrow> sync_env \<Rightarrow> indexed_folder \<Rightarrow> placement \<Rightarrow> ('z maintainer_scheme, core_error, unit) io" where
  "publish_reserved_folder L E f p =
     io_bind (ask_db (get_object_state (if_file_id f))) (\<lambda>st.
       if st \<noteq> Some Pending_Upload then io_return ()
       else
         io_bind (publish_folder_at L E (if_file_id f) p) (\<lambda>_.
           db_call (mark_file_synced (if_file_id f))))"

definition sync_path :: "sync_env \<Rightarrow> string \<Rightarrow> string core_result" where
  "sync_path E p = safe_join_sync_path (se_folder E) p"

definition register_node ::
    "libs \<Rightarrow> sync_env \<Rightarrow> file_id \<Rightarrow> placement \<Rightarrow> string \<Rightarrow> ('z sync_host_scheme, core_error, unit) io" where
  "register_node L E i p path =
     io_bind (io_result (sync_path E path)) (\<lambda>local.
     io_modify (\<lambda>w. w\<lparr>mt_db := register_folder L (se_probe E (sh_tree w)) (rfc3339_text L (now w))
       \<lparr>if_file_id = i, if_parent_id = pl_parent_id p, if_local_path = local, if_remote_path = path\<rparr> (mt_db w)\<rparr>))"

primrec ensure_loop ::
    "libs \<Rightarrow> sync_env \<Rightarrow> string list \<Rightarrow> file_id option \<Rightarrow> string
      \<Rightarrow> ('z sync_host_scheme, core_error, file_id option) io" where
  "ensure_loop L E [] parent current = io_return parent"
| "ensure_loop L E (name # rest) parent current =
     (let path = join_path current name; p = \<lparr>pl_parent_id = parent, pl_name = name\<rparr> in
      io_bind (ask_db (folder_at path)) (\<lambda>known. case known of
          Some f \<Rightarrow>
            io_bind (publish_reserved_folder L E f p) (\<lambda>_. ensure_loop L E rest (Some (if_file_id f)) path)
        | None \<Rightarrow>
            io_bind (claim_folder_id L E p) (\<lambda>i.
            io_bind (register_node L E i p path) (\<lambda>_. ensure_loop L E rest (Some i) path))))"

definition ensure_folder ::
    "libs \<Rightarrow> sync_env \<Rightarrow> folder_recovery codec \<Rightarrow> string \<Rightarrow> ('z sync_host_scheme, core_error, file_id option) io" where
  "ensure_folder L E C path =
     io_bind (ensure_available L C (se_folder E)) (\<lambda>_.
       ensure_loop L E (filter (\<lambda>name. name \<noteq> []) (split_on (CHR ''/'') path)) None [])"

definition placement_for ::
    "libs \<Rightarrow> sync_env \<Rightarrow> folder_recovery codec \<Rightarrow> string \<Rightarrow> ('z sync_host_scheme, core_error, placement) io" where
  "placement_for L E C path =
     (case split_path path of (parent, name) \<Rightarrow>
        io_bind (ensure_folder L E C parent) (\<lambda>i. io_return \<lparr>pl_parent_id = i, pl_name = name\<rparr>))"

section \<open>From the bucket to the local folders\<close>

text \<open>A local folder that is not in the index does not stop a new folder: the two merge.\<close>

definition is_taken ::
    "sync_env \<Rightarrow> file_id \<Rightarrow> string \<Rightarrow> string option \<Rightarrow> local_index \<Rightarrow> local_tree \<Rightarrow> bool core_result" where
  "is_taken E i path current_local db t =
     (if (case live_entry_at path db of Some other \<Rightarrow> other \<noteq> i | None \<Rightarrow> False) then Inr True
      else case sync_path E path of
          Inl e \<Rightarrow> Inl e
        | Inr local \<Rightarrow>
            if \<not> path_exists t local then Inr False
            else Inr (case current_local of
                Some current \<Rightarrow> \<not> same_path (canonical_in t) current local
              | None \<Rightarrow> \<not> path_is_dir t local))"

definition taken_here ::
    "sync_env \<Rightarrow> file_id \<Rightarrow> string \<Rightarrow> string option \<Rightarrow> ('z sync_host_scheme, core_error, bool) io" where
  "taken_here E i path current_local =
     io_bind (io_get (\<lambda>w. is_taken E i path current_local (mt_db w) (sh_tree w))) io_result"

definition suffixed_name :: "string \<Rightarrow> string \<Rightarrow> string" where
  "suffixed_name name n = name @ '' ('' @ n @ '')''"

primrec free_name_loop ::
    "libs \<Rightarrow> sync_env \<Rightarrow> file_id \<Rightarrow> placement \<Rightarrow> string \<Rightarrow> string option \<Rightarrow> nat list
      \<Rightarrow> ('z sync_host_scheme, core_error, string) io" where
  "free_name_loop L E i p parent_path current_local [] = io_return (suffixed_name (pl_name p) (uuid_text L i))"
| "free_name_loop L E i p parent_path current_local (n # ns) =
     (let name = suffixed_name (pl_name p) (nat_str n) in
      io_bind (taken_here E i (join_path parent_path name) current_local) (\<lambda>occupied.
        if occupied then free_name_loop L E i p parent_path current_local ns else io_return name))"

definition free_name ::
    "libs \<Rightarrow> sync_env \<Rightarrow> file_id \<Rightarrow> placement \<Rightarrow> string \<Rightarrow> string option
      \<Rightarrow> ('z sync_host_scheme, core_error, string) io" where
  "free_name L E i p parent_path current_local =
     free_name_loop L E i p parent_path current_local [2..<max_name_suffix + 1]"

definition free_place ::
    "libs \<Rightarrow> sync_env \<Rightarrow> file_id \<Rightarrow> placement \<Rightarrow> string \<Rightarrow> string option
      \<Rightarrow> ('z sync_host_scheme, core_error, placement \<times> string) io" where
  "free_place L E i p parent_path current_local =
     (let path = join_path parent_path (pl_name p) in
      io_bind (taken_here E i path current_local) (\<lambda>occupied.
        if \<not> occupied then io_return (p, path)
        else
          io_bind (free_name L E i p parent_path current_local) (\<lambda>name.
            let renamed = \<lparr>pl_parent_id = pl_parent_id p, pl_name = name\<rparr> in
            io_try (commit_folder L E i Rename renamed) (\<lambda>r.
              io_bind (case r of
                  Inr _ \<Rightarrow> write_tree_entry L i renamed
                | Inl e \<Rightarrow> if is_Conflict e then io_return () else io_throw e) (\<lambda>_.
                io_return (renamed, join_path parent_path name))))))"

text \<open>How the parent of a joined path is displayed.\<close>

definition parent_display :: "string \<Rightarrow> string" where
  "parent_display p =
     (let q = take (length p - length (option_default [] (path_file_name p)) - 1) p
      in if q = [] \<and> starts_with p ''/'' then ''/'' else q)"

definition move_local_folder :: "string \<Rightarrow> string \<Rightarrow> ('z sync_host_scheme, core_error, unit) io" where
  "move_local_folder src dst =
     io_bind (ask_tree (\<lambda>t. path_exists t src)) (\<lambda>there.
       if \<not> there then tree_call (''create folder '' @ dst @ '': '') (create_dir_all dst)
       else
         io_bind (case path_parent dst of
             Some cs \<Rightarrow> tree_call (''create folder '' @ parent_display dst @ '': '')
               (make_dirs cs)
           | None \<Rightarrow> io_return ()) (\<lambda>_.
           tree_call (''move folder '' @ src @ '' -> '' @ dst @ '': '') (rename_path src dst)))"

text \<open>A remote move that would close a cycle is skipped, and its tree entry goes back.\<close>

definition keep_out_of_cycle :: "libs \<Rightarrow> indexed_folder \<Rightarrow> ('z world_scheme, core_error, string) io" where
  "keep_out_of_cycle L f =
     io_bind (write_tree_entry L (if_file_id f)
         \<lparr>pl_parent_id = if_parent_id f, pl_name = snd (split_path (if_remote_path f))\<rparr>) (\<lambda>_.
       io_return (if_remote_path f))"

definition place_at_free ::
    "libs \<Rightarrow> sync_env \<Rightarrow> folder_recovery codec \<Rightarrow> file_id \<Rightarrow> placement \<Rightarrow> string \<Rightarrow> indexed_folder option
      \<Rightarrow> ('z sync_host_scheme, core_error, string) io" where
  "place_at_free L E C i p parent_path known =
     io_bind (free_place L E i p parent_path (map_option if_local_path known)) (\<lambda>(p, path).
     io_bind (io_result (sync_path E path)) (\<lambda>target.
     io_bind (ensure_available L C (se_folder E)) (\<lambda>_.
     io_bind (case known of
         Some f \<Rightarrow>
           io_bind (move_local_folder (if_local_path f) target) (\<lambda>_.
           io_bind (db_at E (\<lambda>at. move_subtree at (if_local_path f) target (if_remote_path f) path)) (\<lambda>_.
             db_call (set_parent i (pl_parent_id p))))
       | None \<Rightarrow>
           io_bind (tree_call (''create folder '' @ target @ '': '') (create_dir_all target)) (\<lambda>_.
             register_node L E i p path)) (\<lambda>_.
       io_return path))))"

text \<open>A folder that is already there; what goes wrong in making it again is ignored.\<close>

definition stay_in_place ::
    "file_id \<Rightarrow> file_id option \<Rightarrow> indexed_folder \<Rightarrow> ('z sync_host_scheme, core_error, string) io" where
  "stay_in_place i parent f =
     io_bind (ask_tree (\<lambda>t. path_exists t (if_local_path f))) (\<lambda>there.
     io_bind (if there then io_return ()
         else io_bind (ignore_result (tree_call [] (create_dir_all (if_local_path f)))) (\<lambda>_.
           db_call (mark_file_synced i))) (\<lambda>_.
     io_bind (db_call (set_parent i parent)) (\<lambda>_.
       io_return (if_remote_path f))))"

definition place_folder ::
    "libs \<Rightarrow> sync_env \<Rightarrow> folder_recovery codec \<Rightarrow> file_id \<Rightarrow> placement \<Rightarrow> string
      \<Rightarrow> ('z sync_host_scheme, core_error, string) io" where
  "place_folder L E C i p parent_path =
     io_bind (ensure_available L C (se_folder E)) (\<lambda>_.
     io_bind (ask_db (folder_by_id i)) (\<lambda>known.
       case known of
         None \<Rightarrow> place_at_free L E C i p parent_path known
       | Some f \<Rightarrow>
           if if_remote_path f = join_path parent_path (pl_name p) then stay_in_place i (pl_parent_id p) f
           else if is_inside parent_path (if_remote_path f) then keep_out_of_cycle L f
           else place_at_free L E C i p parent_path known))"

text \<open>\<open>Some None\<close>: the folder is deleted; \<open>None\<close>: this device does not know it.\<close>

definition known_path :: "libs \<Rightarrow> file_id \<Rightarrow> ('z maintainer_scheme, core_error, string option option) io" where
  "known_path L i =
     io_bind (is_remotely_deleted L i) (\<lambda>gone.
       if gone then io_return (Some None)
       else io_bind (ask_db (folder_by_id i)) (\<lambda>f. io_return (map_option (\<lambda>f. Some (if_remote_path f)) f)))"

text \<open>
  The loop of \<open>folder_path\<close> with the number of folders it may still collect: the path it
  ends at, and the folders this device does not know, the innermost first.
\<close>

primrec unknown_loop ::
    "libs \<Rightarrow> nat \<Rightarrow> file_id option \<Rightarrow> (file_id \<times> placement) list
      \<Rightarrow> ('z maintainer_scheme, core_error, (string \<times> (file_id \<times> placement) list) option) io" where
  "unknown_loop L 0 cursor unknown =
     (case cursor of
        None \<Rightarrow> io_return (Some ([], unknown))
      | Some i \<Rightarrow>
          io_bind (known_path L i) (\<lambda>known. case known of
              Some p \<Rightarrow> io_return (map_option (\<lambda>p. (p, unknown)) p)
            | None \<Rightarrow> io_return None))"
| "unknown_loop L (Suc n) cursor unknown =
     (case cursor of
        None \<Rightarrow> io_return (Some ([], unknown))
      | Some i \<Rightarrow>
          io_bind (known_path L i) (\<lambda>known. case known of
              Some p \<Rightarrow> io_return (map_option (\<lambda>p. (p, unknown)) p)
            | None \<Rightarrow>
                if i \<in> fst ` set unknown then io_return None
                else
                  if_found (get_entry L i) (\<lambda>found. case found of
                      Some x \<Rightarrow>
                        if fe_entry_type x = Folder \<and> fe_deleted_at x = None
                        then unknown_loop L n (fe_parent_id x) (unknown @ [(i, placement_of x)])
                        else io_return None
                    | None \<Rightarrow> io_return None)))"

definition folder_path ::
    "libs \<Rightarrow> sync_env \<Rightarrow> folder_recovery codec \<Rightarrow> file_id \<Rightarrow> ('z sync_host_scheme, core_error, string option) io" where
  "folder_path L E C i =
     io_bind (unknown_loop L max_folder_depth (Some i) []) (\<lambda>r. case r of
         None \<Rightarrow> io_return None
       | Some (path, unknown) \<Rightarrow>
           io_bind (io_fold (\<lambda>(i, p) path. place_folder L E C i p path) (rev unknown) path) (\<lambda>path.
             io_return (Some path)))"

definition parent_path ::
    "libs \<Rightarrow> sync_env \<Rightarrow> folder_recovery codec \<Rightarrow> file_id option \<Rightarrow> ('z sync_host_scheme, core_error, string option) io" where
  "parent_path L E C parent =
     (case parent of None \<Rightarrow> io_return (Some []) | Some i \<Rightarrow> folder_path L E C i)"

definition resolve ::
    "libs \<Rightarrow> sync_env \<Rightarrow> folder_recovery codec \<Rightarrow> placement \<Rightarrow> ('z sync_host_scheme, core_error, string option) io" where
  "resolve L E C p =
     io_bind (parent_path L E C (pl_parent_id p)) (\<lambda>path.
       io_return (map_option (\<lambda>parent. join_path parent (pl_name p)) path))"

end
