(* ===== verification/Host_Facts.thy ===== *)
theory Host_Facts
  imports Folder_Nodes
begin

text \<open>
  What the handlers of a device leave alone: \<open>leaves f\<close> for a part of its state that an
  action does not touch, \<open>spares\<close> for an action that keeps the local tree well-formed and
  loses no file in it.
\<close>

section \<open>Parts of the state that stay\<close>

text \<open>A part that requests to the bucket, the clock and the random numbers do not change.\<close>

definition host_view :: "('z world_scheme \<Rightarrow> 'b) \<Rightarrow> bool" where
  "host_view f \<longleftrightarrow> (\<forall>w m evs t n. f (w\<lparr>objects := m, events := evs, now := t, draws := n\<rparr>) = f w)"

lemma leaves_if_found [leaves_intros]:
  "leaves f m \<Longrightarrow> (\<And>x. leaves f (k x)) \<Longrightarrow> leaves f (if_found m k)"
  unfolding if_found_def by (intro leaves_intros)

lemma host_viewD:
  assumes "host_view f"
  shows "f (w\<lparr>objects := m, events := evs, now := t\<rparr>) = f w" "f (w\<lparr>objects := m\<rparr>) = f w" "f (w\<lparr>draws := n\<rparr>) = f w"
proof -
  note all = assms [unfolded host_view_def, rule_format]
  show "f (w\<lparr>objects := m, events := evs, now := t\<rparr>) = f w"
    using all [where w = w and m = m and evs = evs and t = t and n = "draws w"] by (cases w) simp
  show "f (w\<lparr>objects := m\<rparr>) = f w"
    using all [where w = w and m = m and evs = "events w" and t = "now w" and n = "draws w"] by (cases w) simp
  show "f (w\<lparr>draws := n\<rparr>) = f w"
    using all [where w = w and m = "objects w" and evs = "events w" and t = "now w" and n = n] by (cases w) simp
qed

lemma leaves_serve: "host_view f \<Longrightarrow> leaves f (serve g)"
  by (auto simp: leaves_iff serve_def host_viewD split: list.splits prod.splits)

lemma leaves_bucket [leaves_intros]:
  assumes "host_view f"
  shows "leaves f (put_object L k b)" "leaves f (put_if_not_exists L k b)" "leaves f (put_if_match L k b e)"
    "leaves f (get_object k)" "leaves f (head_object k)" "leaves f (delete_object k)" "leaves f (list_objects p)"
    "leaves f (delete_if_match k e)" "leaves f utc_now" "leaves f (read_json L c up jp k)" "leaves f (new_uuid L)"
    "leaves f (with_log d clock m)"
proof -
  show "leaves f (new_uuid L)" "leaves f (with_log d clock m)"
    using assms by (auto simp: leaves_iff new_uuid_def with_log_def host_viewD assms [unfolded host_view_def]
      split: prod.splits)
qed (unfold request_defs utc_now_def read_json_def, (intro leaves_intros leaves_serve assms)+)

text \<open>Records of the bucket.\<close>

lemma leaves_entries [leaves_intros]:
  assumes f: "host_view f"
  shows "leaves f (get_entry L i)" "leaves f (get_entry_version L i)" "leaves f (upsert_entry L x)"
    "leaves f (put_entry_if L x v)" "leaves f (list_entries L)" "leaves f (get_tombstone L i)"
    "leaves f (create_tombstone L i p name by refs days)"
proof -
  show entry: "leaves f (get_entry L i)" unfolding get_entry_def by (intro leaves_intros f)
  have "leaves f (entry_version_loop L i n)" for n
    by (induction n) (simp_all, (intro leaves_intros f entry | assumption)+)
  then show "leaves f (get_entry_version L i)" by (simp add: get_entry_version_def)
  show tomb: "leaves f (get_tombstone L i)" unfolding get_tombstone_def by (intro leaves_intros f)
  show "leaves f (create_tombstone L i p name by refs days)"
    unfolding create_tombstone_def by (intro leaves_intros f tomb)
  show "leaves f (upsert_entry L x)" "leaves f (put_entry_if L x v)" "leaves f (list_entries L)"
    unfolding upsert_entry_def put_entry_if_def list_entries_def by (intro leaves_intros f)+
qed

lemma leaves_commits [leaves_intros]:
  assumes f: "host_view f"
  shows "leaves f (commit_op L d i ty ex eff)" "leaves f (is_remotely_deleted L i)" "leaves f (remote_entries L)"
    "leaves f (conditional_delete_supported L)" "leaves f (upgrade_schema L M)"
proof -
  show "leaves f (commit_op L d i ty ex eff)" unfolding commit_op_def by (intro leaves_intros f)
  show deleted: "leaves f (is_remotely_deleted L i)" for i unfolding is_remotely_deleted_def by (intro leaves_intros f)
  show "leaves f (remote_entries L)" unfolding remote_entries_def by (intro leaves_intros f deleted)
  show "leaves f (conditional_delete_supported L)"
    unfolding conditional_delete_supported_def probe_delete_def by (intro leaves_intros f)
  show "leaves f (upgrade_schema L M)"
    unfolding upgrade_schema_def read_descriptor_def write_migration_marker_def by (intro leaves_intros f)
qed

text \<open>The local database: a part of the state that some changes of it leave alone.\<close>

lemma leaves_ask [leaves_intros]: "leaves f (ask_db g)" "leaves f (ask_tree h)"
  by (simp_all add: ask_db_def ask_tree_def leaves_basic)

lemma leaves_db_call: "(\<And>w. f (w\<lparr>mt_db := g (mt_db w)\<rparr>) = f w) \<Longrightarrow> leaves f (db_call g)"
  by (simp add: leaves_iff db_call_def io_simps)

lemma leaves_db_at: "(\<And>w at. f (w\<lparr>mt_db := g at (mt_db w)\<rparr>) = f w) \<Longrightarrow> leaves f (db_at E g)"
  by (simp add: leaves_iff db_at_def io_simps)

text \<open>A part that checkpoints are not in.\<close>

definition checkpoint_blind :: "('z maintainer_scheme \<Rightarrow> 'b) \<Rightarrow> bool" where
  "checkpoint_blind f \<longleftrightarrow> host_view f \<and> (\<forall>w c. f (w\<lparr>mt_db := (mt_db w)\<lparr>checkpoints := c\<rparr>\<rparr>) = f w)"

lemma checkpoint_blindD:
  assumes "checkpoint_blind f"
  shows "host_view f" "f (w\<lparr>mt_db := set_checkpoint k v (mt_db w)\<rparr>) = f w"
    "f (w\<lparr>mt_db := snd (replace_checkpoint k old v (mt_db w))\<rparr>) = f w"
proof -
  show "host_view f" using assms by (simp add: checkpoint_blind_def)
  show set: "f (w\<lparr>mt_db := set_checkpoint k v (mt_db w)\<rparr>) = f w" for v
    using assms by (simp add: checkpoint_blind_def set_checkpoint_def)
  have "w\<lparr>mt_db := mt_db w\<rparr> = w" by simp
  then show "f (w\<lparr>mt_db := snd (replace_checkpoint k old v (mt_db w))\<rparr>) = f w"
    by (auto simp: replace_checkpoint_def set split: option.split)
qed

lemma leaves_store_new:
  assumes f: "checkpoint_blind f"
  shows "leaves f (store_new L C root expected r)"
proof (cases "encode C r")
  case (Inr json)
  let ?k = "recovery_checkpoint L root ''pending''"
  have "f (snd (store_new L C root expected r w)) = f (w\<lparr>mt_db := snd (replace_checkpoint ?k expected json (mt_db w))\<rparr>)" for w
    by (simp add: store_new_def Inr io_simps ask_db_def db_call_def split: prod.split)
  then show ?thesis unfolding leaves_iff checkpoint_blindD(3) [OF f] by blast
qed (simp add: store_new_def leaves_basic)

lemma leaves_inspect [leaves_intros]:
  assumes f: "checkpoint_blind f"
  shows "leaves f (inspect L C root)" "leaves f (ensure_available L C root)"
proof -
  note fs = checkpoint_blindD [OF f]
  have dir: "leaves f (check_directory p)" for p unfolding check_directory_def by (intro leaves_intros)
  have set: "leaves f (db_call (set_checkpoint k v))" for k v by (rule leaves_db_call) (rule fs(2))
  have old: "leaves f (inspect_saved L C root old)" for old
    unfolding inspect_saved_def by (intro leaves_intros dir leaves_store_new f fs(1))
  have missing: "leaves f (missing_part L root ex known notes_folder)" for ex known notes_folder
    unfolding missing_part_def by (intro leaves_intros)
  have "leaves f (try_inspect L C root)"
    unfolding try_inspect_def by (intro leaves_intros dir set old missing leaves_store_new f fs(1))
  then show ins: "leaves f (inspect L C root)"
    unfolding inspect_def One_nat_def inspect_loop.simps by (intro leaves_intros)
  show "leaves f (ensure_available L C root)"
    unfolding ensure_available_def by (intro leaves_intros ins)
qed

section \<open>Actions that lose no local file\<close>

definition spares :: "('z sync_host_scheme, 'e, 'a) io \<Rightarrow> bool" where
  "spares m \<longleftrightarrow> (\<forall>w. tree_ok (sh_tree w) \<longrightarrow>
     tree_ok (sh_tree (snd (m w))) \<and> keeps_files (sh_tree w) (sh_tree (snd (m w))))"

named_theorems spares_intros \<open>actions that lose no file of the local tree\<close>

lemma sparesD:
  "spares m \<Longrightarrow> tree_ok (sh_tree w) \<Longrightarrow> m w = (r, w') \<Longrightarrow> tree_ok (sh_tree w') \<and> keeps_files (sh_tree w) (sh_tree w')"
  by (metis snd_conv spares_def)

lemma sparesI:
  "(\<And>w r w'. tree_ok (sh_tree w) \<Longrightarrow> m w = (r, w') \<Longrightarrow> tree_ok (sh_tree w') \<and> keeps_files (sh_tree w) (sh_tree w'))
   \<Longrightarrow> spares m"
  by (metis prod.collapse spares_def)

lemma leaves_spares: "leaves sh_tree m \<Longrightarrow> spares m"
  by (simp add: leaves_iff spares_def)

lemma spares_try [spares_intros]:
  assumes "spares m" "\<And>x. spares (k x)"
  shows "spares (io_try m k)"
proof (rule sparesI)
  fix w r w'
  assume ok: "tree_ok (sh_tree w)" and run: "io_try m k w = (r, w')"
  obtain q u where u: "m w = (q, u)" "k q u = (r, w')" using io_tryD [OF run] by blast
  show "tree_ok (sh_tree w') \<and> keeps_files (sh_tree w) (sh_tree w')"
    using sparesD [OF assms(1) ok u(1)] sparesD [OF assms(2) _ u(2)] keeps_files_trans by blast
qed

lemma spares_bind [spares_intros]:
  assumes "spares m" "\<And>x. spares (k x)"
  shows "spares (io_bind m k)"
proof (rule sparesI)
  fix w r w'
  assume ok: "tree_ok (sh_tree w)" and run: "io_bind m k w = (r, w')"
  then consider e where "m w = (Inl e, w')" | x u where "m w = (Inr x, u)" "k x u = (r, w')"
    using io_bindD [OF run] by blast
  then show "tree_ok (sh_tree w') \<and> keeps_files (sh_tree w) (sh_tree w')"
    by cases (use sparesD [OF assms(1) ok] sparesD [OF assms(2)] keeps_files_trans in blast)+
qed

lemma spares_cases [spares_intros]:
  "(c \<Longrightarrow> spares m) \<Longrightarrow> (\<not> c \<Longrightarrow> spares m') \<Longrightarrow> spares (if c then m else m')"
  "(x = None \<Longrightarrow> spares n) \<Longrightarrow> (\<And>y. x = Some y \<Longrightarrow> spares (s y)) \<Longrightarrow> spares (case x of None \<Rightarrow> n | Some y \<Rightarrow> s y)"
  "(\<And>e. q = Inl e \<Longrightarrow> spares (g e)) \<Longrightarrow> (\<And>y. q = Inr y \<Longrightarrow> spares (h y)) \<Longrightarrow>
     spares (case q of Inl e \<Rightarrow> g e | Inr y \<Rightarrow> h y)"
  "(\<And>a b. p = (a, b) \<Longrightarrow> spares (l a b)) \<Longrightarrow> spares (case p of (a, b) \<Rightarrow> l a b)"
  by (auto split: option.splits sum.splits prod.splits)

lemma spares_let [spares_intros]: "spares (k x) \<Longrightarrow> spares (let y = x in k y)"
  by simp

lemma spares_fold [spares_intros]: "(\<And>x a. spares (g x a)) \<Longrightarrow> spares (io_fold g xs a)"
proof (induction xs arbitrary: a)
  case Nil
  show ?case unfolding io_fold.simps by (rule leaves_spares) (rule leaves_basic)
next
  case (Cons x xs)
  show ?case unfolding io_fold.simps by (intro spares_bind Cons.IH Cons.prems)
qed

lemma tree_views [simp, leaves_intros]: "host_view sh_tree" "checkpoint_blind sh_tree"
  by (simp_all add: host_view_def checkpoint_blind_def)

lemma leaves_tree_db [leaves_intros]:
  "leaves sh_tree (db_call g)" "leaves sh_tree (db_at E h)" "leaves sh_tree (with_durable d clock m)"
  by (auto simp: with_durable_def leaves_iff db_call_def db_at_def io_simps split: prod.split)

lemma spares_tree_call:
  assumes "\<And>t t'. tree_ok t \<Longrightarrow> f t = Inr t' \<Longrightarrow> tree_ok t' \<and> keeps_files t t'"
  shows "spares (tree_call words f)"
  using assms by (intro sparesI) (erule tree_call_keeps, assumption, blast)

lemma add_node_ok:
  assumes "tree_ok t" "map_of t cs = None" "parent_is_dir t cs"
  shows "tree_ok (AList.update cs n t) \<and> keeps_files t (AList.update cs n t)"
proof
  have nodes: "map_of (AList.update cs n t) = (map_of t)(cs \<mapsto> n)" by (simp add: AList.update_conv')
  have cs: "cs \<noteq> []" using assms(1,3) tree_ok_nonempty by (force simp: parent_is_dir_def)
  have over: "map_of t ds = Some Tree_Dir" if ds: "strict_prefix ds cs" "ds \<noteq> []" for ds
  proof (cases "ds = butlast cs")
    case False
    then have "strict_prefix ds (butlast cs)"
      using ds(1) cs by (metis append_butlast_last_id prefix_order.less_le prefix_snoc)
    then show ?thesis using tree_okD [OF assms(1), of "butlast cs" ds] assms(3) ds(2) by (simp add: parent_is_dir_def)
  qed (use assms(3) in \<open>simp add: parent_is_dir_def\<close>)
  have "map_of t ds \<noteq> Some Tree_Dir \<Longrightarrow> ds \<noteq> [] \<Longrightarrow> strict_prefix ds es \<Longrightarrow> map_of t es = None" for ds es
    using tree_okD [OF assms(1), of es ds] by blast
  moreover have "\<not> strict_prefix cs es" if "map_of t es \<noteq> None" for es
    using tree_okD [OF assms(1) that, of cs] assms(2) cs by auto
  ultimately show "tree_ok (AList.update cs n t)"
    using assms(1) over cs unfolding tree_ok_alt nodes by (auto intro: AList.distinct_update split: if_splits)
  show "keeps_files t (AList.update cs n t)"
    using assms(2) by (intro keeps_files_same) (auto simp: nodes)
qed

lemma spares_directories [spares_intros]:
  "spares (tree_call words (create_dir_all p))" "spares (tree_call words (make_dirs cs))"
  "spares (tree_call words (create_dir p))"
proof -
  show "spares (tree_call words (make_dirs cs))" for cs
    by (rule spares_tree_call) (blast intro: make_dirs_ok make_dirs_keeps)
  then show "spares (tree_call words (create_dir_all p))" by (simp add: create_dir_all_def)
  show "spares (tree_call words (create_dir p))"
    by (rule spares_tree_call) (auto simp: create_dir_def Let_def add_node_ok split: if_splits)
qed

text \<open>A rename onto a place where no file is.\<close>

lemma rename_spares:
  assumes "tree_ok t" "rename_nodes p q t = Inr t'" "is_file_node (map_of t q) \<Longrightarrow> \<not> is_file_node (map_of t p)"
  shows "tree_ok t' \<and> keeps_files t t'"
proof -
  have q: "q \<noteq> []"
    using assms(1,2) tree_ok_nonempty by (auto simp: rename_nodes_def parent_is_dir_def split: if_splits)
  have "p = q \<or> \<not> is_file_node (map_of t q)"
    using assms(2) by (cases rule: rename_nodes_cases) (use assms(3) in auto)
  then show ?thesis using rename_nodes_ok [OF assms(1,2) q] rename_nodes_keeps [OF assms(1,2) q] by blast
qed

end
