(* ===== verification/Folder_Facts.thy ===== *)
theory Folder_Facts
  imports Host_Facts
begin

text \<open>
  What happens to the local folder when folders of the bucket are placed in it and when a
  missing folder is restored or given up: the tree stays well-formed and no file in it is
  lost, whatever other devices and the network do meanwhile.
\<close>

section \<open>Placing a folder\<close>

lemma leaves_taken [leaves_intros]: "leaves f (taken_here E i path current)"
  unfolding taken_here_def by (intro leaves_intros)

lemma leaves_free_place:
  assumes f: "host_view f"
  shows "leaves f (free_place L E i p inside current)" "leaves f (write_tree_entry L i p)"
    "leaves f (keep_out_of_cycle L d)"
proof -
  have entry: "leaves f (write_tree_entry L i p)" for i p unfolding write_tree_entry_def by (intro leaves_intros f)
  have commit: "leaves f (commit_folder L E i ty p)" for i ty p unfolding commit_folder_def by (intro leaves_intros f)
  have "leaves f (free_name_loop L E i p inside current ns)" for ns
    by (induction ns) (simp_all, (intro leaves_intros | assumption)+)
  then have name: "leaves f (free_name L E i p inside current)" by (simp add: free_name_def)
  show "leaves f (free_place L E i p inside current)"
    unfolding free_place_def by (intro leaves_intros name entry commit)
  show "leaves f (write_tree_entry L i p)" by (rule entry)
  show "leaves f (keep_out_of_cycle L d)" unfolding keep_out_of_cycle_def by (intro leaves_intros entry)
qed

lemma leaves_register [leaves_intros]: "leaves sh_tree (register_node L E i p path)"
  unfolding register_node_def by (intro leaves_intros) (simp add: leaves_iff io_simps)

lemma move_local_folder_spares:
  fixes w :: "'z sync_host_scheme"
  assumes ok: "tree_ok (sh_tree w)" and dir: "\<not> is_file_node (node_at (sh_tree w) src)"
    and run: "move_local_folder src dst w = (r, w')"
  shows "tree_ok (sh_tree w') \<and> keeps_files (sh_tree w) (sh_tree w')"
proof (cases "path_exists (sh_tree w) src")
  case False
  then have "tree_call (''create folder '' @ dst @ '': '') (create_dir_all dst) w = (r, w')"
    using run by (simp add: move_local_folder_def io_simps ask_tree_def)
  then show ?thesis by (rule sparesD [OF spares_directories(1) ok])
next
  case True
  define cs where "cs = option_default [] (path_parent dst)"
  have src: "node_at (sh_tree w) src = Some Tree_Dir"
    using True dir by (cases "the (node_at (sh_tree w) src)") (auto simp: path_exists_def is_file_node_def)
  define pre :: "('z sync_host_scheme, core_error, unit) io" where "pre = (case path_parent dst of
      Some cs \<Rightarrow> tree_call (''create folder '' @ parent_display dst @ '': '') (make_dirs cs) | None \<Rightarrow> io_return ())"
  have pre: "io_bind pre (\<lambda>_. tree_call (''move folder '' @ src @ '' -> '' @ dst @ '': '') (rename_path src dst)) w = (r, w')"
    using run True by (simp add: move_local_folder_def pre_def io_bind_apply ask_tree_def io_get_apply)
  have spares: "spares pre"
    unfolding pre_def by (intro spares_intros leaves_spares leaves_intros)
  from io_bindD [OF pre] consider e where "pre w = (Inl e, w')"
    | u where "pre w = (Inr (), u)" "tree_call (''move folder '' @ src @ '' -> '' @ dst @ '': '') (rename_path src dst) u = (r, w')"
    by auto
  then show ?thesis
  proof cases
    case 2
    have u: "tree_ok (sh_tree u)" "keeps_files (sh_tree w) (sh_tree u)" using sparesD [OF spares ok 2(1)] by auto
    have "node_at (sh_tree u) src = Some Tree_Dir"
      using 2(1) src by (auto simp: pre_def tree_call_def node_at_def io_simps dest: make_dirs_spares
          split: option.splits sum.splits)
    then have "tree_ok t' \<and> keeps_files (sh_tree u) t'" if "rename_path src dst (sh_tree u) = Inr t'" for t'
      using that unfolding rename_path_def by (intro rename_spares [OF u(1)]) (auto simp: node_at_def is_file_node_def)
    then have "tree_ok (sh_tree w') \<and> keeps_files (sh_tree u) (sh_tree w')"
      by (rule tree_call_keeps [OF 2(2) u(1)])
    then show ?thesis using u(2) keeps_files_trans by blast
  qed (use sparesD [OF spares ok] in blast)
qed

text \<open>The folder as the index knows it is not a file on disk.\<close>

definition on_disk_folder :: "indexed_folder option \<Rightarrow> local_tree \<Rightarrow> bool" where
  "on_disk_folder known t \<longleftrightarrow> (\<forall>f. known = Some f \<longrightarrow> \<not> is_file_node (node_at t (if_local_path f)))"

lemma place_at_free_spares:
  fixes w :: "'z sync_host_scheme"
  assumes ok: "tree_ok (sh_tree w)" and dir: "on_disk_folder known (sh_tree w)"
    and run: "place_at_free L E C i p inside known w = (r, w')"
  shows "tree_ok (sh_tree w') \<and> keeps_files (sh_tree w) (sh_tree w')"
proof -
  define place :: "placement \<Rightarrow> string \<Rightarrow> string \<Rightarrow> ('z sync_host_scheme, core_error, string) io"
    where "place q path target = io_bind (case known of
         Some f \<Rightarrow>
           io_bind (move_local_folder (if_local_path f) target) (\<lambda>_.
           io_bind (db_at E (\<lambda>at. move_subtree at (if_local_path f) target (if_remote_path f) path)) (\<lambda>_.
             db_call (set_parent i (pl_parent_id q))))
       | None \<Rightarrow>
           io_bind (tree_call (''create folder '' @ target @ '': '') (create_dir_all target)) (\<lambda>_.
             register_node L E i q path)) (\<lambda>_. io_return path)" for q path target
  have place: "tree_ok (sh_tree w') \<and> keeps_files (sh_tree u) (sh_tree w')"
    if "place q path target u = (r, w')" "sh_tree u = sh_tree w" for q path target u
  proof (cases known)
    case None
    have "spares (place q path target)"
      unfolding place_def None option.case by (intro spares_intros leaves_spares leaves_intros)
    from sparesD [OF this _ that(1)] show ?thesis using ok that(2) by simp
  next
    case (Some f)
    define rest :: "('z sync_host_scheme, core_error, string) io" where
      "rest = io_bind (io_bind (db_at E (\<lambda>at. move_subtree at (if_local_path f) target (if_remote_path f) path))
        (\<lambda>_. db_call (set_parent i (pl_parent_id q)))) (\<lambda>_. io_return path)"
    have spares: "spares rest"
      unfolding rest_def by (intro spares_intros leaves_spares leaves_intros)
    have okU: "tree_ok (sh_tree u)" "\<not> is_file_node (node_at (sh_tree u) (if_local_path f))"
      using ok dir that(2) Some by (auto simp: on_disk_folder_def)
    have "io_bind (move_local_folder (if_local_path f) target) (\<lambda>_. rest) u = (r, w')"
      using that(1) unfolding rest_def by (simp add: place_def Some io_bind_assoc)
    from io_bindD [OF this] consider e where "move_local_folder (if_local_path f) target u = (Inl e, w')"
      | x v where "move_local_folder (if_local_path f) target u = (Inr x, v)" "rest v = (r, w')" by blast
    then show ?thesis
    proof cases
      case 2
      then show ?thesis
        using move_local_folder_spares [OF okU 2(1)] sparesD [OF spares _ 2(2)] keeps_files_trans by blast
    qed (use move_local_folder_spares [OF okU] in blast)
  qed
  have "io_bind (free_place L E i p inside (map_option if_local_path known)) (\<lambda>(q, path).
      io_bind (io_result (sync_path E path)) (\<lambda>target.
      io_bind (ensure_available L C (se_folder E)) (\<lambda>_. place q path target))) w = (r, w')"
    using run unfolding place_def by (simp add: place_at_free_def)
  from io_bindD [OF this] consider e where "free_place L E i p inside (map_option if_local_path known) w = (Inl e, w')"
    | q path u where "free_place L E i p inside (map_option if_local_path known) w = (Inr (q, path), u)"
        "io_bind (io_result (sync_path E path)) (\<lambda>target.
          io_bind (ensure_available L C (se_folder E)) (\<lambda>_. place q path target)) u = (r, w')"
    by auto
  then show ?thesis
  proof cases
    case 1
    then show ?thesis using leavesD [OF leaves_free_place(1) [OF tree_views(1)] 1] ok by simp
  next
    case 2
    have u: "sh_tree u = sh_tree w" by (rule leavesD [OF leaves_free_place(1) [OF tree_views(1)] 2(1)])
    show ?thesis
    proof (cases "sync_path E path")
      case (Inl e)
      then show ?thesis using 2(2) u ok by (simp add: io_simps)
    next
      case (Inr target)
      then have "io_bind (ensure_available L C (se_folder E)) (\<lambda>_. place q path target) u = (r, w')"
        using 2(2) by (simp add: io_bind_apply io_result_apply)
      from io_bindD [OF this] consider e where "ensure_available L C (se_folder E) u = (Inl e, w')"
        | v where "ensure_available L C (se_folder E) u = (Inr (), v)" "place q path target v = (r, w')" by auto
      then show ?thesis
      proof cases
        case 1
        then show ?thesis using leavesD [OF leaves_inspect(2) [OF tree_views(2)] 1] u ok by simp
      next
        case 2
        have v: "sh_tree v = sh_tree w" using leavesD [OF leaves_inspect(2) [OF tree_views(2)] 2(1)] u by simp
        show ?thesis using place [OF 2(2) v] v by simp
      qed
    qed
  qed
qed

lemma place_folder_spares:
  fixes w :: "'z sync_host_scheme"
  assumes ok: "tree_ok (sh_tree w)" and dir: "on_disk_folder (folder_by_id i (mt_db w)) (sh_tree w)"
    and run: "place_folder L E C i p inside w = (r, w')"
  shows "tree_ok (sh_tree w') \<and> keeps_files (sh_tree w) (sh_tree w')"
proof -
  define rest :: "indexed_folder option \<Rightarrow> ('z sync_host_scheme, core_error, string) io" where
    "rest known = (case known of
         None \<Rightarrow> place_at_free L E C i p inside known
       | Some f \<Rightarrow>
           if if_remote_path f = join_path inside (pl_name p) then stay_in_place i (pl_parent_id p) f
           else if is_inside inside (if_remote_path f) then keep_out_of_cycle L f
           else place_at_free L E C i p inside known)" for known
  have "io_bind (ensure_available L C (se_folder E)) (\<lambda>_. io_bind (ask_db (folder_by_id i)) rest) w = (r, w')"
    using run unfolding rest_def [abs_def] by (simp add: place_folder_def)
  from io_bindD [OF this] consider e where "ensure_available L C (se_folder E) w = (Inl e, w')"
    | u where "ensure_available L C (se_folder E) w = (Inr (), u)" "rest (folder_by_id i (mt_db u)) u = (r, w')"
    by (auto simp: io_bind_apply ask_db_def io_get_apply)
  then show ?thesis
  proof cases
    case 2
    have "leaves (\<lambda>w. (sh_tree w, folder_by_id i (mt_db w))) (ensure_available L C (se_folder E))"
      by (rule leaves_inspect)
        (simp add: checkpoint_blind_def host_view_def folder_by_id_def query_folders_def)
    from leavesD [OF this 2(1)] have u: "sh_tree u = sh_tree w" "folder_by_id i (mt_db u) = folder_by_id i (mt_db w)"
      by auto
    let ?known = "folder_by_id i (mt_db w)"
    have "(\<exists>f. rest ?known = stay_in_place i (pl_parent_id p) f) \<or> (\<exists>f. rest ?known = keep_out_of_cycle L f)
        \<or> rest ?known = place_at_free L E C i p inside ?known"
      by (cases ?known) (auto simp: rest_def)
    then consider (here) f where "rest ?known = stay_in_place i (pl_parent_id p) f"
      | (cycle) f where "rest ?known = keep_out_of_cycle L f"
      | (move) "rest ?known = place_at_free L E C i p inside ?known"
      by blast
    then show ?thesis
    proof cases
      case here
      have "spares (rest ?known)"
        unfolding here stay_in_place_def ignore_result_def by (intro spares_intros leaves_spares leaves_intros)
      then show ?thesis using sparesD [of "rest ?known" u r w'] ok 2(2) u by simp
    next
      case cycle
      have "spares (rest ?known)"
        unfolding cycle by (rule leaves_spares) (rule leaves_free_place(3) [OF tree_views(1)])
      then show ?thesis using sparesD [of "rest ?known" u r w'] ok 2(2) u by simp
    next
      case move
      then show ?thesis
        using place_at_free_spares [of u ?known L E C i p inside r w'] ok dir 2(2) u by simp
    qed
  qed (use leavesD [OF leaves_inspect(2) [OF tree_views(2)]] ok in \<open>metis keeps_files_refl\<close>)
qed

section \<open>Recovering a folder\<close>

lemma create_each_spares [spares_intros]: "spares (create_each p ns)"
proof (induction ns arbitrary: p)
  case (Cons n ns)
  show ?case
    unfolding create_each.simps check_directory_def
    by (intro spares_intros Cons.IH leaves_spares [OF leaves_bind] leaves_ask leaves_basic) (intro leaves_spares leaves_intros)+
qed (simp add: leaves_spares leaves_basic)

lemma create_directory_spares [spares_intros]: "spares (create_directory root relative)"
  unfolding create_directory_def by (intro spares_intros leaves_spares leaves_intros)

lemma capture_missing: "capture_tree L p t = Inr Missing \<Longrightarrow> node_at t p = None"
  by (auto simp: capture_tree_def content_token_def split: option.splits tree_node.splits if_splits)

text \<open>A download leaves the tree alone: it goes to a staged file.\<close>

definition fetches :: "(string \<Rightarrow> ('z sync_host_scheme, core_error, string) io) \<Rightarrow> bool" where
  "fetches fetch \<longleftrightarrow> (\<forall>key w. sh_tree (snd (fetch key w)) = sh_tree w)"

lemma restore_content_spares:
  assumes fetch: "fetches fetch"
  shows "spares (restore_content L fetch content target)"
proof (rule sparesI)
  fix w r w'
  assume ok: "tree_ok (sh_tree w)" and run: "restore_content L fetch content target w = (r, w')"
  show "tree_ok (sh_tree w') \<and> keeps_files (sh_tree w) (sh_tree w')"
  proof (cases "capture_tree L target (sh_tree w) = Inr Missing")
    case False
    then have "sh_tree w' = sh_tree w"
      using run by (cases "capture_tree L target (sh_tree w)")
        (auto simp: restore_content_def io_bind_apply ask_tree_def io_get_apply io_result_apply io_throw_apply
          io_return_apply split: local_content_token.splits if_splits)
    then show ?thesis using ok by simp
  next
    case True
    define put :: "string \<Rightarrow> ('a sync_host_scheme, core_error, unit) io" where
      "put data = (if blob_hash L data \<noteq> cr_hash content \<or> of_nat (length data) \<noteq> cr_size content
             then io_throw (Protocol ''Restored file failed its integrity check'')
             else tree_call [] (put_file target data))" for data
    have "io_bind (fetch (cr_storage_key content)) put w = (r, w')"
      using run True unfolding put_def [abs_def]
      by (simp add: restore_content_def io_bind_apply ask_tree_def io_get_apply io_result_apply)
    from io_bindD [OF this] consider e where "fetch (cr_storage_key content) w = (Inl e, w')"
      | data u where "fetch (cr_storage_key content) w = (Inr data, u)" "put data u = (r, w')" by blast
    then show ?thesis
    proof cases
      case 1
      then show ?thesis using fetch ok by (metis keeps_files_refl snd_conv fetches_def)
    next
      case 2
      have u: "sh_tree u = sh_tree w" using fetch 2(1) by (metis snd_conv fetches_def)
      have free: "map_of (sh_tree u) (path_components target) = None"
        using capture_missing [OF True] u by (simp add: node_at_def)
      have "tree_ok t' \<and> keeps_files (sh_tree u) t'" if "put_file target data (sh_tree u) = Inr t'" for t'
        using that ok u add_node_ok [of "sh_tree u" "path_components target"] free
        by (auto simp: put_file_def split: if_splits)
      then show ?thesis
        using 2(2) u ok tree_call_keeps [of "[]" "put_file target data" u r w']
        by (auto simp: put_def io_throw_apply split: if_splits)
    qed
  qed
qed

lemma restore_data_spares:
  assumes fetch: "fetches fetch"
  shows "spares (restore_data L E fetch r)"
proof -
  note content = restore_content_spares [OF fetch]
  have node: "spares (restore_node L fetch root x relative target)" for root x relative target
  proof (cases "fe_entry_type x")
    case Symlink
    then show ?thesis by (simp add: restore_node_def leaves_spares leaves_basic)
  qed (simp only: restore_node_def entry_type.case, (intro spares_intros content; intro leaves_spares leaves_intros)+)+
  have entry: "spares (restore_entry L E fetch r all x)" for all x
    unfolding restore_entry_def
    by (intro spares_bind spares_cases node leaves_spares [where m = "io_return y" for y]
        leaves_spares [where m = "io_result y" for y] leaves_spares leaves_intros tree_views)
  then show ?thesis
    unfolding restore_data_def
    by (intro spares_bind [OF leaves_spares] spares_fold entry leaves_intros tree_views)
qed

lemma archive_spares: "spares (archive_notes_journal L root i)"
proof -
  let ?key = "''folder-recovery/'' @ uuid_text L i @ ''/journal-archived''"
  let ?state = "path_push root ''.s4drive/notes-state''"
  let ?archive = "path_push root (''.s4drive/recovery-archive-'' @ uuid_text L i)"
  show ?thesis
  proof (rule sparesI)
    fix w r w'
    assume ok: "tree_ok (sh_tree w)" and run: "archive_notes_journal L root i w = (r, w')"
    have keep: "tree_ok t' \<and> keeps_files (sh_tree w) t'"
      if "\<not> path_exists (sh_tree w) ?archive" "rename_path ?state ?archive (sh_tree w) = Inr t'" for t'
      using that by (intro rename_spares [OF ok]) (auto simp: rename_path_def path_exists_def node_at_def is_file_node_def)
    show "tree_ok (sh_tree w') \<and> keeps_files (sh_tree w) (sh_tree w')"
      using run ok keep
      by (auto simp: archive_notes_journal_def Let_def io_simps ask_db_def ask_tree_def db_call_def tree_call_def
          split: if_splits sum.splits prod.splits)
  qed
qed

lemma leaves_delete_targets:
  "leaves sh_tree (delete_targets L D device r)" "leaves sh_tree (prepare_delete L r)"
proof -
  have check: "leaves sh_tree (check_target L D key t)" for key t
    unfolding check_target_def by (intro leaves_intros tree_views)
  have apply_it: "leaves sh_tree (apply_deletion L conditional t)" for conditional t
    unfolding apply_deletion_def by (intro leaves_intros tree_views)
  have "leaves sh_tree (delete_target_step L D device i conditional t)" for i conditional t
    unfolding delete_target_step_def commit_deletion_def by (intro leaves_intros tree_views check apply_it)
  then show "leaves sh_tree (delete_targets L D device r)"
    unfolding delete_targets_def by (intro leaves_intros tree_views)
  have "leaves sh_tree (prepare_target L all x ts)" for all x ts
    unfolding prepare_target_def by (intro leaves_intros tree_views)
  then show "leaves sh_tree (prepare_delete L r)"
    unfolding prepare_delete_def by (intro leaves_intros tree_views)
qed

lemma resolve_recovery_spares:
  assumes fetch: "fetches fetch"
  shows "spares (resolve_recovery L M E C D fetch i decision)"
proof -
  have leaves: "leaves sh_tree (check_decision root i d r)" "leaves sh_tree (decide L E C d r)"
      "leaves sh_tree (run_delete L E C D r)" for root d r
    unfolding check_decision_def decide_def run_delete_def save_recovery_def accept_root_def check_directory_def
    by (intro leaves_intros tree_views leaves_delete_targets)+
  have finish: "spares (finish_recovery L E C r)" for r
    unfolding finish_recovery_def
    by (intro spares_bind spares_cases create_directory_spares; intro leaves_spares leaves_intros tree_views)
  have restore: "spares (run_restore L E fetch r)" for r
    unfolding run_restore_def accept_root_def
    by (intro spares_bind restore_data_spares [OF fetch]; intro leaves_spares leaves_intros tree_views)
  have there: "spares (if there then io_return () else tree_call [] (create_dir_all root))" for there root
    by (intro spares_cases spares_directories leaves_spares leaves_basic)
  have todo: "spares (if decision = Decide_Delete then run_delete L E C D r else io_return ())"
      "spares (if decision = Decide_Restore then run_restore L E fetch r else io_return ())" for r
    by (intro spares_cases restore leaves_spares leaves_basic leaves)+
  show ?thesis
    unfolding resolve_recovery_def check_directory_def
    by (intro spares_bind spares_cases(2) there archive_spares todo finish;
        intro leaves_spares leaves leaves_intros tree_views)
qed

section \<open>The local trash\<close>

lemma make_dirs_there:
  assumes "tree_ok t" "map_of t q \<noteq> None" "q \<noteq> []"
  shows "\<exists>t'. make_dirs (butlast q) t = Inr t' \<and> map_of t' = map_of t"
proof -
  have dirs: "map_of t ds = Some Tree_Dir" if "prefix ds (butlast q)" "ds \<noteq> []" for ds
  proof -
    have "butlast q \<noteq> q" using assms(3) by (cases q rule: rev_cases) auto
    then have "strict_prefix (butlast q) q" by (simp add: strict_prefix_def prefixeq_butlast)
    then have "strict_prefix ds q" using that(1) by (rule prefix_order.le_less_trans [rotated])
    then show ?thesis using tree_okD [OF assms(1,2)] that(2) by blast
  qed
  then obtain t' where t': "make_dirs (butlast q) t = Inr t'"
    by (auto simp: make_dirs_def Let_def set_tl_prefixes list_ex_iff is_file_node_def)
  have "map_of t' = map_of t" unfolding make_dirs_nodes [OF t'] using dirs by auto
  then show ?thesis using t' by blast
qed

lemma rename_onto_full:
  assumes "map_of t p = Some Tree_Dir" "map_of t q = Some Tree_Dir" "\<not> empty_dir t q" "\<not> prefix p q"
    and "parent_is_dir t q"
  shows "rename_nodes p q t = Inl ''Directory not empty (os error 39)''"
  using assms by (auto simp: rename_nodes_def)

lemma trash_occupied:
  assumes ok: "tree_ok (sh_tree w)" and trash: "target = trash_target L folder p i"
    "path_components target = path_components (local_trash folder) @ [c]"
    and nodes: "node_at (sh_tree w) p = Some Tree_Dir" "node_at (sh_tree w) target = Some Tree_Dir"
    and full: "\<not> empty_dir (sh_tree w) (path_components target)"
    and apart: "\<not> prefix (path_components p) (path_components target)"
  shows "\<exists>w'. move_local_file_to_trash L folder p i w
      = (Inl (FileSystem (''move deleted file to local trash '' @ p @ '' -> '' @ target @ '': ''
          @ ''Directory not empty (os error 39)'')), w') \<and> node_at (sh_tree w') = node_at (sh_tree w)"
proof -
  let ?t = "sh_tree w" and ?q = "path_components target"
  have q: "?q \<noteq> []" "butlast ?q = path_components (local_trash folder)" using trash(2) by simp_all
  obtain t' where t': "make_dirs (path_components (local_trash folder)) ?t = Inr t'" "map_of t' = map_of ?t"
    using make_dirs_there [OF ok _ q(1)] nodes(2) q(2) by (auto simp: node_at_def)
  obtain ds n where ds: "(ds, n) \<in> set ?t" "strict_prefix ?q ds" using full by (auto simp: empty_dir_def list_all_iff)
  then have "map_of t' ds \<noteq> None" using t'(2) by (metis dom_map_of_keys fst_conv image_eqI)
  then have "\<not> empty_dir t' ?q"
    using ds(2) by (auto simp: empty_dir_def list_all_iff dest!: map_of_SomeD)
  moreover have "parent_is_dir t' ?q"
  proof -
    have "path_components (local_trash folder) \<noteq> []"
      by (simp add: local_trash_def path_components_push plain_name_def)
    then show ?thesis
      using tree_okD [OF ok, of ?q "butlast ?q"] nodes(2) q t'(2) trash(2)
      by (auto simp: parent_is_dir_def node_at_def strict_prefix_def)
  qed
  ultimately have "rename_path p target t' = Inl ''Directory not empty (os error 39)''"
    unfolding rename_path_def using nodes apart t'(2) by (intro rename_onto_full) (simp_all add: node_at_def)
  then show ?thesis
    using t' nodes(1) trash(1)
    by (intro exI [of _ "w\<lparr>sh_tree := t'\<rparr>"])
      (simp add: move_local_file_to_trash_def io_bind_apply ask_tree_def io_get_apply path_exists_def tree_call_def
        create_dir_all_def node_at_def fun_eq_iff)
qed

end
