(* ===== verification/Log_Frame.thy ===== *)
theory Log_Frame
  imports Retention Sync_Host Durable_Commit
begin

text \<open>
  The operation log writes nothing but operations and its head: what is true of the other
  objects of the bucket stays true through every commit, durable or not, while the other
  devices keep it.
\<close>

definition log_blind :: "(objs \<Rightarrow> bool) \<Rightarrow> bool" where
  "log_blind P \<longleftrightarrow> (\<forall>m k v. P m \<and> (k = head_key \<or> (\<exists>i. k = op_key i)) \<longrightarrow> P (btree_insert k v m) \<and> P (btree_remove k m))"

lemma log_blindD:
  assumes "log_blind P" "P m"
  shows "P (btree_insert head_key v m)" "P (btree_insert (op_key i) v m)" "P (btree_remove (op_key i) m)"
  using assms unfolding log_blind_def by blast+

lemma keeps_modify [keeps_intros]:
  "(\<And>w. objects (f w) = objects w \<and> events (f w) = events w) \<Longrightarrow> keeps P (io_modify f)"
  by (simp add: keeps_def io_simps guarded_def env_keeps_def)

lemma keeps_case_list [keeps_intros]:
  "(xs = [] \<Longrightarrow> keeps P f) \<Longrightarrow> (\<And>y ys. xs = y # ys \<Longrightarrow> keeps P (g y ys)) \<Longrightarrow>
   keeps P (case xs of [] \<Rightarrow> f | y # ys \<Rightarrow> g y ys)"
  by (cases xs) auto

lemma keeps_case_prod [keeps_intros]: "(\<And>a b. p = (a, b) \<Longrightarrow> keeps P (f a b)) \<Longrightarrow> keeps P (case p of (a, b) \<Rightarrow> f a b)"
  by (cases p) auto

lemma keeps_let [keeps_intros]: "keeps P (f x) \<Longrightarrow> keeps P (let y = x in f y)"
  by simp

lemma keeps_if_found [keeps_intros]:
  "keeps P m \<Longrightarrow> (\<And>x. keeps P (k x)) \<Longrightarrow> keeps P (if_found m k)"
  unfolding if_found_def by (intro keeps_intros)

section \<open>The log\<close>

lemma keeps_log_reads [keeps_intros]:
  "keeps P (load_head L)" "keeps P (load_head_consistent L)" "keeps P (read_operation L i)"
  "keeps P (operations_since L base own)" "keeps P (search_chain L target own' floor)"
proof -
  show head: "keeps P (load_head L)"
    unfolding load_head_def load_present_def store_head_def Let_def by (intro keeps_intros) simp_all
  have "keeps P (load_head_loop L n)" for n
    by (induction n) (simp_all, (intro keeps_intros head | assumption)+)
  then show "keeps P (load_head_consistent L)" by (simp add: load_head_consistent_def)
  show op: "keeps P (read_operation L i)" for i unfolding read_operation_def by (intro keeps_intros)
  have "keeps P (since_loop L base own n cursor acc)" for n cursor acc
  proof (induction n arbitrary: cursor acc)
    case (Suc n)
    show ?case unfolding since_loop.simps by (intro keeps_intros op Suc.IH)
  qed (simp add: keeps_basic)
  then show "keeps P (operations_since L base own)" unfolding operations_since_def by (intro keeps_intros)
  have "keeps P (search_loop L target own' floor n cursor foreign)" for n cursor foreign
  proof (induction n arbitrary: cursor foreign)
    case (Suc n)
    show ?case unfolding search_loop.simps Let_def by (intro keeps_intros op Suc.IH)
  qed (simp add: keeps_basic)
  then show "keeps P (search_chain L target own' floor)" unfolding search_chain_def by (intro keeps_intros)
qed

lemma keeps_next_operation [keeps_intros]: "keeps P (next_operation L target ty pre eff)"
  unfolding next_operation_def by (intro keeps_intros keeps_clock) simp_all

lemma keeps_log_writes:
  assumes P: "log_blind P"
  shows "keeps P (write_operation L x)" "keeps P (advance_head L i)" "keeps P (discard_orphan_operation L i)"
proof -
  note blind = log_blindD [OF P]
  have op: "keeps P (put_if_not_exists L (op_key i) b)" "keeps P (delete_object (op_key i))" for i b
    by (auto simp: request_defs mem_defs blind split: option.splits intro!: keeps_serve)
  have head: "keeps P (put_if_not_exists L head_key b)" "keeps P (put_if_match L head_key b e)" for b e
    by (auto simp: request_defs mem_defs blind split: option.splits intro!: keeps_serve)
  show "keeps P (write_operation L x)" unfolding write_operation_def by (intro keeps_intros op)
  show "keeps P (advance_head L i)" unfolding advance_head_def by (intro keeps_intros head) simp_all
  show "keeps P (discard_orphan_operation L i)" unfolding discard_orphan_operation_def by (intro keeps_intros op)
qed

lemma keeps_commit:
  assumes P: "log_blind P"
  shows "keeps P (commit L target ty pre eff)"
proof -
  note log = keeps_log_writes [OF P]
  have branch: "keeps P (case c of ContainsOwn \<Rightarrow> f | Committed ys \<Rightarrow> g ys | Unverifiable r \<Rightarrow> h r)"
    if "keeps P f" "\<And>ys. keeps P (g ys)" "\<And>r. keeps P (h r)"
    for c and f :: "('z world_scheme, core_error, operation) io" and g h
    using that by (cases c) auto
  have "keeps P (commit_loop L target ty pre eff n)" for n
  proof (induction n)
    case (Suc n)
    show ?case unfolding commit_loop.simps by (intro keeps_intros log branch Suc.IH)
  qed (simp add: keeps_basic)
  then show ?thesis unfolding commit_def by (intro keeps_intros)
qed

lemma keeps_durable:
  assumes P: "log_blind P"
  shows "keeps P (commit_durable L J target ty pre eff)"
proof -
  note log = keeps_log_writes [OF P]
  have branch: "keeps P (case c of ContainsOwn \<Rightarrow> f | Committed ys \<Rightarrow> g ys | Unverifiable r \<Rightarrow> h r)"
    if "keeps P f" "\<And>ys. keeps P (g ys)" "\<And>r. keeps P (h r)"
    for c and f :: "('z world_scheme, core_error, durable_commit) io" and g h
    using that by (cases c) auto
  have journal: "keeps P (journal_read f)" "keeps P (journal_write g)" for f g
    by (auto simp: journal_read_def journal_write_def keeps_def io_simps guarded_def env_keeps_def split: prod.splits)
  have confirm: "keeps P (confirm J x)" for x unfolding confirm_def by (intro keeps_intros journal)
  have fresh: "keeps P (new_attempt L J target ty pre eff)"
    unfolding new_attempt_def by (intro keeps_intros journal)
  have pending: "keeps P (pending_or_new L J target ty pre eff pending base)" for pending base
    unfolding pending_or_new_def by (intro keeps_intros fresh)
  have loop: "keeps P (durable_loop L J target ty pre eff n pending)" for n pending
  proof (induction n arbitrary: pending)
    case (Suc n)
    show ?case unfolding durable_loop.simps by (intro keeps_intros log branch Suc.IH pending confirm)
  qed (simp add: keeps_basic)
  have found: "keeps P (attempt_found L J target attempts search)" for attempts search
    unfolding attempt_found_def by (cases search) (simp_all, (intro keeps_intros journal)+)
  have "keeps P (committed_attempt L J target)"
    unfolding committed_attempt_def by (intro keeps_intros journal found)
  then show ?thesis unfolding commit_durable_def by (intro keeps_intros journal loop)
qed

lemma keeps_with_log:
  assumes "keeps P m"
  shows "keeps P (with_log d clock m)"
  unfolding keeps_def
proof (intro allI impI)
  fix w r w'
  assume w: "guarded P w" and run: "with_log d clock m w = (r, w')"
  let ?s = "\<lparr>objects = objects w, events = events w, now = now w, draws = draws w, ol_device = d, ol_clock = clock,
      ol_head = None, ol_etag = None, ol_loaded = False\<rparr>"
  obtain q s where s: "m ?s = (q, s)" by fastforce
  have "guarded P ?s" using w by (simp add: guarded_def env_keeps_def)
  from keepsD [OF assms this s] show "guarded P w'"
    using run s by (auto simp: with_log_def guarded_def env_keeps_def)
qed

lemma keeps_commit_op: "log_blind P \<Longrightarrow> keeps P (commit_op L d i ty ex eff)"
  unfolding commit_op_def by (intro keeps_intros keeps_with_log keeps_commit)

end
