(* ===== verification/Recovery_Facts.thy ===== *)
theory Recovery_Facts
  imports Host_Facts Log_Frame Durable_Safety
begin

text \<open>
  The recovery of a missing folder: the stored prompt decides until the user does, the
  paths of the entries in the bucket are those of a walk up the tree, and a deletion the
  user confirmed spares what another device has changed since.
\<close>

section \<open>The prompt\<close>

lemma get_set_checkpoint:
  "get_checkpoint k (set_checkpoint k' v db) = (if k = k' then Some v else get_checkpoint k db)"
proof -
  have "map_of (filter (\<lambda>c. fst c \<noteq> k') xs) k = map_of xs k" if "k \<noteq> k'" for xs :: "(string \<times> string) list"
    using that by (induction xs) auto
  then show ?thesis by (simp add: get_checkpoint_def set_checkpoint_def)
qed

lemma set_checkpoint_rows [simp]: "object_rows (set_checkpoint k v db) = object_rows db"
  by (simp add: set_checkpoint_def)

lemma checkpoint_endings: "recovery_checkpoint L root a = recovery_checkpoint L root b \<longleftrightarrow> a = b"
  by (simp add: recovery_checkpoint_def)

definition prompt_key :: "libs \<Rightarrow> string \<Rightarrow> string" where
  "prompt_key L root = recovery_checkpoint L root ''pending''"

text \<open>What is stored where no prompt is, or over the prompt that was read.\<close>

lemma store_new_stores:
  assumes "get_checkpoint (prompt_key L root) (mt_db w) \<in> (if expected = [] then {None, Some []} else {Some expected})"
    and "encode C r = Inr json"
  shows "store_new L C root expected r w
    = (Inr (Some (Some r)), w\<lparr>mt_db := set_checkpoint (prompt_key L root) json (mt_db w)\<rparr>)"
  using assms
  by (auto simp: store_new_def replace_checkpoint_def io_simps ask_db_def db_call_def prompt_key_def
      split: option.splits if_splits)

lemma store_new_decides:
  assumes "get_checkpoint (prompt_key L root) (mt_db w) \<in> (if expected = [] then {None, Some []} else {Some expected})"
  shows "fst (store_new L C root expected r w) \<noteq> Inr None"
proof (cases "encode C r")
  case (Inr json)
  then show ?thesis using store_new_stores [OF assms Inr] by simp
qed (simp add: store_new_def io_simps)

text \<open>A stored prompt is what every inspection answers.\<close>

definition prompt_stays :: "libs \<Rightarrow> folder_recovery codec \<Rightarrow> string \<Rightarrow> folder_recovery \<Rightarrow> 'z sync_host_scheme \<Rightarrow> bool" where
  "prompt_stays L C root r w \<longleftrightarrow>
     (\<exists>s. s \<noteq> [] \<and> get_checkpoint (prompt_key L root) (mt_db w) = Some s \<and> decode C s = Inr r)
     \<and> (fr_notes_root r = None \<or> is_directory_at root (sh_tree w) = Inr True)"

lemma inspect_prompt: "prompt_stays L C root r w \<Longrightarrow> inspect L C root w = (Inr (Some r), w)"
  by (auto simp: prompt_stays_def inspect_def try_inspect_def inspect_saved_def check_directory_def ask_db_def
      ask_tree_def prompt_key_def option_default_def io_simps split: option.splits)

definition missing_error :: "folder_recovery \<Rightarrow> core_error" where
  "missing_error r = FileSystem (''Local folder is missing: '' @ fr_path r
     @ ''. Open S4Drive to restore data from the server or confirm deletion.'')"

lemma prompt_refuses: "prompt_stays L C root r w \<Longrightarrow> ensure_available L C root w = (Inl (missing_error r), w)"
  by (simp add: ensure_available_def inspect_prompt io_simps missing_error_def)

text \<open>A folder that was used before and is gone now: the inspection stores the prompt.\<close>

lemma inspect_missing_root:
  assumes fresh: "get_checkpoint (prompt_key L root) (mt_db w) \<in> {None, Some []}"
    and gone: "is_directory_at root (sh_tree w) = Inr False" and known: "workspace_known L root (mt_db w)"
    and json: "encode C (new_prompt (uuid_now_v7 L (draws w)) root None) = Inr json"
  shows "inspect L C root w = (Inr (Some (new_prompt (uuid_now_v7 L (draws w)) root None)),
    w\<lparr>draws := draws w + 1, mt_db := set_checkpoint (prompt_key L root) json (mt_db w)\<rparr>)"
proof -
  have old: "option_default [] (get_checkpoint (recovery_checkpoint L root ''pending'') (mt_db w)) = []"
    using fresh by (auto simp: prompt_key_def option_default_def)
  let ?u = "w\<lparr>draws := draws w + 1\<rparr>"
  have "store_new L C root [] (new_prompt (uuid_now_v7 L (draws w)) root None) ?u
      = (Inr (Some (Some (new_prompt (uuid_now_v7 L (draws w)) root None))),
         ?u\<lparr>mt_db := set_checkpoint (prompt_key L root) json (mt_db w)\<rparr>)"
    using store_new_stores [where w = ?u and expected = "[]", OF _ json] fresh by simp
  then show ?thesis
    using old gone known
    by (simp add: inspect_def try_inspect_def missing_part_def check_directory_def ask_db_def ask_tree_def
        new_uuid_def io_simps)
qed

lemma try_inspect_decides: "fst (try_inspect L C root w) \<noteq> Inr None"
proof (cases "option_default [] (get_checkpoint (recovery_checkpoint L root ''pending'') (mt_db w)) = []")
  case False
  then obtain s where s: "get_checkpoint (prompt_key L root) (mt_db w) = Some s" "s \<noteq> []"
    by (auto simp: prompt_key_def option_default_def split: option.splits)
  have "fst (store_new L C root s q u) \<noteq> Inr None" if "mt_db u = mt_db w" for q and u :: "'a sync_host_scheme"
    using that s by (intro store_new_decides) simp
  then show ?thesis
    using s by (auto simp: try_inspect_def inspect_saved_def ask_db_def ask_tree_def check_directory_def new_uuid_def
        prompt_key_def option_default_def io_simps split: sum.splits prod.splits)
next
  case True
  then have fresh: "get_checkpoint (prompt_key L root) (mt_db w) \<in> {None, Some []}"
    by (cases "get_checkpoint (recovery_checkpoint L root ''pending'') (mt_db w)") (auto simp: prompt_key_def option_default_def)
  have store: "mt_db u = mt_db w \<Longrightarrow> fst (store_new L C root [] q u) \<noteq> Inr None"
    "mt_db u = set_checkpoint (recovery_checkpoint L root ''seen'') v (mt_db w) \<Longrightarrow> fst (store_new L C root [] q u) \<noteq> Inr None"
    for q v and u :: "'a sync_host_scheme"
    using fresh by (intro store_new_decides; auto simp: get_set_checkpoint prompt_key_def checkpoint_endings)+
  show ?thesis
    using True store
    by (auto simp: try_inspect_def missing_part_def ask_db_def ask_tree_def check_directory_def new_uuid_def db_call_def
        io_simps split: sum.splits prod.splits if_splits option.splits)
qed

section \<open>Restoring twice\<close>

text \<open>A file that is there is compared by a hash with its prefix, the reference has none.\<close>

lemma prefixed_hash_differs: "''blake3:'' @ h \<noteq> h"
  by (metis append_self_conv2 list.distinct(1))

lemma restore_present:
  assumes "node_at (sh_tree w) target = Some (Tree_File b)" "blob_hash L b = cr_hash content"
  shows "restore_content L fetch content target w = (Inl (local_file_appeared target), w)"
  using assms prefixed_hash_differs
  by (auto simp: restore_content_def capture_tree_def content_token_def blob_hash_def ask_tree_def io_simps)

lemma restored_file:
  assumes fetch: "fetches fetch" and run: "restore_content L fetch content target w = (Inr (), w')"
  shows "\<exists>b. node_at (sh_tree w') target = Some (Tree_File b) \<and> (node_at (sh_tree w) target = None \<longrightarrow> blob_hash L b = cr_hash content)"
proof (cases "capture_tree L target (sh_tree w)")
  case (Inl e)
  then show ?thesis using run by (simp add: restore_content_def ask_tree_def io_simps)
next
  case (Inr token)
  show ?thesis
  proof (cases token)
    case (Hash h)
    then have "\<exists>b. node_at (sh_tree w) target = Some (Tree_File b)"
      using Inr by (auto simp: capture_tree_def split: option.splits tree_node.splits if_splits)
    then show ?thesis
      using run Inr Hash by (auto simp: restore_content_def ask_tree_def io_simps split: if_splits)
  next
    case Missing
    have "\<exists>data u. fetch (cr_storage_key content) w = (Inr data, u) \<and> blob_hash L data = cr_hash content
        \<and> tree_call [] (put_file target data) u = (Inr (), w')"
      using run Inr Missing
      by (auto simp: restore_content_def ask_tree_def io_bind_apply io_get_apply io_result_apply io_throw_apply
          split: prod.splits sum.splits if_splits)
    then show ?thesis
      by (auto simp: tree_call_def put_file_def node_at_def AList.update_conv' split: sum.splits if_splits)
  qed
qed

section \<open>The paths of entries\<close>

text \<open>The specification: the names of the ancestors, up to an entry without parent.\<close>

inductive named_path :: "file_entry list \<Rightarrow> file_entry \<Rightarrow> string list \<Rightarrow> bool" for xs :: "file_entry list" where
  root: "fe_parent_id x = None \<Longrightarrow> named_path xs x [fe_name x]"
| child: "fe_parent_id x = Some i \<Longrightarrow> entry_by_id xs i = Some f \<Longrightarrow> fe_entry_type f = Folder \<Longrightarrow>
    named_path xs f ns \<Longrightarrow> named_path xs x (ns @ [fe_name x])"

inductive_cases named_pathE: "named_path xs x ns"

lemma named_path_unique: "named_path xs x ns \<Longrightarrow> named_path xs x ms \<Longrightarrow> ns = ms"
proof (induction arbitrary: ms rule: named_path.induct)
  case (root x)
  from root.prems show ?case by cases (use root.hyps in simp_all)
next
  case (child x i f ns)
  from child.prems show ?case
  proof cases
    case (child j g ks)
    then show ?thesis using child.IH [of ks] \<open>fe_parent_id x = Some i\<close> \<open>entry_by_id xs i = Some f\<close> by simp
  qed (use child.hyps in simp)
qed

text \<open>The visited entries are all below the one the walk is at.\<close>

definition all_below :: "file_entry list \<Rightarrow> nat \<Rightarrow> file_id list \<Rightarrow> bool" where
  "all_below xs n visited \<longleftrightarrow>
     (\<forall>j \<in> set visited. \<exists>y ms. entry_by_id xs j = Some y \<and> named_path xs y ms \<and> n < length ms)"

lemma all_belowD:
  assumes "all_below xs n visited" "j \<in> set visited" "entry_by_id xs j = Some y" "named_path xs y ms"
  shows "n < length ms"
  using assms named_path_unique unfolding all_below_def by (metis option.inject)

lemma remote_path_loop_complete:
  "named_path xs f ns \<Longrightarrow> entry_by_id xs (fe_file_id f) = Some f \<Longrightarrow> fe_entry_type f = Folder \<Longrightarrow>
   all_below xs (length ns) visited \<Longrightarrow>
   remote_path_loop xs visited (Some (fe_file_id f)) parts = Inr (Some (str_join ''/'' (ns @ parts)))"
proof (induction arbitrary: visited parts rule: named_path.induct)
  case (root x)
  have "fe_file_id x \<notin> set visited"
    using all_belowD [OF root.prems(3) _ root.prems(1) named_path.root [OF root.hyps]] by auto
  then show ?case using root by simp
next
  case (child x i f ns)
  have x: "named_path xs x (ns @ [fe_name x])" using child.hyps by (rule named_path.child)
  have "fe_file_id x \<notin> set visited"
    using all_belowD [OF child.prems(3) _ child.prems(1) x] by auto
  moreover have i: "i = fe_file_id f" using child.hyps(2) entry_by_id_in by metis
  moreover have "all_below xs (length ns) (fe_file_id x # visited)"
    unfolding all_below_def
  proof
    fix j
    assume "j \<in> set (fe_file_id x # visited)"
    then consider "j = fe_file_id x" | "j \<in> set visited" by auto
    then show "\<exists>y ms. entry_by_id xs j = Some y \<and> named_path xs y ms \<and> length ns < length ms"
    proof cases
      case 1
      then show ?thesis using child.prems(1) x by (intro exI [of _ x] exI [of _ "ns @ [fe_name x]"]) simp
    next
      case 2
      then obtain y ms where "entry_by_id xs j = Some y" "named_path xs y ms" "length (ns @ [fe_name x]) < length ms"
        using child.prems(3) unfolding all_below_def by blast
      then show ?thesis by (intro exI [of _ y] exI [of _ ms]) simp
    qed
  qed
  ultimately show ?case
    using child.IH [of "fe_file_id x # visited" "fe_name x # parts"] child.hyps child.prems by simp
qed

lemma remote_path_loop_sound:
  "remote_path_loop xs visited parent parts = Inr (Some p) \<Longrightarrow>
   \<exists>ns. p = str_join ''/'' (ns @ parts) \<and> (case parent of None \<Rightarrow> ns = []
     | Some i \<Rightarrow> \<exists>f. entry_by_id xs i = Some f \<and> fe_entry_type f = Folder \<and> named_path xs f ns)"
proof (induction xs visited parent parts rule: remote_path_loop.induct)
  case (2 xs visited i parts)
  then obtain f where f: "entry_by_id xs i = Some f" "fe_entry_type f = Folder" "i \<notin> set visited"
    "remote_path_loop xs (i # visited) (fe_parent_id f) (fe_name f # parts) = Inr (Some p)"
    by (auto split: if_splits option.splits)
  from 2(1) [OF f(3,1) _ f(4)] f(2) obtain ns where ns: "p = str_join ''/'' (ns @ fe_name f # parts)"
    "case fe_parent_id f of None \<Rightarrow> ns = []
      | Some i \<Rightarrow> \<exists>g. entry_by_id xs i = Some g \<and> fe_entry_type g = Folder \<and> named_path xs g ns" by auto
  then have "named_path xs f (ns @ [fe_name f])"
    by (cases "fe_parent_id f") (use named_path.root [of f xs] named_path.child [of f] in auto)
  then show ?case using ns(1) f by (intro exI [of _ "ns @ [fe_name f]"]) auto
qed auto

lemma remote_path_exact:
  assumes "entry_by_id xs (fe_file_id x) = Some x"
  shows "remote_path x xs = Inr (Some p) \<longleftrightarrow> (\<exists>ns. named_path xs x ns \<and> p = str_join ''/'' ns)"
proof
  assume "remote_path x xs = Inr (Some p)"
  from remote_path_loop_sound [OF this [unfolded remote_path_def]] obtain ns where ns: "p = str_join ''/'' (ns @ [fe_name x])"
    "case fe_parent_id x of None \<Rightarrow> ns = []
      | Some i \<Rightarrow> \<exists>g. entry_by_id xs i = Some g \<and> fe_entry_type g = Folder \<and> named_path xs g ns" by auto
  then have "named_path xs x (ns @ [fe_name x])"
    by (cases "fe_parent_id x") (use named_path.root [of x xs] named_path.child [of x] in auto)
  then show "\<exists>ns. named_path xs x ns \<and> p = str_join ''/'' ns" using ns(1) by blast
next
  assume "\<exists>ns. named_path xs x ns \<and> p = str_join ''/'' ns"
  then obtain ns where ns: "named_path xs x ns" "p = str_join ''/'' ns" by blast
  from ns(1) show "remote_path x xs = Inr (Some p)"
  proof cases
    case root
    then show ?thesis using ns(2) by (simp add: remote_path_def)
  next
    case (child i f ms)
    have i: "i = fe_file_id f" using child(3) entry_by_id_in by metis
    have "all_below xs (length ms) [fe_file_id x]"
      using assms ns(1) child(1) by (auto simp: all_below_def)
    then show ?thesis
      using remote_path_loop_complete [OF child(5) _ child(4)] child(1,2,3) i ns(2)
      by (simp add: remote_path_def del: remote_path_loop.simps)
  qed
qed

section \<open>Confirmed deletions\<close>

text \<open>An object of the bucket in another version than the ones in \<open>tags\<close>.\<close>

definition other_version :: "string \<Rightarrow> string set \<Rightarrow> objs \<Rightarrow> bool" where
  "other_version k tags m \<longleftrightarrow> (\<exists>b e. map_of m k = Some (b, e) \<and> e \<notin> tags)"

text \<open>The versions the user saw.\<close>

definition confirmed_tags :: "folder_recovery \<Rightarrow> string set" where
  "confirmed_tags r = (\<lambda>t. trim_char (CHR 0x22) (dt_etag t)) ` set (option_default [] (fr_targets r))"

lemma other_version_blind: "log_blind (other_version (tree_entry_key L i) tags)"
  by (auto simp: log_blind_def other_version_def)

lemma keeps_other_version [keeps_intros]:
  fixes k :: string and tags :: "string set"
  defines "P \<equiv> other_version k tags"
  shows "keeps P (put_if_not_exists L k' b)"
    "k' \<noteq> k \<or> trim_char (CHR 0x22) e \<in> tags \<Longrightarrow> keeps P (put_if_match L k' b e)"
    "k' \<noteq> k \<or> trim_char (CHR 0x22) e \<in> tags \<Longrightarrow> keeps P (delete_if_match k' e)"
    "k' \<noteq> k \<Longrightarrow> keeps P (delete_object k')"
  by (auto simp: P_def request_defs mem_defs other_version_def split: option.splits if_splits intro!: keeps_serve)

lemma keeps_entry_version [keeps_intros]: "keeps P (get_entry_version L i)"
proof -
  have entry: "keeps P (get_entry L i)" unfolding get_entry_def by (intro keeps_intros)
  have "keeps P (entry_version_loop L i n)" for n
    by (induction n) (simp_all add: keeps_basic, (intro keeps_intros entry | assumption)+)
  then show ?thesis by (simp add: get_entry_version_def)
qed

lemma keeps_host_basic [keeps_intros]: "keeps P (ask_db g)" "keeps P (db_call h)"
  by (auto simp: ask_db_def db_call_def keeps_def io_simps guarded_def env_keeps_def)

lemma keeps_with_durable:
  assumes "keeps P m"
  shows "keeps P (with_durable d clock m)"
  unfolding keeps_def
proof (intro allI impI)
  fix w :: "'b maintainer_scheme" and r w'
  assume w: "guarded P w" and run: "with_durable d clock m w = (r, w')"
  let ?s = "\<lparr>objects = objects w, events = events w, now = now w, draws = draws w, ol_device = d, ol_clock = clock,
      ol_head = None, ol_etag = None, ol_loaded = False, du_journal = mt_db w\<rparr>"
  obtain q s where s: "m ?s = (q, s)" by fastforce
  have "guarded P ?s" using w by (simp add: guarded_def env_keeps_def)
  from keepsD [OF assms this s] show "guarded P w'"
    using run s by (auto simp: with_durable_def guarded_def env_keeps_def)
qed

lemma keeps_create_tombstone:
  "keeps (other_version k tags) (create_tombstone L i path name by_device refs days)"
  unfolding create_tombstone_def by (intro keeps_intros keeps_clock)

lemma keeps_apply_deletion:
  assumes "trim_char (CHR 0x22) (dt_etag t) \<in> tags"
  shows "keeps (other_version k tags) (apply_deletion L conditional t)"
  unfolding apply_deletion_def put_entry_if_def option.case by (intro keeps_intros keeps_clock) (use assms in auto)

lemma probe_key_other: "probe_key L u \<noteq> tree_entry_key L i"
  by (simp add: probe_key_def tree_entry_key_def)

lemma keeps_delete_targets:
  "keeps (other_version (tree_entry_key L i) (confirmed_tags r)) (delete_targets L D device r)"
proof -
  let ?P = "other_version (tree_entry_key L i) (confirmed_tags r)"
  note durable = keeps_with_durable [OF keeps_durable [OF other_version_blind]]
  have probe: "keeps ?P (conditional_delete_supported L)"
    unfolding conditional_delete_supported_def probe_delete_def
    by (intro keeps_intros keeps_clock) (auto simp: probe_key_other)
  have step: "keeps ?P (delete_target_step L D device (fr_id r) conditional t)"
    if t: "t \<in> set (option_default [] (fr_targets r))" for conditional t
  proof -
    have "keeps ?P (check_target L D key t)" for key unfolding check_target_def by (intro keeps_intros)
    moreover have "keeps ?P (apply_deletion L conditional t)"
      by (rule keeps_apply_deletion) (use t in \<open>simp add: confirmed_tags_def\<close>)
    ultimately show ?thesis
      unfolding delete_target_step_def commit_deletion_def Let_def by (intro keeps_intros keeps_create_tombstone durable)
  qed
  have fold: "keeps ?P (io_fold (\<lambda>t _. delete_target_step L D device (fr_id r) conditional t) ts ())"
    if "set ts \<subseteq> set (option_default [] (fr_targets r))" for conditional ts
    using that by (induction ts) (simp_all add: keeps_basic keeps_bind step)
  show ?thesis
    unfolding delete_targets_def Let_def by (intro keeps_intros probe fold) simp
qed

section \<open>The journal of a deletion\<close>

text \<open>
  The journal in the local database as the contract of \<open>commit_durable\<close> sees it: a write is
  one transaction, so a reopened journal holds what this process sees.
\<close>

definition receipt_of :: "recovery_receipt codec \<Rightarrow> string \<Rightarrow> local_index \<Rightarrow> recovery_receipt" where
  "receipt_of D key db = (case receipt_read D key db of Inl _ \<Rightarrow> \<lparr>jr_attempts = [], jr_committed = None\<rparr> | Inr r \<Rightarrow> r)"

definition recovery_view :: "recovery_receipt codec \<Rightarrow> string \<Rightarrow> local_index journal_view" where
  "recovery_view D key =
     \<lparr>jv_recorded = (\<lambda>db. jr_attempts (receipt_of D key db)), jv_decided = (\<lambda>db. jr_committed (receipt_of D key db)),
      jv_views = (\<lambda>db. {(jr_attempts (receipt_of D key db), jr_committed (receipt_of D key db))}),
      jv_ok = (\<lambda>db. codec_ok D \<and> (\<exists>r. receipt_read D key db = Inr r))\<rparr>"

lemma receipt_change_ok:
  assumes "codec_ok D" "receipt_read D key db = Inr r"
  shows "\<exists>db'. receipt_change D key f db = (Inr (), db') \<and> receipt_read D key db' = Inr (f r)"
proof -
  obtain json where "encode D (f r) = Inr json" "decode D json = Inr (f r)"
    using assms(1) by (auto simp: codec_ok_def)
  then show ?thesis using assms(2) by (simp add: receipt_change_def receipt_read_def get_set_checkpoint)
qed

interpretation rjn: commit_journal "recovery_journal D key" "recovery_view D key" for D key
proof
  fix db x r db'
  assume ok: "jv_ok (recovery_view D key) db" and run: "jo_record_attempt (recovery_journal D key) x db = (r, db')"
    and fresh: "op_op_id x \<notin> op_op_id ` set (jv_recorded (recovery_view D key) db)"
  obtain q where q: "codec_ok D" "receipt_read D key db = Inr q" using ok by (auto simp: recovery_view_def)
  have "\<not> (\<exists>a \<in> set (jr_attempts q). op_op_id a = op_op_id x)"
    using fresh q by (auto simp: recovery_view_def receipt_of_def) (metis image_eqI)
  then have "r = Inr () \<and> receipt_read D key db' = Inr (q\<lparr>jr_attempts := jr_attempts q @ [x]\<rparr>)"
    using run receipt_change_ok [OF q, of "\<lambda>r. if \<exists>a \<in> set (jr_attempts r). op_op_id a = op_op_id x then r
      else r\<lparr>jr_attempts := jr_attempts r @ [x]\<rparr>"] by (auto simp: recovery_journal_def)
  then show "jv_ok (recovery_view D key) db' \<and> jv_decided (recovery_view D key) db' = jv_decided (recovery_view D key) db
      \<and> (case r of
           Inl _ \<Rightarrow> jv_recorded (recovery_view D key) db' = jv_recorded (recovery_view D key) db
             \<and> jv_views (recovery_view D key) db' \<subseteq> insert (jv_recorded (recovery_view D key) db @ [x],
                 jv_decided (recovery_view D key) db) (jv_views (recovery_view D key) db)
         | Inr _ \<Rightarrow> jv_recorded (recovery_view D key) db' = jv_recorded (recovery_view D key) db @ [x]
             \<and> jv_views (recovery_view D key) db' = {(jv_recorded (recovery_view D key) db @ [x],
                 jv_decided (recovery_view D key) db)})"
    using q by (simp add: recovery_view_def receipt_of_def)
next
  fix db i r db'
  assume ok: "jv_ok (recovery_view D key) db" and run: "jo_record_committed (recovery_journal D key) i db = (r, db')"
  obtain q where q: "codec_ok D" "receipt_read D key db = Inr q" using ok by (auto simp: recovery_view_def)
  have "r = Inr () \<and> receipt_read D key db' = Inr (q\<lparr>jr_committed := Some i\<rparr>)"
    using run receipt_change_ok [OF q, of "\<lambda>r. r\<lparr>jr_committed := Some i\<rparr>"] by (auto simp: recovery_journal_def)
  then show "jv_ok (recovery_view D key) db' \<and> jv_recorded (recovery_view D key) db' = jv_recorded (recovery_view D key) db
      \<and> jv_views (recovery_view D key) db' \<subseteq> insert (jv_recorded (recovery_view D key) db, Some i) (jv_views (recovery_view D key) db)
      \<and> (r = Inr () \<longrightarrow> jv_decided (recovery_view D key) db' = Some i)"
    using q by (simp add: recovery_view_def receipt_of_def)
qed (auto simp: recovery_view_def receipt_of_def recovery_journal_def)

text \<open>The commit of one deletion, tried again and again, each time with a new log object.\<close>

primrec deletion_runs ::
    "libs \<Rightarrow> recovery_receipt codec \<Rightarrow> string \<Rightarrow> device_id \<Rightarrow> file_entry \<Rightarrow> u64 list \<Rightarrow> 'z maintainer_scheme
      \<Rightarrow> durable_commit core_result list \<times> 'z maintainer_scheme" where
  "deletion_runs L D key device x [] w = ([], w)"
| "deletion_runs L D key device x (c # cs) w =
     (case commit_deletion L D key device x c w of
        (r, t) \<Rightarrow> (case deletion_runs L D key device x cs t of (rs, u) \<Rightarrow> (r # rs, u)))"

definition as_durable :: "device_id \<Rightarrow> u64 \<Rightarrow> 'z maintainer_scheme \<Rightarrow> local_index durable" where
  "as_durable d clock w =
     \<lparr>objects = objects w, events = events w, now = now w, draws = draws w, ol_device = d, ol_clock = clock,
      ol_head = None, ol_etag = None, ol_loaded = False, du_journal = mt_db w\<rparr>"

lemma request_ok_reopened:
  assumes "request_ok L V q n K s"
  shows "request_ok L V q n K (as_durable (ol_device s) clock
    (w\<lparr>objects := objects s, events := events s, now := now s, draws := draws s, mt_db := du_journal s\<rparr>))"
  using assms by (simp add: request_ok_def as_durable_def protocol_env_def)

lemma deletion_runs_ok:
  fixes w :: "'z maintainer_scheme"
  assumes L: "libs_ok L"
    and q: "\<And>t :: local_index durable. fst q (planned L t (Some (fe_file_id x)) Delete
      \<lparr>pre_expected_etag = None, pre_expected_version_id = None, pre_file_exists = True, pre_parent_exists = True\<rparr>
      (deletion_effects x))"
  shows "request_ok L (recovery_view D key) q (n + max_commit_attempts * length cs) K (as_durable d c0 w)
    \<Longrightarrow> deletion_runs L D key d x cs w = (rs, u)
    \<Longrightarrow> \<exists>zs. request_ok L (recovery_view D key) q n (zs @ K) (as_durable d c0 u)
      \<and> (\<forall>c. Inr c \<in> set rs \<longrightarrow> dc_operation c \<in> set (zs @ K) \<and> fst q (dc_operation c)
          \<and> is_own L d (op_op_id (dc_operation c)) \<and> op_op_id (dc_operation c) \<notin> snd q)"
proof (induction cs arbitrary: w K rs)
  case Nil
  then show ?case by (intro exI [of _ "[]"]) simp
next
  case (Cons c cs)
  let ?V = "recovery_view D key" and ?n = "n + max_commit_attempts * length cs" and ?s = "as_durable d c w"
  obtain r t where r: "commit_durable L (recovery_journal D key) (fe_file_id x) Delete
       \<lparr>pre_expected_etag = None, pre_expected_version_id = None, pre_file_exists = True, pre_parent_exists = True\<rparr>
       (deletion_effects x) ?s = (r, t)" by fastforce
  let ?w = "w\<lparr>objects := objects t, events := events t, now := now t, draws := draws t, mt_db := du_journal t\<rparr>"
  have step: "commit_deletion L D key d x c w = (r, ?w)"
    using r by (simp add: commit_deletion_def with_durable_def as_durable_def)
  obtain rs' where rs: "deletion_runs L D key d x cs ?w = (rs', u)" "rs = r # rs'"
    using Cons.prems(2) step by (auto split: prod.splits)
  have "request_ok L ?V q (?n + max_commit_attempts) K ?s"
    using Cons.prems(1) by (simp add: request_ok_def as_durable_def protocol_env_def algebra_simps)
  from rjn.run_step [OF L q this _ r] obtain ws where ws: "request_ok L ?V q ?n (ws @ K) t" "ol_device t = d"
    and c1: "\<And>c. r = Inr c \<Longrightarrow> dc_operation c \<in> set (ws @ K) \<and> fst q (dc_operation c)
        \<and> is_own L d (op_op_id (dc_operation c)) \<and> op_op_id (dc_operation c) \<notin> snd q"
    by (auto simp: as_durable_def)
  from request_ok_reopened [OF ws(1)] ws(2) have "request_ok L ?V q ?n (ws @ K) (as_durable d c0 ?w)" by simp
  from Cons.IH [OF this rs(1)] obtain zs where "request_ok L ?V q n (zs @ ws @ K) (as_durable d c0 u)"
    "\<And>c. Inr c \<in> set rs' \<Longrightarrow> dc_operation c \<in> set (zs @ ws @ K) \<and> fst q (dc_operation c)
        \<and> is_own L d (op_op_id (dc_operation c)) \<and> op_op_id (dc_operation c) \<notin> snd q" by blast
  then show ?case using rs(2) c1 by (intro exI [of _ "zs @ ws"]) auto
qed

text \<open>A deletion that has not been tried yet.\<close>

definition deletion_new ::
    "libs \<Rightarrow> recovery_receipt codec \<Rightarrow> string \<Rightarrow> device_id \<Rightarrow> nat \<Rightarrow> operation list \<Rightarrow> 'z maintainer_scheme \<Rightarrow> bool" where
  "deletion_new L D key d n K w \<longleftrightarrow> codec_ok D \<and> protocol_env L (is_own L d) w \<and> committed L (objects w) K
     \<and> fresh_ids L d (own_objects (objects w)) (draws w) n \<and> get_checkpoint key (mt_db w) = None"

lemma deletion_new_ok:
  assumes "deletion_new L D key d n K w"
  shows "request_ok L (recovery_view D key) (p, own_ids L d K) n K (as_durable d c w)"
proof -
  let ?V = "recovery_view D key"
  have "receipt_read D key (mt_db w) = Inr \<lparr>jr_attempts = [], jr_committed = None\<rparr>"
    using assms by (simp add: deletion_new_def receipt_read_def)
  then have v: "jv_views ?V (mt_db w) = {([], None)}" "jv_recorded ?V (mt_db w) = []" "jv_ok ?V (mt_db w)"
    using assms by (simp_all add: recovery_view_def receipt_of_def deletion_new_def)
  have t: "tracked L d (p, own_ids L d K) S K ([], None)" for S
    by (auto simp: tracked_def based_def commits_of_def own_ids_def)
  have "taken ?V (mt_db w) S = S" for S using v by (simp add: taken_def fun_eq_iff)
  then show ?thesis
    using assms v t by (simp add: deletion_new_def request_ok_def journal_tracked_def as_durable_def protocol_env_def)
qed

lemma deletion_runs_once:
  assumes L: "libs_ok L" and w: "deletion_new L D key d (max_commit_attempts * length cs) K w"
    and run: "deletion_runs L D key d x cs w = (rs, u)"
  shows "\<exists>new. committed L (objects u) (new @ K) \<and> length (filter (\<lambda>y. is_own L d (op_op_id y)) new) \<le> 1
    \<and> list_all (request_of (fe_file_id x) Delete (deletion_effects x)) (filter (\<lambda>y. is_own L d (op_op_id y)) new)
    \<and> list_all (\<lambda>r. case r of Inl _ \<Rightarrow> True | Inr c \<Rightarrow> filter (\<lambda>y. is_own L d (op_op_id y)) new = [dc_operation c]) rs"
proof -
  let ?q = "(request_of (fe_file_id x) Delete (deletion_effects x), own_ids L d K)"
  have q: "fst ?q (planned L t (Some (fe_file_id x)) Delete
      \<lparr>pre_expected_etag = None, pre_expected_version_id = None, pre_file_exists = True, pre_parent_exists = True\<rparr>
      (deletion_effects x))" for t :: "local_index durable"
    by (simp add: request_of_def planned_def)
  from deletion_runs_ok [OF L q _ run, of 0 K 0] deletion_new_ok [OF w] obtain new where
    u: "request_ok L (recovery_view D key) ?q 0 (new @ K) (as_durable d 0 u)"
    and c: "\<And>c. Inr c \<in> set rs \<Longrightarrow> dc_operation c \<in> set (new @ K) \<and> is_own L d (op_op_id (dc_operation c))
      \<and> op_op_id (dc_operation c) \<notin> own_ids L d K" by auto
  have "ol_device (as_durable d 0 u) = d" "objects (as_durable d 0 u) = objects u" by (simp_all add: as_durable_def)
  with rjn.request_once [OF L u _ c, of rs] show ?thesis by auto
qed

end
