(* ===== verification/Folder_Claims.thy ===== *)
theory Folder_Claims
  imports Folder_Nodes Log_Frame Retention_Facts Durable_Safety
begin

text \<open>
  The ids of folders: a device claims the same deterministic id another one has claimed,
  never the id of a deleted folder, and a name the validator refuses is found out only
  after the operation is in the log.
\<close>

section \<open>A deleted folder\<close>

text \<open>The folder has a deletion record and no entry.\<close>

definition folder_gone :: "libs \<Rightarrow> file_id \<Rightarrow> objs \<Rightarrow> bool" where
  "folder_gone L i m \<longleftrightarrow> contents m (tree_entry_key L i) = None \<and> contents m (tombstone_key L i) \<noteq> None"

lemma serve_read:
  assumes "get_object k w = (r, w')" "safe P w"
  shows "safe P w' \<and> ((\<exists>m. P m \<and> r = (case contents m k of None \<Rightarrow> Inl (NotFound k) | Some b \<Rightarrow> Inr b))
    \<or> (\<exists>e. r = Inl e \<and> \<not> is_NotFound e))"
proof -
  have same: "snd (mem_get_object k m) = m" for m by (simp add: mem_get_object_def split: option.split)
  have "fst (mem_get_object k m) = (case contents m k of None \<Rightarrow> Inl (NotFound k) | Some b \<Rightarrow> Inr b)" for m
    by (auto simp: mem_get_object_def contents_def split: option.split)
  with serve_safe [OF assms(1) [unfolded get_object_def] assms(2)] show ?thesis
    by (metis fst_conv same)
qed

lemma claim_refused:
  assumes "try_claim L E i p w = (r, w')" "safe (folder_gone L i) w"
  shows "r \<noteq> Inr True"
proof -
  let ?P = "folder_gone L i"
  obtain q u where q: "get_object (tree_entry_key L i) w = (q, u)" by fastforce
  from serve_read [OF q assms(2)] have u: "safe ?P u"
    and absent: "q = Inl (NotFound (tree_entry_key L i)) \<or> (\<exists>e. q = Inl e \<and> \<not> is_NotFound e)"
    by (auto simp: folder_gone_def)
  from absent show ?thesis
  proof (elim disjE exE conjE)
    fix e assume "q = Inl e" "\<not> is_NotFound e"
    then have "r = Inl e"
      using assms(1) q by (simp add: try_claim_def if_found_def get_entry_def read_json_def io_bind_apply io_try_apply io_throw_apply)
    then show ?thesis by simp
  next
    assume "q = Inl (NotFound (tree_entry_key L i))"
    then have run: "(if_found (get_tombstone L i) (\<lambda>deleted. case deleted of
               Some _ \<Rightarrow> io_return False
             | None \<Rightarrow> io_try (create_remote L E i p) (\<lambda>r. case r of
                     Inr _ \<Rightarrow> io_return True
                   | Inl e \<Rightarrow>
                       if is_Conflict e then
                         if_found (get_entry L i) (\<lambda>found. case found of
                             Some x \<Rightarrow> io_return (is_folder_at x p)
                           | None \<Rightarrow> io_return True)
                       else io_throw e))) u = (r, w')"
      using assms(1) q by (simp add: try_claim_def if_found_def get_entry_def read_json_def io_bind_apply io_try_apply)
    obtain t v where t: "get_object (tombstone_key L i) u = (t, v)" by fastforce
    from serve_read [OF t u] have "(\<exists>b. t = Inr b) \<or> (\<exists>e. t = Inl e \<and> \<not> is_NotFound e)"
      by (auto simp: folder_gone_def)
    then show ?thesis
    proof (elim disjE exE conjE)
      fix e assume "t = Inl e" "\<not> is_NotFound e"
      then have "r = Inl e"
        using run t by (simp add: if_found_def get_tombstone_def read_json_def io_bind_apply io_try_apply io_throw_apply)
      then show ?thesis by simp
    next
      fix b assume b: "t = Inr b"
      show ?thesis
      proof (cases "parse_json L (json_tombstone L) ''UTF-8: '' ''deserialize tombstone: '' b")
        case (Inl e)
        then have "r = Inl e" using run t b parse_json_error [OF Inl]
          by (cases e) (auto simp: if_found_def get_tombstone_def read_json_def io_bind_apply io_try_apply io_throw_apply
              io_result_apply)
        then show ?thesis by simp
      next
        case (Inr x)
        then have "r = Inr False" using run t b
          by (simp add: if_found_def get_tombstone_def read_json_def io_bind_apply io_try_apply io_return_apply io_result_apply)
        then show ?thesis by simp
      qed
    qed
  qed
qed

section \<open>Undisturbed claims\<close>

text \<open>What an undisturbed device needs to commit: the log is in order and its next ids are free.\<close>

definition can_commit :: "libs \<Rightarrow> device_id \<Rightarrow> operation list \<Rightarrow> 'z world_scheme \<Rightarrow> bool" where
  "can_commit L d K w \<longleftrightarrow> libs_ok L \<and> d \<noteq> 0 \<and> events w = [] \<and> committed L (objects w) K
     \<and> fresh_ids L d (\<lambda>i. contents (objects w) (op_key i)) (draws w) max_commit_attempts"

lemma with_log_run:
  "m \<lparr>objects = objects w, events = events w, now = now w, draws = draws w, ol_device = d, ol_clock = clock,
      ol_head = None, ol_etag = None, ol_loaded = False\<rparr> = (r, s) \<Longrightarrow>
   with_log d clock m w = (r, w\<lparr>objects := objects s, events := events s, now := now s, draws := draws s\<rparr>)"
  by (simp add: with_log_def)

lemma with_log_commit_quiet:
  fixes w :: "'z world_scheme"
  assumes w: "can_commit L d K w"
  shows "\<exists>x w'. with_log d clock (commit L target ty pre eff) w = (Inr x, w')
    \<and> committed L (objects w') (x # K) \<and> op_target_file_id x = target \<and> op_op_type x = ty \<and> op_effects x = eff
    \<and> events w' = []
    \<and> (\<forall>k. k \<noteq> head_key \<longrightarrow> (\<forall>i. k \<noteq> op_key i) \<longrightarrow> contents (objects w') k = contents (objects w) k)"
proof -
  note parts = w [unfolded can_commit_def]
  let ?empty = "\<lparr>objects = objects w, events = events w, now = now w, draws = draws w, ol_device = d, ol_clock = clock,
      ol_head = None, ol_etag = None, ol_loaded = False\<rparr>"
  let ?s = "?empty\<lparr>ol_head := head_of K, ol_etag := map_option (store_etag L) (head_of K), ol_loaded := True\<rparr>"
  have load: "load_head_consistent L ?empty = (Inr (), ?s)"
    using load_head_consistent_quiet [of ?empty L K] parts by simp
  have "log_for L ?s K"
    using parts by (simp add: log_for_def synced_def protocol_env_def)
  moreover have "validate_operation (planned L ?s target ty pre eff) = Inr ()"
    using parts by (simp add: validate_operation_def planned_def new_op_id_def)
  ultimately obtain s' where s': "commit L target ty pre eff ?s = (Inr (planned L ?s target ty pre eff), s')"
    "committed L (objects s') (planned L ?s target ty pre eff # K)" "events s' = []"
    using commit_quiet [of L ?s K target ty pre eff] parts by auto
  have run: "commit L target ty pre eff ?empty = (Inr (planned L ?s target ty pre eff), s')"
    using s'(1) load by (simp add: commit_def io_bind_apply io_get_apply io_return_apply)
  have frame: "contents (objects s') k = contents (objects w) k" if k: "k \<noteq> head_key" "\<forall>i. k \<noteq> op_key i" for k
  proof -
    have "log_blind (\<lambda>m. contents m k = contents (objects w) k)" using k by (auto simp: log_blind_def)
    from keepsD [OF keeps_commit [OF this], of ?empty] run show ?thesis
      using parts by (simp add: guarded_def env_keeps_def)
  qed
  let ?w = "w\<lparr>objects := objects s', events := events s', now := now s', draws := draws s'\<rparr>"
  have "with_log d clock (commit L target ty pre eff) w = (Inr (planned L ?s target ty pre eff), ?w)"
    by (rule with_log_run) (rule run)
  then show ?thesis
    using s' frame by (intro exI [of _ "planned L ?s target ty pre eff"] exI [of _ ?w]) (simp add: planned_def)
qed

text \<open>The entry of a new folder; whether it is valid is a question of its id and its name.\<close>

definition new_folder_entry :: "libs \<Rightarrow> file_id \<Rightarrow> placement \<Rightarrow> timestamp \<Rightarrow> file_entry" where
  "new_folder_entry L i p at = (apply_to L p (folder_entry L i p at))\<lparr>fe_updated_at := at\<rparr>"

definition folder_name_check :: "libs \<Rightarrow> file_id \<Rightarrow> placement \<Rightarrow> unit core_result" where
  "folder_name_check L i p = validate_file_entry L (new_folder_entry L i p [])"

lemma new_folder_check: "validate_file_entry L (new_folder_entry L i p at) = folder_name_check L i p"
  by (simp add: folder_name_check_def new_folder_entry_def validate_file_entry_def apply_to_def folder_entry_def)

lemma name_check_protocol: "folder_name_check L i p = Inl e \<Longrightarrow> is_Protocol e"
proof -
  have "validate_file_entry L x = Inl e \<Longrightarrow> is_Protocol e" for x
    by (simp only: validate_file_entry_def Let_def split: if_split_asm) clarsimp+
  then show "folder_name_check L i p = Inl e \<Longrightarrow> is_Protocol e" by (simp add: folder_name_check_def)
qed

lemma new_folder_is: "is_folder_at (new_folder_entry L i p at) p" "fe_file_id (new_folder_entry L i p at) = i"
  by (simp_all add: is_folder_at_def new_folder_entry_def apply_to_def folder_entry_def placement_of_def)

lemma create_remote_quiet:
  fixes w :: "'z world_scheme"
  assumes w: "can_commit L (se_device E) K w" and free: "contents (objects w) (tree_entry_key L i) = None"
  shows "\<exists>x w' at. create_remote L E i p w = (folder_name_check L i p, w')
    \<and> committed L (objects w') (x # K) \<and> op_target_file_id x = Some i \<and> op_op_type x = CreateFolder
    \<and> events w' = []
    \<and> contents (objects w') (tree_entry_key L i) =
        (if folder_name_check L i p = Inr () then Some (json_of (json_entry L) (new_folder_entry L i p at)) else None)"
proof -
  have L: "libs_ok L" and quiet: "events w = []" using w by (auto simp: can_commit_def)
  obtain x u where u: "commit_folder L E i CreateFolder p w = (Inr (), u)" "committed L (objects u) (x # K)"
    "op_target_file_id x = Some i" "op_op_type x = CreateFolder" "events u = []"
    "\<forall>k. k \<noteq> head_key \<longrightarrow> (\<forall>i. k \<noteq> op_key i) \<longrightarrow> contents (objects u) k = contents (objects w) k"
    using with_log_commit_quiet [OF w, of "logical_clock_seed (now w)" "Some i" CreateFolder
        "\<lparr>pre_expected_etag = None, pre_expected_version_id = None, pre_file_exists = False, pre_parent_exists = True\<rparr>"
        "\<lparr>ef_new_revision_id = None, ef_new_content_ref = None, ef_new_name = Some (pl_name p),
          ef_new_parent_id = pl_parent_id p, ef_deleted = False\<rparr>"]
    by (auto simp: commit_folder_def commit_op_def io_bind_apply io_get_apply io_return_apply)
  have none: "contents (objects u) (tree_entry_key L i) = None" using u(6) free by simp
  define at where "at = rfc3339_text L (now u)"
  let ?x = "new_folder_entry L i p at" and ?j = "json_of (json_entry L) (new_folder_entry L i p at)"
  have get: "get_entry L i u = (Inl (NotFound (tree_entry_key L i)), u)"
    using none by (simp add: get_entry_def read_json_quiet [OF u(5)])
  have upsert: "write_tree_entry L i p u = upsert_entry L ?x u"
    by (simp add: write_tree_entry_def if_found_def utc_now_def io_bind_apply io_try_apply io_get_apply get Let_def
        new_folder_entry_def at_def)
  show ?thesis
  proof (cases "folder_name_check L i p")
    case (Inl e)
    then have "create_remote L E i p w = (Inl e, u)"
      using u(1) upsert by (simp add: create_remote_def io_bind_apply upsert_entry_def io_result_apply new_folder_check)
    then show ?thesis using Inl u none by (intro exI [of _ x] exI [of _ u]) auto
  next
    case (Inr v)
    let ?w = "u\<lparr>objects := btree_insert (tree_entry_key L i) (?j, store_etag L ?j) (objects u)\<rparr>"
    have "create_remote L E i p w = (Inr (), ?w)"
      using u(1) upsert Inr L
      by (simp add: create_remote_def io_bind_apply upsert_entry_def io_result_apply io_return_apply new_folder_check
          to_json_ok libs_ok_codecs quiet_requests(1) [OF u(5)] new_folder_is)
    moreover have "committed L (objects ?w) (x # K)"
      using u(2) by (intro committed_mono [OF u(2)]) (auto simp: committed_def key_defs)
    ultimately show ?thesis using Inr u by (intro exI [of _ x] exI [of _ ?w] exI [of _ at]) auto
  qed
qed

text \<open>The id of the first generation, claimed by the first device and found by every other.\<close>

definition first_id :: "libs \<Rightarrow> placement \<Rightarrow> file_id" where
  "first_id L p = folder_node_id L (pl_parent_id p) (pl_name p) 0"

lemma claim_first:
  "claim_folder_id L E p w = io_bind (try_claim L E (first_id L p) p)
    (\<lambda>mine. if mine then io_return (first_id L p) else claim_loop L E p [Suc 0..<folder_id_generations]) w"
proof -
  have "[0..<folder_id_generations] = 0 # [1..<folder_id_generations]"
    by (simp add: folder_id_generations_def upt_conv_Cons)
  then show ?thesis unfolding claim_folder_id_def first_id_def by (simp add: Let_def)
qed

lemma claim_quiet:
  assumes w: "can_commit L (se_device E) K w"
    and free: "contents (objects w) (tree_entry_key L (first_id L p)) = None"
      "contents (objects w) (tombstone_key L (first_id L p)) = None"
    and conflict: "\<And>e. folder_name_check L (first_id L p) p = Inl e \<Longrightarrow> \<not> is_Conflict e"
  shows "\<exists>x w' at. claim_folder_id L E p w = (map_sum id (\<lambda>_. first_id L p) (folder_name_check L (first_id L p) p), w')
    \<and> committed L (objects w') (x # K) \<and> op_target_file_id x = Some (first_id L p) \<and> op_op_type x = CreateFolder
    \<and> events w' = []
    \<and> contents (objects w') (tree_entry_key L (first_id L p)) =
        (if folder_name_check L (first_id L p) p = Inr ()
         then Some (json_of (json_entry L) (new_folder_entry L (first_id L p) p at)) else None)"
proof -
  let ?i = "first_id L p"
  have quiet: "events w = []" using w by (simp add: can_commit_def)
  obtain x w' at where c: "create_remote L E ?i p w = (folder_name_check L ?i p, w')"
    "committed L (objects w') (x # K)" "op_target_file_id x = Some ?i" "op_op_type x = CreateFolder" "events w' = []"
    "contents (objects w') (tree_entry_key L ?i) =
        (if folder_name_check L ?i p = Inr () then Some (json_of (json_entry L) (new_folder_entry L ?i p at)) else None)"
    using create_remote_quiet [OF w free(1)] by blast
  have "try_claim L E ?i p w = io_try (create_remote L E ?i p) (\<lambda>r. case r of
                     Inr _ \<Rightarrow> io_return True
                   | Inl e \<Rightarrow>
                       if is_Conflict e then
                         if_found (get_entry L ?i) (\<lambda>found. case found of
                             Some x \<Rightarrow> io_return (is_folder_at x p)
                           | None \<Rightarrow> io_return True)
                       else io_throw e) w"
    using free by (simp add: try_claim_def if_found_def get_entry_def get_tombstone_def io_try_apply
        read_json_quiet [OF quiet])
  then have "try_claim L E ?i p w = (map_sum id (\<lambda>_. True) (folder_name_check L ?i p), w')"
    using c(1) conflict by (cases "folder_name_check L ?i p") (auto simp: io_try_apply io_return_apply io_throw_apply)
  then have "claim_folder_id L E p w = (map_sum id (\<lambda>_. ?i) (folder_name_check L ?i p), w')"
    by (cases "folder_name_check L ?i p") (simp_all add: claim_first io_bind_apply io_return_apply)
  then show ?thesis using c by blast
qed

lemma claim_found:
  assumes "libs_ok L" "events v = []"
    and "contents (objects v) (tree_entry_key L (first_id L p)) = Some (json_of (json_entry L) (new_folder_entry L (first_id L p) p at))"
  shows "claim_folder_id L E p v = (Inr (first_id L p), v)"
proof -
  have "try_claim L E (first_id L p) p v = (Inr True, v)"
    using assms by (simp add: try_claim_def if_found_def get_entry_def io_try_apply io_return_apply
        read_json_quiet [OF assms(2)] libs_ok_codecs new_folder_is)
  then show ?thesis by (simp add: claim_first io_bind_apply io_return_apply)
qed

end
