(* ===== verification/Deletion_Facts.thy ===== *)
theory Deletion_Facts
  imports Recovery_Facts Folder_Claims
begin

text \<open>
  A confirmed deletion that nothing disturbs: the entry the user saw is taken away, after its
  deletion record and its operation are written, and an entry that has changed since stops
  the deletion before anything of it is written.
\<close>

section \<open>The journal\<close>

lemma receipt_change_frame:
  assumes "codec_ok D" "receipt_read D key db = Inr r"
  shows "\<exists>db'. receipt_change D key f db = (Inr (), db') \<and> receipt_read D key db' = Inr (f r)
    \<and> (\<forall>k. k \<noteq> key \<longrightarrow> get_checkpoint k db' = get_checkpoint k db)"
proof -
  obtain json where "encode D (f r) = Inr json" "decode D json = Inr (f r)"
    using assms(1) by (auto simp: codec_ok_def)
  then show ?thesis using assms(2) by (simp add: receipt_change_def receipt_read_def get_set_checkpoint)
qed

lemma receipt_new: "get_checkpoint key db = None \<Longrightarrow> receipt_read D key db = Inr \<lparr>jr_attempts = [], jr_committed = None\<rparr>"
  by (simp add: receipt_read_def)

section \<open>The commit\<close>

lemma commit_deletion_quiet:
  fixes w :: "'z maintainer_scheme"
  assumes w: "can_commit L d K w" and D: "codec_ok D" and new: "get_checkpoint key (mt_db w) = None"
  shows "\<exists>c w'. commit_deletion L D key d x clock w = (Inr c, w') \<and> \<not> dc_superseded c \<and> events w' = []
    \<and> store_inv L (objects w')
    \<and> (\<forall>k. k \<noteq> key \<longrightarrow> get_checkpoint k (mt_db w') = get_checkpoint k (mt_db w))
    \<and> (\<forall>k. k \<noteq> head_key \<longrightarrow> (\<forall>i. k \<noteq> op_key i) \<longrightarrow> contents (objects w') k = contents (objects w) k)"
proof -
  note parts = w [unfolded can_commit_def]
  let ?J = "recovery_journal D key" and ?f = "fe_file_id x" and ?eff = "deletion_effects x"
  let ?pre = "\<lparr>pre_expected_etag = None, pre_expected_version_id = None, pre_file_exists = True, pre_parent_exists = True\<rparr>"
  define s0 where "s0 = as_durable d clock w"
  define s1 where "s1 = s0\<lparr>ol_head := head_of K, ol_etag := map_option (store_etag L) (head_of K), ol_loaded := True\<rparr>"
  define y where "y = planned L s1 (Some ?f) Delete ?pre ?eff"
  define s2 where "s2 = s1\<lparr>ol_clock := ol_clock s1 + 1, draws := draws s1 + 1\<rparr>"
  have L: "libs_ok L" and K: "committed L (objects w) K" and quiet: "events w = []"
    and fr: "fresh_ids L d (\<lambda>i. contents (objects w) (op_key i)) (draws w) (Suc 7)"
    using parts by (simp_all add: max_commit_attempts_def eval_nat_numeral)
  have fields: "objects s0 = objects w" "events s0 = []" "du_journal s0 = mt_db w" "draws s0 = draws w"
    "ol_device s0 = d" "ol_clock s0 = clock" "\<not> ol_loaded s0"
    using quiet by (simp_all add: s0_def as_durable_def)
  have load: "load_head_consistent L s0 = (Inr (), s1)"
    using load_head_consistent_quiet [of s0 L K] fields K by (simp add: s1_def)
  obtain j1 where j1: "jo_record_attempt ?J y (mt_db w) = (Inr (), j1)" "receipt_read D key j1 = Inr \<lparr>jr_attempts = [y], jr_committed = None\<rparr>"
    "\<forall>k. k \<noteq> key \<longrightarrow> get_checkpoint k j1 = get_checkpoint k (mt_db w)"
    using receipt_change_frame [OF D receipt_new [OF new], of "\<lambda>r. if \<exists>a \<in> set (jr_attempts r). op_op_id a = op_op_id y then r
      else r\<lparr>jr_attempts := jr_attempts r @ [y]\<rparr>"] by (auto simp: recovery_journal_def)
  obtain j2 where j2: "jo_record_committed ?J (op_op_id y) j1 = (Inr (), j2)"
    "\<forall>k. k \<noteq> key \<longrightarrow> get_checkpoint k j2 = get_checkpoint k (mt_db w)"
    using receipt_change_frame [OF D j1(2), of "\<lambda>r. r\<lparr>jr_committed := Some (op_op_id y)\<rparr>"] j1(3)
    by (auto simp: recovery_journal_def)
  define s3 where "s3 = s2\<lparr>du_journal := j1\<rparr>"
  have "validate_operation y = Inr ()"
    using parts by (simp add: validate_operation_def y_def planned_def new_op_id_def s1_def fields)
  moreover have "journal_write (jo_record_attempt ?J y) s2 = (Inr (), s3)"
    by (simp add: journal_write_def s2_def s1_def fields j1(1) s3_def)
  moreover have "next_operation L (Some ?f) Delete ?pre ?eff s1 = (Inr y, s2)"
    by (simp only: next_operation_run y_def s2_def)
  ultimately have made: "new_attempt L ?J ?f Delete ?pre ?eff s1 = (Inr y, s3)"
    unfolding new_attempt_def by (simp only: io_result_def io_return_def io_bind_def sum.case prod.case)
  let ?b = "json_of (json_operation L) y"
  have free: "contents (objects s3) (op_key (op_op_id y)) = None"
    using fresh_ids_Suc(1) [OF L fr, of "clock + 1"] by (simp add: y_def s3_def s2_def s1_def fields)
  let ?m = "btree_insert (op_key (op_op_id y)) (?b, store_etag L ?b) (objects s3)"
  have wr: "write_operation L y s3 = (Inr (), s3\<lparr>objects := ?m\<rparr>)"
    by (rule write_operation_quiet [OF L _ free]) (simp add: s3_def s2_def s1_def fields)
  let ?s4 = "s3\<lparr>objects := ?m\<rparr>"
  have inv: "store_inv L (objects w)" "contents (objects w) head_key = head_of K" using K by (auto simp: committed_def)
  have "events ?s4 = []" "synced L ?s4 K" "store_inv L (objects ?s4)" "contents (objects ?s4) head_key = head_of K"
    using inv by (simp_all add: s3_def s2_def s1_def fields synced_def)
  note adv = advance_head_quiet [OF L this, of "op_op_id y"]
  obtain s5 where s5: "advance_head L (op_op_id y) ?s4 = (Inr True, s5)" "du_journal s5 = j1" "events s5 = []" "store_inv L (objects s5)"
    using adv inv by (simp add: s3_def s2_def s1_def fields)
  let ?c = "\<lparr>dc_operation = y, dc_superseded = False\<rparr>" and ?s6 = "s5\<lparr>du_journal := j2\<rparr>"
  have c: "confirm ?J y s5 = (Inr ?c, ?s6)"
    using j2(1) s5(2) by (simp add: confirm_def io_simps journal_write_def)
  have loop: "durable_loop L ?J ?f Delete ?pre ?eff max_commit_attempts None s1 = (Inr ?c, ?s6)"
    using made wr s5(1) c unfolding max_commit_attempts_def
    by (simp add: numeral_eq_Suc durable_loop_round pending_or_new_def io_bind_Inr del: durable_loop.simps)
  have none: "jo_attempts ?J (mt_db w) = Inr []" by (simp add: recovery_journal_def receipt_new [OF new])
  have run: "commit_durable L ?J ?f Delete ?pre ?eff s0 = (Inr ?c, ?s6)"
    using load fields(3,7) none loop
    by (simp add: commit_durable_def committed_attempt_def io_simps journal_read_def)
  have frame: "contents (objects ?s6) k = contents (objects w) k" if k: "k \<noteq> head_key" "\<forall>i. k \<noteq> op_key i" for k
  proof -
    have "log_blind (\<lambda>m. contents m k = contents (objects w) k)" using k by (auto simp: log_blind_def)
    from keepsD [OF keeps_durable [OF this] _ run] show ?thesis by (simp add: guarded_def env_keeps_def fields)
  qed
  have "commit_deletion L D key d x clock w
      = (Inr ?c, w\<lparr>objects := objects ?s6, events := events ?s6, now := now ?s6, draws := draws ?s6, mt_db := j2\<rparr>)"
    using run by (simp add: commit_deletion_def with_durable_def s0_def as_durable_def)
  then show ?thesis using frame j2(2) s5(3,4) by (intro exI [of _ ?c]
    exI [of _ "w\<lparr>objects := objects ?s6, events := events ?s6, now := now ?s6, draws := draws ?s6, mt_db := j2\<rparr>"]) simp
qed

section \<open>The versions of an entry\<close>

lemma get_entry_version_quiet:
  assumes "libs_ok L" "events w = []" "store_inv L (objects w)"
    and "contents (objects w) (tree_entry_key L i) = Some (json_of (json_entry L) x)"
  shows "get_entry_version L i w = (Inr (Some \<lparr>ev_entry = x, ev_etag = store_etag L (json_of (json_entry L) x)\<rparr>), w)"
proof -
  have "get_entry L i w = (Inr x, w)"
    using assms by (simp add: get_entry_def read_json_quiet libs_ok_codecs)
  then show ?thesis
    using assms by (simp add: get_entry_version_def eval_nat_numeral io_simps quiet_head)
qed

lemma quiet_delete_if_match:
  assumes "events w = []" "store_inv L (objects w)"
  shows "delete_if_match k e w =
    (if map_option (store_etag L) (contents (objects w) k) = Some (trim_char (CHR 0x22) e)
     then (Inr True, w\<lparr>objects := btree_remove k (objects w)\<rparr>) else (Inr False, w))"
  using assms store_inv_contents [OF assms(2), of k]
  by (auto simp: delete_if_match_def serve_quiet mem_delete_if_match_def split: option.splits)

lemma delete_supported_quiet:
  fixes w :: "'z world_scheme"
  assumes L: "libs_ok L" and w: "events w = []" "store_inv L (objects w)"
    and free: "contents (objects w) (probe_key L (uuid_now_v7 L (draws w))) = None"
    and tag: "store_etag L ''probe'' \<noteq> stale_etag"
  shows "\<exists>m. conditional_delete_supported L w = (Inr True, w\<lparr>draws := draws w + 1, objects := m\<rparr>)
    \<and> store_inv L m \<and> contents m = contents (objects w)"
proof -
  let ?k = "probe_key L (uuid_now_v7 L (draws w))" and ?w1 = "w\<lparr>draws := draws w + 1\<rparr>"
  let ?w2 = "?w1\<lparr>objects := btree_insert ?k (''probe'', store_etag L ''probe'') (objects w)\<rparr>"
  let ?w3 = "?w2\<lparr>objects := btree_remove ?k (objects ?w2)\<rparr>"
  have trims: "trim_char (CHR 0x22) stale_etag = stale_etag"
    "trim_char (CHR 0x22) (store_etag L b) = store_etag L b" for b
    using libs_ok_etag [OF L] by (simp_all add: stale_etag_def trim_char_def)
  have q: "events ?w2 = []" "store_inv L (objects ?w2)" using w by simp_all
  have head: "head_object ?k ?w2 = (Inr \<lparr>om_key = ?k, om_size = of_nat (length ''probe''), om_etag = store_etag L ''probe'',
      om_last_modified = [], om_version_id = None\<rparr>, ?w2)"
    using quiet_head [OF q, of ?k] by simp
  have "probe_delete ?k (store_etag L ''probe'') ?w2 = (Inr True, ?w3)"
    using quiet_delete_if_match [OF q, of ?k] head tag trims
    by (simp add: probe_delete_def io_try_apply)
  then have "conditional_delete_supported L w = (Inr True, ?w3)"
    using head free w
    by (simp add: conditional_delete_supported_def new_uuid_def io_bind_apply io_return_apply
        quiet_requests(5))
  then show ?thesis using w free by (intro exI [of _ "objects ?w3"]) auto
qed

section \<open>The targets\<close>

lemma check_target_quiet:
  fixes w :: "'z maintainer_scheme"
  assumes L: "libs_ok L" and w: "events w = []" "store_inv L (objects w)" and new: "get_checkpoint key (mt_db w) = None"
    and present: "contents (objects w) (tree_entry_key L (fe_file_id (dt_entry t))) = Some (json_of (json_entry L) y)"
  shows "check_target L D key t w
    = (if store_etag L (json_of (json_entry L) y) = dt_etag t then Inr () else Inl changed_before, w)"
  using get_entry_version_quiet [OF L w present] receipt_new [OF new]
  by (simp add: check_target_def ask_db_def io_simps recovery_journal_def)

text \<open>A target that is as the user saw it is taken away.\<close>

lemma delete_step_quiet:
  fixes w :: "'z maintainer_scheme" and t r L
  defines "i \<equiv> fe_file_id (dt_entry t)" and "key \<equiv> receipt_key L r (fe_file_id (dt_entry t))"
  assumes w: "can_commit L d K w" and D: "codec_ok D"
    and new: "get_checkpoint key (mt_db w) = None" "get_checkpoint (key @ ''/applied'') (mt_db w) = None"
    and present: "contents (objects w) (tree_entry_key L i) = Some (json_of (json_entry L) y)"
    and seen: "dt_etag t = store_etag L (json_of (json_entry L) y)" "fe_deleted_at y = None"
    and free: "contents (objects w) (tombstone_key L i) = None"
  shows "\<exists>w'. delete_target_step L D d r True t w = (Inr (), w') \<and> events w' = [] \<and> store_inv L (objects w')
    \<and> contents (objects w') (tree_entry_key L i) = None
    \<and> (\<forall>k. k \<noteq> key \<longrightarrow> k \<noteq> key @ ''/applied'' \<longrightarrow> get_checkpoint k (mt_db w') = get_checkpoint k (mt_db w))
    \<and> (\<forall>j. j \<noteq> i \<longrightarrow> contents (objects w') (tree_entry_key L j) = contents (objects w) (tree_entry_key L j))"
proof -
  have L: "libs_ok L" and quiet: "events w = []" and inv: "store_inv L (objects w)" and K: "committed L (objects w) K"
    using w by (auto simp: can_commit_def committed_def)
  have key: "receipt_key L r i = key" by (simp add: key_def i_def)
  let ?e = "tree_entry_key L i" and ?s = "tombstone_key L i"
  let ?t = "planned_tombstone L (now w) i (dt_path t) (fe_name (dt_entry t)) (uuid_text L d) (dt_blobs t) 90"
  let ?j = "json_of (json_tombstone L) ?t"
  define u where "u = w\<lparr>objects := btree_insert ?s (?j, store_etag L ?j) (objects w)\<rparr>"
  have check: "check_target L D key t w = (Inr (), w)"
    using check_target_quiet [OF L quiet inv new(1) present [unfolded i_def]] seen(1) by simp
  have stone: "create_tombstone L i (dt_path t) (fe_name (dt_entry t)) (uuid_text L d) (dt_blobs t) 90 w = (Inr ?t, u)"
    using create_tombstone_quiet [OF L quiet, of i] free by (simp add: u_def)
  have keys: "?s \<noteq> head_key" "?s \<noteq> op_key x" "?s \<noteq> tree_entry_key L j"
    "tree_entry_key L j \<noteq> head_key" "tree_entry_key L j \<noteq> op_key x" for x j
    by (simp_all add: key_defs)
  have "committed L (objects u) K"
    using inv by (intro committed_mono [OF K]) (auto simp: u_def committed_def keys)
  then have "can_commit L d K u" using w keys by (simp add: can_commit_def u_def)
  from commit_deletion_quiet [OF this D, of key "dt_entry t" "logical_clock_seed (now u)"] new(1) obtain c v where
    v: "commit_deletion L D key d (dt_entry t) (logical_clock_seed (now u)) u = (Inr c, v)" "\<not> dc_superseded c"
    "events v = []" "store_inv L (objects v)"
    "\<And>k. k \<noteq> key \<Longrightarrow> get_checkpoint k (mt_db v) = get_checkpoint k (mt_db w)"
    "\<And>j. contents (objects v) (tree_entry_key L j) = contents (objects w) (tree_entry_key L j)"
    using keys by (auto simp: u_def)
  let ?v = "v\<lparr>objects := btree_remove ?e (objects v)\<rparr>"
  have version: "get_entry_version L i v = (Inr (Some \<lparr>ev_entry = y, ev_etag = dt_etag t\<rparr>), v)"
    using get_entry_version_quiet [OF L v(3,4), of i y] v(6) present seen(1) by simp
  have "delete_if_match ?e (dt_etag t) v = (Inr True, ?v)"
    using quiet_delete_if_match [OF v(3,4), of ?e "dt_etag t"] v(6) present seen(1) libs_ok_etag [OF L] by simp
  then have applied: "apply_deletion L True t v = (Inr (), ?v)"
    using version seen(2) by (simp add: apply_deletion_def io_simps flip: i_def)
  have "delete_target_step L D d r True t w = (Inr (), ?v\<lparr>mt_db := set_checkpoint (key @ ''/applied'') ''1'' (mt_db v)\<rparr>)"
    using new(2) check stone v(1,2) applied
    by (simp add: delete_target_step_def Let_def ask_db_def db_call_def io_bind_apply io_get_apply io_modify_apply
        key flip: i_def)
  then show ?thesis
    using v(3-6) by (intro exI [of _ "?v\<lparr>mt_db := set_checkpoint (key @ ''/applied'') ''1'' (mt_db v)\<rparr>"])
      (simp add: get_set_checkpoint tree_entry_key_inj [OF L])
qed

lemma receipt_key_other:
  assumes "libs_ok L" "j \<noteq> i"
  shows "receipt_key L r j \<noteq> receipt_key L r i" "receipt_key L r j \<noteq> receipt_key L r i @ ''/applied''"
    "receipt_key L r j @ ''/applied'' \<noteq> receipt_key L r i"
    "receipt_key L r j @ ''/applied'' \<noteq> receipt_key L r i @ ''/applied''"
proof -
  have "uuid_text L j \<noteq> uuid_text L i @ ''/applied''" for i j
    using libs_ok_uuid(4) [OF assms(1), of i] libs_ok_uuid(4) [OF assms(1), of j] by auto
  then show "receipt_key L r j \<noteq> receipt_key L r i" "receipt_key L r j \<noteq> receipt_key L r i @ ''/applied''"
    "receipt_key L r j @ ''/applied'' \<noteq> receipt_key L r i"
    "receipt_key L r j @ ''/applied'' \<noteq> receipt_key L r i @ ''/applied''"
    using assms by (auto simp: receipt_key_def uuid_text_inj) metis
qed

lemma deletion_stops:
  fixes w :: "'z maintainer_scheme" and q t1 t2 and L :: libs
  assumes q: "fr_targets q = Some [t1, t2]" and p: "conditional_delete_supported L w = (Inr True, u)"
    and one: "delete_target_step L D d (fr_id q) True t1 u = (Inr (), v)"
    and two: "delete_target_step L D d (fr_id q) True t2 v = (Inl e, v)"
  shows "delete_targets L D d q w = (Inl e, v)"
  unfolding delete_targets_def Let_def q option_default_def option.case
  by (simp add: io_bind_apply p one two)

text \<open>A target that has changed since stops the deletion, after the ones before it are gone.\<close>

lemma delete_targets_quiet:
  fixes w :: "'z maintainer_scheme" and q t1 t2 and L :: libs
  defines "r \<equiv> fr_id q" and "i \<equiv> fe_file_id (dt_entry t1)" and "j \<equiv> fe_file_id (dt_entry t2)"
  assumes w: "can_commit L d K (w\<lparr>draws := draws w + 1\<rparr>)" and D: "codec_ok D" and q: "fr_targets q = Some [t1, t2]" "i \<noteq> j"
    and probe: "contents (objects w) (probe_key L (uuid_now_v7 L (draws w))) = None" "store_etag L ''probe'' \<noteq> stale_etag"
    and new: "\<And>k. k \<in> {i, j} \<Longrightarrow> get_checkpoint (receipt_key L r k) (mt_db w) = None"
      "\<And>k. k \<in> {i, j} \<Longrightarrow> get_checkpoint (receipt_key L r k @ ''/applied'') (mt_db w) = None"
    and first: "contents (objects w) (tree_entry_key L i) = Some (json_of (json_entry L) y)"
      "dt_etag t1 = store_etag L (json_of (json_entry L) y)" "fe_deleted_at y = None"
      "contents (objects w) (tombstone_key L i) = None"
    and second: "contents (objects w) (tree_entry_key L j) = Some (json_of (json_entry L) z)"
      "dt_etag t2 \<noteq> store_etag L (json_of (json_entry L) z)"
  shows "\<exists>w'. delete_targets L D d q w = (Inl changed_before, w') \<and> contents (objects w') (tree_entry_key L i) = None
    \<and> contents (objects w') (tree_entry_key L j) = Some (json_of (json_entry L) z)"
proof -
  have L: "libs_ok L" and quiet: "events w = []" and K: "committed L (objects w) K" "store_inv L (objects w)"
    and fr: "fresh_ids L d (\<lambda>i. contents (objects w) (op_key i)) (draws w + 1) max_commit_attempts" "d \<noteq> 0"
    using w by (auto simp: can_commit_def committed_def)
  from delete_supported_quiet [OF L quiet K(2) probe] obtain m where
    m: "conditional_delete_supported L w = (Inr True, w\<lparr>draws := draws w + 1, objects := m\<rparr>)" "store_inv L m"
    "contents m = contents (objects w)" by blast
  let ?u = "w\<lparr>draws := draws w + 1, objects := m\<rparr>"
  have "committed L m K" using m(2,3) by (intro committed_mono [OF K(1)]) simp_all
  then have u: "can_commit L d K ?u" using w m(3) by (simp add: can_commit_def)
  have "\<exists>v. delete_target_step L D d r True t1 ?u = (Inr (), v) \<and> events v = [] \<and> store_inv L (objects v)
    \<and> contents (objects v) (tree_entry_key L i) = None
    \<and> (\<forall>k. k \<noteq> receipt_key L r i \<longrightarrow> k \<noteq> receipt_key L r i @ ''/applied'' \<longrightarrow> get_checkpoint k (mt_db v) = get_checkpoint k (mt_db ?u))
    \<and> (\<forall>k. k \<noteq> i \<longrightarrow> contents (objects v) (tree_entry_key L k) = contents (objects ?u) (tree_entry_key L k))"
    unfolding i_def
    by (rule delete_step_quiet [OF u D, of r t1 y]) (use new first m(3) in \<open>simp_all add: i_def [symmetric]\<close>)
  then obtain v where v: "delete_target_step L D d r True t1 ?u = (Inr (), v)" "events v = []" "store_inv L (objects v)"
    "contents (objects v) (tree_entry_key L i) = None"
    "\<And>k. k \<noteq> receipt_key L r i \<Longrightarrow> k \<noteq> receipt_key L r i @ ''/applied'' \<Longrightarrow> get_checkpoint k (mt_db v) = get_checkpoint k (mt_db w)"
    "\<And>k. k \<noteq> i \<Longrightarrow> contents (objects v) (tree_entry_key L k) = contents (objects ?u) (tree_entry_key L k)"
    by auto
  have kept: "contents (objects v) (tree_entry_key L j) = Some (json_of (json_entry L) z)"
    using v(6) [OF q(2) [symmetric]] second(1) m(3) by simp
  note other = receipt_key_other [OF L q(2) [symmetric], of r]
  have fresh: "get_checkpoint (receipt_key L r j) (mt_db v) = None" "get_checkpoint (receipt_key L r j @ ''/applied'') (mt_db v) = None"
    using v(5) [OF other(1,2)] v(5) [OF other(3,4)] new(1) [of j] new(2) [of j] by (simp_all only: insert_iff simp_thms)
  have "check_target L D (receipt_key L r j) t2 v = (Inl changed_before, v)"
    using check_target_quiet [OF L v(2,3) fresh(1)] kept second(2) unfolding j_def by simp
  then have "delete_target_step L D d r True t2 v = (Inl changed_before, v)"
    using fresh(2)
    by (simp add: delete_target_step_def Let_def ask_db_def io_bind_apply io_get_apply flip: j_def)
  then have "delete_targets L D d q w = (Inl changed_before, v)"
    using deletion_stops [OF q(1) m(1)] v(1) unfolding r_def by blast
  then show ?thesis using v(4) kept by blast
qed

end
