(* ===== verification/Samples_Recovery.thy ===== *)
theory Samples_Recovery
  imports Folder_Facts Deletion_Facts Samples Samples_Index
begin

text \<open>
  A device with a folder \<open>/s\<close> in which \<open>a\<close> holds the file \<open>f\<close>, and codes of the prompt and
  the journal of a recovery, for the concrete instances of the properties of folders.
\<close>

definition sample_dir :: "string list \<Rightarrow> path_component list" where
  "sample_dir ws = Root_Dir # map Normal ws"

definition sample_tree :: local_tree where
  "sample_tree = [(sample_dir [], Tree_Dir), (sample_dir [''s''], Tree_Dir), (sample_dir [''s'', ''a''], Tree_Dir),
     (sample_dir [''s'', ''a'', ''f''], Tree_File ''x'')]"

lemma empty_checkpoint [simp]: "get_checkpoint k empty_index = None"
  by (simp add: get_checkpoint_def empty_index_def)

lemma sample_tree_ok: "tree_ok sample_tree"
  by (auto simp: tree_ok_def sample_tree_def sample_dir_def strict_prefix_def prefix_Cons)

definition sample_device :: sync_env where
  "sample_device = \<lparr>se_folder = ''/s'', se_device = 7, se_sql_time = (\<lambda>_. ''t''), se_probe = (\<lambda>_. sample_probe)\<rparr>"

definition sample_host :: "local_index \<Rightarrow> objs \<Rightarrow> local_tree \<Rightarrow> sync_host" where
  "sample_host db m t =
     \<lparr>objects = m, events = [], now = 100, draws = 0, me_device_id = 7, me_logical_clock = 0, mt_db = db, sh_tree = t\<rparr>"

lemma sample_host_simps [simp]:
  "objects (sample_host db m t) = m" "events (sample_host db m t) = []" "draws (sample_host db m t) = 0"
  "mt_db (sample_host db m t) = db" "sh_tree (sample_host db m t) = t"
  by (simp_all add: sample_host_def)

section \<open>Codes\<close>

definition put_decision :: "recovery_decision \<Rightarrow> nat list" where
  "put_decision d = [if d = Decide_Delete then 1 else 0]"

definition get_decision :: "recovery_decision reader" where
  "get_decision = get_map (\<lambda>n. if n = 1 then Decide_Delete else Decide_Restore)"

lemma get_put_decision [simp]: "get_decision (put_decision d @ r) = Some (d, r)"
  by (cases d) (simp_all add: get_decision_def put_decision_def)

definition put_target :: "delete_target \<Rightarrow> nat list" where
  "put_target t = put_file_entry (dt_entry t) @ put_str (dt_etag t) @ put_str (dt_path t) @ put_list put_word (dt_blobs t)"

definition get_target :: "delete_target reader" where
  "get_target =
     bind_reader get_file_entry (\<lambda>x. bind_reader get_str (\<lambda>e. bind_reader get_str (\<lambda>p.
     bind_reader (get_list get_word) (\<lambda>bs. yield \<lparr>dt_entry = x, dt_etag = e, dt_path = p, dt_blobs = bs\<rparr>))))"

lemma get_put_target [simp]: "get_target (put_target t @ r) = Some (t, r)"
  by (simp add: get_target_def put_target_def)

definition put_prompt :: "folder_recovery \<Rightarrow> nat list" where
  "put_prompt x = put_word (fr_id x) @ put_str (fr_path x) @ put_option put_decision (fr_decision x)
     @ put_option put_word (fr_notes_root x) @ put_option (put_list put_target) (fr_targets x)
     @ put_option put_word (fr_previous_notes_root x)"

definition get_prompt :: "folder_recovery reader" where
  "get_prompt =
     bind_reader get_word (\<lambda>i. bind_reader get_str (\<lambda>p. bind_reader (get_option get_decision) (\<lambda>d.
     bind_reader (get_option get_word) (\<lambda>n. bind_reader (get_option (get_list get_target)) (\<lambda>ts.
     bind_reader (get_option get_word) (\<lambda>q. yield
       \<lparr>fr_id = i, fr_path = p, fr_decision = d, fr_notes_root = n, fr_targets = ts, fr_previous_notes_root = q\<rparr>))))))"

lemma get_put_prompt [simp]: "get_prompt (put_prompt x @ r) = Some (x, r)"
  by (simp add: get_prompt_def put_prompt_def)

definition sample_prompt_codec :: "folder_recovery codec" where
  "sample_prompt_codec = text_codec put_prompt get_prompt"

lemma sample_prompt_ok: "codec_ok sample_prompt_codec"
  unfolding sample_prompt_codec_def by (rule text_codec_ok) simp

definition put_journal :: "recovery_receipt \<Rightarrow> nat list" where
  "put_journal x = put_list put_operation (jr_attempts x) @ put_option put_str (jr_committed x)"

definition get_journal :: "recovery_receipt reader" where
  "get_journal =
     bind_reader (get_list get_operation) (\<lambda>xs. bind_reader (get_option get_str) (\<lambda>c. yield
       \<lparr>jr_attempts = xs, jr_committed = c\<rparr>))"

definition sample_journal_codec :: "recovery_receipt codec" where
  "sample_journal_codec = text_codec put_journal get_journal"

lemma sample_journal_ok: "codec_ok sample_journal_codec"
  unfolding sample_journal_codec_def by (rule text_codec_ok) (simp add: get_journal_def put_journal_def)

lemma sample_fresh_ids: "fresh_ids sample_libs 7 (own_objects []) 0 16"
proof -
  have "map (uuid_now_v7 sample_libs) [0..<16] = [1, 2, 3, 4, 5, 6, 7, 8, 9, 10, 11, 12, 13, 14, 15, 16]"
    by (simp add: sample_libs_def upt_rec)
  then show ?thesis by (simp add: fresh_ids_def own_objects_def)
qed

lemma sample_deletion_new:
  "deletion_new sample_libs sample_journal_codec ''k'' 7 16 [] (sample_host empty_index [] t)"
  by (simp add: deletion_new_def sample_journal_ok sample_fresh_ids protocol_env_def committed_empty
      get_checkpoint_def empty_index_def)

section \<open>A content, a placement, a folder that was deleted before\<close>

definition bare_content :: "string \<Rightarrow> content_ref" where
  "bare_content data =
     \<lparr>cr_blob_id = 0, cr_hash = blob_hash sample_libs data, cr_size = of_nat (length data), cr_mime = [],
      cr_storage_key = ''k''\<rparr>"

definition sample_placement :: placement where
  "sample_placement = \<lparr>pl_parent_id = None, pl_name = ''a''\<rparr>"

lemma sample_first_id: "first_id sample_libs p = 16"
  by (simp add: first_id_def folder_node_id_def sample_libs_def le_bytes4_def)

lemma sample_name_check:
  "folder_name_check sample_libs (first_id sample_libs p) p =
     (if pl_name p = [] then Inl (Protocol ''file name cannot be empty'')
      else if hd (split_on (CHR ''.'') (pl_name p)) \<in> set reserved_names
      then Inl (Protocol (''reserved filename: '' @ pl_name p)) else Inr ())"
proof -
  have "unicode_uppercase sample_libs = id" by (simp add: sample_libs_def)
  then show ?thesis
    by (simp add: sample_first_id folder_name_check_def validate_file_entry_def new_folder_entry_def apply_to_def
        folder_entry_def Let_def)
qed

lemma sample_placement_valid: "folder_name_check sample_libs (first_id sample_libs sample_placement) sample_placement = Inr ()"
  unfolding sample_name_check by (simp add: sample_placement_def reserved_names_def)

lemma sample_reserved:
  "folder_name_check sample_libs (first_id sample_libs \<lparr>pl_parent_id = None, pl_name = ''CON''\<rparr>)
     \<lparr>pl_parent_id = None, pl_name = ''CON''\<rparr> = Inl (Protocol ''reserved filename: CON'')"
  unfolding sample_name_check by (simp add: reserved_names_def)

lemma sample_can_commit: "can_commit sample_libs (se_device sample_device) [] (sample_host empty_index [] t)"
proof -
  have "own_objects [] = (\<lambda>i. contents [] (op_key i))" by (simp add: own_objects_def)
  then show ?thesis
    using sample_fresh_ids fresh_ids_le [of sample_libs 7 "own_objects []" 0 16 8]
    by (simp add: can_commit_def sample_libs_ok committed_empty sample_device_def max_commit_attempts_def)
qed

definition twice_deleted :: local_tree where
  "twice_deleted = sample_tree @ map (\<lambda>(ws, n). (sample_dir (''s'' # ''.s4drive'' # ws), n))
     [([], Tree_Dir), ([''trash''], Tree_Dir), ([''trash'', ''local''], Tree_Dir),
      ([''trash'', ''local'', ''3-a''], Tree_Dir), ([''trash'', ''local'', ''3-a'', ''f''], Tree_File ''x'')]"

lemma twice_deleted_ok: "tree_ok twice_deleted"
  by (auto simp: tree_ok_def twice_deleted_def sample_tree_def sample_dir_def strict_prefix_def prefix_Cons)

section \<open>A folder that moves, a confirmed deletion\<close>

text \<open>The index has folder 3 at \<open>a\<close>.\<close>

definition moving_index :: local_index where
  "moving_index = register_folder sample_libs sample_probe ''1''
     \<lparr>if_file_id = 3, if_parent_id = None, if_local_path = ''/s/a'', if_remote_path = ''a''\<rparr> empty_index"

text \<open>
  The user confirmed the deletion of the files 5 and 3; file 3 has another name by now.
\<close>

definition entry_json :: "file_entry \<Rightarrow> string" where
  "entry_json x = json_of (json_entry sample_libs) x"

definition target_of :: "file_entry \<Rightarrow> delete_target" where
  "target_of x = \<lparr>dt_entry = x, dt_etag = store_etag sample_libs (entry_json x), dt_path = fe_name x, dt_blobs = []\<rparr>"

definition confirmed_prompt :: folder_recovery where
  "confirmed_prompt = (new_prompt 1 ''/s'' None)\<lparr>fr_targets := Some [target_of (indexed_file 5 ''x''), target_of (sample_entry ''old'')]\<rparr>"

definition changed_bucket :: objs where
  "changed_bucket = put_raw (tree_entry_key sample_libs 5) (entry_json (indexed_file 5 ''x''))
     (put_raw (tree_entry_key sample_libs 3) (entry_json (sample_entry ''new'')) [])"

lemma changed_contents: "contents changed_bucket = [tree_entry_key sample_libs 3 \<mapsto> entry_json (sample_entry ''new''),
    tree_entry_key sample_libs 5 \<mapsto> entry_json (indexed_file 5 ''x'')]"
  by (simp add: changed_bucket_def)

lemma changed_inv: "store_inv sample_libs changed_bucket"
  by (simp add: changed_bucket_def)

lemma entry_json_inj: "entry_json x = entry_json y \<longleftrightarrow> x = y"
  using codec_okD(2) [OF libs_ok_codecs(6) [OF sample_libs_ok]] unfolding entry_json_def
  by (metis Inr_inject)

lemma sample_names_differ: "sample_entry ''old'' \<noteq> sample_entry ''new''" "indexed_file 5 ''x'' \<noteq> sample_entry ''new''"
  by (simp_all add: sample_entry_def indexed_file_def)

lemma changed_can_commit: "can_commit sample_libs 7 [] (sample_host empty_index changed_bucket t\<lparr>draws := 1\<rparr>)"
proof -
  have "map (uuid_now_v7 sample_libs) [1..<9] = [2, 3, 4, 5, 6, 7, 8, 9]"
    by (simp add: sample_libs_def upt_rec)
  then have "fresh_ids sample_libs 7 (\<lambda>i. contents changed_bucket (op_key i)) 1 8"
    by (simp add: fresh_ids_def changed_contents key_defs)
  moreover have "committed sample_libs changed_bucket []"
    by (rule committed_mono [OF committed_empty changed_inv]) (simp_all add: changed_contents key_defs)
  ultimately show ?thesis by (simp add: can_commit_def sample_libs_ok max_commit_attempts_def)
qed

lemma changed_deletion:
  "\<exists>w. delete_targets sample_libs sample_journal_codec 7 confirmed_prompt (sample_host empty_index changed_bucket t) = (Inl changed_before, w)
    \<and> contents (objects w) (tree_entry_key sample_libs 5) = None
    \<and> contents (objects w) (tree_entry_key sample_libs 3) = Some (entry_json (sample_entry ''new''))"
proof -
  let ?w = "sample_host empty_index changed_bucket t"
  note keys = tree_entry_key_inj [OF sample_libs_ok]
  have ids: "fe_file_id (dt_entry (target_of (indexed_file 5 ''x''))) = 5" "fe_file_id (dt_entry (target_of (sample_entry ''old''))) = 3"
    by (simp_all add: target_of_def indexed_file_def sample_entry_def)
  have present: "contents changed_bucket (tree_entry_key sample_libs 5) = Some (entry_json (indexed_file 5 ''x''))"
    "contents changed_bucket (tree_entry_key sample_libs 3) = Some (entry_json (sample_entry ''new''))"
    by (simp_all add: changed_contents keys)
  have absent: "contents changed_bucket (probe_key sample_libs u) = None" "contents changed_bucket (tombstone_key sample_libs i) = None" for u i
    by (simp_all add: changed_contents probe_key_def tombstone_key_def tree_entry_key_def)
  have tag: "store_etag sample_libs ''probe'' \<noteq> stale_etag" by code_simp
  have tags: "dt_etag (target_of (indexed_file 5 ''x'')) = store_etag sample_libs (entry_json (indexed_file 5 ''x''))"
    "dt_etag (target_of (sample_entry ''old'')) \<noteq> store_etag sample_libs (entry_json (sample_entry ''new''))"
    using sample_names_differ by (simp_all add: target_of_def libs_ok_etag [OF sample_libs_ok] entry_json_inj)
  have "fe_deleted_at (indexed_file 5 ''x'') = None" "fr_targets confirmed_prompt = Some [target_of (indexed_file 5 ''x''), target_of (sample_entry ''old'')]"
    by (simp_all add: indexed_file_def confirmed_prompt_def)
  from delete_targets_quiet [where w = ?w and K = "[]", OF _ sample_journal_ok this(2), unfolded ids sample_host_simps,
      OF _ _ absent(1) tag empty_checkpoint empty_checkpoint present(1) [unfolded entry_json_def] tags(1) [unfolded entry_json_def]
        this(1) absent(2) present(2) [unfolded entry_json_def] tags(2) [unfolded entry_json_def]]
  show ?thesis using changed_can_commit [of t] by (simp add: entry_json_def)
qed

lemma changed_version:
  "other_version (tree_entry_key sample_libs 3) (confirmed_tags confirmed_prompt) changed_bucket"
proof -
  have "map_of changed_bucket (tree_entry_key sample_libs 3)
      = Some (entry_json (sample_entry ''new''), store_etag sample_libs (entry_json (sample_entry ''new'')))"
    by (simp add: store_inv_contents [OF changed_inv] changed_contents tree_entry_key_inj [OF sample_libs_ok])
  then show ?thesis
    using sample_names_differ
    by (simp add: other_version_def confirmed_tags_def confirmed_prompt_def option_default_def target_of_def
        libs_ok_etag [OF sample_libs_ok] entry_json_inj)
qed

lemma moving_known:
  "case folder_by_id 3 moving_index of None \<Rightarrow> False | Some f \<Rightarrow> \<not> is_file_node (node_at sample_tree (if_local_path f))"
  by code_simp

lemma sample_moved:
  "node_at (sh_tree (snd (place_folder sample_libs sample_device sample_prompt_codec 3 \<lparr>pl_parent_id = None, pl_name = ''b''\<rparr> []
      (sample_host moving_index [] sample_tree)))) ''/s/b/f'' = Some (Tree_File ''x'')"
  by code_simp

text \<open>The folder \<open>/s\<close> is gone and the user is asked about it.\<close>

definition pending_index :: local_index where
  "pending_index = set_checkpoint (prompt_key sample_libs ''/s'') (json_of sample_prompt_codec (new_prompt 1 ''/s'' None)) empty_index"

definition bare_tree :: local_tree where
  "bare_tree = [(sample_dir [], Tree_Dir), (sample_dir [''f''], Tree_File ''x'')]"

lemma bare_tree_ok: "tree_ok bare_tree"
  by (auto simp: tree_ok_def bare_tree_def sample_dir_def strict_prefix_def prefix_Cons)

lemma sample_pending:
  "inspect sample_libs sample_prompt_codec ''/s'' (sample_host pending_index m t)
    = (Inr (Some (new_prompt 1 ''/s'' None)), sample_host pending_index m t)"
proof -
  have "json_of sample_prompt_codec (new_prompt 1 ''/s'' None) \<noteq> []"
    by (simp add: json_of_def sample_prompt_codec_def text_codec_def tokens_text_def put_prompt_def put_word_def)
  then have "prompt_stays sample_libs sample_prompt_codec ''/s'' (new_prompt 1 ''/s'' None) (sample_host pending_index m t)"
    by (simp add: prompt_stays_def pending_index_def get_set_checkpoint codec_okD [OF sample_prompt_ok]) (simp add: new_prompt_def)
  then show ?thesis by (rule inspect_prompt)
qed

end
