(* ===== verification/Spec2Isabelle.thy ===== *)
theory Spec2Isabelle
  imports Op_Search Durable_Safety File_Tree Compaction Snapshots Engine Blobs Line_Merge Rev_Graph Conflicts S3_Client Samples Samples_Local Watcher_Facts Samples_Index Samples_Retention Samples_Recovery
begin

text \<open>
  S4Drive synchronizes folders of several devices over a bucket of an S3 object store.
  There is no server: the devices coordinate through conditional writes of objects
  (README, level 2). On a device, a local database says which content of which file has been
  synchronized, and a queue says what is to be transferred. This development models the core
  crate, \<open>src/src-core/src\<close>, and proves the properties its parts promise to each other.

  Parts and theories.

  \<^item> \<open>Prelude\<close>: the monad \<open>io\<close> (state, error) that asynchronous Rust functions returning a
    result are written in, ordered maps as sorted association lists, and the lemma
    collections. \<open>Rust_Strings\<close>: strings as UTF-8 bytes and the functions of \<open>str\<close> and
    \<open>String\<close> the code calls; \<open>Rust_Paths\<close>: \<open>std::path\<close> on Unix.
  \<^item> \<open>Core_Types\<close> (\<open>error.rs\<close>, \<open>metadata/types.rs\<close>): errors and records of the protocol.
    \<open>Runtime\<close>: what comes from crates, the parameter \<open>L :: libs\<close>, and its documented
    behaviour \<open>libs_ok L\<close> (serde implementations are inverse, uuids have text forms
    without separators, ETags identify contents).
  \<^item> \<open>Keys\<close> (\<open>metadata/serializer.rs\<close>), \<open>Placement\<close> (\<open>metadata/placement.rs\<close>,
    \<open>metadata/validator.rs\<close>), \<open>Stored_Json\<close>: names of objects, paths, reading and writing
    of JSON objects.
  \<^item> \<open>Object_Store\<close> (\<open>s3/memory.rs\<close>, the trait of \<open>s3/client.rs\<close>): the bucket. The locale
    \<open>conditional_store\<close> states what the metadata code needs of a store and is interpreted
    on \<open>MemoryStore\<close>. A request is one atomic action of this device; the list \<open>events\<close>
    of a world says what the other devices do before it is served and whether it fails,
    loses its reply or is repeated by a retry. A property that assumes \<open>events w = []\<close> is
    about an undisturbed run; one that assumes \<open>guarded P w\<close>, \<open>protocol_env\<close> or \<open>log_for\<close>
    allows any interleaving and any faults that keep to the invariant named.
  \<^item> \<open>Op_Log\<close> (\<open>metadata/ops.rs\<close>): the operation log. \<open>Op_Chain\<close>: the abstract history of a
    bucket, the chain of operations from the head, and the steps other devices may take
    on it. \<open>Op_Commit\<close>: \<open>commit\<close> refines appending one operation to the history.
    Other devices add operations and remove orphans of their own, but do not compact the log
    meanwhile (\<open>foreign_step\<close>). \<open>Op_Search\<close>: the walks and queries.
    \<open>Durable_Commit\<close>: \<open>commit_durable\<close> and the journal of
    \<open>fs_mutations/remote_commit.rs\<close>. \<open>Durable_Safety\<close>: a durable
    request is committed at most once, over restarts of the process and failing writes of its
    receipt; the locale \<open>commit_journal\<close> states what
    \<open>commit_durable\<close> needs of a journal and is interpreted on the receipt
    (\<open>rcj\<close>) and on the journal of folder recovery (\<open>rjn\<close>). One
    request of a device runs at a time, as its lease makes sure.
  \<^item> \<open>File_Tree\<close> (\<open>metadata/tree.rs\<close>), \<open>Compaction\<close> (\<open>metadata/compaction.rs\<close>), \<open>Snapshots\<close>
    (\<open>metadata/snapshots.rs\<close>), \<open>Engine\<close> (\<open>metadata/engine.rs\<close>), \<open>Blobs\<close>
    (\<open>metadata/blobs.rs\<close>), \<open>Rev_Graph\<close> (\<open>metadata/graph.rs\<close>): the other objects of the
    bucket and the code that keeps them.
  \<^item> \<open>Line_Merge\<close> and \<open>Conflicts\<close> (\<open>sync/conflict_engine.rs\<close>, \<open>sync/conflict.rs\<close>): text merge,
    conflict copies. \<open>S3_Client\<close> (\<open>s3/client.rs\<close>, \<open>s3/error.rs\<close>, \<open>s3/retry.rs\<close>): errors,
    retries, parts. \<open>Optimize\<close> (\<open>optimization.rs\<close>): rate limits, backoff, cache.
  \<^item> \<open>Local_Disk\<close> (\<open>fs_mutations/atomic.rs\<close>): the local file system, names of inodes and
    their bytes; before every system call another program may act, and the call may fail.
    \<open>Publication\<close> (\<open>fs_mutations/mod.rs\<close>): replacing a local file by a staged one unless
    its content is another than expected. \<open>Entry_Locks\<close> (\<open>fs_mutations/mod.rs\<close>): the locks
    local writers take, as threads over reader-writer locks that are not reentrant, and that
    they never deadlock.
  \<^item> The local database (\<open>db.rs\<close>, \<open>migrations/\<close>), a record of tables, a method a function on
    it: \<open>Local_Index\<close> (local files and folders), \<open>Transfer_Queue\<close> (jobs, moves of folders,
    checkpoints, candidates of the blob collection), \<open>Revision_Store\<close> (revisions, conflict
    records, retention; \<open>sync/versions.rs\<close>), \<open>Notes_Index\<close> (save tokens, projection of
    journal entries). \<open>Index_Safety\<close>: the invariant \<open>index_ok\<close>, kept by every method, and
    the step relation \<open>index_step\<close>. \<open>Index_Ops\<close>, \<open>Notes_Replay\<close>: what single methods do.
    \<open>Index_View\<close>: the index as a map from file ids to places, lists of names instead of
    texts; the locale \<open>call_refinement\<close> states that methods act as given functions on a
    view, and is interpreted on the index, the checkpoints and the save tokens.
  \<^item> \<open>Sync_Paths\<close> and \<open>Local_Scan\<close> (\<open>sync/mod.rs\<close>): paths in the sync folder, ignored files,
    the decision whether a local file changed, the scan, bookkeeping of uploads.
    \<open>Watcher\<close> (\<open>watcher.rs\<close>): the stream of file system events; \<open>Watcher_Facts\<close>: what its
    rewriting of events preserves.
  \<^item> \<open>Retention\<close> (\<open>sync/maintenance.rs\<close>): maintenance of the bucket, with the leases of
    uploads. A listing comes in pages from the parameter \<open>pager\<close>, whose documented behaviour
    is \<open>pages_ok\<close>. \<open>Retention_Facts\<close>: the sweep of blobs returns and spares what is referenced.
  \<^item> \<open>Local_Tree\<close>: the directories and files of a device as a tree, with the calls of
    \<open>std::fs\<close> the engine makes and the invariant \<open>tree_ok\<close>. \<open>Sync_Host\<close> (\<open>sync/mod.rs\<close>): a
    device at work, with bucket, database and tree; commits, the local trash, folder scans.
    \<open>Folder_Recovery\<close> (\<open>sync/folder_recovery.rs\<close>): the sync folder or its Notes are
    missing, the user restores them or confirms the deletion. \<open>Folder_Nodes\<close>
    (\<open>sync/folders.rs\<close>): folders as entries of the bucket. \<open>Host_Facts\<close>, \<open>Log_Frame\<close>: the
    frame rules \<open>leaves\<close>, \<open>spares\<close> and \<open>log_blind\<close>, what a step does not touch.
    \<open>Recovery_Facts\<close>, \<open>Deletion_Facts\<close>, \<open>Folder_Facts\<close>, \<open>Folder_Claims\<close>: what recovery,
    confirmed deletions, the placing of folders and the claiming of their ids keep and
    promise. Between two calls no other program acts on this tree.
  \<^item> \<open>Sample_Libs\<close>, \<open>Samples\<close>, \<open>Samples_Local\<close>, \<open>Samples_Index\<close>,
    \<open>Samples_Retention\<close>, \<open>Samples_Recovery\<close>: an executable
    instance of \<open>libs\<close> that satisfies \<open>libs_ok\<close>,
    and small worlds, disks and databases, for the concrete instances (\<open>_witness\<close>) of the properties below.

  Bounds and fuel. Bounded loops carry the number of rounds left as in the code (eight
  commit attempts, three head loads, four version reads, the walk limits); the value for
  no rounds left is the error the code returns then. Walks of \<open>Rev_Graph\<close> need not end and
  are \<open>partial_function (option)\<close>, so are the loops over pages in \<open>Retention\<close>; the sweep
  of blobs is proved to return. \<open>consume\<close> reads a list of refills, \<open>None\<close> when it runs
  out. Integers are words of their width where the code computes with them. A slice out
  of order, which panics in Rust, is \<open>None\<close> (\<open>append_base\<close>); \<open>merge_returns_iff\<close> says
  exactly when it happens. The cells of \<open>lcs_pairs\<close>, lengths in \<open>u32\<close>, are \<open>nat\<close>: a text of
  2 to the 32 lines does not fit into the table. Links and permissions of local files are
  left out.

  \<open>inspect\<close> has one round: its loop goes on only while another writer changes the prompt.

  Not modelled: the loops of the sync engine that join these parts (\<open>sync/mod.rs\<close>), the notes repository over capability directories, the shells (\<open>src-tauri\<close>,
  \<open>src-cli\<close>); the S3 SDK calls, which are requests of the object store model; SQLite's
  faults other than the schema's constraints, the migrations and the activity log; directory
  renames, the Windows code and nested calls in \<open>fs_mutations\<close>.
\<close>

section \<open>The operation log\<close>

text \<open>
  C1: \<open>commit\<close> in a bucket that other devices write to at the same time,
  with any refused requests, lost replies and retries. The history grows at its front
  only; it gains at most one operation of this device. \<open>Ok(op)\<close> means that \<open>op\<close> is in
  the history, on top of everything that was there when the log object last read the
  head, with no concurrent operation on the same file below it.
\<close>

theorem commit_appends_once:
  assumes "libs_ok L" "log_for L s K" "commit L target ty pre eff s = (r, s')"
  shows "\<exists>new. (\<forall>y \<in> set new. \<not> is_own L (ol_device s) (op_op_id y))
    \<and> committed_once L (is_own L (ol_device s)) target (new @ K) r (objects s')"
  using commit_ok [OF assms] by (auto simp: loop_ok_def)

theorem commit_appends_once_witness:
  "\<exists>new. (\<forall>y \<in> set new. \<not> is_own sample_libs (ol_device (sample_log sample_bucket)) (op_op_id y))
    \<and> committed_once sample_libs (is_own sample_libs (ol_device (sample_log sample_bucket))) (Some 3) (new @ [sample_op])
        (fst (commit sample_libs (Some 3) Rename sample_preconditions sample_effects (sample_log sample_bucket)))
        (objects (snd (commit sample_libs (Some 3) Rename sample_preconditions sample_effects (sample_log sample_bucket))))"
  by (rule commit_appends_once [OF sample_libs_ok sample_log_bucket surjective_pairing])

text \<open>
  C5: with no interference and a loaded head, one call of \<open>commit\<close>
  returns the planned operation, which is then the newest of the history, and leaves the
  log object in step with the bucket, ready for the next commit.
\<close>

theorem commit_succeeds_undisturbed:
  assumes "libs_ok L" "events s = []" "ol_loaded s" "log_for L s K"
    and "validate_operation (planned L s target ty pre eff) = Inr ()"
  shows "\<exists>s'. commit L target ty pre eff s = (Inr (planned L s target ty pre eff), s')
    \<and> committed L (objects s') (planned L s target ty pre eff # K)
    \<and> synced L s' (planned L s target ty pre eff # K) \<and> events s' = []"
  using assms by (rule commit_quiet)

theorem commit_succeeds_undisturbed_witness:
  "\<exists>s'. commit sample_libs (Some 3) Rename sample_preconditions sample_effects (loaded_log [] [])
      = (Inr (planned sample_libs (loaded_log [] []) (Some 3) Rename sample_preconditions sample_effects), s')
    \<and> committed sample_libs (objects s')
        (planned sample_libs (loaded_log [] []) (Some 3) Rename sample_preconditions sample_effects # [])
    \<and> synced sample_libs s'
        (planned sample_libs (loaded_log [] []) (Some 3) Rename sample_preconditions sample_effects # [])
    \<and> events s' = []"
proof (rule commit_succeeds_undisturbed [OF sample_libs_ok _ _ loaded_log_empty])
  show "validate_operation (planned sample_libs (loaded_log [] []) (Some 3) Rename sample_preconditions sample_effects)
      = Inr ()"
    by code_simp
qed (simp_all add: loaded_log_def sample_log_def)

text \<open>
  A successful load stores a head id and the ETag of that very
  version, although the body and the ETag are read by separate requests; it is the head
  of the history the bucket has at the end of the call.
\<close>

theorem load_head_consistent_pairs:
  assumes "libs_ok L" "protocol_env L mine s" "log_inv L (objects s)" "load_head_consistent L s = (Inr u, s')"
  shows "\<exists>xs. committed L (objects s') xs \<and> ol_head s' = head_of xs
    \<and> ol_etag s' = map_option (store_etag L) (head_of xs) \<and> ol_loaded s'"
  using load_head_consistent_ok [OF assms(1) settled_log_inv [OF assms(2,3)] assms(4)]
  by (auto simp: loaded_ok_def synced_def)

theorem load_head_consistent_pairs_witness:
  "\<exists>xs. committed sample_libs (objects (loaded_log sample_bucket [sample_op])) xs
    \<and> ol_head (loaded_log sample_bucket [sample_op]) = head_of xs
    \<and> ol_etag (loaded_log sample_bucket [sample_op]) = map_option (store_etag sample_libs) (head_of xs)
    \<and> ol_loaded (loaded_log sample_bucket [sample_op])"
  by (rule load_head_consistent_pairs [OF sample_libs_ok sample_protocol _ sample_load])
    (use committed_sample in \<open>auto simp: sample_log_def\<close>)

section \<open>The materialized tree\<close>

text \<open>
  C6: an answered \<open>put_entry_if\<close> acted at one moment: it wrote the entry
  exactly if the bucket then held the observed version, or nothing where none was
  observed, and otherwise changed nothing. Other devices write, requests fail and are
  retried; only the object store's own invariant is assumed of them.
\<close>

theorem put_entry_is_atomic:
  assumes "libs_ok L" "guarded (store_inv L) w" "put_entry_if L x observed w = (Inr ok, w')"
  shows "\<exists>m. store_inv L m \<and> ok = observed_in L m (tree_entry_key L (fe_file_id x)) observed
    \<and> contents (objects w') = (if ok then (contents m)(tree_entry_key L (fe_file_id x) \<mapsto> json_of (json_entry L) x)
        else contents m)"
  using assms by (rule put_entry_if_atomic)

theorem put_entry_is_atomic_witness:
  "\<exists>m. store_inv sample_libs m \<and> True = observed_in sample_libs m (tree_entry_key sample_libs 3) None
    \<and> contents (objects (snd (put_entry_if sample_libs (sample_entry ''a'') None (sample_world []))))
      = (if True then (contents m)(tree_entry_key sample_libs 3 \<mapsto> json_of (json_entry sample_libs) (sample_entry ''a''))
         else contents m)"
proof -
  have "fst (put_entry_if sample_libs (sample_entry ''a'') None (sample_world [])) = Inr True"
    by (simp add: put_entry_if_run [OF sample_libs_ok sample_entry_valid] serve_quiet mem_put_if_not_exists_def)
  then have "put_entry_if sample_libs (sample_entry ''a'') None (sample_world [])
      = (Inr True, snd (put_entry_if sample_libs (sample_entry ''a'') None (sample_world [])))"
    by (metis prod.collapse)
  from put_entry_is_atomic [OF sample_libs_ok guarded_sample this] show ?thesis by simp
qed

text \<open>
  While the entry does not change, \<open>get_entry_version\<close> returns the
  stored entry with the ETag of that very object, so a \<open>put_entry_if\<close> that names it
  replaces nothing but what was read.
\<close>

theorem entry_version_pairs:
  assumes "guarded (only_version L (tree_entry_key L i) v) w" "get_entry_version L i w = (Inr (Some x), w')"
  shows "\<exists>b. v = Some b \<and> ev_etag x = store_etag L b
    \<and> parse_json L (json_entry L) ''UTF-8: '' ''deserialize entry: '' b = Inr (ev_entry x)"
  using assms unfolding get_entry_version_def by (rule entry_version_loop_ok)

theorem entry_version_pairs_witness:
  "\<exists>b. Some (json_of (json_entry sample_libs) (sample_entry ''a'')) = Some b
    \<and> ev_etag \<lparr>ev_entry = sample_entry ''a'', ev_etag = store_etag sample_libs (json_of (json_entry sample_libs)
        (sample_entry ''a''))\<rparr> = store_etag sample_libs b
    \<and> parse_json sample_libs (json_entry sample_libs) ''UTF-8: '' ''deserialize entry: '' b
      = Inr (ev_entry \<lparr>ev_entry = sample_entry ''a'', ev_etag = store_etag sample_libs (json_of (json_entry sample_libs)
          (sample_entry ''a''))\<rparr>)"
  by (rule entry_version_pairs [OF _ stored_entry_version]) (rule guarded_sample, rule stored_entry_only)

text \<open>
  Two equal ETags around the read do not prove that the entry between
  them is the one they name: when the entry is replaced by another and back again, the
  other entry is returned under the first one's ETag.
\<close>

theorem entry_version_aba:
  assumes "libs_ok L" "k = tree_entry_key L (fe_file_id a)" "A = json_of (json_entry L) a" "B = json_of (json_entry L) b"
  shows "fst (get_entry_version L (fe_file_id a)
      \<lparr>objects = [(k, A, store_etag L A)], events = [swap_event L k A, swap_event L k B, swap_event L k A],
       now = 0, draws = 0\<rparr>) = Inr (Some \<lparr>ev_entry = b, ev_etag = store_etag L A\<rparr>)"
  using get_entry_version_aba [OF assms(1), of a b] assms(2-4) by simp

theorem entry_version_aba_witness:
  "\<exists>k A B. fst (get_entry_version sample_libs (fe_file_id (sample_entry ''a''))
      \<lparr>objects = [(k, A, store_etag sample_libs A)],
       events = [swap_event sample_libs k A, swap_event sample_libs k B, swap_event sample_libs k A],
       now = 0, draws = 0\<rparr>) = Inr (Some \<lparr>ev_entry = sample_entry ''b'', ev_etag = store_etag sample_libs A\<rparr>)"
  by (intro exI) (rule entry_version_aba [OF sample_libs_ok refl refl refl])

section \<open>Tombstones and garbage collection\<close>

text \<open>
  C0: \<open>create_tombstone\<close> writes a tombstone only where none is; a
  repeated deletion with the same details answers with the stored one; any other
  deletion of the id is a conflict, and an unreadable one a protocol error.
\<close>

theorem create_tombstone_cases:
  fixes w :: "'z world_scheme"
  assumes "libs_ok L" "events w = []"
  shows "create_tombstone L i path name deleted_by refs retention_days w =
    (let t = planned_tombstone L (now w) i path name deleted_by refs retention_days;
         b = json_of (json_tombstone L) t
     in case contents (objects w) (tombstone_key L i) of
       None \<Rightarrow> (Inr t, w\<lparr>objects := btree_insert (tombstone_key L i) (b, store_etag L b) (objects w)\<rparr>)
     | Some b \<Rightarrow>
         (case parse_json L (json_tombstone L) ''UTF-8: '' ''deserialize tombstone: '' b of
            Inl e \<Rightarrow> Inl e
          | Inr existing \<Rightarrow> if same_delete_details existing t then Inr existing else Inl (different_deletion L i), w))"
  using create_tombstone_quiet [OF assms] by (simp add: Let_def)

theorem create_tombstone_cases_witness:
  "fst (create_tombstone sample_libs 3 ''a'' ''a'' ''9'' [] 30 (sample_world (stored_tombstone 200)))
     = Inr (sample_tombstone 200 ''a'')
   \<and> fst (create_tombstone sample_libs 3 ''b'' ''b'' ''9'' [] 30 (sample_world (stored_tombstone 200)))
     = Inl (different_deletion sample_libs 3)"
  by (simp add: create_tombstone_cases [OF sample_libs_ok] Let_def stored_tombstone_def libs_ok_codecs sample_libs_ok
      same_delete_details_def planned_tombstone_def sample_tombstone_def)

text \<open>
  C23: while the bucket holds another version of the tombstone than the
  one the caller prepared its replacement for, \<open>replace_tombstone\<close> never overwrites it,
  whatever fails or is retried; and it answers with a tombstone only when that one
  records the caller's own deletion.
\<close>

theorem replace_tombstone_spares:
  assumes "libs_ok L" "guarded (only_version L (tombstone_key L (ts_file_id candidate)) v) w"
    and "env_keeps (store_inv L) w" "map_option (store_etag L) v \<noteq> Some (tv_etag previous)"
    and "replace_tombstone L previous candidate w = (r, w')"
  shows "contents (objects w') (tombstone_key L (ts_file_id candidate)) = v
    \<and> (case r of Inl _ \<Rightarrow> True | Inr t \<Rightarrow> same_deletion t candidate)"
proof -
  have "guarded (only_version L (tombstone_key L (ts_file_id candidate)) v) w' \<and> (\<forall>t. r = Inr t \<longrightarrow> same_deletion t candidate)"
    by (rule replace_tombstone_guarded [OF assms(1,2) _ assms(3) _ assms(5)])
      (use assms(4) in \<open>auto simp: only_version_def\<close>)
  then show ?thesis by (auto simp: guarded_def only_version_def split: sum.splits)
qed

theorem replace_tombstone_spares_witness:
  "contents (objects (snd (replace_tombstone sample_libs
        \<lparr>tv_tombstone = sample_tombstone 200 ''x'', tv_etag = ''old''\<rparr> (sample_tombstone 200 ''c'')
        (sample_world (stored_tombstone 200))))) (tombstone_key sample_libs (ts_file_id (sample_tombstone 200 ''c'')))
      = Some (json_of (json_tombstone sample_libs) (sample_tombstone 200 ''a''))
    \<and> (case fst (replace_tombstone sample_libs
        \<lparr>tv_tombstone = sample_tombstone 200 ''x'', tv_etag = ''old''\<rparr> (sample_tombstone 200 ''c'')
        (sample_world (stored_tombstone 200))) of
       Inl _ \<Rightarrow> True | Inr t \<Rightarrow> same_deletion t (sample_tombstone 200 ''c''))"
proof (rule replace_tombstone_spares [OF sample_libs_ok _ _ _ surjective_pairing])
  show "guarded (only_version sample_libs (tombstone_key sample_libs (ts_file_id (sample_tombstone 200 ''c'')))
      (Some (json_of (json_tombstone sample_libs) (sample_tombstone 200 ''a''))))
      (sample_world (stored_tombstone 200))"
    by (rule guarded_sample) (simp add: only_version_def stored_tombstone_def)
  show "env_keeps (store_inv sample_libs) (sample_world (stored_tombstone 200))"
    by (simp add: env_keeps_def)
  have "CHR ''o'' \<notin> set (store_etag sample_libs b)" for b
    by (rule sample_etag_digits) (simp_all add: is_digit_char_def)
  then show "map_option (store_etag sample_libs) (Some (json_of (json_tombstone sample_libs) (sample_tombstone 200 ''a'')))
      \<noteq> Some (tv_etag \<lparr>tv_tombstone = sample_tombstone 200 ''x'', tv_etag = ''old''\<rparr>)"
    by (metis list.set_intros(1) option.inject option.map(2) tombstone_version.select_convs(2))
qed

text \<open>
  Undisturbed, \<open>collect_garbage\<close> removes the tombstone and the
  tree entry of exactly the ids whose retention has passed and leaves every other
  object as it is.
\<close>

theorem garbage_collected_exactly:
  assumes "libs_ok L" "events w = []"
  shows "\<exists>n w'. collect_garbage L w = (Inr n, w')
    \<and> contents (objects w') = (\<lambda>k. if \<exists>i. expired_in L (now w) (objects w) i
        \<and> (k = tombstone_key L i \<or> k = tree_entry_key L i) then None else contents (objects w) k)"
  using assms by (rule collect_garbage_quiet_lemma)

theorem garbage_collected_exactly_witness:
  "\<exists>n w'. collect_garbage sample_libs (sample_world (stored_tombstone 50)) = (Inr n, w')
    \<and> contents (objects w') = (\<lambda>k. if \<exists>i. expired_in sample_libs (now (sample_world (stored_tombstone 50)))
          (objects (sample_world (stored_tombstone 50))) i
        \<and> (k = tombstone_key sample_libs i \<or> k = tree_entry_key sample_libs i) then None
        else contents (objects (sample_world (stored_tombstone 50))) k)"
  by (rule garbage_collected_exactly [OF sample_libs_ok]) simp

text \<open>
  The deletes of \<open>collect_garbage\<close> are unconditional. A deletion
  that replaces the expired tombstone after it was read, together with an entry that
  was restored under the id, is removed along with it, unread.
\<close>

theorem garbage_collection_races:
  assumes "libs_ok L" "tombstone_expired L t old"
    and "put = (\<lambda>k b. btree_insert k (b, store_etag L b))" "i = ts_file_id old"
    and "objects w = put (tombstone_key L i) (json_of (json_tombstone L) old) []" "now w = t"
    and "events w = [no_event, no_event, no_event\<lparr>ev_env := put (tree_entry_key L i) (json_of (json_entry L) x)
          \<circ> put (tombstone_key L i) (json_of (json_tombstone L) new)\<rparr>]"
  shows "objects (snd (collect_garbage L w)) = []"
  using collect_garbage_races [OF assms(1,2), of w x new] assms(3-7) by simp

theorem garbage_collection_races_witness: "objects (snd (collect_garbage sample_libs race_world)) = []"
proof (rule garbage_collection_races [OF sample_libs_ok _ refl refl, where t = 100 and old = "sample_tombstone 50 ''a''"])
  show "tombstone_expired sample_libs 100 (sample_tombstone 50 ''a'')"
    using libs_ok_time [OF sample_libs_ok, of 50]
    by (simp add: tombstone_expired_def sample_tombstone_def sample_libs_def)
qed (auto simp: race_world_def stored_tombstone_def put_raw_def fun_eq_iff simp del: btree_insert.simps)

section \<open>Compaction of the operation log\<close>

text \<open>
  C19: a run of \<open>compact\<close>, finished or broken off by any error, among
  other devices that do the same, deletes nothing but operations strictly older than
  the head that the snapshot covers; every other object except its own cursor stays as
  it was.
\<close>

theorem compaction_prunes_ancestors:
  assumes "libs_ok L" "chain L m0 covered (x # anc)" "guarded (prune_inv L m0 anc) w"
    and "sm_covered_head snapshot = Some covered"
    and "compact L snapshot batch_limit stale_days retention_days w = (r, w')"
  shows "contents (objects w') k = contents m0 k \<or> k = ops_tail_key
    \<or> (contents (objects w') k = None \<and> k \<in> op_key ` op_op_id ` set anc)"
  using compact_pruned [OF assms] by (auto simp: guarded_def prune_inv_def)

theorem compaction_prunes_ancestors_witness:
  "contents (objects (snd (compact sample_libs (sample_snapshot_metadata 4) 10 1 0 (sample_world sample_bucket)))) head_key
     = contents sample_bucket head_key \<or> head_key = ops_tail_key
   \<or> (contents (objects (snd (compact sample_libs (sample_snapshot_metadata 4) 10 1 0 (sample_world sample_bucket)))) head_key
       = None \<and> head_key \<in> op_key ` op_op_id ` set ([] :: operation list))"
proof (rule compaction_prunes_ancestors [OF sample_libs_ok _ _ _ surjective_pairing])
  show "chain sample_libs sample_bucket (op_op_id sample_op) (sample_op # [])"
    using committed_sample by (auto simp: committed_def sample_bucket_contents simp del: sample_op_fields)
  show "guarded (prune_inv sample_libs sample_bucket []) (sample_world sample_bucket)"
    by (rule guarded_sample)
      (simp add: prune_inv_def sample_bucket_def put_raw_def del: btree_insert.simps sample_op_fields)
  show "sm_covered_head (sample_snapshot_metadata 4) = Some (op_op_id sample_op)"
    by (simp add: sample_snapshot_metadata_def)
qed

text \<open>
  While one active, recently seen device has not applied the snapshot,
  \<open>compact\<close> changes nothing at all.
\<close>

theorem compaction_waits:
  assumes "events v = []" "fresh_watermark L stale_days (now v) (objects v) k w"
    and "wm_applied_snapshot_seq w < sm_seq_num snapshot"
  shows "snd (compact L snapshot batch_limit stale_days retention_days v) = v"
  using assms by (rule compact_waits_lemma)

theorem compaction_waits_witness:
  "snd (compact sample_libs (sample_snapshot_metadata 4) 10 1 0
      (sample_world (put_raw (device_watermark_key ''9'') (json_of (json_watermark sample_libs) (sample_watermark 2)) [])))
    = sample_world (put_raw (device_watermark_key ''9'') (json_of (json_watermark sample_libs) (sample_watermark 2)) [])"
proof (rule compaction_waits)
  show "fresh_watermark sample_libs 1 (now (sample_world (put_raw (device_watermark_key ''9'')
        (json_of (json_watermark sample_libs) (sample_watermark 2)) [])))
      (objects (sample_world (put_raw (device_watermark_key ''9'') (json_of (json_watermark sample_libs) (sample_watermark 2)) [])))
      (device_watermark_key ''9'') (sample_watermark 2)"
    using libs_ok_time [OF sample_libs_ok, of 90]
    by (simp add: fresh_watermark_def mem_keys_set libs_ok_codecs sample_libs_ok timestamp_is_stale_def duration_days_def
        as_i64_def sample_watermark_def)
      (simp add: sample_libs_def duration_days_def as_i64_def device_watermark_key_def device_prefix_def starts_with_def ends_with_def)
qed (simp_all add: sample_watermark_def sample_snapshot_metadata_def)

text \<open>
  On an undisturbed log \<open>head_reaches\<close> answers whether the other
  operation is among the newest \<open>max_depth + 1\<close> of the head's history; the two boundary
  tests of the loop do not cost it an operation.
\<close>

theorem head_reaches_exactly:
  assumes "events w = []" "chain L (objects w) h xs" "h \<noteq> []" "a \<noteq> []"
  shows "head_reaches L h a n w = (Inr (h = a \<or> (n > 0 \<and> a \<in> op_op_id ` set (take (Suc n) xs))), w)"
  using assms head_reaches_loop_chain [OF assms] by (auto simp: head_reaches_def io_return_apply)

theorem head_reaches_exactly_witness:
  "head_reaches sample_libs (op_op_id sample_op) ''x'' 5 (sample_world sample_bucket)
    = (Inr (op_op_id sample_op = ''x'' \<or> ((5::nat) > 0 \<and> ''x'' \<in> op_op_id ` set (take (Suc 5) [sample_op]))),
       sample_world sample_bucket)"
proof (rule head_reaches_exactly)
  show "chain sample_libs (objects (sample_world sample_bucket)) (op_op_id sample_op) [sample_op]"
    using committed_sample by (auto simp: committed_def sample_bucket_contents simp del: sample_op_fields)
qed (use sample_head_text in \<open>auto simp: head_text_def simp del: sample_op_fields\<close>)

section \<open>Snapshots\<close>

text \<open>
  An undisturbed \<open>write_snapshot_for_head\<close> is read back as it was
  written, entries and metadata, LATEST names it, and no other object changed.
\<close>

theorem snapshot_roundtrip:
  fixes w :: "'z world_scheme"
  assumes "libs_ok L" "events w = []" "write_snapshot_for_head L entries n covered w = (r, w')"
  shows "read_snapshot L n w' = (Inr entries, w')
    \<and> (\<exists>m. read_snapshot_metadata L n w' = (Inr m, w') \<and> sm_seq_num m = n \<and> sm_covered_head m = covered
        \<and> sm_entry_count m = of_nat (length entries) \<and> sm_tree_key m = snapshot_key n)
    \<and> contents (objects w') snapshot_latest_key = Some (zero_padded 20 (unat n))
    \<and> (k \<in> {snapshot_key n, snapshot_metadata_key n, snapshot_latest_key}
       \<or> contents (objects w') k = contents (objects w) k)"
  using write_snapshot_quiet [OF assms] by blast

theorem snapshot_roundtrip_witness:
  "\<exists>w' :: world. read_snapshot sample_libs 4 w' = (Inr [sample_entry ''a''], w')
    \<and> (\<exists>m. read_snapshot_metadata sample_libs 4 w' = (Inr m, w') \<and> sm_seq_num m = 4 \<and> sm_covered_head m = Some ''x''
        \<and> sm_entry_count m = of_nat (length [sample_entry ''a'']) \<and> sm_tree_key m = snapshot_key 4)
    \<and> contents (objects w') snapshot_latest_key = Some (zero_padded 20 (unat (4 :: u64)))
    \<and> (head_key \<in> {snapshot_key 4, snapshot_metadata_key 4, snapshot_latest_key}
       \<or> contents (objects w') head_key = contents (objects (sample_world [])) head_key)"
  using snapshot_roundtrip [OF sample_libs_ok _ surjective_pairing, where w = "sample_world []"
      and entries = "[sample_entry ''a'']" and n = 4 and covered = "Some ''x''" and k = head_key]
  by (intro exI [of _ "snd (write_snapshot_for_head sample_libs [sample_entry ''a''] 4 (Some ''x'') (sample_world []))"]) simp

text \<open>
  C0: \<open>find_latest_snapshot\<close> names the stored tree snapshot with the greatest
  sequence number, and nothing only if no tree snapshot is stored.
\<close>

theorem latest_snapshot:
  assumes "events w = []" "find_latest_snapshot w = (r, w')"
  shows "w' = w \<and> (case r of
      Inl _ \<Rightarrow> False
    | Inr None \<Rightarrow> contents (objects w) k = None \<or> tree_seq k = None
    | Inr (Some (n, k')) \<Rightarrow> contents (objects w) k' \<noteq> None \<and> tree_seq k' = Some n
        \<and> (contents (objects w) k = None \<or> tree_seq k = None \<or> the (tree_seq k) \<le> n))"
proof -
  have "\<exists>a. r = Inr a"
    using assms by (auto simp: find_latest_snapshot_def quiet_requests io_simps)
  then show ?thesis
    using find_latest_quiet [OF assms]
    by (cases "contents (objects w) k"; cases "tree_seq k") (fastforce split: option.splits)+
qed

theorem latest_snapshot_witness:
  "snd (find_latest_snapshot (sample_world stored_snapshots)) = sample_world stored_snapshots
   \<and> (case fst (find_latest_snapshot (sample_world stored_snapshots)) of
      Inl _ \<Rightarrow> False
    | Inr None \<Rightarrow> contents (objects (sample_world stored_snapshots)) (snapshot_key 5) = None
        \<or> tree_seq (snapshot_key 5) = None
    | Inr (Some (n, k')) \<Rightarrow> contents (objects (sample_world stored_snapshots)) k' \<noteq> None \<and> tree_seq k' = Some n
        \<and> (contents (objects (sample_world stored_snapshots)) (snapshot_key 5) = None
           \<or> tree_seq (snapshot_key 5) = None \<or> the (tree_seq (snapshot_key 5)) \<le> n))"
  by (rule latest_snapshot [OF _ surjective_pairing]) simp

text \<open>
  An undisturbed \<open>prune_snapshots keep\<close> deletes every object of a
  snapshot that has \<open>keep\<close> or more newer ones, and no other object.
\<close>

theorem prune_keeps_newest:
  assumes "events w = []" "prune_snapshots keep w = (r, w')"
  shows "contents (objects w') k =
      (case snapshot_seq k of
         None \<Rightarrow> contents (objects w) k
       | Some n \<Rightarrow> if unat keep \<le> rank (objects w) n then None else contents (objects w) k)
    \<and> r = Inr (of_nat (card {n \<in> seqs_in (objects w). unat keep \<le> rank (objects w) n}))"
  using prune_snapshots_quiet [OF assms] by blast

theorem prune_keeps_newest_witness:
  "contents (objects (snd (prune_snapshots 1 (sample_world stored_snapshots)))) (snapshot_key 3) =
      (case snapshot_seq (snapshot_key 3) of
         None \<Rightarrow> contents (objects (sample_world stored_snapshots)) (snapshot_key 3)
       | Some n \<Rightarrow> if unat (1 :: u32) \<le> rank (objects (sample_world stored_snapshots)) n then None
           else contents (objects (sample_world stored_snapshots)) (snapshot_key 3))
    \<and> fst (prune_snapshots 1 (sample_world stored_snapshots))
        = Inr (of_nat (card {n \<in> seqs_in (objects (sample_world stored_snapshots)).
            unat (1 :: u32) \<le> rank (objects (sample_world stored_snapshots)) n}))"
  by (rule prune_keeps_newest [OF _ surjective_pairing]) simp

section \<open>Bucket initialization and schema upgrades\<close>

text \<open>
  C0: \<open>init_bucket\<close> on a bucket that has a descriptor fails and leaves
  the descriptor as it is, under any faults and interleaving.
\<close>

theorem existing_bucket_refused:
  assumes "guarded (descriptor_is b) w" "init_bucket L E name w = (r, w')"
  shows "isl r \<and> contents (objects w') descriptor_key = Some b"
  using assms by (rule init_bucket_refused)

theorem existing_bucket_refused_witness:
  "isl (fst (init_bucket sample_libs sample_env ''me'' (sample_engine (put_raw descriptor_key ''d'' []))))
   \<and> contents (objects (snd (init_bucket sample_libs sample_env ''me'' (sample_engine (put_raw descriptor_key ''d'' [])))))
       descriptor_key = Some ''d''"
  by (rule existing_bucket_refused [OF _ surjective_pairing])
    (simp add: guarded_def env_keeps_def descriptor_is_def sample_engine_def)

text \<open>
  Undisturbed on a bucket without a descriptor, \<open>init_bucket\<close> returns
  the descriptor that the next \<open>read_descriptor\<close> reads and accepts, and registers the
  device.
\<close>

theorem bucket_initialized:
  fixes w :: "'z metadata_engine_scheme"
  assumes "libs_ok L" "renders E" "events w = []"
    and "contents (objects w) descriptor_key = None" "uuid_now_v7 L (draws w) \<noteq> 0"
  shows "\<exists>w'. init_bucket L E name w = (Inr (new_descriptor L (uuid_now_v7 L (draws w)) (now w) name), w')
    \<and> contents (objects w') (device_registration_key (uuid_text L (me_device_id w)))
        = Some (json_of (json_device L) (registered_device L E (me_device_id w) name (now w)))
    \<and> read_descriptor L w' = (Inr (new_descriptor L (uuid_now_v7 L (draws w)) (now w) name), w')"
  using assms by (rule init_bucket_quiet)

theorem bucket_initialized_witness:
  "\<exists>w'. init_bucket sample_libs sample_env ''me'' (sample_engine [])
      = (Inr (new_descriptor sample_libs (uuid_now_v7 sample_libs (draws (sample_engine []))) (now (sample_engine [])) ''me''), w')
    \<and> contents (objects w') (device_registration_key (uuid_text sample_libs (me_device_id (sample_engine []))))
        = Some (json_of (json_device sample_libs) (registered_device sample_libs sample_env
            (me_device_id (sample_engine [])) ''me'' (now (sample_engine []))))
    \<and> read_descriptor sample_libs w'
      = (Inr (new_descriptor sample_libs (uuid_now_v7 sample_libs (draws (sample_engine []))) (now (sample_engine [])) ''me''), w')"
  by (rule bucket_initialized [OF sample_libs_ok sample_env_renders])
    (simp_all add: sample_engine_def, simp add: sample_libs_def)

text \<open>
  C0: \<open>upgrade_schema\<close> leaves a descriptor of the supported version alone;
  an older one it replaces by one of that version with the same id and all its
  capabilities, touching only the descriptor and the migration marker.
\<close>

theorem schema_upgraded:
  fixes w :: "'z world_scheme"
  assumes "libs_ok L" "renders E" "events w = []" "store_inv L (objects w)"
    and "contents (objects w) descriptor_key = Some (json_of (json_descriptor L) d)" "validate_descriptor d = Inr ()"
  shows "\<exists>w'. upgrade_schema L E w = (Inr (), w')
    \<and> (if supported_schema_version \<le> bd_schema_version d then w' = w
       else read_descriptor L w' = (Inr (upgraded L d), w') \<and> bd_schema_version (upgraded L d) = supported_schema_version
         \<and> bd_bucket_id (upgraded L d) = bd_bucket_id d \<and> set (bd_capabilities d) \<subseteq> set (bd_capabilities (upgraded L d))
         \<and> (k = descriptor_key \<or> k = schema_migration_key supported_schema_version
            \<or> contents (objects w') k = contents (objects w) k))"
  using upgrade_schema_quiet [OF assms] by (auto split: if_splits)

theorem schema_upgraded_witness:
  "\<exists>w'. upgrade_schema sample_libs sample_env (sample_world stored_descriptor) = (Inr (), w')
    \<and> (if supported_schema_version \<le> bd_schema_version sample_descriptor then w' = sample_world stored_descriptor
       else read_descriptor sample_libs w' = (Inr (upgraded sample_libs sample_descriptor), w')
         \<and> bd_schema_version (upgraded sample_libs sample_descriptor) = supported_schema_version
         \<and> bd_bucket_id (upgraded sample_libs sample_descriptor) = bd_bucket_id sample_descriptor
         \<and> set (bd_capabilities sample_descriptor) \<subseteq> set (bd_capabilities (upgraded sample_libs sample_descriptor))
         \<and> (head_key = descriptor_key \<or> head_key = schema_migration_key supported_schema_version
            \<or> contents (objects w') head_key = contents (objects (sample_world stored_descriptor)) head_key))"
  by (rule schema_upgraded [OF sample_libs_ok sample_env_renders])
    (simp_all add: stored_descriptor_def sample_descriptor_def validate_descriptor_def supported_schema_version_def)

section \<open>Blobs\<close>

text \<open>
  An answered \<open>store_blob\<close> leaves an object under the returned storage
  key whose content has the returned hash, whether this device or another one put it
  there, under any faults, while the bucket keeps content under the hash it has.
\<close>

theorem stored_blob_present:
  assumes "hex_ok L" "guarded (blob_inv L) w" "store_blob L data mime w = (Inr (i, c), w')"
  shows "(\<exists>b. contents (objects w') (cr_storage_key c) = Some b \<and> blob_hash L b = blob_hash L data)
    \<and> c = content_ref_for L data (of_nat (length data)) mime \<and> i = cr_blob_id c"
  using store_blob_stored [OF assms] by blast

theorem stored_blob_present_witness:
  "(\<exists>b. contents (objects (snd (store_blob sample_libs ''hi'' ''text'' (sample_world []))))
        (cr_storage_key (content_ref_for sample_libs ''hi'' (of_nat (length ''hi'')) ''text'')) = Some b
      \<and> blob_hash sample_libs b = blob_hash sample_libs ''hi'')
    \<and> content_ref_for sample_libs ''hi'' (of_nat (length ''hi'')) ''text''
      = content_ref_for sample_libs ''hi'' (of_nat (length ''hi'')) ''text''
    \<and> cr_blob_id (content_ref_for sample_libs ''hi'' (of_nat (length ''hi'')) ''text'')
      = cr_blob_id (content_ref_for sample_libs ''hi'' (of_nat (length ''hi'')) ''text'')"
proof (rule stored_blob_present [OF sample_hex_ok])
  show "guarded (blob_inv sample_libs) (sample_world [])"
    by (rule guarded_sample) (simp add: blob_inv_def)
  from store_blob_quiet [of "sample_world []" sample_libs "''hi''" "''text''"]
  obtain c w' where *: "store_blob sample_libs ''hi'' ''text'' (sample_world []) = (Inr (cr_blob_id c, c), w')" by auto
  then have "c = content_ref_for sample_libs ''hi'' (of_nat (length ''hi'')) ''text''"
    by (auto simp: store_blob_def Let_def io_simps quiet_head split: sum.splits if_splits prod.splits)
  with * show "store_blob sample_libs ''hi'' ''text'' (sample_world [])
      = (Inr (cr_blob_id (content_ref_for sample_libs ''hi'' (of_nat (length ''hi'')) ''text''),
           content_ref_for sample_libs ''hi'' (of_nat (length ''hi'')) ''text''),
         snd (store_blob sample_libs ''hi'' ''text'' (sample_world [])))"
    by simp
qed

text \<open>
  A file whose second hash differs from the first is not stored:
  \<open>store_file\<close> fails and the bucket is as before.
\<close>

theorem changed_file_withdrawn:
  assumes "events w = []" "contents (objects w) (blob_key (blob_hash L data)) = None"
    "blob_hash L data' \<noteq> blob_hash L data"
  shows "\<exists>w'. store_file L path (Inr data) (Inr sent) (Inr data') mime w =
      (Inl (FileSystem (''file changed during upload: '' @ path)), w') \<and> contents (objects w') = contents (objects w)"
  using assms by (rule store_file_changed)

theorem changed_file_withdrawn_witness:
  "\<exists>w'. store_file sample_libs ''f'' (Inr ''old'') (Inr ''mix'') (Inr ''new'') ''text'' (sample_world []) =
      (Inl (FileSystem (''file changed during upload: '' @ ''f'')), w')
    \<and> contents (objects w') = contents (objects (sample_world []))"
  by (rule changed_file_withdrawn) (simp_all add: blob_hash_def sample_libs_def tokens_text_inj map_of_char_inj)

text \<open>
  C26: a file that differs only while it is sent, and is back when it is
  hashed again, is stored with other bytes than the key names.
\<close>

theorem swapped_file_stored:
  assumes "events w = []" "contents (objects w) (blob_key (blob_hash L data)) = None"
  shows "\<exists>c w'. store_file L path (Inr data) (Inr other) (Inr data) mime w = (Inr (cr_blob_id c, c), w')
    \<and> cr_hash c = blob_hash L data \<and> get_blob (cr_hash c) w' = (Inr other, w')"
  using assms by (rule store_file_swapped)

theorem swapped_file_stored_witness:
  "\<exists>c w'. store_file sample_libs ''f'' (Inr ''old'') (Inr ''mix'') (Inr ''old'') ''text'' (sample_world [])
      = (Inr (cr_blob_id c, c), w')
    \<and> cr_hash c = blob_hash sample_libs ''old'' \<and> get_blob (cr_hash c) w' = (Inr ''mix'', w')"
  by (rule swapped_file_stored) simp_all

section \<open>Line diff and three-way merge\<close>

text \<open>
  C25: the changes \<open>diff_lines\<close> finds, applied to the base, give exactly the
  modified text; they are in order, within the base, and never touch each other.
\<close>

theorem diff_reconstructs:
  "apply_changes base (diff_lines base modified) 0 = modified
    \<and> changes_from (length base) 0 (diff_lines base modified)"
  using diff_lines_apply_lemma diff_lines_changes by blast

text \<open>
  The table and walk of \<open>lcs_pairs\<close> find a longest common subsequence: no
  sequence contained in both texts is longer.
\<close>

theorem lcs_longest:
  assumes "subseq zs base" "subseq zs modified"
  shows "length zs \<le> length (lcs_pairs base modified)
    \<and> matching base modified 0 0 (lcs_pairs base modified)"
  using lcs_pairs_longest_lemma [OF assms] lcs_pairs_ok(1) by blast

theorem lcs_longest_witness:
  "length ''bc'' \<le> length (lcs_pairs ''abc'' ''bdc'') \<and> matching ''abc'' ''bdc'' 0 0 (lcs_pairs ''abc'' ''bdc'')"
  by (rule lcs_longest) simp_all

text \<open>
  C24: where no local change meets a remote one, the three-way merge is the base
  with both sides' changes applied in order, and contains no conflict markers of its own.
\<close>

theorem clean_merge:
  assumes "\<forall>l \<in> set (diff_lines base local). \<forall>r \<in> set (diff_lines base remote).
      \<not> changes_overlap_or_same_insertion l r"
  shows "merge_line_changes base (diff_lines base local) (diff_lines base remote) ln rn
    = Some (apply_changes base (interleave (diff_lines base local) (diff_lines base remote)) 0)"
  by (rule merge_clean_lemma [OF diff_lines_changes diff_lines_changes assms])

theorem clean_merge_witness:
  "merge_line_changes [''a'', ''b'', ''c''] (diff_lines [''a'', ''b'', ''c''] [''x'', ''b'', ''c''])
      (diff_lines [''a'', ''b'', ''c''] [''a'', ''b'', ''y'']) ''L'' ''R''
    = Some (apply_changes [''a'', ''b'', ''c''] (interleave (diff_lines [''a'', ''b'', ''c''] [''x'', ''b'', ''c''])
        (diff_lines [''a'', ''b'', ''c''] [''a'', ''b'', ''y''])) 0)"
  by (rule clean_merge) code_simp



text \<open>
  C22: for any three texts the merge panics exactly if no shortcut applies, all
  three being different, and some change of one side meets two changes of the other. The
  clash with the first of the two moves the cursor past the start of the second, and the next
  slice of the base is out of order.
\<close>

theorem merge_panics:
  "text_three_way_merge base local remote local_file remote_file = None
    \<longleftrightarrow> local \<noteq> remote \<and> local \<noteq> base \<and> remote \<noteq> base
      \<and> \<not> single_overlap (diff_lines (str_lines base) (str_lines local)) (diff_lines (str_lines base) (str_lines remote))"
  using merge_returns_iff [OF diff_lines_changes diff_lines_changes] by (simp add: text_three_way_merge_def)

theorem merge_panics_witness:
  "text_three_way_merge (str_join [CHR 0x0A] [''a'', ''b'', ''c'', ''d'']) (str_join [CHR 0x0A] [''x'', ''d''])
     (str_join [CHR 0x0A] [''y'', ''b'', ''z'', ''d'']) ''L'' ''R'' = None"
  unfolding merge_panics by code_simp

section \<open>The revision graph\<close>

text \<open>
  C27: for two revisions whose parent chains end, \<open>lowest_common_ancestor\<close>
  returns the first revision of the second chain that is on the first, and
  \<open>is_ancestor_of\<close> decides membership in the chain.
\<close>

theorem common_ancestor_found:
  assumes "descends ps a as" "descends ps b bs"
  shows "lowest_common_ancestor a b ps = Some (find (\<lambda>r. r \<in> set as) bs)
    \<and> is_ancestor_of a b ps = Some (a \<in> set bs)"
  using lca_descends_lemma [OF assms] ancestor_walk_descends [OF assms(2)] by (simp add: is_ancestor_of_def)

theorem common_ancestor_found_witness:
  "lowest_common_ancestor 3 2 [(3, Some 1), (2, Some 1)] = Some (find (\<lambda>r. r \<in> set [3, 1]) [2, 1])
    \<and> is_ancestor_of 3 2 [(3, Some 1), (2, Some 1)] = Some ((3 :: revision_id) \<in> set [2, 1])"
proof (rule common_ancestor_found)
  have root: "descends [(3, Some 1), (2, Some 1)] 1 [1]" by (rule descends_root) (simp add: parent_of_def)
  show "descends [(3, Some 1), (2, Some 1)] 3 [3, 1]" "descends [(3, Some 1), (2, Some 1)] 2 [2, 1]"
    by (rule descends_step [OF _ root]; simp add: parent_of_def)+
qed

text \<open>
  C28: the walks return whenever every parent has a smaller rank than its
  child, which a graph without cycles has.
\<close>

theorem graph_walks_return:
  assumes "\<And>r p. parent_of ps r = Some p \<Longrightarrow> depth p < (depth r :: nat)"
  shows "lowest_common_ancestor a b ps \<noteq> None \<and> is_ancestor_of a b ps \<noteq> None"
proof -
  have "\<exists>line. descends ps r line" for r
    by (rule descends_ranked [of ps depth]) (rule assms)
  then obtain as bs where "descends ps a as" "descends ps b bs" by blast
  then show ?thesis
    using lca_descends_lemma ancestor_walk_descends by (simp add: is_ancestor_of_def)
qed

theorem graph_walks_return_witness:
  "lowest_common_ancestor 3 2 [(3, Some 1), (2, Some 1)] \<noteq> None \<and> is_ancestor_of 3 2 [(3, Some 1), (2, Some 1)] \<noteq> None"
  by (rule graph_walks_return [where depth = unat]) (auto simp: parent_of_def split: if_splits)

section \<open>Conflict copies and paths\<close>

text \<open>
  C29: whatever the file, the device and the date are called, the path
  of a conflict copy is the sync folder followed by plain names: no name of it is
  empty, a dot, two dots or has a slash. A name that would leave the folder is refused.
\<close>

theorem conflict_copy_stays_inside:
  assumes "conflict_copy_path there fresh folder name device date = Inr p" "CHR ''/'' \<notin> set fresh"
  shows "below folder p"
  using assms by (rule conflict_copy_below_lemma)

theorem conflict_copy_stays_inside_witness:
  "case conflict_copy_path (\<lambda>_. False) ''u'' ''/s'' ''d/a.txt'' ''../pc'' ''2024-01-01'' of
     Inl _ \<Rightarrow> False | Inr p \<Rightarrow> below ''/s'' p"
proof -
  have "\<not> isl (conflict_copy_path (\<lambda>_. False) ''u'' ''/s'' ''d/a.txt'' ''../pc'' ''2024-01-01'')"
    by code_simp
  then obtain p where p: "conflict_copy_path (\<lambda>_. False) ''u'' ''/s'' ''d/a.txt'' ''../pc'' ''2024-01-01'' = Inr p"
    by (cases "conflict_copy_path (\<lambda>_. False) ''u'' ''/s'' ''d/a.txt'' ''../pc'' ''2024-01-01''") auto
  from conflict_copy_stays_inside [OF p] p show ?thesis by simp
qed

text \<open>
  A path built from its names by \<open>join_path\<close> is split by
  \<open>split_path\<close> into the same parent and name, and \<open>is_inside\<close> holds exactly when the
  folder's names are the first names of the path.
\<close>

theorem paths_split_and_nest:
  assumes "list_all component ns" "component n" "list_all component fs" "fs \<noteq> []"
  shows "join_path (path_text ns) n = path_text (ns @ [n])
    \<and> split_path (path_text (ns @ [n])) = (path_text ns, n)
    \<and> (is_inside (path_text ns) (path_text fs) \<longleftrightarrow> prefix fs ns)"
  using join_path_text split_path_text is_inside_prefix assms by simp

theorem paths_split_and_nest_witness:
  "join_path (path_text [''a'', ''bc'']) ''d'' = path_text ([''a'', ''bc''] @ [''d''])
    \<and> split_path (path_text ([''a'', ''bc''] @ [''d''])) = (path_text [''a'', ''bc''], ''d'')
    \<and> (is_inside (path_text [''a'', ''bc'']) (path_text [''a'', ''b'']) \<longleftrightarrow> prefix [''a'', ''b''] [''a'', ''bc''])"
  by (rule paths_split_and_nest) (simp_all add: component_def)

section \<open>The S3 adapter\<close>

text \<open>
  An operation that always fails with a retryable error runs
  \<open>max_attempts + 1\<close> times before the error is returned.
\<close>

theorem retries_exhausted:
  assumes "\<And>c. operation c = (Inl e, f c)" "is_retryable e" "\<And>k c. sleep k c = (Inr (), c)"
  shows "with_retry p sleep operation c = (Inl e, (f ^^ (unat (rt_max_attempts p) + 1)) c)"
  unfolding with_retry_def by (rule retry_loop_exhausted [OF assms]) simp

theorem retries_exhausted_witness:
  "with_retry retry_policy_default (\<lambda>_ c. (Inr (), c)) (\<lambda>c. (Inl (Network ''n''), Suc c)) 0
    = (Inl (Network ''n'') :: core_error + unit, (Suc ^^ (unat (rt_max_attempts retry_policy_default) + 1)) 0)"
  by (rule retries_exhausted) simp_all

text \<open>
  A delay never exceeds the policy's maximum and stays within a quarter of
  the exponential base delay, whatever the jitter.
\<close>

theorem delays_bounded:
  assumes "rt_max_delay p < 2 ^ 63"
  shows "delay_for_attempt p nanos k \<le> rt_max_delay p
    \<and> base_delay_for_attempt p k - max (base_delay_for_attempt p k div 4) 1 \<le> delay_for_attempt p nanos k
    \<and> delay_for_attempt p nanos k \<le> base_delay_for_attempt p k + max (base_delay_for_attempt p k div 4) 1"
  using assms by (rule delay_bounds_lemma)

theorem delays_bounded_witness:
  "delay_for_attempt retry_policy_default 12345 2 \<le> rt_max_delay retry_policy_default
    \<and> base_delay_for_attempt retry_policy_default 2 - max (base_delay_for_attempt retry_policy_default 2 div 4) 1
        \<le> delay_for_attempt retry_policy_default 12345 2
    \<and> delay_for_attempt retry_policy_default 12345 2
        \<le> base_delay_for_attempt retry_policy_default 2 + max (base_delay_for_attempt retry_policy_default 2 div 4) 1"
  by (rule delays_bounded) (simp add: retry_policy_default_def)

text \<open>
  A multipart upload sends the bytes of the file in order and nothing
  else, in at most 10000 parts of one byte to 5 MiB.
\<close>

theorem parts_cover_file:
  assumes "length data < 2 ^ 64" "upload_chunks data = Inr cs"
  shows "concat cs = data \<and> length cs \<le> 10000 \<and> list_all (\<lambda>c. c \<noteq> [] \<and> length c \<le> 5242880) cs"
  using upload_chunks_lemma [OF assms] by (simp add: list_all_iff)

theorem parts_cover_file_witness:
  "concat [''xyz''] = ''xyz'' \<and> length [''xyz''] \<le> 10000 \<and> list_all (\<lambda>c. c \<noteq> [] \<and> length c \<le> 5242880) [''xyz'']"
  by (rule parts_cover_file)
    (simp_all add: upload_chunks_def multipart_part_count_def multipart_part_size_def max_multipart_parts_def part_chunk_def)

section \<open>Resource control\<close>

text \<open>
  A limited \<open>consume\<close> that returns has taken no more bytes than
  the bucket held plus what the refills it used brought, and keeps the bucket within
  its burst.
\<close>

theorem limiter_spends_what_arrives:
  assumes "consume arrivals n l = Some (l', rest)" "rl_rate l \<noteq> 0" "limiter_inv l"
  shows "limiter_inv l' \<and> (\<exists>used. arrivals = used @ rest
       \<and> unat n + unat (rl_tokens l') \<le> unat (rl_tokens l) + arrived_total used)"
  using assms consume_loop_spends by (simp add: consume_def)

theorem limiter_spends_what_arrives_witness:
  "limiter_inv ((rate_limiter_new 10)\<lparr>rl_tokens := 3\<rparr>)
    \<and> (\<exists>used. [Some 5, None, None] = used @ [None, None]
       \<and> unat (12 :: u64) + unat (rl_tokens ((rate_limiter_new 10)\<lparr>rl_tokens := 3\<rparr>))
          \<le> unat (rl_tokens (rate_limiter_new 10)) + arrived_total used)"
  by (rule limiter_spends_what_arrives [OF _ _ limiter_inv_new])
    (code_simp, simp add: rate_limiter_new_def)

text \<open>
  The entries that \<open>lru_eviction_candidates\<close> does not name number
  at most \<open>max_items\<close> and take at most \<open>max_bytes\<close>; named and kept entries together are
  the entries given.
\<close>

theorem eviction_respects_budgets:
  assumes "max_bytes < u64_max"
  shows "\<exists>kept :: cache_entry list. mset (map ce_key kept) + mset (lru_eviction_candidates es max_items max_bytes) = mset (map ce_key es)
    \<and> length kept \<le> max_items \<and> sum_list (map (unat \<circ> ce_size_bytes) kept) \<le> unat max_bytes"
proof (intro exI conjI)
  let ?kept = "kept_loop max_items max_bytes (newest_first es) 0 0"
  show "mset (map ce_key ?kept) + mset (lru_eviction_candidates es max_items max_bytes) = mset (map ce_key es)"
    using evict_complement [of max_items max_bytes "newest_first es" 0 0]
    by (metis lru_eviction_candidates_def mset_map mset_sort newest_first_def)
  show "length ?kept \<le> max_items" using kept_loop_items [of 0] by simp
  show "sum_list (map (unat \<circ> ce_size_bytes) ?kept) \<le> unat max_bytes"
    using kept_loop_bytes [OF assms, of 0] by simp
qed

theorem eviction_respects_budgets_witness:
  "\<exists>kept :: cache_entry list. mset (map ce_key kept)
      + mset (lru_eviction_candidates [\<lparr>ce_key = ''k'', ce_size_bytes = 5, ce_last_access_unix_ms = 1\<rparr>] 1 4)
      = mset (map ce_key [\<lparr>ce_key = ''k'', ce_size_bytes = 5, ce_last_access_unix_ms = 1\<rparr>])
    \<and> length kept \<le> 1 \<and> sum_list (map (unat \<circ> ce_size_bytes) kept) \<le> unat (4 :: u64)"
  by (rule eviction_respects_budgets) (simp add: u64_max_def)

section \<open>Queries on the history\<close>

text \<open>
  When \<open>superseded\<close> answers, the operation is in the history the bucket
  had during the call, and the answer says whether an operation on the file was
  committed after it.
\<close>

theorem superseded_answers:
  assumes "libs_ok L" "protocol_env L mine s" "log_inv L (objects s)" "superseded L own target s = (Inr later, s')"
  shows "\<exists>us x vs. beyond L (us @ x # vs) (objects s') \<and> op_op_id x = own
    \<and> own \<notin> op_op_id ` set us \<and> (later \<longleftrightarrow> (\<exists>u \<in> set us. op_target_file_id u = Some target))"
  using superseded_ok [OF assms(1) settled_log_inv [OF assms(2,3)] assms(4)]
  by (auto dest!: settled_bucket)

theorem superseded_answers_witness:
  "\<exists>us x vs. beyond sample_libs (us @ x # vs) (objects (loaded_log sample_bucket [sample_op]))
    \<and> op_op_id x = op_op_id sample_op \<and> op_op_id sample_op \<notin> op_op_id ` set us
    \<and> (False \<longleftrightarrow> (\<exists>u \<in> set us. op_target_file_id u = Some 3))"
proof (rule superseded_answers [OF sample_libs_ok sample_protocol])
  show "log_inv sample_libs (objects (sample_log sample_bucket))"
    using committed_sample by (auto simp: sample_log_def)
  show "superseded sample_libs (op_op_id sample_op) 3 (sample_log sample_bucket)
      = (Inr False, loaded_log sample_bucket [sample_op])"
    by (rule sample_superseded)
qed

text \<open>
  An operation that \<open>latest_matching\<close> returns is the newest one on the
  file that matches, in the history the bucket had during the call.
\<close>

theorem latest_is_newest:
  assumes "libs_ok L" "protocol_env L mine s" "log_inv L (objects s)"
    and "latest_matching L target matches s = (Inr (Some x), s')"
  shows "\<exists>xs. beyond L xs (objects s') \<and> newest (\<lambda>x. op_target_file_id x = Some target \<and> matches x) xs = Some x"
  using latest_matching_ok [OF assms(1) settled_log_inv [OF assms(2,3)] assms(4)]
  by (auto dest!: settled_bucket)

theorem latest_is_newest_witness:
  "\<exists>xs. beyond sample_libs xs (objects (loaded_log sample_bucket [sample_op]))
    \<and> newest (\<lambda>x. op_target_file_id x = Some 3 \<and> ef_new_revision_id (op_effects x) \<noteq> None) xs = Some sample_op"
proof (rule latest_is_newest [OF sample_libs_ok sample_protocol])
  show "log_inv sample_libs (objects (sample_log sample_bucket))"
    using committed_sample by (auto simp: sample_log_def)
  show "latest_matching sample_libs 3 (\<lambda>x. ef_new_revision_id (op_effects x) \<noteq> None) (sample_log sample_bucket)
      = (Inr (Some sample_op), loaded_log sample_bucket [sample_op])"
    by (rule sample_latest)
qed

section \<open>Durable commits\<close>

text \<open>
  C2: one request of \<open>commit_durable\<close>, run any number of times, each run
  in a new process that opens the receipt the last one left on disk, while other
  devices commit, requests are refused, lose their replies or are retried, and writes
  of the receipt fail before or after reaching the disk: the history gains at most one
  operation of this device, one that was asked for; and every run that answers
  \<open>Ok\<close> answers with exactly that operation.
\<close>

theorem durable_committed_once:
  fixes s :: "(remote_receipt, 'z) durable_scheme"
  assumes "libs_ok L" "request_new L C i (max_commit_attempts * length ps) K s"
    and "durable_runs L C i f ty pre eff ps s = (rs, u)" "own = (\<lambda>y. is_own L (ol_device s) (op_op_id y))"
  shows "\<exists>new. committed L (objects u) (new @ K) \<and> length (filter own new) \<le> 1
    \<and> list_all (request_of f ty eff) (filter own new)
    \<and> list_all (\<lambda>r. case r of Inl _ \<Rightarrow> True | Inr c \<Rightarrow> filter own new = [dc_operation c]) rs"
  unfolding assms(4) by (rule durable_runs_once [OF assms(1-3)])

theorem durable_committed_once_witness:
  "\<exists>own new. committed sample_libs (objects (snd (durable_runs sample_libs sample_receipt_codec sample_request 3 Rename
        sample_preconditions sample_effects [(0, []), (5, [Not_Synced (Internal ''fsync'')])] sample_durable))) (new @ [])
    \<and> length (filter own new) \<le> 1 \<and> list_all (request_of 3 Rename sample_effects) (filter own new)
    \<and> list_all (\<lambda>r. case r of Inl _ \<Rightarrow> True | Inr c \<Rightarrow> filter own new = [dc_operation c])
        (fst (durable_runs sample_libs sample_receipt_codec sample_request 3 Rename
          sample_preconditions sample_effects [(0, []), (5, [Not_Synced (Internal ''fsync'')])] sample_durable))"
proof -
  have "request_new sample_libs sample_receipt_codec sample_request
      (max_commit_attempts * length [(0 :: u64, [] :: disk_fault list), (5, [Not_Synced (Internal ''fsync'')])]) [] sample_durable"
    using sample_request_new by (simp add: max_commit_attempts_def)
  from durable_committed_once [OF sample_libs_ok this surjective_pairing refl] show ?thesis by blast
qed

text \<open>
  A new request of \<open>commit_durable\<close> whose operation passes the
  validation and that no other device, failing request or failing write disturbs succeeds in
  its first run, with the operation built on the head the bucket has, not superseded.
\<close>

theorem durable_succeeds_undisturbed:
  fixes s :: "(remote_receipt, 'z) durable_scheme"
  assumes "libs_ok L" "request_new L C i max_commit_attempts K s" "events s = []"
    and "validate_operation (first_attempt L clock f ty pre eff K s) = Inr ()"
  shows "fst (durable_runs L C i f ty pre eff [(clock, [])] s)
    = [Inr \<lparr>dc_operation = first_attempt L clock f ty pre eff K s, dc_superseded = False\<rparr>]"
  by (rule durable_runs_quiet [OF assms])

theorem durable_succeeds_undisturbed_witness:
  "map (map_sum id (\<lambda>c. (op_base_head (dc_operation c), op_op_type (dc_operation c), dc_superseded c)))
      (fst (durable_runs sample_libs sample_receipt_codec sample_request 3 Rename sample_preconditions sample_effects
        [(9, [])] sample_durable))
    = [Inr ([], Rename, False)]"
proof -
  have new: "request_new sample_libs sample_receipt_codec sample_request max_commit_attempts [] sample_durable"
    using sample_request_new fresh_ids_le [of sample_libs 7 "own_objects []" 0 16 8]
    by (simp add: request_new_def max_commit_attempts_def sample_durable_def)
  have "validate_operation (first_attempt sample_libs 9 3 Rename sample_preconditions sample_effects [] sample_durable)
      = Inr ()"
    by (simp add: first_attempt_def planned_def sample_durable_def validate_operation_def new_op_id_def)
  moreover have "events sample_durable = []" by (simp add: sample_durable_def)
  ultimately show ?thesis
    using durable_succeeds_undisturbed [OF sample_libs_ok new] by (simp add: first_attempt_def planned_def)
qed

section \<open>Publication over local files\<close>

text \<open>
  C7: another program saves the target file atomically, by renaming
  a new file over it, at any moment of a publication, between any two of its system
  calls, some of which may fail. Unless the saved bytes are the content the publication
  was decided against, they are still there when it is over, at the target or at the
  staging name.
\<close>

theorem atomic_save_survives:
  fixes w :: "'z local_world_scheme"
  assumes "publication_location staged = Inr s" "publication_location target = Inr t" "s \<noteq> t"
    and "leaves_disk validate_target" "leaves_disk after_publish"
    and "content_token L b \<noteq> expected"
    and "disk_events w = earlier @ \<lparr>xe_env = atomic_save t j b, xe_fault = ft\<rparr> # later"
    and "list_all (before_save s t j) earlier" "list_all (after_save s t j b) later" "unnamed s t j (disk w)"
    and "publish_staged_checked L i staged target expected validate_target after_publish w = (r, w')"
    and "length (disk_events w') \<le> length later"
  shows "kept s t j b (disk w')"
proof -
  have "save_safe s t j b later w" using assms(7-10) unfolding save_safe_def save_pending_def by blast
  then have "save_safe s t j b later w'"
    by (rule keeps_saveD [OF keeps_save_publish [OF assms(4,5,1,2,3,6)] _ assms(11)])
  then show ?thesis using assms(12) by (auto simp: save_safe_def save_pending_def saved_def)
qed

theorem atomic_save_survives_witness:
  "kept (sample_place ''s'') (sample_place ''t'') 9 ''edit'' (disk (snd (publish_sample (replicate 10 idle_call @ [sample_save]))))"
proof (rule atomic_save_survives [OF sample_locations _ leaves_disk_return leaves_disk_return])
  show "content_token sample_libs ''edit'' \<noteq> content_token sample_libs ''old''" by code_simp
  show "disk_events (sample_local (replicate 10 idle_call @ [sample_save]))
      = replicate 10 idle_call @ \<lparr>xe_env = atomic_save (sample_place ''t'') 9 ''edit'', xe_fault = None\<rparr> # []"
    by (simp add: sample_local_def sample_save_def)
  show "list_all (before_save (sample_place ''s'') (sample_place ''t'') 9) (replicate 10 idle_call)"
    by (simp add: list_all_iff idle_before_save)
  show "unnamed (sample_place ''s'') (sample_place ''t'') 9 (disk (sample_local (replicate 10 idle_call @ [sample_save])))"
    by (simp add: unnamed_def named_at_def sample_local_def sample_disk_def)
  show "publish_staged_checked sample_libs 3 ''/d/s'' ''/d/t'' (content_token sample_libs ''old'') (io_return ()) (io_return ())
      (sample_local (replicate 10 idle_call @ [sample_save]))
      = (fst (publish_sample (replicate 10 idle_call @ [sample_save])), snd (publish_sample (replicate 10 idle_call @ [sample_save])))"
    by (simp add: publish_sample_def)
  show "length (disk_events (snd (publish_sample (replicate 10 idle_call @ [sample_save])))) \<le> length ([] :: disk_event list)"
    by code_simp
qed simp_all

text \<open>
  C17: undisturbed, a publication is a compare-and-replace of
  the local file. With another content than the expected one it answers \<open>StaleWrite\<close> and
  touches nothing. With the expected one the staged file takes the target's place, and the
  displaced file is removed exactly if the index callback succeeds.
\<close>

theorem publish_compares_and_replaces:
  fixes w :: "'z local_world_scheme"
  assumes "disk_events w = []" "validate_target w = (Inr (), w)" "leaves_disk after_publish"
    and "publication_location staged = Inr s" "publication_location target = Inr t" "s \<noteq> t"
    and "path_components staged \<noteq> path_components target" "dirs (disk w) (fst s)" "dirs (disk w) (fst t)"
    and "names (disk w) s = Some (Regular n)" "token_at L t (disk w) = Some current"
    and "publish_staged_checked L i staged target expected validate_target after_publish w = (r, w')"
  shows "if current \<noteq> expected then r = Inl (StaleWrite i) \<and> w' = w
    else disk w' = published s t (case r of Inl _ \<Rightarrow> names (disk w) t | Inr _ \<Rightarrow> None) (disk w)"
proof (cases "current = expected")
  case True
  then show ?thesis using publish_quiet [OF assms(1-10) _ assms(12)] assms(11) by auto
next
  case False
  then have "publish_staged_checked L i staged target expected validate_target after_publish w = (Inl (StaleWrite i), w)"
    by (intro publish_stale_quiet [where w = w and V = validate_target and q = target and t = t and c = current])
      (use assms in simp_all)
  then show ?thesis using assms(12) False by simp
qed

theorem publish_compares_and_replaces_witness:
  "disk (snd (publish_sample [])) = published (sample_place ''s'') (sample_place ''t'') None sample_disk"
proof -
  have run: "publish_staged_checked sample_libs 3 ''/d/s'' ''/d/t'' (content_token sample_libs ''old'') (io_return ())
      (io_return ()) (sample_local []) = (fst (publish_sample []), snd (publish_sample []))"
    by (simp add: publish_sample_def)
  have ok: "fst (publish_sample []) = Inr ()" by code_simp
  have "if content_token sample_libs ''old'' \<noteq> content_token sample_libs ''old''
    then fst (publish_sample []) = Inl (StaleWrite 3) \<and> snd (publish_sample []) = sample_local []
    else disk (snd (publish_sample []))
      = published (sample_place ''s'') (sample_place ''t'') (case fst (publish_sample []) of
          Inl _ \<Rightarrow> names (disk (sample_local [])) (sample_place ''t'') | Inr _ \<Rightarrow> None) (disk (sample_local []))"
    by (rule publish_compares_and_replaces [OF _ _ leaves_disk_return sample_locations _ _ _ _ _ _ run])
      (simp_all add: sample_local_def sample_disk_def io_simps token_at_def path_components_def body_components_def)
  then show ?thesis using ok by (simp add: sample_local_def)
qed

text \<open>
  A program that holds the old file open and writes to it after the
  displaced bytes were verified and before they are removed loses its edit: the
  publication answers \<open>Ok\<close> and no name leads to the edited file any more.
\<close>

theorem displaced_edit_lost:
  "fst (publish_sample (replicate 20 idle_call @ [write_in_place 1 ''edit''])) = Inr ()
    \<and> bytes (disk (snd (publish_sample (replicate 20 idle_call @ [write_in_place 1 ''edit''])))) 1 = ''edit''
    \<and> names (disk (snd (publish_sample (replicate 20 idle_call @ [write_in_place 1 ''edit''])))) (sample_place ''s'') = None
    \<and> names (disk (snd (publish_sample (replicate 20 idle_call @ [write_in_place 1 ''edit''])))) (sample_place ''t'')
      = Some (Regular 0)"
  by code_simp

section \<open>Locks of the local writers\<close>

text \<open>
  C15: whatever entries local writers lock, in one workspace or in
  several, for their content or for the whole topology, and in whatever order they run: as
  long as one of them has not finished, some writer can take its next lock or go on, also
  when waiting writers keep readers out; and the number of steps of a run is bounded.
\<close>

theorem writers_never_deadlock:
  assumes "(lock_step writers_first ^^ n) (requested rs) ts"
  shows "(list_all finished ts \<or> (\<exists>us. lock_step writers_first ts us))
    \<and> n \<le> sum_list (map (\<lambda>r. 2 * length (request_claims r) + 1) rs)"
proof
  have "locks_ok ts" by (rule locks_ok_run [OF requests_ordered lock_run_relpow [OF assms]])
  then show "list_all finished ts \<or> (\<exists>us. lock_step writers_first ts us)" using lock_progress by blast
  show "n \<le> sum_list (map (\<lambda>r. 2 * length (request_claims r) + 1) rs)"
    using lock_steps_bounded [OF assms] by (simp add: total_left_def starting_def comp_def)
qed

theorem writers_never_deadlock_witness:
  "(list_all finished sample_threads \<or> (\<exists>us. lock_step True sample_threads us)) \<and> (2 :: nat) \<le> 16"
proof -
  have "(lock_step True ^^ 2) (requested sample_requests) sample_threads"
    using sample_threads_run by (auto simp: numeral_2_eq_2)
  from writers_never_deadlock [OF this] show ?thesis by simp
qed

text \<open>
  C31: at every moment of every run, an entry is locked by at most
  one writer; and while a writer has the topology to itself, every other one holds at most
  the lifecycle lock, so that no entry of any workspace is being written.
\<close>

theorem writers_exclude_each_other:
  assumes "lock_run writers_first (map request_claims rs) ts" "i < length ts" "k < length ts" "i \<noteq> k"
  shows "\<not> ((Entry w e, Exclusive) \<in> set (held (ts ! i)) \<and> (Entry w e, Exclusive) \<in> set (held (ts ! k)))
    \<and> ((Topology, Exclusive) \<in> set (held (ts ! i)) \<longrightarrow> fst ` set (held (ts ! k)) \<subseteq> {Lifecycle})"
  using entry_holder_unique [OF assms(1-3)] topology_writer_alone [OF assms(1-4)] assms(4) by blast

theorem writers_exclude_each_other_witness:
  "(Topology, Exclusive) \<in> set (held (sample_threads ! 1)) \<and> fst ` set (held (sample_threads ! 0)) \<subseteq> {Lifecycle}"
proof -
  have "lock_run True (map request_claims sample_requests) sample_threads"
    using sample_threads_run unfolding lock_run_def by (meson rtranclp.simps)
  from writers_exclude_each_other [OF this, of 1 0] show ?thesis by (simp add: sample_threads_def)
qed

section \<open>The local database\<close>

text \<open>
  C10: whatever methods are called on a new local database, in any
  order and with any arguments, its tables stay well formed: row ids and keys are unique,
  the next ids are above all used ones, and every revision belongs to an indexed object.
\<close>

theorem local_index_invariant:
  assumes "(index_step L)\<^sup>*\<^sup>* empty_index db"
  shows "index_ok L db"
  by (rule reachable_index_ok [OF assms])

theorem local_index_invariant_witness: "index_ok sample_libs sample_index"
  by (rule local_index_invariant [OF sample_index_reached])

text \<open>
  C16: the index of local files refines a map from file ids to places in
  a tree. Any sequence of registrations, changes of one file, removals, moves of a folder
  and deletions at or under a folder acts on it name by name: a moved folder takes along
  exactly what lies in it, at the places \<open>moved_to\<close> that \<open>std::fs::rename\<close> gives
  its files, and a folder whose name only begins with its name stays. The paths of the index
  and of the calls have to be absolute paths of plain names, as the engine writes them; the
  index stays so.
\<close>

theorem index_refines_places:
  assumes "texts_ok db" "list_all texts_in cs"
  shows "spots_of (fold (run_index L) cs db) = fold (act_index (revised L db)) cs (spots_of db)
    \<and> texts_ok (fold (run_index L) cs db)"
  using places.calls_refine [of db L "revised L db" cs] assms by simp

theorem index_refines_places_witness:
  "spots_of (fold (run_index sample_libs) sample_calls sample_index) 1
      = Some \<lparr>sp_place = Root_Dir # map Normal [''d'', ''c'', ''b'', ''t''], sp_key = map Normal [''c'', ''b'', ''t''],
          sp_folder = False, sp_phase = Gone\<rparr>
    \<and> spots_of (fold (run_index sample_libs) sample_calls sample_index) 5
      = Some \<lparr>sp_place = Root_Dir # map Normal [''d'', ''ab''], sp_key = [Normal ''ab''], sp_folder = False, sp_phase = Live\<rparr>"
proof -
  have "texts_ok sample_index" "list_all texts_in sample_calls" by code_simp+
  from index_refines_places [OF this, of sample_libs] have after:
    "spots_of (fold (run_index sample_libs) sample_calls sample_index)
      = fold (act_index (revised sample_libs sample_index)) sample_calls (spots_of sample_index)" by simp
  have "fold (act_index {}) sample_calls (spots_of sample_index) 1
      = Some \<lparr>sp_place = Root_Dir # map Normal [''d'', ''c'', ''b'', ''t''], sp_key = map Normal [''c'', ''b'', ''t''],
          sp_folder = False, sp_phase = Gone\<rparr>"
    "fold (act_index {}) sample_calls (spots_of sample_index) 5
      = Some \<lparr>sp_place = Root_Dir # map Normal [''d'', ''ab''], sp_key = [Normal ''ab''], sp_folder = False, sp_phase = Live\<rparr>"
    by code_simp+
  moreover have "revised sample_libs sample_index = {}"
    by (simp add: revised_def sample_index_def add_transfer_def write_file_index_def empty_index_def)
  ultimately show ?thesis unfolding after by simp
qed

text \<open>
  C32: moving an indexed folder to a free place and back leaves every
  file, and every job, with the path, key and state it had.
\<close>

theorem subtree_move_roundtrip:
  assumes "plain_folder a" "plain_folder b" "movable a b ra db"
    and "db' = move_subtree at' b a rb ra (move_subtree at a b ra rb db)"
  shows "map object_place (object_rows db') = map object_place (object_rows db)
    \<and> map transfer_place (transfers db') = map transfer_place (transfers db)"
  unfolding assms(4) using move_subtree_back [OF assms(1-3)] by blast

theorem subtree_move_roundtrip_witness:
  "map object_place (object_rows (move_subtree ''3'' ''/d/b'' ''/d/a'' ''b'' ''a''
      (move_subtree ''2'' ''/d/a'' ''/d/b'' ''a'' ''b'' sample_index))) = map object_place (object_rows sample_index)
    \<and> object_rows (move_subtree ''2'' ''/d/a'' ''/d/b'' ''a'' ''b'' sample_index) \<noteq> object_rows sample_index"
proof
  have free: "movable ''/d/a'' ''/d/b'' ''a'' sample_index" by code_simp
  show "map object_place (object_rows (move_subtree ''3'' ''/d/b'' ''/d/a'' ''b'' ''a''
      (move_subtree ''2'' ''/d/a'' ''/d/b'' ''a'' ''b'' sample_index))) = map object_place (object_rows sample_index)"
    by (rule conjunct1 [OF subtree_move_roundtrip [OF _ _ free refl]]) (simp_all add: plain_folder_def)
  have "map ob_local_path (object_rows (move_subtree ''2'' ''/d/a'' ''/d/b'' ''a'' ''b'' sample_index)) = [''/d/b/t'']"
    "map ob_local_path (object_rows sample_index) = [''/d/a/t'']"
    by code_simp+
  then show "object_rows (move_subtree ''2'' ''/d/a'' ''/d/b'' ''a'' ''b'' sample_index) \<noteq> object_rows sample_index"
    by force
qed

text \<open>
  Queueing a transfer never piles up jobs. If unfinished jobs for the
  file and direction exist, all of them are reset to the new place and size and no job is
  added, else exactly one is; jobs of other files, of the other direction and finished
  ones stay as they are.
\<close>

theorem enqueue_coalesces:
  "list_all (redirected at p k n b) (filter (unfinished_for d i) (transfers (enqueue_transfer at d i p k n b db)))
    \<and> length (filter (unfinished_for d i) (transfers (enqueue_transfer at d i p k n b db)))
      = max 1 (length (filter (unfinished_for d i) (transfers db)))
    \<and> filter (\<lambda>t. \<not> unfinished_for d i t) (transfers (enqueue_transfer at d i p k n b db))
      = filter (\<lambda>t. \<not> unfinished_for d i t) (transfers db)"
  by (intro conjI enqueue_transfer_result(2-4) [OF refl])

text \<open>
  C33: an ordinary file is edited while its job is uploaded and keeps its
  length. When the job finishes, the database records the content that was uploaded with
  the size and the mtime of the edited file. Neither the scan nor the check before a
  download sees the edit from then on, whatever its bytes are.
\<close>

theorem upload_hides_edit:
  assumes "tj_expected_content_hash job = None" "indexed_place L (tj_file_id job) db = Some (p, k, parent)" "p \<noteq> []"
    and "fe_entry_type x = File" "files p = Some f" "fl_mtime f \<noteq> None"
    and "fe_size x = file_len f" "length (fl_bytes f) < 2 ^ 63"
    and "db' = snd (finish_upload L (probe_of files keys) at job x same db)"
  shows "(\<exists>r. get_file_snapshot_by_local_path p db' = Some r \<and> ob_local_hash r = fe_content_hash x)
    \<and> scan_known_file L P now' p f db' \<noteq> Changed_Content
    \<and> \<not> local_file_edited L db' files p"
proof -
  obtain r where r: "get_file_snapshot_by_local_path p db' = Some r" "ob_state r = Synced"
    "ob_size r = sint (fe_size x)" "ob_local_hash r = fe_content_hash x" "ob_local_mtime r = fl_mtime f"
    using unbound_upload_row [OF assms(1,2,4)] assms(3,5,9)
    by (metis (no_types, lifting) bind.bind_lunit local_probe.select_convs(1) probe_of_def)
  have "sint (fe_size x) = int (length (fl_bytes f))"
    using assms(8) by (simp add: assms(7) file_len_def signed_of_nat signed_take_bit_int_eq_self)
  then have "snapshot_size r = file_len f" using r(3) by (simp add: snapshot_size_def file_len_def)
  then have "unchanged_mtime r f" "fingerprint_matches r (Some f)"
    using r(2,5) assms(6) by (simp_all add: unchanged_mtime_def fingerprint_matches_def)
  then show ?thesis using r(1,4) assms(5) by (simp add: scan_known_file_def local_file_edited_def)
qed

theorem upload_hides_edit_witness:
  "\<not> local_file_edited sample_libs (snd (finish_upload sample_libs (probe_of edited_files (\<lambda>p. None)) ''2'' sample_job
       (indexed_file 1 ''old'') True sample_index)) edited_files ''/d/a/t''
    \<and> \<not> content_hash_matches (fe_content_hash (indexed_file 1 ''old'')) (blob_hash sample_libs (fl_bytes edited_file))"
proof
  show "\<not> local_file_edited sample_libs (snd (finish_upload sample_libs (probe_of edited_files (\<lambda>p. None)) ''2'' sample_job
       (indexed_file 1 ''old'') True sample_index)) edited_files ''/d/a/t''"
  proof (rule upload_hides_edit [where f = edited_file, THEN conjunct2, THEN conjunct2])
    show "indexed_place sample_libs (tj_file_id sample_job) sample_index = Some (''/d/a/t'', ''a/t'', None)"
      by code_simp
  qed (simp_all add: sample_job_def indexed_file_def edited_files_def edited_file_def file_len_def)
  show "\<not> content_hash_matches (fe_content_hash (indexed_file 1 ''old'')) (blob_hash sample_libs (fl_bytes edited_file))"
    by code_simp
qed

section \<open>Journal entries in the database\<close>

text \<open>
  C18: projecting a journal entry on the database a second time, as
  after a crash between the projection and the next step, changes nothing but the time
  stamps of jobs.
\<close>

theorem intent_replay_idempotent:
  assumes "libs_ok L" "distinct (map identity_id (mi_changes x))"
    and "db1 = notes_project_intent L at root x True db"
  shows "undated (notes_project_intent L at' root x True db1) = undated db1"
proof -
  have "inj (uuid_text L)" by (rule injI) (simp add: uuid_text_inj [OF assms(1)])
  then show ?thesis by (rule project_again [OF _ assms(2,3)])
qed

theorem intent_replay_idempotent_witness:
  "undated (notes_project_intent sample_libs ''3'' ''/d'' sample_intent True
      (notes_project_intent sample_libs ''2'' ''/d'' sample_intent True sample_index))
    = undated (notes_project_intent sample_libs ''2'' ''/d'' sample_intent True sample_index)
    \<and> length (transfers (notes_project_intent sample_libs ''2'' ''/d'' sample_intent True sample_index)) = 2"
proof
  show "undated (notes_project_intent sample_libs ''3'' ''/d'' sample_intent True
      (notes_project_intent sample_libs ''2'' ''/d'' sample_intent True sample_index))
    = undated (notes_project_intent sample_libs ''2'' ''/d'' sample_intent True sample_index)"
    by (rule intent_replay_idempotent [OF sample_libs_ok _ refl]) (simp add: sample_intent_def)
  show "length (transfers (notes_project_intent sample_libs ''2'' ''/d'' sample_intent True sample_index)) = 2"
    by code_simp
qed

text \<open>
  C37: recovery does not repeat the projection alone. It first projects
  the entry without its changes, in the stage the journal has, and that overwrites the
  stage \<open>indexed\<close> the database compares with. So after a crash between the projection and
  the journal's own record of it, recovery queues every upload of the entry again.
\<close>

theorem recovery_queues_twice:
  assumes "mi_stage x \<noteq> ''indexed''" "queues_content x"
    and "crashed = notes_project_intent L at root x True db"
  shows "length (transfers (notes_project_intent L at' root x True (notes_project_intent L at' root x False crashed)))
      = length (transfers crashed) + queued_by x
    \<and> length (transfers (notes_project_intent L at' root x True crashed)) = length (transfers crashed)"
  using assms by (simp add: project_jobs project_stage)

theorem recovery_queues_twice_witness:
  "length (transfers (notes_project_intent sample_libs ''3'' ''/d'' sample_intent True
      (notes_project_intent sample_libs ''3'' ''/d'' sample_intent False
        (notes_project_intent sample_libs ''2'' ''/d'' sample_intent True sample_index)))) = 3"
proof -
  have "length (transfers (notes_project_intent sample_libs ''2'' ''/d'' sample_intent True sample_index)) = 2"
    "queued_by sample_intent = 1"
    by code_simp+
  moreover have "mi_stage sample_intent \<noteq> ''indexed''" "queues_content sample_intent"
    by (simp_all add: sample_intent_def queues_content_def)
  ultimately show ?thesis
    using recovery_queues_twice [of sample_intent _ sample_libs "''2''" "''/d''" sample_index "''3''", OF _ _ refl] by simp
qed

text \<open>
  The question whether a workspace has pending work looks for
  uploads in the states \<open>pending\<close> and \<open>running\<close>, which no job can have; so the answer is
  whether the journal table has an entry of the workspace, whatever is queued.
\<close>

theorem pending_upload_unseen:
  "notes_has_pending_mutations ws db \<longleftrightarrow> (\<exists>m \<in> set (mutation_rows db). mu_workspace_id m = ws)"
proof -
  have "transfer_status_text s \<notin> {''pending'', ''running''}" for s by (cases s) auto
  then show ?thesis by (auto simp: notes_has_pending_mutations_def changes_pos)
qed

section \<open>Paths in the sync folder\<close>

text \<open>
  C38: the path of a remote key is refused exactly if the key has a \<open>..\<close> or
  starts at the root; else it is the sync folder followed by plain names, and the key that
  is computed back from it is the key's own list of names.
\<close>

theorem safe_join_inside:
  "case safe_join_sync_path folder key of
     Inl e \<Rightarrow> e = remote_path_escapes key
       \<and> (Parent_Dir \<in> set (path_components key) \<or> Root_Dir \<in> set (path_components key))
   | Inr p \<Rightarrow> Parent_Dir \<notin> set (path_components key) \<and> Root_Dir \<notin> set (path_components key)
       \<and> path_components p = path_components folder @ map Normal (normal_names (path_components key))
       \<and> list_all plain_name (normal_names (path_components key))
       \<and> relative_s3_key folder p = Inr (path_text (normal_names (path_components key)))"
proof (cases "safe_join_sync_path folder key")
  case (Inl e)
  then show ?thesis by (auto simp: safe_join_sync_path_def safe_join_loop_pushes split: if_splits)
next
  case (Inr p)
  then have "Parent_Dir \<notin> set (path_components key) \<and> Root_Dir \<notin> set (path_components key)"
    by (auto simp: safe_join_sync_path_def safe_join_loop_pushes split: if_splits)
  then show ?thesis
    using Inr safe_join_components [OF Inr] relative_key_of_join [OF Inr] normal_names_plain by simp
qed

section \<open>Events of the file system\<close>

text \<open>
  C39: as long as every reported rename goes to a place where
  nothing is, the events that are left after the closed trips of renames are dropped have
  the effect on the disk that all of them have together, creations, deletions and folders
  in between included.
\<close>

theorem round_trips_change_nothing:
  assumes "vacant_moves evs s"
  shows "fold disk_effect (drop_rename_round_trips evs) s = fold disk_effect evs s"
  by (rule round_trips_free(1) [OF assms])

theorem round_trips_change_nothing_witness:
  "fold disk_effect (drop_rename_round_trips [Renamed ''/a'' ''/b'', Renamed ''/b'' ''/c'', Renamed ''/c'' ''/b''])
      (Map.empty(''/a'' \<mapsto> 0), 1)
    = fold disk_effect [Renamed ''/a'' ''/b'', Renamed ''/b'' ''/c'', Renamed ''/c'' ''/b''] (Map.empty(''/a'' \<mapsto> 0), 1)
   \<and> drop_rename_round_trips [Renamed ''/a'' ''/b'', Renamed ''/b'' ''/c'', Renamed ''/c'' ''/b''] = [Renamed ''/a'' ''/b'']"
proof
  show "fold disk_effect (drop_rename_round_trips [Renamed ''/a'' ''/b'', Renamed ''/b'' ''/c'', Renamed ''/c'' ''/b''])
      (Map.empty(''/a'' \<mapsto> 0), 1)
    = fold disk_effect [Renamed ''/a'' ''/b'', Renamed ''/b'' ''/c'', Renamed ''/c'' ''/b''] (Map.empty(''/a'' \<mapsto> 0), 1)"
    by (rule round_trips_change_nothing) (auto simp: is_inside_iff move_tree_def)
  show "drop_rename_round_trips [Renamed ''/a'' ''/b'', Renamed ''/b'' ''/c'', Renamed ''/c'' ''/b''] = [Renamed ''/a'' ''/b'']"
    by code_simp
qed

text \<open>
  A file that is moved over another one and back replaces it for
  good, and the stream reports nothing at all.
\<close>

theorem replaced_file_unseen:
  "fst (drain moment (new_stream\<lparr>es_rx := [Ready (Renamed ''/a'' ''/b''), Ready (Renamed ''/b'' ''/a'')]\<rparr>)) = []
    \<and> fst (fold disk_effect [Renamed ''/a'' ''/b'', Renamed ''/b'' ''/a''] (Map.empty(''/a'' \<mapsto> 0, ''/b'' \<mapsto> 1), 2))
      = Map.empty(''/a'' \<mapsto> 0)"
proof
  have "drop_rename_round_trips [Renamed ''/a'' ''/b'', Renamed ''/b'' ''/a''] = []" by code_simp
  then show "fst (drain moment (new_stream\<lparr>es_rx := [Ready (Renamed ''/a'' ''/b''), Ready (Renamed ''/b'' ''/a'')]\<rparr>)) = []"
    by (simp add: drain_def arrived_def receive_def new_stream_def drained_def edits_follow_renames_def)
  show "fst (fold disk_effect [Renamed ''/a'' ''/b'', Renamed ''/b'' ''/a''] (Map.empty(''/a'' \<mapsto> 0, ''/b'' \<mapsto> 1), 2))
      = Map.empty(''/a'' \<mapsto> 0)"
    by (auto simp: move_tree_def is_inside_iff fun_eq_iff)
qed

text \<open>
  C40: reordering the edits behind the renames loses and invents nothing:
  deletions and renames keep their order, every creation and modification is there once,
  at the place the later renames carried its file to, and no rename that is still to come
  moves it again.
\<close>

theorem edits_follow_files:
  "filter (\<lambda>e. \<not> is_edit e) (edits_follow_renames evs) = filter (\<lambda>e. \<not> is_edit e) evs
    \<and> mset (filter is_edit (edits_follow_renames evs)) = mset (carried_edits evs)
    \<and> sorted_wrt stays (edits_follow_renames evs)"
  using edits_keep_others edits_carried edits_settled by blast

text \<open>
  A drain reports a path as deleted exactly if a removal was notified,
  or if the file was moved away from it, the wait for the other half is over and no rename
  from that path has arrived. A half waits exactly until its rename arrives or the wait is
  over; so a rename inside the folder never deletes the file, however its three
  notifications are spread over drains in that time.
\<close>

theorem deletions_reported:
  "(Deleted p \<in> set (fst (drain moment s)) \<longleftrightarrow>
      (\<exists>since. (Ready (Deleted p), since) \<in> set (arrived moment s))
      \<or> (\<exists>since. (Rename_From p, since) \<in> set (arrived moment s) \<and> moment - since \<ge> es_pair_wait s
          \<and> \<not> paired (arrived moment s) (Rename_From p)))
    \<and> set (es_held (snd (drain moment s))) = {(raw, since). (raw, since) \<in> set (arrived moment s) \<and> is_half raw
        \<and> \<not> paired (arrived moment s) raw \<and> moment - since < es_pair_wait s}"
  using drain_deletions drain_held by blast

section \<open>Collection of blobs\<close>

text \<open>
  C20: a sweep among other devices, in any interleaving with their
  requests, returns and does not delete a blob that an object of the bucket refers to all the time: a
  tree entry, a deletion record, an operation or a snapshot. Requests may fail or lose
  their reply, as long as a failure is not reported as a missing object; the pages of a
  listing may be of any size, and any candidates may be due.
\<close>

theorem referenced_blob_kept:
  assumes "libs_ok L" "pages_ok G" "index_ok L (mt_db w)"
    and "\<forall>c \<in> set (blob_candidates (mt_db w)). starts_with (bc_blob_key c) blob_prefix"
    and "b \<in> set (blob_candidates (mt_db w))" "refers L b k body"
    and "guarded (referenced (bc_blob_key b) data k body) w" "honest w"
  shows "\<exists>r w'. sweep_remote_blob_candidates L G R n batch w = Some (r, w')
    \<and> contents (objects w') (bc_blob_key b) = Some data"
proof -
  obtain r w' where run: "sweep_remote_blob_candidates L G R n batch w = Some (r, w')"
    using sweep_returns [OF assms(2)] by blast
  have "refers L c k body" if "c \<in> set (blob_candidates (mt_db w))" "bc_blob_key c = bc_blob_key b" for c
    using candidates_distinct [OF assms(3)] assms(5,6) that by (metis distinct_map inj_onD)
  then have "contents (objects w') (bc_blob_key b) = Some data"
    by (intro sweep_keeps_referenced [OF assms(1,2) _ assms(6) _ _ _ run]) (use assms in \<open>auto simp: safe_def\<close>)
  then show ?thesis using run by blast
qed

theorem referenced_blob_kept_witness:
  "\<exists>r w'. sweep_remote_blob_candidates sample_libs sample_pager Some 250 1
      (sample_maintainer (collecting ''x'') (referring_bucket ''x'')) = Some (r, w')
    \<and> contents (objects w') (bc_blob_key (due_blob ''x'')) = Some ''x''"
  by (rule referenced_blob_kept [OF sample_libs_ok sample_pages_ok _ _ _ sample_refers])
    (auto simp: sample_referenced sample_honest collecting_ok, auto simp: collecting_def blob_key_def blob_prefix_def
      starts_with_iff)

text \<open>
  C30: the lease of an upload comes too late for a blob that is already in
  the bucket. The upload finds the blob and sends nothing; another device, which has found
  no reference and no lease, deletes it; then the lease is written and the upload goes on
  with a content reference to a blob that is gone.
\<close>

theorem leased_blob_lost:
  "\<exists>c w1 k w2.
     store_file sample_libs path (Inr data) (Inr data) (Inr data) mime
       ((sample_world (only_blob data))\<lparr>events := [no_event, no_event\<lparr>ev_env := swept_by_other data\<rparr>]\<rparr>)
       = (Inr (cr_blob_id c, c), w1)
   \<and> contents (objects w1) (cr_storage_key c) = Some data
   \<and> create_blob_lease sample_libs sample_env 8 c ttl w1 = (Inr k, w2)
   \<and> contents (objects w2) (cr_storage_key c) = None \<and> contents (objects w2) k \<noteq> None"
proof -
  let ?h = "blob_hash sample_libs data"
  let ?c = "content_ref_for sample_libs data (if length data < 2 ^ 64 then of_nat (length data) else u64_max) mime"
  let ?w = "(sample_world (only_blob data))\<lparr>events := [no_event, no_event\<lparr>ev_env := swept_by_other data\<rparr>]\<rparr>"
  let ?w1 = "?w\<lparr>events := [no_event\<lparr>ev_env := swept_by_other data\<rparr>]\<rparr>"
  let ?k = "blob_lease_key ?h (uuid_text sample_libs 8)"
  have there: "contents (only_blob data) (blob_key ?h) = Some data" by (simp add: only_blob_def)
  have stored: "store_file sample_libs path (Inr data) (Inr data) (Inr data) mime ?w = (Inr (cr_blob_id ?c, ?c), ?w1)"
    using there
    by (auto simp: store_file_def hash_file_blake3_def head_object_def serve_def no_event_def
        mem_head_object_def contents_def content_ref_for_def Let_def io_try_apply io_bind_apply io_result_apply
        io_return_apply sample_world_def split: prod.splits)
  obtain w2 where w2: "create_blob_lease sample_libs sample_env 8 ?c ttl ?w1 = (Inr ?k, w2)"
      "contents (objects w2) = (contents (swept_by_other data (only_blob data)))(?k \<mapsto> ''{}'')"
    by (simp add: create_blob_lease_def utc_now_def io_bind_apply io_get_apply io_result_apply io_return_apply
        Let_def render_pretty_def sample_env_def put_object_def serve_def no_event_def mem_put_object_def sample_world_def
        content_ref_for_def del: btree_insert.simps split: prod.split)
  have key: "cr_storage_key ?c = blob_key ?h" "?k \<noteq> blob_key ?h"
    by (simp add: content_ref_for_def) (auto simp: blob_lease_key_def blob_key_def)
  have "contents (objects ?w1) (cr_storage_key ?c) = Some data" "contents (objects w2) (cr_storage_key ?c) = None"
    "contents (objects w2) ?k \<noteq> None"
    using there sample_sweep_deletes [of data] w2(2) key by simp_all
  then show ?thesis using stored w2(1) by blast
qed

section \<open>Folders and their recovery\<close>

text \<open>
  C8: \<open>place_folder\<close> creates a folder of the bucket on disk or moves it
  there with everything inside. If no other program changes the local folder meanwhile and
  the path the index has for this folder is not a file on disk, then the local tree stays
  well-formed and every file in it is kept, whatever \<open>place_folder\<close> answers, whatever other
  devices do to the bucket, and whichever requests fail.
\<close>

theorem placing_loses_nothing:
  assumes "tree_ok (sh_tree w)" "on_disk_folder (folder_by_id i (mt_db w)) (sh_tree w)"
    and "place_folder L E C i p dir w = (r, w')"
  shows "tree_ok (sh_tree w') \<and> keeps_files (sh_tree w) (sh_tree w')"
  using assms by (rule place_folder_spares)

theorem placing_loses_nothing_witness:
  "node_at (sh_tree (snd (place_folder sample_libs sample_device sample_prompt_codec 3 \<lparr>pl_parent_id = None, pl_name = ''b''\<rparr> []
      (sample_host moving_index [] sample_tree)))) ''/s/b/f'' = Some (Tree_File ''x'')
   \<and> tree_ok (sh_tree (snd (place_folder sample_libs sample_device sample_prompt_codec 3 \<lparr>pl_parent_id = None, pl_name = ''b''\<rparr> []
      (sample_host moving_index [] sample_tree))))
   \<and> keeps_files sample_tree (sh_tree (snd (place_folder sample_libs sample_device sample_prompt_codec 3
      \<lparr>pl_parent_id = None, pl_name = ''b''\<rparr> [] (sample_host moving_index [] sample_tree))))"
proof -
  have ok: "tree_ok (sh_tree (sample_host moving_index [] sample_tree))" by (simp add: sample_tree_ok)
  have "on_disk_folder (folder_by_id 3 (mt_db (sample_host moving_index [] sample_tree))) (sh_tree (sample_host moving_index [] sample_tree))"
    using moving_known by (simp add: on_disk_folder_def split: option.splits)
  from placing_loses_nothing [OF ok this prod.collapse [symmetric]] sample_moved show ?thesis by simp
qed

text \<open>
  C9: carrying out the user's decision on a missing folder, restore or
  delete, keeps the local tree well-formed, every node in a directory and none twice, and
  every file that is in it, wherever it breaks off.
\<close>

theorem recovery_keeps_tree:
  assumes "tree_ok (sh_tree w)" "fetches fetch" "resolve_recovery L M E C D fetch i decision w = (r, w')"
  shows "tree_ok (sh_tree w') \<and> keeps_files (sh_tree w) (sh_tree w')"
  using sparesD [OF resolve_recovery_spares [OF assms(2)] assms(1,3)] .

theorem recovery_keeps_tree_witness:
  "inspect sample_libs sample_prompt_codec ''/s'' (sample_host pending_index [] bare_tree)
     = (Inr (Some (new_prompt 1 ''/s'' None)), sample_host pending_index [] bare_tree)
   \<and> tree_ok (sh_tree (snd (resolve_recovery sample_libs sample_env sample_device sample_prompt_codec sample_journal_codec
      get_object 1 Decide_Restore (sample_host pending_index [] bare_tree))))
   \<and> keeps_files bare_tree (sh_tree (snd (resolve_recovery sample_libs sample_env sample_device sample_prompt_codec
      sample_journal_codec get_object 1 Decide_Restore (sample_host pending_index [] bare_tree))))"
proof -
  have ok: "tree_ok (sh_tree (sample_host pending_index [] bare_tree))" by (simp add: bare_tree_ok)
  have "fetches (get_object :: string \<Rightarrow> (sync_host, core_error, string) io)"
    using leaves_bucket(4) [OF tree_views(1)] by (auto simp: fetches_def leaves_iff)
  from recovery_keeps_tree [OF ok this prod.collapse [symmetric]] show ?thesis by (simp add: sample_pending)
qed

text \<open>
  C11: when the sync folder was in use and is gone, no folder is created or
  moved. The first attempt stores the prompt and fails; it and every later one leave the
  bucket, the index of files and the disk alone until the user decides.
\<close>

theorem missing_root_blocks:
  assumes "get_checkpoint (prompt_key L (se_folder E)) (mt_db w) \<in> {None, Some []}"
    and "is_directory_at (se_folder E) (sh_tree w) = Inr False" "workspace_known L (se_folder E) (mt_db w)"
    and "encode C (new_prompt (uuid_now_v7 L (draws w)) (se_folder E) None) = Inr json"
    and "decode C json = Inr (new_prompt (uuid_now_v7 L (draws w)) (se_folder E) None)" "json \<noteq> []"
  shows "\<exists>r w'. place_folder L E C i p dir w = (Inl (missing_error r), w') \<and> fr_path r = se_folder E
    \<and> objects w' = objects w \<and> object_rows (mt_db w') = object_rows (mt_db w) \<and> sh_tree w' = sh_tree w
    \<and> place_folder L E C i' p' dir' w' = (Inl (missing_error r), w')
    \<and> ensure_folder L E C path w' = (Inl (missing_error r), w')"
proof -
  let ?r = "new_prompt (uuid_now_v7 L (draws w)) (se_folder E) None"
  let ?w = "w\<lparr>draws := draws w + 1, mt_db := set_checkpoint (prompt_key L (se_folder E)) json (mt_db w)\<rparr>"
  have first: "ensure_available L C (se_folder E) w = (Inl (missing_error ?r), ?w)"
    using inspect_missing_root [OF assms(1-4)] by (simp add: ensure_available_def io_simps missing_error_def)
  have "prompt_stays L C (se_folder E) ?r ?w"
    using assms(5,6) by (simp add: prompt_stays_def get_set_checkpoint) (simp add: new_prompt_def)
  from prompt_refuses [OF this] first show ?thesis
    by (intro exI [of _ ?r] exI [of _ ?w])
      (simp add: place_folder_def ensure_folder_def io_bind_apply, simp add: new_prompt_def)
qed

theorem missing_root_blocks_witness:
  "\<exists>r w'. place_folder sample_libs sample_device sample_prompt_codec 3 \<lparr>pl_parent_id = None, pl_name = ''a''\<rparr> []
      (sample_host (set_checkpoint (recovery_checkpoint sample_libs ''/s'' ''seen'') ''1'' empty_index) [] [])
      = (Inl (missing_error r), w') \<and> fr_path r = ''/s''"
proof -
  let ?db = "set_checkpoint (recovery_checkpoint sample_libs ''/s'' ''seen'') ''1'' empty_index"
  let ?w = "sample_host ?db [] []" and ?r = "new_prompt (uuid_now_v7 sample_libs 0) ''/s'' None"
  have folder: "se_folder sample_device = ''/s''" by (simp add: sample_device_def)
  have fresh: "get_checkpoint (prompt_key sample_libs (se_folder sample_device)) (mt_db ?w) \<in> {None, Some []}"
    by (simp add: get_set_checkpoint prompt_key_def checkpoint_endings folder)
  have gone: "is_directory_at (se_folder sample_device) (sh_tree ?w) = Inr False"
    by (simp add: is_directory_at_def node_at_def below_file_def is_file_node_def list_ex_iff)
  have known: "workspace_known sample_libs (se_folder sample_device) (mt_db ?w)"
    by (simp add: workspace_known_def get_set_checkpoint folder)
  have json: "encode sample_prompt_codec ?r = Inr (tokens_text (put_prompt ?r))"
    by (simp add: sample_prompt_codec_def text_codec_def)
  have decoded: "decode sample_prompt_codec (tokens_text (put_prompt ?r)) = Inr ?r"
    using codec_okD [OF sample_prompt_ok, of ?r] json by (auto simp: codec_ok_def json_of_def)
  have "tokens_text (put_prompt ?r) \<noteq> []" by (simp add: tokens_text_def put_prompt_def put_word_def)
  from missing_root_blocks [OF fresh gone known _ _ this] json decoded show ?thesis by (simp add: folder) blast
qed

text \<open>
  C3: the deletion the user confirmed only takes away what the user
  saw. A tree entry that is in another version than every confirmed one, and that the other
  devices keep like this, is still there in such a version when \<open>delete_targets\<close> has
  finished or failed, whatever became of the requests.
\<close>

theorem confirmed_deletion_spares:
  assumes "guarded (other_version (tree_entry_key L i) (confirmed_tags q)) w"
    and "delete_targets L D device q w = (r, w')"
  shows "other_version (tree_entry_key L i) (confirmed_tags q) (objects w')"
  using keepsD [OF keeps_delete_targets assms] by (simp add: guarded_def)

theorem confirmed_deletion_spares_witness:
  "\<exists>w'. delete_targets sample_libs sample_journal_codec 7 confirmed_prompt (sample_host empty_index changed_bucket sample_tree)
      = (Inl changed_before, w')
    \<and> contents (objects w') (tree_entry_key sample_libs 5) = None
    \<and> other_version (tree_entry_key sample_libs 3) (confirmed_tags confirmed_prompt) (objects w')"
proof -
  have "guarded (other_version (tree_entry_key sample_libs 3) (confirmed_tags confirmed_prompt))
      (sample_host empty_index changed_bucket sample_tree)"
    using changed_version by (simp add: guarded_def env_keeps_def)
  from confirmed_deletion_spares [OF this] changed_deletion [of sample_tree] show ?thesis by blast
qed

text \<open>
  C4: the commit of a confirmed deletion, tried any number of times with a
  new log object each and the journal in the local database, while other devices commit and
  requests fail, lose their replies or are repeated, puts at most one operation of this
  device into the history, the deletion asked for; every try that answers \<open>Ok\<close> names it.
\<close>

theorem deletion_committed_once:
  assumes "libs_ok L" "deletion_new L D key d (max_commit_attempts * length clocks) K w"
    and "deletion_runs L D key d x clocks w = (rs, u)" "own = (\<lambda>y. is_own L d (op_op_id y))"
  shows "\<exists>new. committed L (objects u) (new @ K) \<and> length (filter own new) \<le> 1
    \<and> list_all (request_of (fe_file_id x) Delete (deletion_effects x)) (filter own new)
    \<and> list_all (\<lambda>r. case r of Inl _ \<Rightarrow> True | Inr c \<Rightarrow> filter own new = [dc_operation c]) rs"
  unfolding assms(4) by (rule deletion_runs_once [OF assms(1-3)])

theorem deletion_committed_once_witness:
  "\<exists>new. committed sample_libs (objects (snd (deletion_runs sample_libs sample_journal_codec ''k'' 7 (sample_entry []) [0, 5]
        (sample_host empty_index [] sample_tree)))) (new @ [])
    \<and> length (filter (\<lambda>y. is_own sample_libs 7 (op_op_id y)) new) \<le> 1"
proof -
  have "deletion_new sample_libs sample_journal_codec ''k'' 7 (max_commit_attempts * length [0 :: u64, 5]) []
      (sample_host empty_index [] sample_tree)"
    using sample_deletion_new by (simp add: max_commit_attempts_def)
  from deletion_committed_once [OF sample_libs_ok this prod.collapse [symmetric] refl] show ?thesis by blast
qed

text \<open>
  C14: the path \<open>remote_path\<close> gives an entry of the bucket is that of the
  specification \<open>named_path\<close>, the names of its ancestors joined by slashes; it answers a path
  exactly if the walk up the tree, by folders that are there, ends at one without parent.
\<close>

theorem remote_path_walks_up:
  assumes "entry_by_id entries (fe_file_id x) = Some x"
  shows "remote_path x entries = Inr (Some p) \<longleftrightarrow> (\<exists>ns. named_path entries x ns \<and> p = str_join ''/'' ns)"
  using assms by (rule remote_path_exact)

theorem remote_path_walks_up_witness:
  "remote_path (sample_entry []) [sample_entry []] = Inr (Some (fe_name (sample_entry [])))
    \<longleftrightarrow> (\<exists>ns. named_path [sample_entry []] (sample_entry []) ns \<and> fe_name (sample_entry []) = str_join ''/'' ns)"
  by (rule remote_path_walks_up) (simp add: entry_by_id_def)

text \<open>
  C34: restoring a file is no longer possible once it has been restored. The
  hash of a file on disk carries the prefix \<open>blake3:\<close> and that of the content reference does
  not, so \<open>restore_data\<close> takes the very bytes it has written for a file that appeared: a
  restore that breaks off after its first file fails with a conflict at every later try.
\<close>

theorem restored_file_refused:
  assumes "fetches fetch" "node_at (sh_tree w) target = None"
    and "restore_content L fetch content target w = (Inr (), w')"
  shows "restore_content L fetch content target w' = (Inl (local_file_appeared target), w')"
proof -
  have "\<exists>b. node_at (sh_tree w') target = Some (Tree_File b)
      \<and> (node_at (sh_tree w) target = None \<longrightarrow> blob_hash L b = cr_hash content)"
    using assms(1,3) by (rule restored_file)
  then obtain b where "node_at (sh_tree w') target = Some (Tree_File b)" "blob_hash L b = cr_hash content"
    using assms(2) by blast
  then show ?thesis by (rule restore_present)
qed

theorem restored_file_refused_witness:
  "\<exists>w'. restore_content sample_libs get_object (bare_content ''y'') ''/s/g'' (sample_host empty_index [(''k'', ''y'', [])] sample_tree)
      = (Inr (), w')
    \<and> restore_content sample_libs get_object (bare_content ''y'') ''/s/g'' w' = (Inl (local_file_appeared ''/s/g''), w')"
proof -
  let ?w = "sample_host empty_index [(''k'', ''y'', [])] sample_tree"
  have comps: "path_components ''/s/g'' = sample_dir [''s'', ''g'']" by code_simp
  have none: "node_at (sh_tree ?w) ''/s/g'' = None"
    by (simp add: node_at_def comps) (simp add: sample_tree_def sample_dir_def)
  have "\<exists>w'. restore_content sample_libs get_object (bare_content ''y'') ''/s/g'' ?w = (Inr (), w')"
    using none
    by (simp add: restore_content_def io_simps ask_tree_def capture_tree_def below_file_def comps quiet_requests contents_def
        bare_content_def tree_call_def put_file_def parent_is_dir_def)
      (simp add: sample_tree_def sample_dir_def is_file_node_def)
  then obtain w' where w': "restore_content sample_libs get_object (bare_content ''y'') ''/s/g'' ?w = (Inr (), w')" by blast
  have "fetches (get_object :: string \<Rightarrow> (sync_host, core_error, string) io)"
    using leaves_bucket(4) [OF tree_views(1)] by (auto simp: fetches_def leaves_iff)
  from restored_file_refused [OF this none w'] w' show ?thesis by blast
qed

text \<open>
  C12: two devices that create the same folder share its node. Undisturbed, the
  first one claims the id of the first generation, with one operation and the tree entry;
  another one that claims a folder at the same placement gets this id and changes nothing.
\<close>

theorem same_folder_shared:
  assumes "can_commit L (se_device E) K w" "contents (objects w) (tree_entry_key L (first_id L p)) = None"
    and "contents (objects w) (tombstone_key L (first_id L p)) = None" "folder_name_check L (first_id L p) p = Inr ()"
  shows "\<exists>x w'. claim_folder_id L E p w = (Inr (first_id L p), w') \<and> committed L (objects w') (x # K)
    \<and> op_target_file_id x = Some (first_id L p) \<and> op_op_type x = CreateFolder
    \<and> claim_folder_id L E' p w' = (Inr (first_id L p), w')"
proof -
  from claim_quiet [OF assms(1-3)] assms(4) obtain x w' at where c:
    "claim_folder_id L E p w = (Inr (first_id L p), w')" "committed L (objects w') (x # K)"
    "op_target_file_id x = Some (first_id L p)" "op_op_type x = CreateFolder" "events w' = []"
    "contents (objects w') (tree_entry_key L (first_id L p)) = Some (json_of (json_entry L) (new_folder_entry L (first_id L p) p at))"
    by auto
  have "libs_ok L" using assms(1) by (simp add: can_commit_def)
  from claim_found [OF this c(5,6)] c show ?thesis by blast
qed

theorem same_folder_shared_witness:
  "\<exists>w'. claim_folder_id sample_libs sample_device sample_placement (sample_host empty_index [] [])
      = (Inr (first_id sample_libs sample_placement), w')
    \<and> claim_folder_id sample_libs (sample_device\<lparr>se_device := 8\<rparr>) sample_placement w' = (Inr (first_id sample_libs sample_placement), w')"
proof -
  have "folder_name_check sample_libs (first_id sample_libs sample_placement) sample_placement = Inr ()" by (rule sample_placement_valid)
  from same_folder_shared [OF sample_can_commit _ _ this] show ?thesis by (simp add: contents_def) blast
qed

text \<open>
  C35: a folder whose name the validator of entries refuses, such as
  \<open>CON\<close>, gets an operation in the log all the same: \<open>create_remote\<close> commits before
  \<open>write_tree_entry\<close> validates. Every try fails, leaves the folder without an entry and
  adds one more operation.
\<close>

theorem refused_name_commits:
  assumes "can_commit L (se_device E) K w" "contents (objects w) (tree_entry_key L (first_id L p)) = None"
    and "contents (objects w) (tombstone_key L (first_id L p)) = None" "folder_name_check L (first_id L p) p = Inl e"
  shows "\<exists>x w'. claim_folder_id L E p w = (Inl e, w') \<and> committed L (objects w') (x # K)
    \<and> op_target_file_id x = Some (first_id L p) \<and> op_op_type x = CreateFolder
    \<and> contents (objects w') (tree_entry_key L (first_id L p)) = None"
proof -
  have no_conflict: "\<not> is_Conflict q" if "folder_name_check L (first_id L p) p = Inl q" for q
    using name_check_protocol [OF that] by (cases q) simp_all
  from claim_quiet [OF assms(1-3) no_conflict] show ?thesis unfolding assms(4) by simp blast
qed

theorem refused_name_commits_witness:
  "\<exists>x w'. claim_folder_id sample_libs sample_device \<lparr>pl_parent_id = None, pl_name = ''CON''\<rparr> (sample_host empty_index [] [])
      = (Inl (Protocol ''reserved filename: CON''), w') \<and> committed sample_libs (objects w') [x]"
proof -
  let ?p = "\<lparr>pl_parent_id = None, pl_name = ''CON''\<rparr>"
  have "folder_name_check sample_libs (first_id sample_libs ?p) ?p = Inl (Protocol ''reserved filename: CON'')" by (rule sample_reserved)
  from refused_name_commits [OF sample_can_commit _ _ this] show ?thesis by (simp add: contents_def) blast
qed

text \<open>
  C13: while a folder has a deletion record and no entry, and requests do
  not fail as if the object were missing, \<open>try_claim\<close> never answers that its id may be used,
  so the contents of a deleted folder do not come back inside a new one.
\<close>

theorem deleted_folder_id_taken:
  assumes "safe (folder_gone L i) w" "try_claim L E i p w = (r, w')"
  shows "r \<noteq> Inr True"
  by (rule claim_refused [OF assms(2,1)])

theorem deleted_folder_id_taken_witness:
  "fst (try_claim sample_libs sample_device 3 sample_placement
      (sample_host empty_index [(tombstone_key sample_libs 3, ''{}'', [])] [])) \<noteq> Inr True"
proof -
  have "safe (folder_gone sample_libs 3) (sample_host empty_index [(tombstone_key sample_libs 3, ''{}'', [])] [])"
    by (simp add: safe_def guarded_def env_keeps_def honest_def folder_gone_def contents_def key_defs)
  from deleted_folder_id_taken [OF this prod.collapse [symmetric]] show ?thesis .
qed

text \<open>
  C36: a folder that is deleted on another device, restored, and deleted
  again cannot be moved to the local trash while the first copy is still there with
  something in it: the place is the same, and every try fails.
\<close>

theorem trashed_folder_blocks:
  assumes "tree_ok (sh_tree w)" "path_components (trash_target L folder p i) = path_components (local_trash folder) @ [c]"
    and "node_at (sh_tree w) p = Some Tree_Dir" "node_at (sh_tree w) (trash_target L folder p i) = Some Tree_Dir"
    and "\<not> empty_dir (sh_tree w) (path_components (trash_target L folder p i))"
    and "\<not> prefix (path_components p) (path_components (trash_target L folder p i))"
  shows "\<exists>w'. move_local_file_to_trash L folder p i w
      = (Inl (FileSystem (''move deleted file to local trash '' @ p @ '' -> '' @ trash_target L folder p i @ '': ''
          @ ''Directory not empty (os error 39)'')), w') \<and> node_at (sh_tree w') = node_at (sh_tree w)"
  by (rule trash_occupied [OF assms(1) refl assms(2-6)])

theorem trashed_folder_blocks_witness:
  "\<exists>m. fst (move_local_file_to_trash sample_libs ''/s'' ''/s/a'' 3 (sample_host empty_index [] twice_deleted)) = Inl (FileSystem m)"
proof -
  have target: "path_components (trash_target sample_libs ''/s'' ''/s/a'' 3) = sample_dir [''s'', ''.s4drive'', ''trash'', ''local'', ''3-a'']"
    "path_components (local_trash ''/s'') = sample_dir [''s'', ''.s4drive'', ''trash'', ''local'']"
    "path_components ''/s/a'' = sample_dir [''s'', ''a'']" by code_simp+
  have ok: "tree_ok (sh_tree (sample_host empty_index [] twice_deleted))" by (simp add: twice_deleted_ok)
  have "path_components (trash_target sample_libs ''/s'' ''/s/a'' 3) = path_components (local_trash ''/s'') @ [Normal ''3-a'']"
    "node_at (sh_tree (sample_host empty_index [] twice_deleted)) ''/s/a'' = Some Tree_Dir"
    "node_at (sh_tree (sample_host empty_index [] twice_deleted)) (trash_target sample_libs ''/s'' ''/s/a'' 3) = Some Tree_Dir"
    "\<not> empty_dir (sh_tree (sample_host empty_index [] twice_deleted)) (path_components (trash_target sample_libs ''/s'' ''/s/a'' 3))"
    "\<not> prefix (path_components ''/s/a'') (path_components (trash_target sample_libs ''/s'' ''/s/a'' 3))"
    by (simp_all add: node_at_def target) (simp_all add: twice_deleted_def sample_tree_def sample_dir_def empty_dir_def strict_prefix_def)
  from trashed_folder_blocks [OF ok this] show ?thesis by auto
qed

end
